(* ===== verification/Prelude.thy ===== *)
theory Prelude
  imports Main "HOL-Library.Word"
begin

text \<open>
  Shared vocabulary of the development: bytes and machine words, results with a typed error,
  the fixed-width big-endian and little-endian codecs the Rust code gets from
  \<open>to_be_bytes\<close> / \<open>from_le_bytes\<close>, slices and in-place writes into a buffer, and
  the generic invariant argument used by every state machine of the development.
\<close>

named_theorems codec_simps \<open>byte-level facts about fixed-width integer codecs\<close>
named_theorems buffer_simps \<open>facts about slices of and writes into a buffer\<close>

type_synonym byte = "8 word"
type_synonym u16 = "16 word"
type_synonym u32 = "32 word"
type_synonym u64 = "64 word"
type_synonym bytes = "byte list"

text \<open>
  A Rust \<open>Result<T, E>\<close> is a sum with the error on the left. \<open>Ok\<close> and \<open>Err\<close>
  are abbreviations, so every simp rule about sums applies.
\<close>

type_synonym ('e, 'a) result = "'e + 'a"

abbreviation Ok :: "'a \<Rightarrow> ('e, 'a) result" where "Ok x \<equiv> Inr x"
abbreviation Err :: "'e \<Rightarrow> ('e, 'a) result" where "Err e \<equiv> Inl e"

definition is_ok :: "('e, 'a) result \<Rightarrow> bool" where
  "is_ok r = (case r of Ok _ \<Rightarrow> True | Err _ \<Rightarrow> False)"

lemma is_ok_simps [simp]: "is_ok (Ok x)" "\<not> is_ok (Err e)"
  by (simp_all add: is_ok_def)

lemma is_ok_iff: "is_ok r \<longleftrightarrow> (\<exists>x. r = Ok x)"
  by (cases r) simp_all

fun result_bind :: "('e, 'a) result \<Rightarrow> ('a \<Rightarrow> ('e, 'b) result) \<Rightarrow> ('e, 'b) result" where
  "result_bind (Err e) f = Err e"
| "result_bind (Ok x) f = f x"

lemma result_bind_Ok_iff: "result_bind r f = Ok y \<longleftrightarrow> (\<exists>x. r = Ok x \<and> f x = Ok y)"
  by (cases r) simp_all

fun map_err :: "('e \<Rightarrow> 'f) \<Rightarrow> ('e, 'a) result \<Rightarrow> ('f, 'a) result" where
  "map_err g (Err e) = Err (g e)"
| "map_err g (Ok x) = Ok x"

lemma map_err_Ok_iff [simp]: "map_err g r = Ok y \<longleftrightarrow> r = Ok y"
  by (cases r) simp_all

section \<open>Fixed-width integers as bytes\<close>

text \<open>
  \<open>be_of_nat n v\<close> is the \<open>n\<close>-byte big-endian representation of \<open>v\<close> (its low
  \<open>n\<close> bytes), \<open>nat_of_be\<close> reads one back; the little-endian forms reverse.
\<close>

fun be_of_nat :: "nat \<Rightarrow> nat \<Rightarrow> bytes" where
  "be_of_nat 0 v = []"
| "be_of_nat (Suc n) v = be_of_nat n (v div 256) @ [word_of_nat (v mod 256)]"

definition nat_of_be :: "bytes \<Rightarrow> nat" where
  "nat_of_be bs = foldl (\<lambda>acc b. acc * 256 + unat b) 0 bs"

definition le_of_nat :: "nat \<Rightarrow> nat \<Rightarrow> bytes" where
  "le_of_nat n v = rev (be_of_nat n v)"

definition nat_of_le :: "bytes \<Rightarrow> nat" where
  "nat_of_le bs = nat_of_be (rev bs)"

lemma nat_of_be_Nil [simp]: "nat_of_be [] = 0"
  by (simp add: nat_of_be_def)

lemma nat_of_be_snoc [simp]: "nat_of_be (bs @ [b]) = nat_of_be bs * 256 + unat b"
  by (simp add: nat_of_be_def)

lemma nat_of_le_Nil [simp]: "nat_of_le [] = 0"
  by (simp add: nat_of_le_def)

lemma nat_of_le_Cons [simp]: "nat_of_le (b # bs) = unat b + 256 * nat_of_le bs"
  by (simp add: nat_of_le_def)

lemma length_be_of_nat [simp, codec_simps]: "length (be_of_nat n v) = n"
  by (induction n arbitrary: v) simp_all

lemma length_le_of_nat [simp, codec_simps]: "length (le_of_nat n v) = n"
  by (simp add: le_of_nat_def)

lemma unat_byte_of_nat [simp]: "unat (word_of_nat (v mod 256) :: byte) = v mod 256"
  by (simp add: unat_of_nat)

lemma nat_of_be_of_nat [codec_simps]: "nat_of_be (be_of_nat n v) = v mod 256 ^ n"
proof (induction n arbitrary: v)
  case 0
  then show ?case by simp
next
  case (Suc n)
  have "v mod (256 * 256 ^ n) = 256 * (v div 256 mod 256 ^ n) + v mod 256"
    by (rule mod_mult2_eq)
  with Suc.IH [of "v div 256"] show ?case by simp
qed

lemma nat_of_be_bound: "nat_of_be bs < 256 ^ length bs"
proof (induction bs rule: rev_induct)
  case Nil
  then show ?case by simp
next
  case (snoc b bs)
  have "unat b < 256" using unsigned_less [of b] by simp
  with snoc have "nat_of_be bs * 256 + unat b < 256 ^ length bs * 256" by linarith
  then show ?case by (simp add: mult.commute)
qed

lemma be_of_nat_of_be [codec_simps]: "be_of_nat (length bs) (nat_of_be bs) = bs"
proof (induction bs rule: rev_induct)
  case Nil
  then show ?case by simp
next
  case (snoc b bs)
  have "unat b < 256" using unsigned_less [of b] by simp
  then have "(nat_of_be bs * 256 + unat b) div 256 = nat_of_be bs"
    and "(nat_of_be bs * 256 + unat b) mod 256 = unat b" by simp_all
  with snoc show ?case by simp
qed

lemma nat_of_le_of_nat [codec_simps]: "nat_of_le (le_of_nat n v) = v mod 256 ^ n"
  by (simp add: nat_of_le_def le_of_nat_def nat_of_be_of_nat)

lemma le_of_nat_of_le [codec_simps]: "le_of_nat (length bs) (nat_of_le bs) = bs"
  using be_of_nat_of_be [of "rev bs"] by (simp add: le_of_nat_def nat_of_le_def)

lemma nat_of_le_bound: "nat_of_le bs < 256 ^ length bs"
  using nat_of_be_bound [of "rev bs"] by (simp add: nat_of_le_def)

lemma be_of_nat_0: "be_of_nat n 0 = replicate n 0"
  by (induction n) (simp_all add: replicate_append_same)

lemma nat_of_be_zeros [simp]: "nat_of_be (replicate n 0) = 0"
  by (induction n) (simp_all flip: replicate_append_same)

section \<open>Decimal rendering\<close>

text \<open>What Rust's \<open>{}\<close> prints for an unsigned and for a signed integer.\<close>

fun show_nat :: "nat \<Rightarrow> string" where
  "show_nat n = (if n < 10 then [char_of (48 + n)] else show_nat (n div 10) @ [char_of (48 + n mod 10)])"

declare show_nat.simps [simp del]

definition show_int :: "int \<Rightarrow> string" where
  "show_int i = (if i < 0 then ''-'' @ show_nat (nat (- i)) else show_nat (nat i))"

definition show_bool :: "bool \<Rightarrow> string" where
  "show_bool b = (if b then ''true'' else ''false'')"

lemma show_nat_not_Nil [simp]: "show_nat n \<noteq> []"
  by (subst show_nat.simps) simp

text \<open>
  \<open>str::parse\<close> for an unsigned integer below \<open>bound\<close>: an optional plus sign, then at least one
  digit, no overflow.
\<close>

definition is_digit :: "char \<Rightarrow> bool" where
  "is_digit c = (let n = (of_char c :: nat) in 48 \<le> n \<and> n \<le> 57)"

definition digits_value :: "string \<Rightarrow> nat" where
  "digits_value ds = foldl (\<lambda>acc c. acc * 10 + (of_char c - 48)) 0 ds"

definition parse_unsigned :: "nat \<Rightarrow> string \<Rightarrow> nat option" where
  "parse_unsigned bound s =
     (let ds = (case s of c # r \<Rightarrow> if c = CHR ''+'' then r else s | [] \<Rightarrow> [])
      in if ds \<noteq> [] \<and> list_all is_digit ds \<and> digits_value ds < bound
         then Some (digits_value ds) else None)"

lemma digit_char: "d < 10 \<Longrightarrow> is_digit (char_of (48 + d)) \<and> of_char (char_of (48 + d)) = (48 + d :: nat)"
  by (simp add: is_digit_def)

lemma show_nat_digits: "list_all is_digit (show_nat n) \<and> digits_value (show_nat n) = n"
proof (induction n rule: show_nat.induct)
  case (1 n)
  show ?case
  proof (cases "n < 10")
    case True
    then show ?thesis
      using digit_char [of n] by (subst (1 2) show_nat.simps) (simp add: digits_value_def)
  next
    case False
    with 1 digit_char [of "n mod 10"] show ?thesis
      by (subst (1 2) show_nat.simps) (simp add: digits_value_def)
  qed
qed

lemma plus_not_digit: "\<not> is_digit (CHR ''+'')"
  by (simp add: is_digit_def)

lemma parse_show_nat: "n < bound \<Longrightarrow> parse_unsigned bound (show_nat n) = Some n"
  using show_nat_digits [of n] plus_not_digit
  by (cases "show_nat n") (auto simp: parse_unsigned_def Let_def)

section \<open>Slices and writes\<close>

text \<open>
  \<open>slice a b xs\<close> is \<open>xs[a..b]\<close> and \<open>write_at a ys xs\<close> is
  \<open>xs[a..a + ys.len()].copy_from_slice(ys)\<close>. Rust panics when the range leaves the
  buffer; every use in the code is guarded by a length check, which the lemmas about the
  callers carry as the hypothesis that the range fits.
\<close>

definition slice :: "nat \<Rightarrow> nat \<Rightarrow> 'a list \<Rightarrow> 'a list" where
  "slice a b xs = take (b - a) (drop a xs)"

definition write_at :: "nat \<Rightarrow> 'a list \<Rightarrow> 'a list \<Rightarrow> 'a list" where
  "write_at a ys xs = take a xs @ ys @ drop (a + length ys) xs"

lemma length_slice [buffer_simps]: "b \<le> length xs \<Longrightarrow> length (slice a b xs) = b - a"
  by (simp add: slice_def)

lemma length_write_at [buffer_simps]:
  "a + length ys \<le> length xs \<Longrightarrow> length (write_at a ys xs) = length xs"
  by (simp add: write_at_def)

lemma slice_write_at_same [buffer_simps]:
  "a + length ys \<le> length xs \<Longrightarrow> b = a + length ys \<Longrightarrow> slice a b (write_at a ys xs) = ys"
  by (simp add: slice_def write_at_def)

lemma slice_write_at_before [buffer_simps]:
  "b \<le> a \<Longrightarrow> a + length ys \<le> length xs \<Longrightarrow> slice c b (write_at a ys xs) = slice c b xs"
  by (simp add: slice_def write_at_def flip: drop_take)

lemma slice_write_at_after [buffer_simps]:
  assumes "a + length ys \<le> c" and "a + length ys \<le> length xs"
  shows "slice c b (write_at a ys xs) = slice c b xs"
proof -
  have "drop c (write_at a ys xs) = drop c xs"
    using assms by (simp add: write_at_def)
  then show ?thesis by (simp add: slice_def)
qed

lemma nth_write_at [buffer_simps]:
  assumes "a + length ys \<le> length xs" and "i < length xs"
  shows "write_at a ys xs ! i = (if a \<le> i \<and> i < a + length ys then ys ! (i - a) else xs ! i)"
  using assms by (auto simp: write_at_def nth_append)

lemma slice_replicate [buffer_simps]:
  "b \<le> n \<Longrightarrow> slice a b (replicate n x) = replicate (b - a) x"
  by (simp add: slice_def)

lemma slice_nth:
  "a \<le> b \<Longrightarrow> b \<le> length xs \<Longrightarrow> slice a b xs = map (\<lambda>i. xs ! i) [a..<b]"
  by (rule nth_equalityI) (simp_all add: slice_def)

lemma slice_cong_prefix:
  assumes "take n xs = take n ys" and "b \<le> n"
  shows "slice a b xs = slice a b ys"
proof -
  have "take b xs = take b ys"
    using assms by (metis min.absorb1 take_take)
  then show ?thesis by (metis drop_take slice_def)
qed

lemma nth_cong_prefix:
  "take n xs = take n ys \<Longrightarrow> i < n \<Longrightarrow> i < length xs \<Longrightarrow> i < length ys \<Longrightarrow> xs ! i = ys ! i"
  by (metis nth_take)

section \<open>Invariants of step systems\<close>

text \<open>
  The argument every component with state repeats: an invariant that holds at the start and
  that every step keeps holds after any sequence of steps. A component gives its step as a
  total function of the state and an event; \<open>run\<close> folds it over a list of events.
\<close>

fun run :: "('s \<Rightarrow> 'e \<Rightarrow> 's) \<Rightarrow> 's \<Rightarrow> 'e list \<Rightarrow> 's" where
  "run step s [] = s"
| "run step s (e # es) = run step (step s e) es"

lemma run_append: "run step s (es @ fs) = run step (run step s es) fs"
  by (induction es arbitrary: s) simp_all

locale step_invariant =
  fixes step :: "'s \<Rightarrow> 'e \<Rightarrow> 's"
    and inv :: "'s \<Rightarrow> bool"
  assumes step_inv: "inv s \<Longrightarrow> inv (step s e)"
begin

lemma run_inv: "inv s \<Longrightarrow> inv (run step s es)"
  by (induction es arbitrary: s) (simp_all add: step_inv)

lemma run_inv_prefix: "inv s \<Longrightarrow> inv (run step s (take n es))"
  by (rule run_inv)

end

end
