(* ===== verification/Wire.thy ===== *)
theory Wire
  imports Prelude
begin

text \<open>
  The shim-to-hub wire frames, version 1 (\<open>zeronym/shim/src/wire.rs\<close>): the four fixed-size
  records \<open>SubmitV1\<close>, \<open>AckV1\<close>, \<open>LookupV1\<close> and \<open>LookupReplyV1\<close>, their
  encoders and decoders and every \<open>WireError\<close> they can answer with. A frame is a byte list;
  a \<open>Nonce\<close> is a byte list whose length is \<open>NONCE_BYTES\<close> (the fixed-size array of the
  code), which the laws below carry as a hypothesis.
\<close>

section \<open>Constants\<close>

definition FRAME_BYTES :: nat where "FRAME_BYTES = 64 * 1024"
definition ACK_BYTES :: nat where "ACK_BYTES = 64"
definition LOOKUP_BYTES :: nat where "LOOKUP_BYTES = 64"
definition NONCE_BYTES :: nat where "NONCE_BYTES = 16"

type_synonym nonce = bytes

definition SUBMIT_MAGIC :: bytes where "SUBMIT_MAGIC = [0x5A, 0x4E, 0x53, 0x31]"
definition ACK_MAGIC :: bytes where "ACK_MAGIC = [0x5A, 0x4E, 0x41, 0x31]"
definition LOOKUP_MAGIC :: bytes where "LOOKUP_MAGIC = [0x5A, 0x4E, 0x4C, 0x31]"
definition LOOKUP_REPLY_MAGIC :: bytes where "LOOKUP_REPLY_MAGIC = [0x5A, 0x4E, 0x52, 0x31]"

definition SUBMIT_HEADER_BYTES :: nat where "SUBMIT_HEADER_BYTES = 24"
definition LOOKUP_HEADER_BYTES :: nat where "LOOKUP_HEADER_BYTES = 21"
definition LOOKUP_REPLY_HEADER_BYTES :: nat where "LOOKUP_REPLY_HEADER_BYTES = 33"

definition MAX_NYM_TX_BYTES :: nat where
  "MAX_NYM_TX_BYTES = FRAME_BYTES - LOOKUP_REPLY_HEADER_BYTES"
definition MAX_LOOKUP_HASH_BYTES :: nat where
  "MAX_LOOKUP_HASH_BYTES = LOOKUP_BYTES - LOOKUP_HEADER_BYTES"
definition MAX_LOOKUP_REPLY_TX_BYTES :: nat where
  "MAX_LOOKUP_REPLY_TX_BYTES = FRAME_BYTES - LOOKUP_REPLY_HEADER_BYTES"

lemmas wire_consts =
  FRAME_BYTES_def ACK_BYTES_def LOOKUP_BYTES_def NONCE_BYTES_def
  SUBMIT_HEADER_BYTES_def LOOKUP_HEADER_BYTES_def LOOKUP_REPLY_HEADER_BYTES_def
  MAX_NYM_TX_BYTES_def MAX_LOOKUP_HASH_BYTES_def MAX_LOOKUP_REPLY_TX_BYTES_def
  SUBMIT_MAGIC_def ACK_MAGIC_def LOOKUP_MAGIC_def LOOKUP_REPLY_MAGIC_def

section \<open>Errors and dispositions\<close>

datatype wire_error =
    WrongLength (expected: nat) (got: nat)
  | BadMagic
  | TxTooLarge (tx_len: nat) (budget: nat)
  | TxLenOverrunsFrame nat
  | HashTooLarge nat
  | HashLenOverrunsFrame nat
  | UnknownDisposition byte
  | UnknownRefusal byte
  | StrayReplyPayload

fun display_wire_error :: "wire_error \<Rightarrow> string" where
  "display_wire_error (WrongLength e g) =
     ''wrong frame length: expected '' @ show_nat e @ '', got '' @ show_nat g"
| "display_wire_error BadMagic = ''bad frame magic''"
| "display_wire_error (TxTooLarge _ b) =
     ''transaction exceeds the '' @ show_nat b @ ''-byte frame budget''"
| "display_wire_error (TxLenOverrunsFrame d) =
     ''declared tx_len '' @ show_nat d @ '' overruns the frame''"
| "display_wire_error (HashTooLarge _) =
     ''hash exceeds the '' @ show_nat MAX_LOOKUP_HASH_BYTES @ ''-byte lookup budget''"
| "display_wire_error (HashLenOverrunsFrame d) =
     ''declared hash_len '' @ show_nat d @ '' overruns the frame''"
| "display_wire_error (UnknownDisposition b) = ''unknown disposition byte '' @ show_nat (unat b)"
| "display_wire_error (UnknownRefusal b) = ''unknown refusal byte '' @ show_nat (unat b)"
| "display_wire_error StrayReplyPayload =
     ''not_found/error reply carries a height or transaction bytes''"

datatype ack_refusal = ExpiryTooTight | TooLargeRefusal | QueueFull | TipStale | BadFrame

datatype ack_kind = Accepted | Refused ack_refusal

datatype lookup_reply = Found (reply_height: u64) (reply_tx: bytes) | NotFound | LookupError

fun refusal_code :: "ack_refusal \<Rightarrow> byte" where
  "refusal_code ExpiryTooTight = 1"
| "refusal_code TooLargeRefusal = 2"
| "refusal_code QueueFull = 3"
| "refusal_code TipStale = 4"
| "refusal_code BadFrame = 5"

definition refusal_from_code :: "byte \<Rightarrow> ack_refusal option" where
  "refusal_from_code c =
     (if c = 1 then Some ExpiryTooTight
      else if c = 2 then Some TooLargeRefusal
      else if c = 3 then Some QueueFull
      else if c = 4 then Some TipStale
      else if c = 5 then Some BadFrame
      else None)"

fun refusal_as_str :: "ack_refusal \<Rightarrow> string" where
  "refusal_as_str ExpiryTooTight = ''expiry_too_tight''"
| "refusal_as_str TooLargeRefusal = ''too_large''"
| "refusal_as_str QueueFull = ''queue_full''"
| "refusal_as_str TipStale = ''tip_stale''"
| "refusal_as_str BadFrame = ''bad_frame''"

section \<open>Codecs\<close>

definition encode_submit :: "nonce \<Rightarrow> bytes \<Rightarrow> (wire_error, bytes) result" where
  "encode_submit nonce tx =
     (if length tx > MAX_NYM_TX_BYTES then Err (TxTooLarge (length tx) MAX_NYM_TX_BYTES)
      else
        let frame = replicate FRAME_BYTES 0;
            frame = write_at 0 SUBMIT_MAGIC frame;
            frame = write_at 4 nonce frame;
            frame = write_at 20 (be_of_nat 4 (length tx)) frame
        in Ok (write_at SUBMIT_HEADER_BYTES tx frame))"

definition decode_submit :: "bytes \<Rightarrow> (wire_error, nonce \<times> bytes) result" where
  "decode_submit frame =
     (if length frame \<noteq> FRAME_BYTES then Err (WrongLength FRAME_BYTES (length frame))
      else if slice 0 4 frame \<noteq> SUBMIT_MAGIC then Err BadMagic
      else
        let nonce = slice 4 20 frame;
            declared = nat_of_be (slice 20 24 frame)
        in if declared > MAX_NYM_TX_BYTES then Err (TxLenOverrunsFrame declared)
           else Ok (nonce, slice SUBMIT_HEADER_BYTES (SUBMIT_HEADER_BYTES + declared) frame))"

definition peek_nonce :: "bytes \<Rightarrow> nonce option" where
  "peek_nonce frame =
     (if length frame < SUBMIT_HEADER_BYTES \<or> slice 0 4 frame \<noteq> SUBMIT_MAGIC then None
      else Some (slice 4 20 frame))"

fun ack_bytes_of :: "ack_kind \<Rightarrow> byte \<times> byte" where
  "ack_bytes_of Accepted = (0, 0)"
| "ack_bytes_of (Refused r) = (1, refusal_code r)"

definition encode_ack :: "nonce \<Rightarrow> ack_kind \<Rightarrow> bytes" where
  "encode_ack nonce kind =
     (let frame = replicate ACK_BYTES 0;
          frame = write_at 0 ACK_MAGIC frame;
          frame = write_at 4 nonce frame;
          (disp, refusal) = ack_bytes_of kind;
          frame = frame[20 := disp]
      in frame[21 := refusal])"

definition decode_ack :: "bytes \<Rightarrow> (wire_error, nonce \<times> ack_kind) result" where
  "decode_ack frame =
     (if length frame \<noteq> ACK_BYTES then Err (WrongLength ACK_BYTES (length frame))
      else if slice 0 4 frame \<noteq> ACK_MAGIC then Err BadMagic
      else
        let nonce = slice 4 20 frame; disp = frame ! 20; refusal = frame ! 21
        in if disp = 0 then
             (if refusal \<noteq> 0 then Err (UnknownRefusal refusal) else Ok (nonce, Accepted))
           else if disp = 1 then
             (case refusal_from_code refusal of
                None \<Rightarrow> Err (UnknownRefusal refusal)
              | Some r \<Rightarrow> Ok (nonce, Refused r))
           else Err (UnknownDisposition disp))"

definition encode_lookup :: "nonce \<Rightarrow> bytes \<Rightarrow> (wire_error, bytes) result" where
  "encode_lookup nonce hash =
     (if length hash > MAX_LOOKUP_HASH_BYTES then Err (HashTooLarge (length hash))
      else
        let frame = replicate LOOKUP_BYTES 0;
            frame = write_at 0 LOOKUP_MAGIC frame;
            frame = write_at 4 nonce frame;
            frame = frame[20 := word_of_nat (length hash)]
        in Ok (write_at LOOKUP_HEADER_BYTES hash frame))"

definition decode_lookup :: "bytes \<Rightarrow> (wire_error, nonce \<times> bytes) result" where
  "decode_lookup frame =
     (if length frame \<noteq> LOOKUP_BYTES then Err (WrongLength LOOKUP_BYTES (length frame))
      else if slice 0 4 frame \<noteq> LOOKUP_MAGIC then Err BadMagic
      else
        let nonce = slice 4 20 frame; declared = unat (frame ! 20)
        in if declared > MAX_LOOKUP_HASH_BYTES then Err (HashLenOverrunsFrame declared)
           else Ok (nonce, slice LOOKUP_HEADER_BYTES (LOOKUP_HEADER_BYTES + declared) frame))"

definition peek_lookup_nonce :: "bytes \<Rightarrow> nonce option" where
  "peek_lookup_nonce frame =
     (if length frame < LOOKUP_HEADER_BYTES \<or> slice 0 4 frame \<noteq> LOOKUP_MAGIC then None
      else Some (slice 4 20 frame))"

definition encode_lookup_reply :: "nonce \<Rightarrow> lookup_reply \<Rightarrow> (wire_error, bytes) result" where
  "encode_lookup_reply nonce reply =
     (let frame = replicate FRAME_BYTES 0;
          frame = write_at 0 LOOKUP_REPLY_MAGIC frame;
          frame = write_at 4 nonce frame
      in case reply of
           Found height tx \<Rightarrow>
             if length tx > MAX_LOOKUP_REPLY_TX_BYTES
             then Err (TxTooLarge (length tx) MAX_LOOKUP_REPLY_TX_BYTES)
             else
               let frame = frame[20 := 0];
                   frame = write_at 21 (be_of_nat 8 (unat height)) frame;
                   frame = write_at 29 (be_of_nat 4 (length tx)) frame
               in Ok (write_at LOOKUP_REPLY_HEADER_BYTES tx frame)
         | NotFound \<Rightarrow> Ok (frame[20 := 1])
         | LookupError \<Rightarrow> Ok (frame[20 := 2]))"

definition decode_lookup_reply :: "bytes \<Rightarrow> (wire_error, nonce \<times> lookup_reply) result" where
  "decode_lookup_reply frame =
     (if length frame \<noteq> FRAME_BYTES then Err (WrongLength FRAME_BYTES (length frame))
      else if slice 0 4 frame \<noteq> LOOKUP_REPLY_MAGIC then Err BadMagic
      else
        let nonce = slice 4 20 frame;
            disp = frame ! 20;
            height = (word_of_nat (nat_of_be (slice 21 29 frame)) :: u64);
            declared = nat_of_be (slice 29 33 frame)
        in if disp = 0 then
             (if declared > MAX_LOOKUP_REPLY_TX_BYTES then Err (TxLenOverrunsFrame declared)
              else Ok (nonce, Found height
                     (slice LOOKUP_REPLY_HEADER_BYTES (LOOKUP_REPLY_HEADER_BYTES + declared) frame)))
           else if disp = 1 \<or> disp = 2 then
             (if height \<noteq> 0 \<or> declared \<noteq> 0 then Err StrayReplyPayload
              else Ok (nonce, if disp = 1 then NotFound else LookupError))
           else Err (UnknownDisposition disp))"

section \<open>Layout of the frames\<close>

text \<open>
  What an encoder leaves in the buffer, as the concatenation the header of
  \<open>wire.rs\<close> draws. All facts about a frame are read off these four equations.
\<close>

lemma encode_submit_layout:
  assumes "length nonce = NONCE_BYTES" and "length tx \<le> MAX_NYM_TX_BYTES"
  shows "encode_submit nonce tx =
    Ok (SUBMIT_MAGIC @ nonce @ be_of_nat 4 (length tx) @ tx @
        replicate (FRAME_BYTES - SUBMIT_HEADER_BYTES - length tx) 0)"
  using assms by (simp add: encode_submit_def write_at_def wire_consts Let_def drop_Cons')

lemma encode_ack_layout:
  assumes "length nonce = NONCE_BYTES"
  shows "encode_ack nonce kind =
    ACK_MAGIC @ nonce @ [fst (ack_bytes_of kind), snd (ack_bytes_of kind)] @ replicate 42 0"
proof -
  have "drop 20 (replicate 64 (0::byte)) = 0 # 0 # replicate 42 0"
    by (simp add: numeral_eq_Suc)
  with assms show ?thesis
    by (simp add: encode_ack_def write_at_def wire_consts Let_def list_update_append
        split: prod.split)
qed

lemma encode_lookup_layout:
  assumes "length nonce = NONCE_BYTES" and "length hash \<le> MAX_LOOKUP_HASH_BYTES"
  shows "encode_lookup nonce hash =
    Ok (LOOKUP_MAGIC @ nonce @ [word_of_nat (length hash)] @ hash @
        replicate (LOOKUP_BYTES - LOOKUP_HEADER_BYTES - length hash) 0)"
proof -
  have "replicate 44 (0::byte) = 0 # replicate 43 0"
    by (simp add: numeral_eq_Suc)
  with assms show ?thesis
    by (simp add: encode_lookup_def write_at_def wire_consts Let_def list_update_append drop_Cons')
qed

lemma encode_lookup_reply_layout:
  assumes "length nonce = NONCE_BYTES"
  shows "length tx \<le> MAX_LOOKUP_REPLY_TX_BYTES \<Longrightarrow>
      encode_lookup_reply nonce (Found h tx) =
      Ok (LOOKUP_REPLY_MAGIC @ nonce @ [0] @ be_of_nat 8 (unat h) @ be_of_nat 4 (length tx) @ tx @
          replicate (FRAME_BYTES - LOOKUP_REPLY_HEADER_BYTES - length tx) 0)"
    and "encode_lookup_reply nonce NotFound =
      Ok (LOOKUP_REPLY_MAGIC @ nonce @ [1] @ replicate (FRAME_BYTES - 21) 0)"
    and "encode_lookup_reply nonce LookupError =
      Ok (LOOKUP_REPLY_MAGIC @ nonce @ [2] @ replicate (FRAME_BYTES - 21) 0)"
proof -
  have r: "replicate 65516 (0::byte) = 0 # replicate 65515 0"
    using replicate_Suc [of 65515 "0::byte"] by (simp del: replicate_Suc)
  have d: "drop 20 (replicate 65536 (0::byte)) = 0 # replicate 65515 0"
    by (simp add: r)
  show "length tx \<le> MAX_LOOKUP_REPLY_TX_BYTES \<Longrightarrow>
      encode_lookup_reply nonce (Found h tx) =
      Ok (LOOKUP_REPLY_MAGIC @ nonce @ [0] @ be_of_nat 8 (unat h) @ be_of_nat 4 (length tx) @ tx @
          replicate (FRAME_BYTES - LOOKUP_REPLY_HEADER_BYTES - length tx) 0)"
    using assms
    by (simp add: encode_lookup_reply_def write_at_def wire_consts Let_def list_update_append r
        drop_Cons')
  show "encode_lookup_reply nonce NotFound =
      Ok (LOOKUP_REPLY_MAGIC @ nonce @ [1] @ replicate (FRAME_BYTES - 21) 0)"
    and "encode_lookup_reply nonce LookupError =
      Ok (LOOKUP_REPLY_MAGIC @ nonce @ [2] @ replicate (FRAME_BYTES - 21) 0)"
    using assms
    by (simp_all add: encode_lookup_reply_def write_at_def wire_consts Let_def
        list_update_append r)
qed

section \<open>The codec contract\<close>

text \<open>
  The promise every frame type makes to the transports: an encoded value comes back with its
  nonce, every frame of the type has the one fixed size and starts with its magic and nonce,
  what does not fit is refused, and a decoder accepts nothing outside that shape.
\<close>

locale frame_codec =
  fixes encode :: "nonce \<Rightarrow> 'a \<Rightarrow> (wire_error, bytes) result"
    and decode :: "bytes \<Rightarrow> (wire_error, nonce \<times> 'a) result"
    and size_of :: nat
    and magic :: bytes
    and fits :: "'a \<Rightarrow> bool"
  assumes encode_fits: "length n = NONCE_BYTES \<Longrightarrow> fits a \<Longrightarrow>
      \<exists>f. encode n a = Ok f \<and> length f = size_of \<and> slice 0 4 f = magic \<and> slice 4 20 f = n
          \<and> decode f = Ok (n, a)"
    and encode_unfit: "\<not> fits a \<Longrightarrow> \<not> is_ok (encode n a)"
    and decode_shape: "decode f = Ok (n, a) \<Longrightarrow>
      length f = size_of \<and> slice 0 4 f = magic \<and> slice 4 20 f = n \<and> length n = NONCE_BYTES \<and> fits a"
begin

lemma roundtrip: "length n = NONCE_BYTES \<Longrightarrow> encode n a = Ok f \<Longrightarrow> decode f = Ok (n, a)"
  using encode_fits [of n a] encode_unfit [of a n] by (cases "fits a") auto

lemma fixed_size: "length n = NONCE_BYTES \<Longrightarrow> encode n a = Ok f \<Longrightarrow> length f = size_of"
  using roundtrip decode_shape by blast

lemma carries_magic_and_nonce:
  "length n = NONCE_BYTES \<Longrightarrow> encode n a = Ok f \<Longrightarrow> slice 0 4 f = magic \<and> slice 4 20 f = n"
  using roundtrip decode_shape by blast

lemma encode_ok_iff: "length n = NONCE_BYTES \<Longrightarrow> is_ok (encode n a) \<longleftrightarrow> fits a"
  using encode_fits [of n a] encode_unfit [of a n] by auto

lemma encode_inj:
  "length n = NONCE_BYTES \<Longrightarrow> length m = NONCE_BYTES \<Longrightarrow>
   encode n a = Ok f \<Longrightarrow> encode m b = Ok f \<Longrightarrow> n = m \<and> a = b"
  using roundtrip [of n a f] roundtrip [of m b f] by simp

lemma decode_foreign: "slice 0 4 f \<noteq> magic \<Longrightarrow> \<not> is_ok (decode f)"
  using decode_shape by (auto simp: is_ok_iff)

text \<open>A decoded value can always be put back on the wire, and reads back as itself.\<close>

lemma decode_encode:
  "decode f = Ok (n, a) \<Longrightarrow> \<exists>g. encode n a = Ok g \<and> length g = length f \<and> decode g = Ok (n, a)"
  using decode_shape [of f n a] encode_fits [of n a] by auto

end

lemma slice_append_left: "length xs = n \<Longrightarrow> slice 0 n (xs @ ys) = xs"
  by (simp add: slice_def)

lemma slice_append_mid:
  "length xs = a \<Longrightarrow> length ys = b - a \<Longrightarrow> a \<le> b \<Longrightarrow> slice a b (xs @ ys @ zs) = ys"
  by (simp add: slice_def)

lemma magic_length [simp]:
  "length SUBMIT_MAGIC = 4" "length ACK_MAGIC = 4" "length LOOKUP_MAGIC = 4"
  "length LOOKUP_REPLY_MAGIC = 4"
  by (simp_all add: wire_consts)

lemma decode_submit_Ok_iff:
  "decode_submit f = Ok (n, tx) \<longleftrightarrow>
     length f = FRAME_BYTES \<and> slice 0 4 f = SUBMIT_MAGIC \<and> n = slice 4 20 f \<and>
     nat_of_be (slice 20 24 f) \<le> MAX_NYM_TX_BYTES \<and>
     tx = slice SUBMIT_HEADER_BYTES (SUBMIT_HEADER_BYTES + nat_of_be (slice 20 24 f)) f"
  by (auto simp: decode_submit_def Let_def)

lemma decode_lookup_Ok_iff:
  "decode_lookup f = Ok (n, h) \<longleftrightarrow>
     length f = LOOKUP_BYTES \<and> slice 0 4 f = LOOKUP_MAGIC \<and> n = slice 4 20 f \<and>
     unat (f ! 20) \<le> MAX_LOOKUP_HASH_BYTES \<and>
     h = slice LOOKUP_HEADER_BYTES (LOOKUP_HEADER_BYTES + unat (f ! 20)) f"
  by (auto simp: decode_lookup_def Let_def)

lemma decode_ack_Ok_iff:
  "decode_ack f = Ok (n, k) \<longleftrightarrow>
     length f = ACK_BYTES \<and> slice 0 4 f = ACK_MAGIC \<and> n = slice 4 20 f \<and>
     (f ! 20 = 0 \<and> f ! 21 = 0 \<and> k = Accepted \<or>
      f ! 20 = 1 \<and> (\<exists>r. refusal_from_code (f ! 21) = Some r \<and> k = Refused r))"
  by (auto simp: decode_ack_def Let_def split: option.splits)

lemma decode_lookup_reply_Ok_iff:
  "decode_lookup_reply f = Ok (n, r) \<longleftrightarrow>
     length f = FRAME_BYTES \<and> slice 0 4 f = LOOKUP_REPLY_MAGIC \<and> n = slice 4 20 f \<and>
     (f ! 20 = 0 \<and> nat_of_be (slice 29 33 f) \<le> MAX_LOOKUP_REPLY_TX_BYTES \<and>
        r = Found (word_of_nat (nat_of_be (slice 21 29 f)))
              (slice LOOKUP_REPLY_HEADER_BYTES
                 (LOOKUP_REPLY_HEADER_BYTES + nat_of_be (slice 29 33 f)) f) \<or>
      (f ! 20 = 1 \<and> r = NotFound \<or> f ! 20 = 2 \<and> r = LookupError) \<and>
        (word_of_nat (nat_of_be (slice 21 29 f)) :: u64) = 0 \<and> nat_of_be (slice 29 33 f) = 0)"
  by (auto simp: decode_lookup_reply_def Let_def)

lemma refusal_code_inverse [simp]: "refusal_from_code (refusal_code r) = Some r"
  by (cases r) (simp_all add: refusal_from_code_def)

lemma refusal_from_code_Some: "refusal_from_code c = Some r \<longleftrightarrow> c = refusal_code r"
  by (cases r) (auto simp: refusal_from_code_def split: if_splits)

section \<open>The four frame types keep the contract\<close>

lemma submit_codec_law:
  assumes n: "length n = NONCE_BYTES" and fit: "length tx \<le> MAX_NYM_TX_BYTES"
  shows "\<exists>f. encode_submit n tx = Ok f \<and> length f = FRAME_BYTES \<and> slice 0 4 f = SUBMIT_MAGIC
           \<and> slice 4 20 f = n \<and> decode_submit f = Ok (n, tx)"
proof -
  let ?pad = "replicate (FRAME_BYTES - SUBMIT_HEADER_BYTES - length tx) 0"
  let ?f = "SUBMIT_MAGIC @ n @ be_of_nat 4 (length tx) @ tx @ ?pad"
  have len: "length ?f = FRAME_BYTES"
    using n fit by (simp add: NONCE_BYTES_def FRAME_BYTES_def SUBMIT_HEADER_BYTES_def
        MAX_NYM_TX_BYTES_def LOOKUP_REPLY_HEADER_BYTES_def)
  have magic: "slice 0 4 ?f = SUBMIT_MAGIC" and nonce: "slice 4 20 ?f = n"
    and be: "slice 20 24 ?f = be_of_nat 4 (length tx)"
    using n by (simp_all add: slice_def NONCE_BYTES_def)
  have le: "length tx \<le> 65503"
    using fit by (simp add: MAX_NYM_TX_BYTES_def FRAME_BYTES_def LOOKUP_REPLY_HEADER_BYTES_def)
  then have declared: "nat_of_be (slice 20 24 ?f) = length tx"
    by (simp only: be nat_of_be_of_nat) simp
  have "slice SUBMIT_HEADER_BYTES (SUBMIT_HEADER_BYTES + length tx) ?f = tx"
    using n by (simp add: slice_def NONCE_BYTES_def SUBMIT_HEADER_BYTES_def)
  then have "decode_submit ?f = Ok (n, tx)"
    using len magic nonce declared fit by (simp add: decode_submit_Ok_iff)
  with len magic nonce show ?thesis
    using encode_submit_layout [OF n fit] by blast
qed

interpretation submit: frame_codec encode_submit decode_submit FRAME_BYTES SUBMIT_MAGIC
  "\<lambda>tx. length tx \<le> MAX_NYM_TX_BYTES"
proof unfold_locales
  show "\<not> length tx \<le> MAX_NYM_TX_BYTES \<Longrightarrow> \<not> is_ok (encode_submit n tx)" for n tx
    by (simp add: encode_submit_def)
  show "length f = FRAME_BYTES \<and> slice 0 4 f = SUBMIT_MAGIC \<and> slice 4 20 f = n
      \<and> length n = NONCE_BYTES \<and> length tx \<le> MAX_NYM_TX_BYTES"
    if "decode_submit f = Ok (n, tx)" for f n tx
    using that by (auto simp: decode_submit_Ok_iff length_slice FRAME_BYTES_def NONCE_BYTES_def
        slice_def)
qed (rule submit_codec_law)

lemma ack_bytes_decode:
  "fst (ack_bytes_of k) = 0 \<and> snd (ack_bytes_of k) = 0 \<and> k = Accepted \<or>
   fst (ack_bytes_of k) = 1 \<and>
     (\<exists>r. refusal_from_code (snd (ack_bytes_of k)) = Some r \<and> k = Refused r)"
  by (cases k) simp_all

lemma ack_codec_law:
  assumes n: "length n = NONCE_BYTES"
  shows "\<exists>f. Ok (encode_ack n k) = (Ok f :: (wire_error, bytes) result) \<and> length f = ACK_BYTES
           \<and> slice 0 4 f = ACK_MAGIC \<and> slice 4 20 f = n \<and> decode_ack f = Ok (n, k)"
proof -
  let ?f = "encode_ack n k"
  note layout = encode_ack_layout [OF n, of k]
  have len: "length ?f = ACK_BYTES" and magic: "slice 0 4 ?f = ACK_MAGIC"
    and nonce: "slice 4 20 ?f = n"
    and disp: "?f ! 20 = fst (ack_bytes_of k)" and refusal: "?f ! 21 = snd (ack_bytes_of k)"
    unfolding layout using n by (simp_all add: slice_def NONCE_BYTES_def ACK_BYTES_def nth_append)
  have "decode_ack ?f = Ok (n, k)"
    using len magic nonce ack_bytes_decode [of k] by (simp add: decode_ack_Ok_iff disp refusal)
  with len magic nonce show ?thesis by blast
qed

interpretation ack: frame_codec "\<lambda>n k. Ok (encode_ack n k)" decode_ack ACK_BYTES ACK_MAGIC
  "\<lambda>_. True"
proof unfold_locales
  show "length f = ACK_BYTES \<and> slice 0 4 f = ACK_MAGIC \<and> slice 4 20 f = n
      \<and> length n = NONCE_BYTES \<and> True"
    if "decode_ack f = Ok (n, k)" for f n k
    using that by (auto simp: decode_ack_Ok_iff ACK_BYTES_def NONCE_BYTES_def slice_def)
qed (simp_all add: ack_codec_law del: sum.inject)

lemma lookup_codec_law:
  assumes n: "length n = NONCE_BYTES" and fit: "length hash \<le> MAX_LOOKUP_HASH_BYTES"
  shows "\<exists>f. encode_lookup n hash = Ok f \<and> length f = LOOKUP_BYTES \<and> slice 0 4 f = LOOKUP_MAGIC
           \<and> slice 4 20 f = n \<and> decode_lookup f = Ok (n, hash)"
proof -
  let ?pad = "replicate (LOOKUP_BYTES - LOOKUP_HEADER_BYTES - length hash) 0"
  let ?f = "LOOKUP_MAGIC @ n @ [word_of_nat (length hash)] @ hash @ ?pad"
  have le: "length hash \<le> 43"
    using fit by (simp add: MAX_LOOKUP_HASH_BYTES_def LOOKUP_BYTES_def LOOKUP_HEADER_BYTES_def)
  have len: "length ?f = LOOKUP_BYTES"
    using n le by (simp add: NONCE_BYTES_def LOOKUP_BYTES_def LOOKUP_HEADER_BYTES_def)
  have magic: "slice 0 4 ?f = LOOKUP_MAGIC" and nonce: "slice 4 20 ?f = n"
    and byte: "?f ! 20 = word_of_nat (length hash)"
    using n by (simp_all add: slice_def NONCE_BYTES_def nth_append)
  have declared: "unat (?f ! 20) = length hash"
    unfolding byte using le by (simp add: unat_of_nat)
  have "slice LOOKUP_HEADER_BYTES (LOOKUP_HEADER_BYTES + length hash) ?f = hash"
    using n by (simp add: slice_def NONCE_BYTES_def LOOKUP_HEADER_BYTES_def)
  then have "decode_lookup ?f = Ok (n, hash)"
    using len magic nonce declared fit by (simp add: decode_lookup_Ok_iff)
  with len magic nonce show ?thesis
    using encode_lookup_layout [OF n fit] by blast
qed

interpretation lookup: frame_codec encode_lookup decode_lookup LOOKUP_BYTES LOOKUP_MAGIC
  "\<lambda>hash. length hash \<le> MAX_LOOKUP_HASH_BYTES"
proof unfold_locales
  show "\<not> length h \<le> MAX_LOOKUP_HASH_BYTES \<Longrightarrow> \<not> is_ok (encode_lookup n h)" for n h
    by (simp add: encode_lookup_def)
  show "length f = LOOKUP_BYTES \<and> slice 0 4 f = LOOKUP_MAGIC \<and> slice 4 20 f = n
      \<and> length n = NONCE_BYTES \<and> length h \<le> MAX_LOOKUP_HASH_BYTES"
    if "decode_lookup f = Ok (n, h)" for f n h
    using that by (auto simp: decode_lookup_Ok_iff length_slice LOOKUP_BYTES_def NONCE_BYTES_def
        slice_def)
qed (rule lookup_codec_law)

definition reply_fits :: "lookup_reply \<Rightarrow> bool" where
  "reply_fits r = (case r of Found _ tx \<Rightarrow> length tx \<le> MAX_LOOKUP_REPLY_TX_BYTES | _ \<Rightarrow> True)"

lemma found_codec_law:
  assumes n: "length n = NONCE_BYTES" and fit: "length tx \<le> MAX_LOOKUP_REPLY_TX_BYTES"
  shows "\<exists>f. encode_lookup_reply n (Found h tx) = Ok f \<and> length f = FRAME_BYTES
           \<and> slice 0 4 f = LOOKUP_REPLY_MAGIC \<and> slice 4 20 f = n
           \<and> decode_lookup_reply f = Ok (n, Found h tx)"
proof -
  let ?pad = "replicate (FRAME_BYTES - LOOKUP_REPLY_HEADER_BYTES - length tx) 0"
  let ?f = "LOOKUP_REPLY_MAGIC @ n @ [0] @ be_of_nat 8 (unat h) @ be_of_nat 4 (length tx) @ tx @ ?pad"
  have le: "length tx \<le> 65503"
    using fit by (simp add: MAX_LOOKUP_REPLY_TX_BYTES_def FRAME_BYTES_def LOOKUP_REPLY_HEADER_BYTES_def)
  have len: "length ?f = FRAME_BYTES"
    using n le by (simp add: NONCE_BYTES_def FRAME_BYTES_def LOOKUP_REPLY_HEADER_BYTES_def)
  have magic: "slice 0 4 ?f = LOOKUP_REPLY_MAGIC" and nonce: "slice 4 20 ?f = n"
    and disp: "?f ! 20 = 0"
    and height: "slice 21 29 ?f = be_of_nat 8 (unat h)"
    and be: "slice 29 33 ?f = be_of_nat 4 (length tx)"
    and body: "slice LOOKUP_REPLY_HEADER_BYTES (LOOKUP_REPLY_HEADER_BYTES + length tx) ?f = tx"
    using n by (simp_all add: slice_def NONCE_BYTES_def nth_append LOOKUP_REPLY_HEADER_BYTES_def)
  have declared: "nat_of_be (slice 29 33 ?f) = length tx"
    using le by (simp only: be nat_of_be_of_nat) simp
  have "unat h < 2 ^ 64" using unsigned_less [of h] by simp
  then have h: "(word_of_nat (nat_of_be (slice 21 29 ?f)) :: u64) = h"
    by (simp only: height nat_of_be_of_nat) simp
  have "decode_lookup_reply ?f = Ok (n, Found h tx)"
    using len magic nonce disp h declared body fit by (simp add: decode_lookup_reply_Ok_iff)
  with len magic nonce show ?thesis
    using encode_lookup_reply_layout(1) [OF n fit] by blast
qed

lemma empty_reply_codec_law:
  assumes n: "length n = NONCE_BYTES" and r: "r = NotFound \<and> b = (1::byte) \<or> r = LookupError \<and> b = 2"
  shows "\<exists>f. encode_lookup_reply n r = Ok f \<and> length f = FRAME_BYTES
           \<and> slice 0 4 f = LOOKUP_REPLY_MAGIC \<and> slice 4 20 f = n
           \<and> decode_lookup_reply f = Ok (n, r)"
proof -
  let ?f = "LOOKUP_REPLY_MAGIC @ n @ [b] @ replicate (FRAME_BYTES - 21) 0"
  have enc: "encode_lookup_reply n r = Ok ?f"
    using r encode_lookup_reply_layout(2,3) [OF n] by auto
  have len: "length ?f = FRAME_BYTES"
    using n by (simp add: NONCE_BYTES_def FRAME_BYTES_def)
  have magic: "slice 0 4 ?f = LOOKUP_REPLY_MAGIC" and nonce: "slice 4 20 ?f = n"
    and disp: "?f ! 20 = b"
    and height: "slice 21 29 ?f = replicate 8 0" and be: "slice 29 33 ?f = replicate 4 0"
    using n by (simp_all add: slice_def NONCE_BYTES_def nth_append FRAME_BYTES_def)
  have zeros: "nat_of_be (slice 21 29 ?f) = 0" "nat_of_be (slice 29 33 ?f) = 0"
    by (simp_all only: height be nat_of_be_zeros)
  have "decode_lookup_reply ?f = Ok (n, r)"
    using len magic nonce disp zeros r by (auto simp: decode_lookup_reply_Ok_iff)
  with enc len magic nonce show ?thesis by blast
qed

interpretation lookup_reply: frame_codec encode_lookup_reply decode_lookup_reply FRAME_BYTES
  LOOKUP_REPLY_MAGIC reply_fits
proof unfold_locales
  show "\<exists>f. encode_lookup_reply n r = Ok f \<and> length f = FRAME_BYTES
      \<and> slice 0 4 f = LOOKUP_REPLY_MAGIC \<and> slice 4 20 f = n \<and> decode_lookup_reply f = Ok (n, r)"
    if "length n = NONCE_BYTES" and "reply_fits r" for n r
    using that found_codec_law empty_reply_codec_law [OF that(1)]
    by (cases r) (auto simp: reply_fits_def)
  show "\<not> reply_fits r \<Longrightarrow> \<not> is_ok (encode_lookup_reply n r)" for n r
    by (auto simp: encode_lookup_reply_def reply_fits_def Let_def split: lookup_reply.splits)
  show "length f = FRAME_BYTES \<and> slice 0 4 f = LOOKUP_REPLY_MAGIC \<and> slice 4 20 f = n
      \<and> length n = NONCE_BYTES \<and> reply_fits r"
    if "decode_lookup_reply f = Ok (n, r)" for f n r
    using that by (auto simp: decode_lookup_reply_Ok_iff FRAME_BYTES_def NONCE_BYTES_def slice_def
        reply_fits_def MAX_LOOKUP_REPLY_TX_BYTES_def LOOKUP_REPLY_HEADER_BYTES_def)
qed

section \<open>What the decoders ignore and what they refuse\<close>

text \<open>Bytes past the declared region are never read: two frames that agree up to there decode alike.\<close>

lemma decode_submit_padding:
  assumes same: "take (SUBMIT_HEADER_BYTES + nat_of_be (slice 20 24 f)) f =
      take (SUBMIT_HEADER_BYTES + nat_of_be (slice 20 24 f)) g"
    and "length f = length g"
  shows "decode_submit f = decode_submit g"
proof -
  let ?n = "SUBMIT_HEADER_BYTES + nat_of_be (slice 20 24 f)"
  have sl: "slice a b f = slice a b g" if "b \<le> ?n" for a b
    by (rule slice_cong_prefix [OF same that])
  have "slice 0 4 f = slice 0 4 g" "slice 4 20 f = slice 4 20 g"
    "slice 20 24 f = slice 20 24 g"
    "slice SUBMIT_HEADER_BYTES ?n f = slice SUBMIT_HEADER_BYTES ?n g"
    by (rule sl, simp add: SUBMIT_HEADER_BYTES_def)+
  with assms(2) show ?thesis by (simp add: decode_submit_def Let_def)
qed

lemma decode_lookup_reply_padding:
  assumes same: "take (LOOKUP_REPLY_HEADER_BYTES + nat_of_be (slice 29 33 f)) f =
      take (LOOKUP_REPLY_HEADER_BYTES + nat_of_be (slice 29 33 f)) g"
    and len: "length f = length g" and size: "length f = FRAME_BYTES"
  shows "decode_lookup_reply f = decode_lookup_reply g"
proof -
  let ?n = "LOOKUP_REPLY_HEADER_BYTES + nat_of_be (slice 29 33 f)"
  have sl: "slice a b f = slice a b g" if "b \<le> ?n" for a b
    by (rule slice_cong_prefix [OF same that])
  have hd: "33 \<le> ?n" by (simp add: LOOKUP_REPLY_HEADER_BYTES_def)
  have "f ! 20 = g ! 20"
    by (rule nth_cong_prefix [OF same]) (use hd len size in \<open>simp_all add: FRAME_BYTES_def\<close>)
  moreover have "slice 0 4 f = slice 0 4 g" "slice 4 20 f = slice 4 20 g"
    "slice 21 29 f = slice 21 29 g" "slice 29 33 f = slice 29 33 g"
    "slice LOOKUP_REPLY_HEADER_BYTES ?n f = slice LOOKUP_REPLY_HEADER_BYTES ?n g"
    by (rule sl, simp add: LOOKUP_REPLY_HEADER_BYTES_def)+
  ultimately show ?thesis using len by (simp add: decode_lookup_reply_def Let_def)
qed

lemma magics_distinct:
  "distinct [SUBMIT_MAGIC, ACK_MAGIC, LOOKUP_MAGIC, LOOKUP_REPLY_MAGIC]"
  by (simp add: wire_consts)

lemma decode_reply_payload:
  "decode_lookup_reply f = Ok (n, r) \<Longrightarrow> r \<noteq> NotFound \<and> r \<noteq> LookupError \<or>
     nat_of_be (slice 21 29 f) = 0 \<and> nat_of_be (slice 29 33 f) = 0"
proof -
  assume dec: "decode_lookup_reply f = Ok (n, r)"
  have "length (slice 21 29 f) = 8"
    using dec by (simp add: decode_lookup_reply_Ok_iff length_slice FRAME_BYTES_def)
  then have "nat_of_be (slice 21 29 f) < 2 ^ 64"
    using nat_of_be_bound [of "slice 21 29 f"] by simp
  then have "(word_of_nat (nat_of_be (slice 21 29 f)) :: u64) = 0 \<longleftrightarrow> nat_of_be (slice 21 29 f) = 0"
    by (simp add: word_of_nat_eq_0_iff dvd_eq_mod_eq_0)
  with dec show ?thesis by (auto simp: decode_lookup_reply_Ok_iff)
qed

lemma peek_nonce_agrees:
  "decode_submit f = Ok (n, tx) \<Longrightarrow> peek_nonce f = Some n"
  "decode_submit f = Err (TxLenOverrunsFrame d) \<Longrightarrow> peek_nonce f = Some (slice 4 20 f)"
  by (auto simp: decode_submit_def peek_nonce_def Let_def FRAME_BYTES_def SUBMIT_HEADER_BYTES_def
      split: if_splits)

lemma peek_lookup_nonce_agrees:
  "decode_lookup f = Ok (n, h) \<Longrightarrow> peek_lookup_nonce f = Some n"
  "decode_lookup f = Err (HashLenOverrunsFrame d) \<Longrightarrow> peek_lookup_nonce f = Some (slice 4 20 f)"
  by (auto simp: decode_lookup_def peek_lookup_nonce_def Let_def LOOKUP_BYTES_def
      LOOKUP_HEADER_BYTES_def split: if_splits)

lemma display_tx_too_large_hides_len:
  "display_wire_error (TxTooLarge l b) = display_wire_error (TxTooLarge l' b)"
  "display_wire_error (HashTooLarge l) = display_wire_error (HashTooLarge l')"
  by simp_all

lemma frame_sizes [simp]: "ACK_BYTES \<noteq> FRAME_BYTES" "ACK_BYTES \<noteq> 0" "FRAME_BYTES \<noteq> 0"
  by (simp_all add: wire_consts)

section \<open>Properties\<close>

text \<open>
  C11. Whatever fits its frame comes back: a transaction of at most \<open>MAX_NYM_TX_BYTES\<close> bytes, a
  lookup hash of at most \<open>MAX_LOOKUP_HASH_BYTES\<close>, every acknowledgement and every lookup
  reply whose transaction fits encode, and the matching decoder returns exactly the nonce and the
  value; what does not fit is refused by the encoder rather than truncated.
\<close>

theorem wire_roundtrip:
  assumes n: "length n = NONCE_BYTES"
  shows "(if length tx \<le> MAX_NYM_TX_BYTES
          then \<exists>f. encode_submit n tx = Ok f \<and> decode_submit f = Ok (n, tx)
          else encode_submit n tx = Err (TxTooLarge (length tx) MAX_NYM_TX_BYTES))
       \<and> decode_ack (encode_ack n k) = Ok (n, k)
       \<and> (if length h \<le> MAX_LOOKUP_HASH_BYTES
          then \<exists>f. encode_lookup n h = Ok f \<and> decode_lookup f = Ok (n, h)
          else encode_lookup n h = Err (HashTooLarge (length h)))
       \<and> (if reply_fits r
          then \<exists>f. encode_lookup_reply n r = Ok f \<and> decode_lookup_reply f = Ok (n, r)
          else encode_lookup_reply n r =
                 Err (TxTooLarge (length (reply_tx r)) MAX_LOOKUP_REPLY_TX_BYTES))"
  (is "?submit \<and> ?ack \<and> ?lookup \<and> ?reply")
proof -
  have ?submit
    using submit.encode_fits [OF n, of tx] by (auto simp: encode_submit_def)
  moreover have ?ack
    using ack.encode_fits [OF n, of k] by auto
  moreover have ?lookup
    using lookup.encode_fits [OF n, of h] by (auto simp: encode_lookup_def)
  moreover have ?reply
    using lookup_reply.encode_fits [OF n, of r]
    by (cases r) (auto simp: reply_fits_def encode_lookup_reply_def Let_def)
  ultimately show ?thesis by blast
qed

theorem wire_roundtrip_witness:
  "length (replicate 16 7) = NONCE_BYTES \<and>
   (\<exists>f. encode_submit (replicate 16 7) [1, 2] = Ok f \<and> decode_submit f = Ok (replicate 16 7, [1, 2])) \<and>
   decode_ack (encode_ack (replicate 16 7) (Refused TipStale)) = Ok (replicate 16 7, Refused TipStale) \<and>
   encode_lookup (replicate 16 7) (replicate 44 0) = Err (HashTooLarge 44) \<and>
   (\<exists>f. encode_lookup_reply (replicate 16 7) (Found 5 [9]) = Ok f \<and>
        decode_lookup_reply f = Ok (replicate 16 7, Found 5 [9]))"
  using wire_roundtrip [of "replicate 16 7" "[1, 2]" "Refused TipStale" "replicate 44 0" "Found 5 [9]"]
  by (simp add: wire_consts reply_fits_def)

text \<open>
  The size of a frame tells an observer nothing: any two submits encode to frames of one
  size, so do any two lookups, any two acknowledgements and any two lookup replies, whatever
  transaction, hash, verdict or answer each carries; and the one public refusal that could leak
  a size, a transaction or hash too large, prints the same text for every size.
\<close>

theorem frame_size_hides_content:
  assumes n: "length n = NONCE_BYTES" and m: "length m = NONCE_BYTES"
  shows "(\<forall>tx tx'. length tx \<le> MAX_NYM_TX_BYTES \<and> length tx' \<le> MAX_NYM_TX_BYTES \<longrightarrow>
            map_sum id length (encode_submit n tx) = map_sum id length (encode_submit m tx'))
       \<and> (\<forall>h h'. length h \<le> MAX_LOOKUP_HASH_BYTES \<and> length h' \<le> MAX_LOOKUP_HASH_BYTES \<longrightarrow>
            map_sum id length (encode_lookup n h) = map_sum id length (encode_lookup m h'))
       \<and> length (encode_ack n k) = length (encode_ack m k')
       \<and> (\<forall>r r'. reply_fits r \<and> reply_fits r' \<longrightarrow>
            map_sum id length (encode_lookup_reply n r) = map_sum id length (encode_lookup_reply m r'))
       \<and> display_wire_error (TxTooLarge l b) = display_wire_error (TxTooLarge l' b)
       \<and> display_wire_error (HashTooLarge l) = display_wire_error (HashTooLarge l')"
proof (intro conjI allI impI)
  show "map_sum id length (encode_submit n tx) = map_sum id length (encode_submit m tx')"
    if "length tx \<le> MAX_NYM_TX_BYTES \<and> length tx' \<le> MAX_NYM_TX_BYTES" for tx tx'
    using that submit.encode_fits [OF n, of tx] submit.encode_fits [OF m, of tx'] by auto
  show "map_sum id length (encode_lookup n h) = map_sum id length (encode_lookup m h')"
    if "length h \<le> MAX_LOOKUP_HASH_BYTES \<and> length h' \<le> MAX_LOOKUP_HASH_BYTES" for h h'
    using that lookup.encode_fits [OF n, of h] lookup.encode_fits [OF m, of h'] by auto
  show "length (encode_ack n k) = length (encode_ack m k')"
    using ack.encode_fits [OF n, of k] ack.encode_fits [OF m, of k'] by auto
  show "map_sum id length (encode_lookup_reply n r) = map_sum id length (encode_lookup_reply m r')"
    if "reply_fits r \<and> reply_fits r'" for r r'
    using that lookup_reply.encode_fits [OF n, of r] lookup_reply.encode_fits [OF m, of r'] by auto
qed (rule display_tx_too_large_hides_len)+

theorem frame_size_hides_content_witness:
  "length (replicate 16 7) = NONCE_BYTES \<and> length (replicate 16 8) = NONCE_BYTES \<and>
   length (encode_ack (replicate 16 7) Accepted) = length (encode_ack (replicate 16 8) (Refused BadFrame)) \<and>
   map_sum id length (encode_submit (replicate 16 7) []) =
     map_sum id length (encode_submit (replicate 16 8) (replicate 40000 1))"
  using frame_size_hides_content [of "replicate 16 7" "replicate 16 8" Accepted "Refused BadFrame"]
  by (simp add: wire_consts)

text \<open>
  A transaction the shim admits for submission can always be served back: whatever
  \<open>decode_submit\<close> accepted fits a lookup reply, at any height, and survives that trip too.
  The decoded bytes do not depend on what the sender put in the padding.
\<close>

theorem admitted_submit_can_be_served:
  assumes dec: "decode_submit f = Ok (n, tx)" and m: "length m = NONCE_BYTES"
  shows "(\<exists>g. encode_lookup_reply m (Found height tx) = Ok g \<and>
            decode_lookup_reply g = Ok (m, Found height tx) \<and> length g = length f)
       \<and> (\<forall>f'. length f' = length f \<longrightarrow>
            take (SUBMIT_HEADER_BYTES + length tx) f' = take (SUBMIT_HEADER_BYTES + length tx) f \<longrightarrow>
            decode_submit f' = Ok (n, tx))"
proof (intro conjI allI impI)
  have shape: "length f = FRAME_BYTES" "length tx \<le> MAX_NYM_TX_BYTES"
    using submit.decode_shape [OF dec] by auto
  then have "reply_fits (Found height tx)" by (simp add: reply_fits_def wire_consts)
  with m shape show "\<exists>g. encode_lookup_reply m (Found height tx) = Ok g \<and>
      decode_lookup_reply g = Ok (m, Found height tx) \<and> length g = length f"
    using lookup_reply.encode_fits by auto
next
  fix f' assume len: "length f' = length f"
    and same: "take (SUBMIT_HEADER_BYTES + length tx) f' = take (SUBMIT_HEADER_BYTES + length tx) f"
  have "length tx = nat_of_be (slice 20 24 f)"
    using dec by (auto simp: decode_submit_Ok_iff length_slice wire_consts)
  with same len have "decode_submit f = decode_submit f'"
    by (intro decode_submit_padding) simp_all
  with dec show "decode_submit f' = Ok (n, tx)" by simp
qed

lemma sample_submit:
  "decode_submit (SUBMIT_MAGIC @ replicate 16 7 @ be_of_nat 4 (Suc (Suc 0)) @ [1, 2] @ replicate 65510 0) =
     Ok (replicate 16 7, [1, 2])"
  using submit.encode_fits [of "replicate 16 7" "[1, 2]"]
    encode_submit_layout [of "replicate 16 7" "[1, 2]"]
  by (simp add: wire_consts)

theorem admitted_submit_can_be_served_witness:
  "\<exists>g. encode_lookup_reply (replicate 16 8) (Found 3 [1, 2]) = Ok g \<and>
     decode_lookup_reply g = Ok (replicate 16 8, Found 3 [1, 2])"
  using admitted_submit_can_be_served [OF sample_submit, of "replicate 16 8" 3]
  by (auto simp: NONCE_BYTES_def)

text \<open>
  No frame is readable as two kinds: a frame that one of the four decoders accepts is
  refused by the other three, so a submit replayed as a lookup reply, or an acknowledgement as
  a lookup, never decodes.
\<close>

theorem frame_kinds_disjoint:
  "length (filter id [is_ok (decode_submit f), is_ok (decode_ack f), is_ok (decode_lookup f),
     is_ok (decode_lookup_reply f)]) \<le> 1"
proof -
  have "is_ok (decode_submit f) \<Longrightarrow> slice 0 4 f = SUBMIT_MAGIC"
    and "is_ok (decode_ack f) \<Longrightarrow> slice 0 4 f = ACK_MAGIC"
    and "is_ok (decode_lookup f) \<Longrightarrow> slice 0 4 f = LOOKUP_MAGIC"
    and "is_ok (decode_lookup_reply f) \<Longrightarrow> slice 0 4 f = LOOKUP_REPLY_MAGIC"
    using submit.decode_foreign [of f] ack.decode_foreign [of f] lookup.decode_foreign [of f]
      lookup_reply.decode_foreign [of f] by blast+
  with magics_distinct show ?thesis by auto
qed

end
