(* ===== verification/Grpc.thy ===== *)
theory Grpc
  imports Prelude
begin

text \<open>
  The request and response vocabulary of the proxy and the pure parts of
  \<open>zeronym/shim/src/proxy.rs\<close> and \<open>intercept.rs\<close>: the routing predicate
  \<open>route_for\<close>, the header rewriting both legs go through, the synthesized gRPC answers
  and the replayed request body. A \<open>HeaderMap\<close> is the map from a (lower-case) header name
  to the list of its values; a body is the list of frames it yields.
\<close>

section \<open>Headers, requests, responses\<close>

type_synonym headers = "string \<rightharpoonup> string list"

definition hdr_get :: "headers \<Rightarrow> string \<Rightarrow> string option" where
  "hdr_get h n = (case h n of Some (v # _) \<Rightarrow> Some v | _ \<Rightarrow> None)"

definition hdr_insert :: "string \<Rightarrow> string \<Rightarrow> headers \<Rightarrow> headers" where
  "hdr_insert n v h = h(n \<mapsto> [v])"

definition hdr_remove :: "string \<Rightarrow> headers \<Rightarrow> headers" where
  "hdr_remove n h = h(n := None)"

definition hdr_contains :: "headers \<Rightarrow> string \<Rightarrow> bool" where
  "hdr_contains h n = (h n \<noteq> None)"

lemma hdr_get_insert [simp]: "hdr_get (hdr_insert n v h) m = (if m = n then Some v else hdr_get h m)"
  by (simp add: hdr_get_def hdr_insert_def)

lemma hdr_get_remove [simp]: "hdr_get (hdr_remove n h) m = (if m = n then None else hdr_get h m)"
  by (simp add: hdr_get_def hdr_remove_def)

lemma hdr_get_empty [simp]: "hdr_get Map.empty n = None"
  by (simp add: hdr_get_def)

datatype frame = DataFrame bytes | TrailersFrame headers

type_synonym proxy_body = "frame list"

record uri =
  scheme :: "string option"
  authority :: "string option"
  path_and_query :: "string option"

record request =
  http_method :: string
  req_uri :: uri
  req_headers :: headers
  req_body :: proxy_body

record response =
  resp_status :: nat
  resp_headers :: headers
  resp_body :: proxy_body

section \<open>gRPC status codes\<close>

definition GRPC_UNAVAILABLE :: nat where "GRPC_UNAVAILABLE = 14"
definition GRPC_RESOURCE_EXHAUSTED :: nat where "GRPC_RESOURCE_EXHAUSTED = 8"
definition GRPC_CANCELLED :: nat where "GRPC_CANCELLED = 1"
definition GRPC_DEADLINE_EXCEEDED :: nat where "GRPC_DEADLINE_EXCEEDED = 4"
definition GRPC_NOT_FOUND :: nat where "GRPC_NOT_FOUND = 5"
definition GRPC_INVALID_ARGUMENT :: nat where "GRPC_INVALID_ARGUMENT = 3"

lemmas grpc_codes = GRPC_UNAVAILABLE_def GRPC_RESOURCE_EXHAUSTED_def GRPC_CANCELLED_def
  GRPC_DEADLINE_EXCEEDED_def GRPC_NOT_FOUND_def GRPC_INVALID_ARGUMENT_def

section \<open>Synthesized answers\<close>

definition is_ascii_graphic :: "char \<Rightarrow> bool" where
  "is_ascii_graphic c = (33 \<le> (of_char c :: nat) \<and> (of_char c :: nat) \<le> 126)"

definition sanitize_grpc_message :: "string \<Rightarrow> string" where
  "sanitize_grpc_message message =
     map (\<lambda>c. if is_ascii_graphic c \<or> c = CHR '' '' then c else CHR ''.'') message"

text \<open>
  \<open>HeaderValue::from_str\<close> belongs to the \<open>http\<close> crate; it is the parameter
  \<open>hv\<close>, of which the code relies on one documented fact: printable ASCII is accepted.
\<close>

definition accepts_printable :: "(string \<Rightarrow> string option) \<Rightarrow> bool" where
  "accepts_printable hv = (\<forall>s. list_all (\<lambda>c. is_ascii_graphic c \<or> c = CHR '' '') s \<longrightarrow> hv s = Some s)"

definition grpc_error :: "(string \<Rightarrow> string option) \<Rightarrow> nat \<Rightarrow> string \<Rightarrow> response" where
  "grpc_error hv code message =
     (let h = hdr_insert ''content-type'' ''application/grpc'' Map.empty;
          h = hdr_insert ''grpc-status'' (show_nat code) h;
          h = (case hv (sanitize_grpc_message message) of
                 Some value \<Rightarrow> hdr_insert ''grpc-message'' value h
               | None \<Rightarrow> h)
      in \<lparr>resp_status = 200, resp_headers = h, resp_body = []\<rparr>)"

definition full_body :: "bytes \<Rightarrow> proxy_body" where
  "full_body b = (if b = [] then [] else [DataFrame b])"

definition bytes_of_string :: "string \<Rightarrow> bytes" where
  "bytes_of_string s = map (\<lambda>c. word_of_nat (of_char c)) s"

definition text_response :: "nat \<Rightarrow> string \<Rightarrow> response" where
  "text_response status body =
     \<lparr>resp_status = status,
      resp_headers = hdr_insert ''content-type'' ''text/plain; charset=utf-8'' Map.empty,
      resp_body = full_body (bytes_of_string body)\<rparr>"

definition json_response :: "string \<Rightarrow> response" where
  "json_response body =
     \<lparr>resp_status = 200,
      resp_headers = hdr_insert ''content-type'' ''application/json'' Map.empty,
      resp_body = full_body (bytes_of_string body)\<rparr>"

definition caution_health_ok :: response where
  "caution_health_ok = \<lparr>resp_status = 200, resp_headers = Map.empty, resp_body = []\<rparr>"

section \<open>The replayed body\<close>

record replay_body =
  rb_data :: "bytes option"
  rb_trailers :: "headers option"

definition replay_body_new :: "bytes \<Rightarrow> headers option \<Rightarrow> replay_body" where
  "replay_body_new data trailers = \<lparr>rb_data = Some data, rb_trailers = trailers\<rparr>"

text \<open>One \<open>poll_frame\<close>: the frame it returns (\<open>None\<close> at the end) and the body after it.\<close>

definition poll_frame :: "replay_body \<Rightarrow> frame option \<times> replay_body" where
  "poll_frame this =
     (let this' = this\<lparr>rb_data := None\<rparr>;
          trailers_arm = (case rb_trailers this' of
              Some t \<Rightarrow> (Some (TrailersFrame t), this'\<lparr>rb_trailers := None\<rparr>)
            | None \<Rightarrow> (None, this'))
      in case rb_data this of
           Some data \<Rightarrow> (if data \<noteq> [] then (Some (DataFrame data), this') else trailers_arm)
         | None \<Rightarrow> trailers_arm)"

definition replay_measure :: "replay_body \<Rightarrow> nat" where
  "replay_measure b = (if rb_data b = None then 0 else 1) + (if rb_trailers b = None then 0 else 1)"

lemma poll_frame_decreases: "poll_frame b = (Some f, b') \<Longrightarrow> replay_measure b' < replay_measure b"
  by (auto simp: poll_frame_def replay_measure_def Let_def split: option.splits if_splits)

text \<open>Polling to the end, as the connection that writes the body does.\<close>

function replay_frames :: "replay_body \<Rightarrow> proxy_body" where
  "replay_frames b = (case poll_frame b of (None, _) \<Rightarrow> [] | (Some f, b') \<Rightarrow> f # replay_frames b')"
  by pat_completeness auto
termination
  by (relation "measure replay_measure") (auto intro: poll_frame_decreases [OF sym])

declare replay_frames.simps [simp del]

lemma replay_frames_new:
  "replay_frames (replay_body_new data trailers) =
     (if data = [] then [] else [DataFrame data]) @
     (case trailers of None \<Rightarrow> [] | Some t \<Rightarrow> [TrailersFrame t])"
  by (cases trailers)
    (simp_all add: replay_frames.simps replay_body_new_def poll_frame_def Let_def)

definition GRPC_PREFIX_LEN :: nat where "GRPC_PREFIX_LEN = 5"

definition grpc_unary :: "bytes \<Rightarrow> response" where
  "grpc_unary message =
     (let framed = [0] @ be_of_nat 4 (length message) @ message;
          trailers = hdr_insert ''grpc-status'' ''0'' Map.empty
      in \<lparr>resp_status = 200,
          resp_headers = hdr_insert ''content-type'' ''application/grpc'' Map.empty,
          resp_body = replay_frames (replay_body_new framed (Some trailers))\<rparr>)"

section \<open>Header rewriting on the way to and from the backing indexer\<close>

definition client_address_headers :: "string list" where
  "client_address_headers =
     [''x-forwarded-for'', ''x-forwarded-host'', ''x-forwarded-proto'', ''x-forwarded-port'',
      ''x-real-ip'', ''forwarded'', ''via'']"

definition strip_client_address_headers :: "headers \<Rightarrow> headers" where
  "strip_client_address_headers h = fold hdr_remove client_address_headers h"

definition normalize_response_encoding :: "headers \<Rightarrow> headers" where
  "normalize_response_encoding h =
     (if hdr_contains h ''grpc-accept-encoding''
      then hdr_insert ''grpc-accept-encoding'' ''identity'' h else h)"

text \<open>
  The head of \<open>forward\<close>: retarget the origin, drop \<open>Host\<close> and the client-address
  headers, leave method, path, every other header and the body alone. All three URI parts are
  set when \<open>Uri::from_parts\<close> runs, so it has nothing to refuse.
\<close>

definition forward_request :: "string \<Rightarrow> request \<Rightarrow> request" where
  "forward_request upstream_authority req =
     (let u = (req_uri req)\<lparr>scheme := Some ''http'', authority := Some upstream_authority\<rparr>;
          u = (if path_and_query u = None then u\<lparr>path_and_query := Some ''/''\<rparr> else u);
          h = hdr_remove ''host'' (req_headers req);
          h = strip_client_address_headers h
      in req\<lparr>req_uri := u, req_headers := h\<rparr>)"

datatype exchange_result = ExchangeTimedOut | ExchangeFailed string | ExchangeOk response

text \<open>
  The rest of \<open>forward\<close>: \<open>exchange\<close> is the backing indexer's answer to the
  rewritten request, up to its response head (\<open>UPSTREAM_HEAD_TIMEOUT\<close> bounds nothing else).
\<close>

definition forward :: "(request \<Rightarrow> exchange_result) \<Rightarrow> string \<Rightarrow> request \<Rightarrow> (string, response) result" where
  "forward exchange upstream_authority req =
     (case exchange (forward_request upstream_authority req) of
        ExchangeTimedOut \<Rightarrow> Err ''backing indexer accepted the request but sent no response headers''
      | ExchangeFailed e \<Rightarrow> Err e
      | ExchangeOk resp \<Rightarrow> Ok (resp\<lparr>resp_headers := normalize_response_encoding (resp_headers resp)\<rparr>))"

text \<open>
  The rewriting in \<open>forward_to_bootproofd\<close>: origin-form target, and the relay's own
  \<open>Host\<close>, which must be a header value.
\<close>

definition bootproofd_request ::
    "(string \<Rightarrow> string option) \<Rightarrow> string \<Rightarrow> request \<Rightarrow> (string, request) result" where
  "bootproofd_request hv addr req =
     (let pq = (case path_and_query (req_uri req) of Some pq \<Rightarrow> pq | None \<Rightarrow> ''/attestation'');
          u = \<lparr>scheme = None, authority = None, path_and_query = Some pq\<rparr>;
          h = hdr_remove ''host'' (req_headers req);
          h = strip_client_address_headers h
      in case hv addr of
           None \<Rightarrow> Err ''failed to parse header value''
         | Some v \<Rightarrow> Ok (req\<lparr>req_uri := u, req_headers := hdr_insert ''host'' v h\<rparr>))"

lemma strip_client_address_get:
  "hdr_get (strip_client_address_headers h) n =
     (if n \<in> set client_address_headers then None else hdr_get h n)"
  by (simp add: strip_client_address_headers_def client_address_headers_def)

lemma forward_request_headers:
  "hdr_get (req_headers (forward_request a req)) n =
     (if n \<in> set (''host'' # client_address_headers) then None else hdr_get (req_headers req) n)"
  by (simp add: forward_request_def Let_def strip_client_address_get)

lemma bootproofd_request_Ok:
  "bootproofd_request hv a req = Ok r \<Longrightarrow>
     http_method r = http_method req \<and> req_body r = req_body req \<and> authority (req_uri r) = None \<and>
     hdr_get (req_headers r) n =
       (if n = ''host'' then hv a
        else if n \<in> set client_address_headers then None else hdr_get (req_headers req) n)"
  by (auto simp: bootproofd_request_def Let_def strip_client_address_get split: option.splits)

section \<open>Routing\<close>

definition SEND_TRANSACTION :: string where
  "SEND_TRANSACTION = ''/cash.z.wallet.sdk.rpc.CompactTxStreamer/SendTransaction''"
definition GET_TRANSACTION :: string where
  "GET_TRANSACTION = ''/cash.z.wallet.sdk.rpc.CompactTxStreamer/GetTransaction''"
definition CAUTION_HEALTH :: string where "CAUTION_HEALTH = ''/.well-known/caution/health''"
definition CAUTION_ATTESTATION :: string where "CAUTION_ATTESTATION = ''/attestation''"
definition SHIM_HEALTH :: string where "SHIM_HEALTH = ''/healthz''"
definition SHIM_NYM_STATUS :: string where "SHIM_NYM_STATUS = ''/nym-status''"
definition SHIM_NYM_DIAG :: string where "SHIM_NYM_DIAG = ''/nym-diag''"

lemmas path_consts = SEND_TRANSACTION_def GET_TRANSACTION_def CAUTION_HEALTH_def
  CAUTION_ATTESTATION_def SHIM_HEALTH_def SHIM_NYM_STATUS_def SHIM_NYM_DIAG_def

datatype route =
    Intercept | InterceptNearMiss | GetTransaction | CautionHealth | CautionAttestation
  | ShimHealth | ShimNymStatus | ShimNymDiag | PassThrough

definition ascii_lower :: "char \<Rightarrow> char" where
  "ascii_lower c =
     (let n = (of_char c :: nat) in if 65 \<le> n \<and> n \<le> 90 then char_of (n + 32) else c)"

definition eq_ignore_ascii_case :: "string \<Rightarrow> string \<Rightarrow> bool" where
  "eq_ignore_ascii_case a b = (map ascii_lower a = map ascii_lower b)"

definition trim_end_slashes :: "string \<Rightarrow> string" where
  "trim_end_slashes p = rev (dropWhile (\<lambda>c. c = CHR ''/'') (rev p))"

text \<open>\<open>p.rsplit('/').next()\<close>: what follows the last slash (all of \<open>p\<close> without one).\<close>

definition last_segment :: "string \<Rightarrow> string" where
  "last_segment p = rev (takeWhile (\<lambda>c. c \<noteq> CHR ''/'') (rev p))"

definition route_for :: "string \<Rightarrow> route" where
  "route_for path =
     (if path = SEND_TRANSACTION then Intercept
      else if path = GET_TRANSACTION then GetTransaction
      else if path = CAUTION_HEALTH then CautionHealth
      else if path = CAUTION_ATTESTATION then CautionAttestation
      else if path = SHIM_HEALTH then ShimHealth
      else if path = SHIM_NYM_STATUS then ShimNymStatus
      else if path = SHIM_NYM_DIAG then ShimNymDiag
      else if eq_ignore_ascii_case (last_segment (trim_end_slashes path)) ''sendtransaction''
      then InterceptNearMiss
      else PassThrough)"

text \<open>
  The specification the routing predicate is measured against: the final segment of the path,
  after any number of trailing slashes, spells the method in some mixture of cases.
\<close>

definition spells_send_transaction :: "string \<Rightarrow> bool" where
  "spells_send_transaction path =
     (\<exists>pre seg n. path = pre @ seg @ replicate n (CHR ''/'') \<and>
        (pre = [] \<or> last pre = CHR ''/'') \<and> CHR ''/'' \<notin> set seg \<and>
        map ascii_lower seg = ''sendtransaction'')"

lemma dropWhile_slashes:
  "\<exists>n. rev p = replicate n (CHR ''/'') @ dropWhile (\<lambda>c. c = CHR ''/'') (rev p)"
proof -
  have "\<forall>c \<in> set (takeWhile (\<lambda>c. c = CHR ''/'') (rev p)). c = CHR ''/''"
    by (auto dest: set_takeWhileD)
  then have "takeWhile (\<lambda>c. c = CHR ''/'') (rev p) =
      replicate (length (takeWhile (\<lambda>c. c = CHR ''/'') (rev p))) (CHR ''/'')"
    by (metis replicate_length_same)
  then show ?thesis by (metis takeWhile_dropWhile_id)
qed

lemma trim_end_slashes_append:
  "seg \<noteq> [] \<Longrightarrow> last seg \<noteq> CHR ''/'' \<Longrightarrow> trim_end_slashes (pre @ seg @ replicate n (CHR ''/'')) = pre @ seg"
  by (cases seg rule: rev_cases) (simp_all add: trim_end_slashes_def dropWhile_append)

lemma last_segment_append:
  "CHR ''/'' \<notin> set seg \<Longrightarrow> pre = [] \<or> last pre = CHR ''/'' \<Longrightarrow> last_segment (pre @ seg) = seg"
proof -
  assume seg: "CHR ''/'' \<notin> set seg" and pre: "pre = [] \<or> last pre = CHR ''/''"
  have "takeWhile (\<lambda>c. c \<noteq> CHR ''/'') (rev pre) = []"
    using pre by (cases pre rule: rev_cases) auto
  moreover have "takeWhile (\<lambda>c. c \<noteq> CHR ''/'') (rev seg @ rev pre) =
      rev seg @ takeWhile (\<lambda>c. c \<noteq> CHR ''/'') (rev pre)"
    using seg by (subst takeWhile_append2) auto
  ultimately show ?thesis by (simp add: last_segment_def)
qed

lemma last_segment_split:
  "\<exists>pre. p = pre @ last_segment p \<and> (pre = [] \<or> last pre = CHR ''/'') \<and> CHR ''/'' \<notin> set (last_segment p)"
proof -
  let ?d = "dropWhile (\<lambda>c. c \<noteq> CHR ''/'') (rev p)"
  have "p = rev ?d @ last_segment p"
    unfolding last_segment_def by (metis rev_append rev_rev_ident takeWhile_dropWhile_id)
  moreover have "rev ?d = [] \<or> last (rev ?d) = CHR ''/''"
    using hd_dropWhile [of "\<lambda>c. c \<noteq> CHR ''/''" "rev p"] by (auto simp: last_rev)
  moreover have "CHR ''/'' \<notin> set (last_segment p)"
    by (auto simp: last_segment_def dest: set_takeWhileD)
  ultimately show ?thesis by blast
qed

lemma lower_send_transaction: "map ascii_lower ''sendtransaction'' = ''sendtransaction''"
  by (simp add: ascii_lower_def)

lemma eq_send_transaction:
  "eq_ignore_ascii_case s ''sendtransaction'' \<longleftrightarrow> map ascii_lower s = ''sendtransaction''"
  unfolding eq_ignore_ascii_case_def lower_send_transaction ..

lemma near_miss_iff:
  "eq_ignore_ascii_case (last_segment (trim_end_slashes p)) ''sendtransaction'' \<longleftrightarrow>
   spells_send_transaction p"
proof
  {
    assume "eq_ignore_ascii_case (last_segment (trim_end_slashes p)) ''sendtransaction''"
    then have lower: "map ascii_lower (last_segment (trim_end_slashes p)) = ''sendtransaction''"
      by (simp only: eq_send_transaction)
    obtain pre where pre: "trim_end_slashes p = pre @ last_segment (trim_end_slashes p)"
      "pre = [] \<or> last pre = CHR ''/''" "CHR ''/'' \<notin> set (last_segment (trim_end_slashes p))"
      using last_segment_split by blast
    obtain n where n: "p = trim_end_slashes p @ replicate n (CHR ''/'')"
      using dropWhile_slashes [of p]
      by (metis rev_append rev_replicate rev_rev_ident trim_end_slashes_def)
    have "p = (pre @ last_segment (trim_end_slashes p)) @ replicate n (CHR ''/'')"
      by (rule trans [OF n]) (rule arg_cong [where f = "\<lambda>x. x @ _", OF pre(1)])
    then have "p = pre @ last_segment (trim_end_slashes p) @ replicate n (CHR ''/'')"
      by (simp only: append_assoc)
    then show "spells_send_transaction p"
      unfolding spells_send_transaction_def
      by (intro exI conjI) (assumption | rule pre lower)+
  }
  {
    assume "spells_send_transaction p"
    then obtain pre seg n where p: "p = pre @ seg @ replicate n (CHR ''/'')"
      and seg: "pre = [] \<or> last pre = CHR ''/''" "CHR ''/'' \<notin> set seg"
      and lower: "map ascii_lower seg = ''sendtransaction''"
      unfolding spells_send_transaction_def by (elim exE conjE) (rule that, assumption+)
    from lower have "seg \<noteq> []" by auto
    then have "last seg \<noteq> CHR ''/''" using seg(2) by (metis last_in_set)
    with \<open>seg \<noteq> []\<close> have "last_segment (trim_end_slashes p) = seg"
      by (simp add: p trim_end_slashes_append last_segment_append seg)
    then show "eq_ignore_ascii_case (last_segment (trim_end_slashes p)) ''sendtransaction''"
      unfolding eq_send_transaction using lower by simp
  }
qed

text \<open>
  No fixed path other than the method itself spells it, so the earlier arms of
  \<open>route_for\<close> cannot shadow the near-miss arm.
\<close>

lemma fixed_paths_do_not_spell:
  "p \<in> {GET_TRANSACTION, CAUTION_HEALTH, CAUTION_ATTESTATION, SHIM_HEALTH, SHIM_NYM_STATUS,
      SHIM_NYM_DIAG} \<Longrightarrow> \<not> spells_send_transaction p"
  unfolding near_miss_iff [symmetric] eq_send_transaction
  by (auto simp: path_consts last_segment_def trim_end_slashes_def ascii_lower_def char_of_def bit_Suc_0_iff)

lemma send_transaction_spells: "spells_send_transaction SEND_TRANSACTION"
  unfolding near_miss_iff [symmetric] eq_send_transaction
  by (simp add: path_consts last_segment_def trim_end_slashes_def ascii_lower_def char_of_def bit_Suc_0_iff)

lemma route_for_cases:
  "route_for p = Intercept \<longleftrightarrow> p = SEND_TRANSACTION"
  "route_for p = GetTransaction \<longleftrightarrow> p = GET_TRANSACTION"
  by (auto simp: route_for_def path_consts)

lemma intercepted_iff_spells:
  "route_for p \<in> {Intercept, InterceptNearMiss} \<longleftrightarrow> spells_send_transaction p"
proof (cases "p \<in> {SEND_TRANSACTION, GET_TRANSACTION, CAUTION_HEALTH, CAUTION_ATTESTATION,
    SHIM_HEALTH, SHIM_NYM_STATUS, SHIM_NYM_DIAG}")
  case True
  then consider "p = SEND_TRANSACTION" | "p \<noteq> SEND_TRANSACTION" "\<not> spells_send_transaction p"
    using fixed_paths_do_not_spell by blast
  then show ?thesis
  proof cases
    case 1
    then show ?thesis using send_transaction_spells by (simp add: route_for_def)
  next
    case 2
    with True show ?thesis by (auto simp: route_for_def)
  qed
next
  case False
  then show ?thesis by (auto simp: route_for_def near_miss_iff)
qed

section \<open>Properties\<close>

text \<open>
  Nothing about the client's address reaches the other side: a request forwarded to the
  backing indexer, or to the attestation relay, carries none of the client-address headers and
  not the client's \<open>Host\<close> (the relay gets its own), while the method, the body, the
  path and query and every other header arrive as the client sent them.
\<close>

theorem client_address_never_forwarded:
  "http_method (forward_request a req) = http_method req
   \<and> req_body (forward_request a req) = req_body req
   \<and> authority (req_uri (forward_request a req)) = Some a
   \<and> path_and_query (req_uri (forward_request a req)) =
       Some (case path_and_query (req_uri req) of None \<Rightarrow> ''/'' | Some p \<Rightarrow> p)
   \<and> (\<forall>n. hdr_get (req_headers (forward_request a req)) n =
       (if n \<in> set (''host'' # client_address_headers) then None else hdr_get (req_headers req) n))
   \<and> (case bootproofd_request hv b req of Err _ \<Rightarrow> hv b = None
      | Ok r \<Rightarrow> http_method r = http_method req \<and> req_body r = req_body req
          \<and> authority (req_uri r) = None
          \<and> (\<forall>n. hdr_get (req_headers r) n =
               (if n = ''host'' then hv b
                else if n \<in> set client_address_headers then None else hdr_get (req_headers req) n)))"
proof -
  have "case bootproofd_request hv b req of Err _ \<Rightarrow> hv b = None
      | Ok r \<Rightarrow> http_method r = http_method req \<and> req_body r = req_body req
          \<and> authority (req_uri r) = None
          \<and> (\<forall>n. hdr_get (req_headers r) n =
               (if n = ''host'' then hv b
                else if n \<in> set client_address_headers then None else hdr_get (req_headers req) n))"
  proof (cases "bootproofd_request hv b req")
    case (Inl e)
    then have "hv b = None" by (simp add: bootproofd_request_def Let_def split: option.splits)
    with Inl show ?thesis by simp
  next
    case (Inr r)
    from bootproofd_request_Ok [OF Inr] Inr show ?thesis by simp
  qed
  then show ?thesis
    by (simp add: forward_request_headers)
      (simp add: forward_request_def Let_def split: option.splits)
qed

text \<open>
  An error the shim synthesises always reaches the wallet in a form its gRPC client can
  read: HTTP 200 with an empty body, the numeric \<open>grpc-status\<close>, and a \<open>grpc-message\<close> that
  is the message itself with every byte a header cannot carry replaced, character for character.
\<close>

theorem grpc_error_is_header_safe:
  assumes "accepts_printable hv"
  shows "resp_status (grpc_error hv code message) = 200
       \<and> resp_body (grpc_error hv code message) = []
       \<and> hdr_get (resp_headers (grpc_error hv code message)) ''grpc-status'' = Some (show_nat code)
       \<and> (\<exists>m. hdr_get (resp_headers (grpc_error hv code message)) ''grpc-message'' = Some m
            \<and> length m = length message \<and> list_all (\<lambda>c. is_ascii_graphic c \<or> c = CHR '' '') m
            \<and> (\<forall>i < length m. is_ascii_graphic (message ! i) \<longrightarrow> m ! i = message ! i))"
proof -
  have "list_all (\<lambda>c. is_ascii_graphic c \<or> c = CHR '' '') (sanitize_grpc_message message)"
    by (auto simp: sanitize_grpc_message_def list_all_iff is_ascii_graphic_def)
  with assms have "hv (sanitize_grpc_message message) = Some (sanitize_grpc_message message)"
    by (simp add: accepts_printable_def)
  moreover have "list_all (\<lambda>c. is_ascii_graphic c \<or> c = CHR '' '') (sanitize_grpc_message message)"
    by fact
  ultimately show ?thesis
    by (auto simp: grpc_error_def Let_def sanitize_grpc_message_def)
qed

theorem grpc_error_is_header_safe_witness:
  "\<exists>m. hdr_get (resp_headers (grpc_error Some 14 ''a/b'')) ''grpc-message'' = Some m \<and> length m = 3"
proof -
  have "accepts_printable Some" by (simp add: accepts_printable_def)
  from grpc_error_is_header_safe [OF this, of 14 "''a/b''"] show ?thesis by auto
qed

text \<open>
  A decoded message is answered byte for byte: polling the body \<open>grpc_unary\<close> builds
  returns one data frame, the five-byte gRPC prefix (uncompressed, big-endian length) and the
  message, then one trailers frame with \<open>grpc-status: 0\<close>, and then the end; a body with
  nothing in it yields only its trailers, and polling always reaches the end.
\<close>

theorem replayed_body_is_exact:
  assumes "length message < 2 ^ 32"
  shows "\<exists>framed trailers. resp_body (grpc_unary message) = [DataFrame framed, TrailersFrame trailers]
       \<and> framed ! 0 = 0 \<and> nat_of_be (slice 1 5 framed) = length message
       \<and> drop GRPC_PREFIX_LEN framed = message
       \<and> hdr_get trailers ''grpc-status'' = Some ''0''
       \<and> replay_frames (replay_body_new [] (Some trailers)) = [TrailersFrame trailers]"
  using assms
  by (simp add: grpc_unary_def Let_def replay_frames_new slice_def GRPC_PREFIX_LEN_def
      nat_of_be_of_nat drop_Cons')

theorem replayed_body_is_exact_witness:
  "\<exists>framed trailers. resp_body (grpc_unary [1, 2, 3]) = [DataFrame framed, TrailersFrame trailers]
     \<and> drop GRPC_PREFIX_LEN framed = [1, 2, 3]"
  using replayed_body_is_exact [of "[1, 2, 3]"] by auto

end
