(* ===== verification/Amount.thy ===== *)
theory Amount
  imports Prelude
begin

text \<open>
  Zatoshi amounts, \<open>zebra-chain/src/amount.rs\<close>. The type parameter of
  \<open>Amount<C>\<close> selects the range a value must lie in; here it is an explicit argument of
  type \<open>constraint\<close>, and the amount itself is the \<open>i64\<close> it wraps, an \<open>int\<close>
  whose bounds are written out. Operations that can panic in the source (\<open>expect\<close>,
  \<open>assert!\<close>) return \<open>None\<close> for the panic, so that its absence is a theorem.
\<close>

section \<open>Machine ranges\<close>

definition i64_min :: int where "i64_min = - (2 ^ 63)"
definition i64_max :: int where "i64_max = 2 ^ 63 - 1"
definition in_i64 :: "int \<Rightarrow> bool" where "in_i64 v = (i64_min \<le> v \<and> v \<le> i64_max)"
definition in_i128 :: "int \<Rightarrow> bool" where "in_i128 v = (- (2 ^ 127) \<le> v \<and> v \<le> 2 ^ 127 - 1)"
definition in_u64 :: "int \<Rightarrow> bool" where "in_u64 v = (0 \<le> v \<and> v \<le> 2 ^ 64 - 1)"

lemmas int_ranges = i64_min_def i64_max_def in_i64_def in_i128_def in_u64_def

definition checked_add_i64 :: "int \<Rightarrow> int \<Rightarrow> int option" where
  "checked_add_i64 a b = (if in_i64 (a + b) then Some (a + b) else None)"

definition checked_sub_i64 :: "int \<Rightarrow> int \<Rightarrow> int option" where
  "checked_sub_i64 a b = (if in_i64 (a - b) then Some (a - b) else None)"

definition checked_mul_i64 :: "int \<Rightarrow> int \<Rightarrow> int option" where
  "checked_mul_i64 a b = (if in_i64 (a * b) then Some (a * b) else None)"

definition checked_mul_i128 :: "int \<Rightarrow> int \<Rightarrow> int option" where
  "checked_mul_i128 a b = (if in_i128 (a * b) then Some (a * b) else None)"

text \<open>Rust's integer division truncates towards zero; \<open>rem_trunc\<close> is its \<open>%\<close>.\<close>

definition div_trunc :: "int \<Rightarrow> int \<Rightarrow> int" where
  "div_trunc a b = sgn a * sgn b * (\<bar>a\<bar> div \<bar>b\<bar>)"

definition rem_trunc :: "int \<Rightarrow> int \<Rightarrow> int" where
  "rem_trunc a b = a - b * div_trunc a b"

section \<open>Constraints and errors\<close>

definition COIN :: int where "COIN = 100000000"
definition MAX_MONEY :: int where "MAX_MONEY = 21000000 * COIN"

datatype constraint = NegativeAllowed | NonNegative | NegativeOrZero

fun valid_range :: "constraint \<Rightarrow> int \<times> int" where
  "valid_range NegativeAllowed = (- MAX_MONEY, MAX_MONEY)"
| "valid_range NonNegative = (0, MAX_MONEY)"
| "valid_range NegativeOrZero = (- MAX_MONEY, 0)"

datatype amount_error =
    Constraint int "int \<times> int"
  | Convert int
  | MultiplicationOverflow int int int
  | DivideByZero int
  | SumOverflow int nat

fun display_amount_error :: "amount_error \<Rightarrow> string" where
  "display_amount_error (Constraint value rg) =
     ''input '' @ show_int value @ '' is outside of valid range for zatoshi Amount, valid_range='' @
     show_int (fst rg) @ ''..='' @ show_int (snd rg)"
| "display_amount_error (Convert value) = show_int value @ '' could not be converted to an i64 Amount''"
| "display_amount_error (MultiplicationOverflow amount multiplier result) =
     ''overflow when calculating '' @ show_int amount @ ''i64 * '' @ show_int multiplier @ ''u64 = '' @
     show_int result @ ''i128''"
| "display_amount_error (DivideByZero amount) =
     ''cannot divide amount '' @ show_int amount @ '' by zero''"
| "display_amount_error (SumOverflow partial_sum remaining) =
     ''overflow when summing i64 amounts; partial sum: '' @ show_int partial_sum @
     '', number of remaining items: '' @ show_nat remaining"

fun invalid_value :: "amount_error \<Rightarrow> int" where
  "invalid_value (Constraint value _) = value"
| "invalid_value (Convert value) = value"
| "invalid_value (MultiplicationOverflow _ _ overflowing_result) = overflowing_result"
| "invalid_value (DivideByZero amount) = amount"
| "invalid_value (SumOverflow partial_sum _) = partial_sum"

definition validate :: "constraint \<Rightarrow> int \<Rightarrow> (amount_error, int) result" where
  "validate c value =
     (let rg = valid_range c
      in if \<not> (fst rg \<le> value \<and> value \<le> snd rg) then Err (Constraint value rg) else Ok value)"

definition valid_amount :: "constraint \<Rightarrow> int \<Rightarrow> bool" where
  "valid_amount c v = (fst (valid_range c) \<le> v \<and> v \<le> snd (valid_range c))"

lemma validate_Ok_iff [simp]: "validate c v = Ok w \<longleftrightarrow> w = v \<and> valid_amount c v"
  by (auto simp: validate_def valid_amount_def Let_def)

lemma validate_cases:
  "validate c v = (if valid_amount c v then Ok v else Err (Constraint v (valid_range c)))"
  by (auto simp: validate_def valid_amount_def Let_def)

lemmas money = MAX_MONEY_def COIN_def

lemma valid_amount_simps [simp]:
  "valid_amount NegativeAllowed v \<longleftrightarrow> - MAX_MONEY \<le> v \<and> v \<le> MAX_MONEY"
  "valid_amount NonNegative v \<longleftrightarrow> 0 \<le> v \<and> v \<le> MAX_MONEY"
  "valid_amount NegativeOrZero v \<longleftrightarrow> - MAX_MONEY \<le> v \<and> v \<le> 0"
  by (auto simp: valid_amount_def)

lemma MAX_MONEY_pos [simp]: "0 < MAX_MONEY" "0 \<le> MAX_MONEY"
  by (simp_all add: money)

lemma valid_amount_bounds: "valid_amount c v \<Longrightarrow> - MAX_MONEY \<le> v \<and> v \<le> MAX_MONEY"
proof -
  assume "valid_amount c v"
  moreover have "(0::int) < MAX_MONEY" by simp
  ultimately show ?thesis by (cases c) auto
qed

lemma valid_amount_i64: "valid_amount c v \<Longrightarrow> in_i64 v"
  using valid_amount_bounds [of c v] by (auto simp: int_ranges money)

lemma valid_amount_zero [simp]: "valid_amount c 0"
  by (cases c) simp_all

section \<open>Conversions\<close>

definition try_from_i64 :: "constraint \<Rightarrow> int \<Rightarrow> (amount_error, int) result" where
  "try_from_i64 c value = validate c value"

definition try_from_i32 :: "constraint \<Rightarrow> int \<Rightarrow> (amount_error, int) result" where
  "try_from_i32 c value = validate c value"

definition try_from_u64 :: "constraint \<Rightarrow> int \<Rightarrow> (amount_error, int) result" where
  "try_from_u64 c value = (if in_i64 value then validate c value else Err (Convert value))"

definition try_from_i128 :: "constraint \<Rightarrow> int \<Rightarrow> (amount_error, int) result" where
  "try_from_i128 c value = (if in_i64 value then validate c value else Err (Convert value))"

definition constrain :: "constraint \<Rightarrow> int \<Rightarrow> (amount_error, int) result" where
  "constrain c2 a = try_from_i64 c2 a"

text \<open>\<open>to_bytes\<close> is two's complement; \<open>i64_of_bytes\<close> is \<open>i64::from_le_bytes\<close>.\<close>

definition i64_of_bytes :: "bytes \<Rightarrow> int" where
  "i64_of_bytes bs = (let n = int (nat_of_le bs) in if n \<ge> 2 ^ 63 then n - 2 ^ 64 else n)"

definition amount_to_bytes :: "int \<Rightarrow> bytes" where
  "amount_to_bytes v = le_of_nat 8 (nat (v mod 2 ^ 64))"

definition amount_from_bytes :: "constraint \<Rightarrow> bytes \<Rightarrow> (amount_error, int) result" where
  "amount_from_bytes c bs = (let amount = i64_of_bytes bs in try_from_i64 c amount)"

definition amount_zero :: int where "amount_zero = 0"
definition amount_is_zero :: "int \<Rightarrow> bool" where "amount_is_zero a = (a = 0)"

text \<open>
  \<open>Display\<close>: \<open>pad_integral(zats > 0, "", zats.to_string())\<close> with the default format
  puts a minus sign in front of the digits exactly when its first argument is false.
\<close>

definition display_amount :: "int \<Rightarrow> string" where
  "display_amount zats = (if zats > 0 then '''' else ''-'') @ show_int zats"

section \<open>Arithmetic\<close>

definition amount_new :: "int \<Rightarrow> int option" where
  "amount_new zatoshis = (if zatoshis \<le> MAX_MONEY \<and> zatoshis \<ge> 0 then Some zatoshis else None)"

definition new_from_zec :: "int \<Rightarrow> int option" where
  "new_from_zec zec_value =
     (case checked_mul_i64 zec_value COIN of None \<Rightarrow> None | Some z \<Rightarrow> amount_new z)"

definition div_exact :: "int \<Rightarrow> int \<Rightarrow> int option" where
  "div_exact a rhs =
     (if rhs = 0 \<or> \<not> in_i64 (div_trunc a rhs) then None
      else if rem_trunc a rhs \<noteq> 0 then None else Some (div_trunc a rhs))"

definition amount_checked_sub :: "int \<Rightarrow> int \<Rightarrow> int option" where
  "amount_checked_sub a rhs =
     (case checked_sub_i64 a rhs of None \<Rightarrow> None
      | Some v \<Rightarrow> (case try_from_i64 NegativeAllowed v of Ok x \<Rightarrow> Some x | Err _ \<Rightarrow> None))"

definition amount_add :: "constraint \<Rightarrow> int \<Rightarrow> int \<Rightarrow> (amount_error, int) result option" where
  "amount_add c a b = map_option (try_from_i64 c) (checked_add_i64 a b)"

definition amount_sub :: "constraint \<Rightarrow> int \<Rightarrow> int \<Rightarrow> (amount_error, int) result option" where
  "amount_sub c a b = map_option (try_from_i64 c) (checked_sub_i64 a b)"

text \<open>\<open>AddAssign\<close> and \<open>SubAssign\<close> on a \<open>Result\<close>: an error already there stays.\<close>

definition amount_add_assign ::
    "constraint \<Rightarrow> (amount_error, int) result \<Rightarrow> int \<Rightarrow> (amount_error, int) result option" where
  "amount_add_assign c self rhs = (case self of Err e \<Rightarrow> Some (Err e) | Ok lhs \<Rightarrow> amount_add c lhs rhs)"

definition amount_sub_assign ::
    "constraint \<Rightarrow> (amount_error, int) result \<Rightarrow> int \<Rightarrow> (amount_error, int) result option" where
  "amount_sub_assign c self rhs = (case self of Err e \<Rightarrow> Some (Err e) | Ok lhs \<Rightarrow> amount_sub c lhs rhs)"

definition amount_mul :: "constraint \<Rightarrow> int \<Rightarrow> int \<Rightarrow> (amount_error, int) result option" where
  "amount_mul c a rhs =
     (case checked_mul_i128 a rhs of None \<Rightarrow> None
      | Some value \<Rightarrow>
          Some (map_err (\<lambda>_. MultiplicationOverflow a rhs value) (try_from_i128 c value)))"

definition amount_div :: "constraint \<Rightarrow> int \<Rightarrow> int \<Rightarrow> (amount_error, int) result option" where
  "amount_div c a rhs =
     (if rhs = 0 then Some (Err (DivideByZero a))
      else case try_from_i128 c (div_trunc a rhs) of Ok q \<Rightarrow> Some (Ok q) | Err _ \<Rightarrow> None)"

definition amount_neg :: "int \<Rightarrow> int option" where
  "amount_neg a = (case try_from_i64 NegativeAllowed (- a) of Ok v \<Rightarrow> Some v | Err _ \<Rightarrow> None)"

text \<open>
  \<open>Sum\<close>: \<open>try_fold\<close> from zero. It stops at the first error, with the items after the
  failing one still in the iterator; \<open>None\<close> stands for the panics (the addition's
  \<open>expect\<close>, and \<open>unreachable!\<close> for any error but \<open>Constraint\<close>).
\<close>

fun amount_sum_from :: "constraint \<Rightarrow> int \<Rightarrow> int list \<Rightarrow> (amount_error, int) result option" where
  "amount_sum_from c acc [] = Some (Ok acc)"
| "amount_sum_from c acc (amount # iter) =
     (case amount_add c acc amount of
        None \<Rightarrow> None
      | Some (Ok acc') \<Rightarrow> amount_sum_from c acc' iter
      | Some (Err (Constraint value _)) \<Rightarrow> Some (Err (SumOverflow value (length iter)))
      | Some (Err _) \<Rightarrow> None)"

definition amount_sum :: "constraint \<Rightarrow> int list \<Rightarrow> (amount_error, int) result option" where
  "amount_sum c iter = amount_sum_from c amount_zero iter"

section \<open>Facts about the operations\<close>

lemma amount_add_valid:
  assumes "valid_amount c a" and "valid_amount c b"
  shows "amount_add c a b = Some (validate c (a + b))"
  using valid_amount_bounds [OF assms(1)] valid_amount_bounds [OF assms(2)]
  by (simp add: amount_add_def checked_add_i64_def try_from_i64_def int_ranges money)

lemma amount_sub_valid:
  assumes "valid_amount c a" and "valid_amount c b"
  shows "amount_sub c a b = Some (validate c (a - b))"
  using valid_amount_bounds [OF assms(1)] valid_amount_bounds [OF assms(2)]
  by (simp add: amount_sub_def checked_sub_i64_def try_from_i64_def int_ranges money)

lemma amount_mul_valid:
  assumes "valid_amount c a" and "in_u64 k"
  shows "amount_mul c a k =
    Some (if in_i64 (a * k) \<and> valid_amount c (a * k) then Ok (a * k)
          else Err (MultiplicationOverflow a k (a * k)))"
proof -
  have bounds: "\<bar>a\<bar> \<le> MAX_MONEY" using valid_amount_bounds [OF assms(1)] by linarith
  have k: "0 \<le> k" "k \<le> 2 ^ 64" using assms(2) by (auto simp: int_ranges)
  have "\<bar>a * k\<bar> \<le> MAX_MONEY * 2 ^ 64"
    using bounds k by (simp add: abs_mult mult_mono)
  then have "in_i128 (a * k)" by (simp add: int_ranges money abs_le_iff)
  then show ?thesis
    by (simp add: amount_mul_def checked_mul_i128_def try_from_i128_def validate_cases)
qed

lemma div_trunc_abs_le: "\<bar>div_trunc a b\<bar> \<le> \<bar>a\<bar>"
proof -
  have "\<bar>a\<bar> div \<bar>b\<bar> \<le> \<bar>a\<bar>"
  proof (cases "b = 0")
    case False
    then have "1 \<le> \<bar>b\<bar>" by simp
    then show ?thesis using zdiv_mono2 [of "\<bar>a\<bar>" 1 "\<bar>b\<bar>"] by simp
  qed simp
  moreover have "0 \<le> \<bar>a\<bar> div \<bar>b\<bar>" by (cases "b = 0") (simp_all add: pos_imp_zdiv_nonneg_iff)
  ultimately show ?thesis
    by (auto simp: div_trunc_def abs_mult sgn_if split: if_splits)
qed

lemma div_trunc_sign: "0 < b \<Longrightarrow> 0 \<le> a \<Longrightarrow> 0 \<le> div_trunc a b"
  "0 < b \<Longrightarrow> a \<le> 0 \<Longrightarrow> div_trunc a b \<le> 0"
  by (auto simp: div_trunc_def sgn_if pos_imp_zdiv_nonneg_iff)

lemma amount_div_valid:
  assumes "valid_amount c a" and "in_u64 k" and "k \<noteq> 0"
  shows "amount_div c a k = Some (Ok (div_trunc a k)) \<and> valid_amount c (div_trunc a k)"
proof -
  have k: "0 < k" using assms by (auto simp: int_ranges)
  have q: "\<bar>div_trunc a k\<bar> \<le> \<bar>a\<bar>" by (rule div_trunc_abs_le)
  have "valid_amount c (div_trunc a k)"
    using assms(1) q div_trunc_sign [OF k, of a] by (cases c) auto
  with assms(3) show ?thesis
    by (simp add: amount_div_def try_from_i128_def valid_amount_i64 validate_cases)
qed

lemma amount_neg_valid: "valid_amount c a \<Longrightarrow> amount_neg a = Some (- a)"
  using valid_amount_bounds [of c a] by (auto simp: amount_neg_def try_from_i64_def validate_cases)

text \<open>The value a running sum reaches before it leaves its range, if it does.\<close>

lemma amount_sum_from_valid:
  assumes "valid_amount c acc" and "list_all (valid_amount c) xs"
  shows "amount_sum_from c acc xs \<noteq> None \<and>
    (amount_sum_from c acc xs = Some (Ok s) \<longleftrightarrow>
       s = acc + sum_list xs \<and> (\<forall>n \<le> length xs. valid_amount c (acc + sum_list (take n xs))))"
  using assms
proof (induction xs arbitrary: acc)
  case Nil
  then show ?case by auto
next
  case (Cons x xs)
  have split: "(\<forall>n \<le> length (x # xs). valid_amount c (acc + sum_list (take n (x # xs)))) \<longleftrightarrow>
      (\<forall>n \<le> length xs. valid_amount c (acc + x + sum_list (take n xs)))" if "valid_amount c acc"
    using that by (auto simp: take_Cons' add.assoc)
  show ?case
  proof (cases "valid_amount c (acc + x)")
    case True
    then have "amount_add c acc x = Some (Ok (acc + x))"
      using Cons.prems by (simp add: amount_add_valid validate_cases)
    then show ?thesis
      using Cons.IH [OF True] Cons.prems split [OF Cons.prems(1)] by (simp add: add.assoc)
  next
    case False
    then have "amount_add c acc x = Some (Err (Constraint (acc + x) (valid_range c)))"
      using Cons.prems by (simp add: amount_add_valid validate_cases)
    moreover have "\<not> (\<forall>n \<le> length (x # xs). valid_amount c (acc + sum_list (take n (x # xs))))"
      using False by (auto intro!: exI [of _ 1])
    ultimately show ?thesis by auto
  qed
qed

lemma i64_bytes_roundtrip: "in_i64 v \<Longrightarrow> i64_of_bytes (amount_to_bytes v) = v"
proof -
  assume "in_i64 v"
  then have b: "- (2 ^ 63) \<le> v" "v < 2 ^ 63" by (auto simp: int_ranges)
  have "nat_of_le (amount_to_bytes v) = nat (v mod 2 ^ 64) mod 256 ^ 8"
    by (simp add: amount_to_bytes_def nat_of_le_of_nat)
  also have "\<dots> = nat (v mod 2 ^ 64)"
    using pos_mod_bound [of "2 ^ 64" v] by (intro mod_less) (simp add: nat_less_iff)
  finally have eq: "int (nat_of_le (amount_to_bytes v)) = v mod 2 ^ 64" by simp
  show ?thesis
  proof (cases "0 \<le> v")
    case True
    then have "v mod 2 ^ 64 = v" using b by (intro mod_pos_pos_trivial) auto
    with eq b True show ?thesis by (simp add: i64_of_bytes_def Let_def)
  next
    case False
    have "v mod 2 ^ 64 = (v + 2 ^ 64) mod 2 ^ 64" by simp
    also have "\<dots> = v + 2 ^ 64" using b False by (intro mod_pos_pos_trivial) auto
    finally show ?thesis using eq b by (simp add: i64_of_bytes_def Let_def)
  qed
qed

lemma length_amount_to_bytes [simp]: "length (amount_to_bytes v) = 8"
  by (simp add: amount_to_bytes_def)

lemma amount_to_bytes_i64:
  assumes "length bs = 8"
  shows "amount_to_bytes (i64_of_bytes bs) = bs \<and> in_i64 (i64_of_bytes bs)"
proof -
  have n: "nat_of_le bs < 2 ^ 64" using nat_of_le_bound [of bs] assms by simp
  then have "i64_of_bytes bs mod 2 ^ 64 = int (nat_of_le bs)"
    by (auto simp: i64_of_bytes_def Let_def) 
  then have "amount_to_bytes (i64_of_bytes bs) = le_of_nat 8 (nat_of_le bs)"
    by (simp add: amount_to_bytes_def)
  moreover have "le_of_nat 8 (nat_of_le bs) = bs"
    using le_of_nat_of_le [of bs] assms by simp
  moreover have "in_i64 (i64_of_bytes bs)"
    using n by (auto simp: i64_of_bytes_def Let_def int_ranges)
  ultimately show ?thesis by simp
qed

section \<open>Properties\<close>

text \<open>
  Arithmetic on amounts that respect their constraint never panics and never leaves the
  constraint: addition, subtraction and multiplication by any \<open>u64\<close> return the exact
  result when it is in range and the error naming it otherwise, division by a positive number
  always succeeds, truncating towards zero, and negation always fits the signed range.
\<close>

theorem amount_arithmetic_is_constrained:
  assumes "valid_amount c a" and "valid_amount c b" and "in_u64 k"
  shows "amount_add c a b =
           Some (if valid_amount c (a + b) then Ok (a + b) else Err (Constraint (a + b) (valid_range c)))
       \<and> amount_sub c a b =
           Some (if valid_amount c (a - b) then Ok (a - b) else Err (Constraint (a - b) (valid_range c)))
       \<and> amount_mul c a k =
           Some (if valid_amount c (a * k) then Ok (a * k) else Err (MultiplicationOverflow a k (a * k)))
       \<and> amount_div c a k =
           Some (if k = 0 then Err (DivideByZero a) else Ok (div_trunc a k))
       \<and> (k \<noteq> 0 \<longrightarrow> valid_amount c (div_trunc a k))
       \<and> amount_neg a = Some (- a) \<and> valid_amount NegativeAllowed (- a)
       \<and> amount_checked_sub a b =
           (if valid_amount NegativeAllowed (a - b) then Some (a - b) else None)"
proof -
  have "in_i64 (a * k)" if "valid_amount c (a * k)" using that by (rule valid_amount_i64)
  moreover have "in_i64 (a - b)" if "valid_amount NegativeAllowed (a - b)"
    using that by (rule valid_amount_i64)
  moreover have "amount_div c a k = Some (if k = 0 then Err (DivideByZero a) else Ok (div_trunc a k))"
    and "k \<noteq> 0 \<longrightarrow> valid_amount c (div_trunc a k)"
    using amount_div_valid [OF assms(1,3)] by (auto simp: amount_div_def)
  moreover have "valid_amount NegativeAllowed (- a)"
    using valid_amount_bounds [OF assms(1)] by simp
  ultimately show ?thesis
    using amount_add_valid [OF assms(1,2)] amount_sub_valid [OF assms(1,2)]
      amount_mul_valid [OF assms(1,3)] amount_neg_valid [OF assms(1)]
    by (simp add: validate_cases amount_checked_sub_def checked_sub_i64_def try_from_i64_def
        del: valid_amount_simps)
qed

theorem amount_arithmetic_is_constrained_witness:
  "amount_sub NonNegative 5 7 = Some (Err (Constraint (- 2) (0, MAX_MONEY))) \<and>
   amount_div NonNegative 5 2 = Some (Ok 2) \<and> amount_checked_sub 5 7 = Some (- 2)"
  using amount_arithmetic_is_constrained [of NonNegative 5 7 2]
  by (simp add: money in_u64_def div_trunc_def)

text \<open>
  Summing amounts that respect their constraint never panics. It returns the sum exactly
  when every partial sum, in the order of the items, stays within the constraint; the
  intermediate results matter, not just the total.
\<close>

theorem amount_sum_is_exact:
  assumes "list_all (valid_amount c) xs"
  shows "amount_sum c xs \<noteq> None
       \<and> (amount_sum c xs = Some (Ok s) \<longleftrightarrow>
            s = sum_list xs \<and> (\<forall>n \<le> length xs. valid_amount c (sum_list (take n xs))))"
  using amount_sum_from_valid [of c 0 xs s] assms
  by (simp add: amount_sum_def amount_zero_def)

theorem amount_sum_is_exact_witness:
  "amount_sum NegativeAllowed [MAX_MONEY, 1, - 1] \<noteq> None \<and>
   amount_sum NegativeAllowed [MAX_MONEY, 1, - 1] \<noteq> Some (Ok MAX_MONEY) \<and>
   amount_sum NegativeAllowed [MAX_MONEY, - 1, 1] = Some (Ok MAX_MONEY)"
proof -
  have all: "list_all (valid_amount NegativeAllowed) [MAX_MONEY, 1, - 1]"
    "list_all (valid_amount NegativeAllowed) [MAX_MONEY, - 1, 1]" by (simp_all add: money)
  have bad: "\<exists>n \<le> length [MAX_MONEY, 1, - 1]. \<not> valid_amount NegativeAllowed (sum_list (take n [MAX_MONEY, 1, - 1]))"
    by (rule exI [of _ 2]) simp
  have good: "\<forall>n \<le> length [MAX_MONEY, - 1, 1]. valid_amount NegativeAllowed (sum_list (take n [MAX_MONEY, - 1, 1]))"
    by (auto simp: money take_Cons' le_Suc_eq eval_nat_numeral)
  show ?thesis
    using amount_sum_is_exact [OF all(1), of MAX_MONEY] amount_sum_is_exact [OF all(2), of MAX_MONEY]
      bad good by (simp del: valid_amount_simps)
qed

section \<open>Where the code differs from its contract\<close>

text \<open>\<open>Display\<close> asks for a minus sign for zero, and doubles the one of a negative amount.\<close>

theorem display_amount_sign:
  "display_amount 0 = ''-0'' \<and> display_amount (- 5) = ''--5'' \<and> display_amount 5 = ''5''"
  by (simp add: display_amount_def show_int_def show_nat.simps char_of_def bit_Suc_0_iff)

text \<open>\<open>div_exact\<close> takes a signed divisor and does not re-validate the quotient.\<close>

theorem div_exact_leaves_constraint:
  "div_exact 10 (- 5) = Some (- 2) \<and> valid_amount NonNegative 10 \<and> \<not> valid_amount NonNegative (- 2)"
  by (simp add: div_exact_def div_trunc_def rem_trunc_def int_ranges money)

end
