(* ===== verification/Upgrades.thy ===== *)
theory Upgrades
  imports Prelude
begin

text \<open>
  Block heights and network upgrades: \<open>zebra-chain/src/block/height.rs\<close>,
  \<open>parameters/network_upgrade.rs\<close>, \<open>parameters/constants.rs\<close> and
  \<open>parameters/transaction.rs\<close>. A \<open>BTreeMap\<close> from heights is an association list in
  strictly increasing key order, built by \<open>btree_insert\<close>; a network is Mainnet or a test
  network with the activation heights it was configured with.
\<close>

section \<open>Heights\<close>

datatype height = Height (height_u32: u32)

instantiation height :: linorder
begin

definition less_eq_height :: "height \<Rightarrow> height \<Rightarrow> bool" where
  "less_eq_height a b = (height_u32 a \<le> height_u32 b)"

definition less_height :: "height \<Rightarrow> height \<Rightarrow> bool" where
  "less_height a b = (height_u32 a < height_u32 b)"

instance
  by standard (auto simp: less_eq_height_def less_height_def height.expand)

end

definition HEIGHT_MIN :: height where "HEIGHT_MIN = Height 0"
definition HEIGHT_MAX :: height where "HEIGHT_MAX = Height (2 ^ 31 - 1)"
definition MAX_EXPIRY_HEIGHT :: height where "MAX_EXPIRY_HEIGHT = Height 499999999"

datatype height_error = HeightOverflow | HeightUnderflow

definition height_try_from_u32 :: "u32 \<Rightarrow> (string, height) result" where
  "height_try_from_u32 h =
     (if Height h \<le> HEIGHT_MAX then Ok (Height h)
      else Err ''heights must be less than or equal to Height::MAX'')"

definition u32_try_from :: "int \<Rightarrow> u32 option" where
  "u32_try_from v = (if 0 \<le> v \<and> v < 2 ^ 32 then Some (word_of_int v) else None)"

text \<open>\<open>TryFrom<i64> for Height\<close> converts to \<open>u32\<close> only; it does not check \<open>Height::MAX\<close>.\<close>

definition height_try_from_i64 :: "int \<Rightarrow> height option" where
  "height_try_from_i64 v = map_option Height (u32_try_from v)"

text \<open>The three integer widths \<open>TryIntoHeight\<close> is implemented for behave alike.\<close>

definition try_into_height :: "int \<Rightarrow> height option" where
  "try_into_height v =
     (case u32_try_from v of None \<Rightarrow> None
      | Some u \<Rightarrow> (case height_try_from_u32 u of Ok h \<Rightarrow> Some h | Err _ \<Rightarrow> None))"

text \<open>Signed 64-bit addition as a release build computes it.\<close>

definition wrap_i64 :: "int \<Rightarrow> int" where
  "wrap_i64 v = (v + 2 ^ 63) mod 2 ^ 64 - 2 ^ 63"

definition height_add :: "height \<Rightarrow> int \<Rightarrow> height option" where
  "height_add h rhs =
     (let res = wrap_i64 (uint (height_u32 h) + rhs)
      in case u32_try_from res of None \<Rightarrow> None
         | Some u \<Rightarrow> (case height_try_from_u32 u of Ok x \<Rightarrow> Some x | Err _ \<Rightarrow> None))"

definition height_sub :: "height \<Rightarrow> int \<Rightarrow> height option" where
  "height_sub h rhs =
     (let res = wrap_i64 (uint (height_u32 h) - rhs)
      in case u32_try_from res of None \<Rightarrow> None
         | Some u \<Rightarrow> (case height_try_from_u32 u of Ok x \<Rightarrow> Some x | Err _ \<Rightarrow> None))"

definition height_diff :: "height \<Rightarrow> height \<Rightarrow> int" where
  "height_diff a b = uint (height_u32 a) - uint (height_u32 b)"

definition height_next :: "height \<Rightarrow> (height_error, height) result" where
  "height_next h = (case height_add h 1 of Some x \<Rightarrow> Ok x | None \<Rightarrow> Err HeightOverflow)"

definition height_previous :: "height \<Rightarrow> (height_error, height) result" where
  "height_previous h = (case height_sub h 1 of Some x \<Rightarrow> Ok x | None \<Rightarrow> Err HeightUnderflow)"

definition height_is_min :: "height \<Rightarrow> bool" where
  "height_is_min h = (h = HEIGHT_MIN)"

lemma uint_u32_bounds: "0 \<le> uint (h :: u32)" "uint (h :: u32) < 2 ^ 32"
  using unsigned_less [of h] by (simp_all)

lemma wrap_i64_id: "- (2 ^ 63) \<le> v \<Longrightarrow> v < 2 ^ 63 \<Longrightarrow> wrap_i64 v = v"
  by (simp add: wrap_i64_def)

lemma height_le_max_iff: "Height h \<le> HEIGHT_MAX \<longleftrightarrow> uint h < 2 ^ 31"
  by (auto simp: less_eq_height_def HEIGHT_MAX_def word_le_def)

lemma checked_height:
  "(case u32_try_from v of None \<Rightarrow> None
    | Some u \<Rightarrow> (case height_try_from_u32 u of Ok x \<Rightarrow> Some x | Err _ \<Rightarrow> None)) =
   (if 0 \<le> v \<and> v < 2 ^ 31 then Some (Height (word_of_int v)) else None)"
  by (auto simp: u32_try_from_def height_try_from_u32_def height_le_max_iff unsigned_of_int take_bit_int_eq_self)

lemma height_add_exact:
  assumes "- (2 ^ 63) \<le> d" and "d < 2 ^ 63"
  shows "height_add h d =
    (if 0 \<le> uint (height_u32 h) + d \<and> uint (height_u32 h) + d < 2 ^ 31
     then Some (Height (word_of_int (uint (height_u32 h) + d))) else None)"
proof (cases "uint (height_u32 h) + d < 2 ^ 63")
  case True
  then have "wrap_i64 (uint (height_u32 h) + d) = uint (height_u32 h) + d"
    using assms uint_u32_bounds [of "height_u32 h"] by (intro wrap_i64_id) linarith+
  then show ?thesis by (simp add: height_add_def Let_def checked_height)
next
  case False
  have "wrap_i64 (uint (height_u32 h) + d) = uint (height_u32 h) + d - 2 ^ 64"
  proof -
    have "(uint (height_u32 h) + d + 2 ^ 63) mod 2 ^ 64 =
        (uint (height_u32 h) + d + 2 ^ 63 - 2 ^ 64) mod 2 ^ 64"
      by (rule minus_mod_self2 [symmetric])
    also have "\<dots> = uint (height_u32 h) + d + 2 ^ 63 - 2 ^ 64"
      using False assms uint_u32_bounds [of "height_u32 h"] by (intro mod_pos_pos_trivial) simp_all
    finally show ?thesis by (simp add: wrap_i64_def)
  qed
  moreover have "uint (height_u32 h) + d - 2 ^ 64 < 0"
    using assms uint_u32_bounds [of "height_u32 h"] by simp
  ultimately show ?thesis using False by (simp add: height_add_def Let_def checked_height)
qed

lemma Height_of_int_eq:
  "0 \<le> v \<Longrightarrow> v < 2 ^ 31 \<Longrightarrow> Height (word_of_int v) = h \<longleftrightarrow> uint (height_u32 h) = v"
  by (cases h) (auto simp: unsigned_of_int take_bit_int_eq_self)

section \<open>Network upgrades\<close>

datatype network_upgrade =
    Genesis | BeforeOverwinter | Overwinter | Sapling | Blossom | Heartwood | Canopy
  | Nu5 | Nu6 | Nu6_1 | Nu6_2 | Nu6_3 | Nu7

definition nu_iter :: "network_upgrade list" where
  "nu_iter = [Genesis, BeforeOverwinter, Overwinter, Sapling, Blossom, Heartwood, Canopy,
     Nu5, Nu6, Nu6_1, Nu6_2, Nu6_3, Nu7]"

fun nu_index :: "network_upgrade \<Rightarrow> nat" where
  "nu_index Genesis = 0" | "nu_index BeforeOverwinter = 1" | "nu_index Overwinter = 2"
| "nu_index Sapling = 3" | "nu_index Blossom = 4" | "nu_index Heartwood = 5"
| "nu_index Canopy = 6" | "nu_index Nu5 = 7" | "nu_index Nu6 = 8" | "nu_index Nu6_1 = 9"
| "nu_index Nu6_2 = 10" | "nu_index Nu6_3 = 11" | "nu_index Nu7 = 12"

lemma nu_index_inj: "nu_index a = nu_index b \<longleftrightarrow> a = b"
  by (cases a; cases b) simp_all

text \<open>The derived \<open>Ord\<close>: declaration order.\<close>

instantiation network_upgrade :: linorder
begin

definition less_eq_network_upgrade :: "network_upgrade \<Rightarrow> network_upgrade \<Rightarrow> bool" where
  "less_eq_network_upgrade a b = (nu_index a \<le> nu_index b)"

definition less_network_upgrade :: "network_upgrade \<Rightarrow> network_upgrade \<Rightarrow> bool" where
  "less_network_upgrade a b = (nu_index a < nu_index b)"

instance
  by standard (auto simp: less_eq_network_upgrade_def less_network_upgrade_def nu_index_inj)

end

lemmas nu_order = less_eq_network_upgrade_def less_network_upgrade_def

definition next_upgrade :: "network_upgrade \<Rightarrow> network_upgrade option" where
  "next_upgrade self =
     (case drop 1 (dropWhile (\<lambda>nu. self \<noteq> nu) nu_iter) of [] \<Rightarrow> None | nu # _ \<Rightarrow> Some nu)"

definition previous_upgrade :: "network_upgrade \<Rightarrow> network_upgrade option" where
  "previous_upgrade self =
     (case drop 1 (dropWhile (\<lambda>nu. self \<noteq> nu) (rev nu_iter)) of [] \<Rightarrow> None | nu # _ \<Rightarrow> Some nu)"

lemma next_upgrade_index:
  "next_upgrade nu = Some n \<longleftrightarrow> nu_index n = Suc (nu_index nu)"
  "next_upgrade nu = None \<longleftrightarrow> nu = Nu7"
  by (cases nu; cases n; simp add: next_upgrade_def nu_iter_def)+

lemma previous_upgrade_inverse: "previous_upgrade n = Some nu \<longleftrightarrow> next_upgrade nu = Some n"
  unfolding next_upgrade_index(1)
  by (cases nu; cases n; simp add: previous_upgrade_def nu_iter_def)

definition CONSENSUS_BRANCH_IDS :: "(network_upgrade \<times> u32) list" where
  "CONSENSUS_BRANCH_IDS =
     [(Overwinter, 0x5ba81b19), (Sapling, 0x76b809bb), (Blossom, 0x2bb40e60),
      (Heartwood, 0xf5b9230b), (Canopy, 0xe9ff75a6), (Nu5, 0xc2d6d0b4), (Nu6, 0xc8e71055),
      (Nu6_1, 0x4dec4df0), (Nu6_2, 0x5437f330), (Nu6_3, 0x37a5165b)]"

text \<open>\<open>TryFrom<u32>\<close>: the first entry with that id, or \<open>InvalidConsensusBranchId\<close> (\<open>None\<close>).\<close>

definition nu_try_from_branch :: "u32 \<Rightarrow> network_upgrade option" where
  "nu_try_from_branch branch_id =
     map_option fst (List.find (\<lambda>entry. snd entry = branch_id) CONSENSUS_BRANCH_IDS)"

text \<open>\<open>branch_id_list\<close> collects the table into a hash map, \<open>branch_id\<close> looks an upgrade up.\<close>

definition branch_id_list :: "network_upgrade \<rightharpoonup> u32" where
  "branch_id_list = (\<lambda>nu. map_of (rev CONSENSUS_BRANCH_IDS) nu)"

definition branch_id :: "network_upgrade \<Rightarrow> u32 option" where
  "branch_id nu = branch_id_list nu"

lemma branch_id_table: "branch_id nu =
   (case nu of Overwinter \<Rightarrow> Some 0x5ba81b19 | Sapling \<Rightarrow> Some 0x76b809bb | Blossom \<Rightarrow> Some 0x2bb40e60
    | Heartwood \<Rightarrow> Some 0xf5b9230b | Canopy \<Rightarrow> Some 0xe9ff75a6 | Nu5 \<Rightarrow> Some 0xc2d6d0b4
    | Nu6 \<Rightarrow> Some 0xc8e71055 | Nu6_1 \<Rightarrow> Some 0x4dec4df0 | Nu6_2 \<Rightarrow> Some 0x5437f330
    | Nu6_3 \<Rightarrow> Some 0x37a5165b | _ \<Rightarrow> None)"
  by (cases nu) (simp_all add: branch_id_def branch_id_list_def CONSENSUS_BRANCH_IDS_def)

lemma branch_id_roundtrip: "nu_try_from_branch b = Some nu \<longleftrightarrow> branch_id nu = Some b"
  unfolding branch_id_table
  by (cases nu) (auto simp: nu_try_from_branch_def CONSENSUS_BRANCH_IDS_def)

section \<open>Activation heights\<close>

fun btree_insert :: "'k::linorder \<Rightarrow> 'v \<Rightarrow> ('k \<times> 'v) list \<Rightarrow> ('k \<times> 'v) list" where
  "btree_insert k v [] = [(k, v)]"
| "btree_insert k v ((k', v') # xs) =
     (if k < k' then (k, v) # (k', v') # xs
      else if k = k' then (k, v) # xs
      else (k', v') # btree_insert k v xs)"

definition btree_of :: "('k::linorder \<times> 'v) list \<Rightarrow> ('k \<times> 'v) list" where
  "btree_of xs = fold (\<lambda>(k, v) m. btree_insert k v m) xs []"

definition MAINNET_ACTIVATION_HEIGHTS :: "(height \<times> network_upgrade) list" where
  "MAINNET_ACTIVATION_HEIGHTS =
     [(Height 0, Genesis), (Height 1, BeforeOverwinter), (Height 347500, Overwinter),
      (Height 419200, Sapling), (Height 653600, Blossom), (Height 903000, Heartwood),
      (Height 1046400, Canopy), (Height 1687104, Nu5), (Height 2726400, Nu6),
      (Height 3146400, Nu6_1), (Height 3364600, Nu6_2), (Height 3428143, Nu6_3)]"

definition TESTNET_ACTIVATION_HEIGHTS :: "(height \<times> network_upgrade) list" where
  "TESTNET_ACTIVATION_HEIGHTS =
     [(Height 0, Genesis), (Height 1, BeforeOverwinter), (Height 207500, Overwinter),
      (Height 280000, Sapling), (Height 584000, Blossom), (Height 903800, Heartwood),
      (Height 1028500, Canopy), (Height 1842420, Nu5), (Height 2976000, Nu6),
      (Height 3536500, Nu6_1), (Height 4052000, Nu6_2), (Height 4134000, Nu6_3)]"

datatype network = Mainnet | Testnet "(height \<times> network_upgrade) list"

fun activation_list :: "network \<Rightarrow> (height \<times> network_upgrade) list" where
  "activation_list Mainnet = btree_of MAINNET_ACTIVATION_HEIGHTS"
| "activation_list (Testnet activation_heights) = activation_heights"

text \<open>\<open>range(..=height).next_back()\<close>; \<open>None\<close> is the panic of the \<open>expect\<close>.\<close>

definition range_to_last :: "height \<Rightarrow> (height \<times> network_upgrade) list \<Rightarrow> (height \<times> network_upgrade) option" where
  "range_to_last h m =
     (let below = filter (\<lambda>e. fst e \<le> h) m in if below = [] then None else Some (last below))"

definition current_with_activation_height :: "network \<Rightarrow> height \<Rightarrow> (network_upgrade \<times> height) option" where
  "current_with_activation_height net h =
     map_option (\<lambda>(h, nu). (nu, h)) (range_to_last h (activation_list net))"

definition current :: "network \<Rightarrow> height \<Rightarrow> network_upgrade option" where
  "current net h = map_option snd (range_to_last h (activation_list net))"

function activation_height :: "network_upgrade \<Rightarrow> network \<Rightarrow> height option" where
  "activation_height self net =
     (case List.find (\<lambda>e. snd e = self) (activation_list net) of
        Some e \<Rightarrow> Some (fst e)
      | None \<Rightarrow> (case next_upgrade self of None \<Rightarrow> None | Some n \<Rightarrow> activation_height n net))"
  by pat_completeness auto
termination
proof (relation "measure (\<lambda>(nu, _). 13 - nu_index nu)")
  show "((n, net), (self, net)) \<in> measure (\<lambda>(nu, _). 13 - nu_index nu)"
    if "next_upgrade self = Some n" for self net n
    using that by (cases n) (simp_all add: next_upgrade_index)
qed simp

declare activation_height.simps [simp del]

definition full_activation_list :: "network \<Rightarrow> (height \<times> network_upgrade) list" where
  "full_activation_list net =
     List.map_filter (\<lambda>nu. map_option (\<lambda>h. (h, nu)) (activation_height nu net)) nu_iter"

definition is_activation_height :: "network \<Rightarrow> height \<Rightarrow> bool" where
  "is_activation_height net h = (h \<in> fst ` set (activation_list net))"

definition consensus_branch_current :: "network \<Rightarrow> height \<Rightarrow> u32 option option" where
  "consensus_branch_current net h = map_option branch_id (current net h)"

section \<open>Timing parameters\<close>

definition PRE_BLOSSOM_POW_TARGET_SPACING :: int where "PRE_BLOSSOM_POW_TARGET_SPACING = 150"
definition POST_BLOSSOM_POW_TARGET_SPACING :: int where "POST_BLOSSOM_POW_TARGET_SPACING = 75"
definition POW_AVERAGING_WINDOW :: int where "POW_AVERAGING_WINDOW = 17"
definition TESTNET_MINIMUM_DIFFICULTY_GAP_MULTIPLIER :: int where
  "TESTNET_MINIMUM_DIFFICULTY_GAP_MULTIPLIER = 6"
definition TESTNET_MINIMUM_DIFFICULTY_START_HEIGHT :: height where
  "TESTNET_MINIMUM_DIFFICULTY_START_HEIGHT = Height 299188"

text \<open>Durations and times are whole seconds.\<close>

fun target_spacing :: "network_upgrade \<Rightarrow> int" where
  "target_spacing Genesis = PRE_BLOSSOM_POW_TARGET_SPACING"
| "target_spacing BeforeOverwinter = PRE_BLOSSOM_POW_TARGET_SPACING"
| "target_spacing Overwinter = PRE_BLOSSOM_POW_TARGET_SPACING"
| "target_spacing Sapling = PRE_BLOSSOM_POW_TARGET_SPACING"
| "target_spacing _ = POST_BLOSSOM_POW_TARGET_SPACING"

definition target_spacing_for_height :: "network \<Rightarrow> height \<Rightarrow> int option" where
  "target_spacing_for_height net h = map_option target_spacing (current net h)"

definition target_spacings :: "network \<Rightarrow> (height \<times> int) list" where
  "target_spacings net =
     List.map_filter (\<lambda>(nu, s). map_option (\<lambda>h. (h, s)) (activation_height nu net))
       [(Genesis, PRE_BLOSSOM_POW_TARGET_SPACING), (Blossom, POST_BLOSSOM_POW_TARGET_SPACING)]"

definition minimum_difficulty_spacing_for_height :: "network \<Rightarrow> height \<Rightarrow> int option option" where
  "minimum_difficulty_spacing_for_height net h =
     (case net of
        Testnet _ \<Rightarrow>
          if h < TESTNET_MINIMUM_DIFFICULTY_START_HEIGHT then Some None
          else (case current net h of None \<Rightarrow> None
                | Some nu \<Rightarrow> Some (Some (target_spacing nu * TESTNET_MINIMUM_DIFFICULTY_GAP_MULTIPLIER)))
      | Mainnet \<Rightarrow> Some None)"

definition is_testnet_min_difficulty_block :: "network \<Rightarrow> height \<Rightarrow> int \<Rightarrow> int \<Rightarrow> bool option" where
  "is_testnet_min_difficulty_block net h block_time previous_block_time =
     map_option (\<lambda>spacing. case spacing of
         Some min_difficulty_gap \<Rightarrow> block_time - previous_block_time > min_difficulty_gap
       | None \<Rightarrow> False)
       (minimum_difficulty_spacing_for_height net h)"

definition averaging_window_timespan :: "network_upgrade \<Rightarrow> int" where
  "averaging_window_timespan nu = target_spacing nu * POW_AVERAGING_WINDOW"

definition averaging_window_timespan_for_height :: "network \<Rightarrow> height \<Rightarrow> int option" where
  "averaging_window_timespan_for_height net h = map_option averaging_window_timespan (current net h)"

section \<open>When an upgrade is active\<close>

text \<open>
  What every activation list must satisfy: it starts with Genesis at height 0, and heights and
  upgrades increase together. Mainnet's and the default Testnet's do.
\<close>

definition well_formed_activations :: "(height \<times> network_upgrade) list \<Rightarrow> bool" where
  "well_formed_activations m \<longleftrightarrow>
     m \<noteq> [] \<and> hd m = (Height 0, Genesis) \<and>
     sorted_wrt (\<lambda>a b. fst a < fst b \<and> snd a < snd b) m"

lemma mainnet_activations: "activation_list Mainnet = MAINNET_ACTIVATION_HEIGHTS"
  by (simp add: btree_of_def MAINNET_ACTIVATION_HEIGHTS_def less_height_def)

lemma builtin_activations_well_formed:
  "well_formed_activations (activation_list Mainnet)"
  "well_formed_activations (activation_list (Testnet (btree_of TESTNET_ACTIVATION_HEIGHTS)))"
  unfolding mainnet_activations
  by (simp_all add: well_formed_activations_def MAINNET_ACTIVATION_HEIGHTS_def btree_of_def
      TESTNET_ACTIVATION_HEIGHTS_def less_height_def nu_order)

text \<open>\<open>activation_height\<close> finds the first entry at or past the upgrade.\<close>

lemma find_exact_at_or_past:
  "sorted_wrt (\<lambda>a b. snd a < snd b) m \<Longrightarrow> List.find (\<lambda>e. snd e = nu) m = Some e \<Longrightarrow>
     List.find (\<lambda>e. nu \<le> snd e) m = Some (e :: 'a \<times> 'b :: linorder)"
proof (induction m)
  case (Cons x m)
  show ?case
  proof (cases "snd x = nu")
    case False
    with Cons.prems have "List.find (\<lambda>e. snd e = nu) m = Some e" by simp
    then have "e \<in> set m" "snd e = nu" by (auto simp: find_Some_iff)
    with Cons.prems have "snd x < nu" by auto
    then have "\<not> nu \<le> snd x" by simp
    with Cons False show ?thesis by simp
  qed (use Cons in auto)
qed simp

lemma activation_height_find:
  assumes wf: "sorted_wrt (\<lambda>a b. snd a < snd b) (activation_list net)"
  shows "activation_height nu net =
     map_option fst (List.find (\<lambda>e. nu \<le> snd e) (activation_list net))"
  using wf
proof (induction nu net rule: activation_height.induct)
  case (1 nu net)
  show ?case
  proof (cases "List.find (\<lambda>e. snd e = nu) (activation_list net)")
    case (Some e)
    then show ?thesis
      using find_exact_at_or_past [OF 1(2) Some] by (simp add: activation_height.simps [of nu])
  next
    case None
    then have "\<not> (\<exists>e. e \<in> set (activation_list net) \<and> snd e = nu)"
      unfolding find_None_iff .
    then have absent: "snd e \<noteq> nu" if "e \<in> set (activation_list net)" for e
      using that by blast
    show ?thesis
    proof (cases "next_upgrade nu")
      case no_next: None
      have "\<not> nu \<le> snd e" if "e \<in> set (activation_list net)" for e
        using absent [OF that] no_next by (cases "snd e") (auto simp: next_upgrade_index nu_order)
      then have "List.find (\<lambda>e. nu \<le> snd e) (activation_list net) = None"
        unfolding find_None_iff by blast
      with None no_next show ?thesis by (simp add: activation_height.simps [of nu])
    next
      case (Some n)
      have "nu \<le> snd e \<longleftrightarrow> n \<le> snd e" if "e \<in> set (activation_list net)" for e
        using absent [OF that] Some nu_index_inj [of nu "snd e"]
        by (auto simp: next_upgrade_index nu_order)
      then have "List.find (\<lambda>e. nu \<le> snd e) (activation_list net) =
          List.find (\<lambda>e. n \<le> snd e) (activation_list net)"
        by (intro find_cong) auto
      with 1(1) [OF None Some 1(2)] None Some show ?thesis
        by (simp add: activation_height.simps [of nu])
    qed
  qed
qed

lemma last_below:
  assumes "sorted_wrt (\<lambda>a b. fst a < fst b \<and> snd a < snd b) m"
    and "List.find (\<lambda>e. nu \<le> snd e) m = Some e" and "filter (\<lambda>e. fst e \<le> h) m \<noteq> []"
  shows "nu \<le> snd (List.last (filter (\<lambda>e. fst e \<le> h) m)) \<longleftrightarrow>
    fst (e :: 'a :: linorder \<times> 'b :: linorder) \<le> h"
  using assms
proof (induction m)
  case (Cons x m)
  show ?case
  proof (cases "nu \<le> snd x")
    case True
    then have e: "e = x" using Cons.prems by simp
    have "fst x \<le> h"
    proof (rule ccontr)
      assume "\<not> fst x \<le> h"
      then have "filter (\<lambda>e. fst e \<le> h) (x # m) = []"
        using Cons.prems(1) by (auto simp: filter_empty_conv)
      with Cons.prems(3) show False by simp
    qed
    moreover have "nu \<le> snd y" if "y \<in> set (filter (\<lambda>e. fst e \<le> h) (x # m))" for y
      using that True Cons.prems(1) by (auto split: if_splits intro: order.trans less_imp_le)
    ultimately show ?thesis using e last_in_set [OF Cons.prems(3)] by blast
  next
    case False
    then have found: "List.find (\<lambda>e. nu \<le> snd e) m = Some e" using Cons.prems by simp
    show ?thesis
    proof (cases "filter (\<lambda>e. fst e \<le> h) m = []")
      case True
      then have "filter (\<lambda>e. fst e \<le> h) (x # m) = [x]" using Cons.prems by (auto split: if_splits)
      moreover have "e \<in> set m" using found by (auto simp: find_Some_iff)
      then have "\<not> fst e \<le> h" using True by (auto simp: filter_empty_conv)
      ultimately show ?thesis using False by simp
    next
      case nonempty: False
      then have "List.last (filter (\<lambda>e. fst e \<le> h) (x # m)) = List.last (filter (\<lambda>e. fst e \<le> h) m)"
        by simp
      with Cons.IH [OF _ found nonempty] Cons.prems(1) show ?thesis by simp
    qed
  qed
qed simp

text \<open>
  An upgrade is in force from its activation height on: on every network whose activation
  list is well formed, and so on Mainnet and the default Testnet, each height has a current
  upgrade (the lookup never panics), and that upgrade is at least \<open>nu\<close> exactly when the height
  has reached \<open>activation_height nu\<close>; an upgrade with no activation height is never in force.
\<close>

theorem upgrade_in_force_from_activation:
  assumes wf: "well_formed_activations (activation_list net)"
  shows "\<exists>c. current net h = Some c \<and>
    (case activation_height nu net of Some a \<Rightarrow> nu \<le> c \<longleftrightarrow> a \<le> h | None \<Rightarrow> c < nu)"
proof -
  let ?m = "activation_list net" and ?below = "filter (\<lambda>e. fst e \<le> h) (activation_list net)"
  from wf have sorted: "sorted_wrt (\<lambda>a b. fst a < fst b \<and> snd a < snd b) ?m"
    and first: "?m \<noteq> []" "hd ?m = (Height 0, Genesis)"
    by (auto simp: well_formed_activations_def)
  have "(Height 0, Genesis) \<in> set ?below"
    using first hd_in_set [OF first(1)] by (simp add: less_eq_height_def)
  then have ne: "?below \<noteq> []" by (metis list.set(1) empty_iff)
  have cur: "current net h = Some (snd (List.last ?below))"
    using ne by (simp add: current_def range_to_last_def Let_def)
  have up: "sorted_wrt (\<lambda>a b. snd a < snd b) ?m"
    by (rule sorted_wrt_mono_rel [OF _ sorted]) auto
  have "case activation_height nu net of
      Some a \<Rightarrow> nu \<le> snd (List.last ?below) \<longleftrightarrow> a \<le> h | None \<Rightarrow> snd (List.last ?below) < nu"
  proof (cases "List.find (\<lambda>e. nu \<le> snd e) ?m")
    case None
    then have "\<not> (\<exists>e. e \<in> set ?m \<and> nu \<le> snd e)" unfolding find_None_iff .
    moreover have "List.last ?below \<in> set ?m" using last_in_set [OF ne] by simp
    ultimately have "\<not> nu \<le> snd (List.last ?below)" by blast
    with None show ?thesis by (simp add: activation_height_find [OF up])
  next
    case (Some e)
    with last_below [OF sorted Some ne] show ?thesis by (simp add: activation_height_find [OF up])
  qed
  with cur show ?thesis by blast
qed

theorem upgrade_in_force_from_activation_witness:
  "\<exists>c. current Mainnet (Height 3428143) = Some c \<and> Nu6_3 \<le> c"
proof -
  have "activation_height Nu6_3 Mainnet = Some (Height 3428143)"
    unfolding activation_height.simps [of Nu6_3] mainnet_activations
    by (simp add: MAINNET_ACTIVATION_HEIGHTS_def)
  with upgrade_in_force_from_activation [OF builtin_activations_well_formed(1), of "Height 3428143" Nu6_3]
  show ?thesis by auto
qed

text \<open>
  The consensus branch id table is a bijection: a branch id is recognised as an upgrade
  exactly when it is that upgrade's id, no two upgrades share one, and only Genesis,
  BeforeOverwinter and Nu7 have none, so no transaction can name those.
\<close>

theorem branch_ids_are_bijective:
  "(nu_try_from_branch b = Some nu \<longleftrightarrow> branch_id nu = Some b)
   \<and> (branch_id nu = Some b \<longrightarrow> branch_id nu' = Some b \<longrightarrow> nu = nu')
   \<and> (branch_id nu = None \<longleftrightarrow> nu \<in> {Genesis, BeforeOverwinter, Nu7})"
proof -
  have "branch_id nu = Some b \<longrightarrow> branch_id nu' = Some b \<longrightarrow> nu = nu'"
    by (metis branch_id_roundtrip option.inject)
  moreover have "branch_id nu = None \<longleftrightarrow> nu \<in> {Genesis, BeforeOverwinter, Nu7}"
    by (cases nu) (simp_all add: branch_id_table)
  ultimately show ?thesis using branch_id_roundtrip by blast
qed

theorem branch_ids_are_bijective_witness:
  "nu_try_from_branch 0x37a5165b = Some Nu6_3"
  using branch_ids_are_bijective [of "0x37a5165b" Nu6_3 Nu6_3] by (simp add: branch_id_table)

text \<open>
  Height arithmetic is exact or refused: adding any \<open>i64\<close> to any height, even one past
  \<open>Height::MAX\<close>, gives the mathematical sum when it lies between 0 and \<open>Height::MAX\<close> and nothing
  otherwise, the 64-bit wrap-around included; the step back undoes the step forward.
\<close>

theorem height_arithmetic_is_exact:
  assumes "- (2 ^ 63) \<le> d" and "d < 2 ^ 63"
  shows "(height_add h d = Some h' \<longleftrightarrow>
            h' \<le> HEIGHT_MAX \<and> uint (height_u32 h') = uint (height_u32 h) + d)
       \<and> (height_next h = Ok h' \<longrightarrow> h \<le> HEIGHT_MAX \<longrightarrow> height_previous h' = Ok h)"
proof (intro conjI impI)
  have max: "h' \<le> HEIGHT_MAX \<longleftrightarrow> uint (height_u32 h') < 2 ^ 31"
    using height_le_max_iff [of "height_u32 h'"] by simp
  show "height_add h d = Some h' \<longleftrightarrow>
      h' \<le> HEIGHT_MAX \<and> uint (height_u32 h') = uint (height_u32 h) + d"
  proof (cases "0 \<le> uint (height_u32 h) + d \<and> uint (height_u32 h) + d < 2 ^ 31")
    case True
    then show ?thesis
      using height_add_exact [OF assms, of h] Height_of_int_eq [of "uint (height_u32 h) + d" h'] max
      by auto
  next
    case False
    then have "height_add h d = None" using height_add_exact [OF assms, of h] by auto
    with False max uint_u32_bounds(1) [of "height_u32 h'"] show ?thesis by (metis option.distinct(1))
  qed
next
  assume "height_next h = Ok h'" and max: "h \<le> HEIGHT_MAX"
  then have "height_add h 1 = Some h'" by (simp add: height_next_def split: option.splits)
  then have sum: "uint (height_u32 h') = uint (height_u32 h) + 1"
    using height_add_exact [of 1 h] Height_of_int_eq [of "uint (height_u32 h) + 1" h']
    by (simp split: if_splits)
  have "uint (height_u32 h) < 2 ^ 31" using max height_le_max_iff [of "height_u32 h"] by simp
  moreover from this have "wrap_i64 (uint (height_u32 h)) = uint (height_u32 h)"
    using uint_u32_bounds(1) [of "height_u32 h"] by (simp add: wrap_i64_def)
  ultimately have "height_sub h' 1 = Some (Height (word_of_int (uint (height_u32 h))))"
    using sum uint_u32_bounds(1) [of "height_u32 h"]
    by (simp add: height_sub_def Let_def checked_height)
  then show "height_previous h' = Ok h" by (simp add: height_previous_def)
qed

theorem height_arithmetic_is_exact_witness:
  "height_add (Height 5) (- 3) = Some (Height 2) \<and> height_previous (Height 6) = Ok (Height 5)"
  using height_arithmetic_is_exact [of "- 3" "Height 5" "Height 2"]
    height_arithmetic_is_exact [of 1 "Height 5" "Height 6"]
  by (simp add: less_eq_height_def HEIGHT_MAX_def height_next_def)

end
