(* ===== verification/Codec.thy ===== *)
theory Codec
  imports Prelude Amount
begin

text \<open>
  The serialization layer, \<open>zebra-chain/src/serialization\<close>. A deserializer reads a value
  off the front of the bytes and returns the rest, or a \<open>SerializationError\<close>; a serializer
  returns the bytes it writes, or the reason it does not (an \<open>io::Error\<close> it returns, or a
  panic of one of its assertions). The locale \<open>codec\<close> states when the two are inverse to each
  other in both directions; it is closed under the combinators the code is written with.
\<close>

section \<open>Errors\<close>

datatype ser_error =
    Io string
  | Parse string
  | Utf8Error string
  | TryFromSliceError string
  | TryFromIntError string
  | FromHexError string
  | AmountError amount_error
  | BadTransactionBalance
  | ScriptError string
  | OpcodeError string
  | NumError string

fun display_ser_error :: "ser_error \<Rightarrow> string" where
  "display_ser_error (Io e) = ''io error: '' @ e"
| "display_ser_error (Parse msg) = ''parse error: '' @ msg"
| "display_ser_error (Utf8Error e) = ''string was not UTF-8: '' @ e"
| "display_ser_error (TryFromSliceError e) = ''slice was the wrong length: '' @ e"
| "display_ser_error (TryFromIntError e) = ''CompactSize too large: '' @ e"
| "display_ser_error (FromHexError e) = ''string was not hex: '' @ e"
| "display_ser_error (AmountError source) =
     ''input couldn't be parsed as a zatoshi `Amount`: '' @ display_amount_error source"
| "display_ser_error BadTransactionBalance =
     ''transaction balance is non-zero but doesn't have Sapling shielded spends or outputs''"
| "display_ser_error (ScriptError e) = ''script error: '' @ e"
| "display_ser_error (OpcodeError e) = ''script opcode error: '' @ e"
| "display_ser_error (NumError e) = ''script number error: '' @ e"

text \<open>The crate's own error type, and its conversion (\<open>error.rs\<close>).\<close>

datatype chain_error =
    InvalidConsensusBranchId | ChainIo string | MissingNetworkUpgrade | ChainAmount string
  | Conversion string

fun ser_error_of_chain :: "chain_error \<Rightarrow> ser_error" where
  "ser_error_of_chain InvalidConsensusBranchId = Parse ''invalid consensus branch id''"
| "ser_error_of_chain (ChainIo e) = Io e"
| "ser_error_of_chain MissingNetworkUpgrade = Parse ''missing network upgrade''"
| "ser_error_of_chain (ChainAmount _) = BadTransactionBalance"
| "ser_error_of_chain (Conversion _) =
     Parse ''Zebra's type could not be converted to its librustzcash equivalent''"

datatype write_error = WritePanic string | WriteIo string

section \<open>Readers\<close>

type_synonym 'a parser = "bytes \<Rightarrow> (ser_error, 'a \<times> bytes) result"

definition preturn :: "'a \<Rightarrow> 'a parser" where
  "preturn x bs = Ok (x, bs)"

definition pfail :: "ser_error \<Rightarrow> 'a parser" where
  "pfail e bs = Err e"

definition pbind :: "'a parser \<Rightarrow> ('a \<Rightarrow> 'b parser) \<Rightarrow> 'b parser" where
  "pbind p f bs = (case p bs of Err e \<Rightarrow> Err e | Ok (x, rest) \<Rightarrow> f x rest)"

definition read_exact :: "nat \<Rightarrow> bytes parser" where
  "read_exact n bs =
     (if length bs < n then Err (Io ''failed to fill whole buffer'') else Ok (take n bs, drop n bs))"

definition read_u8 :: "byte parser" where
  "read_u8 = pbind (read_exact 1) (\<lambda>b. preturn (hd b))"

definition read_u16 :: "u16 parser" where
  "read_u16 = pbind (read_exact 2) (\<lambda>b. preturn (word_of_nat (nat_of_le b)))"

definition read_u32 :: "u32 parser" where
  "read_u32 = pbind (read_exact 4) (\<lambda>b. preturn (word_of_nat (nat_of_le b)))"

definition read_u64 :: "u64 parser" where
  "read_u64 = pbind (read_exact 8) (\<lambda>b. preturn (word_of_nat (nat_of_le b)))"

definition read_i64 :: "int parser" where
  "read_i64 = pbind (read_exact 8) (\<lambda>b. preturn (i64_of_bytes b))"

definition read_4_bytes :: "bytes parser" where "read_4_bytes = read_exact 4"
definition read_32_bytes :: "bytes parser" where "read_32_bytes = read_exact 32"
definition read_64_bytes :: "bytes parser" where "read_64_bytes = read_exact 64"

text \<open>\<open>reader.take(limit)\<close>: \<open>p\<close> sees at most \<open>limit\<close> bytes.\<close>

definition ptake :: "nat \<Rightarrow> 'a parser \<Rightarrow> 'a parser" where
  "ptake limit p bs =
     (case p (take limit bs) of Err e \<Rightarrow> Err e | Ok (x, rest) \<Rightarrow> Ok (x, rest @ drop limit bs))"

lemma pbind_Ok_iff:
  "pbind p f bs = Ok (y, r) \<longleftrightarrow> (\<exists>x m. p bs = Ok (x, m) \<and> f x m = Ok (y, r))"
  by (auto simp: pbind_def split: sum.splits)

lemma pbind_Ok [simp]: "p bs = Ok (x, m) \<Longrightarrow> pbind p f bs = f x m"
  by (simp add: pbind_def)

lemma preturn_Ok_iff [simp]: "preturn x bs = Ok (y, r) \<longleftrightarrow> y = x \<and> r = bs"
  by (auto simp: preturn_def)

lemma pfail_not_Ok [simp]: "pfail e bs \<noteq> Ok r"
  by (simp add: pfail_def)

lemma pbind_assoc: "pbind (pbind p f) g = pbind p (\<lambda>x. pbind (f x) g)"
  by (rule ext) (simp add: pbind_def split: sum.split prod.split)

lemma pbind_preturn [simp]: "pbind (preturn x) f = f x"
  by (rule ext) (simp add: pbind_def preturn_def)

lemma read_exact_Ok_iff: "read_exact n bs = Ok (x, r) \<longleftrightarrow> length x = n \<and> bs = x @ r"
  by (auto simp: read_exact_def)

section \<open>Writers\<close>

type_synonym 'a writer = "'a \<Rightarrow> (write_error, bytes) result"

text \<open>Several writes in sequence: the first that fails decides.\<close>

fun write_seq :: "(write_error, bytes) result list \<Rightarrow> (write_error, bytes) result" where
  "write_seq [] = Ok []"
| "write_seq (Err e # rs) = Err e"
| "write_seq (Ok b # rs) = map_sum id (\<lambda>bs. b @ bs) (write_seq rs)"

lemma map_sum_Ok_iff: "map_sum f g r = Ok y \<longleftrightarrow> (\<exists>x. r = Ok x \<and> y = g x)"
  by (cases r) auto

lemma write_seq_Ok_iff [simp]:
  "write_seq (r # rs) = Ok bs \<longleftrightarrow> (\<exists>b bs'. r = Ok b \<and> write_seq rs = Ok bs' \<and> bs = b @ bs')"
  by (cases r) (auto simp: map_sum_Ok_iff)

definition write_all :: "bytes writer" where "write_all b = Ok b"
definition write_u8 :: "byte writer" where "write_u8 b = Ok [b]"
definition write_u16 :: "u16 writer" where "write_u16 v = Ok (le_of_nat 2 (unat v))"
definition write_u32 :: "u32 writer" where "write_u32 v = Ok (le_of_nat 4 (unat v))"
definition write_u64 :: "u64 writer" where "write_u64 v = Ok (le_of_nat 8 (unat v))"
definition write_i64 :: "int writer" where "write_i64 v = Ok (amount_to_bytes v)"

section \<open>The codec contract\<close>

text \<open>
  \<open>valid\<close> is what the type guarantees of a value. A valid value is written and read back
  with nothing else consumed; whatever is read is valid, and the bytes consumed are exactly the
  ones the value is written as, so a value has one encoding and no other bytes decode to it.
\<close>

locale codec =
  fixes ser :: "'a writer" and de :: "'a parser" and valid :: "'a \<Rightarrow> bool"
  assumes written: "valid x \<Longrightarrow> \<exists>b. ser x = Ok b \<and> (\<forall>rest. de (b @ rest) = Ok (x, rest))"
    and read: "de bs = Ok (x, rest) \<Longrightarrow> valid x \<and> (\<exists>b. ser x = Ok b \<and> bs = b @ rest)"
begin

lemma roundtrip: "valid x \<Longrightarrow> ser x = Ok b \<Longrightarrow> de (b @ rest) = Ok (x, rest)"
  using written [of x] by auto

lemma read_iff: "de bs = Ok (x, rest) \<longleftrightarrow> valid x \<and> (\<exists>b. ser x = Ok b \<and> bs = b @ rest)"
  using written [of x] read [of bs x rest] by auto

lemma canonical: "de bs = Ok (x, rest) \<Longrightarrow> de bs' = Ok (x, rest) \<Longrightarrow> bs = bs'"
  using read [of bs x rest] read [of bs' x rest] by auto

lemma valid_iff: "valid x \<longleftrightarrow> (\<exists>bs rest. de bs = Ok (x, rest))"
  using written read by metis

lemma prefix_free:
  "valid x \<Longrightarrow> valid y \<Longrightarrow> ser x = Ok b \<Longrightarrow> ser y = Ok c \<Longrightarrow> b @ r = c @ s \<Longrightarrow> x = y \<and> r = s"
  using roundtrip [of x b r] roundtrip [of y c s] by simp

lemma no_longer: "de bs = Ok (x, rest) \<Longrightarrow> length rest \<le> length bs"
  using read [of bs x rest] by auto

end

lemma le_word_roundtrip:
  "unat (word_of_nat (nat_of_le b) :: 'a::len word) = nat_of_le b" if "nat_of_le b < 2 ^ LENGTH('a)"
  using that by (simp add: unat_of_nat)

interpretation codec_bytes: codec write_all "read_exact n" "\<lambda>x. length x = n" for n
  by unfold_locales (auto simp: write_all_def read_exact_Ok_iff)

interpretation codec_u8: codec write_u8 read_u8 "\<lambda>_. True"
proof unfold_locales
  fix x :: byte
  show "\<exists>b. write_u8 x = Ok b \<and> (\<forall>rest. read_u8 (b @ rest) = Ok (x, rest))"
    by (simp add: write_u8_def read_u8_def pbind_def read_exact_def preturn_def)
next
  fix bs rest :: bytes and x :: byte
  assume "read_u8 bs = Ok (x, rest)"
  then show "True \<and> (\<exists>b. write_u8 x = Ok b \<and> bs = b @ rest)"
    by (auto simp: read_u8_def pbind_Ok_iff read_exact_Ok_iff write_u8_def length_Suc_conv)
qed

text \<open>The three unsigned widths share one argument.\<close>

lemma codec_le_word:
  fixes wr :: "'w::len word writer" and rd :: "'w word parser"
  assumes wr: "\<And>v. wr v = Ok (le_of_nat n (unat v))"
    and rd: "\<And>bs. rd bs = pbind (read_exact n) (\<lambda>b. preturn (word_of_nat (nat_of_le b))) bs"
    and width: "LENGTH('w) = 8 * n"
  shows "codec wr rd (\<lambda>_. True)"
proof
  fix x :: "'w word"
  have bound: "unat x < 256 ^ n" using unsigned_less [of x] by (simp add: width power_mult)
  show "\<exists>b. wr x = Ok b \<and> (\<forall>rest. rd (b @ rest) = Ok (x, rest))"
    using bound by (simp add: wr rd pbind_def read_exact_def preturn_def nat_of_le_of_nat)
next
  fix bs rest :: bytes and x :: "'w word"
  assume "rd bs = Ok (x, rest)"
  then obtain b where b: "length b = n" "bs = b @ rest" "x = word_of_nat (nat_of_le b)"
    by (auto simp: rd pbind_Ok_iff read_exact_Ok_iff)
  have "nat_of_le b < 2 ^ LENGTH('w)"
    using nat_of_le_bound [of b] b(1) by (simp add: width power_mult)
  then have "unat x = nat_of_le b" unfolding b(3) by (rule le_word_roundtrip)
  then have "wr x = Ok b" using le_of_nat_of_le [of b] b(1) by (simp add: wr)
  with b show "True \<and> (\<exists>b. wr x = Ok b \<and> bs = b @ rest)" by blast
qed

interpretation codec_u16: codec write_u16 read_u16 "\<lambda>_. True"
  by (rule codec_le_word [of _ 2]) (simp_all add: write_u16_def read_u16_def)

interpretation codec_u32: codec write_u32 read_u32 "\<lambda>_. True"
  by (rule codec_le_word [of _ 4]) (simp_all add: write_u32_def read_u32_def)

interpretation codec_u64: codec write_u64 read_u64 "\<lambda>_. True"
  by (rule codec_le_word [of _ 8]) (simp_all add: write_u64_def read_u64_def)

interpretation codec_i64: codec write_i64 read_i64 in_i64
proof unfold_locales
  fix x assume "in_i64 x"
  then show "\<exists>b. write_i64 x = Ok b \<and> (\<forall>rest. read_i64 (b @ rest) = Ok (x, rest))"
    by (simp add: write_i64_def read_i64_def pbind_def read_exact_def preturn_def i64_bytes_roundtrip)
next
  fix bs rest :: bytes and x
  assume "read_i64 bs = Ok (x, rest)"
  then obtain b where "length b = 8" "bs = b @ rest" "x = i64_of_bytes b"
    by (auto simp: read_i64_def pbind_Ok_iff read_exact_Ok_iff)
  with amount_to_bytes_i64 [of b] show "in_i64 x \<and> (\<exists>b. write_i64 x = Ok b \<and> bs = b @ rest)"
    by (simp add: write_i64_def)
qed

section \<open>CompactSize\<close>

definition MAX_PROTOCOL_MESSAGE_LEN :: nat where "MAX_PROTOCOL_MESSAGE_LEN = 2 * 1024 * 1024"
definition MAX_U8_ALLOCATION :: nat where "MAX_U8_ALLOCATION = MAX_PROTOCOL_MESSAGE_LEN - 5"

definition plift :: "(ser_error, 'a) result \<Rightarrow> 'a parser" where
  "plift r bs = map_sum id (\<lambda>x. (x, bs)) r"

lemma plift_Ok_iff [simp]: "plift r bs = Ok (x, rest) \<longleftrightarrow> r = Ok x \<and> rest = bs"
  by (cases r) (auto simp: plift_def)

definition write_compact64 :: "u64 writer" where
  "write_compact64 n =
     (if n \<le> 0xfc then write_u8 (ucast n)
      else if n \<le> 0xffff then write_seq [write_u8 0xfd, write_u16 (ucast n)]
      else if n \<le> 0xffffffff then write_seq [write_u8 0xfe, write_u32 (ucast n)]
      else write_seq [write_u8 0xff, write_u64 n])"

definition read_compact64 :: "u64 parser" where
  "read_compact64 = pbind read_u8 (\<lambda>flag_byte.
     if flag_byte \<le> 0xfc then preturn (ucast flag_byte)
     else if flag_byte = 0xfd then pbind read_u16 (\<lambda>n.
       if n \<ge> 0x00fd then preturn (ucast n) else pfail (Parse ''non-canonical CompactSize''))
     else if flag_byte = 0xfe then pbind read_u32 (\<lambda>n.
       if n \<ge> 0x00010000 then preturn (ucast n) else pfail (Parse ''non-canonical CompactSize''))
     else pbind read_u64 (\<lambda>n.
       if n \<ge> 0x0000000100000000 then preturn n else pfail (Parse ''non-canonical CompactSize'')))"

text \<open>\<open>CompactSizeMessage::try_from(usize)\<close>: a count that fits \<open>u32\<close> and the protocol limit.\<close>

definition csm_try_from :: "nat \<Rightarrow> (ser_error, u32) result" where
  "csm_try_from n =
     (if n \<ge> 2 ^ 32 then Err (TryFromIntError ''out of range integral type conversion attempted'')
      else if n > MAX_PROTOCOL_MESSAGE_LEN
      then Err (Parse ''CompactSize larger than protocol message limit'')
      else Ok (word_of_nat n))"

definition write_csm :: "u32 writer" where
  "write_csm v =
     (if unat v \<le> MAX_PROTOCOL_MESSAGE_LEN then write_compact64 (ucast v)
      else Err (WritePanic ''CompactSize larger than protocol message limit''))"

text \<open>\<open>usize::try_from\<close> of the \<open>u64\<close> cannot fail on the 64-bit targets the program runs on.\<close>

definition read_csm :: "u32 parser" where
  "read_csm = pbind read_compact64 (\<lambda>n. plift (csm_try_from (unat n)))"

lemma le_word_simps:
  "(n :: u64) \<le> 0xfc \<longleftrightarrow> unat n \<le> 0xfc" "(n :: u64) \<le> 0xffff \<longleftrightarrow> unat n \<le> 0xffff"
  "(n :: u64) \<le> 0xffffffff \<longleftrightarrow> unat n \<le> 0xffffffff"
  "(b :: byte) \<le> 0xfc \<longleftrightarrow> unat b \<le> 0xfc" "(h :: u16) \<ge> 0xfd \<longleftrightarrow> unat h \<ge> 0xfd"
  "(w :: u32) \<ge> 0x10000 \<longleftrightarrow> unat w \<ge> 0x10000"
  "(n :: u64) \<ge> 0x100000000 \<longleftrightarrow> unat n \<ge> 0x100000000"
  by (simp_all add: word_le_nat_alt)

lemma unat_u32: "unat (v :: u32) < 4294967296"
  using unsigned_less [of v] by simp

lemma ucast_small: "unat (ucast (n :: 'a::len word) :: 'b::len word) = unat n"
  if "unat n < 2 ^ LENGTH('b)"
  using that by (simp add: unsigned_ucast_eq take_bit_nat_eq_self)

lemma ucast_back: "(ucast (ucast (n :: 'a::len word) :: 'b::len word) :: 'a word) = n"
  if "unat n < 2 ^ LENGTH('b)"
proof -
  have "unat (ucast (ucast n :: 'b word) :: 'a word) = unat n"
    using ucast_small [OF that] ucast_small [of "ucast n :: 'b word", where ?'b = 'a]
      unsigned_less [of n] by simp
  then show ?thesis by (simp only: word_unat_eq_iff)
qed

interpretation codec_compact64: codec write_compact64 read_compact64 "\<lambda>_. True"
proof unfold_locales
  fix n :: u64
  consider "unat n \<le> 0xfc" | "0xfc < unat n" "unat n \<le> 0xffff" | "0xffff < unat n" "unat n \<le> 0xffffffff"
    | "0xffffffff < unat n" by linarith
  then show "\<exists>b. write_compact64 n = Ok b \<and> (\<forall>rest. read_compact64 (b @ rest) = Ok (n, rest))"
  proof cases
    case 1
    with codec_u8.written [of "ucast n"] show ?thesis
      by (auto simp: write_compact64_def read_compact64_def le_word_simps ucast_small ucast_back)
  next
    case 2
    with codec_u8.written [of "0xfd"] codec_u16.written [of "ucast n"] show ?thesis
      by (auto simp: write_compact64_def read_compact64_def le_word_simps ucast_small ucast_back)
  next
    case 3
    with codec_u8.written [of "0xfe"] codec_u32.written [of "ucast n"] show ?thesis
      by (auto simp: write_compact64_def read_compact64_def le_word_simps ucast_small ucast_back)
  next
    case 4
    with codec_u8.written [of "0xff"] codec_u64.written [of n] show ?thesis
      by (auto simp: write_compact64_def read_compact64_def le_word_simps)
  qed
next
  fix bs rest :: bytes and n :: u64
  assume "read_compact64 bs = Ok (n, rest)"
  then obtain f m where f: "read_u8 bs = Ok (f, m)" and tail:
    "(if f \<le> 0xfc then preturn (ucast f)
     else if f = 0xfd then pbind read_u16 (\<lambda>n.
       if n \<ge> 0x00fd then preturn (ucast n) else pfail (Parse ''non-canonical CompactSize''))
     else if f = 0xfe then pbind read_u32 (\<lambda>n.
       if n \<ge> 0x00010000 then preturn (ucast n) else pfail (Parse ''non-canonical CompactSize''))
     else pbind read_u64 (\<lambda>n.
       if n \<ge> 0x0000000100000000 then preturn n else pfail (Parse ''non-canonical CompactSize''))) m
       = Ok (n, rest)"
    by (auto simp: read_compact64_def pbind_Ok_iff)
  from codec_u8.read [OF f] have bs: "write_u8 f = Ok [f]" "bs = f # m" by (auto simp: write_u8_def)
  have fb: "unat f < 256" using unsigned_less [of f] by simp
  consider "unat f \<le> 0xfc" | "f = 0xfd" | "f = 0xfe" | "f = 0xff"
  proof -
    have "f \<in> {0xfd, 0xfe, 0xff}" if "0xfc < unat f"
      using that fb by (auto simp: word_unat_eq_iff)
    then show ?thesis using that by (meson insertE not_le singletonD)
  qed
  then show "True \<and> (\<exists>b. write_compact64 n = Ok b \<and> bs = b @ rest)"
  proof cases
    case 1
    with tail bs fb show ?thesis
      by (auto simp: le_word_simps write_compact64_def ucast_small write_u8_def ucast_back)
  next
    case 2
    with tail obtain h where h: "read_u16 m = Ok (h, rest)" "unat h \<ge> 0xfd" "n = ucast h"
      by (auto simp: le_word_simps pbind_Ok_iff split: if_splits)
    have "unat h < 2 ^ 16" using unsigned_less [of h] by simp
    with h codec_u16.read [OF h(1)] bs 2 show ?thesis
      by (auto simp: le_word_simps write_compact64_def ucast_small write_u8_def ucast_back)
  next
    case 3
    with tail obtain h where h: "read_u32 m = Ok (h, rest)" "unat h \<ge> 0x10000" "n = ucast h"
      by (auto simp: le_word_simps pbind_Ok_iff split: if_splits)
    have "unat h < 2 ^ 32" using unsigned_less [of h] by simp
    with h codec_u32.read [OF h(1)] bs 3 show ?thesis
      by (auto simp: le_word_simps write_compact64_def ucast_small write_u8_def ucast_back)
  next
    case 4
    with tail have h: "read_u64 m = Ok (n, rest)" "unat n \<ge> 0x100000000"
      by (auto simp: le_word_simps pbind_Ok_iff split: if_splits)
    with codec_u64.read [OF h(1)] bs 4 show ?thesis
      by (auto simp: le_word_simps write_compact64_def write_u8_def)
  qed
qed

interpretation codec_csm: codec write_csm read_csm "\<lambda>v. unat v \<le> MAX_PROTOCOL_MESSAGE_LEN"
proof unfold_locales
  fix v :: u32 assume v: "unat v \<le> MAX_PROTOCOL_MESSAGE_LEN"
  have b: "unat v < 2 ^ 32" using unsigned_less [of v] by simp
  have "csm_try_from (unat v) = Ok v" using v b by (simp add: csm_try_from_def)
  with codec_compact64.written [of "ucast v"] v b
  show "\<exists>b. write_csm v = Ok b \<and> (\<forall>rest. read_csm (b @ rest) = Ok (v, rest))"
    by (auto simp: write_csm_def read_csm_def ucast_small plift_def)
next
  fix bs rest :: bytes and v :: u32
  assume "read_csm bs = Ok (v, rest)"
  then obtain s where s: "read_compact64 bs = Ok (s, rest)" "csm_try_from (unat s) = Ok v"
    by (auto simp: read_csm_def pbind_Ok_iff)
  then have v: "unat s < 2 ^ 32" "unat s \<le> MAX_PROTOCOL_MESSAGE_LEN" "v = word_of_nat (unat s)"
    by (auto simp: csm_try_from_def split: if_splits)
  then have u: "unat v = unat s" "ucast v = s"
    by (simp_all add: unat_of_nat word_unat_eq_iff unsigned_ucast_eq take_bit_nat_eq_self)
  with codec_compact64.read [OF s(1)] v
  show "unat v \<le> MAX_PROTOCOL_MESSAGE_LEN \<and> (\<exists>b. write_csm v = Ok b \<and> bs = b @ rest)"
    by (simp add: write_csm_def)
qed

section \<open>Vectors\<close>

text \<open>The element loop, and the two forms the count takes: outside the vector or in front of it.\<close>

fun read_n :: "nat \<Rightarrow> 'a parser \<Rightarrow> 'a list parser" where
  "read_n 0 p = preturn []"
| "read_n (Suc n) p = pbind p (\<lambda>x. pbind (read_n n p) (\<lambda>xs. preturn (x # xs)))"

definition read_external_count :: "nat \<Rightarrow> 'a parser \<Rightarrow> nat \<Rightarrow> 'a list parser" where
  "read_external_count max_allocation p external_count =
     (if external_count > max_allocation then pfail (Parse ''Vector longer than max_allocation'')
      else read_n external_count p)"

definition read_vec :: "nat \<Rightarrow> 'a parser \<Rightarrow> 'a list parser" where
  "read_vec max_allocation p =
     pbind read_csm (\<lambda>len. read_external_count max_allocation p (unat len))"

definition read_bytes_external_count :: "nat \<Rightarrow> bytes parser" where
  "read_bytes_external_count external_count =
     (if external_count > MAX_U8_ALLOCATION
      then pfail (Parse ''Byte vector longer than MAX_U8_ALLOCATION'')
      else read_exact external_count)"

definition read_bytes_vec :: "bytes parser" where
  "read_bytes_vec = pbind read_csm (\<lambda>len. read_bytes_external_count (unat len))"

definition write_external_count :: "'a writer \<Rightarrow> 'a list writer" where
  "write_external_count w xs = write_seq (map w xs)"

definition write_vec :: "'a writer \<Rightarrow> 'a list writer" where
  "write_vec w xs =
     (case csm_try_from (length xs) of
        Err _ \<Rightarrow> Err (WritePanic ''len fits in MAX_PROTOCOL_MESSAGE_LEN'')
      | Ok len \<Rightarrow> write_seq [write_csm len, write_external_count w xs])"

text \<open>Over byte vectors the length error is returned, as the \<open>io::Error\<close> it converts to.\<close>

fun write_error_of_ser :: "ser_error \<Rightarrow> write_error" where
  "write_error_of_ser (Parse msg) = WriteIo msg"
| "write_error_of_ser e = WriteIo (display_ser_error e)"

definition write_bytes :: "bytes writer" where
  "write_bytes xs =
     (case csm_try_from (length xs) of
        Err e \<Rightarrow> Err (write_error_of_ser e)
      | Ok len \<Rightarrow> write_seq [write_csm len, write_all xs])"

definition write_empty_list :: "(write_error, bytes) result" where
  "write_empty_list = write_csm 0"

lemma codec_list:
  assumes "codec w p v"
  shows "codec (write_external_count w) (read_n n p) (\<lambda>xs. length xs = n \<and> list_all v xs)"
proof
  fix xs assume "length xs = n \<and> list_all v xs"
  then show "\<exists>b. write_external_count w xs = Ok b \<and> (\<forall>rest. read_n n p (b @ rest) = Ok (xs, rest))"
  proof (induction xs arbitrary: n)
    case Nil
    then show ?case by (simp add: write_external_count_def)
  next
    case (Cons x xs)
    then obtain n' where n': "n = Suc n'" "length xs = n'" "v x" "list_all v xs" by auto
    from codec.written [OF assms n'(3)] Cons.IH [of n'] n' show ?case
      by (auto simp: write_external_count_def)
  qed
next
  fix bs rest xs assume "read_n n p bs = Ok (xs, rest)"
  then show "(length xs = n \<and> list_all v xs) \<and> (\<exists>b. write_external_count w xs = Ok b \<and> bs = b @ rest)"
  proof (induction n arbitrary: bs xs)
    case 0
    then show ?case by (auto simp: write_external_count_def)
  next
    case (Suc n)
    then obtain x m ys where x: "p bs = Ok (x, m)" "read_n n p m = Ok (ys, rest)" "xs = x # ys"
      by (auto simp: pbind_Ok_iff)
    from codec.read [OF assms x(1)] Suc.IH [OF x(2)] x(3) show ?case
      by (auto simp: write_external_count_def)
  qed
qed

lemma codec_external_count:
  assumes "codec w p v"
  shows "codec (write_external_count w) (read_external_count lim p n)
    (\<lambda>xs. length xs = n \<and> n \<le> lim \<and> list_all v xs)"
  using codec_list [OF assms, of n]
  by (cases "n \<le> lim") (auto simp: codec_def read_external_count_def)

lemma codec_vec:
  assumes "codec w p v"
  shows "codec (write_vec w) (read_vec lim p)
    (\<lambda>xs. length xs \<le> lim \<and> length xs \<le> MAX_PROTOCOL_MESSAGE_LEN \<and> list_all v xs)"
proof
  fix xs assume xs: "length xs \<le> lim \<and> length xs \<le> MAX_PROTOCOL_MESSAGE_LEN \<and> list_all v xs"
  then have small: "length xs < 2 ^ 32" by (simp add: MAX_PROTOCOL_MESSAGE_LEN_def)
  then have len: "csm_try_from (length xs) = Ok (word_of_nat (length xs))"
    "unat (word_of_nat (length xs) :: u32) = length xs"
    using xs by (simp_all add: csm_try_from_def unat_of_nat)
  obtain b where "write_csm (word_of_nat (length xs)) = Ok b"
    "\<forall>rest. read_csm (b @ rest) = Ok (word_of_nat (length xs), rest)"
    using codec_csm.written [of "word_of_nat (length xs)"] xs len by auto
  moreover obtain c where "write_external_count w xs = Ok c"
    "\<forall>rest. read_external_count lim p (length xs) (c @ rest) = Ok (xs, rest)"
    using codec.written [OF codec_external_count [OF assms, of lim "length xs"]] xs by auto
  ultimately show "\<exists>b. write_vec w xs = Ok b \<and> (\<forall>rest. read_vec lim p (b @ rest) = Ok (xs, rest))"
    by (simp add: write_vec_def len read_vec_def)
next
  fix bs rest xs assume "read_vec lim p bs = Ok (xs, rest)"
  then obtain len m where l: "read_csm bs = Ok (len, m)"
    and xs: "read_external_count lim p (unat len) m = Ok (xs, rest)"
    by (auto simp: read_vec_def pbind_Ok_iff)
  from codec.read [OF codec_external_count [OF assms] xs] codec_csm.read [OF l]
  show "(length xs \<le> lim \<and> length xs \<le> MAX_PROTOCOL_MESSAGE_LEN \<and> list_all v xs) \<and>
      (\<exists>b. write_vec w xs = Ok b \<and> bs = b @ rest)"
    using unat_u32 [of len] by (auto simp: write_vec_def csm_try_from_def)
qed

interpretation codec_byte_vec: codec write_bytes read_bytes_vec "\<lambda>xs. length xs \<le> MAX_U8_ALLOCATION"
proof unfold_locales
  fix xs :: bytes assume xs: "length xs \<le> MAX_U8_ALLOCATION"
  then have small: "length xs < 2 ^ 32" "length xs \<le> MAX_PROTOCOL_MESSAGE_LEN"
    by (simp_all add: MAX_U8_ALLOCATION_def MAX_PROTOCOL_MESSAGE_LEN_def)
  then have len: "csm_try_from (length xs) = Ok (word_of_nat (length xs))"
    "unat (word_of_nat (length xs) :: u32) = length xs"
    by (simp_all add: csm_try_from_def unat_of_nat)
  obtain b where "write_csm (word_of_nat (length xs)) = Ok b"
    "\<forall>rest. read_csm (b @ rest) = Ok (word_of_nat (length xs), rest)"
    using codec_csm.written [of "word_of_nat (length xs)"] small len by auto
  with xs show "\<exists>b. write_bytes xs = Ok b \<and> (\<forall>rest. read_bytes_vec (b @ rest) = Ok (xs, rest))"
    by (simp add: write_bytes_def len read_bytes_vec_def read_bytes_external_count_def
        write_all_def read_exact_def)
next
  fix bs rest xs :: bytes assume "read_bytes_vec bs = Ok (xs, rest)"
  then obtain len m where l: "read_csm bs = Ok (len, m)"
    and xs: "length xs = unat len" "unat len \<le> MAX_U8_ALLOCATION" "m = xs @ rest"
    by (auto simp: read_bytes_vec_def read_bytes_external_count_def pbind_Ok_iff read_exact_Ok_iff
        split: if_splits)
  from codec_csm.read [OF l] xs
  show "length xs \<le> MAX_U8_ALLOCATION \<and> (\<exists>b. write_bytes xs = Ok b \<and> bs = b @ rest)"
    using unat_u32 [of len] by (auto simp: write_bytes_def csm_try_from_def write_all_def)
qed

text \<open>A fixed number of bytes that must pass a check, kept as they are.\<close>

lemma codec_checked:
  assumes "\<And>b x. f b = Ok x \<longleftrightarrow> x = b \<and> ok b"
  shows "codec write_all (pbind (read_exact n) (\<lambda>b. plift (f b))) (\<lambda>x. length x = n \<and> ok x)"
proof
  fix x assume x: "length x = n \<and> ok x"
  then have "f x = Ok x" using assms by blast
  with x show "\<exists>b. write_all x = Ok b \<and>
      (\<forall>rest. pbind (read_exact n) (\<lambda>b. plift (f b)) (b @ rest) = Ok (x, rest))"
    by (simp add: write_all_def read_exact_def pbind_def)
next
  fix bs rest x assume "pbind (read_exact n) (\<lambda>b. plift (f b)) bs = Ok (x, rest)"
  then show "(length x = n \<and> ok x) \<and> (\<exists>b. write_all x = Ok b \<and> bs = b @ rest)"
    by (auto simp: pbind_Ok_iff read_exact_Ok_iff assms write_all_def)
qed

text \<open>A codec seen through a one-to-one map of its values.\<close>

lemma codec_iso:
  assumes c: "codec w p v" and wr: "\<And>y. v' y \<Longrightarrow> wr y = w (g y)"
    and there: "\<And>y. v' y \<Longrightarrow> v (g y) \<and> f (g y) = y" and again: "\<And>x. v x \<Longrightarrow> v' (f x) \<and> g (f x) = x"
  shows "codec wr (pbind p (\<lambda>x. preturn (f x))) v'"
proof
  fix y assume y: "v' y"
  with codec.written [OF c, of "g y"] there [of y] wr [of y]
  show "\<exists>b. wr y = Ok b \<and> (\<forall>rest. pbind p (\<lambda>x. preturn (f x)) (b @ rest) = Ok (y, rest))"
    by auto
next
  fix bs rest y assume "pbind p (\<lambda>x. preturn (f x)) bs = Ok (y, rest)"
  then obtain x where x: "p bs = Ok (x, rest)" "y = f x" by (auto simp: pbind_Ok_iff)
  with codec.read [OF c x(1)] again [of x] wr [of y]
  show "v' y \<and> (\<exists>b. wr y = Ok b \<and> bs = b @ rest)" by auto
qed

section \<open>Properties\<close>

text \<open>
  A count or length has exactly one encoding: the CompactSize readers accept precisely what
  the matching writer produces and nothing else, so a non-minimal length, a count beyond the
  protocol limit or a byte string over the allocation limit is refused, and the bytes after the
  value are left for the next field.
\<close>

theorem compact_size_is_canonical:
  "(read_compact64 bs = Ok (n, rest) \<longleftrightarrow> (\<exists>b. write_compact64 n = Ok b \<and> bs = b @ rest))
   \<and> (read_csm bs = Ok (c, rest) \<longleftrightarrow>
        unat c \<le> MAX_PROTOCOL_MESSAGE_LEN \<and> (\<exists>b. write_csm c = Ok b \<and> bs = b @ rest))
   \<and> (read_bytes_vec bs = Ok (xs, rest) \<longleftrightarrow>
        length xs \<le> MAX_U8_ALLOCATION \<and> (\<exists>b. write_bytes xs = Ok b \<and> bs = b @ rest))"
  by (simp add: codec_compact64.read_iff codec_csm.read_iff codec_byte_vec.read_iff)

end
