(* ===== verification/TxData.thy ===== *)
theory TxData
  imports Prelude Amount Upgrades
begin

text \<open>
  The transaction data model, as the types of \<open>zebra-chain/src/transaction.rs\<close>,
  \<open>transparent.rs\<close>, \<open>sprout\<close>, \<open>sapling\<close>, \<open>orchard\<close> and \<open>ironwood\<close>
  have it, with the accessors of \<open>Transaction\<close>. A curve point, field element, key, proof or
  ciphertext is the byte string it is encoded as; \<open>AtLeastOne\<close> is a list, its non-emptiness
  part of the validity the parser establishes. The \<open>anchor\<close> type parameter of a Sapling spend
  is its \<open>per_spend_anchor\<close>: the root itself (\<open>PerSpendAnchor\<close>) or \<open>unit\<close>
  (\<open>FieldNotPresent\<close>).
\<close>

section \<open>Transparent and Sprout parts\<close>

datatype lock_time = LockHeight height | LockTime int

record outpoint =
  op_hash :: bytes
  op_index :: u32

datatype tx_input =
    PrevOut (prev_outpoint: outpoint) (unlock_script: bytes) (input_sequence: u32)
  | Coinbase (coinbase_height: height) (coinbase_data: bytes) (input_sequence: u32)

record tx_output =
  out_value :: int
  lock_script :: bytes

record joinsplit =
  vpub_old :: int
  vpub_new :: int
  js_anchor :: bytes
  js_nullifiers :: "bytes \<times> bytes"
  js_commitments :: "bytes \<times> bytes"
  js_ephemeral_key :: bytes
  js_random_seed :: bytes
  js_vmacs :: "bytes \<times> bytes"
  js_zkproof :: bytes
  js_enc_ciphertexts :: "bytes \<times> bytes"

record joinsplit_data =
  js_first :: joinsplit
  js_rest :: "joinsplit list"
  js_pub_key :: bytes
  js_sig :: bytes

definition joinsplits :: "joinsplit_data \<Rightarrow> joinsplit list" where
  "joinsplits d = js_first d # js_rest d"

definition js_data_nullifiers :: "joinsplit_data \<Rightarrow> bytes list" where
  "js_data_nullifiers d =
     concat (map (\<lambda>j. [fst (js_nullifiers j), snd (js_nullifiers j)]) (joinsplits d))"

definition js_data_note_commitments :: "joinsplit_data \<Rightarrow> bytes list" where
  "js_data_note_commitments d =
     concat (map (\<lambda>j. [fst (js_commitments j), snd (js_commitments j)]) (joinsplits d))"

section \<open>Sapling, Orchard and Ironwood parts\<close>

record 'anchor spend =
  spend_cv :: bytes
  per_spend_anchor :: 'anchor
  spend_nullifier :: bytes
  spend_rk :: bytes
  spend_zkproof :: bytes
  spend_auth_sig :: bytes

record sapling_output =
  so_cv :: bytes
  so_cm_u :: bytes
  so_ephemeral_key :: bytes
  so_enc_ciphertext :: bytes
  so_out_ciphertext :: bytes
  so_zkproof :: bytes

datatype ('anchor, 'shared) transfer_data =
    SpendsAndMaybeOutputs 'shared "'anchor spend list" "sapling_output list"
  | JustOutputs "sapling_output list"

record ('anchor, 'shared) sapling_data =
  sd_value_balance :: int
  sd_transfers :: "('anchor, 'shared) transfer_data"
  sd_binding_sig :: bytes

type_synonym sapling_v4 = "(bytes, unit) sapling_data"
type_synonym sapling_v5 = "(unit, bytes) sapling_data"

fun transfer_spends :: "('anchor, 'shared) transfer_data \<Rightarrow> 'anchor spend list" where
  "transfer_spends (SpendsAndMaybeOutputs _ ss _) = ss"
| "transfer_spends (JustOutputs _) = []"

fun transfer_outputs :: "('anchor, 'shared) transfer_data \<Rightarrow> sapling_output list" where
  "transfer_outputs (SpendsAndMaybeOutputs _ _ outs) = outs"
| "transfer_outputs (JustOutputs outs) = outs"

fun transfer_shared_anchor :: "('anchor, 'shared) transfer_data \<Rightarrow> 'shared option" where
  "transfer_shared_anchor (SpendsAndMaybeOutputs a _ _) = Some a"
| "transfer_shared_anchor (JustOutputs _) = None"

definition sd_spends :: "('anchor, 'shared) sapling_data \<Rightarrow> 'anchor spend list" where
  "sd_spends d = transfer_spends (sd_transfers d)"

definition sd_outputs :: "('anchor, 'shared) sapling_data \<Rightarrow> sapling_output list" where
  "sd_outputs d = transfer_outputs (sd_transfers d)"

definition sd_shared_anchor :: "('anchor, 'shared) sapling_data \<Rightarrow> 'shared option" where
  "sd_shared_anchor d = transfer_shared_anchor (sd_transfers d)"

definition sd_nullifiers :: "('anchor, 'shared) sapling_data \<Rightarrow> bytes list" where
  "sd_nullifiers d = map spend_nullifier (sd_spends d)"

definition sd_note_commitments :: "('anchor, 'shared) sapling_data \<Rightarrow> bytes list" where
  "sd_note_commitments d = map so_cm_u (sd_outputs d)"

text \<open>
  \<open>From<(Spend<AnchorV>, AnchorV::Shared)>\<close>: a V5 spend takes the shared anchor, a V4 one has
  its own. \<open>None\<close> is the \<open>expect\<close> of \<open>spends_per_anchor\<close>, when spends have no shared
  anchor.
\<close>

definition spend_with_anchor :: "unit spend \<Rightarrow> bytes \<Rightarrow> bytes spend" where
  "spend_with_anchor s a =
     \<lparr>spend_cv = spend_cv s, per_spend_anchor = a, spend_nullifier = spend_nullifier s,
      spend_rk = spend_rk s, spend_zkproof = spend_zkproof s, spend_auth_sig = spend_auth_sig s\<rparr>"

definition spend_same_anchor :: "bytes spend \<Rightarrow> unit \<Rightarrow> bytes spend" where
  "spend_same_anchor s _ = s"

definition spends_per_anchor ::
    "('anchor spend \<Rightarrow> 'shared \<Rightarrow> bytes spend) \<Rightarrow> ('anchor, 'shared) sapling_data \<Rightarrow> bytes spend list option" where
  "spends_per_anchor from d =
     those (map (\<lambda>s. map_option (from s) (sd_shared_anchor d)) (sd_spends d))"

text \<open>\<open>unique_by\<close> keeps the first of equal anchors.\<close>

fun unique :: "'a list \<Rightarrow> 'a list" where
  "unique [] = []"
| "unique (x # xs) = x # unique (filter (\<lambda>y. y \<noteq> x) xs)"

definition sd_anchors ::
    "('anchor spend \<Rightarrow> 'shared \<Rightarrow> bytes spend) \<Rightarrow> ('anchor, 'shared) sapling_data \<Rightarrow> bytes list option" where
  "sd_anchors from d = map_option (\<lambda>ss. unique (map per_spend_anchor ss)) (spends_per_anchor from d)"

record action =
  ac_cv :: bytes
  ac_nullifier :: bytes
  ac_rk :: bytes
  ac_cm_x :: bytes
  ac_ephemeral_key :: bytes
  ac_enc_ciphertext :: bytes
  ac_out_ciphertext :: bytes

record authorized_action =
  aa_action :: action
  aa_spend_auth_sig :: bytes

type_synonym flags = byte

definition ENABLE_SPENDS :: flags where "ENABLE_SPENDS = 0b00000001"
definition ENABLE_OUTPUTS :: flags where "ENABLE_OUTPUTS = 0b00000010"
definition ENABLE_CROSS_ADDRESS :: flags where "ENABLE_CROSS_ADDRESS = 0b00000100"

unbundle bit_operations_syntax

definition flags_empty :: flags where "flags_empty = 0"
definition flags_contains :: "flags \<Rightarrow> flags \<Rightarrow> bool" where
  "flags_contains f g = (f AND g = g)"
definition flags_intersects :: "flags \<Rightarrow> flags \<Rightarrow> bool" where
  "flags_intersects f g = (f AND g \<noteq> 0)"

record orchard_data =
  od_flags :: flags
  od_value_balance :: int
  od_shared_anchor :: bytes
  od_proof :: bytes
  od_actions :: "authorized_action list"
  od_binding_sig :: bytes

datatype orchard_v6 = ShieldedDataV6 (v6_data: orchard_data)
datatype ironwood_data = IronwoodData (ironwood_inner: orchard_v6)

definition od_action_list :: "orchard_data \<Rightarrow> action list" where
  "od_action_list d = map aa_action (od_actions d)"

definition od_nullifiers :: "orchard_data \<Rightarrow> bytes list" where
  "od_nullifiers d = map ac_nullifier (od_action_list d)"

definition od_note_commitments :: "orchard_data \<Rightarrow> bytes list" where
  "od_note_commitments d = map ac_cm_x (od_action_list d)"

definition ironwood_inner_data :: "ironwood_data \<Rightarrow> orchard_data" where
  "ironwood_inner_data d = v6_data (ironwood_inner d)"

section \<open>Transactions\<close>

datatype transaction =
    V1 "tx_input list" "tx_output list" lock_time
  | V2 "tx_input list" "tx_output list" lock_time "joinsplit_data option"
  | V3 "tx_input list" "tx_output list" lock_time height "joinsplit_data option"
  | V4 "tx_input list" "tx_output list" lock_time height "joinsplit_data option" "sapling_v4 option"
  | V5 network_upgrade lock_time height "tx_input list" "tx_output list" "sapling_v5 option"
      "orchard_data option"
  | V6 network_upgrade lock_time height "tx_input list" "tx_output list" "sapling_v5 option"
      "orchard_v6 option" "ironwood_data option"

fun tx_inputs :: "transaction \<Rightarrow> tx_input list" where
  "tx_inputs (V1 i _ _) = i"
| "tx_inputs (V2 i _ _ _) = i"
| "tx_inputs (V3 i _ _ _ _) = i"
| "tx_inputs (V4 i _ _ _ _ _) = i"
| "tx_inputs (V5 _ _ _ i _ _ _) = i"
| "tx_inputs (V6 _ _ _ i _ _ _ _) = i"

fun tx_outputs :: "transaction \<Rightarrow> tx_output list" where
  "tx_outputs (V1 _ out _) = out"
| "tx_outputs (V2 _ out _ _) = out"
| "tx_outputs (V3 _ out _ _ _) = out"
| "tx_outputs (V4 _ out _ _ _ _) = out"
| "tx_outputs (V5 _ _ _ _ out _ _) = out"
| "tx_outputs (V6 _ _ _ _ out _ _ _) = out"

fun tx_lock_time_field :: "transaction \<Rightarrow> lock_time" where
  "tx_lock_time_field (V1 _ _ t) = t"
| "tx_lock_time_field (V2 _ _ t _) = t"
| "tx_lock_time_field (V3 _ _ t _ _) = t"
| "tx_lock_time_field (V4 _ _ t _ _ _) = t"
| "tx_lock_time_field (V5 _ t _ _ _ _ _) = t"
| "tx_lock_time_field (V6 _ t _ _ _ _ _ _) = t"

fun tx_version :: "transaction \<Rightarrow> u32" where
  "tx_version (V1 _ _ _) = 1"
| "tx_version (V2 _ _ _ _) = 2"
| "tx_version (V3 _ _ _ _ _) = 3"
| "tx_version (V4 _ _ _ _ _ _) = 4"
| "tx_version (V5 _ _ _ _ _ _ _) = 5"
| "tx_version (V6 _ _ _ _ _ _ _ _) = 6"

fun is_overwintered :: "transaction \<Rightarrow> bool" where
  "is_overwintered (V1 _ _ _) = False"
| "is_overwintered (V2 _ _ _ _) = False"
| "is_overwintered _ = True"

definition OVERWINTER_VERSION_GROUP_ID :: u32 where "OVERWINTER_VERSION_GROUP_ID = 0x03C48270"
definition SAPLING_VERSION_GROUP_ID :: u32 where "SAPLING_VERSION_GROUP_ID = 0x892F2085"
definition TX_V5_VERSION_GROUP_ID :: u32 where "TX_V5_VERSION_GROUP_ID = 0x26A7270A"
definition TX_V6_VERSION_GROUP_ID :: u32 where "TX_V6_VERSION_GROUP_ID = 0xD884B698"

fun version_group_id :: "transaction \<Rightarrow> u32 option" where
  "version_group_id (V1 _ _ _) = None"
| "version_group_id (V2 _ _ _ _) = None"
| "version_group_id (V3 _ _ _ _ _) = Some OVERWINTER_VERSION_GROUP_ID"
| "version_group_id (V4 _ _ _ _ _ _) = Some SAPLING_VERSION_GROUP_ID"
| "version_group_id (V5 _ _ _ _ _ _ _) = Some TX_V5_VERSION_GROUP_ID"
| "version_group_id (V6 _ _ _ _ _ _ _ _) = Some TX_V6_VERSION_GROUP_ID"

fun tx_network_upgrade :: "transaction \<Rightarrow> network_upgrade option" where
  "tx_network_upgrade (V5 nu _ _ _ _ _ _) = Some nu"
| "tx_network_upgrade (V6 nu _ _ _ _ _ _ _) = Some nu"
| "tx_network_upgrade _ = None"

text \<open>A zero expiry height means no expiry.\<close>

definition some_expiry :: "height \<Rightarrow> height option" where
  "some_expiry h = (if h = Height 0 then None else Some h)"

fun expiry_height :: "transaction \<Rightarrow> height option" where
  "expiry_height (V1 _ _ _) = None"
| "expiry_height (V2 _ _ _ _) = None"
| "expiry_height (V3 _ _ _ h _) = some_expiry h"
| "expiry_height (V4 _ _ _ h _ _) = some_expiry h"
| "expiry_height (V5 _ _ h _ _ _ _) = some_expiry h"
| "expiry_height (V6 _ _ h _ _ _ _ _) = some_expiry h"

definition LOCK_MIN_TIMESTAMP :: int where "LOCK_MIN_TIMESTAMP = 500000000"
definition lock_unlocked :: lock_time where "lock_unlocked = LockHeight (Height 0)"

fun lock_is_time :: "lock_time \<Rightarrow> bool" where
  "lock_is_time (LockTime _) = True"
| "lock_is_time (LockHeight _) = False"

text \<open>The lock time is in force only when some input's sequence number enables it.\<close>

definition tx_lock_time :: "transaction \<Rightarrow> lock_time option" where
  "tx_lock_time tx =
     (let t = tx_lock_time_field tx
      in if t = lock_unlocked then None
         else if list_ex (\<lambda>i. input_sequence i \<noteq> 0xffffffff) (tx_inputs tx) then Some t
         else None)"

definition lock_time_is_time :: "transaction \<Rightarrow> bool" where
  "lock_time_is_time tx = (case tx_lock_time tx of Some t \<Rightarrow> lock_is_time t | None \<Rightarrow> False)"

fun input_is_coinbase :: "tx_input \<Rightarrow> bool" where
  "input_is_coinbase (Coinbase _ _ _) = True"
| "input_is_coinbase (PrevOut _ _ _) = False"

definition inputs_are_coinbase :: "tx_input list \<Rightarrow> bool" where
  "inputs_are_coinbase ins = (length ins = 1 \<and> (case ins of i # _ \<Rightarrow> input_is_coinbase i | [] \<Rightarrow> False))"

definition is_coinbase :: "transaction \<Rightarrow> bool" where
  "is_coinbase tx = inputs_are_coinbase (tx_inputs tx)"

definition is_valid_non_coinbase :: "transaction \<Rightarrow> bool" where
  "is_valid_non_coinbase tx = list_all (\<lambda>i. \<not> input_is_coinbase i) (tx_inputs tx)"

fun input_outpoint :: "tx_input \<Rightarrow> outpoint option" where
  "input_outpoint (PrevOut out _ _) = Some out"
| "input_outpoint (Coinbase _ _ _) = None"

definition spent_outpoints :: "transaction \<Rightarrow> outpoint list" where
  "spent_outpoints tx = List.map_filter input_outpoint (tx_inputs tx)"

section \<open>Sprout accessors\<close>

fun sprout_groth16_joinsplits :: "transaction \<Rightarrow> joinsplit list" where
  "sprout_groth16_joinsplits (V4 _ _ _ _ (Some d) _) = joinsplits d"
| "sprout_groth16_joinsplits _ = []"

fun sprout_joinsplits :: "transaction \<Rightarrow> joinsplit list" where
  "sprout_joinsplits (V2 _ _ _ (Some d)) = joinsplits d"
| "sprout_joinsplits (V3 _ _ _ _ (Some d)) = joinsplits d"
| "sprout_joinsplits (V4 _ _ _ _ (Some d) _) = joinsplits d"
| "sprout_joinsplits _ = []"

fun joinsplit_count :: "transaction \<Rightarrow> nat" where
  "joinsplit_count (V2 _ _ _ (Some d)) = length (joinsplits d)"
| "joinsplit_count (V3 _ _ _ _ (Some d)) = length (joinsplits d)"
| "joinsplit_count (V4 _ _ _ _ (Some d) _) = length (joinsplits d)"
| "joinsplit_count _ = 0"

fun sprout_nullifiers :: "transaction \<Rightarrow> bytes list" where
  "sprout_nullifiers (V2 _ _ _ (Some d)) = js_data_nullifiers d"
| "sprout_nullifiers (V3 _ _ _ _ (Some d)) = js_data_nullifiers d"
| "sprout_nullifiers (V4 _ _ _ _ (Some d) _) = js_data_nullifiers d"
| "sprout_nullifiers _ = []"

fun sprout_note_commitments :: "transaction \<Rightarrow> bytes list" where
  "sprout_note_commitments (V2 _ _ _ (Some d)) = js_data_note_commitments d"
| "sprout_note_commitments (V3 _ _ _ _ (Some d)) = js_data_note_commitments d"
| "sprout_note_commitments (V4 _ _ _ _ (Some d) _) = js_data_note_commitments d"
| "sprout_note_commitments _ = []"

fun sprout_joinsplit_pub_key :: "transaction \<Rightarrow> bytes option" where
  "sprout_joinsplit_pub_key (V2 _ _ _ (Some d)) = Some (js_pub_key d)"
| "sprout_joinsplit_pub_key (V3 _ _ _ _ (Some d)) = Some (js_pub_key d)"
| "sprout_joinsplit_pub_key (V4 _ _ _ _ (Some d) _) = Some (js_pub_key d)"
| "sprout_joinsplit_pub_key _ = None"

fun joinsplit_sig :: "transaction \<Rightarrow> bytes option" where
  "joinsplit_sig (V2 _ _ _ (Some d)) = Some (js_sig d)"
| "joinsplit_sig (V3 _ _ _ _ (Some d)) = Some (js_sig d)"
| "joinsplit_sig (V4 _ _ _ _ (Some d) _) = Some (js_sig d)"
| "joinsplit_sig _ = None"

fun has_sprout_joinsplit_data :: "transaction \<Rightarrow> bool" where
  "has_sprout_joinsplit_data (V2 _ _ _ d) = (d \<noteq> None)"
| "has_sprout_joinsplit_data (V3 _ _ _ _ d) = (d \<noteq> None)"
| "has_sprout_joinsplit_data (V4 _ _ _ _ d _) = (d \<noteq> None)"
| "has_sprout_joinsplit_data _ = False"

fun output_values_to_sprout :: "transaction \<Rightarrow> int list" where
  "output_values_to_sprout (V2 _ _ _ (Some d)) = map vpub_old (joinsplits d)"
| "output_values_to_sprout (V3 _ _ _ _ (Some d)) = map vpub_old (joinsplits d)"
| "output_values_to_sprout (V4 _ _ _ _ (Some d) _) = map vpub_old (joinsplits d)"
| "output_values_to_sprout _ = []"

fun input_values_from_sprout :: "transaction \<Rightarrow> int list" where
  "input_values_from_sprout (V2 _ _ _ (Some d)) = map vpub_new (joinsplits d)"
| "input_values_from_sprout (V3 _ _ _ _ (Some d)) = map vpub_new (joinsplits d)"
| "input_values_from_sprout (V4 _ _ _ _ (Some d) _) = map vpub_new (joinsplits d)"
| "input_values_from_sprout _ = []"

section \<open>Sapling accessors\<close>

text \<open>\<open>None\<close> in the two results below is the panic of \<open>spends_per_anchor\<close>.\<close>

fun sapling_anchors :: "transaction \<Rightarrow> bytes list option" where
  "sapling_anchors (V4 _ _ _ _ _ (Some d)) = sd_anchors spend_same_anchor d"
| "sapling_anchors (V5 _ _ _ _ _ (Some d) _) = sd_anchors spend_with_anchor d"
| "sapling_anchors (V6 _ _ _ _ _ (Some d) _ _) = sd_anchors spend_with_anchor d"
| "sapling_anchors _ = Some []"

fun sapling_spends_per_anchor :: "transaction \<Rightarrow> bytes spend list option" where
  "sapling_spends_per_anchor (V4 _ _ _ _ _ (Some d)) = spends_per_anchor spend_same_anchor d"
| "sapling_spends_per_anchor (V5 _ _ _ _ _ (Some d) _) = spends_per_anchor spend_with_anchor d"
| "sapling_spends_per_anchor (V6 _ _ _ _ _ (Some d) _ _) = spends_per_anchor spend_with_anchor d"
| "sapling_spends_per_anchor _ = Some []"

fun sapling_outputs :: "transaction \<Rightarrow> sapling_output list" where
  "sapling_outputs (V4 _ _ _ _ _ (Some d)) = sd_outputs d"
| "sapling_outputs (V5 _ _ _ _ _ (Some d) _) = sd_outputs d"
| "sapling_outputs (V6 _ _ _ _ _ (Some d) _ _) = sd_outputs d"
| "sapling_outputs _ = []"

fun sapling_nullifiers :: "transaction \<Rightarrow> bytes list" where
  "sapling_nullifiers (V4 _ _ _ _ _ (Some d)) = sd_nullifiers d"
| "sapling_nullifiers (V5 _ _ _ _ _ (Some d) _) = sd_nullifiers d"
| "sapling_nullifiers (V6 _ _ _ _ _ (Some d) _ _) = sd_nullifiers d"
| "sapling_nullifiers _ = []"

fun sapling_note_commitments :: "transaction \<Rightarrow> bytes list" where
  "sapling_note_commitments (V4 _ _ _ _ _ (Some d)) = sd_note_commitments d"
| "sapling_note_commitments (V5 _ _ _ _ _ (Some d) _) = sd_note_commitments d"
| "sapling_note_commitments (V6 _ _ _ _ _ (Some d) _ _) = sd_note_commitments d"
| "sapling_note_commitments _ = []"

fun has_sapling_shielded_data :: "transaction \<Rightarrow> bool" where
  "has_sapling_shielded_data (V4 _ _ _ _ _ d) = (d \<noteq> None)"
| "has_sapling_shielded_data (V5 _ _ _ _ _ d _) = (d \<noteq> None)"
| "has_sapling_shielded_data (V6 _ _ _ _ _ d _ _) = (d \<noteq> None)"
| "has_sapling_shielded_data _ = False"

fun sapling_binding_sig :: "transaction \<Rightarrow> bytes option" where
  "sapling_binding_sig (V4 _ _ _ _ _ (Some d)) = Some (sd_binding_sig d)"
| "sapling_binding_sig (V5 _ _ _ _ _ (Some d) _) = Some (sd_binding_sig d)"
| "sapling_binding_sig (V6 _ _ _ _ _ (Some d) _ _) = Some (sd_binding_sig d)"
| "sapling_binding_sig _ = None"

section \<open>Orchard and Ironwood accessors\<close>

fun orchard_shielded_data :: "transaction \<Rightarrow> orchard_data option" where
  "orchard_shielded_data (V5 _ _ _ _ _ _ d) = d"
| "orchard_shielded_data (V6 _ _ _ _ _ _ d _) = map_option v6_data d"
| "orchard_shielded_data _ = None"

fun ironwood_shielded_data :: "transaction \<Rightarrow> orchard_data option" where
  "ironwood_shielded_data (V6 _ _ _ _ _ _ _ d) = map_option ironwood_inner_data d"
| "ironwood_shielded_data _ = None"

definition orchard_actions :: "transaction \<Rightarrow> action list" where
  "orchard_actions tx = (case orchard_shielded_data tx of None \<Rightarrow> [] | Some d \<Rightarrow> od_action_list d)"

definition orchard_nullifiers :: "transaction \<Rightarrow> bytes list" where
  "orchard_nullifiers tx = (case orchard_shielded_data tx of None \<Rightarrow> [] | Some d \<Rightarrow> od_nullifiers d)"

definition orchard_note_commitments :: "transaction \<Rightarrow> bytes list" where
  "orchard_note_commitments tx =
     (case orchard_shielded_data tx of None \<Rightarrow> [] | Some d \<Rightarrow> od_note_commitments d)"

definition orchard_flags :: "transaction \<Rightarrow> flags option" where
  "orchard_flags tx = map_option od_flags (orchard_shielded_data tx)"

definition has_orchard_shielded_data :: "transaction \<Rightarrow> bool" where
  "has_orchard_shielded_data tx = (orchard_shielded_data tx \<noteq> None)"

definition ironwood_actions :: "transaction \<Rightarrow> action list" where
  "ironwood_actions tx = (case ironwood_shielded_data tx of None \<Rightarrow> [] | Some d \<Rightarrow> od_action_list d)"

definition ironwood_nullifiers :: "transaction \<Rightarrow> bytes list" where
  "ironwood_nullifiers tx = (case ironwood_shielded_data tx of None \<Rightarrow> [] | Some d \<Rightarrow> od_nullifiers d)"

definition ironwood_note_commitments :: "transaction \<Rightarrow> bytes list" where
  "ironwood_note_commitments tx =
     (case ironwood_shielded_data tx of None \<Rightarrow> [] | Some d \<Rightarrow> od_note_commitments d)"

definition ironwood_flags :: "transaction \<Rightarrow> flags option" where
  "ironwood_flags tx = map_option od_flags (ironwood_shielded_data tx)"

definition has_ironwood_shielded_data :: "transaction \<Rightarrow> bool" where
  "has_ironwood_shielded_data tx = (ironwood_shielded_data tx \<noteq> None)"

section \<open>What a transaction moves\<close>

definition has_transparent_inputs :: "transaction \<Rightarrow> bool" where
  "has_transparent_inputs tx = (tx_inputs tx \<noteq> [])"

definition has_transparent_outputs :: "transaction \<Rightarrow> bool" where
  "has_transparent_outputs tx = (tx_outputs tx \<noteq> [])"

definition has_transparent_inputs_or_outputs :: "transaction \<Rightarrow> bool" where
  "has_transparent_inputs_or_outputs tx = (has_transparent_inputs tx \<or> has_transparent_outputs tx)"

text \<open>
  Counting \<open>sapling_spends_per_anchor\<close> runs through the iterator, so a panic there is a panic
  here; the disjunctions are evaluated left to right.
\<close>

definition sapling_spend_count :: "transaction \<Rightarrow> nat option" where
  "sapling_spend_count tx = map_option length (sapling_spends_per_anchor tx)"

definition has_shielded_inputs :: "transaction \<Rightarrow> bool option" where
  "has_shielded_inputs tx =
     (if joinsplit_count tx > 0 then Some True
      else case sapling_spend_count tx of
        None \<Rightarrow> None
      | Some n \<Rightarrow> Some (n > 0
          \<or> length (orchard_actions tx) > 0
              \<and> flags_contains (case orchard_flags tx of Some f \<Rightarrow> f | None \<Rightarrow> flags_empty) ENABLE_SPENDS
          \<or> has_ironwood_shielded_data tx
              \<and> flags_contains (case ironwood_flags tx of Some f \<Rightarrow> f | None \<Rightarrow> flags_empty) ENABLE_SPENDS))"

definition has_shielded_outputs :: "transaction \<Rightarrow> bool" where
  "has_shielded_outputs tx =
     (joinsplit_count tx > 0
      \<or> length (sapling_outputs tx) > 0
      \<or> length (orchard_actions tx) > 0
          \<and> flags_contains (case orchard_flags tx of Some f \<Rightarrow> f | None \<Rightarrow> flags_empty) ENABLE_OUTPUTS
      \<or> has_ironwood_shielded_data tx
          \<and> flags_contains (case ironwood_flags tx of Some f \<Rightarrow> f | None \<Rightarrow> flags_empty) ENABLE_OUTPUTS)"

definition has_transparent_or_shielded_inputs :: "transaction \<Rightarrow> bool option" where
  "has_transparent_or_shielded_inputs tx =
     (if has_transparent_inputs tx then Some True else has_shielded_inputs tx)"

definition has_transparent_or_shielded_outputs :: "transaction \<Rightarrow> bool" where
  "has_transparent_or_shielded_outputs tx = (has_transparent_outputs tx \<or> has_shielded_outputs tx)"

definition has_shielded_data :: "transaction \<Rightarrow> bool option" where
  "has_shielded_data tx =
     map_option (\<lambda>b. b \<or> has_shielded_outputs tx) (has_shielded_inputs tx)"

definition has_enough_orchard_flags :: "transaction \<Rightarrow> bool" where
  "has_enough_orchard_flags tx =
     (if tx_version tx < 5 \<or> length (orchard_actions tx) = 0 then True
      else flags_intersects (case orchard_flags tx of Some f \<Rightarrow> f | None \<Rightarrow> flags_empty)
             (ENABLE_SPENDS OR ENABLE_OUTPUTS))"

definition has_enough_ironwood_flags :: "transaction \<Rightarrow> bool" where
  "has_enough_ironwood_flags tx =
     (if \<not> has_ironwood_shielded_data tx then True
      else flags_intersects (case ironwood_flags tx of Some f \<Rightarrow> f | None \<Rightarrow> flags_empty)
             (ENABLE_SPENDS OR ENABLE_OUTPUTS))"

section \<open>The accessors never panic\<close>

text \<open>A transaction has a shared anchor wherever it has spends, so reading spends is total.\<close>

lemma those_map_Some: "those (map (\<lambda>x. Some (f x)) xs) = Some (map f xs)"
  by (induction xs) simp_all

lemma spends_per_anchor_total: "\<exists>ss. spends_per_anchor from d = Some ss \<and> length ss = length (sd_spends d)"
  by (cases "sd_transfers d")
    (simp_all add: spends_per_anchor_def sd_spends_def sd_shared_anchor_def those_map_Some)

lemma sapling_spends_total: "sapling_spends_per_anchor tx \<noteq> None"
  using spends_per_anchor_total [of spend_same_anchor] spends_per_anchor_total [of spend_with_anchor]
  by (cases tx rule: sapling_spends_per_anchor.cases) (auto dest: spec)

end
