(* ===== verification/TxCodec.thy ===== *)
theory TxCodec
  imports Codec TxData
begin

text \<open>
  Reading and writing the parts of a transaction: \<open>transparent/serialize.rs\<close>,
  \<open>transaction/lock_time.rs\<close>, \<open>sprout/joinsplit.rs\<close>, \<open>sapling/spend.rs\<close>,
  \<open>sapling/output.rs\<close>, \<open>orchard/action.rs\<close>, \<open>orchard/shielded_data.rs\<close> and the
  key, commitment, root and proof types they are made of. Each type gets its reader, its writer,
  the validity its reader establishes, and an interpretation of \<open>codec\<close>.

  The curve and script libraries are not part of this repository. What the code asks them is the
  record \<open>crypto\<close>: whether a byte string decodes to a point, field element or key, whether a
  decoded point is the identity or of small order, how \<open>push_num\<close> encodes a number, and
  whether librustzcash reads a serialized transaction. A decoded element is kept as its bytes,
  its canonical encoding.
\<close>

record crypto =
  sapling_cv_ok :: "bytes \<Rightarrow> bool"
  sapling_cmu_ok :: "bytes \<Rightarrow> bool"
  jubjub_base_ok :: "bytes \<Rightarrow> bool"
  jubjub_affine_ok :: "bytes \<Rightarrow> bool"
  jubjub_small_order :: "bytes \<Rightarrow> bool"
  redjubjub_vk_ok :: "bytes \<Rightarrow> bool"
  pallas_base_ok :: "bytes \<Rightarrow> bool"
  pallas_affine_ok :: "bytes \<Rightarrow> bool"
  pallas_identity :: "bytes \<Rightarrow> bool"
  push_num :: "int \<Rightarrow> bytes"
  lrz_branch_ok :: "u32 \<Rightarrow> bool"
  lrz_read :: "bytes \<Rightarrow> u32 \<Rightarrow> string option"

section \<open>Amounts, scripts, lock times\<close>

definition write_amount :: "int writer" where
  "write_amount v = write_i64 v"

definition read_amount :: "int parser" where
  "read_amount = pbind read_i64 (\<lambda>v. plift (map_err AmountError (try_from_i64 NegativeAllowed v)))"

definition write_amount_nn :: "int writer" where
  "write_amount_nn v =
     (if v < 0 then Err (WritePanic ''constraint guarantees value is positive'')
      else write_u64 (word_of_int v))"

definition read_amount_nn :: "int parser" where
  "read_amount_nn =
     pbind read_u64 (\<lambda>u. plift (map_err AmountError (try_from_u64 NonNegative (uint u))))"

interpretation codec_amount: codec write_amount read_amount "valid_amount NegativeAllowed"
proof unfold_locales
  fix v assume v: "valid_amount NegativeAllowed v"
  with codec_i64.written [OF valid_amount_i64 [OF v]]
  show "\<exists>b. write_amount v = Ok b \<and> (\<forall>rest. read_amount (b @ rest) = Ok (v, rest))"
    by (auto simp: write_amount_def read_amount_def try_from_i64_def validate_cases plift_def
        simp del: valid_amount_simps)
next
  fix bs rest v assume "read_amount bs = Ok (v, rest)"
  then have "read_i64 bs = Ok (v, rest)" "valid_amount NegativeAllowed v"
    by (auto simp: read_amount_def pbind_Ok_iff try_from_i64_def simp del: valid_amount_simps)
  with codec_i64.read
  show "valid_amount NegativeAllowed v \<and> (\<exists>b. write_amount v = Ok b \<and> bs = b @ rest)"
    by (auto simp: write_amount_def)
qed

interpretation codec_amount_nn: codec write_amount_nn read_amount_nn "valid_amount NonNegative"
proof unfold_locales
  fix v assume v: "valid_amount NonNegative v"
  then have "uint (word_of_int v :: u64) = v" "in_i64 v"
    by (auto simp: unsigned_of_int take_bit_int_eq_self money int_ranges)
  with v codec_u64.written [of "word_of_int v"]
  show "\<exists>b. write_amount_nn v = Ok b \<and> (\<forall>rest. read_amount_nn (b @ rest) = Ok (v, rest))"
    by (auto simp: write_amount_nn_def read_amount_nn_def try_from_u64_def validate_cases plift_def)
next
  fix bs rest v assume "read_amount_nn bs = Ok (v, rest)"
  then obtain u where u: "read_u64 bs = Ok (u, rest)" "v = uint u" "valid_amount NonNegative v"
    by (auto simp: read_amount_nn_def pbind_Ok_iff try_from_u64_def split: if_splits)
  with codec_u64.read [OF u(1)]
  show "valid_amount NonNegative v \<and> (\<exists>b. write_amount_nn v = Ok b \<and> bs = b @ rest)"
    by (auto simp: write_amount_nn_def)
qed

definition write_script :: "bytes writer" where "write_script s = write_bytes s"
definition read_script :: "bytes parser" where "read_script = read_bytes_vec"

interpretation codec_script: codec write_script read_script "\<lambda>s. length s \<le> MAX_U8_ALLOCATION"
  using codec_byte_vec.codec_axioms by (simp add: write_script_def [abs_def] read_script_def)

fun write_lock_time :: "lock_time writer" where
  "write_lock_time (LockHeight h) = write_u32 (height_u32 h)"
| "write_lock_time (LockTime t) =
     (case u32_try_from t of Some n \<Rightarrow> write_u32 n | None \<Rightarrow> Err (WritePanic ''time is in range''))"

definition read_lock_time :: "lock_time parser" where
  "read_lock_time = pbind read_u32 (\<lambda>n.
     preturn (if n < word_of_int LOCK_MIN_TIMESTAMP then LockHeight (Height n) else LockTime (uint n)))"

fun valid_lock_time :: "lock_time \<Rightarrow> bool" where
  "valid_lock_time (LockHeight h) = (uint (height_u32 h) < LOCK_MIN_TIMESTAMP)"
| "valid_lock_time (LockTime t) = (LOCK_MIN_TIMESTAMP \<le> t \<and> t < 2 ^ 32)"

lemma lock_min_less: "(n :: u32) < word_of_int LOCK_MIN_TIMESTAMP \<longleftrightarrow> uint n < LOCK_MIN_TIMESTAMP"
  by (simp add: word_less_def LOCK_MIN_TIMESTAMP_def)

interpretation codec_lock_time: codec write_lock_time read_lock_time valid_lock_time
proof unfold_locales
  fix t assume t: "valid_lock_time t"
  show "\<exists>b. write_lock_time t = Ok b \<and> (\<forall>rest. read_lock_time (b @ rest) = Ok (t, rest))"
  proof (cases t)
    case (LockHeight h)
    with t codec_u32.written [of "height_u32 h"] show ?thesis
      by (auto simp: read_lock_time_def lock_min_less)
  next
    case (LockTime n)
    then have n: "u32_try_from n = Some (word_of_int n)" "uint (word_of_int n :: u32) = n"
      using t by (auto simp: u32_try_from_def LOCK_MIN_TIMESTAMP_def unsigned_of_int take_bit_int_eq_self)
    with t LockTime codec_u32.written [of "word_of_int n"] show ?thesis
      by (auto simp: read_lock_time_def lock_min_less)
  qed
next
  fix bs rest t assume "read_lock_time bs = Ok (t, rest)"
  then obtain n where n: "read_u32 bs = Ok (n, rest)"
    "t = (if n < word_of_int LOCK_MIN_TIMESTAMP then LockHeight (Height n) else LockTime (uint n))"
    by (auto simp: read_lock_time_def pbind_Ok_iff)
  with codec_u32.read [OF n(1)] uint_u32_bounds [of n]
  show "valid_lock_time t \<and> (\<exists>b. write_lock_time t = Ok b \<and> bs = b @ rest)"
    by (auto simp: lock_min_less u32_try_from_def)
qed

section \<open>Keys, commitments, roots and proofs\<close>

definition sapling_cv_try :: "crypto \<Rightarrow> bytes \<Rightarrow> (ser_error, bytes) result" where
  "sapling_cv_try cr buf =
     (if sapling_cv_ok cr buf then Ok buf else Err (Parse ''invalid ValueCommitment bytes''))"

definition sapling_cmu_try :: "crypto \<Rightarrow> bytes \<Rightarrow> (ser_error, bytes) result" where
  "sapling_cmu_try cr buf =
     (if sapling_cmu_ok cr buf then Ok buf else Err (Parse ''invalid ExtractedNoteCommitment bytes''))"

definition sapling_root_try :: "crypto \<Rightarrow> bytes \<Rightarrow> (ser_error, bytes) result" where
  "sapling_root_try cr b =
     (if jubjub_base_ok cr b then Ok b
      else Err (Parse ''Invalid jubjub::Base value for Sapling note commitment tree root''))"

definition sapling_epk_try :: "crypto \<Rightarrow> bytes \<Rightarrow> (ser_error, bytes) result" where
  "sapling_epk_try cr b =
     (if \<not> jubjub_affine_ok cr b
      then Err (Parse ''Invalid jubjub::AffinePoint value for Sapling EphemeralPublicKey'')
      else if jubjub_small_order cr b
      then Err (Parse ''jubjub::AffinePoint value for Sapling EphemeralPublicKey point is of small order'')
      else Ok b)"

definition sapling_rk_try :: "crypto \<Rightarrow> bytes \<Rightarrow> (ser_error, bytes) result" where
  "sapling_rk_try cr b =
     (if \<not> redjubjub_vk_ok cr b
      then Err (Parse ''Invalid redjubjub::ValidatingKey for Sapling ValidatingKey'')
      else if jubjub_small_order cr b
      then Err (Parse ''jubjub::AffinePoint value for Sapling ValidatingKey is of small order'')
      else Ok b)"

definition orchard_cv_try :: "crypto \<Rightarrow> bytes \<Rightarrow> (ser_error, bytes) result" where
  "orchard_cv_try cr b =
     (if pallas_affine_ok cr b then Ok b else Err (Parse ''Invalid pallas::Affine value''))"

definition orchard_nullifier_try :: "crypto \<Rightarrow> bytes \<Rightarrow> (ser_error, bytes) result" where
  "orchard_nullifier_try cr b =
     (if pallas_base_ok cr b then Ok b
      else Err (Parse ''Invalid pallas::Base value for orchard Nullifier''))"

definition orchard_rk_try :: "bytes \<Rightarrow> (ser_error, bytes) result" where
  "orchard_rk_try b =
     (if b = replicate 32 0 then Err (Parse ''Orchard action rk must not be the identity point'')
      else Ok b)"

definition pallas_base_try :: "crypto \<Rightarrow> bytes \<Rightarrow> (ser_error, bytes) result" where
  "pallas_base_try cr b =
     (if pallas_base_ok cr b then Ok b
      else Err (Parse ''Invalid pallas::Base, input not canonical''))"

definition orchard_epk_try :: "crypto \<Rightarrow> bytes \<Rightarrow> (ser_error, bytes) result" where
  "orchard_epk_try cr b =
     (if pallas_affine_ok cr b
      then (if pallas_identity cr b
            then Err (Parse ''pallas::Affine value for Orchard EphemeralPublicKey is the identity'')
            else Ok b)
      else Err (Parse ''Invalid pallas::Affine value for Orchard EphemeralPublicKey''))"

definition orchard_root_try :: "crypto \<Rightarrow> bytes \<Rightarrow> (ser_error, bytes) result" where
  "orchard_root_try cr b =
     (if pallas_base_ok cr b then Ok b
      else Err (Parse ''Invalid pallas::Base value for Orchard note commitment tree root''))"

lemmas try_defs = sapling_cv_try_def sapling_cmu_try_def sapling_root_try_def sapling_epk_try_def
  sapling_rk_try_def orchard_cv_try_def orchard_nullifier_try_def orchard_rk_try_def
  pallas_base_try_def orchard_epk_try_def orchard_root_try_def

definition read_sapling_cv :: "crypto \<Rightarrow> bytes parser" where
  "read_sapling_cv cr = pbind (read_exact 32) (\<lambda>b. plift (sapling_cv_try cr b))"
definition read_sapling_cmu :: "crypto \<Rightarrow> bytes parser" where
  "read_sapling_cmu cr = pbind (read_exact 32) (\<lambda>b. plift (sapling_cmu_try cr b))"
definition read_sapling_root :: "crypto \<Rightarrow> bytes parser" where
  "read_sapling_root cr = pbind read_32_bytes (\<lambda>b. plift (sapling_root_try cr b))"
definition read_sapling_epk :: "crypto \<Rightarrow> bytes parser" where
  "read_sapling_epk cr = pbind read_32_bytes (\<lambda>b. plift (sapling_epk_try cr b))"
definition read_sapling_rk :: "crypto \<Rightarrow> bytes parser" where
  "read_sapling_rk cr = pbind read_32_bytes (\<lambda>b. plift (sapling_rk_try cr b))"
definition read_orchard_cv :: "crypto \<Rightarrow> bytes parser" where
  "read_orchard_cv cr = pbind read_32_bytes (\<lambda>b. plift (orchard_cv_try cr b))"
definition read_orchard_nullifier :: "crypto \<Rightarrow> bytes parser" where
  "read_orchard_nullifier cr = pbind read_32_bytes (\<lambda>b. plift (orchard_nullifier_try cr b))"
definition read_orchard_rk :: "bytes parser" where
  "read_orchard_rk = pbind read_32_bytes (\<lambda>b. plift (orchard_rk_try b))"
definition read_pallas_base :: "crypto \<Rightarrow> bytes parser" where
  "read_pallas_base cr = pbind read_32_bytes (\<lambda>b. plift (pallas_base_try cr b))"
definition read_orchard_epk :: "crypto \<Rightarrow> bytes parser" where
  "read_orchard_epk cr = pbind read_32_bytes (\<lambda>b. plift (orchard_epk_try cr b))"
definition read_orchard_root :: "crypto \<Rightarrow> bytes parser" where
  "read_orchard_root cr = pbind read_32_bytes (\<lambda>b. plift (orchard_root_try cr b))"

definition is_ok32 :: "(bytes \<Rightarrow> (ser_error, bytes) result) \<Rightarrow> bytes \<Rightarrow> bool" where
  "is_ok32 conv x \<longleftrightarrow> length x = 32 \<and> conv x = Ok x"

lemma codec_try:
  assumes "\<And>b x. conv b = Ok x \<Longrightarrow> x = b"
  shows "codec write_all (pbind (read_exact 32) (\<lambda>b. plift (conv b))) (is_ok32 conv)"
proof -
  have "conv b = Ok x \<longleftrightarrow> x = b \<and> conv b = Ok b" for b x using assms by metis
  from codec_checked [of conv "\<lambda>b. conv b = Ok b", OF this] show ?thesis
    by (simp add: is_ok32_def [abs_def])
qed

lemmas read_try_defs = read_sapling_cv_def read_sapling_cmu_def read_sapling_root_def
  read_sapling_epk_def read_sapling_rk_def read_orchard_cv_def read_orchard_nullifier_def
  read_orchard_rk_def read_pallas_base_def read_orchard_epk_def read_orchard_root_def
  read_32_bytes_def

interpretation codec_sapling_cv: codec write_all "read_sapling_cv cr" "is_ok32 (sapling_cv_try cr)" for cr
  unfolding read_try_defs by (rule codec_try) (auto simp: try_defs split: if_splits)
interpretation codec_sapling_cmu: codec write_all "read_sapling_cmu cr" "is_ok32 (sapling_cmu_try cr)" for cr
  unfolding read_try_defs by (rule codec_try) (auto simp: try_defs split: if_splits)
interpretation codec_sapling_root: codec write_all "read_sapling_root cr" "is_ok32 (sapling_root_try cr)" for cr
  unfolding read_try_defs by (rule codec_try) (auto simp: try_defs split: if_splits)
interpretation codec_sapling_epk: codec write_all "read_sapling_epk cr" "is_ok32 (sapling_epk_try cr)" for cr
  unfolding read_try_defs by (rule codec_try) (auto simp: try_defs split: if_splits)
interpretation codec_sapling_rk: codec write_all "read_sapling_rk cr" "is_ok32 (sapling_rk_try cr)" for cr
  unfolding read_try_defs by (rule codec_try) (auto simp: try_defs split: if_splits)
interpretation codec_orchard_cv: codec write_all "read_orchard_cv cr" "is_ok32 (orchard_cv_try cr)" for cr
  unfolding read_try_defs by (rule codec_try) (auto simp: try_defs split: if_splits)
interpretation codec_orchard_nullifier: codec write_all "read_orchard_nullifier cr"
  "is_ok32 (orchard_nullifier_try cr)" for cr
  unfolding read_try_defs by (rule codec_try) (auto simp: try_defs split: if_splits)
interpretation codec_orchard_rk: codec write_all read_orchard_rk "is_ok32 orchard_rk_try"
  unfolding read_try_defs by (rule codec_try) (auto simp: try_defs split: if_splits)
interpretation codec_pallas_base: codec write_all "read_pallas_base cr" "is_ok32 (pallas_base_try cr)" for cr
  unfolding read_try_defs by (rule codec_try) (auto simp: try_defs split: if_splits)
interpretation codec_orchard_epk: codec write_all "read_orchard_epk cr" "is_ok32 (orchard_epk_try cr)" for cr
  unfolding read_try_defs by (rule codec_try) (auto simp: try_defs split: if_splits)
interpretation codec_orchard_root: codec write_all "read_orchard_root cr" "is_ok32 (orchard_root_try cr)" for cr
  unfolding read_try_defs by (rule codec_try) (auto simp: try_defs split: if_splits)

end
