(* ===== verification/TxTransparent.thy ===== *)
theory TxTransparent
  imports TxCodec
begin

text \<open>
  Transparent inputs and outputs, \<open>transparent/serialize.rs\<close>: the coinbase input carries its
  block height as a script push (BIP 34), which the reader extracts and the writer rebuilds.
\<close>

section \<open>Coinbase heights\<close>

definition GENESIS_COINBASE_SCRIPT_SIG :: bytes where
  "GENESIS_COINBASE_SCRIPT_SIG =
     [4, 255, 255, 7, 31, 1, 4, 69, 90, 99, 97, 115, 104, 48, 98, 57, 99, 52, 101, 101, 102, 56, 98,
      55, 99, 99, 52, 49, 55, 101, 101, 53, 48, 48, 49, 101, 51, 53, 48, 48, 57, 56, 52, 98, 54, 102,
      101, 97, 51, 53, 54, 56, 51, 97, 55, 99, 97, 99, 49, 52, 49, 97, 48, 52, 51, 99, 52, 50, 48,
      54, 52, 56, 51, 53, 100, 51, 52]"

definition MIN_COINBASE_SCRIPT_LEN :: nat where "MIN_COINBASE_SCRIPT_LEN = 2"
definition MAX_COINBASE_SCRIPT_LEN :: nat where "MAX_COINBASE_SCRIPT_LEN = 100"

text \<open>The candidate height the first byte points at, and how many bytes encode it.\<close>

definition coinbase_candidate :: "bytes \<Rightarrow> (ser_error, int \<times> nat) result" where
  "coinbase_candidate script_sig =
     (case script_sig of
        [] \<Rightarrow> Err (Parse ''Empty coinbase script'')
      | b # _ \<Rightarrow>
          if 0x51 \<le> b \<and> b \<le> 0x60 then Ok (int (unat b) - 0x50, 1)
          else if 1 \<le> b \<and> b \<le> 5 then
            (if length script_sig < 1 + unat b then Err (Parse ''Coinbase height push truncated'')
             else
               let bs = slice 1 (1 + unat b) script_sig;
                   buf = bs @ replicate (8 - length bs) 0
               in Ok (i64_of_bytes buf, 1 + length bs))
          else Err (Parse ''Invalid coinbase script prefix''))"

definition parse_coinbase_height :: "crypto \<Rightarrow> bytes \<Rightarrow> (ser_error, height \<times> bytes) result" where
  "parse_coinbase_height cr script_sig =
     result_bind (coinbase_candidate script_sig) (\<lambda>(h, len).
       if length script_sig < len then Err (Parse ''Coinbase script too short'')
       else if take len script_sig \<noteq> push_num cr h
       then Err (Parse ''Non-canonical coinbase height encoding'')
       else case u32_try_from h of
           None \<Rightarrow> Err (Parse ''Negative coinbase height'')
         | Some u \<Rightarrow>
             (case height_try_from_u32 u of
                Err _ \<Rightarrow> Err (Parse ''Coinbase height exceeds Height::MAX'')
              | Ok height \<Rightarrow> Ok (height, drop len script_sig)))"

fun coinbase_script :: "crypto \<Rightarrow> tx_input \<Rightarrow> bytes option" where
  "coinbase_script cr (PrevOut _ _ _) = None"
| "coinbase_script cr (Coinbase height data _) =
     (if height_is_min height then
        (if data = GENESIS_COINBASE_SCRIPT_SIG then Some GENESIS_COINBASE_SCRIPT_SIG else None)
      else Some (push_num cr (uint (height_u32 height)) @ data))"

text \<open>
  What the code relies on from \<open>push_num\<close>, as its documentation in \<open>transparent/serialize.rs\<close>
  gives it: zero is \<open>OP_0\<close>, 1 to 16 are one opcode, a larger height is pushed as its minimal
  little-endian bytes with room for a sign bit.
\<close>

fun script_num :: "nat \<Rightarrow> bytes" where
  "script_num n = (if n < 128 then [word_of_nat n] else word_of_nat (n mod 256) # script_num (n div 256))"

declare script_num.simps [simp del]

definition bip34_height :: "nat \<Rightarrow> bytes" where
  "bip34_height h =
     (if h = 0 then [0] else if h \<le> 16 then [word_of_nat (0x50 + h)]
      else word_of_nat (length (script_num h)) # script_num h)"

definition push_num_bip34 :: "crypto \<Rightarrow> bool" where
  "push_num_bip34 cr \<longleftrightarrow> (\<forall>h. 0 \<le> h \<and> h < 2 ^ 31 \<longrightarrow> push_num cr h = bip34_height (nat h))"

lemma nat_of_le_script_num: "nat_of_le (script_num n) = n"
proof (induction n rule: script_num.induct)
  case (1 n)
  then show ?case
    by (subst script_num.simps) (auto simp: unat_of_nat)
qed

lemma length_script_num:
  "0 < k \<Longrightarrow> n < 128 * 256 ^ (k - 1) \<Longrightarrow> 1 \<le> length (script_num n) \<and> length (script_num n) \<le> k"
proof (induction n arbitrary: k rule: script_num.induct)
  case (1 n)
  show ?case
  proof (cases "n < 128")
    case True
    with 1(2) show ?thesis by (subst (1 2) script_num.simps) simp
  next
    case False
    then obtain k' where k: "k = Suc (Suc k')"
      using 1(2,3) by (cases k; cases "k - 1") auto
    have "n div 256 < 128 * 256 ^ k'" using 1(3) k by (simp add: less_mult_imp_div_less mult.assoc)
    with 1(1) [OF False, of "Suc k'"] k False show ?thesis
      by (subst (1 2) script_num.simps) simp
  qed
qed

lemma i64_of_padded:
  assumes "length bs \<le> 7"
  shows "i64_of_bytes (bs @ replicate (8 - length bs) 0) = int (nat_of_le bs)"
proof -
  have zeros: "nat_of_le (bs @ replicate k 0) = nat_of_le bs" for k
    by (induction bs) (simp_all add: nat_of_le_def [of "replicate k 0"])
  have "nat_of_le bs < 256 ^ length bs" by (rule nat_of_le_bound)
  also have "(256::nat) ^ length bs \<le> 256 ^ 7" using assms by (intro power_increasing) simp_all
  finally have "int (nat_of_le bs) < 2 ^ 63" by simp
  then show ?thesis by (simp add: i64_of_bytes_def Let_def zeros)
qed

lemma parse_bip34:
  assumes h: "0 < h" "h < 2 ^ 31" and bip: "push_num_bip34 cr"
  shows "parse_coinbase_height cr (bip34_height h @ data) = Ok (Height (word_of_nat h), data)"
proof -
  have push: "push_num cr (int h) = bip34_height h" using bip h by (simp add: push_num_bip34_def)
  have cand: "coinbase_candidate (bip34_height h @ data) = Ok (int h, length (bip34_height h))"
  proof (cases "h \<le> 16")
    case True
    then have "unat (word_of_nat (0x50 + h) :: byte) = 0x50 + h" by (simp only: unat_of_nat) simp
    with True h show ?thesis
      by (simp add: coinbase_candidate_def bip34_height_def word_le_nat_alt del: of_nat_add)
  next
    case False
    let ?n = "length (script_num h)"
    have n: "1 \<le> ?n" "?n \<le> 4" using length_script_num [of 4 h] h by simp_all
    then have u: "unat (word_of_nat ?n :: byte) = ?n" by (simp add: unat_of_nat)
    have sl: "slice 1 (1 + ?n) (word_of_nat ?n # script_num h @ data) = script_num h"
      by (simp add: slice_def)
    have "i64_of_bytes (script_num h @ replicate (8 - ?n) 0) = int h"
      using i64_of_padded [of "script_num h"] n by (simp add: nat_of_le_script_num)
    with False n u sl show ?thesis
      by (simp add: coinbase_candidate_def bip34_height_def word_le_nat_alt Let_def)
  qed
  have "u32_try_from (int h) = Some (word_of_nat h)"
    using h by (simp add: u32_try_from_def)
  moreover have "height_try_from_u32 (word_of_nat h) = Ok (Height (word_of_nat h))"
    using h by (simp add: height_try_from_u32_def height_le_max_iff uint_nat unat_of_nat)
  ultimately show ?thesis by (simp add: parse_coinbase_height_def cand push)
qed

lemma parse_coinbase_height_Ok:
  assumes ok: "parse_coinbase_height cr s = Ok (h, data)" and bip: "push_num_bip34 cr"
  shows "0 < uint (height_u32 h) \<and> uint (height_u32 h) < 2 ^ 31 \<and>
    s = push_num cr (uint (height_u32 h)) @ data"
proof -
  from ok obtain c len u where c: "coinbase_candidate s = Ok (c, len)" "len \<le> length s"
    "take len s = push_num cr c" "u32_try_from c = Some u" "height_try_from_u32 u = Ok h"
    "data = drop len s"
    by (auto simp: parse_coinbase_height_def result_bind_Ok_iff split: if_splits option.splits sum.splits)
  have u: "h = Height u" "uint u < 2 ^ 31"
    using c(5) by (auto simp: height_try_from_u32_def height_le_max_iff split: if_splits)
  have cu: "c = uint u" "0 \<le> c"
    using c(4) by (auto simp: u32_try_from_def unsigned_of_int take_bit_int_eq_self split: if_splits)
  have "c \<noteq> 0"
  proof
    assume "c = 0"
    with bip have "push_num cr c = [0]" by (simp add: push_num_bip34_def bip34_height_def)
    with c(1,3) show False
      by (auto simp: coinbase_candidate_def Let_def take_Cons' split: list.splits if_splits)
  qed
  then have "0 < uint u" using cu by linarith
  moreover have "s = push_num cr c @ data" using c(3,6) by (metis append_take_drop_id)
  ultimately show ?thesis using u cu by simp
qed

section \<open>Inputs and outputs\<close>

definition write_outpoint :: "outpoint writer" where
  "write_outpoint p = write_seq [write_all (op_hash p), write_u32 (op_index p)]"

definition read_outpoint :: "outpoint parser" where
  "read_outpoint = pbind read_32_bytes (\<lambda>h. pbind read_u32 (\<lambda>i. preturn \<lparr>op_hash = h, op_index = i\<rparr>))"

fun write_input :: "crypto \<Rightarrow> tx_input writer" where
  "write_input cr (PrevOut out us sequence) =
     write_seq [write_outpoint out, write_script us, write_u32 sequence]"
| "write_input cr (Coinbase height data sequence) =
     write_seq
       [write_all (replicate 32 0), write_u32 0xffffffff,
        (case coinbase_script cr (Coinbase height data sequence) of
           None \<Rightarrow> Err (WriteIo ''invalid coinbase script sig'')
         | Some s \<Rightarrow> write_bytes s),
        write_u32 sequence]"

definition read_coinbase_script :: "bytes parser" where
  "read_coinbase_script = pbind read_csm (\<lambda>len.
     if unat len < MIN_COINBASE_SCRIPT_LEN then pfail (Parse ''Coinbase script is too short'')
     else if unat len > MAX_COINBASE_SCRIPT_LEN then pfail (Parse ''Coinbase script is too long'')
     else read_bytes_external_count (unat len))"

definition read_input :: "crypto \<Rightarrow> tx_input parser" where
  "read_input cr = pbind read_32_bytes (\<lambda>h.
     if h = replicate 32 0 then
       pbind read_u32 (\<lambda>index.
         if index \<noteq> 0xffffffff then pfail (Parse ''Wrong index in coinbase'')
         else pbind read_coinbase_script (\<lambda>script_sig.
           pbind (plift (if script_sig = GENESIS_COINBASE_SCRIPT_SIG
                         then Ok (HEIGHT_MIN, GENESIS_COINBASE_SCRIPT_SIG)
                         else parse_coinbase_height cr script_sig)) (\<lambda>(height, data).
             pbind read_u32 (\<lambda>sequence. preturn (Coinbase height data sequence)))))
     else
       pbind read_u32 (\<lambda>index.
         pbind read_script (\<lambda>us.
           pbind read_u32 (\<lambda>sequence.
             preturn (PrevOut \<lparr>op_hash = h, op_index = index\<rparr> us sequence)))))"

definition write_output :: "tx_output writer" where
  "write_output o' = write_seq [write_amount_nn (out_value o'), write_script (lock_script o')]"

definition read_output :: "tx_output parser" where
  "read_output = pbind read_amount_nn (\<lambda>v. pbind read_script (\<lambda>s.
     preturn \<lparr>out_value = v, lock_script = s\<rparr>))"

text \<open>
  The inputs the reader can produce. A coinbase whose script happens to be the genesis script is
  the genesis coinbase, whatever its height would be.
\<close>

fun valid_input :: "crypto \<Rightarrow> tx_input \<Rightarrow> bool" where
  "valid_input cr (PrevOut out us _) =
     (length (op_hash out) = 32 \<and> op_hash out \<noteq> replicate 32 0 \<and> length us \<le> MAX_U8_ALLOCATION)"
| "valid_input cr (Coinbase height data _) =
     (if height_is_min height then data = GENESIS_COINBASE_SCRIPT_SIG
      else let s = push_num cr (uint (height_u32 height)) @ data
           in uint (height_u32 height) < 2 ^ 31 \<and> s \<noteq> GENESIS_COINBASE_SCRIPT_SIG \<and>
              MIN_COINBASE_SCRIPT_LEN \<le> length s \<and> length s \<le> MAX_COINBASE_SCRIPT_LEN)"

definition valid_output :: "tx_output \<Rightarrow> bool" where
  "valid_output o' \<longleftrightarrow> valid_amount NonNegative (out_value o') \<and> length (lock_script o') \<le> MAX_U8_ALLOCATION"

interpretation codec_outpoint: codec write_outpoint read_outpoint "\<lambda>p. length (op_hash p) = 32"
proof unfold_locales
  fix p :: outpoint assume "length (op_hash p) = 32"
  with codec_bytes.written [of "op_hash p" 32] codec_u32.written [of "op_index p"]
  show "\<exists>b. write_outpoint p = Ok b \<and> (\<forall>rest. read_outpoint (b @ rest) = Ok (p, rest))"
    by (auto simp: write_outpoint_def read_outpoint_def read_32_bytes_def)
next
  fix bs rest p assume "read_outpoint bs = Ok (p, rest)"
  then show "length (op_hash p) = 32 \<and> (\<exists>b. write_outpoint p = Ok b \<and> bs = b @ rest)"
    by (auto simp: read_outpoint_def read_32_bytes_def pbind_Ok_iff write_outpoint_def
        dest!: codec_bytes.read codec_u32.read)
qed

interpretation codec_output: codec write_output read_output valid_output
proof unfold_locales
  fix x assume "valid_output x"
  with codec_amount_nn.written [of "out_value x"] codec_script.written [of "lock_script x"]
  show "\<exists>b. write_output x = Ok b \<and> (\<forall>rest. read_output (b @ rest) = Ok (x, rest))"
    by (auto simp: write_output_def read_output_def valid_output_def simp del: valid_amount_simps)
next
  fix bs rest x assume "read_output bs = Ok (x, rest)"
  then show "valid_output x \<and> (\<exists>b. write_output x = Ok b \<and> bs = b @ rest)"
    by (auto simp: read_output_def pbind_Ok_iff write_output_def valid_output_def
        simp del: valid_amount_simps dest!: codec_amount_nn.read codec_script.read)
qed

lemma codec_coinbase_script:
  "codec write_bytes read_coinbase_script
     (\<lambda>s. MIN_COINBASE_SCRIPT_LEN \<le> length s \<and> length s \<le> MAX_COINBASE_SCRIPT_LEN)"
proof
  fix s :: bytes assume s: "MIN_COINBASE_SCRIPT_LEN \<le> length s \<and> length s \<le> MAX_COINBASE_SCRIPT_LEN"
  then have b: "length s \<le> MAX_U8_ALLOCATION" and small: "length s < 2 ^ 32" "length s \<le> MAX_PROTOCOL_MESSAGE_LEN"
    by (simp_all add: MAX_COINBASE_SCRIPT_LEN_def MAX_U8_ALLOCATION_def MAX_PROTOCOL_MESSAGE_LEN_def)
  then have len: "csm_try_from (length s) = Ok (word_of_nat (length s))"
    "unat (word_of_nat (length s) :: u32) = length s"
    by (simp_all add: csm_try_from_def unat_of_nat)
  obtain c where "write_csm (word_of_nat (length s)) = Ok c"
    "\<forall>rest. read_csm (c @ rest) = Ok (word_of_nat (length s), rest)"
    using codec_csm.written [of "word_of_nat (length s)"] small len by auto
  with s b len show "\<exists>b. write_bytes s = Ok b \<and> (\<forall>rest. read_coinbase_script (b @ rest) = Ok (s, rest))"
    by (simp add: write_bytes_def read_coinbase_script_def read_bytes_external_count_def write_all_def
        read_exact_def)
next
  fix bs rest s assume "read_coinbase_script bs = Ok (s, rest)"
  then have "read_bytes_vec bs = Ok (s, rest)" and
    "MIN_COINBASE_SCRIPT_LEN \<le> length s \<and> length s \<le> MAX_COINBASE_SCRIPT_LEN"
    by (auto simp: read_coinbase_script_def read_bytes_vec_def pbind_Ok_iff
        read_bytes_external_count_def read_exact_Ok_iff split: if_splits)
  with codec_byte_vec.read
  show "(MIN_COINBASE_SCRIPT_LEN \<le> length s \<and> length s \<le> MAX_COINBASE_SCRIPT_LEN) \<and>
      (\<exists>b. write_bytes s = Ok b \<and> bs = b @ rest)" by blast
qed

lemma coinbase_written:
  assumes v: "valid_input cr (Coinbase h data sq)" and bip: "push_num_bip34 cr"
  shows "\<exists>s. coinbase_script cr (Coinbase h data sq) = Some s \<and>
    MIN_COINBASE_SCRIPT_LEN \<le> length s \<and> length s \<le> MAX_COINBASE_SCRIPT_LEN \<and>
    (if s = GENESIS_COINBASE_SCRIPT_SIG then h = HEIGHT_MIN \<and> data = GENESIS_COINBASE_SCRIPT_SIG
     else parse_coinbase_height cr s = Ok (h, data))"
proof (cases "height_is_min h")
  case True
  then show ?thesis
    using v by (simp add: height_is_min_def GENESIS_COINBASE_SCRIPT_SIG_def MIN_COINBASE_SCRIPT_LEN_def
        MAX_COINBASE_SCRIPT_LEN_def)
next
  case False
  let ?n = "unat (height_u32 h)"
  have u: "uint (height_u32 h) = int ?n" by (rule uint_nat)
  have "0 < ?n" using False
    by (cases h) (auto simp: height_is_min_def HEIGHT_MIN_def unat_gt_0)
  moreover have lt: "uint (height_u32 h) < 2147483648" using v False by (simp add: Let_def)
  then have "?n < 2147483648" using u by linarith
  moreover have "push_num cr (uint (height_u32 h)) = bip34_height ?n"
    using bip lt by (simp add: push_num_bip34_def)
  ultimately have "parse_coinbase_height cr (push_num cr (uint (height_u32 h)) @ data) = Ok (h, data)"
    using parse_bip34 [of ?n cr data] bip by simp
  with False v show ?thesis by (auto simp: Let_def)
qed

lemma codec_input:
  assumes bip: "push_num_bip34 cr"
  shows "codec (write_input cr) (read_input cr) (valid_input cr)"
proof
  fix i assume v: "valid_input cr i"
  show "\<exists>b. write_input cr i = Ok b \<and> (\<forall>rest. read_input cr (b @ rest) = Ok (i, rest))"
  proof (cases i)
    case (PrevOut out us sq)
    with v codec_bytes.written [of "op_hash out" 32] codec_u32.written [of "op_index out"]
      codec_script.written [of us] codec_u32.written [of sq]
    show ?thesis by (auto simp: read_input_def read_32_bytes_def write_outpoint_def)
  next
    case (Coinbase h data sq)
    with coinbase_written [of cr h data sq] v bip
    obtain s where s: "coinbase_script cr i = Some s"
      "MIN_COINBASE_SCRIPT_LEN \<le> length s \<and> length s \<le> MAX_COINBASE_SCRIPT_LEN"
      "if s = GENESIS_COINBASE_SCRIPT_SIG then h = HEIGHT_MIN \<and> data = GENESIS_COINBASE_SCRIPT_SIG
       else parse_coinbase_height cr s = Ok (h, data)" by auto
    from codec.written [OF codec_coinbase_script s(2)] s codec_bytes.written [of "replicate 32 0" 32]
      codec_u32.written [of "0xffffffff"] codec_u32.written [of sq]
    show ?thesis unfolding Coinbase
      by (auto simp: read_input_def read_32_bytes_def plift_def simp del: coinbase_script.simps split: if_splits)
  qed
next
  fix bs rest i assume rd: "read_input cr bs = Ok (i, rest)"
  then obtain h m where h: "read_exact 32 bs = Ok (h, m)" by (auto simp: read_input_def pbind_Ok_iff read_32_bytes_def)
  show "valid_input cr i \<and> (\<exists>b. write_input cr i = Ok b \<and> bs = b @ rest)"
  proof (cases "h = replicate 32 0")
    case False
    with rd h show ?thesis
      by (auto simp: read_input_def read_32_bytes_def pbind_Ok_iff write_outpoint_def
          dest!: codec_bytes.read codec_script.read codec_u32.read)
  next
    case True
    with rd h obtain m1 m2 s m3 ht data sq where
      c: "read_u32 m = Ok (0xffffffff, m1)" "read_coinbase_script m1 = Ok (s, m2)"
      "(if s = GENESIS_COINBASE_SCRIPT_SIG then Ok (HEIGHT_MIN, GENESIS_COINBASE_SCRIPT_SIG)
        else parse_coinbase_height cr s) = Ok (ht, data)"
      "read_u32 m2 = Ok (sq, rest)" "i = Coinbase ht data sq"
      by (auto simp: read_input_def read_32_bytes_def pbind_Ok_iff split: if_splits)
    from codec.read [OF codec_coinbase_script c(2)] have s: "MIN_COINBASE_SCRIPT_LEN \<le> length s"
      "length s \<le> MAX_COINBASE_SCRIPT_LEN" by auto
    have "coinbase_script cr i = Some s \<and> valid_input cr i"
    proof (cases "s = GENESIS_COINBASE_SCRIPT_SIG")
      case True
      with c(3,5) show ?thesis by (auto simp: height_is_min_def)
    next
      case False
      with c(3) have "parse_coinbase_height cr s = Ok (ht, data)" by simp
      from parse_coinbase_height_Ok [OF this bip] have
        p: "0 < uint (height_u32 ht)" "uint (height_u32 ht) < 2 ^ 31"
        "s = push_num cr (uint (height_u32 ht)) @ data" by auto
      then have "\<not> height_is_min ht" by (auto simp: height_is_min_def HEIGHT_MIN_def)
      with p False s c(5) show ?thesis by (auto simp: Let_def)
    qed
    with h True c codec.read [OF codec_coinbase_script c(2)] codec_u32.read [OF c(1)]
      codec_u32.read [OF c(4)] codec_bytes.read [OF h]
    show ?thesis by (auto simp del: coinbase_script.simps valid_input.simps)
  qed
qed

end
