(* ===== verification/TxShielded.thy ===== *)
theory TxShielded
  imports TxTransparent
begin

text \<open>
  Reading and writing the shielded parts of a transaction: Sprout JoinSplits, Sapling spends and
  outputs in their V4 and V5 forms, Orchard and Ironwood bundles. A \<open>max_allocation\<close> is the
  bound \<open>TrustedPreallocate\<close> gives the vector of that type.
\<close>

section \<open>Sizes and bounds\<close>

definition MAX_BLOCK_BYTES :: nat where "MAX_BLOCK_BYTES = 2000000"

definition JOINSPLIT_SIZE_WITHOUT_ZKPROOF :: nat where
  "JOINSPLIT_SIZE_WITHOUT_ZKPROOF = 8 + 8 + 32 + (32 * 2) + (32 * 2) + 32 + 32 + (32 * 2) + (601 * 2)"
definition BCTV14_PROOF_SIZE :: nat where "BCTV14_PROOF_SIZE = 296"
definition GROTH16_PROOF_SIZE :: nat where "GROTH16_PROOF_SIZE = 192"

text \<open>\<open>P\<close>'s size selects the JoinSplit type: 296 is \<open>Bctv14Proof\<close>, 192 is \<open>Groth16Proof\<close>.\<close>

definition joinsplit_max_allocation :: "nat \<Rightarrow> nat" where
  "joinsplit_max_allocation proof_size =
     (MAX_BLOCK_BYTES - 1) div (JOINSPLIT_SIZE_WITHOUT_ZKPROOF + proof_size)"

definition SHARED_ANCHOR_SPEND_PREFIX_SIZE :: nat where "SHARED_ANCHOR_SPEND_PREFIX_SIZE = 32 + 32 + 32"
definition SHARED_ANCHOR_SPEND_SIZE :: nat where
  "SHARED_ANCHOR_SPEND_SIZE = SHARED_ANCHOR_SPEND_PREFIX_SIZE + 192 + 64"
definition ANCHOR_PER_SPEND_SIZE :: nat where "ANCHOR_PER_SPEND_SIZE = SHARED_ANCHOR_SPEND_SIZE + 32"
definition OUTPUT_PREFIX_SIZE :: nat where "OUTPUT_PREFIX_SIZE = 32 + 32 + 32 + 580 + 80"
definition OUTPUT_SIZE :: nat where "OUTPUT_SIZE = OUTPUT_PREFIX_SIZE + 192"
definition ACTION_SIZE :: nat where "ACTION_SIZE = 5 * 32 + 580 + 80"
definition SPEND_AUTH_SIG_SIZE :: nat where "SPEND_AUTH_SIG_SIZE = 64"
definition AUTHORIZED_ACTION_SIZE :: nat where
  "AUTHORIZED_ACTION_SIZE = ACTION_SIZE + SPEND_AUTH_SIG_SIZE"

definition spend_v4_max_allocation :: nat where
  "spend_v4_max_allocation = (MAX_BLOCK_BYTES - 1) div ANCHOR_PER_SPEND_SIZE"
definition spend_prefix_max_allocation :: nat where
  "spend_prefix_max_allocation = (MAX_BLOCK_BYTES - 1) div SHARED_ANCHOR_SPEND_SIZE"
definition sapling_sig_max_allocation :: nat where
  "sapling_sig_max_allocation = spend_prefix_max_allocation"
definition output_v4_max_allocation :: nat where
  "output_v4_max_allocation = (MAX_BLOCK_BYTES - 1) div OUTPUT_SIZE"
definition output_prefix_max_allocation :: nat where
  "output_prefix_max_allocation = output_v4_max_allocation"
definition groth16_max_allocation :: nat where
  "groth16_max_allocation = max spend_prefix_max_allocation output_prefix_max_allocation"
definition action_max_allocation :: nat where
  "action_max_allocation = (MAX_BLOCK_BYTES - 1) div AUTHORIZED_ACTION_SIZE"
definition orchard_sig_max_allocation :: nat where
  "orchard_sig_max_allocation = action_max_allocation"

lemmas allocation_defs = MAX_BLOCK_BYTES_def JOINSPLIT_SIZE_WITHOUT_ZKPROOF_def
  joinsplit_max_allocation_def SHARED_ANCHOR_SPEND_PREFIX_SIZE_def SHARED_ANCHOR_SPEND_SIZE_def
  ANCHOR_PER_SPEND_SIZE_def OUTPUT_PREFIX_SIZE_def OUTPUT_SIZE_def ACTION_SIZE_def
  SPEND_AUTH_SIG_SIZE_def AUTHORIZED_ACTION_SIZE_def spend_v4_max_allocation_def
  spend_prefix_max_allocation_def sapling_sig_max_allocation_def output_v4_max_allocation_def
  output_prefix_max_allocation_def groth16_max_allocation_def action_max_allocation_def
  orchard_sig_max_allocation_def MAX_PROTOCOL_MESSAGE_LEN_def

lemma read_exact_append [simp]: "length x = n \<Longrightarrow> read_exact n (x @ r) = Ok (x, r)"
  by (simp add: read_exact_def)

lemma write_all_Ok [simp]: "write_all x = Ok b \<longleftrightarrow> b = x"
  by (auto simp: write_all_def)

lemma write_vec_Nil: "write_vec w [] = write_empty_list"
proof -
  obtain b where "write_csm 0 = Ok b" using codec_csm.written [of 0] by auto
  then show ?thesis
    by (simp add: write_vec_def csm_try_from_def write_empty_list_def write_external_count_def)
qed

section \<open>Sprout\<close>

definition write_joinsplit :: "joinsplit writer" where
  "write_joinsplit j = write_seq
     [write_amount_nn (vpub_old j), write_amount_nn (vpub_new j),
      write_all (js_anchor j), write_all (fst (js_nullifiers j)), write_all (snd (js_nullifiers j)),
      write_all (fst (js_commitments j)), write_all (snd (js_commitments j)),
      write_all (js_ephemeral_key j), write_all (js_random_seed j),
      write_all (fst (js_vmacs j)), write_all (snd (js_vmacs j)), write_all (js_zkproof j),
      write_all (fst (js_enc_ciphertexts j)), write_all (snd (js_enc_ciphertexts j))]"

definition read_joinsplit :: "nat \<Rightarrow> joinsplit parser" where
  "read_joinsplit proof_size =
     pbind read_amount_nn (\<lambda>vo. pbind read_amount_nn (\<lambda>vn. pbind read_32_bytes (\<lambda>anchor.
     pbind read_32_bytes (\<lambda>n1. pbind read_32_bytes (\<lambda>n2.
     pbind read_32_bytes (\<lambda>c1. pbind read_32_bytes (\<lambda>c2.
     pbind read_32_bytes (\<lambda>epk. pbind read_32_bytes (\<lambda>seed.
     pbind read_32_bytes (\<lambda>m1. pbind read_32_bytes (\<lambda>m2.
     pbind (read_exact proof_size) (\<lambda>zkproof.
     pbind (read_exact 601) (\<lambda>e1. pbind (read_exact 601) (\<lambda>e2.
     preturn \<lparr>vpub_old = vo, vpub_new = vn, js_anchor = anchor, js_nullifiers = (n1, n2),
       js_commitments = (c1, c2), js_ephemeral_key = epk, js_random_seed = seed,
       js_vmacs = (m1, m2), js_zkproof = zkproof, js_enc_ciphertexts = (e1, e2)\<rparr>))))))))))))))"

definition valid_joinsplit :: "nat \<Rightarrow> joinsplit \<Rightarrow> bool" where
  "valid_joinsplit proof_size j \<longleftrightarrow>
     valid_amount NonNegative (vpub_old j) \<and> valid_amount NonNegative (vpub_new j) \<and>
     length (js_anchor j) = 32 \<and> length (fst (js_nullifiers j)) = 32 \<and>
     length (snd (js_nullifiers j)) = 32 \<and> length (fst (js_commitments j)) = 32 \<and>
     length (snd (js_commitments j)) = 32 \<and> length (js_ephemeral_key j) = 32 \<and>
     length (js_random_seed j) = 32 \<and> length (fst (js_vmacs j)) = 32 \<and>
     length (snd (js_vmacs j)) = 32 \<and> length (js_zkproof j) = proof_size \<and>
     length (fst (js_enc_ciphertexts j)) = 601 \<and> length (snd (js_enc_ciphertexts j)) = 601"

interpretation codec_joinsplit: codec write_joinsplit "read_joinsplit p" "valid_joinsplit p" for p
proof unfold_locales
  fix j assume j: "valid_joinsplit p j"
  with codec_amount_nn.written [of "vpub_old j"] codec_amount_nn.written [of "vpub_new j"]
  show "\<exists>b. write_joinsplit j = Ok b \<and> (\<forall>rest. read_joinsplit p (b @ rest) = Ok (j, rest))"
    by (auto simp: write_joinsplit_def read_joinsplit_def valid_joinsplit_def read_32_bytes_def
        simp del: valid_amount_simps)
next
  fix bs rest j assume "read_joinsplit p bs = Ok (j, rest)"
  then show "valid_joinsplit p j \<and> (\<exists>b. write_joinsplit j = Ok b \<and> bs = b @ rest)"
    by (auto simp: write_joinsplit_def read_joinsplit_def valid_joinsplit_def read_32_bytes_def
        pbind_Ok_iff read_exact_Ok_iff simp del: valid_amount_simps dest!: codec_amount_nn.read)
qed

definition write_joinsplit_data :: "joinsplit_data writer" where
  "write_joinsplit_data d = write_seq
     [write_vec write_joinsplit (joinsplits d), write_all (js_pub_key d), write_all (js_sig d)]"

fun write_opt_joinsplit_data :: "joinsplit_data option writer" where
  "write_opt_joinsplit_data None = write_empty_list"
| "write_opt_joinsplit_data (Some d) = write_joinsplit_data d"

definition read_opt_joinsplit_data :: "nat \<Rightarrow> joinsplit_data option parser" where
  "read_opt_joinsplit_data proof_size =
     pbind (read_vec (joinsplit_max_allocation proof_size) (read_joinsplit proof_size)) (\<lambda>js.
       case js of
         [] \<Rightarrow> preturn None
       | f # r \<Rightarrow> pbind read_32_bytes (\<lambda>pub_key. pbind read_64_bytes (\<lambda>sig.
           preturn (Some \<lparr>js_first = f, js_rest = r, js_pub_key = pub_key, js_sig = sig\<rparr>))))"

definition valid_joinsplit_data :: "nat \<Rightarrow> joinsplit_data \<Rightarrow> bool" where
  "valid_joinsplit_data p d \<longleftrightarrow>
     length (joinsplits d) \<le> joinsplit_max_allocation p \<and>
     length (joinsplits d) \<le> MAX_PROTOCOL_MESSAGE_LEN \<and> list_all (valid_joinsplit p) (joinsplits d) \<and>
     length (js_pub_key d) = 32 \<and> length (js_sig d) = 64"

definition opt_all :: "('a \<Rightarrow> bool) \<Rightarrow> 'a option \<Rightarrow> bool" where
  "opt_all P x \<longleftrightarrow> (case x of None \<Rightarrow> True | Some y \<Rightarrow> P y)"

lemma opt_all_simps [simp]: "opt_all P None" "opt_all P (Some y) \<longleftrightarrow> P y"
  by (simp_all add: opt_all_def)

interpretation codec_joinsplits: codec "write_vec write_joinsplit"
  "read_vec (joinsplit_max_allocation p) (read_joinsplit p)"
  "\<lambda>js. length js \<le> joinsplit_max_allocation p \<and> length js \<le> MAX_PROTOCOL_MESSAGE_LEN \<and>
     list_all (valid_joinsplit p) js" for p
  by (rule codec_vec [OF codec_joinsplit.codec_axioms])

interpretation codec_opt_joinsplit_data: codec write_opt_joinsplit_data "read_opt_joinsplit_data p"
  "opt_all (valid_joinsplit_data p)" for p
proof unfold_locales
  fix d assume d: "opt_all (valid_joinsplit_data p) d"
  show "\<exists>b. write_opt_joinsplit_data d = Ok b \<and>
      (\<forall>rest. read_opt_joinsplit_data p (b @ rest) = Ok (d, rest))"
  proof (cases d)
    case None
    with codec_joinsplits.written [of "[]" p] show ?thesis
      by (auto simp: read_opt_joinsplit_data_def write_vec_Nil)
  next
    case (Some x)
    with d codec_joinsplits.written [of "joinsplits x" p] show ?thesis
      by (auto simp: read_opt_joinsplit_data_def valid_joinsplit_data_def write_joinsplit_data_def
          joinsplits_def read_32_bytes_def read_64_bytes_def)
  qed
next
  fix bs rest d assume a: "read_opt_joinsplit_data p bs = Ok (d, rest)"
  then obtain js m where js: "read_vec (joinsplit_max_allocation p) (read_joinsplit p) bs = Ok (js, m)"
    unfolding read_opt_joinsplit_data_def pbind_Ok_iff by blast
  from codec_joinsplits.read [OF js] a js
  show "opt_all (valid_joinsplit_data p) d \<and> (\<exists>b. write_opt_joinsplit_data d = Ok b \<and> bs = b @ rest)"
    by (cases js) (auto simp: read_opt_joinsplit_data_def pbind_Ok_iff read_32_bytes_def read_64_bytes_def
        read_exact_Ok_iff write_joinsplit_data_def valid_joinsplit_data_def joinsplits_def
        map_sum_Ok_iff write_vec_Nil [symmetric, of write_joinsplit])
qed

section \<open>Sapling, version 4\<close>

definition write_spend_v4 :: "bytes spend writer" where
  "write_spend_v4 s = write_seq
     [write_all (spend_cv s), write_all (per_spend_anchor s), write_all (spend_nullifier s),
      write_all (spend_rk s), write_all (spend_zkproof s), write_all (spend_auth_sig s)]"

definition read_spend_v4 :: "crypto \<Rightarrow> bytes spend parser" where
  "read_spend_v4 cr =
     pbind (read_sapling_cv cr) (\<lambda>cv. pbind (read_sapling_root cr) (\<lambda>anchor.
     pbind read_32_bytes (\<lambda>nullifier. pbind (read_sapling_rk cr) (\<lambda>rk.
     pbind (read_exact GROTH16_PROOF_SIZE) (\<lambda>zkproof. pbind read_64_bytes (\<lambda>sig.
     preturn \<lparr>spend_cv = cv, per_spend_anchor = anchor, spend_nullifier = nullifier,
       spend_rk = rk, spend_zkproof = zkproof, spend_auth_sig = sig\<rparr>))))))"

definition valid_spend_v4 :: "crypto \<Rightarrow> bytes spend \<Rightarrow> bool" where
  "valid_spend_v4 cr s \<longleftrightarrow>
     is_ok32 (sapling_cv_try cr) (spend_cv s) \<and> is_ok32 (sapling_root_try cr) (per_spend_anchor s) \<and>
     length (spend_nullifier s) = 32 \<and> is_ok32 (sapling_rk_try cr) (spend_rk s) \<and>
     length (spend_zkproof s) = GROTH16_PROOF_SIZE \<and> length (spend_auth_sig s) = 64"

interpretation codec_spend_v4: codec write_spend_v4 "read_spend_v4 cr" "valid_spend_v4 cr" for cr
proof unfold_locales
  fix s assume s: "valid_spend_v4 cr s"
  with codec_sapling_cv.written [of cr "spend_cv s"] codec_sapling_root.written [of cr "per_spend_anchor s"]
    codec_sapling_rk.written [of cr "spend_rk s"]
  show "\<exists>b. write_spend_v4 s = Ok b \<and> (\<forall>rest. read_spend_v4 cr (b @ rest) = Ok (s, rest))"
    by (auto simp: write_spend_v4_def read_spend_v4_def valid_spend_v4_def read_32_bytes_def read_64_bytes_def)
next
  fix bs rest s assume "read_spend_v4 cr bs = Ok (s, rest)"
  then show "valid_spend_v4 cr s \<and> (\<exists>b. write_spend_v4 s = Ok b \<and> bs = b @ rest)"
    by (auto simp: write_spend_v4_def read_spend_v4_def valid_spend_v4_def read_32_bytes_def
        read_64_bytes_def pbind_Ok_iff read_exact_Ok_iff
        dest!: codec_sapling_cv.read codec_sapling_root.read codec_sapling_rk.read)
qed

definition write_output_v4 :: "sapling_output writer" where
  "write_output_v4 x = write_seq
     [write_all (so_cv x), write_all (so_cm_u x), write_all (so_ephemeral_key x),
      write_all (so_enc_ciphertext x), write_all (so_out_ciphertext x), write_all (so_zkproof x)]"

definition read_output_v4 :: "crypto \<Rightarrow> sapling_output parser" where
  "read_output_v4 cr =
     pbind (read_sapling_cv cr) (\<lambda>cv. pbind (read_sapling_cmu cr) (\<lambda>cm_u.
     pbind (read_sapling_epk cr) (\<lambda>epk. pbind (read_exact 580) (\<lambda>enc. pbind (read_exact 80) (\<lambda>out.
     pbind (read_exact GROTH16_PROOF_SIZE) (\<lambda>zkproof.
     preturn \<lparr>so_cv = cv, so_cm_u = cm_u, so_ephemeral_key = epk, so_enc_ciphertext = enc,
       so_out_ciphertext = out, so_zkproof = zkproof\<rparr>))))))"

definition valid_output_prefix :: "crypto \<Rightarrow> sapling_output \<Rightarrow> bool" where
  "valid_output_prefix cr x \<longleftrightarrow>
     is_ok32 (sapling_cv_try cr) (so_cv x) \<and> is_ok32 (sapling_cmu_try cr) (so_cm_u x) \<and>
     is_ok32 (sapling_epk_try cr) (so_ephemeral_key x) \<and>
     length (so_enc_ciphertext x) = 580 \<and> length (so_out_ciphertext x) = 80"

definition valid_output_v4 :: "crypto \<Rightarrow> sapling_output \<Rightarrow> bool" where
  "valid_output_v4 cr x \<longleftrightarrow> valid_output_prefix cr x \<and> length (so_zkproof x) = GROTH16_PROOF_SIZE"

interpretation codec_output_v4: codec write_output_v4 "read_output_v4 cr" "valid_output_v4 cr" for cr
proof unfold_locales
  fix x assume x: "valid_output_v4 cr x"
  with codec_sapling_cv.written [of cr "so_cv x"] codec_sapling_cmu.written [of cr "so_cm_u x"]
    codec_sapling_epk.written [of cr "so_ephemeral_key x"]
  show "\<exists>b. write_output_v4 x = Ok b \<and> (\<forall>rest. read_output_v4 cr (b @ rest) = Ok (x, rest))"
    by (auto simp: write_output_v4_def read_output_v4_def valid_output_v4_def valid_output_prefix_def)
next
  fix bs rest x assume "read_output_v4 cr bs = Ok (x, rest)"
  then show "valid_output_v4 cr x \<and> (\<exists>b. write_output_v4 x = Ok b \<and> bs = b @ rest)"
    by (auto simp: write_output_v4_def read_output_v4_def valid_output_v4_def valid_output_prefix_def
        pbind_Ok_iff read_exact_Ok_iff
        dest!: codec_sapling_cv.read codec_sapling_cmu.read codec_sapling_epk.read)
qed

section \<open>Sapling, version 5\<close>

text \<open>The prefix arrays of a V5 bundle, and the proofs and signatures that follow them.\<close>

record spend_prefix =
  sp_cv :: bytes
  sp_nullifier :: bytes
  sp_rk :: bytes

record output_prefix =
  oup_cv :: bytes
  oup_cm_u :: bytes
  oup_ephemeral_key :: bytes
  oup_enc_ciphertext :: bytes
  oup_out_ciphertext :: bytes

definition spend_from_v5_parts :: "spend_prefix \<Rightarrow> bytes \<Rightarrow> bytes \<Rightarrow> unit spend" where
  "spend_from_v5_parts p zkproof sig =
     \<lparr>spend_cv = sp_cv p, per_spend_anchor = (), spend_nullifier = sp_nullifier p, spend_rk = sp_rk p,
      spend_zkproof = zkproof, spend_auth_sig = sig\<rparr>"

definition spend_into_v5_parts :: "unit spend \<Rightarrow> spend_prefix \<times> bytes \<times> bytes" where
  "spend_into_v5_parts s =
     (\<lparr>sp_cv = spend_cv s, sp_nullifier = spend_nullifier s, sp_rk = spend_rk s\<rparr>,
      spend_zkproof s, spend_auth_sig s)"

definition output_from_v5_parts :: "output_prefix \<Rightarrow> bytes \<Rightarrow> sapling_output" where
  "output_from_v5_parts p zkproof =
     \<lparr>so_cv = oup_cv p, so_cm_u = oup_cm_u p, so_ephemeral_key = oup_ephemeral_key p,
      so_enc_ciphertext = oup_enc_ciphertext p, so_out_ciphertext = oup_out_ciphertext p,
      so_zkproof = zkproof\<rparr>"

definition output_into_v5_parts :: "sapling_output \<Rightarrow> output_prefix \<times> bytes" where
  "output_into_v5_parts x =
     (\<lparr>oup_cv = so_cv x, oup_cm_u = so_cm_u x, oup_ephemeral_key = so_ephemeral_key x,
       oup_enc_ciphertext = so_enc_ciphertext x, oup_out_ciphertext = so_out_ciphertext x\<rparr>,
      so_zkproof x)"

definition write_spend_prefix :: "spend_prefix writer" where
  "write_spend_prefix p = write_seq [write_all (sp_cv p), write_all (sp_nullifier p), write_all (sp_rk p)]"

definition read_spend_prefix :: "crypto \<Rightarrow> spend_prefix parser" where
  "read_spend_prefix cr =
     pbind (read_sapling_cv cr) (\<lambda>cv. pbind read_32_bytes (\<lambda>nullifier. pbind (read_sapling_rk cr) (\<lambda>rk.
     preturn \<lparr>sp_cv = cv, sp_nullifier = nullifier, sp_rk = rk\<rparr>)))"

definition write_output_prefix :: "output_prefix writer" where
  "write_output_prefix p = write_seq
     [write_all (oup_cv p), write_all (oup_cm_u p), write_all (oup_ephemeral_key p),
      write_all (oup_enc_ciphertext p), write_all (oup_out_ciphertext p)]"

definition read_output_prefix :: "crypto \<Rightarrow> output_prefix parser" where
  "read_output_prefix cr =
     pbind (read_sapling_cv cr) (\<lambda>cv. pbind (read_sapling_cmu cr) (\<lambda>cm_u.
     pbind (read_sapling_epk cr) (\<lambda>epk. pbind (read_exact 580) (\<lambda>enc. pbind (read_exact 80) (\<lambda>out.
     preturn \<lparr>oup_cv = cv, oup_cm_u = cm_u, oup_ephemeral_key = epk, oup_enc_ciphertext = enc,
       oup_out_ciphertext = out\<rparr>)))))"

definition valid_spend_prefix :: "crypto \<Rightarrow> spend_prefix \<Rightarrow> bool" where
  "valid_spend_prefix cr p \<longleftrightarrow>
     is_ok32 (sapling_cv_try cr) (sp_cv p) \<and> length (sp_nullifier p) = 32 \<and>
     is_ok32 (sapling_rk_try cr) (sp_rk p)"

definition valid_oprefix :: "crypto \<Rightarrow> output_prefix \<Rightarrow> bool" where
  "valid_oprefix cr p \<longleftrightarrow>
     is_ok32 (sapling_cv_try cr) (oup_cv p) \<and> is_ok32 (sapling_cmu_try cr) (oup_cm_u p) \<and>
     is_ok32 (sapling_epk_try cr) (oup_ephemeral_key p) \<and>
     length (oup_enc_ciphertext p) = 580 \<and> length (oup_out_ciphertext p) = 80"

interpretation codec_spend_prefix: codec write_spend_prefix "read_spend_prefix cr" "valid_spend_prefix cr" for cr
proof unfold_locales
  fix p assume p: "valid_spend_prefix cr p"
  with codec_sapling_cv.written [of cr "sp_cv p"] codec_sapling_rk.written [of cr "sp_rk p"]
  show "\<exists>b. write_spend_prefix p = Ok b \<and> (\<forall>rest. read_spend_prefix cr (b @ rest) = Ok (p, rest))"
    by (auto simp: write_spend_prefix_def read_spend_prefix_def valid_spend_prefix_def read_32_bytes_def)
next
  fix bs rest p assume "read_spend_prefix cr bs = Ok (p, rest)"
  then show "valid_spend_prefix cr p \<and> (\<exists>b. write_spend_prefix p = Ok b \<and> bs = b @ rest)"
    by (auto simp: write_spend_prefix_def read_spend_prefix_def valid_spend_prefix_def read_32_bytes_def
        pbind_Ok_iff read_exact_Ok_iff dest!: codec_sapling_cv.read codec_sapling_rk.read)
qed

interpretation codec_output_prefix: codec write_output_prefix "read_output_prefix cr" "valid_oprefix cr" for cr
proof unfold_locales
  fix x assume x: "valid_oprefix cr x"
  with codec_sapling_cv.written [of cr "oup_cv x"] codec_sapling_cmu.written [of cr "oup_cm_u x"]
    codec_sapling_epk.written [of cr "oup_ephemeral_key x"]
  show "\<exists>b. write_output_prefix x = Ok b \<and> (\<forall>rest. read_output_prefix cr (b @ rest) = Ok (x, rest))"
    by (auto simp: write_output_prefix_def read_output_prefix_def valid_oprefix_def)
next
  fix bs rest x assume "read_output_prefix cr bs = Ok (x, rest)"
  then show "valid_oprefix cr x \<and> (\<exists>b. write_output_prefix x = Ok b \<and> bs = b @ rest)"
    by (auto simp: write_output_prefix_def read_output_prefix_def valid_oprefix_def
        pbind_Ok_iff read_exact_Ok_iff
        dest!: codec_sapling_cv.read codec_sapling_cmu.read codec_sapling_epk.read)
qed

text \<open>A count in front of a vector, refused when it is not zero although it has to be.\<close>

definition read_guarded_vec :: "bool \<Rightarrow> ser_error \<Rightarrow> nat \<Rightarrow> 'a parser \<Rightarrow> 'a list parser" where
  "read_guarded_vec forbidden e max_allocation p =
     pbind read_csm (\<lambda>len.
       if forbidden \<and> unat len > 0 then pfail e
       else read_external_count max_allocation p (unat len))"

lemma read_guarded_vec_False [simp]: "read_guarded_vec False e lim p = read_vec lim p"
  by (simp add: read_guarded_vec_def read_vec_def)

lemma read_vec_Nil_iff:
  assumes "codec w p v"
  shows "read_vec lim p bs = Ok ([], rest) \<longleftrightarrow> read_csm bs = Ok (0, rest)"
proof -
  have "read_external_count lim p n m = Ok ([], rest) \<longleftrightarrow> n = 0 \<and> m = rest" for n m
    using codec.read_iff [OF codec_external_count [OF assms], of lim n m "[]" rest]
    by (auto simp: write_external_count_def)
  moreover have "unat len = 0 \<longleftrightarrow> len = 0" for len :: u32 by (simp add: unat_eq_0)
  ultimately show ?thesis by (auto simp: read_vec_def pbind_Ok_iff)
qed

lemma read_guarded_vec_True:
  assumes "codec w p v"
  shows "read_guarded_vec True e lim p bs = Ok (xs, rest) \<longleftrightarrow> xs = [] \<and> read_csm bs = Ok (0, rest)"
proof -
  have "read_external_count lim p 0 m = Ok (xs, rest) \<longleftrightarrow> xs = [] \<and> m = rest" for m
    by (auto simp: read_external_count_def)
  moreover have "unat len = 0 \<longleftrightarrow> len = 0" for len :: u32 by (simp add: unat_eq_0)
  ultimately show ?thesis by (auto simp: read_guarded_vec_def pbind_Ok_iff split: if_splits)
qed

lemma read_guarded_vec_Ok:
  assumes "codec w p v"
  shows "read_guarded_vec g e lim p bs = Ok (xs, rest) \<longleftrightarrow> read_vec lim p bs = Ok (xs, rest) \<and> (g \<longrightarrow> xs = [])"
  using read_guarded_vec_True [OF assms, of e lim bs xs rest] read_vec_Nil_iff [OF assms, of lim bs rest]
  by (cases g) auto

lemma codec_guarded_vec:
  assumes "codec w p v"
  shows "codec (write_vec w) (read_guarded_vec g e lim p)
    (\<lambda>xs. (g \<longrightarrow> xs = []) \<and> length xs \<le> lim \<and> length xs \<le> MAX_PROTOCOL_MESSAGE_LEN \<and> list_all v xs)"
proof
  fix xs assume "(g \<longrightarrow> xs = []) \<and> length xs \<le> lim \<and> length xs \<le> MAX_PROTOCOL_MESSAGE_LEN \<and> list_all v xs"
  then show "\<exists>b. write_vec w xs = Ok b \<and> (\<forall>rest. read_guarded_vec g e lim p (b @ rest) = Ok (xs, rest))"
    using codec.written [OF codec_vec [OF assms, of lim], of xs] by (auto simp: read_guarded_vec_Ok [OF assms])
next
  fix bs rest xs assume "read_guarded_vec g e lim p bs = Ok (xs, rest)"
  then show "((g \<longrightarrow> xs = []) \<and> length xs \<le> lim \<and> length xs \<le> MAX_PROTOCOL_MESSAGE_LEN \<and> list_all v xs) \<and>
      (\<exists>b. write_vec w xs = Ok b \<and> bs = b @ rest)"
    using codec.read [OF codec_vec [OF assms, of lim], of bs xs rest] by (auto simp: read_guarded_vec_Ok [OF assms])
qed

text \<open>The parts zipped into spends and outputs, and taken apart again.\<close>

definition zip_spends :: "spend_prefix list \<Rightarrow> bytes list \<Rightarrow> bytes list \<Rightarrow> unit spend list" where
  "zip_spends prefixes proofs sigs =
     map (\<lambda>((prefix, proof), sig). spend_from_v5_parts prefix proof sig) (zip (zip prefixes proofs) sigs)"

definition zip_outputs :: "output_prefix list \<Rightarrow> bytes list \<Rightarrow> sapling_output list" where
  "zip_outputs prefixes proofs = map (\<lambda>(prefix, proof). output_from_v5_parts prefix proof) (zip prefixes proofs)"

definition spend_prefixes :: "unit spend list \<Rightarrow> spend_prefix list" where
  "spend_prefixes ss = map (\<lambda>s. fst (spend_into_v5_parts s)) ss"
definition spend_proofs :: "unit spend list \<Rightarrow> bytes list" where
  "spend_proofs ss = map (\<lambda>s. fst (snd (spend_into_v5_parts s))) ss"
definition spend_sigs :: "unit spend list \<Rightarrow> bytes list" where
  "spend_sigs ss = map (\<lambda>s. snd (snd (spend_into_v5_parts s))) ss"
definition output_prefixes :: "sapling_output list \<Rightarrow> output_prefix list" where
  "output_prefixes xs = map (\<lambda>x. fst (output_into_v5_parts x)) xs"
definition output_proofs :: "sapling_output list \<Rightarrow> bytes list" where
  "output_proofs xs = map (\<lambda>x. snd (output_into_v5_parts x)) xs"

lemmas zip_parts_defs = zip_spends_def zip_outputs_def spend_prefixes_def spend_proofs_def
  spend_sigs_def output_prefixes_def output_proofs_def

lemma length_parts [simp]:
  "length (spend_prefixes ss) = length ss" "length (spend_proofs ss) = length ss"
  "length (spend_sigs ss) = length ss" "length (output_prefixes xs) = length xs"
  "length (output_proofs xs) = length xs"
  by (simp_all add: zip_parts_defs)

lemma parts_Nil [simp]: "spend_prefixes ss = [] \<longleftrightarrow> ss = []" "output_prefixes xs = [] \<longleftrightarrow> xs = []"
  by (simp_all add: zip_parts_defs)

lemma parts_of_Nil [simp]: "spend_prefixes [] = []" "spend_proofs [] = []" "spend_sigs [] = []"
  by (simp_all add: zip_parts_defs)

lemma write_external_count_Nil [simp]: "write_external_count w [] = Ok []"
  by (simp add: write_external_count_def)

lemma zip_unzip [simp]:
  "zip_spends (spend_prefixes ss) (spend_proofs ss) (spend_sigs ss) = ss"
  "zip_outputs (output_prefixes xs) (output_proofs xs) = xs"
  by (induction ss, simp_all add: zip_parts_defs spend_into_v5_parts_def spend_from_v5_parts_def)
    (induction xs, simp_all add: zip_parts_defs output_into_v5_parts_def output_from_v5_parts_def)

lemma unzip_spends [simp]:
  assumes "length ps = length zs" "length zs = length ss"
  shows "spend_prefixes (zip_spends ps zs ss) = ps" "spend_proofs (zip_spends ps zs ss) = zs"
    "spend_sigs (zip_spends ps zs ss) = ss" "length (zip_spends ps zs ss) = length ps"
    "zip_spends ps zs ss = [] \<longleftrightarrow> ps = []"
  using assms by (induction ps zs ss rule: list_induct3)
    (simp_all add: zip_parts_defs spend_into_v5_parts_def spend_from_v5_parts_def)

lemma unzip_outputs [simp]:
  assumes "length ps = length zs"
  shows "output_prefixes (zip_outputs ps zs) = ps" "output_proofs (zip_outputs ps zs) = zs"
    "length (zip_outputs ps zs) = length ps" "zip_outputs ps zs = [] \<longleftrightarrow> ps = []"
  using assms by (induction ps zs rule: list_induct2)
    (simp_all add: zip_parts_defs output_into_v5_parts_def output_from_v5_parts_def)

definition write_sapling_v5 :: "sapling_v5 writer" where
  "write_sapling_v5 d = write_seq
     [write_vec write_spend_prefix (spend_prefixes (sd_spends d)),
      write_vec write_output_prefix (output_prefixes (sd_outputs d)),
      write_amount (sd_value_balance d),
      (case sd_shared_anchor d of Some a \<Rightarrow> write_all a | None \<Rightarrow> Ok []),
      write_external_count write_all (spend_proofs (sd_spends d)),
      write_external_count write_all (spend_sigs (sd_spends d)),
      write_external_count write_all (output_proofs (sd_outputs d)),
      write_all (sd_binding_sig d)]"

fun write_opt_sapling_v5 :: "sapling_v5 option writer" where
  "write_opt_sapling_v5 None = write_seq [write_empty_list, write_empty_list]"
| "write_opt_sapling_v5 (Some d) = write_sapling_v5 d"

definition deserialize_v5_sapling :: "crypto \<Rightarrow> bool \<Rightarrow> sapling_v5 option parser" where
  "deserialize_v5_sapling cr coinbase =
     pbind (read_guarded_vec coinbase (Parse ''coinbase transaction must not have Sapling spends'')
       spend_prefix_max_allocation (read_spend_prefix cr)) (\<lambda>prefixes.
     pbind (read_vec output_prefix_max_allocation (read_output_prefix cr)) (\<lambda>oprefixes.
     if prefixes = [] \<and> oprefixes = [] then preturn None
     else pbind read_amount (\<lambda>value_balance.
     pbind (if length prefixes > 0 then pbind (read_sapling_root cr) (\<lambda>a. preturn (Some a))
            else preturn None) (\<lambda>shared_anchor.
     pbind (read_external_count groth16_max_allocation (read_exact GROTH16_PROOF_SIZE)
       (length prefixes)) (\<lambda>proofs.
     pbind (read_external_count sapling_sig_max_allocation read_64_bytes (length prefixes)) (\<lambda>sigs.
     pbind (read_external_count groth16_max_allocation (read_exact GROTH16_PROOF_SIZE)
       (length oprefixes)) (\<lambda>oproofs.
     pbind read_64_bytes (\<lambda>binding_sig.
     preturn (Some
       \<lparr>sd_value_balance = value_balance,
        sd_transfers = (case shared_anchor of
            Some a \<Rightarrow> SpendsAndMaybeOutputs a (zip_spends prefixes proofs sigs)
                        (zip_outputs oprefixes oproofs)
          | None \<Rightarrow> JustOutputs (zip_outputs oprefixes oproofs)),
        sd_binding_sig = binding_sig\<rparr>)))))))))"

definition transfer_shape_ok :: "('a, 's) transfer_data \<Rightarrow> bool" where
  "transfer_shape_ok t \<longleftrightarrow>
     (case t of SpendsAndMaybeOutputs _ ss _ \<Rightarrow> ss \<noteq> [] | JustOutputs outs \<Rightarrow> outs \<noteq> [])"

definition valid_sapling_v5 :: "crypto \<Rightarrow> sapling_v5 \<Rightarrow> bool" where
  "valid_sapling_v5 cr d \<longleftrightarrow>
     valid_amount NegativeAllowed (sd_value_balance d) \<and>
     transfer_shape_ok (sd_transfers d) \<and>
     opt_all (is_ok32 (sapling_root_try cr)) (sd_shared_anchor d) \<and>
     length (sd_spends d) \<le> spend_prefix_max_allocation \<and>
     list_all (valid_spend_prefix cr) (spend_prefixes (sd_spends d)) \<and>
     list_all (\<lambda>z. length z = GROTH16_PROOF_SIZE) (spend_proofs (sd_spends d)) \<and>
     list_all (\<lambda>s. length s = 64) (spend_sigs (sd_spends d)) \<and>
     length (sd_outputs d) \<le> output_prefix_max_allocation \<and>
     list_all (valid_oprefix cr) (output_prefixes (sd_outputs d)) \<and>
     list_all (\<lambda>z. length z = GROTH16_PROOF_SIZE) (output_proofs (sd_outputs d)) \<and>
     length (sd_binding_sig d) = 64"

interpretation codec_spend_prefixes: codec "write_vec write_spend_prefix"
  "read_guarded_vec g e spend_prefix_max_allocation (read_spend_prefix cr)"
  "\<lambda>xs. (g \<longrightarrow> xs = []) \<and> length xs \<le> spend_prefix_max_allocation \<and>
     length xs \<le> MAX_PROTOCOL_MESSAGE_LEN \<and> list_all (valid_spend_prefix cr) xs" for g e cr
  by (rule codec_guarded_vec [OF codec_spend_prefix.codec_axioms])

interpretation codec_output_prefixes: codec "write_vec write_output_prefix"
  "read_vec output_prefix_max_allocation (read_output_prefix cr)"
  "\<lambda>xs. length xs \<le> output_prefix_max_allocation \<and>
     length xs \<le> MAX_PROTOCOL_MESSAGE_LEN \<and> list_all (valid_oprefix cr) xs" for cr
  by (rule codec_vec [OF codec_output_prefix.codec_axioms])

interpretation codec_byte_arrays: codec "write_external_count write_all"
  "read_external_count lim (read_exact k) n"
  "\<lambda>xs. length xs = n \<and> n \<le> lim \<and> list_all (\<lambda>x. length x = k) xs" for lim k n
  by (rule codec_external_count [OF codec_bytes.codec_axioms])

lemma allocation_bounds [simp]:
  "n \<le> spend_prefix_max_allocation \<Longrightarrow> n \<le> MAX_PROTOCOL_MESSAGE_LEN"
  "n \<le> output_prefix_max_allocation \<Longrightarrow> n \<le> MAX_PROTOCOL_MESSAGE_LEN"
  "n \<le> spend_prefix_max_allocation \<Longrightarrow> n \<le> groth16_max_allocation"
  "n \<le> output_prefix_max_allocation \<Longrightarrow> n \<le> groth16_max_allocation"
  "n \<le> spend_prefix_max_allocation \<Longrightarrow> n \<le> sapling_sig_max_allocation"
  by (simp_all add: allocation_defs)

definition valid_opt_sapling_v5 :: "crypto \<Rightarrow> bool \<Rightarrow> sapling_v5 option \<Rightarrow> bool" where
  "valid_opt_sapling_v5 cr coinbase x \<longleftrightarrow>
     opt_all (\<lambda>d. valid_sapling_v5 cr d \<and> (coinbase \<longrightarrow> sd_spends d = [])) x"

lemmas sapling_v5_defs = deserialize_v5_sapling_def write_sapling_v5_def valid_sapling_v5_def
  valid_opt_sapling_v5_def transfer_shape_ok_def sd_spends_def sd_outputs_def sd_shared_anchor_def
  read_64_bytes_def

lemma sapling_v5_written:
  assumes "valid_opt_sapling_v5 cr c d"
  shows "\<exists>b. write_opt_sapling_v5 d = Ok b \<and> (\<forall>rest. deserialize_v5_sapling cr c (b @ rest) = Ok (d, rest))"
proof (cases d)
  case None
  obtain b where b: "write_empty_list = Ok b"
    using codec_csm.written [of 0] by (auto simp: write_empty_list_def)
  have "read_vec output_prefix_max_allocation (read_output_prefix cr) (b @ rest) = Ok ([], rest)"
    "read_guarded_vec c (Parse ''coinbase transaction must not have Sapling spends'')
       spend_prefix_max_allocation (read_spend_prefix cr) (b @ rest) = Ok ([], rest)" for rest
    using codec_spend_prefixes.written [of c "[]" cr "Parse ''coinbase transaction must not have Sapling spends''"]
      codec_output_prefixes.written [of "[]" cr]
    by (simp_all add: write_vec_Nil b)
  with None show ?thesis by (simp add: deserialize_v5_sapling_def b)
next
  case (Some x)
  note v = assms [unfolded Some valid_opt_sapling_v5_def opt_all_simps valid_sapling_v5_def]
  note w = codec_amount.written [of "sd_value_balance x"]
    codec_spend_prefixes.written [of c "spend_prefixes (sd_spends x)" cr
      "Parse ''coinbase transaction must not have Sapling spends''"]
    codec_output_prefixes.written [of "output_prefixes (sd_outputs x)" cr]
    codec_byte_arrays.written [of "spend_proofs (sd_spends x)" "length (sd_spends x)" groth16_max_allocation GROTH16_PROOF_SIZE]
    codec_byte_arrays.written [of "spend_sigs (sd_spends x)" "length (sd_spends x)" sapling_sig_max_allocation 64]
    codec_byte_arrays.written [of "output_proofs (sd_outputs x)" "length (sd_outputs x)" groth16_max_allocation GROTH16_PROOF_SIZE]
  show ?thesis
  proof (cases "sd_transfers x")
    case (SpendsAndMaybeOutputs a ss outs)
    with Some v w codec_sapling_root.written [of cr a] show ?thesis
      by (auto simp: sapling_v5_defs simp del: valid_amount_simps)
  next
    case (JustOutputs outs)
    with Some v w show ?thesis
      by (auto simp: sapling_v5_defs map_sum_Ok_iff simp del: valid_amount_simps)
  qed
qed

lemma sapling_v5_read:
  assumes "deserialize_v5_sapling cr c bs = Ok (d, rest)"
  shows "valid_opt_sapling_v5 cr c d \<and> (\<exists>b. write_opt_sapling_v5 d = Ok b \<and> bs = b @ rest)"
proof -
  let ?e = "Parse ''coinbase transaction must not have Sapling spends''"
  obtain ps m os n where ps: "read_guarded_vec c ?e spend_prefix_max_allocation (read_spend_prefix cr) bs = Ok (ps, m)"
    and os: "read_vec output_prefix_max_allocation (read_output_prefix cr) m = Ok (os, n)"
    using assms unfolding deserialize_v5_sapling_def pbind_Ok_iff by blast
  obtain b1 where b1: "write_vec write_spend_prefix ps = Ok b1" "bs = b1 @ m"
    and vps: "c \<longrightarrow> ps = []" "length ps \<le> spend_prefix_max_allocation" "list_all (valid_spend_prefix cr) ps"
    using codec_spend_prefixes.read [OF ps] by auto
  obtain b2 where b2: "write_vec write_output_prefix os = Ok b2" "m = b2 @ n"
    and vos: "length os \<le> output_prefix_max_allocation" "list_all (valid_oprefix cr) os"
    using codec_output_prefixes.read [OF os] by auto
  show ?thesis
  proof (cases "ps = [] \<and> os = []")
    case True
    obtain b where b: "write_empty_list = Ok b"
      using codec_csm.written [of 0] by (auto simp: write_empty_list_def)
    from True assms ps os b1 b2 show ?thesis
      by (auto simp: deserialize_v5_sapling_def valid_opt_sapling_v5_def write_vec_Nil b)
  next
    case False
    show ?thesis
    proof (cases "ps = []")
      case True
      with False assms ps os b1 b2 vps vos show ?thesis
        by (auto simp: sapling_v5_defs pbind_Ok_iff read_exact_Ok_iff map_sum_Ok_iff
            dest!: codec_amount.read codec_byte_arrays.read simp del: valid_amount_simps)
    next
      case False
      with assms ps os b1 b2 vps vos show ?thesis
        by (auto simp: sapling_v5_defs pbind_Ok_iff read_exact_Ok_iff map_sum_Ok_iff
            dest!: codec_amount.read codec_byte_arrays.read codec_sapling_root.read simp del: valid_amount_simps)
    qed
  qed
qed

interpretation codec_opt_sapling_v5: codec write_opt_sapling_v5 "deserialize_v5_sapling cr c"
  "valid_opt_sapling_v5 cr c" for cr c
  by unfold_locales (rule sapling_v5_written sapling_v5_read, assumption)+

section \<open>Orchard and Ironwood\<close>

unbundle bit_operations_syntax

definition write_action :: "action writer" where
  "write_action a = write_seq
     [write_all (ac_cv a), write_all (ac_nullifier a), write_all (ac_rk a), write_all (ac_cm_x a),
      write_all (ac_ephemeral_key a), write_all (ac_enc_ciphertext a), write_all (ac_out_ciphertext a)]"

definition read_action :: "crypto \<Rightarrow> action parser" where
  "read_action cr =
     pbind (read_orchard_cv cr) (\<lambda>cv. pbind (read_orchard_nullifier cr) (\<lambda>nullifier.
     pbind read_orchard_rk (\<lambda>rk. pbind (read_pallas_base cr) (\<lambda>cm_x.
     pbind (read_orchard_epk cr) (\<lambda>epk. pbind (read_exact 580) (\<lambda>enc. pbind (read_exact 80) (\<lambda>out.
     preturn \<lparr>ac_cv = cv, ac_nullifier = nullifier, ac_rk = rk, ac_cm_x = cm_x,
       ac_ephemeral_key = epk, ac_enc_ciphertext = enc, ac_out_ciphertext = out\<rparr>)))))))"

definition valid_action :: "crypto \<Rightarrow> action \<Rightarrow> bool" where
  "valid_action cr a \<longleftrightarrow>
     is_ok32 (orchard_cv_try cr) (ac_cv a) \<and> is_ok32 (orchard_nullifier_try cr) (ac_nullifier a) \<and>
     is_ok32 orchard_rk_try (ac_rk a) \<and> is_ok32 (pallas_base_try cr) (ac_cm_x a) \<and>
     is_ok32 (orchard_epk_try cr) (ac_ephemeral_key a) \<and>
     length (ac_enc_ciphertext a) = 580 \<and> length (ac_out_ciphertext a) = 80"

interpretation codec_action: codec write_action "read_action cr" "valid_action cr" for cr
proof unfold_locales
  fix a assume a: "valid_action cr a"
  with codec_orchard_cv.written [of cr "ac_cv a"] codec_orchard_nullifier.written [of cr "ac_nullifier a"]
    codec_orchard_rk.written [of "ac_rk a"] codec_pallas_base.written [of cr "ac_cm_x a"]
    codec_orchard_epk.written [of cr "ac_ephemeral_key a"]
  show "\<exists>b. write_action a = Ok b \<and> (\<forall>rest. read_action cr (b @ rest) = Ok (a, rest))"
    by (auto simp: write_action_def read_action_def valid_action_def)
next
  fix bs rest a assume "read_action cr bs = Ok (a, rest)"
  then show "valid_action cr a \<and> (\<exists>b. write_action a = Ok b \<and> bs = b @ rest)"
    by (auto simp: write_action_def read_action_def valid_action_def pbind_Ok_iff read_exact_Ok_iff
        dest!: codec_orchard_cv.read codec_orchard_nullifier.read codec_orchard_rk.read
        codec_pallas_base.read codec_orchard_epk.read)
qed

definition PRE_NU6_3_RESERVED :: byte where
  "PRE_NU6_3_RESERVED = NOT (ENABLE_SPENDS OR ENABLE_OUTPUTS)"
definition NU6_3_RESERVED :: byte where
  "NU6_3_RESERVED = NOT (ENABLE_SPENDS OR ENABLE_OUTPUTS OR ENABLE_CROSS_ADDRESS)"

definition flags_from_byte :: "byte \<Rightarrow> byte \<Rightarrow> (ser_error, flags) result" where
  "flags_from_byte b reserved =
     (if b AND reserved \<noteq> 0 then Err (Parse ''invalid reserved orchard flags'')
      else Ok (b AND (ENABLE_SPENDS OR ENABLE_OUTPUTS OR ENABLE_CROSS_ADDRESS)))"

definition write_flags :: "flags writer" where "write_flags f = write_u8 f"

definition read_flags :: "byte \<Rightarrow> flags parser" where
  "read_flags reserved = pbind read_u8 (\<lambda>b. plift (flags_from_byte b reserved))"

lemma flags_from_byte_Ok:
  assumes "reserved \<in> {PRE_NU6_3_RESERVED, NU6_3_RESERVED}"
  shows "flags_from_byte b reserved = Ok f \<longleftrightarrow> f = b \<and> b AND reserved = 0"
proof -
  have m: "b AND 7 = b" if "b AND NOT 7 = 0" for b :: byte
    using that by (metis bit.conj_disj_distrib bit.conj_one_right bit.disj_cancel_right bit.disj_zero_right)
  have "b AND NOT 7 = 0" if "b AND NOT 3 = 0"
  proof -
    have "NOT 7 = NOT 3 AND (NOT 7 :: byte)" by simp
    then have "b AND NOT 7 = (b AND NOT 3) AND NOT 7" by (metis and.assoc)
    with that show ?thesis by simp
  qed
  with m [of b] assms show ?thesis
    by (auto simp: flags_from_byte_def PRE_NU6_3_RESERVED_def NU6_3_RESERVED_def ENABLE_SPENDS_def
        ENABLE_OUTPUTS_def ENABLE_CROSS_ADDRESS_def)
qed

lemma codec_flags:
  assumes "reserved \<in> {PRE_NU6_3_RESERVED, NU6_3_RESERVED}"
  shows "codec write_flags (read_flags reserved) (\<lambda>f. f AND reserved = 0)"
proof
  fix f assume "f AND reserved = 0"
  with flags_from_byte_Ok [OF assms, of f f] codec_u8.written [of f]
  show "\<exists>b. write_flags f = Ok b \<and> (\<forall>rest. read_flags reserved (b @ rest) = Ok (f, rest))"
    by (auto simp: write_flags_def read_flags_def plift_def)
next
  fix bs rest f assume "read_flags reserved bs = Ok (f, rest)"
  then show "f AND reserved = 0 \<and> (\<exists>b. write_flags f = Ok b \<and> bs = b @ rest)"
    by (auto simp: write_flags_def read_flags_def pbind_Ok_iff flags_from_byte_Ok [OF assms]
        dest!: codec_u8.read)
qed

definition write_orchard :: "orchard_data writer" where
  "write_orchard d = write_seq
     [write_vec write_action (map aa_action (od_actions d)), write_flags (od_flags d),
      write_amount (od_value_balance d), write_all (od_shared_anchor d), write_bytes (od_proof d),
      write_external_count write_all (map aa_spend_auth_sig (od_actions d)),
      write_all (od_binding_sig d)]"

fun write_opt_orchard :: "orchard_data option writer" where
  "write_opt_orchard None = write_empty_list"
| "write_opt_orchard (Some d) = write_orchard d"

definition zip_actions :: "action list \<Rightarrow> bytes list \<Rightarrow> authorized_action list" where
  "zip_actions actions sigs =
     map (\<lambda>(action, sig). \<lparr>aa_action = action, aa_spend_auth_sig = sig\<rparr>) (zip actions sigs)"

definition at_least_one :: "'a list \<Rightarrow> (ser_error, 'a list) result" where
  "at_least_one xs = (if xs = [] then Err (Parse ''vector length out of bounds'') else Ok xs)"

definition deserialize_orchard :: "crypto \<Rightarrow> byte \<Rightarrow> orchard_data option parser" where
  "deserialize_orchard cr reserved =
     pbind (read_vec action_max_allocation (read_action cr)) (\<lambda>actions.
     if actions = [] then preturn None
     else pbind (read_flags reserved) (\<lambda>f. pbind read_amount (\<lambda>value_balance.
     pbind (read_orchard_root cr) (\<lambda>shared_anchor. pbind read_bytes_vec (\<lambda>proof.
     pbind (read_external_count orchard_sig_max_allocation read_64_bytes (length actions)) (\<lambda>sigs.
     pbind read_64_bytes (\<lambda>binding_sig.
     pbind (plift (at_least_one (zip_actions actions sigs))) (\<lambda>authorized.
     preturn (Some \<lparr>od_flags = f, od_value_balance = value_balance, od_shared_anchor = shared_anchor,
       od_proof = proof, od_actions = authorized, od_binding_sig = binding_sig\<rparr>)))))))))"

definition valid_orchard :: "crypto \<Rightarrow> byte \<Rightarrow> orchard_data \<Rightarrow> bool" where
  "valid_orchard cr reserved d \<longleftrightarrow>
     od_actions d \<noteq> [] \<and> length (od_actions d) \<le> action_max_allocation \<and>
     list_all (valid_action cr) (map aa_action (od_actions d)) \<and>
     list_all (\<lambda>s. length s = 64) (map aa_spend_auth_sig (od_actions d)) \<and>
     od_flags d AND reserved = 0 \<and> valid_amount NegativeAllowed (od_value_balance d) \<and>
     is_ok32 (orchard_root_try cr) (od_shared_anchor d) \<and>
     length (od_proof d) \<le> MAX_U8_ALLOCATION \<and> length (od_binding_sig d) = 64"

interpretation codec_actions: codec "write_vec write_action"
  "read_vec action_max_allocation (read_action cr)"
  "\<lambda>xs. length xs \<le> action_max_allocation \<and>
     length xs \<le> MAX_PROTOCOL_MESSAGE_LEN \<and> list_all (valid_action cr) xs" for cr
  by (rule codec_vec [OF codec_action.codec_axioms])

lemma action_bounds [simp]:
  "n \<le> action_max_allocation \<Longrightarrow> n \<le> MAX_PROTOCOL_MESSAGE_LEN"
  "n \<le> action_max_allocation \<Longrightarrow> n \<le> orchard_sig_max_allocation"
  by (simp_all add: allocation_defs)

lemma zip_actions_unzip [simp]: "zip_actions (map aa_action xs) (map aa_spend_auth_sig xs) = xs"
  by (induction xs) (simp_all add: zip_actions_def)

lemma unzip_actions [simp]:
  assumes "length xs = length ss"
  shows "map aa_action (zip_actions xs ss) = xs" "map aa_spend_auth_sig (zip_actions xs ss) = ss"
    "length (zip_actions xs ss) = length xs" "zip_actions xs ss = [] \<longleftrightarrow> xs = []"
  using assms by (induction xs ss rule: list_induct2) (simp_all add: zip_actions_def)

lemma at_least_one_Ok [simp]: "at_least_one xs = Ok ys \<longleftrightarrow> ys = xs \<and> xs \<noteq> []"
  by (auto simp: at_least_one_def)

lemma codec_opt_orchard:
  assumes r: "reserved \<in> {PRE_NU6_3_RESERVED, NU6_3_RESERVED}"
  shows "codec write_opt_orchard (deserialize_orchard cr reserved) (opt_all (valid_orchard cr reserved))"
proof
  fix d assume v: "opt_all (valid_orchard cr reserved) d"
  show "\<exists>b. write_opt_orchard d = Ok b \<and> (\<forall>rest. deserialize_orchard cr reserved (b @ rest) = Ok (d, rest))"
  proof (cases d)
    case None
    with codec_actions.written [of "[]" cr] show ?thesis
      by (auto simp: deserialize_orchard_def write_vec_Nil)
  next
    case (Some x)
    then have "at_least_one (od_actions x) = Ok (od_actions x)" using v by (simp add: valid_orchard_def)
    with v Some codec_actions.written [of "map aa_action (od_actions x)" cr]
      codec.written [OF codec_flags [OF r], of "od_flags x"] codec_amount.written [of "od_value_balance x"]
      codec_orchard_root.written [of cr "od_shared_anchor x"] codec_byte_vec.written [of "od_proof x"]
      codec_byte_arrays.written [of "map aa_spend_auth_sig (od_actions x)" "length (od_actions x)"
        orchard_sig_max_allocation 64]
    show ?thesis
      by (auto simp: deserialize_orchard_def valid_orchard_def write_orchard_def read_64_bytes_def plift_def
          simp del: valid_amount_simps at_least_one_Ok)
  qed
next
  fix bs rest d assume a: "deserialize_orchard cr reserved bs = Ok (d, rest)"
  then obtain xs m where xs: "read_vec action_max_allocation (read_action cr) bs = Ok (xs, m)"
    unfolding deserialize_orchard_def pbind_Ok_iff by blast
  from codec_actions.read [OF xs] a xs
  show "opt_all (valid_orchard cr reserved) d \<and> (\<exists>b. write_opt_orchard d = Ok b \<and> bs = b @ rest)"
    by (cases "xs = []")
      (auto simp: deserialize_orchard_def pbind_Ok_iff valid_orchard_def write_orchard_def read_64_bytes_def
        read_exact_Ok_iff map_sum_Ok_iff write_vec_Nil [symmetric, of write_action] simp del: valid_amount_simps
        dest!: codec.read [OF codec_flags [OF r]] codec_amount.read codec_orchard_root.read
          codec_byte_vec.read codec_byte_arrays.read)
qed

end
