(* ===== verification/TxParse.thy ===== *)
theory TxParse
  imports TxShielded
begin

text \<open>
  Reading and writing whole transactions (\<open>transaction/serialize.rs\<close>): the header with its
  version and overwintered flag, the version group ids, the field order of each version, the
  interleaved Sapling fields of V4, the consensus branch ids of V5 and V6 and the check of the
  parsed transaction against librustzcash.
\<close>

unbundle bit_operations_syntax

section \<open>Inputs and outputs\<close>

definition MIN_TRANSPARENT_INPUT_SIZE :: nat where "MIN_TRANSPARENT_INPUT_SIZE = 32 + 4 + 4 + 1"
definition MIN_TRANSPARENT_OUTPUT_SIZE :: nat where "MIN_TRANSPARENT_OUTPUT_SIZE = 8 + 1"
definition input_max_allocation :: nat where
  "input_max_allocation = MAX_BLOCK_BYTES div MIN_TRANSPARENT_INPUT_SIZE"
definition output_max_allocation :: nat where
  "output_max_allocation = MAX_BLOCK_BYTES div MIN_TRANSPARENT_OUTPUT_SIZE"

definition write_inputs :: "crypto \<Rightarrow> tx_input list writer" where
  "write_inputs cr = write_vec (write_input cr)"
definition read_inputs :: "crypto \<Rightarrow> tx_input list parser" where
  "read_inputs cr = read_vec input_max_allocation (read_input cr)"
definition write_outputs :: "tx_output list writer" where
  "write_outputs = write_vec write_output"
definition read_outputs :: "tx_output list parser" where
  "read_outputs = read_vec output_max_allocation read_output"

definition valid_inputs :: "crypto \<Rightarrow> tx_input list \<Rightarrow> bool" where
  "valid_inputs cr ins \<longleftrightarrow> length ins \<le> input_max_allocation \<and> list_all (valid_input cr) ins"
definition valid_outputs :: "tx_output list \<Rightarrow> bool" where
  "valid_outputs outs \<longleftrightarrow> length outs \<le> output_max_allocation \<and> list_all valid_output outs"

lemma transparent_bounds:
  "n \<le> input_max_allocation \<Longrightarrow> n \<le> MAX_PROTOCOL_MESSAGE_LEN"
  "n \<le> output_max_allocation \<Longrightarrow> n \<le> MAX_PROTOCOL_MESSAGE_LEN"
  by (simp_all add: input_max_allocation_def output_max_allocation_def MAX_BLOCK_BYTES_def
      MIN_TRANSPARENT_INPUT_SIZE_def MIN_TRANSPARENT_OUTPUT_SIZE_def MAX_PROTOCOL_MESSAGE_LEN_def)

lemma codec_inputs:
  assumes "push_num_bip34 cr"
  shows "codec (write_inputs cr) (read_inputs cr) (valid_inputs cr)"
proof -
  have "(\<lambda>xs. length xs \<le> input_max_allocation \<and> length xs \<le> MAX_PROTOCOL_MESSAGE_LEN
      \<and> list_all (valid_input cr) xs) = valid_inputs cr"
    by (auto simp: valid_inputs_def transparent_bounds fun_eq_iff)
  with codec_vec [OF codec_input [OF assms], of input_max_allocation] show ?thesis
    by (simp add: write_inputs_def read_inputs_def)
qed

interpretation codec_outputs: codec write_outputs read_outputs valid_outputs
proof -
  have "(\<lambda>xs. length xs \<le> output_max_allocation \<and> length xs \<le> MAX_PROTOCOL_MESSAGE_LEN
      \<and> list_all valid_output xs) = valid_outputs"
    by (auto simp: valid_outputs_def transparent_bounds fun_eq_iff)
  with codec_vec [OF codec_output.codec_axioms, of output_max_allocation]
  show "codec write_outputs read_outputs valid_outputs"
    by (simp add: write_outputs_def read_outputs_def)
qed

definition write_height :: "height writer" where "write_height h = write_u32 (height_u32 h)"
definition read_height :: "height parser" where "read_height = pbind read_u32 (\<lambda>n. preturn (Height n))"

interpretation codec_height: codec write_height read_height "\<lambda>_. True"
  unfolding read_height_def
  by (rule codec_iso [OF codec_u32.codec_axioms, where g = height_u32]) (simp_all add: write_height_def)

section \<open>Header, group ids and branch ids\<close>

definition tx_header :: "transaction \<Rightarrow> u32" where
  "tx_header tx = ((if is_overwintered tx then push_bit 31 1 else 0) OR tx_version tx)"

definition header_version :: "u32 \<Rightarrow> u32 \<times> bool" where
  "header_version header = (header AND (push_bit 31 1 - 1), drop_bit 31 header \<noteq> 0)"

definition expect_group_id :: "u32 \<Rightarrow> string \<Rightarrow> unit parser" where
  "expect_group_id group_id msg =
     pbind read_u32 (\<lambda>i. if i \<noteq> group_id then pfail (Parse msg) else preturn ())"

definition write_branch :: "network_upgrade writer" where
  "write_branch nu =
     (case branch_id nu of
        None \<Rightarrow> Err (WritePanic ''valid transactions must have a network upgrade with a branch id'')
      | Some b \<Rightarrow> write_u32 b)"

definition read_branch :: "network_upgrade \<Rightarrow> string \<Rightarrow> network_upgrade parser" where
  "read_branch least msg =
     pbind read_u32 (\<lambda>b.
       case nu_try_from_branch b of
         None \<Rightarrow> pfail (ser_error_of_chain InvalidConsensusBranchId)
       | Some nu \<Rightarrow> if nu < least then pfail (Parse msg) else preturn nu)"

lemma header_version_of [simp]:
  "header_version (tx_header tx) = (tx_version tx, is_overwintered tx)"
  by (cases tx) (simp_all add: header_version_def tx_header_def)

lemma header_of_version:
  assumes "header_version h = (tx_version tx, is_overwintered tx)"
  shows "h = tx_header tx"
proof -
  have "h AND (push_bit 31 1 - 1) = take_bit 31 h"
    by (simp add: take_bit_eq_mask mask_eq_exp_minus_1)
  then have eq: "h = push_bit 31 (drop_bit 31 h) + (h AND (push_bit 31 1 - 1))"
    by (simp only: bits_ident)
  have "unat (drop_bit 31 h) < 2"
    using unat_u32 [of h] by (simp add: unat_drop_bit_eq drop_bit_nat_def less_mult_imp_div_less)
  then have "unat (drop_bit 31 h) = 0 \<or> unat (drop_bit 31 h) = 1" by linarith
  then have "drop_bit 31 h = 0 \<or> drop_bit 31 h = 1"
    by (metis unat_eq_0 unat_1 word_unat_eq_iff)
  with eq assms show ?thesis
    by (cases tx) (auto simp: header_version_def tx_header_def)
qed

lemma codec_group_id: "codec (\<lambda>_. write_u32 g) (expect_group_id g msg) (\<lambda>_. True)"
proof
  fix u :: unit
  from codec_u32.written [of g]
  show "\<exists>b. write_u32 g = Ok b \<and> (\<forall>rest. expect_group_id g msg (b @ rest) = Ok (u, rest))"
    by (auto simp: expect_group_id_def)
next
  fix bs rest and u :: unit assume "expect_group_id g msg bs = Ok (u, rest)"
  then show "True \<and> (\<exists>b. write_u32 g = Ok b \<and> bs = b @ rest)"
    by (auto simp: expect_group_id_def pbind_Ok_iff split: if_splits dest!: codec_u32.read)
qed

lemma group_id_written: "\<exists>b. write_u32 g = Ok b \<and> (\<forall>rest. expect_group_id g msg (b @ rest) = Ok ((), rest))"
  by (rule codec.written [OF codec_group_id]) simp

lemma codec_branch: "codec write_branch (read_branch least msg) (\<lambda>nu. least \<le> nu \<and> branch_id nu \<noteq> None)"
proof
  fix nu assume nu: "least \<le> nu \<and> branch_id nu \<noteq> None"
  then obtain b where "branch_id nu = Some b" "nu_try_from_branch b = Some nu"
    by (auto simp: branch_id_roundtrip)
  with nu codec_u32.written [of b]
  show "\<exists>b. write_branch nu = Ok b \<and> (\<forall>rest. read_branch least msg (b @ rest) = Ok (nu, rest))"
    by (auto simp: write_branch_def read_branch_def)
next
  fix bs rest nu assume "read_branch least msg bs = Ok (nu, rest)"
  then show "(least \<le> nu \<and> branch_id nu \<noteq> None) \<and> (\<exists>b. write_branch nu = Ok b \<and> bs = b @ rest)"
    by (auto simp: read_branch_def pbind_Ok_iff write_branch_def branch_id_roundtrip not_less
        split: option.splits if_splits dest!: codec_u32.read)
qed

section \<open>Versions 1 to 3\<close>

fun write_body :: "crypto \<Rightarrow> transaction writer" where
  "write_body cr (V1 ins outs t) = write_seq [write_inputs cr ins, write_outputs outs, write_lock_time t]"
| "write_body cr (V2 ins outs t js) = write_seq
     [write_inputs cr ins, write_outputs outs, write_lock_time t, write_opt_joinsplit_data js]"
| "write_body cr (V3 ins outs t h js) = write_seq
     [write_u32 OVERWINTER_VERSION_GROUP_ID, write_inputs cr ins, write_outputs outs,
      write_lock_time t, write_height h, write_opt_joinsplit_data js]"
| "write_body cr (V4 ins outs t h js sapling) = write_seq
     [write_u32 SAPLING_VERSION_GROUP_ID, write_inputs cr ins, write_outputs outs,
      write_lock_time t, write_height h,
      (case sapling of
         None \<Rightarrow> write_seq [write_i64 0, write_empty_list, write_empty_list]
       | Some d \<Rightarrow> write_seq [write_amount (sd_value_balance d), write_vec write_spend_v4 (sd_spends d),
                     write_vec write_output_v4 (sd_outputs d)]),
      write_opt_joinsplit_data js,
      (case sapling of None \<Rightarrow> Ok [] | Some d \<Rightarrow> write_all (sd_binding_sig d))]"
| "write_body cr (V5 nu t h ins outs sapling orchard) = write_seq
     [write_u32 TX_V5_VERSION_GROUP_ID, write_branch nu, write_lock_time t, write_height h,
      write_inputs cr ins, write_outputs outs, write_opt_sapling_v5 sapling, write_opt_orchard orchard]"
| "write_body cr (V6 nu t h ins outs sapling orchard ironwood) = write_seq
     [write_u32 TX_V6_VERSION_GROUP_ID, write_branch nu, write_lock_time t, write_height h,
      write_inputs cr ins, write_outputs outs, write_opt_sapling_v5 sapling,
      write_opt_orchard (map_option v6_data orchard),
      write_opt_orchard (map_option ironwood_inner_data ironwood)]"

definition write_transaction :: "crypto \<Rightarrow> transaction writer" where
  "write_transaction cr tx = write_seq [write_u32 (tx_header tx), write_body cr tx]"

definition read_v1 :: "crypto \<Rightarrow> transaction parser" where
  "read_v1 cr =
     pbind (read_inputs cr) (\<lambda>ins. pbind read_outputs (\<lambda>outs. pbind read_lock_time (\<lambda>t.
     preturn (V1 ins outs t))))"

definition read_v2 :: "crypto \<Rightarrow> transaction parser" where
  "read_v2 cr =
     pbind (read_inputs cr) (\<lambda>ins. pbind read_outputs (\<lambda>outs. pbind read_lock_time (\<lambda>t.
     pbind (read_opt_joinsplit_data BCTV14_PROOF_SIZE) (\<lambda>js.
     preturn (V2 ins outs t js)))))"

definition read_v3 :: "crypto \<Rightarrow> transaction parser" where
  "read_v3 cr =
     pbind (expect_group_id OVERWINTER_VERSION_GROUP_ID ''expected OVERWINTER_VERSION_GROUP_ID'') (\<lambda>_.
     pbind (read_inputs cr) (\<lambda>ins. pbind read_outputs (\<lambda>outs. pbind read_lock_time (\<lambda>t.
     pbind read_height (\<lambda>h. pbind (read_opt_joinsplit_data BCTV14_PROOF_SIZE) (\<lambda>js.
     preturn (V3 ins outs t h js)))))))"

fun valid_v123 :: "crypto \<Rightarrow> transaction \<Rightarrow> bool" where
  "valid_v123 cr (V1 ins outs t) = (valid_inputs cr ins \<and> valid_outputs outs \<and> valid_lock_time t)"
| "valid_v123 cr (V2 ins outs t js) = (valid_inputs cr ins \<and> valid_outputs outs \<and> valid_lock_time t
     \<and> opt_all (valid_joinsplit_data BCTV14_PROOF_SIZE) js)"
| "valid_v123 cr (V3 ins outs t h js) = (valid_inputs cr ins \<and> valid_outputs outs \<and> valid_lock_time t
     \<and> opt_all (valid_joinsplit_data BCTV14_PROOF_SIZE) js)"
| "valid_v123 cr _ = False"

lemma read_v123:
  assumes cr: "push_num_bip34 cr"
  shows "read_v1 cr bs = Ok (tx, rest) \<Longrightarrow>
      tx_version tx = 1 \<and> valid_v123 cr tx \<and> (\<exists>b. write_body cr tx = Ok b \<and> bs = b @ rest)"
    and "read_v2 cr bs = Ok (tx, rest) \<Longrightarrow>
      tx_version tx = 2 \<and> valid_v123 cr tx \<and> (\<exists>b. write_body cr tx = Ok b \<and> bs = b @ rest)"
    and "read_v3 cr bs = Ok (tx, rest) \<Longrightarrow>
      tx_version tx = 3 \<and> valid_v123 cr tx \<and> (\<exists>b. write_body cr tx = Ok b \<and> bs = b @ rest)"
  by (auto simp: read_v1_def read_v2_def read_v3_def pbind_Ok_iff
      dest!: codec.read [OF codec_inputs [OF cr]] codec_outputs.read codec_lock_time.read
        codec_height.read codec_opt_joinsplit_data.read codec.read [OF codec_group_id])

lemma written_v123:
  assumes cr: "push_num_bip34 cr" and v: "valid_v123 cr tx"
  shows "\<exists>b. write_body cr tx = Ok b \<and> (\<forall>rest.
      (if tx_version tx = 1 then read_v1 cr else if tx_version tx = 2 then read_v2 cr else read_v3 cr)
        (b @ rest) = Ok (tx, rest))"
proof (cases tx)
  case (V1 ins outs t)
  with v codec.written [OF codec_inputs [OF cr], of ins] codec_outputs.written [of outs]
    codec_lock_time.written [of t]
  show ?thesis by (auto simp: read_v1_def)
next
  case (V2 ins outs t js)
  with v codec.written [OF codec_inputs [OF cr], of ins] codec_outputs.written [of outs]
    codec_lock_time.written [of t] codec_opt_joinsplit_data.written [of BCTV14_PROOF_SIZE js]
  show ?thesis by (auto simp: read_v2_def)
next
  case (V3 ins outs t h js)
  with v codec.written [OF codec_inputs [OF cr], of ins] codec_outputs.written [of outs]
    codec_lock_time.written [of t] codec_opt_joinsplit_data.written [of BCTV14_PROOF_SIZE js]
    codec_height.written [of h] group_id_written [of OVERWINTER_VERSION_GROUP_ID "''expected OVERWINTER_VERSION_GROUP_ID''"]
  show ?thesis by (auto simp: read_v3_def)
qed (use v in auto)

section \<open>Version 4\<close>

definition v4_transfers :: "bytes spend list \<Rightarrow> sapling_output list \<Rightarrow> (bytes, unit) transfer_data option" where
  "v4_transfers spends outs =
     (if spends \<noteq> [] then Some (SpendsAndMaybeOutputs () spends outs)
      else if outs \<noteq> [] then Some (JustOutputs outs)
      else None)"

definition read_v4 :: "crypto \<Rightarrow> transaction parser" where
  "read_v4 cr =
     pbind (expect_group_id SAPLING_VERSION_GROUP_ID ''expected SAPLING_VERSION_GROUP_ID'') (\<lambda>_.
     pbind (read_inputs cr) (\<lambda>ins. pbind read_outputs (\<lambda>outs. pbind read_lock_time (\<lambda>t.
     pbind read_height (\<lambda>h. pbind read_amount (\<lambda>value_balance.
     pbind (read_guarded_vec (inputs_are_coinbase ins)
       (Parse ''coinbase transaction must not have Sapling spends'')
       spend_v4_max_allocation (read_spend_v4 cr)) (\<lambda>spends.
     pbind (read_vec output_v4_max_allocation (read_output_v4 cr)) (\<lambda>souts.
     pbind (read_opt_joinsplit_data GROTH16_PROOF_SIZE) (\<lambda>js.
     case v4_transfers spends souts of
       None \<Rightarrow> if value_balance \<noteq> 0 then pfail BadTransactionBalance
               else preturn (V4 ins outs t h js None)
     | Some transfers \<Rightarrow> pbind read_64_bytes (\<lambda>sig.
         preturn (V4 ins outs t h js (Some \<lparr>sd_value_balance = value_balance,
           sd_transfers = transfers, sd_binding_sig = sig\<rparr>))))))))))))"

definition valid_sapling_v4 :: "crypto \<Rightarrow> sapling_v4 \<Rightarrow> bool" where
  "valid_sapling_v4 cr d \<longleftrightarrow>
     valid_amount NegativeAllowed (sd_value_balance d) \<and> transfer_shape_ok (sd_transfers d) \<and>
     length (sd_spends d) \<le> spend_v4_max_allocation \<and> list_all (valid_spend_v4 cr) (sd_spends d) \<and>
     length (sd_outputs d) \<le> output_v4_max_allocation \<and> list_all (valid_output_v4 cr) (sd_outputs d) \<and>
     length (sd_binding_sig d) = 64"

fun valid_v4 :: "crypto \<Rightarrow> transaction \<Rightarrow> bool" where
  "valid_v4 cr (V4 ins outs t h js sapling) \<longleftrightarrow>
     valid_inputs cr ins \<and> valid_outputs outs \<and> valid_lock_time t \<and>
     opt_all (valid_joinsplit_data GROTH16_PROOF_SIZE) js \<and>
     opt_all (\<lambda>d. valid_sapling_v4 cr d \<and> (inputs_are_coinbase ins \<longrightarrow> sd_spends d = [])) sapling"
| "valid_v4 cr _ \<longleftrightarrow> False"

interpretation codec_spends_v4: codec "write_vec write_spend_v4"
  "read_guarded_vec g e spend_v4_max_allocation (read_spend_v4 cr)"
  "\<lambda>xs. (g \<longrightarrow> xs = []) \<and> length xs \<le> spend_v4_max_allocation \<and>
     length xs \<le> MAX_PROTOCOL_MESSAGE_LEN \<and> list_all (valid_spend_v4 cr) xs" for g e cr
  by (rule codec_guarded_vec [OF codec_spend_v4.codec_axioms])

interpretation codec_outputs_v4: codec "write_vec write_output_v4"
  "read_vec output_v4_max_allocation (read_output_v4 cr)"
  "\<lambda>xs. length xs \<le> output_v4_max_allocation \<and>
     length xs \<le> MAX_PROTOCOL_MESSAGE_LEN \<and> list_all (valid_output_v4 cr) xs" for cr
  by (rule codec_vec [OF codec_output_v4.codec_axioms])

lemma v4_bounds [simp]:
  "n \<le> spend_v4_max_allocation \<Longrightarrow> n \<le> MAX_PROTOCOL_MESSAGE_LEN"
  "n \<le> output_v4_max_allocation \<Longrightarrow> n \<le> MAX_PROTOCOL_MESSAGE_LEN"
  by (simp_all add: allocation_defs)

lemma sapling_v4_cases:
  assumes "transfer_shape_ok (sd_transfers (d :: sapling_v4))"
  shows "v4_transfers (sd_spends d) (sd_outputs d) = Some (sd_transfers d)"
  using assms by (cases "sd_transfers d")
    (auto simp: v4_transfers_def transfer_shape_ok_def sd_spends_def sd_outputs_def)

lemma v4_transfers_None: "v4_transfers ss os = None \<longleftrightarrow> ss = [] \<and> os = []"
  by (simp add: v4_transfers_def)

lemma v4_transfers_Some:
  assumes "v4_transfers ss os = Some tr"
  shows "transfer_shape_ok tr" "transfer_spends tr = ss" "transfer_outputs tr = os"
  using assms by (auto simp: v4_transfers_def transfer_shape_ok_def split: if_splits)

lemma written_v4:
  assumes cr: "push_num_bip34 cr" and v: "valid_v4 cr (V4 ins outs t h js sapling)"
  shows "\<exists>b. write_body cr (V4 ins outs t h js sapling) = Ok b \<and>
    (\<forall>rest. read_v4 cr (b @ rest) = Ok (V4 ins outs t h js sapling, rest))"
proof -
  let ?e = "Parse ''coinbase transaction must not have Sapling spends''"
  let ?c = "inputs_are_coinbase ins"
  note w = codec.written [OF codec_inputs [OF cr], of ins] codec_outputs.written [of outs]
    codec_lock_time.written [of t] codec_height.written [of h]
    codec_opt_joinsplit_data.written [of GROTH16_PROOF_SIZE js]
    group_id_written [of SAPLING_VERSION_GROUP_ID "''expected SAPLING_VERSION_GROUP_ID''"]
  show ?thesis
  proof (cases sapling)
    case None
    obtain z where z: "write_i64 0 = Ok z" "\<And>rest. read_amount (z @ rest) = Ok (0, rest)"
      using codec_amount.written [of 0] by (auto simp: write_amount_def)
    obtain e where e: "write_empty_list = Ok e"
      using codec_csm.written [of 0] by (auto simp: write_empty_list_def)
    have "read_guarded_vec ?c ?e spend_v4_max_allocation (read_spend_v4 cr) (e @ rest) = Ok ([], rest)"
      "read_vec output_v4_max_allocation (read_output_v4 cr) (e @ rest) = Ok ([], rest)" for rest
      using codec_spends_v4.written [of ?c "[]" cr ?e] codec_outputs_v4.written [of "[]" cr]
      by (simp_all add: write_vec_Nil e)
    with w v z show ?thesis
      by (auto simp: None read_v4_def e v4_transfers_def simp del: valid_amount_simps)
  next
    case (Some d)
    with v have "v4_transfers (sd_spends d) (sd_outputs d) = Some (sd_transfers d)"
      by (simp add: sapling_v4_cases valid_sapling_v4_def)
    with w v codec_spends_v4.written [of ?c "sd_spends d" cr ?e] codec_outputs_v4.written [of "sd_outputs d" cr]
      codec_amount.written [of "sd_value_balance d"]
    show ?thesis
      by (auto simp: Some read_v4_def valid_sapling_v4_def read_64_bytes_def simp del: valid_amount_simps)
  qed
qed

lemma read_v4_Ok:
  assumes cr: "push_num_bip34 cr" and r: "read_v4 cr bs = Ok (tx, rest)"
  shows "tx_version tx = 4 \<and> valid_v4 cr tx \<and> (\<exists>b. write_body cr tx = Ok b \<and> bs = b @ rest)"
proof -
  let ?e = "Parse ''coinbase transaction must not have Sapling spends''"
  obtain ins m1 outs m2 t m3 h m4 vb m5 ss m6 os m7 js m8 m0 where
    p: "expect_group_id SAPLING_VERSION_GROUP_ID ''expected SAPLING_VERSION_GROUP_ID'' bs = Ok ((), m0)"
      "read_inputs cr m0 = Ok (ins, m1)" "read_outputs m1 = Ok (outs, m2)" "read_lock_time m2 = Ok (t, m3)"
      "read_height m3 = Ok (h, m4)" "read_amount m4 = Ok (vb, m5)"
      "read_guarded_vec (inputs_are_coinbase ins) ?e spend_v4_max_allocation (read_spend_v4 cr) m5 = Ok (ss, m6)"
      "read_vec output_v4_max_allocation (read_output_v4 cr) m6 = Ok (os, m7)"
      "read_opt_joinsplit_data GROTH16_PROOF_SIZE m7 = Ok (js, m8)"
    and fin: "(case v4_transfers ss os of
       None \<Rightarrow> if vb \<noteq> 0 then pfail BadTransactionBalance else preturn (V4 ins outs t h js None)
     | Some transfers \<Rightarrow> pbind read_64_bytes (\<lambda>sig.
         preturn (V4 ins outs t h js (Some \<lparr>sd_value_balance = vb,
           sd_transfers = transfers, sd_binding_sig = sig\<rparr>)))) m8 = Ok (tx, rest)"
    using r unfolding read_v4_def pbind_Ok_iff unit_all_eq1 by (auto; blast)
  note w = codec.read [OF codec_group_id p(1)] codec.read [OF codec_inputs [OF cr] p(2)]
    codec_outputs.read [OF p(3)] codec_lock_time.read [OF p(4)] codec_height.read [OF p(5)]
    codec_amount.read [OF p(6)] codec_spends_v4.read [OF p(7)] codec_outputs_v4.read [OF p(8)]
    codec_opt_joinsplit_data.read [OF p(9)]
  obtain e where e: "write_empty_list = Ok e"
    using codec_csm.written [of 0] by (auto simp: write_empty_list_def)
  show ?thesis
  proof (cases "v4_transfers ss os")
    case None
    with fin w show ?thesis
      by (auto simp: v4_transfers_None write_vec_Nil e write_amount_def split: if_splits)
  next
    case (Some tr)
    with fin w v4_transfers_Some [OF Some] show ?thesis
      by (auto simp: pbind_Ok_iff read_64_bytes_def read_exact_Ok_iff valid_sapling_v4_def sd_spends_def
          sd_outputs_def map_sum_Ok_iff simp del: valid_amount_simps)
  qed
qed

section \<open>Versions 5 and 6\<close>

text \<open>The fields up to the end, before the check against librustzcash.\<close>

definition read_v5_fields :: "crypto \<Rightarrow> transaction parser" where
  "read_v5_fields cr =
     pbind (expect_group_id TX_V5_VERSION_GROUP_ID ''expected TX_V5_VERSION_GROUP_ID'') (\<lambda>_.
     pbind (read_branch Nu5 ''v5 transaction must have NU5 or later consensus branch ID'') (\<lambda>nu.
     pbind read_lock_time (\<lambda>t. pbind read_height (\<lambda>h.
     pbind (read_inputs cr) (\<lambda>ins. pbind read_outputs (\<lambda>outs.
     pbind (deserialize_v5_sapling cr (inputs_are_coinbase ins)) (\<lambda>sapling.
     pbind (deserialize_orchard cr PRE_NU6_3_RESERVED) (\<lambda>orchard.
     preturn (V5 nu t h ins outs sapling orchard)))))))))"

definition read_v6_fields :: "crypto \<Rightarrow> transaction parser" where
  "read_v6_fields cr =
     pbind (expect_group_id TX_V6_VERSION_GROUP_ID ''expected TX_V6_VERSION_GROUP_ID'') (\<lambda>_.
     pbind (read_branch Nu6_3 ''v6 transaction must have a NU6.3 or later consensus branch ID'') (\<lambda>nu.
     pbind read_lock_time (\<lambda>t. pbind read_height (\<lambda>h.
     pbind (read_inputs cr) (\<lambda>ins. pbind read_outputs (\<lambda>outs.
     pbind (deserialize_v5_sapling cr (inputs_are_coinbase ins)) (\<lambda>sapling.
     pbind (deserialize_orchard cr PRE_NU6_3_RESERVED) (\<lambda>orchard.
     pbind (deserialize_orchard cr NU6_3_RESERVED) (\<lambda>ironwood.
     preturn (V6 nu t h ins outs sapling (map_option ShieldedDataV6 orchard)
       (map_option (\<lambda>d. IronwoodData (ShieldedDataV6 d)) ironwood)))))))))))"

fun valid_v56 :: "crypto \<Rightarrow> transaction \<Rightarrow> bool" where
  "valid_v56 cr (V5 nu t h ins outs sapling orchard) \<longleftrightarrow>
     Nu5 \<le> nu \<and> branch_id nu \<noteq> None \<and> valid_lock_time t \<and> valid_inputs cr ins \<and> valid_outputs outs \<and>
     valid_opt_sapling_v5 cr (inputs_are_coinbase ins) sapling \<and>
     opt_all (valid_orchard cr PRE_NU6_3_RESERVED) orchard"
| "valid_v56 cr (V6 nu t h ins outs sapling orchard ironwood) \<longleftrightarrow>
     Nu6_3 \<le> nu \<and> branch_id nu \<noteq> None \<and> valid_lock_time t \<and> valid_inputs cr ins \<and> valid_outputs outs \<and>
     valid_opt_sapling_v5 cr (inputs_are_coinbase ins) sapling \<and>
     opt_all (valid_orchard cr PRE_NU6_3_RESERVED) (map_option v6_data orchard) \<and>
     opt_all (valid_orchard cr NU6_3_RESERVED) (map_option ironwood_inner_data ironwood)"
| "valid_v56 cr _ \<longleftrightarrow> False"

lemmas codec_orchard_pool = codec_opt_orchard [of PRE_NU6_3_RESERVED, simplified]
lemmas codec_ironwood_pool = codec_opt_orchard [of NU6_3_RESERVED, simplified]

lemma unwrap_v6 [simp]:
  "map_option ShieldedDataV6 (map_option v6_data x) = x"
  "map_option v6_data (map_option ShieldedDataV6 y) = y"
  "map_option (\<lambda>d. IronwoodData (ShieldedDataV6 d)) (map_option ironwood_inner_data z) = z"
  "map_option ironwood_inner_data (map_option (\<lambda>d. IronwoodData (ShieldedDataV6 d)) y) = y"
proof -
  have "(ShieldedDataV6 \<circ> v6_data) = id" by (rule ext) simp
  moreover have "(\<lambda>d. IronwoodData (ShieldedDataV6 (ironwood_inner_data d))) = id"
    by (rule ext) (simp add: ironwood_inner_data_def)
  ultimately show "map_option ShieldedDataV6 (map_option v6_data x) = x"
    "map_option (\<lambda>d. IronwoodData (ShieldedDataV6 d)) (map_option ironwood_inner_data z) = z"
    by (simp_all add: option.map_comp o_def option.map_id) 
qed (simp_all add: option.map_comp o_def ironwood_inner_data_def option.map_ident)

lemma read_v56:
  assumes cr: "push_num_bip34 cr"
  shows "read_v5_fields cr bs = Ok (tx, rest) \<Longrightarrow>
      tx_version tx = 5 \<and> valid_v56 cr tx \<and> (\<exists>b. write_body cr tx = Ok b \<and> bs = b @ rest)"
    and "read_v6_fields cr bs = Ok (tx, rest) \<Longrightarrow>
      tx_version tx = 6 \<and> valid_v56 cr tx \<and> (\<exists>b. write_body cr tx = Ok b \<and> bs = b @ rest)"
  by (auto simp: read_v5_fields_def read_v6_fields_def pbind_Ok_iff
      dest!: codec.read [OF codec_inputs [OF cr]] codec_outputs.read codec_lock_time.read
        codec_height.read codec.read [OF codec_group_id] codec.read [OF codec_branch]
        codec_opt_sapling_v5.read codec.read [OF codec_orchard_pool] codec.read [OF codec_ironwood_pool])

lemma written_v56:
  assumes cr: "push_num_bip34 cr" and v: "valid_v56 cr tx"
  shows "\<exists>b. write_body cr tx = Ok b \<and>
    (\<forall>rest. (if tx_version tx = 5 then read_v5_fields cr else read_v6_fields cr) (b @ rest) = Ok (tx, rest))"
proof (cases tx)
  case (V5 nu t h ins outs sapling orchard)
  with v codec.written [OF codec_inputs [OF cr], of ins] codec_outputs.written [of outs]
    codec_lock_time.written [of t] codec_height.written [of h]
    codec.written [OF codec_branch [of Nu5 "''v5 transaction must have NU5 or later consensus branch ID''"], of nu]
    group_id_written [of TX_V5_VERSION_GROUP_ID "''expected TX_V5_VERSION_GROUP_ID''"]
    codec_opt_sapling_v5.written [of cr "inputs_are_coinbase ins" sapling]
    codec.written [OF codec_orchard_pool, of cr orchard]
  show ?thesis by (auto simp: read_v5_fields_def)
next
  case (V6 nu t h ins outs sapling orchard ironwood)
  with v codec.written [OF codec_inputs [OF cr], of ins] codec_outputs.written [of outs]
    codec_lock_time.written [of t] codec_height.written [of h]
    codec.written [OF codec_branch [of Nu6_3 "''v6 transaction must have a NU6.3 or later consensus branch ID''"], of nu]
    group_id_written [of TX_V6_VERSION_GROUP_ID "''expected TX_V6_VERSION_GROUP_ID''"]
    codec_opt_sapling_v5.written [of cr "inputs_are_coinbase ins" sapling]
    codec.written [OF codec_orchard_pool, of cr "map_option v6_data orchard"]
    codec.written [OF codec_ironwood_pool, of cr "map_option ironwood_inner_data ironwood"]
  show ?thesis by (auto simp: read_v6_fields_def)
qed (use v in auto)

section \<open>Whole transactions\<close>

text \<open>
  \<open>to_librustzcash\<close>: the check that librustzcash reads what Zebra writes. Its result, the
  librustzcash transaction, is only looked at for being there. \<open>LrzPanic\<close> is a panic while
  writing; \<open>reread_never_panics\<close> shows that none happens to a transaction just read.
\<close>

datatype lrz_failure = LrzError chain_error | LrzPanic string

definition to_librustzcash :: "crypto \<Rightarrow> transaction \<Rightarrow> network_upgrade \<Rightarrow> (lrz_failure, unit) result" where
  "to_librustzcash cr tx nu =
     (if (case tx_network_upgrade tx of Some tx_nu \<Rightarrow> tx_nu \<noteq> nu | None \<Rightarrow> False)
      then Err (LrzError InvalidConsensusBranchId)
      else case branch_id nu of
        None \<Rightarrow> Err (LrzError InvalidConsensusBranchId)
      | Some b \<Rightarrow>
          if \<not> lrz_branch_ok cr b then Err (LrzError InvalidConsensusBranchId)
          else case write_transaction cr tx of
              Err (WriteIo e) \<Rightarrow> Err (LrzError (ChainIo e))
            | Err (WritePanic msg) \<Rightarrow> Err (LrzPanic msg)
            | Ok bs \<Rightarrow> (case lrz_read cr bs b of Some e \<Rightarrow> Err (LrzError (ChainIo e)) | None \<Rightarrow> Ok ()))"

fun ser_error_of_lrz :: "lrz_failure \<Rightarrow> ser_error" where
  "ser_error_of_lrz (LrzError e) = ser_error_of_chain e"
| "ser_error_of_lrz (LrzPanic msg) = Io (''panicked: '' @ msg)"

definition check_lrz :: "crypto \<Rightarrow> transaction parser \<Rightarrow> transaction parser" where
  "check_lrz cr p =
     pbind p (\<lambda>tx.
       case tx_network_upgrade tx of
         None \<Rightarrow> preturn tx
       | Some nu \<Rightarrow> pbind (plift (map_err ser_error_of_lrz (to_librustzcash cr tx nu))) (\<lambda>_. preturn tx))"

definition read_version :: "crypto \<Rightarrow> u32 \<times> bool \<Rightarrow> transaction parser" where
  "read_version cr v =
     (if v = (1, False) then read_v1 cr
      else if v = (2, False) then read_v2 cr
      else if v = (3, True) then read_v3 cr
      else if v = (4, True) then read_v4 cr
      else if v = (5, True) then check_lrz cr (read_v5_fields cr)
      else if v = (6, True) then check_lrz cr (read_v6_fields cr)
      else pfail (Parse ''bad tx header''))"

definition read_limited :: "crypto \<Rightarrow> transaction parser" where
  "read_limited cr = pbind read_u32 (\<lambda>header. read_version cr (header_version header))"

definition read_transaction :: "crypto \<Rightarrow> transaction parser" where
  "read_transaction cr = ptake MAX_BLOCK_BYTES (read_limited cr)"

definition valid_fields :: "crypto \<Rightarrow> transaction \<Rightarrow> bool" where
  "valid_fields cr tx \<longleftrightarrow> valid_v123 cr tx \<or> valid_v4 cr tx \<or> valid_v56 cr tx"

definition lrz_accepts :: "crypto \<Rightarrow> transaction \<Rightarrow> bool" where
  "lrz_accepts cr tx \<longleftrightarrow>
     (case tx_network_upgrade tx of None \<Rightarrow> True | Some nu \<Rightarrow> to_librustzcash cr tx nu = Ok ())"

lemma valid_version:
  "valid_v123 cr tx \<Longrightarrow> tx_version tx \<in> {1, 2, 3} \<and> tx_network_upgrade tx = None"
  "valid_v4 cr tx \<Longrightarrow> tx_version tx = 4 \<and> tx_network_upgrade tx = None"
  "valid_v56 cr tx \<Longrightarrow> tx_version tx \<in> {5, 6} \<and> tx_network_upgrade tx \<noteq> None"
  by (cases tx; simp)+

lemma version_overwintered: "is_overwintered tx \<longleftrightarrow> tx_version tx \<noteq> 1 \<and> tx_version tx \<noteq> 2"
  by (cases tx) simp_all

lemma check_lrz_Ok_iff:
  "check_lrz cr p bs = Ok (tx, rest) \<longleftrightarrow> p bs = Ok (tx, rest) \<and> lrz_accepts cr tx"
  by (auto simp: check_lrz_def pbind_Ok_iff lrz_accepts_def split: option.splits)

lemma version_written:
  assumes cr: "push_num_bip34 cr" and tx: "valid_fields cr tx" "lrz_accepts cr tx"
  shows "\<exists>b. write_body cr tx = Ok b \<and>
    (\<forall>rest. read_version cr (tx_version tx, is_overwintered tx) (b @ rest) = Ok (tx, rest))"
proof -
  consider "valid_v123 cr tx" | "valid_v4 cr tx" | "valid_v56 cr tx" using tx by (auto simp: valid_fields_def)
  then show ?thesis
  proof cases
    case 1
    with written_v123 [OF cr 1] show ?thesis by (cases tx) (auto simp: read_version_def)
  next
    case 2
    with written_v4 [OF cr] show ?thesis by (cases tx) (auto simp: read_version_def)
  next
    case 3
    with written_v56 [OF cr 3] tx show ?thesis by (cases tx) (auto simp: read_version_def check_lrz_Ok_iff)
  qed
qed

lemma read_version_Ok:
  assumes cr: "push_num_bip34 cr" and r: "read_version cr v bs = Ok (tx, rest)"
  shows "v = (tx_version tx, is_overwintered tx) \<and> valid_fields cr tx \<and> lrz_accepts cr tx
      \<and> (\<exists>b. write_body cr tx = Ok b \<and> bs = b @ rest)"
proof -
  have pre5: "lrz_accepts cr tx" if "valid_v123 cr tx \<or> valid_v4 cr tx"
    using that valid_version(1,2) [of cr tx] by (auto simp: lrz_accepts_def)
  consider "v = (1, False)" "read_v1 cr bs = Ok (tx, rest)" | "v = (2, False)" "read_v2 cr bs = Ok (tx, rest)"
    | "v = (3, True)" "read_v3 cr bs = Ok (tx, rest)" | "v = (4, True)" "read_v4 cr bs = Ok (tx, rest)"
    | "v = (5, True)" "read_v5_fields cr bs = Ok (tx, rest)" "lrz_accepts cr tx"
    | "v = (6, True)" "read_v6_fields cr bs = Ok (tx, rest)" "lrz_accepts cr tx"
    using r by (auto simp: read_version_def check_lrz_Ok_iff split: if_splits)
  then show ?thesis
    by cases (use pre5 in \<open>auto simp: valid_fields_def version_overwintered
        dest!: read_v123 [OF cr] read_v4_Ok [OF cr] read_v56 [OF cr]\<close>)
qed

lemma codec_transaction:
  assumes cr: "push_num_bip34 cr"
  shows "codec (write_transaction cr) (read_limited cr) (\<lambda>tx. valid_fields cr tx \<and> lrz_accepts cr tx)"
proof
  fix tx assume "valid_fields cr tx \<and> lrz_accepts cr tx"
  with version_written [OF cr, of tx] codec_u32.written [of "tx_header tx"]
  show "\<exists>b. write_transaction cr tx = Ok b \<and> (\<forall>rest. read_limited cr (b @ rest) = Ok (tx, rest))"
    by (auto simp: write_transaction_def read_limited_def)
next
  fix bs rest tx assume "read_limited cr bs = Ok (tx, rest)"
  then obtain h m where h: "read_u32 bs = Ok (h, m)" and v: "read_version cr (header_version h) m = Ok (tx, rest)"
    by (auto simp: read_limited_def pbind_Ok_iff)
  from read_version_Ok [OF cr v] header_of_version [of h tx] codec_u32.read [OF h]
  show "(valid_fields cr tx \<and> lrz_accepts cr tx) \<and> (\<exists>b. write_transaction cr tx = Ok b \<and> bs = b @ rest)"
    by (auto simp: write_transaction_def)
qed

text \<open>What \<open>take\<close> leaves of a codec: values whose encoding fits the limit.\<close>

lemma ptake_codec:
  assumes "codec w p v"
  shows "ptake lim p bs = Ok (x, rest) \<longleftrightarrow> v x \<and> (\<exists>b. w x = Ok b \<and> length b \<le> lim \<and> bs = b @ rest)"
proof
  assume "ptake lim p bs = Ok (x, rest)"
  then obtain r where r: "p (take lim bs) = Ok (x, r)" "rest = r @ drop lim bs"
    by (auto simp: ptake_def split: sum.splits)
  from codec.read [OF assms r(1)] obtain b where b: "v x" "w x = Ok b" "take lim bs = b @ r" by blast
  then have "bs = b @ rest" using r(2) by (metis append.assoc append_take_drop_id)
  moreover have "length b \<le> lim" using b(3) by (metis length_append length_take min.cobounded2 add_leD1)
  ultimately show "v x \<and> (\<exists>b. w x = Ok b \<and> length b \<le> lim \<and> bs = b @ rest)" using b by blast
next
  assume "v x \<and> (\<exists>b. w x = Ok b \<and> length b \<le> lim \<and> bs = b @ rest)"
  then obtain b where b: "v x" "w x = Ok b" "length b \<le> lim" "bs = b @ rest" by blast
  then have "p (take lim bs) = Ok (x, take (lim - length b) rest)"
    using codec.roundtrip [OF assms b(1,2)] by simp
  with b show "ptake lim p bs = Ok (x, rest)" by (simp add: ptake_def)
qed

lemma read_transaction_iff:
  assumes "push_num_bip34 cr"
  shows "read_transaction cr bs = Ok (tx, rest) \<longleftrightarrow>
    valid_fields cr tx \<and> lrz_accepts cr tx
    \<and> (\<exists>b. write_transaction cr tx = Ok b \<and> length b \<le> MAX_BLOCK_BYTES \<and> bs = b @ rest)"
  unfolding read_transaction_def ptake_codec [OF codec_transaction [OF assms]] by blast

lemma reread_never_panics:
  assumes cr: "push_num_bip34 cr" and v: "read_v5_fields cr bs = Ok (tx, rest) \<or> read_v6_fields cr bs = Ok (tx, rest)"
  shows "to_librustzcash cr tx nu \<noteq> Err (LrzPanic msg)"
proof -
  obtain b where "write_body cr tx = Ok b"
    using v read_v56 [OF cr, of bs tx rest] by auto
  with codec_u32.written [of "tx_header tx"] obtain c where "write_transaction cr tx = Ok c"
    by (auto simp: write_transaction_def)
  then show ?thesis by (simp add: to_librustzcash_def split: option.splits)
qed

lemma spends_per_anchor_Nil [simp]: "spends_per_anchor f d = Some [] \<longleftrightarrow> sd_spends d = []"
  using spends_per_anchor_total [of f d] by auto

lemma sapling_spends_Nil:
  "sapling_spends_per_anchor tx = Some [] \<longleftrightarrow> (case tx of
     V4 _ _ _ _ _ (Some d) \<Rightarrow> sd_spends d = []
   | V5 _ _ _ _ _ (Some d) _ \<Rightarrow> sd_spends d = []
   | V6 _ _ _ _ _ (Some d) _ _ \<Rightarrow> sd_spends d = []
   | _ \<Rightarrow> True)"
  by (cases tx rule: sapling_spends_per_anchor.cases) simp_all

lemma coinbase_no_spends:
  "valid_fields cr tx \<Longrightarrow> is_coinbase tx \<Longrightarrow> sapling_spends_per_anchor tx = Some []"
  unfolding sapling_spends_Nil
  by (cases tx) (auto simp: valid_fields_def is_coinbase_def valid_opt_sapling_v5_def split: option.splits)

lemma valid_output_amounts:
  "valid_fields cr tx \<Longrightarrow> list_all (\<lambda>x. valid_amount NonNegative (out_value x)) (tx_outputs tx)"
  by (cases tx) (auto simp: valid_fields_def valid_outputs_def valid_output_def list_all_iff
      simp del: valid_amount_simps)

lemma valid_orchard_flags:
  "valid_fields cr tx \<Longrightarrow> orchard_shielded_data tx = Some d \<Longrightarrow> od_flags d AND PRE_NU6_3_RESERVED = 0 \<and> od_actions d \<noteq> []"
  "valid_fields cr tx \<Longrightarrow> ironwood_shielded_data tx = Some d \<Longrightarrow> od_flags d AND NU6_3_RESERVED = 0 \<and> od_actions d \<noteq> []"
  by (cases tx; auto simp: valid_fields_def valid_orchard_def)+

lemma valid_branch:
  "valid_fields cr tx \<Longrightarrow> tx_network_upgrade tx = Some nu \<Longrightarrow>
     branch_id nu \<noteq> None \<and> Nu5 \<le> nu \<and> (tx_version tx = 6 \<longrightarrow> Nu6_3 \<le> nu)"
proof -
  have "Nu5 \<le> Nu6_3" by (simp add: less_eq_network_upgrade_def)
  then show "valid_fields cr tx \<Longrightarrow> tx_network_upgrade tx = Some nu \<Longrightarrow>
     branch_id nu \<noteq> None \<and> Nu5 \<le> nu \<and> (tx_version tx = 6 \<longrightarrow> Nu6_3 \<le> nu)"
    by (cases tx) (auto simp: valid_fields_def)
qed

section \<open>Properties\<close>

text \<open>A concrete instance of the libraries, for the witnesses: everything decodes.\<close>

definition demo_crypto :: crypto where
  "demo_crypto = \<lparr>sapling_cv_ok = (\<lambda>_. True), sapling_cmu_ok = (\<lambda>_. True), jubjub_base_ok = (\<lambda>_. True),
     jubjub_affine_ok = (\<lambda>_. True), jubjub_small_order = (\<lambda>_. False), redjubjub_vk_ok = (\<lambda>_. True),
     pallas_base_ok = (\<lambda>_. True), pallas_affine_ok = (\<lambda>_. True), pallas_identity = (\<lambda>_. False),
     push_num = (\<lambda>h. bip34_height (nat h)), lrz_branch_ok = (\<lambda>_. True), lrz_read = (\<lambda>_ _. None)\<rparr>"

lemma demo_bip34: "push_num_bip34 demo_crypto"
  by (simp add: push_num_bip34_def demo_crypto_def)

lemma write_u32_small: "write_u32 1 = Ok [1, 0, 0, 0]" "write_u32 0 = Ok [0, 0, 0, 0]"
proof -
  have "(4::nat) = Suc (Suc (Suc (Suc 0)))" by simp
  then have four: "be_of_nat 4 v = be_of_nat (Suc (Suc (Suc (Suc 0)))) v" for v by (rule arg_cong)
  show "write_u32 1 = Ok [1, 0, 0, 0]" "write_u32 0 = Ok [0, 0, 0, 0]"
    by (simp_all add: write_u32_def le_of_nat_def four)
qed

lemma write_empty_list_eq: "write_empty_list = Ok [0]"
  by (simp add: write_empty_list_def write_csm_def write_compact64_def write_u8_def)

lemma demo_written:
  "write_transaction demo_crypto (V1 [] [] (LockHeight (Height 0))) = Ok [1,0,0,0, 0, 0, 0,0,0,0]"
  by (simp add: write_transaction_def tx_header_def write_u32_small write_inputs_def write_outputs_def
      write_vec_Nil write_empty_list_eq)

text \<open>
  C16. A transaction has exactly one encoding: the reader accepts a byte string precisely when it
  starts with what the writer produces for the transaction it returns, of at most a block's size,
  with every field inside its bounds and the whole accepted by librustzcash; the bytes after it
  are left. So reading back what was written gives the same transaction, two byte strings that
  read as the same transaction have the same encoding in front, and no transaction can be
  re-encoded by a third party.
\<close>

theorem transaction_encoding_is_canonical:
  assumes "push_num_bip34 cr"
  shows "(read_transaction cr bs = Ok (tx, rest) \<longleftrightarrow>
      valid_fields cr tx \<and> lrz_accepts cr tx
      \<and> (\<exists>b. write_transaction cr tx = Ok b \<and> length b \<le> MAX_BLOCK_BYTES \<and> bs = b @ rest))
    \<and> (read_transaction cr bs = Ok (tx, rest) \<longrightarrow> read_transaction cr bs' = Ok (tx, rest') \<longrightarrow>
      take (length bs - length rest) bs = take (length bs' - length rest') bs')"
proof -
  note iff = read_transaction_iff [OF assms]
  moreover have "take (length bs - length rest) bs = take (length bs' - length rest') bs'"
    if "read_transaction cr bs = Ok (tx, rest)" "read_transaction cr bs' = Ok (tx, rest')"
    using that by (auto simp: iff)
  ultimately show ?thesis by blast
qed

theorem transaction_encoding_is_canonical_witness:
  "read_transaction demo_crypto ([1,0,0,0, 0, 0, 0,0,0,0] @ [7]) = Ok (V1 [] [] (LockHeight (Height 0)), [7])"
  using transaction_encoding_is_canonical [OF demo_bip34, of "[1,0,0,0, 0, 0, 0,0,0,0] @ [7]"
      "V1 [] [] (LockHeight (Height 0))" "[7]"] demo_written
  by (simp add: valid_fields_def valid_inputs_def valid_outputs_def lrz_accepts_def MAX_BLOCK_BYTES_def
      LOCK_MIN_TIMESTAMP_def)

text \<open>
  C17. What a transaction read from untrusted bytes satisfies, whatever the bytes: it is no larger
  than a block; its transparent outputs are money amounts between zero and the supply limit; a
  coinbase transaction has no Sapling spends; a version 5 or 6 transaction names an upgrade with a
  branch id, at least NU5 for version 5 and NU6.3 for version 6; an Orchard bundle has an action
  and no flag but spends and outputs enabled, and only an Ironwood bundle may have the
  cross-address flag.
\<close>

theorem parsed_transaction_obeys_the_rules:
  assumes "push_num_bip34 cr" and "read_transaction cr bs = Ok (tx, rest)"
  shows "length bs - length rest \<le> MAX_BLOCK_BYTES
    \<and> (\<forall>x \<in> set (tx_outputs tx). 0 \<le> out_value x \<and> out_value x \<le> MAX_MONEY)
    \<and> (is_coinbase tx \<longrightarrow> sapling_spends_per_anchor tx = Some [])
    \<and> (\<forall>nu. tx_network_upgrade tx = Some nu \<longrightarrow>
         branch_id nu \<noteq> None \<and> Nu5 \<le> nu \<and> (tx_version tx = 6 \<longrightarrow> Nu6_3 \<le> nu))
    \<and> (\<forall>d. orchard_shielded_data tx = Some d \<longrightarrow> od_actions d \<noteq> [] \<and> od_flags d AND NOT 3 = 0)
    \<and> (\<forall>d. ironwood_shielded_data tx = Some d \<longrightarrow> od_actions d \<noteq> [] \<and> od_flags d AND NOT 7 = 0)"
proof -
  obtain b where v: "valid_fields cr tx" and b: "length b \<le> MAX_BLOCK_BYTES" "bs = b @ rest"
    using assms(2) by (auto simp: read_transaction_iff [OF assms(1)])
  have "PRE_NU6_3_RESERVED = NOT 3" "NU6_3_RESERVED = NOT 7"
    by (simp_all add: PRE_NU6_3_RESERVED_def NU6_3_RESERVED_def ENABLE_SPENDS_def ENABLE_OUTPUTS_def
        ENABLE_CROSS_ADDRESS_def)
  with valid_orchard_flags [OF v] coinbase_no_spends [OF v] valid_branch [OF v] valid_output_amounts [OF v] b
  show ?thesis by (auto simp: list_all_iff)
qed

theorem parsed_transaction_obeys_the_rules_witness:
  "length ([1,0,0,0, 0, 0, 0,0,0,0, 7] :: bytes) - length ([7] :: bytes) \<le> MAX_BLOCK_BYTES"
proof -
  have "read_transaction demo_crypto [1,0,0,0, 0, 0, 0,0,0,0, 7] = Ok (V1 [] [] (LockHeight (Height 0)), [7])"
    using demo_written
    by (simp add: read_transaction_iff [OF demo_bip34] valid_fields_def valid_inputs_def valid_outputs_def
        lrz_accepts_def MAX_BLOCK_BYTES_def LOCK_MIN_TIMESTAMP_def)
  from parsed_transaction_obeys_the_rules [OF demo_bip34 this] show ?thesis by blast
qed

end
