(* ===== verification/ValueBalance.thy ===== *)
theory ValueBalance
  imports TxData
begin

text \<open>
  Balances per value pool (\<open>zebra-chain/src/value_balance.rs\<close>) and the balances of a
  transaction (\<open>transaction.rs\<close>, \<open>transaction/joinsplit.rs\<close>,
  \<open>sprout/joinsplit.rs\<close>, \<open>transparent.rs\<close>). As for amounts, \<open>None\<close> is a panic; the
  constraint type parameter is an argument.
\<close>

section \<open>Pools\<close>

record value_balance =
  vb_transparent :: int
  vb_sprout :: int
  vb_sapling :: int
  vb_orchard :: int
  vb_deferred :: int
  vb_ironwood :: int

datatype vb_error =
    TransparentErr amount_error | SproutErr amount_error | SaplingErr amount_error
  | OrchardErr amount_error | DeferredErr amount_error | IronwoodErr amount_error
  | TotalErr amount_error | Unparsable

fun display_vb_error :: "vb_error \<Rightarrow> string" where
  "display_vb_error (TransparentErr e) = ''transparent amount err: '' @ display_amount_error e"
| "display_vb_error (SproutErr e) = ''sprout amount err: '' @ display_amount_error e"
| "display_vb_error (SaplingErr e) = ''sapling amount err: '' @ display_amount_error e"
| "display_vb_error (OrchardErr e) = ''orchard amount err: '' @ display_amount_error e"
| "display_vb_error (DeferredErr e) = ''deferred amount err: '' @ display_amount_error e"
| "display_vb_error (IronwoodErr e) = ''ironwood amount err: '' @ display_amount_error e"
| "display_vb_error (TotalErr e) = ''total amount err: '' @ display_amount_error e"
| "display_vb_error Unparsable = ''value balance is unparsable''"

type_synonym ('e, 'a) outcome = "('e, 'a) result option"

text \<open>Sequencing of steps that may fail (\<open>?\<close>) or panic.\<close>

definition obind :: "('e, 'a) outcome \<Rightarrow> ('a \<Rightarrow> ('e, 'b) outcome) \<Rightarrow> ('e, 'b) outcome" where
  "obind m f = (case m of None \<Rightarrow> None | Some (Err e) \<Rightarrow> Some (Err e) | Some (Ok x) \<Rightarrow> f x)"

definition oerr :: "('e \<Rightarrow> 'f) \<Rightarrow> ('e, 'a) outcome \<Rightarrow> ('f, 'a) outcome" where
  "oerr g m = map_option (map_err g) m"

lemma obind_Some_Ok [simp]: "obind (Some (Ok x)) f = f x"
  by (simp add: obind_def)

lemma obind_Some_Err [simp]: "obind (Some (Err e)) f = Some (Err e)"
  by (simp add: obind_def)

lemma obind_Ok_iff: "obind m f = Some (Ok y) \<longleftrightarrow> (\<exists>x. m = Some (Ok x) \<and> f x = Some (Ok y))"
  by (auto simp: obind_def split: option.splits sum.splits)

lemma obind_None_iff: "obind m f = None \<longleftrightarrow> m = None \<or> (\<exists>x. m = Some (Ok x) \<and> f x = None)"
  by (auto simp: obind_def split: option.splits sum.splits)

lemma oerr_Ok_iff [simp]: "oerr g m = Some (Ok x) \<longleftrightarrow> m = Some (Ok x)"
  by (auto simp: oerr_def)

lemma oerr_None_iff [simp]: "oerr g m = None \<longleftrightarrow> m = None"
  by (simp add: oerr_def)

definition vb_zero :: value_balance where
  "vb_zero = \<lparr>vb_transparent = 0, vb_sprout = 0, vb_sapling = 0, vb_orchard = 0, vb_deferred = 0,
     vb_ironwood = 0\<rparr>"

definition from_transparent_amount :: "int \<Rightarrow> value_balance" where
  "from_transparent_amount a = vb_zero\<lparr>vb_transparent := a\<rparr>"
definition from_sprout_amount :: "int \<Rightarrow> value_balance" where
  "from_sprout_amount a = vb_zero\<lparr>vb_sprout := a\<rparr>"
definition from_sapling_amount :: "int \<Rightarrow> value_balance" where
  "from_sapling_amount a = vb_zero\<lparr>vb_sapling := a\<rparr>"
definition from_orchard_amount :: "int \<Rightarrow> value_balance" where
  "from_orchard_amount a = vb_zero\<lparr>vb_orchard := a\<rparr>"
definition from_ironwood_amount :: "int \<Rightarrow> value_balance" where
  "from_ironwood_amount a = vb_zero\<lparr>vb_ironwood := a\<rparr>"

text \<open>The setters take one pool of another balance.\<close>

definition set_transparent_value_balance :: "value_balance \<Rightarrow> value_balance \<Rightarrow> value_balance" where
  "set_transparent_value_balance v w = v\<lparr>vb_transparent := vb_transparent w\<rparr>"
definition set_sprout_value_balance :: "value_balance \<Rightarrow> value_balance \<Rightarrow> value_balance" where
  "set_sprout_value_balance v w = v\<lparr>vb_sprout := vb_sprout w\<rparr>"
definition set_sapling_value_balance :: "value_balance \<Rightarrow> value_balance \<Rightarrow> value_balance" where
  "set_sapling_value_balance v w = v\<lparr>vb_sapling := vb_sapling w\<rparr>"
definition set_orchard_value_balance :: "value_balance \<Rightarrow> value_balance \<Rightarrow> value_balance" where
  "set_orchard_value_balance v w = v\<lparr>vb_orchard := vb_orchard w\<rparr>"
definition set_deferred_amount :: "value_balance \<Rightarrow> int \<Rightarrow> value_balance" where
  "set_deferred_amount v a = v\<lparr>vb_deferred := a\<rparr>"
definition set_ironwood_value_balance :: "value_balance \<Rightarrow> value_balance \<Rightarrow> value_balance" where
  "set_ironwood_value_balance v w = v\<lparr>vb_ironwood := vb_ironwood w\<rparr>"

definition vb_total :: "constraint \<Rightarrow> value_balance \<Rightarrow> (amount_error, int) result" where
  "vb_total c v = try_from_i128 c (sum_list
     [vb_transparent v, vb_sprout v, vb_sapling v, vb_orchard v, vb_deferred v, vb_ironwood v])"

text \<open>One operation on every pool, the errors tagged with the pool, in the order of the code.\<close>

definition each_pool ::
    "((value_balance \<Rightarrow> int) \<Rightarrow> (amount_error, int) outcome) \<Rightarrow> (vb_error, value_balance) outcome" where
  "each_pool f =
     obind (oerr TransparentErr (f vb_transparent)) (\<lambda>t.
     obind (oerr SproutErr (f vb_sprout)) (\<lambda>sp.
     obind (oerr SaplingErr (f vb_sapling)) (\<lambda>sa.
     obind (oerr OrchardErr (f vb_orchard)) (\<lambda>orc.
     obind (oerr DeferredErr (f vb_deferred)) (\<lambda>d.
     obind (oerr IronwoodErr (f vb_ironwood)) (\<lambda>i.
     Some (Ok \<lparr>vb_transparent = t, vb_sprout = sp, vb_sapling = sa, vb_orchard = orc,
       vb_deferred = d, vb_ironwood = i\<rparr>)))))))"

definition vb_constrain :: "constraint \<Rightarrow> value_balance \<Rightarrow> (vb_error, value_balance) outcome" where
  "vb_constrain c2 v = each_pool (\<lambda>pool. Some (constrain c2 (pool v)))"

definition vb_add :: "constraint \<Rightarrow> value_balance \<Rightarrow> value_balance \<Rightarrow> (vb_error, value_balance) outcome" where
  "vb_add c a b = each_pool (\<lambda>pool. amount_add c (pool a) (pool b))"

definition vb_sub :: "constraint \<Rightarrow> value_balance \<Rightarrow> value_balance \<Rightarrow> (vb_error, value_balance) outcome" where
  "vb_sub c a b = each_pool (\<lambda>pool. amount_sub c (pool a) (pool b))"

definition vb_add_assign ::
    "constraint \<Rightarrow> (vb_error, value_balance) result \<Rightarrow> value_balance \<Rightarrow> (vb_error, value_balance) outcome" where
  "vb_add_assign c self rhs = (case self of Ok lhs \<Rightarrow> vb_add c lhs rhs | Err e \<Rightarrow> Some (Err e))"

definition vb_sub_assign ::
    "constraint \<Rightarrow> (vb_error, value_balance) result \<Rightarrow> value_balance \<Rightarrow> (vb_error, value_balance) outcome" where
  "vb_sub_assign c self rhs = (case self of Ok lhs \<Rightarrow> vb_sub c lhs rhs | Err e \<Rightarrow> Some (Err e))"

text \<open>\<open>try_fold\<close> over an iterator whose items may panic when they are reached.\<close>

fun vb_sum_from ::
    "constraint \<Rightarrow> value_balance \<Rightarrow> value_balance option list \<Rightarrow> (vb_error, value_balance) outcome" where
  "vb_sum_from c acc [] = Some (Ok acc)"
| "vb_sum_from c acc (None # vs) = None"
| "vb_sum_from c acc (Some v # vs) = obind (vb_add c acc v) (\<lambda>acc'. vb_sum_from c acc' vs)"

definition vb_sum :: "constraint \<Rightarrow> value_balance option list \<Rightarrow> (vb_error, value_balance) outcome" where
  "vb_sum c vs = vb_sum_from c vb_zero vs"

definition vb_neg :: "value_balance \<Rightarrow> value_balance option" where
  "vb_neg v =
     (case (amount_neg (vb_transparent v), amount_neg (vb_sprout v), amount_neg (vb_sapling v),
            amount_neg (vb_orchard v), amount_neg (vb_deferred v), amount_neg (vb_ironwood v)) of
        (Some t, Some sp, Some sa, Some orc, Some d, Some i) \<Rightarrow>
          Some \<lparr>vb_transparent = t, vb_sprout = sp, vb_sapling = sa, vb_orchard = orc,
            vb_deferred = d, vb_ironwood = i\<rparr>
      | _ \<Rightarrow> None)"

definition remaining_transaction_value :: "value_balance \<Rightarrow> (amount_error, int) outcome" where
  "remaining_transaction_value v =
     obind (amount_add NegativeAllowed (vb_transparent v) (vb_sprout v)) (\<lambda>a.
     obind (amount_add NegativeAllowed a (vb_sapling v)) (\<lambda>b.
     obind (amount_add NegativeAllowed b (vb_orchard v)) (\<lambda>c.
     obind (amount_add NegativeAllowed c (vb_ironwood v)) (\<lambda>d.
     Some (constrain NonNegative d)))))"

definition add_chain_value_pool_change ::
    "value_balance \<Rightarrow> value_balance \<Rightarrow> (vb_error, value_balance) outcome" where
  "add_chain_value_pool_change self change =
     (case vb_constrain NegativeAllowed self of
        Some (Ok pool) \<Rightarrow>
          obind (vb_add NegativeAllowed pool change) (\<lambda>pool'.
          obind (vb_constrain NonNegative pool') (\<lambda>pool''.
          obind (Some (map_err TotalErr (vb_total NonNegative pool''))) (\<lambda>_.
          Some (Ok pool''))))
      | _ \<Rightarrow> None)"

definition vb_to_bytes :: "value_balance \<Rightarrow> bytes" where
  "vb_to_bytes v = concat (map amount_to_bytes
     [vb_transparent v, vb_sprout v, vb_sapling v, vb_orchard v, vb_deferred v, vb_ironwood v])"

definition vb_from_bytes :: "bytes \<Rightarrow> (vb_error, value_balance) outcome" where
  "vb_from_bytes bs =
     (if length bs \<notin> {32, 40, 48} then Some (Err Unparsable)
      else
        obind (Some (map_err TransparentErr (amount_from_bytes NonNegative (slice 0 8 bs)))) (\<lambda>t.
        obind (Some (map_err SproutErr (amount_from_bytes NonNegative (slice 8 16 bs)))) (\<lambda>sp.
        obind (Some (map_err SaplingErr (amount_from_bytes NonNegative (slice 16 24 bs)))) (\<lambda>sa.
        obind (Some (map_err OrchardErr (amount_from_bytes NonNegative (slice 24 32 bs)))) (\<lambda>orc.
        obind (if length bs = 32 then Some (Ok amount_zero)
               else Some (map_err DeferredErr (amount_from_bytes NonNegative (slice 32 40 bs)))) (\<lambda>d.
        obind (if length bs = 48
               then Some (map_err IronwoodErr (amount_from_bytes NonNegative (slice 40 48 bs)))
               else Some (Ok amount_zero)) (\<lambda>i.
        Some (Ok \<lparr>vb_transparent = t, vb_sprout = sp, vb_sapling = sa, vb_orchard = orc,
          vb_deferred = d, vb_ironwood = i\<rparr>))))))))"

definition all_pools :: "(int \<Rightarrow> bool) \<Rightarrow> value_balance \<Rightarrow> bool" where
  "all_pools P v \<longleftrightarrow> P (vb_transparent v) \<and> P (vb_sprout v) \<and> P (vb_sapling v) \<and> P (vb_orchard v)
     \<and> P (vb_deferred v) \<and> P (vb_ironwood v)"

text \<open>Adding two balances pool by pool, as numbers.\<close>

definition vb_plus :: "value_balance \<Rightarrow> value_balance \<Rightarrow> value_balance" where
  "vb_plus a b = \<lparr>vb_transparent = vb_transparent a + vb_transparent b, vb_sprout = vb_sprout a + vb_sprout b,
     vb_sapling = vb_sapling a + vb_sapling b, vb_orchard = vb_orchard a + vb_orchard b,
     vb_deferred = vb_deferred a + vb_deferred b, vb_ironwood = vb_ironwood a + vb_ironwood b\<rparr>"

definition pool_sum :: "value_balance \<Rightarrow> int" where
  "pool_sum v = vb_transparent v + vb_sprout v + vb_sapling v + vb_orchard v + vb_deferred v + vb_ironwood v"

section \<open>Facts about pools\<close>

lemma each_pool_Ok_iff:
  "each_pool f = Some (Ok v) \<longleftrightarrow>
     f vb_transparent = Some (Ok (vb_transparent v)) \<and> f vb_sprout = Some (Ok (vb_sprout v)) \<and>
     f vb_sapling = Some (Ok (vb_sapling v)) \<and> f vb_orchard = Some (Ok (vb_orchard v)) \<and>
     f vb_deferred = Some (Ok (vb_deferred v)) \<and> f vb_ironwood = Some (Ok (vb_ironwood v))"
  by (cases v) (auto simp: each_pool_def obind_Ok_iff)

lemma each_pool_no_panic:
  assumes "\<And>pool. pool \<in> {vb_transparent, vb_sprout, vb_sapling, vb_orchard, vb_deferred, vb_ironwood}
    \<Longrightarrow> f pool \<noteq> None"
  shows "each_pool f \<noteq> None"
  using assms by (auto simp: each_pool_def obind_None_iff)

lemma vb_constrain_Ok_iff: "vb_constrain c v = Some (Ok w) \<longleftrightarrow> w = v \<and> all_pools (valid_amount c) v"
  by (cases v; cases w) (auto simp: vb_constrain_def each_pool_Ok_iff constrain_def try_from_i64_def
      all_pools_def simp del: valid_amount_simps)

lemma vb_constrain_no_panic: "vb_constrain c v \<noteq> None"
  unfolding vb_constrain_def by (rule each_pool_no_panic) simp

lemma vb_add_valid:
  assumes "all_pools (valid_amount c) a" "all_pools (valid_amount c) b"
  shows "vb_add c a b \<noteq> None
    \<and> (vb_add c a b = Some (Ok v) \<longleftrightarrow> v = vb_plus a b \<and> all_pools (valid_amount c) (vb_plus a b))"
proof
  have add: "amount_add c (pool a) (pool b) = Some (validate c (pool a + pool b))"
    if "pool \<in> {vb_transparent, vb_sprout, vb_sapling, vb_orchard, vb_deferred, vb_ironwood}" for pool
    using that assms by (auto simp: all_pools_def amount_add_valid simp del: valid_amount_simps)
  then show "vb_add c a b \<noteq> None"
    unfolding vb_add_def by (intro each_pool_no_panic) simp
  show "vb_add c a b = Some (Ok v) \<longleftrightarrow> v = vb_plus a b \<and> all_pools (valid_amount c) (vb_plus a b)"
    by (cases v) (auto simp: vb_add_def each_pool_Ok_iff add vb_plus_def all_pools_def
        simp del: valid_amount_simps)
qed

lemma vb_total_Ok_iff:
  assumes "all_pools (valid_amount c) v"
  shows "vb_total c v = Ok t \<longleftrightarrow> t = pool_sum v \<and> valid_amount c (pool_sum v)"
proof -
  have "- MAX_MONEY \<le> vb_transparent v" "vb_transparent v \<le> MAX_MONEY" "- MAX_MONEY \<le> vb_sprout v"
    "vb_sprout v \<le> MAX_MONEY" "- MAX_MONEY \<le> vb_sapling v" "vb_sapling v \<le> MAX_MONEY"
    "- MAX_MONEY \<le> vb_orchard v" "vb_orchard v \<le> MAX_MONEY" "- MAX_MONEY \<le> vb_deferred v"
    "vb_deferred v \<le> MAX_MONEY" "- MAX_MONEY \<le> vb_ironwood v" "vb_ironwood v \<le> MAX_MONEY"
    using assms valid_amount_bounds unfolding all_pools_def by blast+
  then have "- (6 * MAX_MONEY) \<le> pool_sum v" "pool_sum v \<le> 6 * MAX_MONEY"
    unfolding pool_sum_def by linarith+
  then have "in_i64 (pool_sum v)"
    by (simp add: int_ranges money)
  then show ?thesis
    by (auto simp: vb_total_def try_from_i128_def pool_sum_def add.assoc simp del: valid_amount_simps)
qed

section \<open>Balances of a transaction\<close>

text \<open>The value an input spends; \<open>None\<close> is the panic for an output the map does not have.\<close>

definition value_from_outputs :: "(outpoint \<rightharpoonup> tx_output) \<Rightarrow> tx_input \<Rightarrow> int option" where
  "value_from_outputs outs i =
     (case i of PrevOut out _ _ \<Rightarrow> map_option out_value (outs out) | Coinbase _ _ _ \<Rightarrow> Some amount_zero)"

text \<open>
  Summing the inputs counts the items after a failing one, which evaluates them, so an input
  without its output panics wherever it stands.
\<close>

definition transparent_value_balance_from_outputs ::
    "transaction \<Rightarrow> (outpoint \<rightharpoonup> tx_output) \<Rightarrow> (vb_error, value_balance) outcome" where
  "transparent_value_balance_from_outputs tx outs =
     (case those (map (value_from_outputs outs) (tx_inputs tx)) of
        None \<Rightarrow> None
      | Some ins \<Rightarrow>
          obind (oerr TransparentErr (amount_sum NonNegative ins)) (\<lambda>in_sum.
          case constrain NegativeAllowed in_sum of Err _ \<Rightarrow> None | Ok input_value \<Rightarrow>
          obind (oerr TransparentErr (amount_sum NonNegative (map out_value (tx_outputs tx)))) (\<lambda>out_sum.
          case constrain NegativeAllowed out_sum of Err _ \<Rightarrow> None | Ok output_value \<Rightarrow>
          obind (oerr TransparentErr (amount_sub NegativeAllowed input_value output_value)) (\<lambda>d.
          Some (Ok (from_transparent_amount d))))))"

definition joinsplit_value_balance :: "joinsplit \<Rightarrow> int option" where
  "joinsplit_value_balance j =
     (case (constrain NegativeAllowed (vpub_new j), constrain NegativeAllowed (vpub_old j)) of
        (Ok vpub_new', Ok vpub_old') \<Rightarrow>
          (case amount_sub NegativeAllowed vpub_new' vpub_old' of Some (Ok v) \<Rightarrow> Some v | _ \<Rightarrow> None)
      | _ \<Rightarrow> None)"

definition sprout_joinsplit_value_balances :: "transaction \<Rightarrow> value_balance option list" where
  "sprout_joinsplit_value_balances tx =
     map (\<lambda>j. map_option from_sprout_amount (joinsplit_value_balance j)) (sprout_joinsplits tx)"

definition sprout_value_balance :: "transaction \<Rightarrow> (vb_error, value_balance) outcome" where
  "sprout_value_balance tx = vb_sum NegativeAllowed (sprout_joinsplit_value_balances tx)"

fun sapling_balance_field :: "transaction \<Rightarrow> int" where
  "sapling_balance_field (V4 _ _ _ _ _ (Some d)) = sd_value_balance d"
| "sapling_balance_field (V5 _ _ _ _ _ (Some d) _) = sd_value_balance d"
| "sapling_balance_field (V6 _ _ _ _ _ (Some d) _ _) = sd_value_balance d"
| "sapling_balance_field _ = amount_zero"

definition sapling_value_balance :: "transaction \<Rightarrow> value_balance" where
  "sapling_value_balance tx = from_sapling_amount (sapling_balance_field tx)"

definition orchard_balance_field :: "transaction \<Rightarrow> int" where
  "orchard_balance_field tx =
     (case orchard_shielded_data tx of Some d \<Rightarrow> od_value_balance d | None \<Rightarrow> amount_zero)"

definition orchard_value_balance :: "transaction \<Rightarrow> value_balance" where
  "orchard_value_balance tx = from_orchard_amount (orchard_balance_field tx)"

definition ironwood_balance_field :: "transaction \<Rightarrow> int" where
  "ironwood_balance_field tx =
     (case ironwood_shielded_data tx of Some d \<Rightarrow> od_value_balance d | None \<Rightarrow> amount_zero)"

definition ironwood_value_balance :: "transaction \<Rightarrow> value_balance" where
  "ironwood_value_balance tx = from_ironwood_amount (ironwood_balance_field tx)"

definition value_balance_from_outputs ::
    "transaction \<Rightarrow> (outpoint \<rightharpoonup> tx_output) \<Rightarrow> (vb_error, value_balance) outcome" where
  "value_balance_from_outputs tx outs =
     obind (transparent_value_balance_from_outputs tx outs) (\<lambda>t.
     obind (sprout_value_balance tx) (\<lambda>sp.
     obind (vb_add NegativeAllowed t sp) (\<lambda>a.
     obind (vb_add NegativeAllowed a (sapling_value_balance tx)) (\<lambda>b.
     obind (vb_add NegativeAllowed b (orchard_value_balance tx)) (\<lambda>c.
     vb_add NegativeAllowed c (ironwood_value_balance tx))))))"

text \<open>\<open>value_balance\<close> collects the outputs the inputs spend, those it finds, and goes on as above.\<close>

definition spent_outputs :: "transaction \<Rightarrow> (outpoint \<rightharpoonup> tx_output) \<Rightarrow> (outpoint \<rightharpoonup> tx_output)" where
  "spent_outputs tx utxos =
     map_of (rev (List.map_filter (\<lambda>out. map_option (Pair out) (utxos out)) (spent_outpoints tx)))"

definition tx_value_balance ::
    "transaction \<Rightarrow> (outpoint \<rightharpoonup> tx_output) \<Rightarrow> (vb_error, value_balance) outcome" where
  "tx_value_balance tx utxos = value_balance_from_outputs tx (spent_outputs tx utxos)"

section \<open>Facts about transaction balances\<close>

text \<open>The amounts a transaction is made of are inside their constraints.\<close>

definition amounts_valid :: "transaction \<Rightarrow> bool" where
  "amounts_valid tx \<longleftrightarrow>
     list_all (\<lambda>x. valid_amount NonNegative (out_value x)) (tx_outputs tx) \<and>
     list_all (\<lambda>j. valid_amount NonNegative (vpub_old j) \<and> valid_amount NonNegative (vpub_new j))
       (sprout_joinsplits tx) \<and>
     valid_amount NegativeAllowed (sapling_balance_field tx) \<and>
     valid_amount NegativeAllowed (orchard_balance_field tx) \<and>
     valid_amount NegativeAllowed (ironwood_balance_field tx)"

lemma joinsplit_value_balance_valid:
  assumes "valid_amount NonNegative (vpub_old j)" "valid_amount NonNegative (vpub_new j)"
  shows "joinsplit_value_balance j = Some (vpub_new j - vpub_old j)
    \<and> valid_amount NegativeAllowed (vpub_new j - vpub_old j)"
proof -
  have c: "constrain NegativeAllowed (vpub_old j) = Ok (vpub_old j)"
    "constrain NegativeAllowed (vpub_new j) = Ok (vpub_new j)"
    "valid_amount NegativeAllowed (vpub_old j)" "valid_amount NegativeAllowed (vpub_new j)"
    using assms by (auto simp: constrain_def try_from_i64_def validate_cases)
  have "valid_amount NegativeAllowed (vpub_new j - vpub_old j)" using assms by simp
  then show ?thesis
    using amount_sub_valid [OF c(4,3)] c by (simp add: joinsplit_value_balance_def validate_cases
        del: valid_amount_simps)
qed

lemma vb_sum_from_sprout:
  assumes "all_pools (valid_amount NegativeAllowed) acc"
    and "list_all (\<lambda>x. valid_amount NegativeAllowed x) xs"
  shows "vb_sum_from NegativeAllowed acc (map (\<lambda>x. Some (from_sprout_amount x)) xs) \<noteq> None
    \<and> (vb_sum_from NegativeAllowed acc (map (\<lambda>x. Some (from_sprout_amount x)) xs) = Some (Ok v) \<longrightarrow>
        v = acc\<lparr>vb_sprout := vb_sprout acc + sum_list xs\<rparr> \<and> all_pools (valid_amount NegativeAllowed) v)"
  using assms
proof (induction xs arbitrary: acc)
  case Nil
  then show ?case by auto
next
  case (Cons x xs)
  have x: "all_pools (valid_amount NegativeAllowed) (from_sprout_amount x)"
    using Cons.prems by (simp add: all_pools_def from_sprout_amount_def vb_zero_def)
  have plus: "vb_plus acc (from_sprout_amount x) = acc\<lparr>vb_sprout := vb_sprout acc + x\<rparr>"
    by (cases acc) (simp add: vb_plus_def from_sprout_amount_def vb_zero_def)
  note add = vb_add_valid [OF Cons.prems(1) x]
  show ?case
  proof (cases "vb_add NegativeAllowed acc (from_sprout_amount x)")
    case None
    with add show ?thesis by simp
  next
    case (Some r)
    show ?thesis
    proof (cases r)
      case (Inl e)
      with Some show ?thesis by simp
    next
      case (Inr w)
      with add [of w] Some plus
      have "w = acc\<lparr>vb_sprout := vb_sprout acc + x\<rparr>" "all_pools (valid_amount NegativeAllowed) w" by auto
      with Cons.IH [of w] Cons.prems Some Inr show ?thesis
        by (simp add: add.assoc del: valid_amount_simps)
    qed
  qed
qed

lemma vb_zero_valid: "all_pools (valid_amount c) vb_zero"
  by (simp add: all_pools_def vb_zero_def)

lemma sprout_value_balance_valid:
  assumes "amounts_valid tx"
  shows "sprout_value_balance tx \<noteq> None
    \<and> (sprout_value_balance tx = Some (Ok v) \<longrightarrow>
        v = from_sprout_amount (\<Sum>j\<leftarrow>sprout_joinsplits tx. vpub_new j - vpub_old j)
        \<and> all_pools (valid_amount NegativeAllowed) v)"
proof -
  let ?xs = "map (\<lambda>j. vpub_new j - vpub_old j) (sprout_joinsplits tx)"
  have eq: "sprout_joinsplit_value_balances tx = map (\<lambda>x. Some (from_sprout_amount x)) ?xs"
    using assms joinsplit_value_balance_valid
    by (auto simp: sprout_joinsplit_value_balances_def amounts_valid_def list_all_iff
        simp del: valid_amount_simps)
  have "list_all (valid_amount NegativeAllowed) ?xs"
    using assms joinsplit_value_balance_valid
    by (auto simp: amounts_valid_def list_all_iff simp del: valid_amount_simps)
  from vb_sum_from_sprout [OF vb_zero_valid this, of v] show ?thesis
    by (simp add: sprout_value_balance_def vb_sum_def eq from_sprout_amount_def vb_zero_def)
qed

definition balance_of_tx :: "transaction \<Rightarrow> int list \<Rightarrow> value_balance" where
  "balance_of_tx tx ins =
     \<lparr>vb_transparent = sum_list ins - (\<Sum>x\<leftarrow>tx_outputs tx. out_value x),
      vb_sprout = (\<Sum>j\<leftarrow>sprout_joinsplits tx. vpub_new j - vpub_old j),
      vb_sapling = sapling_balance_field tx, vb_orchard = orchard_balance_field tx,
      vb_deferred = 0, vb_ironwood = ironwood_balance_field tx\<rparr>"

lemma nonneg_sum_valid:
  assumes "list_all (valid_amount NonNegative) xs"
  shows "amount_sum NonNegative xs \<noteq> None
    \<and> (amount_sum NonNegative xs = Some (Ok s) \<longrightarrow> s = sum_list xs \<and> valid_amount NonNegative s)"
  using amount_sum_from_valid [of NonNegative 0 xs s] assms
  by (auto simp: amount_sum_def amount_zero_def simp del: valid_amount_simps dest: spec [of _ "length xs"])

lemma transparent_balance_valid:
  assumes ins: "those (map (value_from_outputs outs) (tx_inputs tx)) = Some ins"
    and v: "list_all (valid_amount NonNegative) ins" "amounts_valid tx"
  shows "transparent_value_balance_from_outputs tx outs \<noteq> None
    \<and> (transparent_value_balance_from_outputs tx outs = Some (Ok t) \<longrightarrow>
        t = from_transparent_amount (sum_list ins - (\<Sum>x\<leftarrow>tx_outputs tx. out_value x))
        \<and> all_pools (valid_amount NegativeAllowed) t)"
proof -
  have outs: "list_all (valid_amount NonNegative) (map out_value (tx_outputs tx))"
    using v(2) by (simp add: amounts_valid_def list_all_iff)
  have c: "constrain NegativeAllowed s = Ok s" "valid_amount NegativeAllowed s"
    if "valid_amount NonNegative s" for s
    using that by (auto simp: constrain_def try_from_i64_def validate_cases)
  have sub: "amount_sub NegativeAllowed a b = Some (Ok (a - b)) \<and> valid_amount NegativeAllowed (a - b)"
    if "valid_amount NonNegative a" "valid_amount NonNegative b" for a b
    using amount_sub_valid [OF c(2) [OF that(1)] c(2) [OF that(2)]] that by (simp add: validate_cases)
  have pool: "all_pools (valid_amount NegativeAllowed) (from_transparent_amount d)"
    if "valid_amount NegativeAllowed d" for d
    using that by (simp add: all_pools_def from_transparent_amount_def vb_zero_def)
  obtain r1 where r1: "amount_sum NonNegative ins = Some r1" using nonneg_sum_valid [OF v(1)] by blast
  obtain r2 where r2: "amount_sum NonNegative (map out_value (tx_outputs tx)) = Some r2"
    using nonneg_sum_valid [OF outs] by blast
  show ?thesis
  proof (cases r1)
    case (Inl e)
    then show ?thesis by (simp add: transparent_value_balance_from_outputs_def ins r1 oerr_def)
  next
    case (Inr s1)
    with nonneg_sum_valid [OF v(1), of s1] r1
    have s1: "s1 = sum_list ins" "valid_amount NonNegative s1" by auto
    show ?thesis
    proof (cases r2)
      case (Inl e)
      with s1 Inr c show ?thesis
        by (simp add: transparent_value_balance_from_outputs_def ins r1 r2 oerr_def del: valid_amount_simps)
    next
      case (Inr s2)
      with nonneg_sum_valid [OF outs, of s2] r2
      have s2: "s2 = (\<Sum>x\<leftarrow>tx_outputs tx. out_value x)" "valid_amount NonNegative s2" by auto
      from sub [OF s1(2) s2(2)] pool c s1 s2 Inr \<open>r1 = Ok s1\<close> show ?thesis
        by (auto simp: transparent_value_balance_from_outputs_def ins r1 r2 oerr_def simp del: valid_amount_simps)
    qed
  qed
qed

lemma single_pool_valid:
  "amounts_valid tx \<Longrightarrow> all_pools (valid_amount NegativeAllowed) (sapling_value_balance tx)"
  "amounts_valid tx \<Longrightarrow> all_pools (valid_amount NegativeAllowed) (orchard_value_balance tx)"
  "amounts_valid tx \<Longrightarrow> all_pools (valid_amount NegativeAllowed) (ironwood_value_balance tx)"
  by (simp_all add: amounts_valid_def all_pools_def sapling_value_balance_def orchard_value_balance_def
      ironwood_value_balance_def from_sapling_amount_def from_orchard_amount_def from_ironwood_amount_def
      vb_zero_def)

lemma obind_step:
  assumes "m \<noteq> None" "\<And>x. m = Some (Ok x) \<Longrightarrow> P x" "\<And>x. P x \<Longrightarrow> f x \<noteq> None \<and> (\<forall>y. f x = Some (Ok y) \<longrightarrow> Q y)"
  shows "obind m f \<noteq> None \<and> (\<forall>y. obind m f = Some (Ok y) \<longrightarrow> Q y)"
  using assms by (auto simp: obind_Ok_iff obind_None_iff)

lemma tx_balance_valid:
  assumes ins: "those (map (value_from_outputs outs) (tx_inputs tx)) = Some ins"
    and v: "list_all (valid_amount NonNegative) ins" "amounts_valid tx"
  shows "value_balance_from_outputs tx outs \<noteq> None
    \<and> (\<forall>vb. value_balance_from_outputs tx outs = Some (Ok vb) \<longrightarrow>
         vb = balance_of_tx tx ins \<and> all_pools (valid_amount NegativeAllowed) vb)"
  unfolding value_balance_from_outputs_def
proof (rule obind_step [where P = "\<lambda>t. t = from_transparent_amount (sum_list ins - (\<Sum>x\<leftarrow>tx_outputs tx. out_value x))
        \<and> all_pools (valid_amount NegativeAllowed) t"], goal_cases)
  case (3 t)
  let ?ok = "all_pools (valid_amount NegativeAllowed)"
  have add: "vb_add NegativeAllowed a b \<noteq> None"
    "vb_add NegativeAllowed a b = Some (Ok w) \<Longrightarrow> w = vb_plus a b \<and> ?ok w" if "?ok a" "?ok b" for a b w
    using vb_add_valid [OF that, of w] by auto
  show ?case
  proof (rule obind_step [where P = "\<lambda>sp. sp = from_sprout_amount (\<Sum>j\<leftarrow>sprout_joinsplits tx. vpub_new j - vpub_old j) \<and> ?ok sp"], goal_cases)
    case (3 sp)
    show ?case
    proof (rule obind_step [where P = "\<lambda>a. a = vb_plus t sp \<and> ?ok a"], goal_cases)
      case (3 a)
      show ?case
      proof (rule obind_step [where P = "\<lambda>b. b = vb_plus a (sapling_value_balance tx) \<and> ?ok b"], goal_cases)
        case (3 b)
        show ?case
        proof (rule obind_step [where P = "\<lambda>c. c = vb_plus b (orchard_value_balance tx) \<and> ?ok c"], goal_cases)
          case (3 c)
          with \<open>b = _ \<and> _\<close> \<open>a = _ \<and> _\<close> \<open>sp = _ \<and> _\<close> \<open>t = _ \<and> _\<close> add [of c "ironwood_value_balance tx"]
            single_pool_valid(3) [OF v(2)]
          show ?case
            by (auto simp: balance_of_tx_def vb_plus_def from_transparent_amount_def from_sprout_amount_def
                vb_zero_def sapling_value_balance_def orchard_value_balance_def ironwood_value_balance_def
                from_sapling_amount_def from_orchard_amount_def from_ironwood_amount_def)
        qed (use add [of b "orchard_value_balance tx"] single_pool_valid(2) [OF v(2)] \<open>b = _ \<and> _\<close> in auto)
      qed (use add [of a "sapling_value_balance tx"] single_pool_valid(1) [OF v(2)] \<open>a = _ \<and> _\<close> in auto)
    qed (use add [of t sp] \<open>t = _ \<and> _\<close> \<open>sp = _ \<and> _\<close> in auto)
  qed (use sprout_value_balance_valid [OF v(2)] in auto)
qed (use transparent_balance_valid [OF ins v] in auto)

lemma remaining_valid:
  assumes "all_pools (valid_amount NegativeAllowed) vb" "vb_deferred vb = 0"
  shows "remaining_transaction_value vb \<noteq> None
    \<and> (\<forall>fee. remaining_transaction_value vb = Some (Ok fee) \<longrightarrow> fee = pool_sum vb \<and> 0 \<le> fee \<and> fee \<le> MAX_MONEY)"
proof -
  let ?ok = "valid_amount NegativeAllowed"
  have p: "?ok (vb_transparent vb)" "?ok (vb_sprout vb)" "?ok (vb_sapling vb)" "?ok (vb_orchard vb)"
    "?ok (vb_ironwood vb)" using assms(1) unfolding all_pools_def by blast+
  have add: "amount_add NegativeAllowed a b \<noteq> None"
    "amount_add NegativeAllowed a b = Some (Ok w) \<Longrightarrow> w = a + b \<and> ?ok w" if "?ok a" "?ok b" for a b w
    using amount_add_valid [OF that] by (auto simp del: valid_amount_simps)
  show ?thesis
    unfolding remaining_transaction_value_def
  proof (rule obind_step [where P = "\<lambda>x. x = vb_transparent vb + vb_sprout vb \<and> ?ok x"], goal_cases)
    case (3 x)
    show ?case
    proof (rule obind_step [where P = "\<lambda>y. y = x + vb_sapling vb \<and> ?ok y"], goal_cases)
      case (3 y)
      show ?case
      proof (rule obind_step [where P = "\<lambda>z. z = y + vb_orchard vb \<and> ?ok z"], goal_cases)
        case (3 z)
        show ?case
        proof (rule obind_step [where P = "\<lambda>u. u = z + vb_ironwood vb \<and> ?ok u"], goal_cases)
          case (3 u)
          with \<open>x = _ \<and> _\<close> \<open>y = _ \<and> _\<close> \<open>z = _ \<and> _\<close> assms(2) show ?case
            by (auto simp: constrain_def try_from_i64_def pool_sum_def)
        qed (use add(1) [OF _ p(5), of z] add(2) [OF _ p(5), of z] \<open>z = _ \<and> _\<close> in blast)+
      qed (use add(1) [OF _ p(4), of y] add(2) [OF _ p(4), of y] \<open>y = _ \<and> _\<close> in blast)+
    qed (use add(1) [OF _ p(3), of x] add(2) [OF _ p(3), of x] \<open>x = _ \<and> _\<close> in blast)+
  qed (use add(1) [OF p(1,2)] add(2) [OF p(1,2)] in blast)+
qed

lemma amount_bytes_nonneg:
  "valid_amount NonNegative v \<Longrightarrow> amount_from_bytes NonNegative (amount_to_bytes v) = Ok v"
  using i64_bytes_roundtrip [OF valid_amount_i64 [of NonNegative v]]
  by (simp add: amount_from_bytes_def try_from_i64_def validate_cases)

lemma vb_bytes_slices:
  "slice 0 8 (vb_to_bytes v) = amount_to_bytes (vb_transparent v)"
  "slice 8 16 (vb_to_bytes v) = amount_to_bytes (vb_sprout v)"
  "slice 16 24 (vb_to_bytes v) = amount_to_bytes (vb_sapling v)"
  "slice 24 32 (vb_to_bytes v) = amount_to_bytes (vb_orchard v)"
  "slice 32 40 (vb_to_bytes v) = amount_to_bytes (vb_deferred v)"
  "slice 40 48 (vb_to_bytes v) = amount_to_bytes (vb_ironwood v)"
  "length (vb_to_bytes v) = 48"
  by (simp_all add: vb_to_bytes_def slice_def)

lemma slice_take: "b \<le> n \<Longrightarrow> slice a b (take n xs) = slice a b xs"
  by (simp add: slice_def drop_take min_def diff_le_mono)

lemma vb_from_bytes_total: "vb_from_bytes bs \<noteq> None"
proof -
  have "vb_from_bytes bs = None \<longleftrightarrow> False" by (auto simp: vb_from_bytes_def obind_None_iff simp del: not_None_eq)
  then show ?thesis by simp
qed

lemma vb_from_bytes_Ok:
  assumes "vb_from_bytes bs = Some (Ok v)"
  shows "length bs \<in> {32, 40, 48} \<and> all_pools (valid_amount NonNegative) v"
proof -
  have "valid_amount NonNegative x" if "amount_from_bytes NonNegative ds = Ok x" for ds x
    using that by (auto simp: amount_from_bytes_def try_from_i64_def Let_def)
  then show ?thesis
    using assms by (auto simp: vb_from_bytes_def obind_Ok_iff all_pools_def amount_zero_def
        split: if_splits simp del: valid_amount_simps)
qed

section \<open>Properties\<close>

text \<open>
  C18. Applying a change to the chain value pools never panics, and is accepted exactly when every
  pool stays non-negative and within the supply limit, and so does their total; the accepted
  pools are the old ones plus the change, pool by pool.
\<close>

theorem chain_pools_stay_sound:
  assumes p: "all_pools (valid_amount NonNegative) pools" and c: "all_pools (valid_amount NegativeAllowed) change"
  shows "add_chain_value_pool_change pools change \<noteq> None
    \<and> (add_chain_value_pool_change pools change = Some (Ok q) \<longleftrightarrow>
        q = vb_plus pools change \<and> all_pools (\<lambda>x. 0 \<le> x \<and> x \<le> MAX_MONEY) q \<and> pool_sum q \<le> MAX_MONEY)"
proof -
  have pn: "all_pools (valid_amount NegativeAllowed) pools" using p by (auto simp: all_pools_def)
  then have con: "vb_constrain NegativeAllowed pools = Some (Ok pools)" by (simp add: vb_constrain_Ok_iff)
  note add = vb_add_valid [OF pn c]
  have nn: "all_pools (\<lambda>x. 0 \<le> x \<and> x \<le> MAX_MONEY) q \<longleftrightarrow> all_pools (valid_amount NonNegative) q" for q
    by (simp add: all_pools_def)
  have wider: "all_pools (valid_amount NegativeAllowed) q" if "all_pools (valid_amount NonNegative) q" for q
    using that by (auto simp: all_pools_def)
  have pos: "0 \<le> pool_sum q" if "all_pools (valid_amount NonNegative) q" for q
    using that by (auto simp: all_pools_def pool_sum_def)
  have "add_chain_value_pool_change pools change \<noteq> None"
    using add vb_constrain_no_panic by (auto simp: add_chain_value_pool_change_def con obind_None_iff)
  moreover have "add_chain_value_pool_change pools change = Some (Ok q) \<longleftrightarrow>
      q = vb_plus pools change \<and> all_pools (valid_amount NonNegative) q \<and> pool_sum q \<le> MAX_MONEY"
    using add wider pos vb_total_Ok_iff [of NonNegative q]
    by (auto simp: add_chain_value_pool_change_def con obind_Ok_iff vb_constrain_Ok_iff
        simp del: valid_amount_simps(1) simp: valid_amount_simps(2))
  ultimately show ?thesis by (simp only: nn) blast
qed

theorem chain_pools_stay_sound_witness:
  "add_chain_value_pool_change (from_orchard_amount 5) (vb_plus (from_orchard_amount (- 5)) (from_ironwood_amount 4))
     = Some (Ok (from_ironwood_amount 4))
   \<and> add_chain_value_pool_change (from_orchard_amount 5) (from_orchard_amount (- 6)) \<noteq> Some (Ok (from_orchard_amount (- 1)))"
proof -
  have v: "all_pools (valid_amount NonNegative) (from_orchard_amount 5)"
    "all_pools (valid_amount NegativeAllowed) (vb_plus (from_orchard_amount (- 5)) (from_ironwood_amount 4))"
    "all_pools (valid_amount NegativeAllowed) (from_orchard_amount (- 6))"
    by (simp_all add: all_pools_def vb_plus_def from_orchard_amount_def from_ironwood_amount_def vb_zero_def money)
  show ?thesis
    using chain_pools_stay_sound [OF v(1,2), of "from_ironwood_amount 4"]
      chain_pools_stay_sound [OF v(1,3), of "from_orchard_amount (- 1)"]
    by (simp add: all_pools_def vb_plus_def from_orchard_amount_def from_ironwood_amount_def vb_zero_def
        pool_sum_def money)
qed

text \<open>
  The value balance of a transaction whose inputs' outputs are known never panics; when it is
  returned it is exactly what the transaction moves in and out of each pool, and the value left
  for fees is the sum of all pools, refused when it is negative.
\<close>

theorem transaction_balance_is_exact:
  assumes ins: "those (map (value_from_outputs outs) (tx_inputs tx)) = Some ins"
    and v: "list_all (valid_amount NonNegative) ins" "amounts_valid tx"
  shows "value_balance_from_outputs tx outs \<noteq> None
    \<and> (\<forall>vb. value_balance_from_outputs tx outs = Some (Ok vb) \<longrightarrow>
         vb = balance_of_tx tx ins
         \<and> remaining_transaction_value vb \<noteq> None
         \<and> (\<forall>fee. remaining_transaction_value vb = Some (Ok fee) \<longrightarrow>
              fee = pool_sum (balance_of_tx tx ins) \<and> 0 \<le> fee \<and> fee \<le> MAX_MONEY))"
proof -
  have "vb_deferred (balance_of_tx tx ins) = 0" by (simp add: balance_of_tx_def)
  with tx_balance_valid [OF assms] remaining_valid [of "balance_of_tx tx ins"] show ?thesis by blast
qed

theorem transaction_balance_is_exact_witness:
  "value_balance_from_outputs (V1 [] [\<lparr>out_value = 3, lock_script = []\<rparr>] (LockTime 0)) Map.empty \<noteq> None"
  using transaction_balance_is_exact [of Map.empty "V1 [] [\<lparr>out_value = 3, lock_script = []\<rparr>] (LockTime 0)" "[]"]
  by (simp add: amounts_valid_def orchard_balance_field_def ironwood_balance_field_def amount_zero_def money)

text \<open>
  The pools are stored and read back unchanged, records of earlier versions without the last
  one or two pools are read with those pools at zero, and whatever the bytes, reading never panics
  and gives only pools inside their constraint, from records of those three lengths.
\<close>

theorem pools_survive_storage:
  assumes v: "all_pools (valid_amount NonNegative) v"
  shows "vb_from_bytes (vb_to_bytes v) = Some (Ok v)
    \<and> vb_from_bytes (take 40 (vb_to_bytes v)) = Some (Ok (v\<lparr>vb_ironwood := 0\<rparr>))
    \<and> vb_from_bytes (take 32 (vb_to_bytes v)) = Some (Ok (v\<lparr>vb_deferred := 0, vb_ironwood := 0\<rparr>))
    \<and> vb_from_bytes bs \<noteq> None
    \<and> (vb_from_bytes bs = Some (Ok w) \<longrightarrow> length bs \<in> {32, 40, 48} \<and> all_pools (valid_amount NonNegative) w)"
proof -
  have rt: "amount_from_bytes NonNegative (amount_to_bytes (p v)) = Ok (p v)"
    if "p \<in> {vb_transparent, vb_sprout, vb_sapling, vb_orchard, vb_deferred, vb_ironwood}" for p
    using that v by (auto simp: all_pools_def amount_bytes_nonneg simp del: valid_amount_simps)
  have "vb_from_bytes (vb_to_bytes v) = Some (Ok v)"
    "vb_from_bytes (take 40 (vb_to_bytes v)) = Some (Ok (v\<lparr>vb_ironwood := 0\<rparr>))"
    "vb_from_bytes (take 32 (vb_to_bytes v)) = Some (Ok (v\<lparr>vb_deferred := 0, vb_ironwood := 0\<rparr>))"
    by (simp_all add: vb_from_bytes_def slice_take vb_bytes_slices rt amount_zero_def)
  with vb_from_bytes_total [of bs] vb_from_bytes_Ok [of bs w] show ?thesis by blast
qed

theorem pools_survive_storage_witness:
  "vb_from_bytes (vb_to_bytes (from_sapling_amount 7)) = Some (Ok (from_sapling_amount 7))"
  using pools_survive_storage [of "from_sapling_amount 7"]
  by (simp add: all_pools_def from_sapling_amount_def vb_zero_def money)

end
