(* ===== verification/TxHash.thy ===== *)
theory TxHash
  imports TxParse
begin

text \<open>
  Transaction identifiers (\<open>transaction/txid.rs\<close>, \<open>transaction/hash.rs\<close>,
  \<open>serialization/display_order.rs\<close> and \<open>serialization/sha256d.rs\<close> of zebra-chain).
  SHA-256, the ZIP-244 digest of librustzcash and the \<open>hex\<close> crate are parameters.
\<close>

section \<open>Parameters\<close>

record hashing =
  sha256 :: "bytes \<Rightarrow> bytes"
  lrz_txid :: "bytes \<Rightarrow> u32 \<Rightarrow> bytes"
  hex_encode :: "bytes \<Rightarrow> string"
  hex_decode :: "string \<Rightarrow> bytes option"

text \<open>
  What the code relies on: both digests are 32 bytes (their types say so), and the \<open>hex\<close> crate
  writes two lower-case digits a byte, as \<open>{byte:02x}\<close> does.
\<close>

definition hex_digit :: "nat \<Rightarrow> char" where
  "hex_digit n = (if n < 10 then char_of (48 + n) else char_of (87 + n))"

definition hex_byte :: "byte \<Rightarrow> string" where
  "hex_byte b = [hex_digit (unat b div 16), hex_digit (unat b mod 16)]"

definition hex_string :: "bytes \<Rightarrow> string" where
  "hex_string bs = concat (map hex_byte bs)"

definition hashing_ok :: "hashing \<Rightarrow> bool" where
  "hashing_ok hs \<longleftrightarrow> (\<forall>b. length (sha256 hs b) = 32) \<and> (\<forall>b br. length (lrz_txid hs b br) = 32)
     \<and> (\<forall>b. hex_encode hs b = hex_string b)"

section \<open>Digests and identifiers\<close>

definition sha256d_finish :: "hashing \<Rightarrow> bytes \<Rightarrow> bytes" where
  "sha256d_finish hs written =
     (let result1 = sha256 hs written; result2 = sha256 hs result1
      in write_at 0 (slice 0 32 result2) (replicate 32 0))"

definition txid_v1_to_v4 :: "hashing \<Rightarrow> crypto \<Rightarrow> transaction \<Rightarrow> bytes option" where
  "txid_v1_to_v4 hs cr tx =
     (case write_transaction cr tx of Err _ \<Rightarrow> None | Ok b \<Rightarrow> Some (sha256d_finish hs b))"

text \<open>The librustzcash transaction is the one read back from the written bytes.\<close>

definition txid_v5 :: "hashing \<Rightarrow> crypto \<Rightarrow> transaction \<Rightarrow> bytes option" where
  "txid_v5 hs cr tx =
     (case tx_network_upgrade tx of
        None \<Rightarrow> None
      | Some nu \<Rightarrow>
          (case (to_librustzcash cr tx nu, write_transaction cr tx, branch_id nu) of
             (Ok _, Ok b, Some br) \<Rightarrow> Some (lrz_txid hs b br)
           | _ \<Rightarrow> None))"

definition txid_v6 :: "hashing \<Rightarrow> crypto \<Rightarrow> transaction \<Rightarrow> bytes option" where
  "txid_v6 hs cr tx = txid_v5 hs cr tx"

definition txid :: "hashing \<Rightarrow> crypto \<Rightarrow> transaction \<Rightarrow> bytes option" where
  "txid hs cr tx =
     (case tx of
        V1 _ _ _ \<Rightarrow> txid_v1_to_v4 hs cr tx
      | V2 _ _ _ _ \<Rightarrow> txid_v1_to_v4 hs cr tx
      | V3 _ _ _ _ _ \<Rightarrow> txid_v1_to_v4 hs cr tx
      | V4 _ _ _ _ _ _ \<Rightarrow> txid_v1_to_v4 hs cr tx
      | V5 _ _ _ _ _ _ _ \<Rightarrow> txid_v5 hs cr tx
      | V6 _ _ _ _ _ _ _ _ \<Rightarrow> txid_v6 hs cr tx)"

text \<open>\<open>Transaction::hash\<close>; \<open>None\<close> is the panic of its \<open>expect\<close>.\<close>

definition tx_hash :: "hashing \<Rightarrow> crypto \<Rightarrow> transaction \<Rightarrow> bytes option" where
  "tx_hash hs cr tx = txid hs cr tx"

definition bytes_in_display_order :: "bytes \<Rightarrow> bytes" where
  "bytes_in_display_order b = rev b"

definition display_hash :: "hashing \<Rightarrow> bytes \<Rightarrow> string" where
  "display_hash hs h = hex_encode hs (bytes_in_display_order h)"

text \<open>\<open>FromStr\<close>: decode into a 32-byte buffer, reverse.\<close>

definition hash_from_str :: "hashing \<Rightarrow> string \<Rightarrow> (ser_error, bytes) result" where
  "hash_from_str hs s =
     (case hex_decode hs s of
        Some b \<Rightarrow> if length b = 32 then Ok (rev b) else Err (Parse ''hex decoding error'')
      | None \<Rightarrow> Err (Parse ''hex decoding error''))"

section \<open>Lemmas\<close>

lemma hex_digit_inj: "n < 16 \<Longrightarrow> m < 16 \<Longrightarrow> hex_digit n = hex_digit m \<Longrightarrow> n = m"
proof -
  assume a: "n < 16" "m < 16" "hex_digit n = hex_digit m"
  have d: "of_char (hex_digit k) = (if k < 10 then 48 + k else 87 + k)" if "k < 16" for k
    using that by (simp add: hex_digit_def)
  have "of_char (hex_digit n) = (of_char (hex_digit m) :: nat)" using a(3) by simp
  with d [OF a(1)] d [OF a(2)] a(1,2) show "n = m" by (auto split: if_splits)
qed

lemma hex_byte_inj: "hex_byte a = hex_byte b \<Longrightarrow> a = b"
proof -
  assume h: "hex_byte a = hex_byte b"
  have small: "unat x < 256" for x :: byte using unsigned_less [of x] by simp
  have bound: "unat x div 16 < 16" "unat x mod 16 < 16" for x :: byte
    using small [of x] by simp_all
  from h have "unat a div 16 = unat b div 16" "unat a mod 16 = unat b mod 16"
    using hex_digit_inj bound by (simp_all add: hex_byte_def) 
  then have "unat a = unat b" by (metis div_mult_mod_eq)
  then show "a = b" by (simp only: word_unat_eq_iff)
qed

lemma length_hex_string [simp]: "length (hex_string b) = 2 * length b"
  by (induction b) (simp_all add: hex_string_def hex_byte_def)

lemma hex_string_inj: "hex_string a = hex_string b \<Longrightarrow> a = b"
proof (induction a arbitrary: b)
  case Nil
  then have "length (hex_string b) = 0" by (simp add: hex_string_def)
  then show ?case by simp
next
  case (Cons x a)
  then obtain y b' where b: "b = y # b'"
    by (cases b) (auto simp: hex_string_def hex_byte_def)
  with Cons.prems have "hex_byte x = hex_byte y" "hex_string a = hex_string b'"
    by (auto simp: hex_string_def hex_byte_def)
  with Cons.IH hex_byte_inj b show ?case by blast
qed

lemma length_sha256d: "hashing_ok hs \<Longrightarrow> length (sha256d_finish hs b) = 32"
  by (simp add: sha256d_finish_def Let_def write_at_def slice_def hashing_ok_def)

text \<open>The \<open>expect\<close> holds for every transaction that was read.\<close>

lemma read_transaction_has_hash:
  assumes "push_num_bip34 cr" "hashing_ok hs" "read_transaction cr bs = Ok (tx, rest)"
  shows "\<exists>h. tx_hash hs cr tx = Some h \<and> length h = 32"
proof -
  obtain b where b: "valid_fields cr tx" "lrz_accepts cr tx" "write_transaction cr tx = Ok b"
    using assms(1,3) by (auto simp: read_transaction_iff)
  show ?thesis
  proof (cases "tx_network_upgrade tx")
    case None
    then have "tx_hash hs cr tx = txid_v1_to_v4 hs cr tx"
      by (cases tx) (simp_all add: tx_hash_def txid_def)
    with b(3) length_sha256d [OF assms(2), of b] show ?thesis by (simp add: txid_v1_to_v4_def)
  next
    case (Some nu)
    then have v5: "tx_hash hs cr tx = txid_v5 hs cr tx"
      by (cases tx) (simp_all add: tx_hash_def txid_def txid_v6_def)
    obtain br where br: "branch_id nu = Some br" using valid_branch [OF b(1) Some] by blast
    have "to_librustzcash cr tx nu = Ok ()" using b(2) Some by (simp add: lrz_accepts_def)
    with b(3) Some br have "txid_v5 hs cr tx = Some (lrz_txid hs b br)" by (simp add: txid_v5_def)
    with v5 assms(2) show ?thesis by (simp add: hashing_ok_def)
  qed
qed

end
