(* ===== verification/Difficulty.thy ===== *)
theory Difficulty
  imports Prelude
begin

text \<open>
  Difficulty and work (\<open>work/difficulty.rs\<close> of zebra-chain): the compact 32-bit form of a
  target, its 256-bit expansion, the work of a block and sums of work. A 256-bit integer of the
  \<open>uint\<close> crate is a natural number, whose operations panic (\<open>None\<close>) outside their range.
\<close>

unbundle bit_operations_syntax

section \<open>256-bit arithmetic\<close>

text \<open>
  The operations of \<open>U256\<close> belong to the \<open>uint\<close> crate and are a parameter, over the numbers
  that values of the type stand for. A panic is \<open>None\<close>.
\<close>

record u256_ops =
  u_pow :: "nat \<Rightarrow> nat \<Rightarrow> nat option"
  u_mul :: "nat \<Rightarrow> nat \<Rightarrow> nat option"
  u_add :: "nat \<Rightarrow> nat \<Rightarrow> nat option"
  u_div :: "nat \<Rightarrow> nat \<Rightarrow> nat option"
  u_not :: "nat \<Rightarrow> nat"
  u_bits :: "nat \<Rightarrow> nat"
  u_shl :: "nat \<Rightarrow> nat \<Rightarrow> nat"
  u_shr :: "nat \<Rightarrow> nat \<Rightarrow> nat"

definition u256_of :: "nat \<Rightarrow> nat option" where
  "u256_of n = (if n < 2 ^ 256 then Some n else None)"

text \<open>The position after the highest set bit.\<close>

fun u256_bits :: "nat \<Rightarrow> nat" where
  "u256_bits n = (if n = 0 then 0 else Suc (u256_bits (n div 2)))"

declare u256_bits.simps [simp del]

text \<open>What the crate documents: arithmetic that panics on overflow, shifts that drop bits.\<close>

definition uint_documented :: "u256_ops \<Rightarrow> bool" where
  "uint_documented U \<longleftrightarrow>
     (\<forall>a b. a < 2 ^ 256 \<longrightarrow> b < 2 ^ 256 \<longrightarrow>
        u_pow U a b = u256_of (a ^ b) \<and> u_mul U a b = u256_of (a * b) \<and> u_add U a b = u256_of (a + b) \<and>
        u_div U a b = (if b = 0 then None else Some (a div b)) \<and>
        u_not U a = 2 ^ 256 - 1 - a \<and> u_bits U a = u256_bits a \<and>
        u_shl U a b = a * 2 ^ b mod 2 ^ 256 \<and> u_shr U a b = a div 2 ^ b)"

definition exact_uint :: u256_ops where
  "exact_uint = \<lparr>u_pow = \<lambda>a b. u256_of (a ^ b), u_mul = \<lambda>a b. u256_of (a * b),
     u_add = \<lambda>a b. u256_of (a + b), u_div = \<lambda>a b. if b = 0 then None else Some (a div b),
     u_not = \<lambda>a. 2 ^ 256 - 1 - a, u_bits = u256_bits,
     u_shl = \<lambda>a b. a * 2 ^ b mod 2 ^ 256, u_shr = \<lambda>a b. a div 2 ^ b\<rparr>"

lemma exact_uint_documented: "uint_documented exact_uint"
  by (simp add: uint_documented_def exact_uint_def)

lemma uint_documentedD:
  assumes "uint_documented U" "a < 2 ^ 256" "b < 2 ^ 256"
  shows "u_pow U a b = u256_of (a ^ b)" "u_mul U a b = u256_of (a * b)" "u_add U a b = u256_of (a + b)"
    "u_div U a b = (if b = 0 then None else Some (a div b))" "u_not U a = 2 ^ 256 - 1 - a"
    "u_bits U a = u256_bits a" "u_shl U a b = a * 2 ^ b mod 2 ^ 256" "u_shr U a b = a div 2 ^ b"
  using assms unfolding uint_documented_def by blast+

section \<open>The compact form\<close>

definition BASE :: nat where "BASE = 256"
definition OFFSET :: int where "OFFSET = 3"
definition PRECISION :: nat where "PRECISION = 24"
definition SIGN_BIT :: u32 where "SIGN_BIT = push_bit 23 1"
definition UNSIGNED_MANTISSA_MASK :: u32 where "UNSIGNED_MANTISSA_MASK = SIGN_BIT - 1"

definition normalise :: "u32 \<Rightarrow> int \<Rightarrow> (u32 \<times> int) option" where
  "normalise m e =
     (if 32 \<le> e then None
      else if e = 31 \<and> 255 < m then None
      else if e = 31 \<and> m \<le> 255 then Some (push_bit 16 m, e - 2)
      else if e = 30 \<and> 65535 < m then None
      else if e = 30 \<and> m \<le> 65535 then Some (push_bit 8 m, e - 1)
      else if e < 0 then Some (drop_bit (nat (\<bar>e\<bar> * 8)) m, 0)
      else Some (m, e))"

text \<open>\<open>CompactDifficulty::to_expanded\<close>; the outer \<open>None\<close> is a panic.\<close>

definition to_expanded :: "u256_ops \<Rightarrow> u32 \<Rightarrow> nat option option" where
  "to_expanded U c =
     (if c AND SIGN_BIT = SIGN_BIT then Some None
      else
        let mantissa = c AND UNSIGNED_MANTISSA_MASK;
            exponent = int (unat (drop_bit PRECISION c)) - OFFSET
        in case normalise mantissa exponent of
             None \<Rightarrow> Some None
           | Some (mantissa, exponent) \<Rightarrow>
               (case u_pow U BASE (nat exponent) of
                  None \<Rightarrow> None
                | Some p \<Rightarrow>
                    (case u_mul U (unat mantissa) p of
                       None \<Rightarrow> None
                     | Some result \<Rightarrow> Some (if result = 0 then None else Some result))))"

text \<open>\<open>ExpandedDifficulty::to_compact\<close>, with its assertions.\<close>

definition to_compact :: "u256_ops \<Rightarrow> nat \<Rightarrow> u32 option" where
  "to_compact U v =
     (if v = 0 then None
      else
        let size = u_bits U v div 8 + 1;
            mantissa = (if v \<le> unat UNSIGNED_MANTISSA_MASK
                        then u_shl U v (8 * (3 - size))
                        else u_shr U v (8 * (size - 3)))
        in if \<not> int size < 31 + OFFSET then None
           else if \<not> mantissa \<le> unat UNSIGNED_MANTISSA_MASK then None
           else if mantissa > 0 then Some (word_of_nat mantissa + push_bit 24 (word_of_nat size))
           else None)"

text \<open>\<open>Work::try_from\<close>: the work of a target, when 128 bits hold it.\<close>

definition work_try_from :: "u256_ops \<Rightarrow> nat \<Rightarrow> nat option option" where
  "work_try_from U v =
     (case u_add U v 1 of
        None \<Rightarrow> None
      | Some d \<Rightarrow>
          (case Option.bind (u_div U (u_not U v) d) (\<lambda>q. u_add U q 1) of
             None \<Rightarrow> None
           | Some result \<Rightarrow> Some (if result \<le> 2 ^ 128 - 1 then Some result else None)))"

definition to_work :: "u256_ops \<Rightarrow> u32 \<Rightarrow> nat option option" where
  "to_work U c =
     (case to_expanded U c of
        None \<Rightarrow> None
      | Some None \<Rightarrow> Some None
      | Some (Some v) \<Rightarrow> work_try_from U v)"

definition compact_bytes_in_display_order :: "u32 \<Rightarrow> bytes" where
  "compact_bytes_in_display_order c = be_of_nat 4 (unat c)"

definition compact_from_bytes_in_display_order :: "u256_ops \<Rightarrow> bytes \<Rightarrow> (string, u32) result option" where
  "compact_from_bytes_in_display_order U b =
     (let difficulty = word_of_nat (nat_of_be b)
      in case to_expanded U difficulty of
           None \<Rightarrow> None
         | Some None \<Rightarrow> Some (Err ''invalid difficulty value'')
         | Some (Some _) \<Rightarrow> Some (Ok difficulty))"

text \<open>A block hash read as a number, and compared with a target.\<close>

definition expanded_from_hash :: "bytes \<Rightarrow> nat" where
  "expanded_from_hash hash = nat_of_le hash"

definition expanded_bytes :: "nat \<Rightarrow> bytes" where
  "expanded_bytes v = be_of_nat 32 v"

definition expanded_from_bytes :: "bytes \<Rightarrow> nat" where
  "expanded_from_bytes b = nat_of_be b"

definition meets_target :: "bytes \<Rightarrow> nat \<Rightarrow> bool" where
  "meets_target hash target \<longleftrightarrow> expanded_from_hash hash \<le> target"

definition expanded_sum :: "u256_ops \<Rightarrow> nat list \<Rightarrow> nat option" where
  "expanded_sum U vs = fold (\<lambda>v acc. Option.bind acc (\<lambda>a. u_add U a v)) vs (Some 0)"

definition expanded_div :: "u256_ops \<Rightarrow> nat \<Rightarrow> nat \<Rightarrow> nat option" where
  "expanded_div U v rhs = u_div U v rhs"

definition expanded_mul :: "u256_ops \<Rightarrow> nat \<Rightarrow> nat \<Rightarrow> nat option" where
  "expanded_mul U v rhs = u_mul U v rhs"

section \<open>Cumulative work\<close>

definition work_add :: "nat \<Rightarrow> nat \<Rightarrow> nat option" where
  "work_add acc w = (if acc + w < 2 ^ 128 then Some (acc + w) else None)"

definition work_sub :: "nat \<Rightarrow> nat \<Rightarrow> nat option" where
  "work_sub acc w = (if w \<le> acc then Some (acc - w) else None)"

text \<open>The limit of Mainnet, through its compact form.\<close>

definition target_difficulty_limit_mainnet :: "u256_ops \<Rightarrow> nat option" where
  "target_difficulty_limit_mainnet U =
     Option.bind (to_compact U (2 ^ 243 - 1)) (\<lambda>c. Option.bind (to_expanded U c) id)"

section \<open>Targets in numbers\<close>

lemma u256_bits_le: "u256_bits n \<le> k \<longleftrightarrow> n < 2 ^ k"
proof (induction k arbitrary: n)
  case 0
  then show ?case by (subst u256_bits.simps) simp
next
  case (Suc k)
  show ?case
  proof (cases "n = 0")
    case False
    then have "u256_bits n \<le> Suc k \<longleftrightarrow> n div 2 < 2 ^ k" by (subst u256_bits.simps) (simp add: Suc.IH)
    also have "\<dots> \<longleftrightarrow> n < 2 ^ Suc k" by (simp add: div_less_iff_less_mult mult.commute)
    finally show ?thesis .
  qed (subst u256_bits.simps, simp)
qed

lemma u256_bits_bounds:
  assumes "n \<noteq> 0"
  shows "2 ^ (u256_bits n - 1) \<le> n" "n < 2 ^ u256_bits n" "u256_bits n \<noteq> 0"
proof -
  show "n < 2 ^ u256_bits n" using u256_bits_le [of n "u256_bits n"] by simp
  show nz: "u256_bits n \<noteq> 0" using assms by (subst u256_bits.simps) simp
  show "2 ^ (u256_bits n - 1) \<le> n"
    using u256_bits_le [of n "u256_bits n - 1"] nz by (simp add: not_less [symmetric])
qed

lemma mask_of: "UNSIGNED_MANTISSA_MASK = mask 23"
  by (simp add: UNSIGNED_MANTISSA_MASK_def SIGN_BIT_def mask_eq_exp_minus_1)

lemma unat_drop_bit: "unat (drop_bit k m) = unat m div 2 ^ k" for m :: u32
proof -
  have "unat m < 2 ^ 32" using unsigned_less [of m] by simp
  then show ?thesis by (subst unsigned_drop_bit_eq) (simp add: take_bit_eq_mod drop_bit_eq_div)
qed

lemma compact_parts:
  "unat (c AND UNSIGNED_MANTISSA_MASK) = unat c mod 2 ^ 23"
  "unat (drop_bit PRECISION c) = unat c div 2 ^ 24"
  "c AND SIGN_BIT = SIGN_BIT \<longleftrightarrow> odd (unat c div 2 ^ 23)"
proof -
  show "unat (c AND UNSIGNED_MANTISSA_MASK) = unat c mod 2 ^ 23"
    unfolding mask_of take_bit_eq_mask [symmetric]
    by (simp only: unsigned_take_bit_eq) (simp add: take_bit_eq_mod)
  show "unat (drop_bit PRECISION c) = unat c div 2 ^ 24"
    by (simp add: PRECISION_def unat_drop_bit)
  have sign: "bit SIGN_BIT n \<longleftrightarrow> n = 23" for n
    unfolding SIGN_BIT_def push_bit_of_1 bit_exp_iff by (auto simp: possible_bit_def)
  have "c AND SIGN_BIT = SIGN_BIT \<longleftrightarrow> bit c 23"
  proof
    assume "c AND SIGN_BIT = SIGN_BIT"
    from arg_cong [OF this, of "\<lambda>w. bit w 23"] show "bit c 23" unfolding bit_and_iff sign by simp
  next
    assume "bit c 23"
    then show "c AND SIGN_BIT = SIGN_BIT"
      by (intro bit_word_eqI) (auto simp only: bit_and_iff sign)
  qed
  also have "bit c 23 \<longleftrightarrow> bit (unat c) 23" by (simp add: bit_unsigned_iff)
  finally show "c AND SIGN_BIT = SIGN_BIT \<longleftrightarrow> odd (unat c div 2 ^ 23)" by (simp add: bit_iff_odd)
qed

text \<open>\<open>ToTarget\<close> of the protocol specification, in numbers.\<close>

definition to_target :: "nat \<Rightarrow> nat option" where
  "to_target n =
     (let m = n mod 2 ^ 23; e = n div 2 ^ 24;
          v = (if 3 \<le> e then m * 256 ^ (e - 3) else m div 256 ^ (3 - e))
      in if odd (n div 2 ^ 23) \<or> v = 0 \<or> 2 ^ 256 \<le> v then None else Some v)"

lemma pow256: "(256::nat) ^ k = 2 ^ (8 * k)"
  by (simp add: power_mult)

lemma u256_of_Some [simp]: "n < 2 ^ 256 \<Longrightarrow> u256_of n = Some n"
  by (simp add: u256_of_def)

lemma unat_push_bit: "unat m < 2 ^ (32 - k) \<Longrightarrow> k \<le> 32 \<Longrightarrow> unat (push_bit k m) = unat m * 2 ^ k" for m :: u32
proof -
  assume m: "unat m < 2 ^ (32 - k)" "k \<le> 32"
  then have "unat m * 2 ^ k < 2 ^ (32 - k) * 2 ^ k" by simp
  also have "\<dots> = 2 ^ 32" using m(2) by (simp flip: power_add)
  finally show ?thesis
    by (subst unsigned_push_bit_eq) (simp add: push_bit_eq_mult take_bit_eq_mod)
qed

lemma normalise_value:
  assumes "unat m < 2 ^ 23" "v = (if 0 \<le> e then unat m * 256 ^ nat e else unat m div 256 ^ nat (- e))" "-3 \<le> e"
  shows "case normalise m e of
      None \<Rightarrow> v = 0 \<or> 2 ^ 256 \<le> v
    | Some (m', e') \<Rightarrow> 0 \<le> e' \<and> e' \<le> 29 \<and> unat m' < 2 ^ 24 \<and> unat m' * 256 ^ nat e' = v"
proof -
  consider "32 \<le> e" | "e = 31" | "e = 30" | "0 \<le> e" "e \<le> 29" | "e < 0" by linarith
  then show ?thesis
  proof cases
    case 1
    then have "(256::nat) ^ 32 \<le> 256 ^ nat e" by (intro power_increasing) auto
    then have "v = 0 \<or> 2 ^ 256 \<le> v"
      using assms(2) 1 by (cases "unat m = 0") (auto simp: pow256 intro: order_trans [OF _ mult_le_mono1 [of 1]])
    with 1 show ?thesis by (simp add: normalise_def)
  next
    case 2
    show ?thesis
    proof (cases "m \<le> 255")
      case True
      then have "unat m \<le> 255" by (simp add: word_le_nat_alt)
      then have "unat (push_bit 16 m) = unat m * 2 ^ 16" by (intro unat_push_bit) auto
      with True [THEN leD] True 2 \<open>unat m \<le> 255\<close> assms(2) show ?thesis by (simp add: normalise_def pow256)
    next
      case False
      then have "256 \<le> unat m" by (simp add: word_le_nat_alt)
      then have "256 * 256 ^ 31 \<le> v" using 2 assms(2) by simp
      with False 2 show ?thesis by (simp add: normalise_def pow256)
    qed
  next
    case 3
    show ?thesis
    proof (cases "m \<le> 65535")
      case True
      then have "unat m \<le> 65535" by (simp add: word_le_nat_alt)
      then have "unat (push_bit 8 m) = unat m * 2 ^ 8" by (intro unat_push_bit) auto
      with True [THEN leD] True 3 \<open>unat m \<le> 65535\<close> assms(2) show ?thesis by (simp add: normalise_def pow256)
    next
      case False
      then have "65536 \<le> unat m" by (simp add: word_le_nat_alt)
      then have "65536 * 256 ^ 30 \<le> v" using 3 assms(2) by simp
      with False 3 show ?thesis by (simp add: normalise_def pow256)
    qed
  next
    case 4
    with assms show ?thesis by (simp add: normalise_def)
  next
    case 5
    have "unat (drop_bit (nat (\<bar>e\<bar> * 8)) m) = unat m div 256 ^ nat (- e)"
    proof -
      have "nat (\<bar>e\<bar> * 8) = 8 * nat (- e)" using 5 by linarith
      then show ?thesis by (simp only: unat_drop_bit pow256)
    qed
    moreover have "unat m div 256 ^ nat (- e) < 2 ^ 24"
      by (rule le_less_trans [OF div_le_dividend]) (use assms(1) in simp)
    ultimately show ?thesis using 5 assms(1,2) by (simp add: normalise_def)
  qed
qed

lemma to_expanded_spec:
  assumes U: "uint_documented U"
  shows "to_expanded U c = Some (to_target (unat c))"
proof (cases "c AND SIGN_BIT = SIGN_BIT")
  case True
  then show ?thesis by (simp add: to_expanded_def to_target_def compact_parts(3) Let_def)
next
  case False
  define m where "m = c AND UNSIGNED_MANTISSA_MASK"
  define e where "e = int (unat (drop_bit PRECISION c)) - OFFSET"
  define v where "v = (if 0 \<le> e then unat m * 256 ^ nat e else unat m div 256 ^ nat (- e))"
  have m: "unat m = unat c mod 2 ^ 23" by (simp add: m_def compact_parts)
  have e: "e = int (unat c div 2 ^ 24) - 3" by (simp add: e_def compact_parts OFFSET_def)
  have v: "v = (if 3 \<le> unat c div 2 ^ 24 then unat m * 256 ^ (unat c div 2 ^ 24 - 3)
      else unat m div 256 ^ (3 - unat c div 2 ^ 24))"
    by (auto simp: v_def e nat_diff_distrib' nat_int_add simp flip: of_nat_diff)
  have spec: "to_target (unat c) = (if v = 0 \<or> 2 ^ 256 \<le> v then None else Some v)"
    using False
    by (simp only: to_target_def Let_def compact_parts(3) m [symmetric] v [symmetric] simp_thms)
  have val: "case normalise m e of
      None \<Rightarrow> v = 0 \<or> 2 ^ 256 \<le> v
    | Some (m', e') \<Rightarrow> 0 \<le> e' \<and> e' \<le> 29 \<and> unat m' < 2 ^ 24 \<and> unat m' * 256 ^ nat e' = v"
    by (rule normalise_value) (simp_all add: v_def m e)
  have run: "to_expanded U c = (case normalise m e of
             None \<Rightarrow> Some None
           | Some (mantissa, exponent) \<Rightarrow>
               (case u_pow U BASE (nat exponent) of
                  None \<Rightarrow> None
                | Some p \<Rightarrow>
                    (case u_mul U (unat mantissa) p of
                       None \<Rightarrow> None
                     | Some result \<Rightarrow> Some (if result = 0 then None else Some result))))"
    using False by (simp add: to_expanded_def Let_def m_def e_def)
  have bound: "u_pow U BASE (nat e') = Some (256 ^ nat e') \<and>
      u_mul U (unat m') (256 ^ nat e') = Some (unat m' * 256 ^ nat e') \<and> unat m' * 256 ^ nat e' < 2 ^ 256"
    if "0 \<le> e'" "e' \<le> 29" "unat m' < 2 ^ 24" for e' and m' :: u32
  proof -
    have le: "(256::nat) ^ nat e' \<le> 256 ^ 29" using that by (intro power_increasing) auto
    then have p: "(256::nat) ^ nat e' < 2 ^ 256" by simp
    have "unat m' * 256 ^ nat e' \<le> (2 ^ 24 - 1) * 256 ^ 29" using le that(3) by (intro mult_le_mono) auto
    then have v: "unat m' * 256 ^ nat e' < 2 ^ 256" by simp
    have "u_pow U BASE (nat e') = u256_of (256 ^ nat e')"
      using uint_documentedD(1) [OF U, of 256 "nat e'"] that by (simp add: BASE_def)
    moreover have "u_mul U (unat m') (256 ^ nat e') = u256_of (unat m' * 256 ^ nat e')"
      using uint_documentedD(2) [OF U _ p, of "unat m'"] that by simp
    ultimately show ?thesis using p v by simp
  qed
  show ?thesis
  proof (cases "normalise m e")
    case None
    with spec val run show ?thesis by auto
  next
    case (Some p)
    obtain m' e' where p: "p = (m', e')" by (cases p)
    with val Some have r: "0 \<le> e'" "e' \<le> 29" "unat m' < 2 ^ 24" "unat m' * 256 ^ nat e' = v" by simp_all
    from bound [OF r(1-3)] r(4) have "u_pow U BASE (nat e') = Some (256 ^ nat e')"
      "u_mul U (unat m') (256 ^ nat e') = Some v" "v < 2 ^ 256" by simp_all
    with spec run Some p r(4) show ?thesis by (simp add: not_le [symmetric])
  qed
qed

section \<open>Into the compact form\<close>

text \<open>What the compact form keeps of a target: all but the bytes below its three highest.\<close>

definition compact_size :: "nat \<Rightarrow> nat" where
  "compact_size v = u256_bits v div 8 + 1"

definition compact_mantissa :: "nat \<Rightarrow> nat" where
  "compact_mantissa v = (if compact_size v \<le> 3 then v * 256 ^ (3 - compact_size v) else v div 256 ^ (compact_size v - 3))"

definition truncated :: "nat \<Rightarrow> nat" where
  "truncated v = v - v mod 256 ^ (compact_size v - 3)"

lemma compact_mantissa_bounds:
  assumes "0 < v" "v < 2 ^ 256"
  shows "0 < compact_mantissa v" "compact_mantissa v < 2 ^ 23" "compact_size v \<le> 33"
proof -
  let ?b = "u256_bits v" and ?s = "compact_size v"
  have b: "2 ^ (?b - 1) \<le> v" "v < 2 ^ ?b" "?b \<noteq> 0" "?b \<le> 256"
    using u256_bits_bounds [of v] assms u256_bits_le [of v 256] by simp_all
  have s: "?b < 8 * ?s" "8 * ?s \<le> ?b + 8" by (simp_all add: compact_size_def)
  show "?s \<le> 33" using s(2) b(4) by simp
  have "0 < compact_mantissa v \<and> compact_mantissa v < 2 ^ 23"
  proof (cases "?s \<le> 3")
    case True
    have "v * 256 ^ (3 - ?s) < 2 ^ ?b * 2 ^ (8 * (3 - ?s))" using b(2) by (simp add: pow256)
    also have "\<dots> = 2 ^ (?b + 8 * (3 - ?s))" by (simp add: power_add)
    also have "\<dots> \<le> (2::nat) ^ 23" using True s(1) by (intro power_increasing) auto
    finally show ?thesis using True assms(1) by (simp add: compact_mantissa_def)
  next
    case False
    have "v < 2 ^ 23 * 2 ^ (8 * (?s - 3))"
    proof -
      have "(2::nat) ^ ?b \<le> 2 ^ (23 + 8 * (?s - 3))" using False s(1) by (intro power_increasing) auto
      then show ?thesis using b(2) by (simp add: power_add)
    qed
    then have "v div 256 ^ (?s - 3) < 2 ^ 23" by (simp add: pow256 div_less_iff_less_mult)
    moreover have "(2::nat) ^ (8 * (?s - 3)) \<le> 2 ^ (?b - 1)" using False s(2) by (intro power_increasing) auto
    from this b(1) have "2 ^ (8 * (?s - 3)) \<le> v" by (rule le_trans)
    then have "256 ^ (?s - 3) \<le> v" by (simp only: pow256)
    then have "0 < v div 256 ^ (?s - 3)" by (simp add: div_greater_zero_iff)
    ultimately show ?thesis using False by (simp add: compact_mantissa_def)
  qed
  then show "0 < compact_mantissa v" "compact_mantissa v < 2 ^ 23" by simp_all
qed

lemma unat_mask: "unat UNSIGNED_MANTISSA_MASK = 2 ^ 23 - 1"
  by (simp add: UNSIGNED_MANTISSA_MASK_def SIGN_BIT_def)

lemma small_iff: "v \<le> 2 ^ 23 - 1 \<longleftrightarrow> compact_size v \<le> 3"
proof -
  have "compact_size v \<le> 3 \<longleftrightarrow> u256_bits v \<le> 23" by (auto simp: compact_size_def)
  then show ?thesis by (auto simp: u256_bits_le)
qed

lemma to_compact_value:
  assumes U: "uint_documented U" and v: "0 < v" "v < 2 ^ 256"
  obtains c where "to_compact U v = Some c" "unat c = compact_mantissa v + compact_size v * 2 ^ 24"
proof -
  note b = compact_mantissa_bounds [OF v]
  have bits: "u_bits U v = u256_bits v" using uint_documentedD(6) [OF U v(2), of 0] by simp
  have shl: "u_shl U v (8 * (3 - compact_size v)) = v * 256 ^ (3 - compact_size v) mod 2 ^ 256"
    using uint_documentedD(7) [OF U v(2)] by (simp add: pow256)
  have shr: "u_shr U v (8 * (compact_size v - 3)) = v div 256 ^ (compact_size v - 3)"
    using uint_documentedD(8) [OF U v(2)] b(3) by (simp add: pow256)
  have m: "(if v \<le> unat UNSIGNED_MANTISSA_MASK
      then u_shl U v (8 * (3 - compact_size v))
      else u_shr U v (8 * (compact_size v - 3))) = compact_mantissa v"
  proof (cases "compact_size v \<le> 3")
    case True
    have "v * 256 ^ (3 - compact_size v) < 2 ^ 256" using b(2) True by (simp add: compact_mantissa_def)
    then show ?thesis using True small_iff [of v] by (simp add: unat_mask compact_mantissa_def shl)
  next
    case False
    then show ?thesis using small_iff [of v] by (simp add: unat_mask compact_mantissa_def shr)
  qed
  define c :: u32 where "c = word_of_nat (compact_mantissa v) + push_bit 24 (word_of_nat (compact_size v))"
  have "unat c = compact_mantissa v + compact_size v * 2 ^ 24"
  proof -
    have "unat (word_of_nat (compact_size v) :: u32) = compact_size v" using b(3) by (simp add: unat_of_nat)
    then have "unat (push_bit 24 (word_of_nat (compact_size v) :: u32)) = compact_size v * 2 ^ 24"
      using b(3) by (subst unat_push_bit) auto
    moreover have "unat (word_of_nat (compact_mantissa v) :: u32) = compact_mantissa v"
      using b(2) by (simp add: unat_of_nat)
    ultimately show ?thesis
      using b(2,3) unfolding c_def by (subst unat_word_ariths) simp
  qed
  moreover have "to_compact U v = Some c"
    unfolding to_compact_def Let_def bits compact_size_def [symmetric] m
    using v(1) b by (simp add: OFFSET_def unat_mask c_def)
  ultimately show thesis using that by blast
qed

lemma truncated_le: "truncated v \<le> v" by (simp add: truncated_def)

lemma compact_layout:
  fixes m s :: nat
  assumes "m < 2 ^ 23"
  shows "(m + s * 2 ^ 24) mod 2 ^ 23 = m" "(m + s * 2 ^ 24) div 2 ^ 24 = s"
    "(m + s * 2 ^ 24) div 2 ^ 23 = 2 * s"
proof -
  have split: "m + s * 2 ^ 24 = m + (2 * s) * 2 ^ 23" by simp
  show "(m + s * 2 ^ 24) mod 2 ^ 23 = m"
    unfolding split using assms by (simp only: mod_mult_self1 mod_less)
  show "(m + s * 2 ^ 24) div 2 ^ 23 = 2 * s"
    unfolding split using assms div_mult_self1 [of "(2::nat) ^ 23" m "2 * s"] by (simp only:) simp
  show "(m + s * 2 ^ 24) div 2 ^ 24 = s" using assms by simp
qed

lemma to_target_compact:
  assumes "0 < v" "v < 2 ^ 256" "unat c = compact_mantissa v + compact_size v * 2 ^ 24"
  shows "to_target (unat c) = Some (truncated v)" "0 < truncated v"
proof -
  note b = compact_mantissa_bounds [OF assms(1,2)]
  have parts: "unat c mod 2 ^ 23 = compact_mantissa v" "unat c div 2 ^ 24 = compact_size v"
    "even (unat c div 2 ^ 23)"
    unfolding assms(3) using compact_layout [OF b(2)] by (simp_all only: dvd_triv_left)
  have v: "(if 3 \<le> compact_size v then compact_mantissa v * 256 ^ (compact_size v - 3)
      else compact_mantissa v div 256 ^ (3 - compact_size v)) = truncated v"
    by (simp add: compact_mantissa_def truncated_def minus_mod_eq_div_mult)
  show pos: "0 < truncated v"
    using b(1) unfolding truncated_def compact_mantissa_def
    by (cases "compact_size v \<le> 3") (auto simp: minus_mod_eq_div_mult)
  have "truncated v < 2 ^ 256" using truncated_le [of v] assms(2) by simp
  with pos show "to_target (unat c) = Some (truncated v)"
    unfolding to_target_def Let_def parts(1,2) v using parts(3) by (simp only: not_le [symmetric]) simp
qed

lemma truncated_size:
  assumes "0 < v" "v < 2 ^ 256"
  shows "u256_bits (truncated v) = u256_bits v"
proof -
  let ?b = "u256_bits v" and ?k = "8 * (compact_size v - 3)"
  have b: "2 ^ (?b - 1) \<le> v" "v < 2 ^ ?b" "?b \<noteq> 0" using u256_bits_bounds [of v] assms by simp_all
  have k: "?k \<le> ?b - 1" using b(3) by (simp add: compact_size_def)
  have split: "(2::nat) ^ (?b - 1) = 2 ^ (?b - 1 - ?k) * 2 ^ ?k"
    using k by (simp only: power_add [symmetric] le_add_diff_inverse2)
  also have "\<dots> \<le> v div 2 ^ ?k * 2 ^ ?k"
  proof -
    have "2 ^ (?b - 1 - ?k) \<le> v div 2 ^ ?k"
      using b(1) unfolding split by (simp add: less_eq_div_iff_mult_less_eq)
    then show ?thesis by simp
  qed
  also have "\<dots> = truncated v" by (simp add: truncated_def minus_mod_eq_div_mult pow256)
  finally have "2 ^ (?b - 1) \<le> truncated v" .
  then have "\<not> u256_bits (truncated v) \<le> ?b - 1" by (simp add: u256_bits_le not_less)
  moreover have "u256_bits (truncated v) \<le> ?b"
    using truncated_le [of v] b(2) by (simp add: u256_bits_le)
  ultimately show ?thesis by linarith
qed

lemma truncated_truncated:
  assumes "0 < v" "v < 2 ^ 256"
  shows "truncated (truncated v) = truncated v"
proof -
  have "compact_size (truncated v) = compact_size v" using truncated_size [OF assms] by (simp add: compact_size_def)
  then show ?thesis
    by (simp add: truncated_def minus_mod_eq_div_mult)
qed

section \<open>Work\<close>

lemma work_value:
  assumes U: "uint_documented U" and v: "0 < v" "v + 1 < 2 ^ 256"
  shows "work_try_from U v = Some (if 2 ^ 256 div (v + 1) < 2 ^ 128 then Some (2 ^ 256 div (v + 1)) else None)"
proof -
  have "(2::nat) ^ 256 div (v + 1) = (2 ^ 256 - (v + 1)) div (v + 1) + 1"
    using v(2) by (subst le_div_geq) auto
  then have q: "(2 ^ 256 - 1 - v) div (v + 1) + 1 = 2 ^ 256 div (v + 1)" by simp
  have "(2::nat) ^ 256 div (v + 1) \<le> 2 ^ 256 div 2" using v(1) by (intro div_le_mono2) auto
  then have w: "(2::nat) ^ 256 div (v + 1) < 2 ^ 256" by simp
  have below: "v < 2 ^ 256" "2 ^ 256 - 1 - v < (2::nat) ^ 256" "(2 ^ 256 - 1 - v) div (v + 1) < (2::nat) ^ 256"
    using v(2) w q by linarith+
  have "u_add U v 1 = u256_of (v + 1)" using uint_documentedD(3) [OF U below(1), of 1] by simp
  then have d: "u_add U v 1 = Some (v + 1)" using v(2) by (simp only: u256_of_Some)
  have "u_not U v = 2 ^ 256 - 1 - v" using uint_documentedD(5) [OF U below(1), of 0] by simp
  then have n: "u_div U (u_not U v) (v + 1) = Some ((2 ^ 256 - 1 - v) div (v + 1))"
    using uint_documentedD(4) [OF U below(2) v(2)] by simp
  have "u_add U ((2 ^ 256 - 1 - v) div (v + 1)) 1 = u256_of (2 ^ 256 div (v + 1))"
    using uint_documentedD(3) [OF U below(3), of 1] unfolding q by simp
  then have r: "u_add U ((2 ^ 256 - 1 - v) div (v + 1)) 1 = Some (2 ^ 256 div (v + 1))"
    using w by (simp only: u256_of_Some)
  have "work_try_from U v = Some (if 2 ^ 256 div (v + 1) \<le> 2 ^ 128 - 1 then Some (2 ^ 256 div (v + 1)) else None)"
    unfolding work_try_from_def d by (simp only: option.case n bind.bind_lunit r)
  moreover have "x \<le> 2 ^ 128 - 1 \<longleftrightarrow> x < 2 ^ 128" for x :: nat by auto
  ultimately show ?thesis by (simp only:)
qed

lemma to_target_bound: "to_target n = Some v \<Longrightarrow> 0 < v \<and> v + 1 < 2 ^ 256"
proof -
  assume t: "to_target n = Some v"
  let ?m = "n mod 2 ^ 23" and ?e = "n div 2 ^ 24"
  have v: "v = (if 3 \<le> ?e then ?m * 256 ^ (?e - 3) else ?m div 256 ^ (3 - ?e))" "v \<noteq> 0" "v < 2 ^ 256"
    using t by (simp_all add: to_target_def Let_def split: if_splits)
  have "?m < 2 ^ 23" by simp
  have "v \<noteq> 2 ^ 256 - 1"
  proof (cases "4 \<le> ?e")
    case True
    then have "256 dvd v" using v(1) by (auto simp: dvd_mult2 intro!: dvd_mult dvd_power)
    moreover have "\<not> (256::nat) dvd 2 ^ 256 - 1" by (simp add: dvd_eq_mod_eq_0)
    ultimately show ?thesis by metis
  next
    case False
    then have "v \<le> ?m" using v(1) by (cases "?e = 3") auto
    with \<open>?m < 2 ^ 23\<close> have "v < 2 ^ 23" by linarith
    then show ?thesis by simp
  qed
  with v show ?thesis by simp
qed

lemma to_work_spec:
  assumes U: "uint_documented U"
  shows "to_work U c = Some (case to_target (unat c) of None \<Rightarrow> None
     | Some v \<Rightarrow> if 2 ^ 256 div (v + 1) < 2 ^ 128 then Some (2 ^ 256 div (v + 1)) else None)"
proof (cases "to_target (unat c)")
  case None
  then show ?thesis by (simp only: to_work_def to_expanded_spec [OF U] option.case)
next
  case (Some v)
  note bound = to_target_bound [OF Some]
  show ?thesis
    unfolding to_work_def to_expanded_spec [OF U] Some option.case
    by (rule work_value [OF U conjunct1 [OF bound] conjunct2 [OF bound]])
qed

lemma easier_target_less_work: "v \<le> v' \<Longrightarrow> 2 ^ 256 div (v' + 1) \<le> (2::nat) ^ 256 div (v + 1)"
  by (rule div_le_mono2) auto

lemma compact_of_truncated:
  assumes "0 < v" "v < 2 ^ 256"
  shows "compact_size (truncated v) = compact_size v" "compact_mantissa (truncated v) = compact_mantissa v"
proof -
  show size: "compact_size (truncated v) = compact_size v"
    using truncated_size [OF assms] by (simp add: compact_size_def)
  show "compact_mantissa (truncated v) = compact_mantissa v"
    unfolding compact_mantissa_def size by (simp add: truncated_def minus_mod_eq_div_mult)
qed

lemma truncation_error:
  assumes "0 < v" "v < 2 ^ 256"
  shows "(v - truncated v) * 2 ^ 15 \<le> v"
proof (cases "compact_size v \<le> 3")
  case True
  then show ?thesis by (simp add: truncated_def)
next
  case False
  let ?k = "8 * (compact_size v - 3)"
  have b: "2 ^ (u256_bits v - 1) \<le> v" using u256_bits_bounds [of v] assms by simp
  have "v - truncated v = v mod 2 ^ ?k" by (simp add: truncated_def pow256)
  also have "\<dots> \<le> 2 ^ ?k" by (simp add: less_imp_le)
  finally have "(v - truncated v) * 2 ^ 15 \<le> 2 ^ ?k * 2 ^ 15" by (rule mult_le_mono1)
  also have "\<dots> = 2 ^ (?k + 15)" by (rule power_add [symmetric])
  also have "\<dots> \<le> (2::nat) ^ (u256_bits v - 1)"
    using False by (intro power_increasing) (auto simp: compact_size_def)
  finally show ?thesis using b by (rule le_trans)
qed

section \<open>Properties\<close>

text \<open>
  C34. For every 32-bit compact difficulty, whatever its bits, the target computed by the code is
  \<open>ToTarget\<close> of the protocol specification (no target for negative, zero and overflowing values),
  and the work computed is \<open>floor (2 ^ 256 / (target + 1))\<close>, absent exactly when 128 bits do
  not hold it; no step of either computation panics.
\<close>

theorem difficulty_matches_the_protocol:
  assumes "uint_documented U"
  shows "to_expanded U c = Some (to_target (unat c)) \<and>
    to_work U c = Some (case to_target (unat c) of None \<Rightarrow> None
      | Some v \<Rightarrow> if 2 ^ 256 div (v + 1) < 2 ^ 128 then Some (2 ^ 256 div (v + 1)) else None)"
  using to_expanded_spec [OF assms] to_work_spec [OF assms] by (rule conjI)

lemma difficulty_matches_the_protocol_witness:
  "to_expanded exact_uint 0x1f07ffff = Some (Some (0x07ffff * 256 ^ 28)) \<and>
   to_work exact_uint 0x1f07ffff = Some (Some 8192)"
  using difficulty_matches_the_protocol [where c = "0x1f07ffff" and U = exact_uint, OF exact_uint_documented]
  by (simp add: to_target_def)

text \<open>
  Every nonzero 256-bit target has a compact form (the assertions of the conversion never
  fire), which expands to the target without the bytes below its three highest: never a larger
  target, off by at most one part in \<open>2 ^ 15\<close>, and with the same compact form again, so that
  comparing compact forms is comparing targets as the chain sees them.
\<close>

theorem targets_survive_compaction:
  assumes "uint_documented U" "0 < v" "v < 2 ^ 256"
  shows "\<exists>c t. to_compact U v = Some c \<and> to_expanded U c = Some (Some t) \<and> 0 < t \<and> t \<le> v \<and>
    (v - t) * 2 ^ 15 \<le> v \<and> t = v - v mod 256 ^ (compact_size v - 3) \<and> to_compact U t = Some c"
proof -
  obtain c where c: "to_compact U v = Some c" "unat c = compact_mantissa v + compact_size v * 2 ^ 24"
    by (rule to_compact_value [OF assms])
  note t = to_target_compact [OF assms(2,3) c(2)]
  have below: "truncated v < 2 ^ 256" using truncated_le [of v] assms(3) by simp
  obtain c' where c': "to_compact U (truncated v) = Some c'"
      "unat c' = compact_mantissa (truncated v) + compact_size (truncated v) * 2 ^ 24"
    by (rule to_compact_value [OF assms(1) t(2) below])
  have "c' = c" using c(2) c'(2) compact_of_truncated [OF assms(2,3)] by (simp add: word_unat_eq_iff)
  with c c'(1) t truncated_le [of v] truncation_error [OF assms(2,3)] to_expanded_spec [OF assms(1), of c]
  show ?thesis by (auto simp: truncated_def)
qed

lemma targets_survive_compaction_witness:
  "\<exists>c t. to_compact exact_uint (2 ^ 243 - 1) = Some c \<and> to_expanded exact_uint c = Some (Some t) \<and>
     t \<le> 2 ^ 243 - 1 \<and> target_difficulty_limit_mainnet exact_uint = Some t"
  using targets_survive_compaction [where v = "2 ^ 243 - 1", OF exact_uint_documented]
  by (auto simp: target_difficulty_limit_mainnet_def)

end
