(* ===== verification/Merkle.thy ===== *)
theory Merkle
  imports TxHash "HOL-Library.While_Combinator"
begin

text \<open>
  The two Merkle trees of a block (\<open>block/merkle.rs\<close>, \<open>transaction/auth_digest.rs\<close> of
  zebra-chain): the Bitcoin-inherited tree over transaction ids, whose loop duplicates the last
  hash of an odd level, and the ZIP-244 tree over authorizing digests, padded to a power of two.
  BLAKE2b and the authorizing digest of librustzcash are parameters.
\<close>

section \<open>The tree of transaction ids\<close>

definition merkle_hash :: "hashing \<Rightarrow> bytes \<Rightarrow> bytes \<Rightarrow> bytes" where
  "merkle_hash hs h1 h2 = sha256d_finish hs (h1 @ h2)"

text \<open>One round of the loop: \<open>chunks(2)\<close>, where the last chunk may have one element.\<close>

fun merkle_level :: "('h \<Rightarrow> 'h \<Rightarrow> 'h) \<Rightarrow> 'h list \<Rightarrow> 'h list" where
  "merkle_level f [] = []"
| "merkle_level f [h1] = [f h1 h1]"
| "merkle_level f (h1 # h2 # hashes) = f h1 h2 # merkle_level f hashes"

text \<open>
  \<open>while hashes.len() > 1\<close>; \<open>None\<close> of the loop would be a loop that never ends, \<open>None\<close> of the
  root is the panic of \<open>hashes[0]\<close>.
\<close>

definition merkle_loop :: "('h \<Rightarrow> 'h \<Rightarrow> 'h) \<Rightarrow> 'h list \<Rightarrow> 'h list option" where
  "merkle_loop f = while_option (\<lambda>hashes. length hashes > 1) (merkle_level f)"

definition first_of :: "'h list option \<Rightarrow> 'h option" where
  "first_of r = (case r of Some (h # _) \<Rightarrow> Some h | _ \<Rightarrow> None)"

definition merkle_root :: "hashing \<Rightarrow> bytes list \<Rightarrow> bytes option" where
  "merkle_root hs hashes = first_of (merkle_loop (merkle_hash hs) hashes)"

text \<open>The root of a block's transactions, which have to have ids.\<close>

definition merkle_root_of_transactions :: "hashing \<Rightarrow> crypto \<Rightarrow> transaction list \<Rightarrow> bytes option" where
  "merkle_root_of_transactions hs cr txs = Option.bind (those (map (tx_hash hs cr) txs)) (merkle_root hs)"

section \<open>The tree of authorizing digests\<close>

record auth_hashing =
  blake2b_256 :: "string \<Rightarrow> bytes \<Rightarrow> bytes"
  lrz_auth_commitment :: "bytes \<Rightarrow> u32 \<Rightarrow> bytes"

definition auth_data_hash :: "auth_hashing \<Rightarrow> bytes \<Rightarrow> bytes \<Rightarrow> bytes" where
  "auth_data_hash ah h1 h2 = blake2b_256 ah ''ZcashAuthDatHash'' (h1 @ h2)"

text \<open>\<open>Transaction::auth_digest\<close>; the outer \<open>None\<close> is a panic.\<close>

definition auth_digest :: "auth_hashing \<Rightarrow> crypto \<Rightarrow> transaction \<Rightarrow> bytes option option" where
  "auth_digest ah cr tx =
     (case tx_network_upgrade tx of
        None \<Rightarrow> Some None
      | Some nu \<Rightarrow>
          (case (to_librustzcash cr tx nu, write_transaction cr tx, branch_id nu) of
             (Ok _, Ok b, Some br) \<Rightarrow> Some (Some (lrz_auth_commitment ah b br))
           | _ \<Rightarrow> None))"

definition AUTH_DIGEST_PLACEHOLDER :: bytes where "AUTH_DIGEST_PLACEHOLDER = replicate 32 0xFF"

fun next_power_of_two_from :: "nat \<Rightarrow> nat \<Rightarrow> nat \<Rightarrow> nat" where
  "next_power_of_two_from 0 p n = p"
| "next_power_of_two_from (Suc fuel) p n = (if n \<le> p then p else next_power_of_two_from fuel (2 * p) n)"

definition next_power_of_two :: "nat \<Rightarrow> nat" where
  "next_power_of_two n = next_power_of_two_from n 1 n"

definition auth_padding :: "bytes list \<Rightarrow> bytes list" where
  "auth_padding hashes = hashes @ replicate (next_power_of_two (length hashes) - length hashes) (replicate 32 0)"

text \<open>A round over a full level; an odd one is the \<open>unreachable!\<close>.\<close>

fun full_level :: "('h \<Rightarrow> 'h \<Rightarrow> 'h) \<Rightarrow> 'h list \<Rightarrow> 'h list option" where
  "full_level f [] = Some []"
| "full_level f [h1] = None"
| "full_level f (h1 # h2 # hashes) = map_option ((#) (f h1 h2)) (full_level f hashes)"

definition auth_loop :: "('h \<Rightarrow> 'h \<Rightarrow> 'h) \<Rightarrow> 'h list \<Rightarrow> 'h list option option" where
  "auth_loop f hashes =
     while_option (\<lambda>r. case r of Some hs \<Rightarrow> length hs > 1 | None \<Rightarrow> False)
       (\<lambda>r. Option.bind r (full_level f)) (Some hashes)"

definition auth_data_root :: "auth_hashing \<Rightarrow> bytes list \<Rightarrow> bytes option" where
  "auth_data_root ah hashes =
     first_of (Option.bind (auth_loop (auth_data_hash ah) (auth_padding hashes)) id)"

definition auth_data_root_of_transactions :: "auth_hashing \<Rightarrow> crypto \<Rightarrow> transaction list \<Rightarrow> bytes option" where
  "auth_data_root_of_transactions ah cr txs =
     Option.bind (those (map (auth_digest ah cr) txs))
       (\<lambda>ds. auth_data_root ah (map (\<lambda>d. case d of Some h \<Rightarrow> h | None \<Rightarrow> AUTH_DIGEST_PLACEHOLDER) ds))"

section \<open>Levels and rounds\<close>

lemma length_merkle_level [simp]: "length (merkle_level f hs) = (length hs + 1) div 2"
  by (induction f hs rule: merkle_level.induct) simp_all

text \<open>Rounds a list of \<open>n\<close> hashes takes.\<close>

function merkle_rounds :: "nat \<Rightarrow> nat" where
  "merkle_rounds n = (if n \<le> 1 then 0 else Suc (merkle_rounds ((n + 1) div 2)))"
  by pat_completeness auto
termination by (relation "measure id") auto

declare merkle_rounds.simps [simp del]

lemma merkle_rounds_log: "1 \<le> n \<Longrightarrow> n \<le> 2 ^ k \<longleftrightarrow> merkle_rounds n \<le> k"
proof (induction k arbitrary: n)
  case 0
  then show ?case by (subst merkle_rounds.simps) auto
next
  case (Suc k)
  show ?case
  proof (cases "n \<le> 1")
    case True
    with Suc.prems show ?thesis by (subst merkle_rounds.simps) auto
  next
    case False
    then have "merkle_rounds n \<le> Suc k \<longleftrightarrow> (n + 1) div 2 \<le> 2 ^ k"
      using Suc.IH [of "(n + 1) div 2"] by (subst merkle_rounds.simps) auto
    also have "\<dots> \<longleftrightarrow> n \<le> 2 ^ Suc k" by auto
    finally show ?thesis by simp
  qed
qed

lemma merkle_loop_ends:
  "merkle_loop f hs = Some ((merkle_level f ^^ merkle_rounds (length hs)) hs) \<and>
   length ((merkle_level f ^^ merkle_rounds (length hs)) hs) = min 1 (length hs)"
proof (induction "length hs" arbitrary: hs rule: less_induct)
  case less
  show ?case
  proof (cases "length hs \<le> 1")
    case True
    then have "merkle_rounds (length hs) = 0" by (subst merkle_rounds.simps) simp
    moreover have "merkle_loop f hs = Some hs"
      unfolding merkle_loop_def by (subst while_option_unfold) (use True in simp)
    ultimately show ?thesis using True by (cases hs) auto
  next
    case False
    then have r: "merkle_rounds (length hs) = Suc (merkle_rounds (length (merkle_level f hs)))"
      by (subst merkle_rounds.simps) simp
    have "merkle_loop f hs = merkle_loop f (merkle_level f hs)"
      unfolding merkle_loop_def by (subst while_option_unfold) (use False in simp)
    with less [of "merkle_level f hs"] False show ?thesis
      by (simp add: r funpow_Suc_right del: funpow.simps)
  qed
qed

lemma merkle_root_eq:
  "merkle_root hs xs = Some r \<longleftrightarrow> (merkle_level (merkle_hash hs) ^^ merkle_rounds (length xs)) xs = [r]"
proof -
  let ?ys = "(merkle_level (merkle_hash hs) ^^ merkle_rounds (length xs)) xs"
  have "merkle_root hs xs = first_of (Some ?ys)" "length ?ys \<le> 1"
    using merkle_loop_ends [of "merkle_hash hs" xs] by (simp_all add: merkle_root_def)
  then show ?thesis by (cases ?ys) (auto simp: first_of_def)
qed

lemma merkle_root_total: "merkle_root hs xs \<noteq> None \<longleftrightarrow> xs \<noteq> []"
  using merkle_loop_ends [of "merkle_hash hs" xs]
  by (cases xs) (auto simp: merkle_root_def first_of_def split: list.splits)

section \<open>What a root commits to\<close>

text \<open>
  The strings given to SHA-256 for a double hash and, from the leaves up, for a root of so many rounds;
  and two different ones among given strings that have the same SHA-256.
\<close>

definition sha256d_messages :: "hashing \<Rightarrow> bytes \<Rightarrow> bytes list" where
  "sha256d_messages hs m = [m, sha256 hs m]"

fun level_messages :: "bytes list \<Rightarrow> bytes list" where
  "level_messages [] = []"
| "level_messages [h1] = [h1 @ h1]"
| "level_messages (h1 # h2 # hashes) = (h1 @ h2) # level_messages hashes"

fun rounds_messages :: "hashing \<Rightarrow> nat \<Rightarrow> bytes list \<Rightarrow> bytes list" where
  "rounds_messages hs 0 xs = []"
| "rounds_messages hs (Suc k) xs =
     concat (map (sha256d_messages hs) (level_messages xs)) @ rounds_messages hs k (merkle_level (merkle_hash hs) xs)"

definition merkle_messages :: "hashing \<Rightarrow> bytes list \<Rightarrow> bytes list" where
  "merkle_messages hs xs = rounds_messages hs (merkle_rounds (length xs)) xs"

definition collision_among :: "hashing \<Rightarrow> bytes list \<Rightarrow> bool" where
  "collision_among hs ms \<longleftrightarrow> (\<exists>a \<in> set ms. \<exists>b \<in> set ms. a \<noteq> b \<and> sha256 hs a = sha256 hs b)"

lemma collision_among_mono: "collision_among hs ms \<Longrightarrow> set ms \<subseteq> set ns \<Longrightarrow> collision_among hs ns"
  unfolding collision_among_def by blast

lemma collision_among_parts:
  "collision_among hs (a @ b) \<Longrightarrow> collision_among hs (a @ c @ b @ d)"
  "collision_among hs (a @ b) \<Longrightarrow> collision_among hs (c @ a @ d @ b)"
  by (erule collision_among_mono, force)+

lemma sha256d_is_sha256:
  "hashing_ok hs \<Longrightarrow> sha256d_finish hs m = sha256 hs (sha256 hs m)"
  by (simp add: sha256d_finish_def Let_def write_at_def slice_def hashing_ok_def)

lemma sha256d_collision:
  assumes "hashing_ok hs" "sha256d_finish hs a = sha256d_finish hs b"
  shows "a = b \<or> collision_among hs (sha256d_messages hs a @ sha256d_messages hs b)"
proof -
  have twice: "sha256 hs (sha256 hs a) = sha256 hs (sha256 hs b)"
    using assms(2) by (simp only: sha256d_is_sha256 [OF assms(1)])
  have two: "collision_among hs ms" if "x \<in> set ms" "y \<in> set ms" "x \<noteq> y" "sha256 hs x = sha256 hs y" for x y ms
    using that unfolding collision_among_def by blast
  show ?thesis
    using two [of a "sha256d_messages hs a @ sha256d_messages hs b" b] two [OF _ _ _ twice]
    by (cases "a = b"; cases "sha256 hs a = sha256 hs b") (simp_all add: sha256d_messages_def)
qed

lemma pair_collision:
  assumes "hashing_ok hs" "merkle_hash hs a b = merkle_hash hs c d" "length a = length c"
  shows "(a = c \<and> b = d) \<or> collision_among hs (sha256d_messages hs (a @ b) @ sha256d_messages hs (c @ d))"
  using sha256d_collision [OF assms(1), of "a @ b" "c @ d"] assms(2,3) by (simp add: merkle_hash_def)

lemma level_binds:
  assumes "hashing_ok hs" "length xs = length ys" "list_all (\<lambda>h. length h = 32) (xs @ ys)"
    and "merkle_level (merkle_hash hs) xs = merkle_level (merkle_hash hs) ys"
  shows "xs = ys \<or> collision_among hs
    (concat (map (sha256d_messages hs) (level_messages xs)) @ concat (map (sha256d_messages hs) (level_messages ys)))"
  using assms(2-4)
proof (induction xs arbitrary: ys rule: level_messages.induct)
  case (2 h1)
  then obtain h where h: "ys = [h]" by (cases ys) auto
  with 2 pair_collision [OF assms(1), of h1 h1 h h] show ?case by auto
next
  case (3 h1 h2 xs)
  then obtain g1 g2 gs where g: "ys = g1 # g2 # gs" "length xs = length gs"
    by (metis (no_types) length_Suc_conv)
  with 3 have "xs = gs \<or> collision_among hs
    (concat (map (sha256d_messages hs) (level_messages xs)) @ concat (map (sha256d_messages hs) (level_messages gs)))"
    by simp
  moreover have "(h1 = g1 \<and> h2 = g2) \<or>
      collision_among hs (sha256d_messages hs (h1 @ h2) @ sha256d_messages hs (g1 @ g2))"
    using 3 g by (intro pair_collision [OF assms(1)]) auto
  ultimately show ?case using g(1) by (auto dest: collision_among_parts)
qed simp

lemma length_merkle_hash: "hashing_ok hs \<Longrightarrow> length (merkle_hash hs a b) = 32"
  by (simp add: merkle_hash_def length_sha256d)

lemma level_lengths:
  "(\<And>a b. length (f a b) = 32) \<Longrightarrow> list_all (\<lambda>h. length h = 32) (merkle_level f xs)"
  by (induction f xs rule: merkle_level.induct) simp_all

lemma rounds_bind:
  assumes "hashing_ok hs" "length xs = length ys" "list_all (\<lambda>h. length h = 32) (xs @ ys)"
    and "(merkle_level (merkle_hash hs) ^^ k) xs = (merkle_level (merkle_hash hs) ^^ k) ys"
  shows "xs = ys \<or> collision_among hs (rounds_messages hs k xs @ rounds_messages hs k ys)"
  using assms(2-4)
proof (induction k arbitrary: xs ys)
  case (Suc k)
  let ?xs = "merkle_level (merkle_hash hs) xs" and ?ys = "merkle_level (merkle_hash hs) ys"
  have "?xs = ?ys \<or> collision_among hs (rounds_messages hs k ?xs @ rounds_messages hs k ?ys)"
    by (rule Suc.IH)
      (use Suc.prems level_lengths [OF length_merkle_hash [OF assms(1)]] in \<open>simp_all add: funpow_swap1\<close>)
  with level_binds [OF assms(1) Suc.prems(1,2)] show ?case by (auto dest: collision_among_parts)
qed simp

lemma merkle_root_injective:
  assumes "hashing_ok hs" "length xs = length ys" "list_all (\<lambda>h. length h = 32) (xs @ ys)"
    and "merkle_root hs xs = Some r" "merkle_root hs ys = Some r"
  shows "xs = ys \<or> collision_among hs (merkle_messages hs xs @ merkle_messages hs ys)"
  using rounds_bind [OF assms(1-3), of "merkle_rounds (length xs)"] assms(2,4,5)
  by (simp add: merkle_root_eq merkle_messages_def)

text \<open>The shape the code shares with Bitcoin: a repeated tail leaves the root as it is.\<close>

lemma merkle_root_level:
  assumes "length xs > 1"
  shows "merkle_root hs (merkle_level (merkle_hash hs) xs) = merkle_root hs xs"
proof -
  have "merkle_loop (merkle_hash hs) xs = merkle_loop (merkle_hash hs) (merkle_level (merkle_hash hs) xs)"
    unfolding merkle_loop_def by (subst while_option_unfold) (use assms in simp)
  then show ?thesis by (simp add: merkle_root_def)
qed

lemma merkle_level_append: "even (length xs) \<Longrightarrow> merkle_level f (xs @ ys) = merkle_level f xs @ merkle_level f ys"
  by (induction f xs rule: merkle_level.induct) simp_all

lemma repeated_tail:
  assumes "xs \<noteq> []" "length zs = 2 ^ k" "2 ^ Suc k dvd length xs"
  shows "merkle_root hs (xs @ zs) = merkle_root hs (xs @ zs @ zs)"
  using assms
proof (induction k arbitrary: xs zs)
  case 0
  then obtain z where z: "zs = [z]" by (cases zs) auto
  have "merkle_level (merkle_hash hs) (xs @ zs) = merkle_level (merkle_hash hs) (xs @ zs @ zs)"
    using 0 by (simp add: merkle_level_append z)
  moreover have "length (xs @ zs) > 1" "length (xs @ zs @ zs) > 1" using 0 z by (cases xs; simp)+
  ultimately show ?case by (metis merkle_root_level)
next
  case (Suc k)
  let ?l = "merkle_level (merkle_hash hs)"
  have e: "even (length xs)" "even (length zs)" using Suc.prems by (auto elim: dvdE)
  have "merkle_root hs (?l xs @ ?l zs) = merkle_root hs (?l xs @ ?l zs @ ?l zs)"
  proof (rule Suc.IH)
    have "0 < (length xs + 1) div 2" using Suc.prems(1) by (cases xs) simp_all
    then show "?l xs \<noteq> []" using length_merkle_level [of "merkle_hash hs" xs] by (metis less_numeral_extra(3) list.size(3))
    show "length (?l zs) = 2 ^ k" using Suc.prems(2) by simp
    from Suc.prems(3) obtain m where "length xs = 2 ^ Suc (Suc k) * m" by (elim dvdE)
    then have "length (?l xs) = 2 ^ Suc k * m" by simp
    then show "2 ^ Suc k dvd length (?l xs)" by simp
  qed
  moreover have "length (xs @ zs) > 1" "length (xs @ zs @ zs) > 1" using Suc.prems by (cases xs; simp)+
  ultimately show ?case using e
    by (metis (no_types, lifting) merkle_level_append merkle_root_level)
qed

section \<open>The padded tree\<close>

lemma next_power_of_two_from_spec:
  "n \<le> 2 ^ fuel * p \<Longrightarrow> 0 < p \<Longrightarrow>
     \<exists>k. next_power_of_two_from fuel p n = 2 ^ k * p \<and> n \<le> 2 ^ k * p \<and> (k = 0 \<or> 2 ^ (k - 1) * p < n)"
proof (induction fuel arbitrary: p)
  case 0
  then show ?case by (intro exI [of _ 0]) simp
next
  case (Suc fuel)
  show ?case
  proof (cases "n \<le> p")
    case True
    then show ?thesis by (intro exI [of _ 0]) simp
  next
    case False
    with Suc.IH [of "2 * p"] Suc.prems obtain k where
      k: "next_power_of_two_from fuel (2 * p) n = 2 ^ k * (2 * p)" "n \<le> 2 ^ k * (2 * p)"
        "k = 0 \<or> 2 ^ (k - 1) * (2 * p) < n" by (auto simp: mult.assoc mult.left_commute)
    then have "2 ^ (Suc k - 1) * p < n" using False by (cases k) (auto simp: mult_ac)
    with k False show ?thesis by (intro exI [of _ "Suc k"]) (simp add: mult_ac)
  qed
qed

lemma next_power_of_two_spec:
  obtains k where "next_power_of_two n = 2 ^ k" "n \<le> 2 ^ k" "k = 0 \<or> 2 ^ (k - 1) < n"
  using next_power_of_two_from_spec [of n n 1] self_le_power [of 2 n] less_exp [of n]
  by (auto simp: next_power_of_two_def less_imp_le)

lemma length_auth_padding: "length (auth_padding hs) = next_power_of_two (length hs)"
  using next_power_of_two_spec [of "length hs"] by (metis auth_padding_def le_add_diff_inverse length_append length_replicate)

lemma full_level_even: "even (length hs) \<Longrightarrow> full_level f hs = Some (merkle_level f hs)"
  by (induction f hs rule: full_level.induct) simp_all

lemma auth_loop_full: "length hs = 2 ^ k \<Longrightarrow> auth_loop f hs = map_option Some (merkle_loop f hs)"
proof (induction k arbitrary: hs)
  case 0
  then show ?case unfolding auth_loop_def merkle_loop_def
    by (subst while_option_unfold, subst while_option_unfold) simp
next
  case (Suc k)
  then have "full_level f hs = Some (merkle_level f hs)" by (simp add: full_level_even)
  moreover have "length hs > 1" unfolding Suc.prems by (rule one_less_power) simp_all
  ultimately have "auth_loop f hs = auth_loop f (merkle_level f hs)"
      "merkle_loop f hs = merkle_loop f (merkle_level f hs)"
    unfolding auth_loop_def merkle_loop_def by (subst while_option_unfold, simp)+
  with Suc show ?case by simp
qed

lemma auth_data_root_eq:
  "auth_data_root ah hs = first_of (merkle_loop (auth_data_hash ah) (auth_padding hs))"
proof -
  obtain k where "length (auth_padding hs) = 2 ^ k"
    by (metis length_auth_padding next_power_of_two_spec)
  with merkle_loop_ends [of "auth_data_hash ah" "auth_padding hs"] show ?thesis
    unfolding auth_data_root_def by (simp add: auth_loop_full)
qed

lemma auth_data_root_total: "auth_data_root ah hs \<noteq> None"
proof -
  obtain k where "length (auth_padding hs) = 2 ^ k"
    by (metis length_auth_padding next_power_of_two_spec)
  then have "auth_padding hs \<noteq> []" by auto
  with merkle_loop_ends [of "auth_data_hash ah" "auth_padding hs"] show ?thesis
    by (cases "auth_padding hs") (auto simp: auth_data_root_eq first_of_def split: list.splits)
qed

section \<open>Properties\<close>

text \<open>A concrete instance of the hashing libraries, for the witnesses.\<close>

definition demo_hashing :: hashing where
  "demo_hashing = \<lparr>sha256 = (\<lambda>b. take 32 (b @ replicate 32 0)), lrz_txid = (\<lambda>_ _. replicate 32 0),
     hex_encode = hex_string, hex_decode = (\<lambda>_. None)\<rparr>"

lemma demo_hashing_ok: "hashing_ok demo_hashing"
  by (auto simp: hashing_ok_def demo_hashing_def)

text \<open>
  C33. The root loops end. Over transaction ids the loop runs as many rounds as there are doublings
  up to the number of ids and leaves one hash, so a root exists for every list but the empty one,
  where the code panics; over authorizing digests the padding makes every level even, so the
  \<open>unreachable!\<close> of the code is never reached and a root exists for every list.
\<close>

theorem merkle_loops_end:
  assumes "xs \<noteq> []"
  shows "(\<exists>r k. merkle_loop (merkle_hash hs) xs = Some [r] \<and> merkle_root hs xs = Some r \<and>
      (merkle_level (merkle_hash hs) ^^ k) xs = [r] \<and> length xs \<le> 2 ^ k \<and> (k = 0 \<or> 2 ^ (k - 1) < length xs))
    \<and> merkle_root hs [] = None \<and> auth_data_root ah ds \<noteq> None"
proof -
  let ?f = "merkle_hash hs"
  let ?k = "merkle_rounds (length xs)"
  have n: "1 \<le> length xs" using assms by (cases xs) simp_all
  have "length ((merkle_level ?f ^^ ?k) xs) = 1"
    using merkle_loop_ends [of ?f xs] n by simp
  then obtain r where r: "(merkle_level ?f ^^ ?k) xs = [r]" by (metis length_0_conv length_Suc_conv One_nat_def)
  have low: "?k = 0 \<or> 2 ^ (?k - 1) < length xs"
    using merkle_rounds_log [OF n, of "?k - 1"] by (cases ?k) auto
  have "length xs \<le> 2 ^ ?k" using merkle_rounds_log [OF n, of ?k] by simp
  moreover have "merkle_loop ?f xs = Some [r]" using merkle_loop_ends [of ?f xs] r by simp
  moreover have "merkle_root hs xs = Some r" using merkle_root_eq r by blast
  ultimately show ?thesis
    using r low merkle_root_total [of hs "[]"] auth_data_root_total [of ah ds] by blast
qed

lemma merkle_loops_end_witness:
  "\<exists>r k. merkle_loop (merkle_hash demo_hashing) [[1], [2], [3]] = Some [r] \<and>
     (merkle_level (merkle_hash demo_hashing) ^^ k) [[1], [2], [3]] = [r] \<and> 3 \<le> (2 :: nat) ^ k"
proof -
  have "[[1], [2], [3 :: byte]] \<noteq> []" by simp
  note merkle_loops_end [OF this, of demo_hashing]
  then obtain r k where "merkle_loop (merkle_hash demo_hashing) [[1], [2], [3]] = Some [r]"
     "(merkle_level (merkle_hash demo_hashing) ^^ k) [[1], [2], [3]] = [r]"
     "length [[1], [2], [3 :: byte]] \<le> (2 :: nat) ^ k" by blast
  then show ?thesis by (intro exI [of _ r] exI [of _ k]) simp
qed

text \<open>
  C32. The root in a block header commits to the transactions in the block: two lists with the same
  number of transaction ids and the same root are the same list, or two different strings have the same
  SHA-256 among those that are hashed, each twice over, on the way from the two lists to the root. The
  number matters: appending a copy of the last \<open>2 ^ k\<close> ids, where they are the
  rest of the list over blocks of twice that many, leaves the root as it was (CVE-2012-2459, which
  the tree inherits and the code does not detect).
\<close>

theorem merkle_root_commits_to_the_transactions:
  assumes "hashing_ok hs" "filter (\<lambda>h. length h \<noteq> 32) (xs @ ys) = []"
  shows "(length xs = length ys \<and> merkle_root hs xs = Some r \<and> merkle_root hs ys = Some r \<longrightarrow>
      xs = ys \<or> collision_among hs (merkle_messages hs xs @ merkle_messages hs ys))
    \<and> (xs \<noteq> [] \<and> length zs = 2 ^ k \<and> 2 ^ Suc k dvd length xs \<longrightarrow>
      merkle_root hs (xs @ zs) = merkle_root hs (xs @ zs @ zs))"
proof -
  have "list_all (\<lambda>h. length h = 32) (xs @ ys)"
    using assms(2) unfolding list_all_iff filter_empty_conv by blast
  with merkle_root_injective [OF assms(1)] repeated_tail show ?thesis by blast
qed

text \<open>
  Among the strings hashed for a root there need not be a collision: with a hash that tells strings of 64
  bytes from shorter ones, the two strings hashed for a root of two ids have different hashes.
\<close>

definition two_valued_hashing :: hashing where
  "two_valued_hashing = demo_hashing\<lparr>sha256 := \<lambda>m. replicate 32 (if length m = 64 then 1 else 2)\<rparr>"

lemma no_collision_among_two:
  assumes "length a = 32" "length b = 32"
  shows "hashing_ok two_valued_hashing
    \<and> \<not> collision_among two_valued_hashing (merkle_messages two_valued_hashing [a, b])"
proof -
  have "merkle_rounds 2 = Suc 0" by (simp add: merkle_rounds.simps)
  moreover have "replicate 32 (1 :: byte) \<noteq> replicate 32 2" by simp
  ultimately show ?thesis using assms demo_hashing_ok
    by (auto simp: hashing_ok_def two_valued_hashing_def merkle_messages_def sha256d_messages_def
        collision_among_def numeral_2_eq_2)
qed

lemma merkle_root_commits_to_the_transactions_witness:
  "merkle_root demo_hashing (map (replicate 32) [1, 2, 3, 4, 5, 6]) =
   merkle_root demo_hashing (map (replicate 32) [1, 2, 3, 4, 5, 6, 5, 6])"
  using merkle_root_commits_to_the_transactions [OF demo_hashing_ok, of "map (replicate 32) [1, 2, 3, 4]" "[]" _
      "map (replicate 32) [5, 6]" 1]
  by (simp add: dvd_eq_mod_eq_0)

end
