(* ===== verification/Block.thy ===== *)
theory Block
  imports Merkle ValueBalance
begin

text \<open>
  Blocks and their headers (\<open>block.rs\<close>, \<open>block/header.rs\<close>, \<open>block/serialize.rs\<close>,
  \<open>block/hash.rs\<close>, \<open>block/commitment.rs\<close>, \<open>work/equihash.rs\<close> of zebra-chain): the header
  codec with the Equihash solution, whole blocks under the size limit, block hashes, what the
  commitment field means at a height, and the change a block makes to the value pools. The
  verifier of Equihash solutions is a parameter.
\<close>

section \<open>Equihash solutions\<close>

definition SOLUTION_SIZE :: nat where "SOLUTION_SIZE = 1344"
definition REGTEST_SOLUTION_SIZE :: nat where "REGTEST_SOLUTION_SIZE = 36"

datatype solution = Common bytes | Regtest bytes

fun solution_value :: "solution \<Rightarrow> bytes" where
  "solution_value (Common solution) = solution"
| "solution_value (Regtest solution) = solution"

definition solution_from_bytes :: "bytes \<Rightarrow> (ser_error, solution) result" where
  "solution_from_bytes s =
     (if length s = SOLUTION_SIZE then Ok (Common s)
      else if length s = REGTEST_SOLUTION_SIZE then Ok (Regtest s)
      else Err (Parse ''incorrect equihash solution size''))"

definition solution_for_proposal :: solution where
  "solution_for_proposal = Common (replicate SOLUTION_SIZE 0)"

definition SOLUTION_INPUT_LENGTH :: nat where "SOLUTION_INPUT_LENGTH = 4 + 32 * 3 + 4 * 2"
definition SOLUTION_SERIALIZED_SIZE :: nat where "SOLUTION_SERIALIZED_SIZE = 3 + SOLUTION_SIZE"
definition REGTEST_SOLUTION_SERIALIZED_SIZE :: nat where
  "REGTEST_SOLUTION_SERIALIZED_SIZE = 1 + REGTEST_SOLUTION_SIZE"

definition write_solution :: "solution writer" where
  "write_solution s = write_bytes (solution_value s)"

definition read_solution :: "solution parser" where
  "read_solution = pbind read_csm (\<lambda>len.
     if unat len > SOLUTION_SIZE then pfail (Parse ''incorrect equihash solution size'')
     else pbind (read_bytes_external_count (unat len)) (\<lambda>s. plift (solution_from_bytes s)))"

section \<open>Headers\<close>

record block_header =
  hd_version :: u32
  hd_previous_block_hash :: bytes
  hd_merkle_root :: bytes
  hd_commitment_bytes :: bytes
  hd_time :: int
  hd_difficulty_threshold :: u32
  hd_nonce :: bytes
  hd_solution :: solution

definition ZCASH_BLOCK_VERSION :: u32 where "ZCASH_BLOCK_VERSION = 4"

definition check_version :: "u32 \<Rightarrow> (string, unit) result" where
  "check_version v =
     (if drop_bit 31 v \<noteq> 0 then Err ''high bit was set in version field''
      else if v < ZCASH_BLOCK_VERSION then Err ''version must be at least 4''
      else Ok ())"

text \<open>The time is a whole number of seconds; outside \<open>u32\<close> the writer panics.\<close>

definition write_time :: "int writer" where
  "write_time t =
     (case u32_try_from t of
        None \<Rightarrow> Err (WritePanic ''deserialized and generated timestamps are u32 values'')
      | Some s \<Rightarrow> write_u32 s)"

definition write_header :: "block_header writer" where
  "write_header h =
     (case check_version (hd_version h) of
        Err msg \<Rightarrow> Err (WriteIo msg)
      | Ok _ \<Rightarrow> write_seq
          [write_u32 (hd_version h), write_all (hd_previous_block_hash h), write_all (hd_merkle_root h),
           write_all (hd_commitment_bytes h), write_time (hd_time h), write_u32 (hd_difficulty_threshold h),
           write_all (hd_nonce h), write_solution (hd_solution h)])"

text \<open>Every \<open>u32\<close> is a time \<open>chrono\<close> can represent, so reading the time cannot fail.\<close>

definition read_header :: "block_header parser" where
  "read_header =
     pbind read_u32 (\<lambda>version.
     pbind (plift (map_err Parse (check_version version))) (\<lambda>_.
     pbind read_32_bytes (\<lambda>previous_block_hash.
     pbind read_32_bytes (\<lambda>merkle_root.
     pbind read_32_bytes (\<lambda>commitment_bytes.
     pbind read_u32 (\<lambda>time.
     pbind read_u32 (\<lambda>difficulty_threshold.
     pbind read_32_bytes (\<lambda>nonce.
     pbind read_solution (\<lambda>solution.
     preturn \<lparr>hd_version = version, hd_previous_block_hash = previous_block_hash,
       hd_merkle_root = merkle_root, hd_commitment_bytes = commitment_bytes, hd_time = uint time,
       hd_difficulty_threshold = difficulty_threshold, hd_nonce = nonce, hd_solution = solution\<rparr>)))))))))"

definition HEADER_SERIALIZED_SIZE :: nat where
  "HEADER_SERIALIZED_SIZE = SOLUTION_INPUT_LENGTH + 32 + SOLUTION_SERIALIZED_SIZE"
definition HEADER_REGTEST_SERIALIZED_SIZE :: nat where
  "HEADER_REGTEST_SERIALIZED_SIZE = SOLUTION_INPUT_LENGTH + 32 + REGTEST_SOLUTION_SERIALIZED_SIZE"

text \<open>The header with a transaction count that is written as zero and ignored when read.\<close>

definition write_counted_header :: "block_header writer" where
  "write_counted_header h = write_seq [write_header h, write_csm 0]"

definition read_counted_header :: "block_header parser" where
  "read_counted_header = pbind read_header (\<lambda>h. pbind read_csm (\<lambda>_. preturn h))"

definition MAX_HEADERS_PER_MESSAGE :: nat where "MAX_HEADERS_PER_MESSAGE = 160"
definition counted_header_max_allocation :: nat where "counted_header_max_allocation = MAX_HEADERS_PER_MESSAGE"
definition MAX_BLOCK_LOCATOR_LENGTH :: nat where "MAX_BLOCK_LOCATOR_LENGTH = 101"
definition block_hash_max_allocation :: nat where "block_hash_max_allocation = MAX_BLOCK_LOCATOR_LENGTH"

text \<open>\<open>Hash::from(&Header)\<close>; \<open>None\<close> is the panic of its \<open>expect\<close>.\<close>

definition block_hash :: "hashing \<Rightarrow> block_header \<Rightarrow> bytes option" where
  "block_hash hs h = (case write_header h of Err _ \<Rightarrow> None | Ok b \<Rightarrow> Some (sha256d_finish hs b))"

text \<open>
  \<open>Solution::check\<close>, over the verifier of the \<open>equihash\<close> crate: the parameters, the header
  before the nonce, the nonce and the solution. \<open>None\<close> is a panic.
\<close>

definition solution_check ::
    "(nat \<Rightarrow> nat \<Rightarrow> bytes \<Rightarrow> bytes \<Rightarrow> bytes \<Rightarrow> bool) \<Rightarrow> solution \<Rightarrow> block_header \<Rightarrow> bool option" where
  "solution_check is_valid_solution s h =
     (case write_header h of
        Err _ \<Rightarrow> None
      | Ok b \<Rightarrow> if length b < SOLUTION_INPUT_LENGTH then None
               else Some (is_valid_solution 200 9 (slice 0 SOLUTION_INPUT_LENGTH b) (hd_nonce h) (solution_value s)))"

text \<open>\<open>Header::time_is_valid_at\<close>: at most two hours ahead of the local clock.\<close>

datatype block_time_error = InvalidBlockTime int height bytes int

definition time_is_valid_at :: "block_header \<Rightarrow> int \<Rightarrow> height \<Rightarrow> bytes \<Rightarrow> (block_time_error, unit) result" where
  "time_is_valid_at h now ht hash =
     (let two_hours_in_the_future = now + 2 * 60 * 60
      in if hd_time h \<le> two_hours_in_the_future then Ok ()
         else Err (InvalidBlockTime (hd_time h) ht hash two_hours_in_the_future))"

text \<open>
  \<open>increment_big_endian\<close>, the next nonce: the bytes in reverse, up to and with the first that
  does not wrap.
\<close>

fun increment_reversed :: "bytes \<Rightarrow> bytes \<times> bool" where
  "increment_reversed [] = ([], True)"
| "increment_reversed (v # vs) =
     (if v + 1 = 0 then (case increment_reversed vs of (vs', wrapped) \<Rightarrow> ((v + 1) # vs', wrapped))
      else ((v + 1) # vs, False))"

definition increment_big_endian :: "bytes \<Rightarrow> bytes \<times> bool" where
  "increment_big_endian b = (case increment_reversed (rev b) of (r, wrapped) \<Rightarrow> (rev r, wrapped))"

definition next_nonce :: "bytes \<Rightarrow> bytes" where
  "next_nonce nonce = fst (increment_big_endian nonce)"

section \<open>Blocks\<close>

record block =
  blk_header :: block_header
  blk_transactions :: "transaction list"

definition MIN_TRANSPARENT_TX_SIZE :: nat where
  "MIN_TRANSPARENT_TX_SIZE = MIN_TRANSPARENT_INPUT_SIZE + 4 + MIN_TRANSPARENT_OUTPUT_SIZE"
definition transaction_max_allocation :: nat where
  "transaction_max_allocation = MAX_BLOCK_BYTES div MIN_TRANSPARENT_TX_SIZE"

definition write_block :: "crypto \<Rightarrow> block writer" where
  "write_block cr b = write_seq [write_header (blk_header b), write_vec (write_transaction cr) (blk_transactions b)]"

definition read_block :: "crypto \<Rightarrow> block parser" where
  "read_block cr = ptake MAX_BLOCK_BYTES (
     pbind read_header (\<lambda>header.
     pbind (read_vec transaction_max_allocation (read_transaction cr)) (\<lambda>transactions.
     preturn \<lparr>blk_header = header, blk_transactions = transactions\<rparr>)))"

text \<open>\<open>SerializedBlock::from\<close>; \<open>None\<close> is the panic of its \<open>expect\<close>.\<close>

definition serialized_block :: "crypto \<Rightarrow> block \<Rightarrow> bytes option" where
  "serialized_block cr b = (case write_block cr b of Err _ \<Rightarrow> None | Ok bs \<Rightarrow> Some bs)"

definition coinbase_height :: "block \<Rightarrow> height option" where
  "coinbase_height b =
     (case blk_transactions b of
        [] \<Rightarrow> None
      | tx # _ \<Rightarrow> (case tx_inputs tx of Coinbase h _ _ # _ \<Rightarrow> Some h | _ \<Rightarrow> None))"

datatype block_error = WrongTransactionConsensusBranchId

text \<open>\<open>None\<close>: the block has no valid height.\<close>

definition check_transaction_network_upgrade_consistency ::
    "network \<Rightarrow> block \<Rightarrow> (block_error, unit) outcome" where
  "check_transaction_network_upgrade_consistency net b =
     (case Option.bind (coinbase_height b) (current net) of
        None \<Rightarrow> None
      | Some block_nu \<Rightarrow>
          if list_ex (\<lambda>trans_nu. trans_nu \<noteq> block_nu) (List.map_filter tx_network_upgrade (blk_transactions b))
          then Some (Err WrongTransactionConsensusBranchId) else Some (Ok ()))"

definition block_sprout_nullifiers :: "block \<Rightarrow> bytes list" where
  "block_sprout_nullifiers b = concat (map sprout_nullifiers (blk_transactions b))"
definition block_sapling_nullifiers :: "block \<Rightarrow> bytes list" where
  "block_sapling_nullifiers b = concat (map sapling_nullifiers (blk_transactions b))"
definition block_orchard_nullifiers :: "block \<Rightarrow> bytes list" where
  "block_orchard_nullifiers b = concat (map orchard_nullifiers (blk_transactions b))"
definition block_ironwood_nullifiers :: "block \<Rightarrow> bytes list" where
  "block_ironwood_nullifiers b = concat (map ironwood_nullifiers (blk_transactions b))"
definition block_sprout_note_commitments :: "block \<Rightarrow> bytes list" where
  "block_sprout_note_commitments b = concat (map sprout_note_commitments (blk_transactions b))"
definition block_sapling_note_commitments :: "block \<Rightarrow> bytes list" where
  "block_sapling_note_commitments b = concat (map sapling_note_commitments (blk_transactions b))"
definition block_orchard_note_commitments :: "block \<Rightarrow> bytes list" where
  "block_orchard_note_commitments b = concat (map orchard_note_commitments (blk_transactions b))"
definition block_ironwood_note_commitments :: "block \<Rightarrow> bytes list" where
  "block_ironwood_note_commitments b = concat (map ironwood_note_commitments (blk_transactions b))"

definition sapling_transactions_count :: "block \<Rightarrow> nat" where
  "sapling_transactions_count b = length (filter has_sapling_shielded_data (blk_transactions b))"
definition orchard_transactions_count :: "block \<Rightarrow> nat" where
  "orchard_transactions_count b = length (filter has_orchard_shielded_data (blk_transactions b))"
definition ironwood_transactions_count :: "block \<Rightarrow> nat" where
  "ironwood_transactions_count b = length (filter has_ironwood_shielded_data (blk_transactions b))"

text \<open>The change of the chain pools: a fold that stops at the first error, negated.\<close>

fun tx_pool_sum ::
    "(outpoint \<rightharpoonup> tx_output) \<Rightarrow> value_balance \<Rightarrow> transaction list \<Rightarrow> (vb_error, value_balance) outcome" where
  "tx_pool_sum utxos acc [] = Some (Ok acc)"
| "tx_pool_sum utxos acc (tx # txs) =
     obind (tx_value_balance tx utxos) (\<lambda>v.
     obind (vb_add NegativeAllowed acc v) (\<lambda>acc'. tx_pool_sum utxos acc' txs))"

definition chain_value_pool_change ::
    "block \<Rightarrow> (outpoint \<rightharpoonup> tx_output) \<Rightarrow> int \<Rightarrow> (vb_error, value_balance) outcome" where
  "chain_value_pool_change b utxos deferred_pool_balance_change =
     obind (tx_pool_sum utxos vb_zero (blk_transactions b)) (\<lambda>s.
     case vb_neg s of
       None \<Rightarrow> None
     | Some n \<Rightarrow> Some (Ok (set_deferred_amount n deferred_pool_balance_change)))"

section \<open>Commitments\<close>

datatype commitment =
    PreSaplingReserved bytes
  | FinalSaplingRoot bytes
  | ChainHistoryActivationReserved
  | ChainHistoryRoot bytes
  | ChainHistoryBlockTxAuthCommitment bytes

datatype commitment_error =
    InvalidFinalSaplingRoot bytes bytes
  | InvalidChainHistoryActivationReserved bytes
  | InvalidChainHistoryRoot bytes bytes
  | InvalidChainHistoryBlockTxAuthCommitment bytes bytes
  | MissingBlockHeight bytes
  | InvalidSapingRootBytes

definition CHAIN_HISTORY_ACTIVATION_RESERVED :: bytes where
  "CHAIN_HISTORY_ACTIVATION_RESERVED = replicate 32 0"

definition reserved_commitment :: "bytes \<Rightarrow> (commitment_error, commitment) result" where
  "reserved_commitment b =
     (if b = CHAIN_HISTORY_ACTIVATION_RESERVED then Ok ChainHistoryActivationReserved
      else Err (InvalidChainHistoryActivationReserved b))"

text \<open>\<open>Commitment::from_bytes\<close>; \<open>None\<close>: the network has no upgrade at the height.\<close>

definition commitment_from_bytes ::
    "crypto \<Rightarrow> bytes \<Rightarrow> network \<Rightarrow> height \<Rightarrow> (commitment_error, commitment) outcome" where
  "commitment_from_bytes cr b net h =
     (case current_with_activation_height net h of
        None \<Rightarrow> None
      | Some (nu, activation) \<Rightarrow> Some (
          if nu \<in> {Genesis, BeforeOverwinter, Overwinter} then Ok (PreSaplingReserved b)
          else if nu \<in> {Sapling, Blossom} then
            (case sapling_root_try cr b of Ok r \<Rightarrow> Ok (FinalSaplingRoot r) | Err _ \<Rightarrow> Err InvalidSapingRootBytes)
          else if nu = Heartwood \<and> h = activation then reserved_commitment b
          else if nu = Canopy \<and> Some h = activation_height Heartwood net then reserved_commitment b
          else if nu \<in> {Heartwood, Canopy} then Ok (ChainHistoryRoot b)
          else Ok (ChainHistoryBlockTxAuthCommitment b)))"

text \<open>The inverse, which the tests use.\<close>

fun commitment_to_bytes :: "commitment \<Rightarrow> bytes" where
  "commitment_to_bytes (PreSaplingReserved b) = b"
| "commitment_to_bytes (FinalSaplingRoot r) = r"
| "commitment_to_bytes ChainHistoryActivationReserved = CHAIN_HISTORY_ACTIVATION_RESERVED"
| "commitment_to_bytes (ChainHistoryRoot h) = h"
| "commitment_to_bytes (ChainHistoryBlockTxAuthCommitment h) = h"

definition header_commitment ::
    "crypto \<Rightarrow> block_header \<Rightarrow> network \<Rightarrow> height \<Rightarrow> (commitment_error, commitment) outcome" where
  "header_commitment cr h net ht = commitment_from_bytes cr (hd_commitment_bytes h) net ht"

definition block_commitment ::
    "hashing \<Rightarrow> crypto \<Rightarrow> block \<Rightarrow> network \<Rightarrow> (commitment_error, commitment) outcome" where
  "block_commitment hs cr b net =
     (case coinbase_height b of
        None \<Rightarrow> (case block_hash hs (blk_header b) of
                  None \<Rightarrow> None
                | Some h \<Rightarrow> Some (Err (MissingBlockHeight h)))
      | Some ht \<Rightarrow> commitment_from_bytes cr (hd_commitment_bytes (blk_header b)) net ht)"

text \<open>\<open>ChainHistoryBlockTxAuthCommitmentHash::from_commitments\<close>.\<close>

definition block_tx_auth_commitment :: "auth_hashing \<Rightarrow> bytes \<Rightarrow> bytes \<Rightarrow> bytes" where
  "block_tx_auth_commitment ah history_tree_root auth_root =
     blake2b_256 ah ''ZcashBlockCommit'' (history_tree_root @ auth_root @ replicate 32 0)"

section \<open>Codecs\<close>

fun valid_solution :: "solution \<Rightarrow> bool" where
  "valid_solution (Common b) \<longleftrightarrow> length b = SOLUTION_SIZE"
| "valid_solution (Regtest b) \<longleftrightarrow> length b = REGTEST_SOLUTION_SIZE"

lemma solution_from_bytes_Ok_iff:
  "solution_from_bytes b = Ok s \<longleftrightarrow> valid_solution s \<and> b = solution_value s"
  by (cases s) (auto simp: solution_from_bytes_def SOLUTION_SIZE_def REGTEST_SOLUTION_SIZE_def)

lemma read_solution_Ok_iff:
  "read_solution bs = Ok (s, rest) \<longleftrightarrow> (\<exists>b. read_bytes_vec bs = Ok (b, rest) \<and> solution_from_bytes b = Ok s)"
proof -
  have "unat len \<le> SOLUTION_SIZE"
    if "read_bytes_external_count (unat len) m = Ok (b, rest)" "solution_from_bytes b = Ok s" for len :: u32 and m b
  proof -
    have "length b = unat len"
      using that(1) by (auto simp: read_bytes_external_count_def read_exact_Ok_iff split: if_splits)
    then show ?thesis
      using that(2) by (auto simp: solution_from_bytes_def SOLUTION_SIZE_def REGTEST_SOLUTION_SIZE_def split: if_splits)
  qed
  note short = this
  show ?thesis
  proof
    assume "read_solution bs = Ok (s, rest)"
    then show "\<exists>b. read_bytes_vec bs = Ok (b, rest) \<and> solution_from_bytes b = Ok s"
      by (simp add: read_solution_def read_bytes_vec_def pbind_Ok_iff split: if_splits) blast
  next
    assume "\<exists>b. read_bytes_vec bs = Ok (b, rest) \<and> solution_from_bytes b = Ok s"
    then obtain len m b where r: "read_csm bs = Ok (len, m)" "read_bytes_external_count (unat len) m = Ok (b, rest)"
        "solution_from_bytes b = Ok s" by (auto simp: read_bytes_vec_def pbind_Ok_iff)
    with short [OF r(2,3)] show "read_solution bs = Ok (s, rest)"
      by (simp add: read_solution_def)
  qed
qed

lemma valid_solution_value: "valid_solution s \<Longrightarrow> length (solution_value s) \<le> MAX_U8_ALLOCATION"
  by (cases s) (simp_all add: SOLUTION_SIZE_def REGTEST_SOLUTION_SIZE_def MAX_U8_ALLOCATION_def MAX_PROTOCOL_MESSAGE_LEN_def)

interpretation codec_solution: codec write_solution read_solution valid_solution
proof unfold_locales
  fix s assume s: "valid_solution s"
  from codec_byte_vec.written [OF valid_solution_value [OF s]] s
  show "\<exists>b. write_solution s = Ok b \<and> (\<forall>rest. read_solution (b @ rest) = Ok (s, rest))"
    by (auto simp: write_solution_def read_solution_Ok_iff solution_from_bytes_Ok_iff)
next
  fix bs rest s assume "read_solution bs = Ok (s, rest)"
  then obtain b where b: "read_bytes_vec bs = Ok (b, rest)" "valid_solution s" "b = solution_value s"
    by (auto simp: read_solution_Ok_iff solution_from_bytes_Ok_iff)
  with codec_byte_vec.read [OF b(1)]
  show "valid_solution s \<and> (\<exists>b. write_solution s = Ok b \<and> bs = b @ rest)"
    by (auto simp: write_solution_def)
qed

definition valid_header :: "block_header \<Rightarrow> bool" where
  "valid_header h \<longleftrightarrow> check_version (hd_version h) = Ok () \<and> length (hd_previous_block_hash h) = 32
     \<and> length (hd_merkle_root h) = 32 \<and> length (hd_commitment_bytes h) = 32
     \<and> 0 \<le> hd_time h \<and> hd_time h < 2 ^ 32 \<and> length (hd_nonce h) = 32 \<and> valid_solution (hd_solution h)"

lemma write_time_valid: "0 \<le> t \<Longrightarrow> t < 2 ^ 32 \<Longrightarrow> write_time t = write_u32 (word_of_int t)"
  by (simp add: write_time_def u32_try_from_def)

lemma write_time_uint: "write_time (uint (w :: u32)) = write_u32 w"
  using uint_u32_bounds [of w] by (simp add: write_time_valid)

lemma read_32_written: "length b = 32 \<Longrightarrow> read_32_bytes (b @ rest) = Ok (b, rest)"
  by (simp add: read_32_bytes_def read_exact_def)

lemma read_32_Ok_iff: "read_32_bytes bs = Ok (b, rest) \<longleftrightarrow> length b = 32 \<and> bs = b @ rest"
  by (simp add: read_32_bytes_def read_exact_Ok_iff)

lemma u32_written: "\<exists>b. write_u32 w = Ok b \<and> (\<forall>rest. read_u32 (b @ rest) = Ok (w, rest))"
  by (rule codec_u32.written) simp

interpretation codec_header: codec write_header read_header valid_header
proof unfold_locales
  fix h assume h: "valid_header h"
  obtain v where v: "write_u32 (hd_version h) = Ok v" "\<forall>rest. read_u32 (v @ rest) = Ok (hd_version h, rest)"
    using u32_written [of "hd_version h"] by blast
  obtain t where t: "write_u32 (word_of_int (hd_time h)) = Ok t"
      "\<forall>rest. read_u32 (t @ rest) = Ok (word_of_int (hd_time h), rest)"
    using u32_written [of "word_of_int (hd_time h)"] by blast
  obtain d where d: "write_u32 (hd_difficulty_threshold h) = Ok d"
      "\<forall>rest. read_u32 (d @ rest) = Ok (hd_difficulty_threshold h, rest)"
    using u32_written [of "hd_difficulty_threshold h"] by blast
  obtain s where s: "write_solution (hd_solution h) = Ok s"
      "\<forall>rest. read_solution (s @ rest) = Ok (hd_solution h, rest)"
    using codec_solution.written [of "hd_solution h"] h by (auto simp: valid_header_def)
  have time: "uint (word_of_int (hd_time h) :: u32) = hd_time h"
    using h by (simp add: valid_header_def uint_word_of_int)
  show "\<exists>b. write_header h = Ok b \<and> (\<forall>rest. read_header (b @ rest) = Ok (h, rest))"
    using h v t d s time
    by (simp add: write_header_def read_header_def valid_header_def write_time_valid write_all_def
        read_32_written plift_def preturn_def)
next
  fix bs rest h assume "read_header bs = Ok (h, rest)"
  then show "valid_header h \<and> (\<exists>b. write_header h = Ok b \<and> bs = b @ rest)"
    by (auto simp: read_header_def write_header_def valid_header_def pbind_Ok_iff read_32_Ok_iff
        codec_u32.read_iff codec_solution.read_iff write_time_uint write_all_def
        uint_u32_bounds [simplified])
qed

definition valid_tx :: "crypto \<Rightarrow> transaction \<Rightarrow> bool" where
  "valid_tx cr tx \<longleftrightarrow> valid_fields cr tx \<and> lrz_accepts cr tx
     \<and> (\<exists>b. write_transaction cr tx = Ok b \<and> length b \<le> MAX_BLOCK_BYTES)"

lemma codec_limited_transaction:
  assumes "push_num_bip34 cr"
  shows "codec (write_transaction cr) (read_transaction cr) (valid_tx cr)"
  by unfold_locales (auto simp: read_transaction_iff [OF assms] valid_tx_def)

definition valid_block :: "crypto \<Rightarrow> block \<Rightarrow> bool" where
  "valid_block cr b \<longleftrightarrow> valid_header (blk_header b)
     \<and> length (blk_transactions b) \<le> transaction_max_allocation \<and> list_all (valid_tx cr) (blk_transactions b)"

definition read_limited_block :: "crypto \<Rightarrow> block parser" where
  "read_limited_block cr =
     pbind read_header (\<lambda>header.
     pbind (read_vec transaction_max_allocation (read_transaction cr)) (\<lambda>transactions.
     preturn \<lparr>blk_header = header, blk_transactions = transactions\<rparr>))"

lemma transaction_bound: "n \<le> transaction_max_allocation \<Longrightarrow> n \<le> MAX_PROTOCOL_MESSAGE_LEN"
  by (simp add: transaction_max_allocation_def MIN_TRANSPARENT_TX_SIZE_def MIN_TRANSPARENT_INPUT_SIZE_def
      MIN_TRANSPARENT_OUTPUT_SIZE_def MAX_BLOCK_BYTES_def MAX_PROTOCOL_MESSAGE_LEN_def)

lemma codec_block:
  assumes "push_num_bip34 cr"
  shows "codec (write_block cr) (read_limited_block cr) (valid_block cr)"
proof -
  have txs: "codec (write_vec (write_transaction cr)) (read_vec transaction_max_allocation (read_transaction cr))
    (\<lambda>xs. length xs \<le> transaction_max_allocation \<and> length xs \<le> MAX_PROTOCOL_MESSAGE_LEN \<and> list_all (valid_tx cr) xs)"
    by (rule codec_vec [OF codec_limited_transaction [OF assms]])
  show ?thesis
  proof
    fix b assume b: "valid_block cr b"
    obtain h where h: "write_header (blk_header b) = Ok h" "\<forall>rest. read_header (h @ rest) = Ok (blk_header b, rest)"
      using codec_header.written [of "blk_header b"] b by (auto simp: valid_block_def)
    obtain t where "write_vec (write_transaction cr) (blk_transactions b) = Ok t"
      "\<forall>rest. read_vec transaction_max_allocation (read_transaction cr) (t @ rest) = Ok (blk_transactions b, rest)"
      using codec.written [OF txs, of "blk_transactions b"] b by (auto simp: valid_block_def transaction_bound)
    with h show "\<exists>e. write_block cr b = Ok e \<and> (\<forall>rest. read_limited_block cr (e @ rest) = Ok (b, rest))"
      by (simp add: write_block_def read_limited_block_def)
  next
    fix bs rest b assume "read_limited_block cr bs = Ok (b, rest)"
    then show "valid_block cr b \<and> (\<exists>e. write_block cr b = Ok e \<and> bs = e @ rest)"
      by (auto simp: read_limited_block_def write_block_def valid_block_def pbind_Ok_iff
          codec_header.read_iff codec.read_iff [OF txs])
  qed
qed

lemma read_block_iff:
  assumes "push_num_bip34 cr"
  shows "read_block cr bs = Ok (b, rest) \<longleftrightarrow>
    valid_block cr b \<and> (\<exists>e. write_block cr b = Ok e \<and> length e \<le> MAX_BLOCK_BYTES \<and> bs = e @ rest)"
  unfolding read_block_def read_limited_block_def [symmetric] by (rule ptake_codec [OF codec_block [OF assms]])

text \<open>The count of a counted header is written as zero, and any count is read.\<close>

lemma counted_header_count_ignored:
  assumes "valid_header h" "write_header h = Ok b" "read_csm (c @ rest) = Ok (n, rest)"
  shows "read_counted_header (b @ c @ rest) = Ok (h, rest)"
  using codec_header.roundtrip [OF assms(1,2), of "c @ rest"] assms(3) by (simp add: read_counted_header_def)

lemma length_write_u32: "write_u32 w = Ok b \<Longrightarrow> length b = 4"
  by (auto simp: write_u32_def)

lemma length_write_solution:
  "valid_solution s \<Longrightarrow> write_solution s = Ok b \<Longrightarrow>
     length b = (case s of Common _ \<Rightarrow> SOLUTION_SERIALIZED_SIZE | Regtest _ \<Rightarrow> REGTEST_SOLUTION_SERIALIZED_SIZE)"
  by (cases s) (auto simp: write_solution_def write_bytes_def csm_try_from_def write_csm_def write_compact64_def
      write_u8_def write_u16_def write_all_def SOLUTION_SIZE_def REGTEST_SOLUTION_SIZE_def
      SOLUTION_SERIALIZED_SIZE_def REGTEST_SOLUTION_SERIALIZED_SIZE_def MAX_PROTOCOL_MESSAGE_LEN_def
      split: if_splits)

lemma length_write_header:
  assumes "valid_header h" "write_header h = Ok b"
  shows "length b = (case hd_solution h of Common _ \<Rightarrow> HEADER_SERIALIZED_SIZE | Regtest _ \<Rightarrow> HEADER_REGTEST_SERIALIZED_SIZE)"
proof -
  obtain v t d s where w: "write_u32 (hd_version h) = Ok v" "write_u32 (word_of_int (hd_time h)) = Ok t"
      "write_u32 (hd_difficulty_threshold h) = Ok d" "write_solution (hd_solution h) = Ok s"
      and b: "b = v @ hd_previous_block_hash h @ hd_merkle_root h @ hd_commitment_bytes h @ t @ d @ hd_nonce h @ s"
    using assms by (auto simp: write_header_def valid_header_def write_time_valid write_all_def map_sum_Ok_iff)
  have "length s = (case hd_solution h of Common _ \<Rightarrow> SOLUTION_SERIALIZED_SIZE | Regtest _ \<Rightarrow> REGTEST_SOLUTION_SERIALIZED_SIZE)"
    using length_write_solution [OF _ w(4)] assms(1) by (simp add: valid_header_def)
  then show ?thesis
    using assms(1) w(1-3) [THEN length_write_u32] by (cases "hd_solution h")
      (simp_all add: b valid_header_def HEADER_SERIALIZED_SIZE_def HEADER_REGTEST_SERIALIZED_SIZE_def SOLUTION_INPUT_LENGTH_def)
qed

lemma increment_reversed_value:
  "nat_of_le (fst (increment_reversed b)) + (if snd (increment_reversed b) then 256 ^ length b else 0) = nat_of_le b + 1
   \<and> length (fst (increment_reversed b)) = length b"
proof (induction b)
  case (Cons v vs)
  have "unat (v + 1) = (if v + 1 = 0 then 0 else unat v + 1)" using unatSuc [of v] by (simp add: add.commute)
  moreover have "v + 1 = 0 \<Longrightarrow> unat v = 255"
  proof -
    assume z: "v + 1 = 0"
    have "unat (v + 1) = (unat v + 1) mod 256" by (simp add: unat_word_ariths)
    with z have "(unat v + 1) mod 256 = 0" by simp
    moreover have "unat v < 256" using unsigned_less [of v] by simp
    ultimately show "unat v = 255" by presburger
  qed
  ultimately show ?case using Cons.IH by (auto split: prod.splits)
qed simp

section \<open>What the hash of a block fixes\<close>

lemma block_hash_Ok:
  "valid_header h \<Longrightarrow> \<exists>b. write_header h = Ok b \<and> block_hash hs h = Some (sha256d_finish hs b)"
  using codec_header.written [of h] by (auto simp: block_hash_def)

text \<open>
  The strings given to SHA-256 for the hash of a header, for the ids of transactions before version 5, and
  for the Merkle root of a list of transactions.
\<close>

definition header_messages :: "hashing \<Rightarrow> block_header \<Rightarrow> bytes list" where
  "header_messages hs h = (case write_header h of Ok b \<Rightarrow> sha256d_messages hs b | Err _ \<Rightarrow> [])"

definition old_tx_messages :: "hashing \<Rightarrow> crypto \<Rightarrow> transaction \<Rightarrow> bytes list" where
  "old_tx_messages hs cr tx =
     (case (tx_network_upgrade tx, write_transaction cr tx) of
        (None, Ok b) \<Rightarrow> sha256d_messages hs b
      | _ \<Rightarrow> [])"

definition root_messages :: "hashing \<Rightarrow> crypto \<Rightarrow> transaction list \<Rightarrow> bytes list" where
  "root_messages hs cr txs = (case those (map (tx_hash hs cr) txs) of Some ids \<Rightarrow> merkle_messages hs ids | None \<Rightarrow> [])"

definition block_messages :: "hashing \<Rightarrow> crypto \<Rightarrow> block \<Rightarrow> bytes list" where
  "block_messages hs cr b = header_messages hs (blk_header b) @ root_messages hs cr (blk_transactions b)
     @ concat (map (old_tx_messages hs cr) (blk_transactions b))"

lemma block_hash_injective:
  assumes "hashing_ok hs" "valid_header h" "valid_header h'" "block_hash hs h = block_hash hs h'"
  shows "h = h' \<or> collision_among hs (header_messages hs h @ header_messages hs h')"
proof -
  obtain b where b: "write_header h = Ok b" "block_hash hs h = Some (sha256d_finish hs b)"
    using block_hash_Ok [OF assms(2)] by blast
  obtain b' where b': "write_header h' = Ok b'" "block_hash hs h' = Some (sha256d_finish hs b')"
    using block_hash_Ok [OF assms(3)] by blast
  show ?thesis
  proof (cases "b = b'")
    case True
    then show ?thesis
      using codec_header.prefix_free [OF assms(2,3) b(1) b'(1), of "[]" "[]"] by simp
  next
    case False
    then show ?thesis
      using sha256d_collision [OF assms(1), of b b'] b b' assms(4) by (simp add: header_messages_def)
  qed
qed

lemma valid_tx_hash:
  assumes "push_num_bip34 cr" "hashing_ok hs" "valid_tx cr tx"
  shows "\<exists>h. tx_hash hs cr tx = Some h \<and> length h = 32"
proof -
  obtain b where "read_transaction cr (b @ []) = Ok (tx, [])"
    using codec.written [OF codec_limited_transaction [OF assms(1)] assms(3)] by blast
  then show ?thesis by (rule read_transaction_has_hash [OF assms(1,2)])
qed

lemma old_tx_hash_injective:
  assumes "push_num_bip34 cr" "hashing_ok hs" "valid_tx cr tx" "valid_tx cr tx'"
    and "tx_hash hs cr tx = tx_hash hs cr tx'" "tx_network_upgrade tx = None" "tx_network_upgrade tx' = None"
  shows "tx = tx' \<or> collision_among hs (old_tx_messages hs cr tx @ old_tx_messages hs cr tx')"
proof -
  have legacy: "tx_hash hs cr t = (case write_transaction cr t of Err _ \<Rightarrow> None | Ok b \<Rightarrow> Some (sha256d_finish hs b))"
    if "tx_network_upgrade t = None" for t
    using that by (cases t) (simp_all add: tx_hash_def txid_def txid_v1_to_v4_def)
  obtain b b' where w: "write_transaction cr tx = Ok b" "write_transaction cr tx' = Ok b'"
    using assms(3,4) by (auto simp: valid_tx_def)
  show ?thesis
  proof (cases "b = b'")
    case True
    then show ?thesis
      using codec.prefix_free [OF codec_limited_transaction [OF assms(1)] assms(3,4) w, of "[]" "[]"] by simp
  next
    case False
    then show ?thesis
      using sha256d_collision [OF assms(2), of b b'] assms(5-7) w legacy [OF assms(6)] legacy [OF assms(7)]
      by (simp add: old_tx_messages_def)
  qed
qed

lemma transaction_ids:
  assumes "push_num_bip34 cr" "hashing_ok hs" "list_all (valid_tx cr) txs"
  shows "\<exists>ids. those (map (tx_hash hs cr) txs) = Some ids \<and> list_all (\<lambda>h. length h = 32) ids
     \<and> length ids = length txs"
  using assms(3)
proof (induction txs)
  case (Cons tx txs)
  then show ?case using valid_tx_hash [OF assms(1,2), of tx] by auto
qed simp

lemma equal_ids:
  assumes "push_num_bip34 cr" "hashing_ok hs" "list_all (valid_tx cr) (txs @ txs')" "length txs = length txs'"
    and "merkle_root_of_transactions hs cr txs = Some r" "merkle_root_of_transactions hs cr txs' = Some r"
  shows "map (tx_hash hs cr) txs = map (tx_hash hs cr) txs'
    \<or> collision_among hs (root_messages hs cr txs @ root_messages hs cr txs')"
proof -
  have v: "list_all (valid_tx cr) txs" "list_all (valid_tx cr) txs'" using assms(3) by simp_all
  obtain ids where i: "those (map (tx_hash hs cr) txs) = Some ids" "list_all (\<lambda>h. length h = 32) ids" "length ids = length txs"
    using transaction_ids [OF assms(1,2) v(1)] by blast
  obtain ids' where i': "those (map (tx_hash hs cr) txs') = Some ids'" "list_all (\<lambda>h. length h = 32) ids'"
      "length ids' = length txs'"
    using transaction_ids [OF assms(1,2) v(2)] by blast
  have "ids = ids' \<or> collision_among hs (root_messages hs cr txs @ root_messages hs cr txs')"
    using merkle_root_injective [OF assms(2), of ids ids' r] i i' assms(4-6)
    by (simp add: merkle_root_of_transactions_def root_messages_def)
  moreover have "xs = map Some ys" if "those xs = Some ys" for xs :: "bytes option list" and ys
    using that by (induction xs arbitrary: ys) (auto split: option.splits)
  ultimately show ?thesis using i(1) i'(1) by metis
qed

lemma equal_old_transactions:
  assumes "push_num_bip34 cr" "hashing_ok hs"
  shows "list_all (\<lambda>tx. valid_tx cr tx \<and> tx_network_upgrade tx = None) (txs @ txs') \<Longrightarrow>
    map (tx_hash hs cr) txs = map (tx_hash hs cr) txs' \<Longrightarrow> txs = txs' \<or>
      collision_among hs (concat (map (old_tx_messages hs cr) txs) @ concat (map (old_tx_messages hs cr) txs'))"
proof (induction txs arbitrary: txs')
  case (Cons tx txs)
  then obtain tx' ts where t: "txs' = tx' # ts" by auto
  with Cons have "tx = tx' \<or> collision_among hs (old_tx_messages hs cr tx @ old_tx_messages hs cr tx')"
    by (intro old_tx_hash_injective [OF assms]) auto
  moreover from Cons t have "txs = ts \<or>
      collision_among hs (concat (map (old_tx_messages hs cr) txs) @ concat (map (old_tx_messages hs cr) ts))"
    by simp
  ultimately show ?case using t by (auto dest: collision_among_parts)
qed simp

section \<open>The pools after a block\<close>

lemma valid_fields_amounts: "valid_fields cr tx \<Longrightarrow> amounts_valid tx"
proof -
  assume v: "valid_fields cr tx"
  have zero: "valid_amount NegativeAllowed 0" by simp
  have js: "list_all (\<lambda>j. valid_amount NonNegative (vpub_old j) \<and> valid_amount NonNegative (vpub_new j)) (joinsplits d)"
    if "valid_joinsplit_data p d" for p d
    using that by (auto simp: valid_joinsplit_data_def valid_joinsplit_def list_all_iff simp del: valid_amount_simps)
  have "list_all (\<lambda>j. valid_amount NonNegative (vpub_old j) \<and> valid_amount NonNegative (vpub_new j)) (sprout_joinsplits tx)"
    using v js by (cases tx rule: sprout_joinsplits.cases) (auto simp: valid_fields_def simp del: valid_amount_simps)
  moreover have "valid_amount NegativeAllowed (sapling_balance_field tx)"
    using v zero by (cases tx rule: sapling_balance_field.cases)
      (auto simp: valid_fields_def valid_sapling_v4_def valid_sapling_v5_def valid_opt_sapling_v5_def amount_zero_def
        simp del: valid_amount_simps split: option.splits)
  moreover have "valid_amount NegativeAllowed (orchard_balance_field tx)"
    using v zero by (cases tx)
      (auto simp: valid_fields_def orchard_balance_field_def valid_orchard_def amount_zero_def
        simp del: valid_amount_simps split: option.splits)
  moreover have "valid_amount NegativeAllowed (ironwood_balance_field tx)"
    using v zero by (cases tx)
      (auto simp: valid_fields_def ironwood_balance_field_def valid_orchard_def amount_zero_def
        simp del: valid_amount_simps split: option.splits)
  ultimately show ?thesis
    using valid_output_amounts [OF v] unfolding amounts_valid_def by blast
qed

text \<open>What the inputs of a transaction spend, when the map has all of their outputs.\<close>

definition inputs_known :: "(outpoint \<rightharpoonup> tx_output) \<Rightarrow> transaction \<Rightarrow> bool" where
  "inputs_known utxos tx \<longleftrightarrow>
     list_all (\<lambda>out. case utxos out of None \<Rightarrow> False | Some x \<Rightarrow> valid_amount NonNegative (out_value x)) (spent_outpoints tx)"

definition inputs_value :: "(outpoint \<rightharpoonup> tx_output) \<Rightarrow> transaction \<Rightarrow> int list" where
  "inputs_value utxos tx =
     map (\<lambda>i. case i of PrevOut out _ _ \<Rightarrow> out_value (the (utxos out)) | Coinbase _ _ _ \<Rightarrow> 0) (tx_inputs tx)"

lemma map_of_single_valued:
  assumes "(k, v) \<in> set xs" "\<And>v'. (k, v') \<in> set xs \<Longrightarrow> v' = v"
  shows "map_of xs k = Some v"
proof (cases "map_of xs k")
  case None
  with assms(1) show ?thesis by (auto simp: map_of_eq_None_iff image_iff)
next
  case (Some v')
  with assms(2) [OF map_of_SomeD [OF Some]] show ?thesis by simp
qed

lemma spent_outputs_known:
  assumes "out \<in> set (spent_outpoints tx)" "utxos out = Some x"
  shows "spent_outputs tx utxos out = Some x"
  unfolding spent_outputs_def using assms
  by (intro map_of_single_valued) (force simp: List.map_filter_def)+

lemma inputs_value_known:
  assumes "inputs_known utxos tx"
  shows "those (map (value_from_outputs (spent_outputs tx utxos)) (tx_inputs tx)) = Some (inputs_value utxos tx)"
    "list_all (valid_amount NonNegative) (inputs_value utxos tx)"
proof -
  let ?v = "\<lambda>i. case i of PrevOut out _ _ \<Rightarrow> out_value (the (utxos out)) | Coinbase _ _ _ \<Rightarrow> 0"
  have step: "value_from_outputs (spent_outputs tx utxos) i = Some (?v i) \<and> valid_amount NonNegative (?v i)"
    if i: "i \<in> set (tx_inputs tx)" for i
  proof (cases i)
    case (PrevOut out u sq)
    then have o: "out \<in> set (spent_outpoints tx)"
      using i by (force simp: spent_outpoints_def List.map_filter_def)
    then obtain x where "utxos out = Some x" "valid_amount NonNegative (out_value x)"
      using assms by (force simp: inputs_known_def list_all_iff split: option.splits)
    with o PrevOut spent_outputs_known show ?thesis by (simp add: value_from_outputs_def del: valid_amount_simps)
  qed (simp add: value_from_outputs_def amount_zero_def)
  have "map (value_from_outputs (spent_outputs tx utxos)) (tx_inputs tx) = map (\<lambda>i. Some (?v i)) (tx_inputs tx)"
    using step by simp
  then show "those (map (value_from_outputs (spent_outputs tx utxos)) (tx_inputs tx)) = Some (inputs_value utxos tx)"
    by (simp only: inputs_value_def those_map_Some)
  show "list_all (valid_amount NonNegative) (inputs_value utxos tx)"
    using step by (auto simp: inputs_value_def list_all_iff simp del: valid_amount_simps)
qed

definition block_balance :: "(outpoint \<rightharpoonup> tx_output) \<Rightarrow> value_balance \<Rightarrow> transaction list \<Rightarrow> value_balance" where
  "block_balance utxos acc txs = foldl (\<lambda>a tx. vb_plus a (balance_of_tx tx (inputs_value utxos tx))) acc txs"

lemma tx_pool_sum_valid:
  assumes "list_all (\<lambda>tx. amounts_valid tx \<and> inputs_known utxos tx) txs" "all_pools (valid_amount NegativeAllowed) acc"
  shows "tx_pool_sum utxos acc txs \<noteq> None \<and> (\<forall>s. tx_pool_sum utxos acc txs = Some (Ok s) \<longrightarrow>
    s = block_balance utxos acc txs \<and> all_pools (valid_amount NegativeAllowed) s)"
  using assms
proof (induction txs arbitrary: acc)
  case (Cons tx txs)
  let ?b = "balance_of_tx tx (inputs_value utxos tx)" and ?ok = "all_pools (valid_amount NegativeAllowed)"
  have known: "inputs_known utxos tx" "amounts_valid tx" using Cons.prems(1) by simp_all
  have tx: "tx_value_balance tx utxos \<noteq> None
    \<and> (\<forall>v. tx_value_balance tx utxos = Some (Ok v) \<longrightarrow> v = ?b \<and> ?ok v)"
    using tx_balance_valid [OF inputs_value_known [OF known(1)] known(2)] by (simp add: tx_value_balance_def)
  show ?case
    unfolding tx_pool_sum.simps
  proof (rule obind_step [where P = "\<lambda>v. v = ?b \<and> ?ok v"], goal_cases)
    case (3 v)
    then have v: "?ok v" "v = ?b" by blast+
    show ?case
    proof (rule obind_step [where P = "\<lambda>a. a = vb_plus acc v \<and> ?ok a"], goal_cases)
      case (3 a)
      then have a: "?ok a" "a = vb_plus acc v" by blast+
      have "list_all (\<lambda>tx. amounts_valid tx \<and> inputs_known utxos tx) txs" using Cons.prems(1) by simp
      from Cons.IH [OF this a(1)] show ?case
        unfolding block_balance_def foldl.simps a(2) v(2) .
    qed (use vb_add_valid [OF Cons.prems(2) v(1)] in auto)
  qed (use tx in auto)
qed (simp add: block_balance_def)

definition vb_negated :: "value_balance \<Rightarrow> value_balance" where
  "vb_negated v = \<lparr>vb_transparent = - vb_transparent v, vb_sprout = - vb_sprout v, vb_sapling = - vb_sapling v,
     vb_orchard = - vb_orchard v, vb_deferred = - vb_deferred v, vb_ironwood = - vb_ironwood v\<rparr>"

lemma vb_neg_valid: "all_pools (valid_amount NegativeAllowed) v \<Longrightarrow> vb_neg v = Some (vb_negated v)"
proof -
  assume "all_pools (valid_amount NegativeAllowed) v"
  then have "amount_neg (pool v) = Some (- pool v)"
    if "pool \<in> {vb_transparent, vb_sprout, vb_sapling, vb_orchard, vb_deferred, vb_ironwood}" for pool
    using that amount_neg_valid [of NegativeAllowed] by (auto simp: all_pools_def simp del: valid_amount_simps)
  then show ?thesis by (simp add: vb_neg_def vb_negated_def)
qed

lemma chain_value_pool_change_exact:
  assumes "list_all (\<lambda>tx. amounts_valid tx \<and> inputs_known utxos tx) (blk_transactions b)"
  shows "chain_value_pool_change b utxos d \<noteq> None \<and>
    (\<forall>c. chain_value_pool_change b utxos d = Some (Ok c) \<longrightarrow>
       c = set_deferred_amount (vb_negated (block_balance utxos vb_zero (blk_transactions b))) d)"
  unfolding chain_value_pool_change_def
proof (rule obind_step [where P = "\<lambda>s. s = block_balance utxos vb_zero (blk_transactions b)
      \<and> all_pools (valid_amount NegativeAllowed) s"], goal_cases)
  case (3 s)
  then have "s = block_balance utxos vb_zero (blk_transactions b)" "vb_neg s = Some (vb_negated s)"
    using vb_neg_valid by blast+
  then show ?case by simp
qed (use tx_pool_sum_valid [OF assms vb_zero_valid] in auto)

section \<open>What the commitment field means\<close>

lemma commitment_reads_back:
  assumes "commitment_from_bytes cr b net h = Some (Ok c)"
  shows "commitment_to_bytes c = b"
  using assms
  by (auto simp: commitment_from_bytes_def reserved_commitment_def sapling_root_try_def
      split: option.splits sum.splits if_splits)

definition mainnet_commitment :: "crypto \<Rightarrow> bytes \<Rightarrow> nat \<Rightarrow> (commitment_error, commitment) result" where
  "mainnet_commitment cr b n =
     (if n < 419200 then Ok (PreSaplingReserved b)
      else if n < 903000 then (if is_ok (sapling_root_try cr b) then Ok (FinalSaplingRoot b) else Err InvalidSapingRootBytes)
      else if n = 903000 then
        (if b = replicate 32 0 then Ok ChainHistoryActivationReserved else Err (InvalidChainHistoryActivationReserved b))
      else if n < 1687104 then Ok (ChainHistoryRoot b)
      else Ok (ChainHistoryBlockTxAuthCommitment b))"

lemma mainnet_upgrade_at:
  fixes h :: u32
  defines "n \<equiv> unat h"
  shows "current_with_activation_height Mainnet (Height h) = Some (
     if n < 1 then (Genesis, Height 0) else if n < 347500 then (BeforeOverwinter, Height 1)
     else if n < 419200 then (Overwinter, Height 347500) else if n < 653600 then (Sapling, Height 419200)
     else if n < 903000 then (Blossom, Height 653600) else if n < 1046400 then (Heartwood, Height 903000)
     else if n < 1687104 then (Canopy, Height 1046400) else if n < 2726400 then (Nu5, Height 1687104)
     else if n < 3146400 then (Nu6, Height 2726400) else if n < 3364600 then (Nu6_1, Height 3146400)
     else if n < 3428143 then (Nu6_2, Height 3364600) else (Nu6_3, Height 3428143))"
proof -
  have le: "Height k \<le> Height h \<longleftrightarrow> unat k \<le> n" for k by (simp add: less_eq_height_def n_def word_le_nat_alt)
  consider "n < 1" | "1 \<le> n" "n < 347500" | "347500 \<le> n" "n < 419200" | "419200 \<le> n" "n < 653600"
    | "653600 \<le> n" "n < 903000" | "903000 \<le> n" "n < 1046400" | "1046400 \<le> n" "n < 1687104"
    | "1687104 \<le> n" "n < 2726400" | "2726400 \<le> n" "n < 3146400" | "3146400 \<le> n" "n < 3364600"
    | "3364600 \<le> n" "n < 3428143" | "3428143 \<le> n"
    by linarith
  then show ?thesis
    unfolding current_with_activation_height_def range_to_last_def mainnet_activations
      MAINNET_ACTIVATION_HEIGHTS_def
    by cases (simp_all add: le)
qed

lemma mainnet_heartwood: "activation_height Heartwood Mainnet = Some (Height 903000)"
  unfolding activation_height.simps [of Heartwood] mainnet_activations
  by (simp add: MAINNET_ACTIVATION_HEIGHTS_def)

lemma mainnet_commitment_at:
  "commitment_from_bytes cr b Mainnet (Height h) = Some (mainnet_commitment cr b (unat h))"
proof -
  have at: "Height h = Height 903000 \<longleftrightarrow> unat h = 903000"
    by (simp add: word_unat_eq_iff)
  have root: "(case sapling_root_try cr b of Ok r \<Rightarrow> Ok (FinalSaplingRoot r) | Err _ \<Rightarrow> Err InvalidSapingRootBytes)
      = (if is_ok (sapling_root_try cr b) then Ok (FinalSaplingRoot b) else Err InvalidSapingRootBytes)"
    by (simp add: sapling_root_try_def)
  show ?thesis
    unfolding commitment_from_bytes_def mainnet_upgrade_at mainnet_commitment_def
    by (auto simp: root at [unfolded height.inject] mainnet_heartwood reserved_commitment_def
        CHAIN_HISTORY_ACTIVATION_RESERVED_def)
qed

section \<open>Properties\<close>

text \<open>A concrete block, for the witnesses.\<close>

definition demo_header :: block_header where
  "demo_header = \<lparr>hd_version = 4, hd_previous_block_hash = replicate 32 0, hd_merkle_root = replicate 32 1,
     hd_commitment_bytes = replicate 32 0, hd_time = 1500000000, hd_difficulty_threshold = 0x1f07ffff,
     hd_nonce = replicate 32 0, hd_solution = Regtest (replicate 36 0)\<rparr>"

definition demo_block :: block where
  "demo_block = \<lparr>blk_header = demo_header, blk_transactions = []\<rparr>"

lemma demo_valid: "valid_header demo_header" "valid_block demo_crypto demo_block"
proof -
  have "check_version 4 = Ok ()"
    by (simp add: check_version_def ZCASH_BLOCK_VERSION_def drop_bit_eq_div)
  then show v: "valid_header demo_header" by (simp add: valid_header_def demo_header_def REGTEST_SOLUTION_SIZE_def)
  then show "valid_block demo_crypto demo_block" by (simp add: valid_block_def demo_block_def)
qed

lemma demo_block_written:
  obtains e where "write_block demo_crypto demo_block = Ok e" "length e = 178"
proof -
  obtain h where h: "write_header demo_header = Ok h" using codec_header.written [OF demo_valid(1)] by blast
  then have "length h = 177"
    using length_write_header [OF demo_valid(1) h]
    by (simp add: demo_header_def HEADER_REGTEST_SERIALIZED_SIZE_def SOLUTION_INPUT_LENGTH_def
        REGTEST_SOLUTION_SERIALIZED_SIZE_def REGTEST_SOLUTION_SIZE_def)
  moreover have "write_block demo_crypto demo_block = Ok (h @ [0])"
    using h by (simp add: write_block_def demo_block_def write_vec_Nil write_empty_list_eq)
  ultimately show thesis using that by simp
qed

text \<open>
  C30. A block has exactly one encoding: the reader accepts a byte string precisely when it starts
  with what the writer produces, of at most the block size limit, for a header whose version,
  solution and fields are in range and no more transactions than can fit, each of them valid; the
  bytes after the block are left. What was read can be serialized and hashed without a panic, and
  its header takes 1487 bytes, or 177 with the solution size of Regtest.
\<close>

theorem block_encoding_is_canonical:
  assumes "push_num_bip34 cr"
  shows "(read_block cr bs = Ok (b, rest) \<longleftrightarrow>
      valid_block cr b \<and> (\<exists>e. write_block cr b = Ok e \<and> length e \<le> MAX_BLOCK_BYTES \<and> bs = e @ rest))
    \<and> (read_block cr bs = Ok (b, rest) \<longrightarrow>
      serialized_block cr b = Some (take (length bs - length rest) bs) \<and> block_hash hs (blk_header b) \<noteq> None
      \<and> (\<exists>h. write_header (blk_header b) = Ok h \<and>
           length h = (case hd_solution (blk_header b) of Common _ \<Rightarrow> 1487 | Regtest _ \<Rightarrow> 177)))"
proof -
  note iff = read_block_iff [OF assms]
  have "serialized_block cr b = Some (take (length bs - length rest) bs) \<and> block_hash hs (blk_header b) \<noteq> None
      \<and> (\<exists>h. write_header (blk_header b) = Ok h \<and>
           length h = (case hd_solution (blk_header b) of Common _ \<Rightarrow> 1487 | Regtest _ \<Rightarrow> 177))"
    if r: "read_block cr bs = Ok (b, rest)"
  proof -
    obtain e where e: "valid_block cr b" "write_block cr b = Ok e" "bs = e @ rest" using r by (auto simp: iff)
    then have v: "valid_header (blk_header b)" by (simp add: valid_block_def)
    obtain h where h: "write_header (blk_header b) = Ok h" using codec_header.written [OF v] by blast
    with length_write_header [OF v h] block_hash_Ok [OF v, of hs] e show ?thesis
      by (auto simp: serialized_block_def HEADER_SERIALIZED_SIZE_def HEADER_REGTEST_SERIALIZED_SIZE_def
          SOLUTION_INPUT_LENGTH_def SOLUTION_SERIALIZED_SIZE_def SOLUTION_SIZE_def
          REGTEST_SOLUTION_SERIALIZED_SIZE_def REGTEST_SOLUTION_SIZE_def split: solution.splits)
  qed
  with iff show ?thesis by blast
qed

lemma block_encoding_is_canonical_witness:
  "\<exists>e. write_block demo_crypto demo_block = Ok e \<and> read_block demo_crypto (e @ [7]) = Ok (demo_block, [7])"
proof -
  obtain e where e: "write_block demo_crypto demo_block = Ok e" "length e = 178" by (rule demo_block_written)
  with block_encoding_is_canonical [OF demo_bip34, of "e @ [7]" demo_block "[7]"] demo_valid
  show ?thesis by (simp add: MAX_BLOCK_BYTES_def)
qed


text \<open>
  A block with one transaction, its root the id of the transaction, under a hash that tells its header,
  its transaction and their digests apart.
\<close>

definition sized_hashing :: hashing where
  "sized_hashing = demo_hashing\<lparr>sha256 := \<lambda>m. replicate 32
     (if length m = 177 then 1 else if length m = 10 then 2 else if m = replicate 32 1 then 3 else 4)\<rparr>"

lemma sized_hashing_ok: "hashing_ok sized_hashing"
  using demo_hashing_ok by (simp add: hashing_ok_def sized_hashing_def)

definition demo_tx :: transaction where "demo_tx = V1 [] [] (LockHeight (Height 0))"

definition demo_mined :: block where
  "demo_mined = \<lparr>blk_header = demo_header\<lparr>hd_merkle_root := replicate 32 4\<rparr>, blk_transactions = [demo_tx]\<rparr>"

lemma demo_tx_facts:
  "valid_tx demo_crypto demo_tx" "write_transaction demo_crypto demo_tx = Ok [1,0,0,0, 0, 0, 0,0,0,0]"
  "tx_hash sized_hashing demo_crypto demo_tx = Some (replicate 32 4)"
proof -
  show w: "write_transaction demo_crypto demo_tx = Ok [1,0,0,0, 0, 0, 0,0,0,0]"
    by (simp add: demo_tx_def demo_written)
  show "valid_tx demo_crypto demo_tx"
    using w by (simp add: valid_tx_def demo_tx_def valid_fields_def valid_inputs_def valid_outputs_def
        lrz_accepts_def MAX_BLOCK_BYTES_def LOCK_MIN_TIMESTAMP_def)
  have "replicate 32 (2 :: byte) \<noteq> replicate 32 1" by simp
  then have "sha256d_finish sized_hashing [1,0,0,0, 0, 0, 0,0,0,0] = replicate 32 4"
    unfolding sha256d_is_sha256 [OF sized_hashing_ok] by (simp add: sized_hashing_def)
  with w show "tx_hash sized_hashing demo_crypto demo_tx = Some (replicate 32 4)"
    by (simp add: tx_hash_def txid_def txid_v1_to_v4_def demo_tx_def)
qed

lemma demo_mined_header:
  obtains hb where "write_header (blk_header demo_mined) = Ok hb" "length hb = 177" "valid_header (blk_header demo_mined)"
proof -
  have h: "valid_header (blk_header demo_mined)" using demo_valid(1) by (simp add: valid_header_def demo_mined_def)
  obtain hb where hb: "write_header (blk_header demo_mined) = Ok hb" using codec_header.written [OF h] by blast
  have "length hb = 177"
    using length_write_header [OF h hb]
    by (simp add: demo_mined_def demo_header_def HEADER_REGTEST_SERIALIZED_SIZE_def SOLUTION_INPUT_LENGTH_def
        REGTEST_SOLUTION_SERIALIZED_SIZE_def REGTEST_SOLUTION_SIZE_def)
  with hb h that show thesis by blast
qed

lemma demo_mined_read:
  obtains e where "read_block demo_crypto (e @ rest) = Ok (demo_mined, rest)"
proof -
  obtain hb where hb: "write_header (blk_header demo_mined) = Ok hb" and "length hb = 177"
    and h: "valid_header (blk_header demo_mined)" by (rule demo_mined_header)
  moreover have v: "valid_block demo_crypto demo_mined"
    using h demo_tx_facts(1) by (simp add: valid_block_def demo_mined_def transaction_max_allocation_def
        MIN_TRANSPARENT_TX_SIZE_def MIN_TRANSPARENT_INPUT_SIZE_def MIN_TRANSPARENT_OUTPUT_SIZE_def MAX_BLOCK_BYTES_def)
  moreover have "write_vec (write_transaction demo_crypto) [demo_tx] = Ok ([1] @ [1,0,0,0, 0, 0, 0,0,0,0])"
    using demo_tx_facts(2) by (simp add: write_vec_def csm_try_from_def MAX_PROTOCOL_MESSAGE_LEN_def
        write_external_count_def write_csm_def write_compact64_def write_u8_def)
  then have "write_block demo_crypto demo_mined = Ok (hb @ [1, 1,0,0,0, 0, 0, 0,0,0,0])"
    using hb by (simp add: write_block_def demo_mined_def)
  ultimately have "read_block demo_crypto ((hb @ [1, 1,0,0,0, 0, 0, 0,0,0,0]) @ rest) = Ok (demo_mined, rest)"
    using v by (simp add: read_block_iff [OF demo_bip34] MAX_BLOCK_BYTES_def)
  then show thesis by (rule that)
qed

lemma demo_mined_no_collision:
  "\<not> collision_among sized_hashing (block_messages sized_hashing demo_crypto demo_mined)"
proof -
  obtain hb where hb: "write_header (blk_header demo_mined) = Ok hb" "length hb = 177" by (rule demo_mined_header)
  have "merkle_messages sized_hashing [h] = []" for h
    by (simp add: merkle_messages_def merkle_rounds.simps)
  moreover have "replicate 32 (1 :: byte) \<noteq> replicate 32 2" "replicate 32 (1 :: byte) \<noteq> replicate 32 3"
    "replicate 32 (1 :: byte) \<noteq> replicate 32 4" "replicate 32 (2 :: byte) \<noteq> replicate 32 3"
    "replicate 32 (2 :: byte) \<noteq> replicate 32 4" "replicate 32 (3 :: byte) \<noteq> replicate 32 4" by simp_all
  moreover have "tx_network_upgrade demo_tx = None" by (simp add: demo_tx_def)
  moreover have "sha256 sized_hashing hb = replicate 32 1" "sha256 sized_hashing (replicate 32 1) = replicate 32 3"
    "sha256 sized_hashing [1,0,0,0, 0, 0, 0,0,0,0] = replicate 32 2" "sha256 sized_hashing (replicate 32 2) = replicate 32 4"
    using hb(2) by (simp_all add: sized_hashing_def)
  ultimately show ?thesis using hb demo_tx_facts(2,3)
    unfolding collision_among_def block_messages_def header_messages_def old_tx_messages_def root_messages_def
      sha256d_messages_def
    by (simp add: demo_mined_def)
qed


text \<open>
  On Mainnet the commitment field of a header is read by the height of its block: ignored
  before Sapling, a Sapling root until Heartwood, all zeros in the Heartwood activation block, a
  chain history root until NU5 and from then on the commitment to chain history and authorizing
  data; on every network what was read has the bytes it was read from.
\<close>

theorem commitment_is_read_by_height:
  "commitment_from_bytes cr b Mainnet (Height h) = Some (mainnet_commitment cr b (unat h))
   \<and> (commitment_from_bytes cr b net ht = Some (Ok c) \<longrightarrow> commitment_to_bytes c = b)"
  using mainnet_commitment_at commitment_reads_back by blast

lemma commitment_is_read_by_height_witness:
  "commitment_to_bytes (ChainHistoryRoot (replicate 32 7)) = replicate 32 7 \<and>
   commitment_from_bytes demo_crypto (replicate 32 7) Mainnet (Height 903000) =
     Some (Err (InvalidChainHistoryActivationReserved (replicate 32 7)))"
proof -
  have at: "commitment_from_bytes demo_crypto (replicate 32 7) Mainnet (Height 903001)
      = Some (Ok (ChainHistoryRoot (replicate 32 7)))"
    using commitment_is_read_by_height [of demo_crypto "replicate 32 7" 903001 Mainnet "Height 0"]
    by (simp add: mainnet_commitment_def)
  show ?thesis
    using commitment_is_read_by_height [of demo_crypto "replicate 32 7" 903000 Mainnet "Height 903001"
        "ChainHistoryRoot (replicate 32 7)"] at
    by (simp add: mainnet_commitment_def)
qed

text \<open>
  C31. The change a block read from bytes makes to the value pools: when the outputs its inputs
  spend are known, computing it never panics, and a change that is returned is, pool by pool, the
  negative of what its transactions move, with the given deferred amount.
\<close>

theorem block_changes_the_pools_exactly:
  assumes "push_num_bip34 cr" "read_block cr bs = Ok (b, rest)"
    and "filter (\<lambda>tx. \<not> inputs_known utxos tx) (blk_transactions b) = []"
  shows "chain_value_pool_change b utxos d \<noteq> None \<and>
    (\<forall>c. chain_value_pool_change b utxos d = Some (Ok c) \<longrightarrow>
       c = set_deferred_amount (vb_negated (block_balance utxos vb_zero (blk_transactions b))) d)"
proof (rule chain_value_pool_change_exact)
  have "list_all (valid_tx cr) (blk_transactions b)"
    using assms(2) by (simp add: read_block_iff [OF assms(1)] valid_block_def)
  then show "list_all (\<lambda>tx. amounts_valid tx \<and> inputs_known utxos tx) (blk_transactions b)"
    using assms(3) valid_fields_amounts unfolding list_all_iff filter_empty_conv valid_tx_def by blast
qed

lemma block_changes_the_pools_exactly_witness:
  "chain_value_pool_change demo_block Map.empty 5 \<noteq> None"
proof -
  obtain e where e: "write_block demo_crypto demo_block = Ok e" "length e = 178" by (rule demo_block_written)
  then have "read_block demo_crypto (e @ []) = Ok (demo_block, [])"
    using demo_valid by (simp add: read_block_iff [OF demo_bip34] MAX_BLOCK_BYTES_def)
  from block_changes_the_pools_exactly [OF demo_bip34 this, of Map.empty 5] show ?thesis
    by (simp add: demo_block_def)
qed

end
