(* ===== verification/Mempool.thy ===== *)
theory Mempool
  imports Block
begin

text \<open>
  Unmined transactions (\<open>transaction/unmined.rs\<close>, \<open>transaction/unmined/zip317.rs\<close> and the
  witnessed ids of \<open>transaction/hash.rs\<close> in zebra-chain): their ids, the ZIP-317 fee rules that
  admit a verified transaction to the mempool, and the ZIP-401 weight by which it is evicted.
\<close>

section \<open>Witnessed ids\<close>

record wtx_id =
  wtx_tx_id :: bytes
  wtx_auth_digest :: bytes

text \<open>\<open>WtxId::from(&Transaction)\<close>; \<open>None\<close> is a panic, as for a transaction before version 5.\<close>

definition wtx_id_of :: "hashing \<Rightarrow> auth_hashing \<Rightarrow> crypto \<Rightarrow> transaction \<Rightarrow> wtx_id option" where
  "wtx_id_of hs ah cr tx =
     (case (tx_hash hs cr tx, auth_digest ah cr tx) of
        (Some h, Some (Some d)) \<Rightarrow> Some \<lparr>wtx_tx_id = h, wtx_auth_digest = d\<rparr>
      | _ \<Rightarrow> None)"

definition wtx_to_bytes :: "wtx_id \<Rightarrow> bytes" where
  "wtx_to_bytes w = write_at 32 (wtx_auth_digest w) (write_at 0 (wtx_tx_id w) (replicate 64 0))"

definition wtx_from_bytes :: "bytes \<Rightarrow> wtx_id" where
  "wtx_from_bytes b = \<lparr>wtx_tx_id = slice 0 32 b, wtx_auth_digest = slice 32 64 b\<rparr>"

definition wtx_try_from :: "bytes \<Rightarrow> (ser_error, wtx_id) result" where
  "wtx_try_from b =
     (if length b = 64 then Ok (wtx_from_bytes b) else Err (TryFromSliceError ''could not convert slice to array''))"

definition display_wtx_id :: "hashing \<Rightarrow> wtx_id \<Rightarrow> string" where
  "display_wtx_id hs w = display_hash hs (wtx_tx_id w) @ display_hash hs (wtx_auth_digest w)"

section \<open>Unmined ids\<close>

datatype unmined_tx_id = Legacy bytes | Witnessed wtx_id

definition unmined_tx_id_of :: "hashing \<Rightarrow> auth_hashing \<Rightarrow> crypto \<Rightarrow> transaction \<Rightarrow> unmined_tx_id option" where
  "unmined_tx_id_of hs ah cr tx =
     (case tx of
        V1 _ _ _ \<Rightarrow> map_option Legacy (tx_hash hs cr tx)
      | V2 _ _ _ _ \<Rightarrow> map_option Legacy (tx_hash hs cr tx)
      | V3 _ _ _ _ _ \<Rightarrow> map_option Legacy (tx_hash hs cr tx)
      | V4 _ _ _ _ _ _ \<Rightarrow> map_option Legacy (tx_hash hs cr tx)
      | V5 _ _ _ _ _ _ _ \<Rightarrow> map_option Witnessed (wtx_id_of hs ah cr tx)
      | V6 _ _ _ _ _ _ _ _ \<Rightarrow> map_option Witnessed (wtx_id_of hs ah cr tx))"

fun mined_id :: "unmined_tx_id \<Rightarrow> bytes" where
  "mined_id (Legacy legacy_id) = legacy_id"
| "mined_id (Witnessed wtx_id) = wtx_tx_id wtx_id"

fun unmined_auth_digest :: "unmined_tx_id \<Rightarrow> bytes option" where
  "unmined_auth_digest (Legacy _) = None"
| "unmined_auth_digest (Witnessed wtx_id) = Some (wtx_auth_digest wtx_id)"

fun display_unmined_tx_id :: "unmined_tx_id \<Rightarrow> string" where
  "display_unmined_tx_id (Legacy _) = ''transaction::Hash(\"private\")''"
| "display_unmined_tx_id (Witnessed _) = ''WtxId(\"private\")''"

section \<open>Conventional fees\<close>

definition MARGINAL_FEE :: int where "MARGINAL_FEE = 5000"
definition GRACE_ACTIONS :: nat where "GRACE_ACTIONS = 2"
definition P2PKH_STANDARD_INPUT_SIZE :: nat where "P2PKH_STANDARD_INPUT_SIZE = 150"
definition P2PKH_STANDARD_OUTPUT_SIZE :: nat where "P2PKH_STANDARD_OUTPUT_SIZE = 34"
definition BLOCK_UNPAID_ACTION_LIMIT :: nat where "BLOCK_UNPAID_ACTION_LIMIT = 0"
definition MIN_MEMPOOL_TX_FEE_RATE :: nat where "MIN_MEMPOOL_TX_FEE_RATE = 100"
definition MEMPOOL_TX_FEE_REQUIREMENT_CAP :: nat where "MEMPOOL_TX_FEE_REQUIREMENT_CAP = 1000"
definition MEMPOOL_TRANSACTION_COST_THRESHOLD :: nat where "MEMPOOL_TRANSACTION_COST_THRESHOLD = 10000"
definition MEMPOOL_TRANSACTION_LOW_FEE_PENALTY :: nat where "MEMPOOL_TRANSACTION_LOW_FEE_PENALTY = 40000"

text \<open>\<open>zcash_serialized_size\<close>: the bytes written to a writer that only counts; \<open>None\<close> is a panic.\<close>

definition serialized_size :: "'a writer \<Rightarrow> 'a \<Rightarrow> nat option" where
  "serialized_size w x = (case w x of Ok b \<Rightarrow> Some (length b) | Err _ \<Rightarrow> None)"

definition total_size :: "'a writer \<Rightarrow> 'a list \<Rightarrow> nat option" where
  "total_size w xs = map_option sum_list (those (map (serialized_size w) xs))"

text \<open>\<open>div_ceil\<close> of the \<open>num-integer\<close> crate is a parameter, documented as division rounding up.\<close>

type_synonym ceiling = "nat \<Rightarrow> nat \<Rightarrow> nat"

definition ceiling_documented :: "ceiling \<Rightarrow> bool" where
  "ceiling_documented div_ceil \<longleftrightarrow> (\<forall>a b. 0 < b \<longrightarrow> div_ceil a b = (a + b - 1) div b)"

definition conventional_actions :: "ceiling \<Rightarrow> crypto \<Rightarrow> transaction \<Rightarrow> nat option" where
  "conventional_actions div_ceil cr tx =
     (case (total_size (write_input cr) (tx_inputs tx), total_size write_output (tx_outputs tx),
            sapling_spends_per_anchor tx) of
        (Some tx_in_total_size, Some tx_out_total_size, Some spends) \<Rightarrow>
          let n_join_split = joinsplit_count tx;
              n_spends_sapling = length spends;
              n_outputs_sapling = length (sapling_outputs tx);
              n_actions_orchard = length (orchard_actions tx);
              n_actions_ironwood = length (ironwood_actions tx);
              tx_in_logical_actions = div_ceil tx_in_total_size P2PKH_STANDARD_INPUT_SIZE;
              tx_out_logical_actions = div_ceil tx_out_total_size P2PKH_STANDARD_OUTPUT_SIZE;
              logical_actions = max tx_in_logical_actions tx_out_logical_actions
                + 2 * n_join_split + max n_spends_sapling n_outputs_sapling
                + n_actions_orchard + n_actions_ironwood
          in if logical_actions < 2 ^ 32 then Some (max GRACE_ACTIONS logical_actions) else None
      | _ \<Rightarrow> None)"

definition conventional_fee :: "ceiling \<Rightarrow> crypto \<Rightarrow> transaction \<Rightarrow> int option" where
  "conventional_fee div_ceil cr tx =
     (case (try_from_u64 NonNegative MARGINAL_FEE, conventional_actions div_ceil cr tx) of
        (Ok marginal_fee, Some actions) \<Rightarrow>
          (case amount_mul NonNegative marginal_fee (int actions) of
             Some (Ok fee) \<Rightarrow> Some fee | _ \<Rightarrow> None)
      | _ \<Rightarrow> None)"

section \<open>Unmined transactions\<close>

record unmined_tx =
  ut_transaction :: transaction
  ut_id :: unmined_tx_id
  ut_size :: nat
  ut_conventional_fee :: int

definition unmined_tx_of :: "ceiling \<Rightarrow> hashing \<Rightarrow> auth_hashing \<Rightarrow> crypto \<Rightarrow> transaction \<Rightarrow> unmined_tx option" where
  "unmined_tx_of div_ceil hs ah cr tx =
     (case (serialized_size (write_transaction cr) tx, conventional_fee div_ceil cr tx, unmined_tx_id_of hs ah cr tx) of
        (Some s, Some fee, Some uid) \<Rightarrow>
          Some \<lparr>ut_transaction = tx, ut_id = uid, ut_size = s, ut_conventional_fee = fee\<rparr>
      | _ \<Rightarrow> None)"

definition unpaid_actions :: "ceiling \<Rightarrow> crypto \<Rightarrow> unmined_tx \<Rightarrow> int \<Rightarrow> nat option" where
  "unpaid_actions div_ceil cr ut miner_fee =
     (case (conventional_actions div_ceil cr (ut_transaction ut), amount_div NonNegative miner_fee MARGINAL_FEE) of
        (Some actions, Some (Ok marginal_fee_weight_ratio)) \<Rightarrow>
          let unpaid = int actions - marginal_fee_weight_ratio
          in Some (if 0 \<le> unpaid \<and> unpaid < 2 ^ 32 then nat unpaid else 0)
      | _ \<Rightarrow> None)"

datatype zip317_error = UnpaidActions | FeeBelowMinimumRate | InvalidMinFee

definition clamp :: "nat \<Rightarrow> nat \<Rightarrow> nat \<Rightarrow> nat" where
  "clamp lo hi n = (if n < lo then lo else if n > hi then hi else n)"

text \<open>\<open>usize\<close> has 64 bits; \<open>None\<close> is a panic.\<close>

definition mempool_checks :: "nat \<Rightarrow> int \<Rightarrow> nat \<Rightarrow> (zip317_error, unit) outcome" where
  "mempool_checks unpaid miner_fee transaction_size =
     (if unpaid > BLOCK_UNPAID_ACTION_LIMIT then Some (Err UnpaidActions)
      else if \<not> MIN_MEMPOOL_TX_FEE_RATE < (2 ^ 64 - 1) div MAX_BLOCK_BYTES then None
      else if MIN_MEMPOOL_TX_FEE_RATE * transaction_size \<ge> 2 ^ 64 then None
      else
        let min_fee = clamp MIN_MEMPOOL_TX_FEE_RATE MEMPOOL_TX_FEE_REQUIREMENT_CAP
                        (MIN_MEMPOOL_TX_FEE_RATE * transaction_size div 1000)
        in case try_from_u64 NonNegative (int min_fee) of
             Err _ \<Rightarrow> Some (Err InvalidMinFee)
           | Ok min_fee \<Rightarrow> if miner_fee < min_fee then Some (Err FeeBelowMinimumRate) else Some (Ok ()))"

text \<open>A verified transaction; its floating point fee ratio is left out.\<close>

record verified_unmined_tx =
  vt_transaction :: unmined_tx
  vt_miner_fee :: int
  vt_legacy_sigop_count :: u32
  vt_p2sh_sigop_count :: u32
  vt_conventional_actions :: nat
  vt_unpaid_actions :: nat
  vt_time :: "int option"
  vt_height :: "height option"
  vt_spent_outputs :: "tx_output list"

definition verified_new ::
    "ceiling \<Rightarrow> crypto \<Rightarrow> unmined_tx \<Rightarrow> int \<Rightarrow> u32 \<Rightarrow> u32 \<Rightarrow> tx_output list \<Rightarrow> (zip317_error, verified_unmined_tx) outcome" where
  "verified_new div_ceil cr ut miner_fee legacy_sigops p2sh_sigops spent =
     (case (conventional_actions div_ceil cr (ut_transaction ut), unpaid_actions div_ceil cr ut miner_fee) of
        (Some actions, Some unpaid) \<Rightarrow>
          obind (mempool_checks unpaid miner_fee (ut_size ut)) (\<lambda>_.
          Some (Ok \<lparr>vt_transaction = ut, vt_miner_fee = miner_fee, vt_legacy_sigop_count = legacy_sigops,
            vt_p2sh_sigop_count = p2sh_sigops, vt_conventional_actions = actions, vt_unpaid_actions = unpaid,
            vt_time = None, vt_height = None, vt_spent_outputs = spent\<rparr>))
      | _ \<Rightarrow> None)"

definition block_sigop_count :: "verified_unmined_tx \<Rightarrow> u32" where
  "block_sigop_count vt =
     (let s = unat (vt_legacy_sigop_count vt) + unat (vt_p2sh_sigop_count vt)
      in if s < 2 ^ 32 then word_of_nat s else - 1)"

definition pays_conventional_fee :: "verified_unmined_tx \<Rightarrow> bool" where
  "pays_conventional_fee vt \<longleftrightarrow> vt_miner_fee vt \<ge> ut_conventional_fee (vt_transaction vt)"

definition mempool_cost :: "verified_unmined_tx \<Rightarrow> nat" where
  "mempool_cost vt = max (ut_size (vt_transaction vt)) MEMPOOL_TRANSACTION_COST_THRESHOLD"

definition eviction_weight :: "verified_unmined_tx \<Rightarrow> nat" where
  "eviction_weight vt =
     (let cost = mempool_cost vt
      in if \<not> pays_conventional_fee vt then cost + MEMPOOL_TRANSACTION_LOW_FEE_PENALTY else cost)"

section \<open>Sizes and counts\<close>

lemma total_size_written: "write_external_count w xs = Ok b \<Longrightarrow> total_size w xs = Some (length b)"
proof (induction xs arbitrary: b)
  case (Cons x xs)
  then obtain c cs where c: "w x = Ok c" "write_external_count w xs = Ok cs" "b = c @ cs"
    by (auto simp: write_external_count_def)
  with Cons.IH [OF c(2)] show ?case by (auto simp: total_size_def serialized_size_def)
qed (simp add: write_external_count_def total_size_def)

lemma total_size_vec: "write_vec w xs = Ok b \<Longrightarrow> \<exists>n. total_size w xs = Some n \<and> n \<le> length b"
  by (auto simp: write_vec_def dest!: total_size_written split: sum.splits)

lemma body_parts:
  "write_body cr tx = Ok b \<Longrightarrow> \<exists>i out. write_inputs cr (tx_inputs tx) = Ok i \<and> write_outputs (tx_outputs tx) = Ok out
     \<and> length i \<le> length b \<and> length out \<le> length b"
  by (cases tx) auto

lemma transparent_sizes:
  assumes "write_transaction cr tx = Ok b"
  shows "\<exists>m n. total_size (write_input cr) (tx_inputs tx) = Some m \<and> m \<le> length b
    \<and> total_size write_output (tx_outputs tx) = Some n \<and> n \<le> length b"
proof -
  obtain c where c: "write_body cr tx = Ok c" "length c \<le> length b"
    using assms by (auto simp: write_transaction_def)
  from body_parts [OF c(1)] obtain i out where p: "write_vec (write_input cr) (tx_inputs tx) = Ok i"
      "write_vec write_output (tx_outputs tx) = Ok out" "length i \<le> length c" "length out \<le> length c"
    by (auto simp: write_inputs_def write_outputs_def)
  with total_size_vec [OF p(1)] total_size_vec [OF p(2)] c(2) show ?thesis by fastforce
qed

lemma block_div: "n \<le> (MAX_BLOCK_BYTES - Suc 0) div c \<Longrightarrow> n \<le> MAX_BLOCK_BYTES"
  using div_le_dividend [of "MAX_BLOCK_BYTES - Suc 0" c] by linarith

lemma spends_bound:
  "length (sd_spends d) \<le> k \<Longrightarrow> \<exists>ss. spends_per_anchor f d = Some ss \<and> length ss \<le> k"
  using spends_per_anchor_total [of f d] by auto

lemma count_bounds:
  assumes v: "valid_fields cr tx"
  shows "joinsplit_count tx \<le> MAX_BLOCK_BYTES"
    "\<exists>ss. sapling_spends_per_anchor tx = Some ss \<and> length ss \<le> MAX_BLOCK_BYTES"
    "length (sapling_outputs tx) \<le> MAX_BLOCK_BYTES"
    "length (orchard_actions tx) \<le> MAX_BLOCK_BYTES" "length (ironwood_actions tx) \<le> MAX_BLOCK_BYTES"
proof -
  have js: "valid_joinsplit_data p d \<Longrightarrow> length (joinsplits d) \<le> MAX_BLOCK_BYTES" for p d
    by (auto simp: valid_joinsplit_data_def joinsplit_max_allocation_def dest: block_div)
  show "joinsplit_count tx \<le> MAX_BLOCK_BYTES"
    using v js by (cases tx rule: joinsplit_count.cases) (auto simp: valid_fields_def)
  have v4: "valid_sapling_v4 cr d \<Longrightarrow> length (sd_spends d) \<le> MAX_BLOCK_BYTES \<and> length (sd_outputs d) \<le> MAX_BLOCK_BYTES" for d
    by (auto simp: valid_sapling_v4_def spend_v4_max_allocation_def output_v4_max_allocation_def dest: block_div)
  have v5: "valid_sapling_v5 cr d \<Longrightarrow> length (sd_spends d) \<le> MAX_BLOCK_BYTES \<and> length (sd_outputs d) \<le> MAX_BLOCK_BYTES" for d
    by (auto simp: valid_sapling_v5_def spend_prefix_max_allocation_def output_prefix_max_allocation_def
        output_v4_max_allocation_def dest: block_div)
  show "\<exists>ss. sapling_spends_per_anchor tx = Some ss \<and> length ss \<le> MAX_BLOCK_BYTES"
    using v v4 v5 by (cases tx rule: sapling_spends_per_anchor.cases)
      (auto simp: valid_fields_def valid_opt_sapling_v5_def intro!: spends_bound)
  show "length (sapling_outputs tx) \<le> MAX_BLOCK_BYTES"
    using v v4 v5 by (cases tx rule: sapling_outputs.cases) (auto simp: valid_fields_def valid_opt_sapling_v5_def)
  have orch: "valid_orchard cr f d \<Longrightarrow> length (od_action_list d) \<le> MAX_BLOCK_BYTES" for f d
    by (auto simp: valid_orchard_def action_max_allocation_def od_action_list_def dest: block_div)
  show "length (orchard_actions tx) \<le> MAX_BLOCK_BYTES" "length (ironwood_actions tx) \<le> MAX_BLOCK_BYTES"
    using v orch by (cases tx; auto simp: valid_fields_def orchard_actions_def ironwood_actions_def split: option.splits)+
qed

lemma conventional_actions_total:
  assumes "ceiling_documented div_ceil" "valid_tx cr tx"
  obtains n where "conventional_actions div_ceil cr tx = Some n" "2 \<le> n" "n < 2 ^ 32"
proof -
  obtain b where b: "valid_fields cr tx" "write_transaction cr tx = Ok b" "length b \<le> MAX_BLOCK_BYTES"
    using assms(2) by (auto simp: valid_tx_def)
  obtain m n where s: "total_size (write_input cr) (tx_inputs tx) = Some m" "m \<le> MAX_BLOCK_BYTES"
      "total_size write_output (tx_outputs tx) = Some n" "n \<le> MAX_BLOCK_BYTES"
    using transparent_sizes [OF b(2)] b(3) by auto
  obtain ss where ss: "sapling_spends_per_anchor tx = Some ss" "length ss \<le> MAX_BLOCK_BYTES"
    using count_bounds(2) [OF b(1)] by blast
  have ceil: "div_ceil a c \<le> MAX_BLOCK_BYTES + c" if "a \<le> MAX_BLOCK_BYTES" "0 < c" for a c
  proof -
    have "div_ceil a c = (a + c - 1) div c" using assms(1) that(2) by (simp add: ceiling_documented_def)
    with div_le_dividend [of "a + c - 1" c] that(1) show ?thesis by linarith
  qed
  let ?l = "max (div_ceil m P2PKH_STANDARD_INPUT_SIZE) (div_ceil n P2PKH_STANDARD_OUTPUT_SIZE)
      + 2 * joinsplit_count tx + max (length ss) (length (sapling_outputs tx))
      + length (orchard_actions tx) + length (ironwood_actions tx)"
  have "?l < 2 ^ 32"
    using ceil [OF s(2), of 150] ceil [OF s(4), of 34] count_bounds(1,3-5) [OF b(1)] ss(2)
    by (simp add: P2PKH_STANDARD_INPUT_SIZE_def P2PKH_STANDARD_OUTPUT_SIZE_def MAX_BLOCK_BYTES_def max_def)
  then have "conventional_actions div_ceil cr tx = Some (max GRACE_ACTIONS ?l)" "max GRACE_ACTIONS ?l < 2 ^ 32"
    using s ss by (simp_all add: conventional_actions_def Let_def GRACE_ACTIONS_def)
  moreover have "2 \<le> max GRACE_ACTIONS ?l" by (simp add: GRACE_ACTIONS_def)
  ultimately show thesis using that by blast
qed

section \<open>Fees\<close>

lemma conventional_fee_value:
  assumes "conventional_actions div_ceil cr tx = Some n" "n < 2 ^ 32"
  shows "conventional_fee div_ceil cr tx = Some (5000 * int n)"
proof -
  have "amount_mul NonNegative 5000 (int n) = Some (Ok (5000 * int n))"
    using assms(2) amount_mul_valid [of NonNegative 5000 "int n"] by (simp add: int_ranges money)
  with assms(1) show ?thesis
    by (simp add: conventional_fee_def MARGINAL_FEE_def try_from_u64_def validate_cases int_ranges money)
qed

lemma unpaid_value:
  assumes "conventional_actions div_ceil cr (ut_transaction ut) = Some n" "n < 2 ^ 32" "0 \<le> fee" "fee \<le> MAX_MONEY"
  shows "unpaid_actions div_ceil cr ut fee = Some (nat (int n - fee div 5000))"
proof -
  have "div_trunc fee 5000 = fee div 5000" using assms(3) by (cases "fee = 0") (simp_all add: div_trunc_def)
  then have "amount_div NonNegative fee MARGINAL_FEE = Some (Ok (fee div 5000))"
    using amount_div_valid [of NonNegative fee 5000] assms(3,4) by (simp add: MARGINAL_FEE_def int_ranges)
  moreover have "int n - fee div 5000 < 2 ^ 32" using assms(2,3) by (simp add: pos_imp_zdiv_nonneg_iff add_strict_increasing2)
  moreover have "\<not> 0 \<le> int n - fee div 5000 \<Longrightarrow> nat (int n - fee div 5000) = 0" by simp
  ultimately show ?thesis using assms(1) unfolding unpaid_actions_def Let_def by simp
qed

text \<open>The fee rate check is implied by the check of the unpaid actions.\<close>

lemma mempool_checks_paid:
  assumes "10000 \<le> fee" "transaction_size \<le> MAX_BLOCK_BYTES"
  shows "mempool_checks 0 fee transaction_size = Some (Ok ())"
proof -
  define m where "m = clamp 100 1000 (100 * transaction_size div 1000)"
  have m: "m \<le> 1000" by (simp add: m_def clamp_def)
  then have "try_from_u64 NonNegative (int m) = Ok (int m)"
    by (simp add: try_from_u64_def validate_cases int_ranges money)
  moreover have "100 * transaction_size < 2 ^ 64" using assms(2) by (simp add: MAX_BLOCK_BYTES_def)
  moreover have "\<not> fee < int m" using m assms(1) by linarith
  ultimately show ?thesis
    unfolding mempool_checks_def MIN_MEMPOOL_TX_FEE_RATE_def MEMPOOL_TX_FEE_REQUIREMENT_CAP_def m_def [symmetric]
    by (simp add: BLOCK_UNPAID_ACTION_LIMIT_def MAX_BLOCK_BYTES_def)
qed

lemma unmined_tx_total:
  assumes cr: "push_num_bip34 cr" and hs: "hashing_ok hs" and c: "ceiling_documented div_ceil" and tx: "valid_tx cr tx"
  obtains ut n where "unmined_tx_of div_ceil hs ah cr tx = Some ut" "ut_transaction ut = tx"
    "conventional_actions div_ceil cr tx = Some n" "2 \<le> n" "n < 2 ^ 32"
    "ut_conventional_fee ut = 5000 * int n" "ut_size ut \<le> MAX_BLOCK_BYTES"
    "tx_hash hs cr tx = Some (mined_id (ut_id ut))"
proof -
  obtain n where n: "conventional_actions div_ceil cr tx = Some n" "2 \<le> n" "n < 2 ^ 32"
    by (rule conventional_actions_total [OF c tx])
  obtain b where b: "write_transaction cr tx = Ok b" "length b \<le> MAX_BLOCK_BYTES" "valid_fields cr tx" "lrz_accepts cr tx"
    using tx by (auto simp: valid_tx_def)
  obtain h where h: "tx_hash hs cr tx = Some h" using valid_tx_hash [OF cr hs tx] by blast
  have "\<exists>uid. unmined_tx_id_of hs ah cr tx = Some uid \<and> mined_id uid = h"
  proof (cases "tx_network_upgrade tx")
    case None
    then show ?thesis using h by (cases tx) (simp_all add: unmined_tx_id_of_def)
  next
    case (Some nu)
    then obtain br where "branch_id nu = Some br" using valid_branch [OF b(3) Some] by blast
    moreover have "to_librustzcash cr tx nu = Ok ()" using b(4) Some by (simp add: lrz_accepts_def)
    ultimately have "auth_digest ah cr tx = Some (Some (lrz_auth_commitment ah b br))"
      using Some b(1) by (simp add: auth_digest_def)
    with h Some show ?thesis by (cases tx) (simp_all add: unmined_tx_id_of_def wtx_id_of_def)
  qed
  then obtain uid where u: "unmined_tx_id_of hs ah cr tx = Some uid" "mined_id uid = h" by blast
  let ?ut = "\<lparr>ut_transaction = tx, ut_id = uid, ut_size = length b, ut_conventional_fee = 5000 * int n\<rparr>"
  have "unmined_tx_of div_ceil hs ah cr tx = Some ?ut"
    using b(1) u(1) conventional_fee_value [OF n(1,3)] by (simp add: unmined_tx_of_def serialized_size_def)
  then show thesis by (rule that) (use n b u h in simp_all)
qed

lemma verified_new_cases:
  assumes n: "conventional_actions div_ceil cr (ut_transaction ut) = Some n" "2 \<le> n" "n < 2 ^ 32"
    and fee: "0 \<le> fee" "fee \<le> MAX_MONEY" and size: "ut_size ut \<le> MAX_BLOCK_BYTES"
  shows "verified_new div_ceil cr ut fee l p spent =
    (if 5000 * int n \<le> fee
     then Some (Ok \<lparr>vt_transaction = ut, vt_miner_fee = fee, vt_legacy_sigop_count = l, vt_p2sh_sigop_count = p,
       vt_conventional_actions = n, vt_unpaid_actions = 0, vt_time = None, vt_height = None, vt_spent_outputs = spent\<rparr>)
     else Some (Err UnpaidActions))"
proof -
  note u = unpaid_value [OF n(1,3) fee]
  have paid: "nat (int n - fee div 5000) = 0 \<longleftrightarrow> 5000 * int n \<le> fee" by linarith
  show ?thesis
  proof (cases "5000 * int n \<le> fee")
    case True
    then have "10000 \<le> fee" using n(2) by linarith
    from mempool_checks_paid [OF this size] True paid n(1) u show ?thesis
      by (simp add: verified_new_def)
  next
    case False
    with paid have "0 < nat (int n - fee div 5000)" by simp
    then have "mempool_checks (nat (int n - fee div 5000)) fee (ut_size ut) = Some (Err UnpaidActions)"
      by (simp add: mempool_checks_def BLOCK_UNPAID_ACTION_LIMIT_def)
    with n(1) u False show ?thesis by (simp add: verified_new_def)
  qed
qed

lemma wtx_roundtrip:
  "length (wtx_tx_id w) = 32 \<Longrightarrow> length (wtx_auth_digest w) = 32 \<Longrightarrow> wtx_try_from (wtx_to_bytes w) = Ok w"
  by (simp add: wtx_try_from_def wtx_to_bytes_def wtx_from_bytes_def slice_def write_at_def)

section \<open>Properties\<close>

text \<open>
  C35. Admission to the mempool by ZIP-317, for every transaction read from bytes and every possible
  fee: the unmined transaction can be built and checked without a panic; it is admitted exactly
  when it pays the conventional fee of 5000 zatoshis an action, and refused for its unpaid actions
  otherwise, so the later check of the fee rate never refuses anything; and an admitted transaction
  never carries the penalty for low fees in its eviction weight.
\<close>

theorem mempool_admits_exactly_what_pays:
  assumes "push_num_bip34 cr" "hashing_ok hs" "ceiling_documented div_ceil"
    and "read_transaction cr bs = Ok (tx, rest)" and "0 \<le> fee" "fee \<le> MAX_MONEY"
  shows "\<exists>ut n. unmined_tx_of div_ceil hs ah cr tx = Some ut \<and> tx_hash hs cr tx = Some (mined_id (ut_id ut)) \<and>
    conventional_actions div_ceil cr tx = Some n \<and> ut_conventional_fee ut = 5000 * int n \<and> 2 \<le> n \<and>
    (if fee < ut_conventional_fee ut then verified_new div_ceil cr ut fee l p spent = Some (Err UnpaidActions)
     else \<exists>vt. verified_new div_ceil cr ut fee l p spent = Some (Ok vt) \<and> vt_transaction vt = ut \<and>
       vt_miner_fee vt = fee \<and> vt_unpaid_actions vt = 0 \<and> pays_conventional_fee vt \<and>
       eviction_weight vt = max (ut_size ut) 10000)"
proof -
  have tx: "valid_tx cr tx" using assms(4) by (auto simp: read_transaction_iff [OF assms(1)] valid_tx_def)
  obtain ut n where u: "unmined_tx_of div_ceil hs ah cr tx = Some ut" "ut_transaction ut = tx"
    "conventional_actions div_ceil cr tx = Some n" "2 \<le> n" "n < 2 ^ 32"
    "ut_conventional_fee ut = 5000 * int n" "ut_size ut \<le> MAX_BLOCK_BYTES"
    "tx_hash hs cr tx = Some (mined_id (ut_id ut))"
    by (rule unmined_tx_total [OF assms(1-3) tx])
  have n: "conventional_actions div_ceil cr (ut_transaction ut) = Some n" using u(2,3) by simp
  show ?thesis
    by (rule exI [of _ ut], rule exI [of _ n])
      (use u in \<open>simp add: verified_new_cases [OF n u(4,5) assms(5,6) u(7)] pays_conventional_fee_def
        eviction_weight_def mempool_cost_def MEMPOOL_TRANSACTION_COST_THRESHOLD_def\<close>)
qed

definition demo_auth :: auth_hashing where
  "demo_auth = \<lparr>blake2b_256 = (\<lambda>_ _. replicate 32 0), lrz_auth_commitment = (\<lambda>_ _. replicate 32 0)\<rparr>"

lemma mempool_admits_exactly_what_pays_witness:
  "\<exists>ut vt. unmined_tx_of (\<lambda>a b. (a + b - 1) div b) demo_hashing demo_auth demo_crypto demo_tx = Some ut \<and>
     verified_new (\<lambda>a b. (a + b - 1) div b) demo_crypto ut 0 0 0 [] = Some (Err UnpaidActions)"
proof -
  have c: "ceiling_documented (\<lambda>a b. (a + b - 1) div b)" by (simp add: ceiling_documented_def)
  obtain b where "read_transaction demo_crypto (b @ []) = Ok (demo_tx, [])"
    using codec.written [OF codec_limited_transaction [OF demo_bip34] demo_tx_facts(1)] by blast
  note mempool_admits_exactly_what_pays [OF demo_bip34 demo_hashing_ok c this order_refl MAX_MONEY_pos(2),
      of demo_auth 0 0 "[]"]
  then obtain ut n where "unmined_tx_of (\<lambda>a b. (a + b - 1) div b) demo_hashing demo_auth demo_crypto demo_tx = Some ut"
      "ut_conventional_fee ut = 5000 * int n" "2 \<le> n"
      "if 0 < ut_conventional_fee ut
       then verified_new (\<lambda>a b. (a + b - 1) div b) demo_crypto ut 0 0 0 [] = Some (Err UnpaidActions) else True"
    by auto
  then show ?thesis by auto
qed

end
