(* ===== verification/Address.thy ===== *)
theory Address
  imports Codec
begin

text \<open>
  Transparent addresses (\<open>transparent/address.rs\<close>, \<open>transparent/opcodes.rs\<close> of zebra-chain)
  and the kinds of network their prefixes tell apart (\<open>parameters/network.rs\<close>): their binary
  form, their text form and the script they stand for. Base58Check, Bech32 and the prefixes that
  \<open>zcash_protocol\<close> declares are parameters.
\<close>

section \<open>Kinds of network\<close>

datatype network_kind = MainnetKind | TestnetKind | RegtestKind

record address_ops =
  b58_check_encode :: "bytes \<Rightarrow> string"
  b58_check_decode :: "string \<Rightarrow> bytes option"
  bech32_decode :: "string \<Rightarrow> (string \<times> bytes) option"
  main_b58_pubkey_prefix :: bytes
  main_b58_script_prefix :: bytes
  test_b58_pubkey_prefix :: bytes
  test_b58_script_prefix :: bytes
  main_hrp_tex :: string
  test_hrp_tex :: string

fun b58_pubkey_address_prefix :: "address_ops \<Rightarrow> network_kind \<Rightarrow> bytes" where
  "b58_pubkey_address_prefix A MainnetKind = main_b58_pubkey_prefix A"
| "b58_pubkey_address_prefix A _ = test_b58_pubkey_prefix A"

fun b58_script_address_prefix :: "address_ops \<Rightarrow> network_kind \<Rightarrow> bytes" where
  "b58_script_address_prefix A MainnetKind = main_b58_script_prefix A"
| "b58_script_address_prefix A _ = test_b58_script_prefix A"

definition bip70_network_name :: "network_kind \<Rightarrow> string" where
  "bip70_network_name k = (if k = MainnetKind then ''main'' else ''test'')"

fun tex_address_prefix :: "network_kind \<Rightarrow> bytes" where
  "tex_address_prefix MainnetKind = [0x1c, 0xb8]"
| "tex_address_prefix _ = [0x1d, 0x25]"

fun display_network_kind :: "network_kind \<Rightarrow> string" where
  "display_network_kind MainnetKind = ''MainnetKind''"
| "display_network_kind TestnetKind = ''TestnetKind''"
| "display_network_kind RegtestKind = ''RegtestKind''"

section \<open>Addresses\<close>

datatype address =
    PayToScriptHash (network_kind: network_kind) bytes
  | PayToPublicKeyHash (network_kind: network_kind) bytes
  | Tex (network_kind: network_kind) bytes

fun hash_bytes :: "address \<Rightarrow> bytes" where
  "hash_bytes (PayToScriptHash _ script_hash) = script_hash"
| "hash_bytes (PayToPublicKeyHash _ pub_key_hash) = pub_key_hash"
| "hash_bytes (Tex _ validating_key_hash) = validating_key_hash"

fun is_script_hash :: "address \<Rightarrow> bool" where
  "is_script_hash (PayToScriptHash _ _) = True"
| "is_script_hash _ = False"

definition from_pub_key_hash :: "network_kind \<Rightarrow> bytes \<Rightarrow> address" where
  "from_pub_key_hash k h = PayToPublicKeyHash k h"

definition from_script_hash :: "network_kind \<Rightarrow> bytes \<Rightarrow> address" where
  "from_script_hash k h = PayToScriptHash k h"

definition from_tex :: "network_kind \<Rightarrow> bytes \<Rightarrow> address" where
  "from_tex k h = Tex k h"

text \<open>\<open>TryFrom<Address> for TransparentAddress\<close>; the target distinguishes only the two kinds of hash.\<close>

datatype transparent_address = ScriptHash bytes | PublicKeyHash bytes

fun transparent_address_of :: "address \<Rightarrow> (string, transparent_address) result" where
  "transparent_address_of (PayToScriptHash _ h) = Ok (ScriptHash h)"
| "transparent_address_of (PayToPublicKeyHash _ h) = Ok (PublicKeyHash h)"
| "transparent_address_of (Tex _ _) = Err ''TransparentAddress can't be a Tex address''"

section \<open>Binary form\<close>

fun write_address :: "address_ops \<Rightarrow> address writer" where
  "write_address A (PayToScriptHash k script_hash) =
     write_seq [write_all (b58_script_address_prefix A k), write_all script_hash]"
| "write_address A (PayToPublicKeyHash k pub_key_hash) =
     write_seq [write_all (b58_pubkey_address_prefix A k), write_all pub_key_hash]"
| "write_address A (Tex k validating_key_hash) =
     write_seq [write_all (tex_address_prefix k), write_all validating_key_hash]"

definition read_address :: "address_ops \<Rightarrow> address parser" where
  "read_address A =
     pbind (read_exact 2) (\<lambda>version_bytes.
     pbind (read_exact 20) (\<lambda>hash.
       if version_bytes = main_b58_script_prefix A then preturn (PayToScriptHash MainnetKind hash)
       else if version_bytes = test_b58_script_prefix A then preturn (PayToScriptHash TestnetKind hash)
       else if version_bytes = main_b58_pubkey_prefix A then preturn (PayToPublicKeyHash MainnetKind hash)
       else if version_bytes = test_b58_pubkey_prefix A then preturn (PayToPublicKeyHash TestnetKind hash)
       else pfail (Parse ''bad t-addr version/type'')))"

section \<open>Text form\<close>

definition display_address :: "address_ops \<Rightarrow> address \<Rightarrow> string" where
  "display_address A a =
     b58_check_encode A (case write_address A a of Ok b \<Rightarrow> b | Err _ \<Rightarrow> [])"

definition address_from_str :: "address_ops \<Rightarrow> string \<Rightarrow> (ser_error, address) result" where
  "address_from_str A s =
     (case b58_check_decode A s of
        Some data \<Rightarrow> map_sum id fst (read_address A data)
      | None \<Rightarrow>
          (case bech32_decode A s of
             None \<Rightarrow> Err (Parse ''invalid Bech32 encoding'')
           | Some (hrp, payload) \<Rightarrow>
               if length payload \<noteq> 20 then Err (Parse ''unexpected payload length'')
               else if hrp = main_hrp_tex A then Ok (Tex MainnetKind payload)
               else if hrp = test_hrp_tex A then Ok (Tex TestnetKind payload)
               else Err (Parse ''unknown Bech32 HRP'')))"

section \<open>Scripts\<close>

datatype op_code = OpEqual | Hash160 | Push20Bytes | Dup | EqualVerify | CheckSig

fun op_byte :: "op_code \<Rightarrow> byte" where
  "op_byte OpEqual = 0x87"
| "op_byte Hash160 = 0xa9"
| "op_byte Push20Bytes = 0x14"
| "op_byte Dup = 0x76"
| "op_byte EqualVerify = 0x88"
| "op_byte CheckSig = 0xac"

fun address_script :: "address \<Rightarrow> bytes" where
  "address_script (PayToScriptHash k h) =
     [op_byte Hash160, op_byte Push20Bytes] @ h @ [op_byte OpEqual]"
| "address_script (PayToPublicKeyHash k h) =
     [op_byte Dup, op_byte Hash160, op_byte Push20Bytes] @ h @ [op_byte EqualVerify, op_byte CheckSig]"
| "address_script (Tex _ _) = []"

section \<open>What the code relies on\<close>

text \<open>
  Base58Check decodes what it encoded, and \<open>zcash_protocol\<close> declares the prefixes of the
  protocol specification.
\<close>

definition address_ops_documented :: "address_ops \<Rightarrow> bool" where
  "address_ops_documented A \<longleftrightarrow>
     (\<forall>b. b58_check_decode A (b58_check_encode A b) = Some b) \<and>
     main_b58_pubkey_prefix A = [0x1c, 0xb8] \<and> main_b58_script_prefix A = [0x1c, 0xbd] \<and>
     test_b58_pubkey_prefix A = [0x1d, 0x25] \<and> test_b58_script_prefix A = [0x1c, 0xba]"

definition demo_address_ops :: address_ops where
  "demo_address_ops =
     \<lparr>b58_check_encode = map (\<lambda>b. char_of (unat b)),
      b58_check_decode = (\<lambda>s. Some (map (\<lambda>c. word_of_nat (of_char c)) s)),
      bech32_decode = (\<lambda>_. None),
      main_b58_pubkey_prefix = [0x1c, 0xb8], main_b58_script_prefix = [0x1c, 0xbd],
      test_b58_pubkey_prefix = [0x1d, 0x25], test_b58_script_prefix = [0x1c, 0xba],
      main_hrp_tex = ''tex'', test_hrp_tex = ''textest''\<rparr>"

lemma demo_address_ops_documented: "address_ops_documented demo_address_ops"
proof -
  have "unat b mod 256 = unat b" for b :: byte
    using unsigned_less [of b] by (intro mod_less) simp
  then show ?thesis
    by (simp add: address_ops_documented_def demo_address_ops_def comp_def)
qed

section \<open>Reading back\<close>

text \<open>What is left of an address in its text: neither Regtest nor the TEX type has a prefix of its own.\<close>

fun parsed_kind :: "network_kind \<Rightarrow> network_kind" where
  "parsed_kind MainnetKind = MainnetKind" | "parsed_kind _ = TestnetKind"

fun reparsed :: "address \<Rightarrow> address" where
  "reparsed (PayToScriptHash k h) = PayToScriptHash (parsed_kind k) h"
| "reparsed (PayToPublicKeyHash k h) = PayToPublicKeyHash (parsed_kind k) h"
| "reparsed (Tex k h) = PayToPublicKeyHash (parsed_kind k) h"

definition prefixed :: "address_ops \<Rightarrow> address \<Rightarrow> bytes" where
  "prefixed A a = (case a of
      PayToScriptHash k h \<Rightarrow> b58_script_address_prefix A k @ h
    | PayToPublicKeyHash k h \<Rightarrow> b58_pubkey_address_prefix A k @ h
    | Tex k h \<Rightarrow> tex_address_prefix k @ h)"

lemma write_address_total: "write_address A a = Ok (prefixed A a)"
  by (cases a) (simp_all add: write_all_def prefixed_def)

lemma read_address_Ok_iff:
  assumes "address_ops_documented A"
  shows "read_address A bs = Ok (a, rest) \<longleftrightarrow>
     length (hash_bytes a) = 20 \<and> reparsed a = a \<and> bs = prefixed A a @ rest"
proof
  assume "read_address A bs = Ok (a, rest)"
  then show "length (hash_bytes a) = 20 \<and> reparsed a = a \<and> bs = prefixed A a @ rest"
    using assms
    by (auto simp: read_address_def pbind_Ok_iff read_exact_Ok_iff prefixed_def address_ops_documented_def
        split: if_splits)
next
  assume "length (hash_bytes a) = 20 \<and> reparsed a = a \<and> bs = prefixed A a @ rest"
  then show "read_address A bs = Ok (a, rest)"
    using assms
    by (cases a; cases "network_kind a")
       (auto simp: read_address_def pbind_def read_exact_def preturn_def prefixed_def address_ops_documented_def)
qed

lemma reparsed_idem: "reparsed (reparsed a) = reparsed a"
  by (cases a; cases "network_kind a") simp_all

lemma prefixed_reparsed:
  "address_ops_documented A \<Longrightarrow> prefixed A (reparsed a) = prefixed A a"
  by (cases a; cases "network_kind a") (simp_all add: prefixed_def address_ops_documented_def)

lemma hash_bytes_reparsed [simp]: "hash_bytes (reparsed a) = hash_bytes a"
  by (cases a) simp_all

lemma read_written_address:
  assumes "address_ops_documented A" "length (hash_bytes a) = 20"
  shows "read_address A (prefixed A a @ rest) = Ok (reparsed a, rest)"
  using assms by (simp add: read_address_Ok_iff reparsed_idem prefixed_reparsed)

lemma display_address_text: "display_address A a = b58_check_encode A (prefixed A a)"
  by (simp add: display_address_def write_address_total)

lemma address_from_str_b58_iff:
  assumes "address_ops_documented A" "b58_check_decode A s = Some data"
  shows "address_from_str A s = Ok a \<longleftrightarrow>
     length (hash_bytes a) = 20 \<and> reparsed a = a \<and> (\<exists>rest. data = prefixed A a @ rest)"
proof -
  have "address_from_str A s = Ok a \<longleftrightarrow> (\<exists>rest. read_address A data = Ok (a, rest))"
    using assms(2) by (auto simp: address_from_str_def map_sum_Ok_iff)
  then show ?thesis by (auto simp only: read_address_Ok_iff [OF assms(1)])
qed

lemma reparsed_fixed_iff:
  "reparsed a = a \<longleftrightarrow> network_kind a \<noteq> RegtestKind \<and> (\<forall>k h. a \<noteq> Tex k h)"
  by (cases a; cases "network_kind a") auto

lemma reparsed_of_same_text:
  assumes "address_ops_documented A" "length (hash_bytes a) = 20" "length (hash_bytes b) = 20"
    "display_address A a = display_address A b"
  shows "reparsed a = reparsed b"
proof -
  have "prefixed A a = prefixed A b"
    using assms(1,4) by (metis address_ops_documented_def display_address_text option.inject)
  then show ?thesis
    using read_written_address [OF assms(1,2), of "[]"] read_written_address [OF assms(1,3), of "[]"] by simp
qed

section \<open>Properties\<close>

text \<open>
  C36. The text form of a transparent address, with Base58Check and the prefixes as documented: every
  address with a 20-byte hash is written, and its text parses; what is parsed has the same hash and
  the same binary form, and is the address itself exactly when that is a P2SH or P2PKH address of
  Mainnet or Testnet. A Regtest address comes back as a Testnet address. A TEX address comes back as
  the P2PKH address of the same key hash, the very type it exists to be told apart from, and then has
  a script where it had none. Two addresses have the same text only if they are the same up to that.
\<close>
theorem displayed_addresses_parse_back:
  assumes "address_ops_documented A" "length (hash_bytes a) = 20"
  shows "address_from_str A (display_address A a) = Ok (reparsed a)
    \<and> hash_bytes (reparsed a) = hash_bytes a
    \<and> write_address A (reparsed a) = write_address A a
    \<and> (reparsed a = a \<longleftrightarrow> network_kind a \<noteq> RegtestKind \<and> (\<forall>k h. a \<noteq> Tex k h))
    \<and> (\<forall>k h. a = Tex k h \<longrightarrow> is_script_hash (reparsed a) = is_script_hash a
         \<and> address_script a = [] \<and> address_script (reparsed a) \<noteq> [])
    \<and> (\<forall>b. length (hash_bytes b) = 20 \<and> display_address A b = display_address A a
         \<longrightarrow> reparsed b = reparsed a)"
proof (intro conjI allI impI)
  have "b58_check_decode A (display_address A a) = Some (prefixed A a)"
    using assms(1) by (simp add: display_address_text address_ops_documented_def)
  then show "address_from_str A (display_address A a) = Ok (reparsed a)"
    by (simp add: address_from_str_b58_iff [OF assms(1)] assms reparsed_idem prefixed_reparsed)
  show "reparsed a = a \<longleftrightarrow> network_kind a \<noteq> RegtestKind \<and> (\<forall>k h. a \<noteq> Tex k h)"
    by (rule reparsed_fixed_iff)
  show "reparsed b = reparsed a" if "length (hash_bytes b) = 20 \<and> display_address A b = display_address A a" for b
    using reparsed_of_same_text [OF assms(1) _ assms(2)] that by blast
qed (use assms in \<open>auto simp: write_address_total prefixed_reparsed\<close>)

theorem displayed_addresses_parse_back_witness:
  "\<exists>A. address_from_str A (display_address A (Tex MainnetKind (replicate 20 7)))
     = Ok (PayToPublicKeyHash MainnetKind (replicate 20 7))"
  using displayed_addresses_parse_back [OF demo_address_ops_documented, of "Tex MainnetKind (replicate 20 7)"]
  by auto

end
