(* ===== verification/Checkpoints.thy ===== *)
theory Checkpoints
  imports Upgrades Codec
begin

text \<open>
  Checkpoint lists (\<open>parameters/checkpoint/list.rs\<close> of zebra-chain), the text form they are
  read from, and the parsers of block heights (\<open>block/height.rs\<close>) and block hashes
  (\<open>block/hash.rs\<close>) that form uses. A \<open>BTreeMap\<close> is an association list in increasing key
  order; the \<open>hex\<close> crate's decoder into a 32-byte array is the parameter \<open>hx\<close>.
\<close>

section \<open>Heights and hashes as text\<close>

definition height_from_str :: "string \<Rightarrow> (ser_error, height) result" where
  "height_from_str s =
     (case parse_unsigned (2 ^ 32) s of
        Some h \<Rightarrow> (if Height (word_of_nat h) \<le> HEIGHT_MAX then Ok (Height (word_of_nat h))
                   else Err (Parse ''Height exceeds maximum height''))
      | None \<Rightarrow> Err (Parse ''Height(u32) integer parse error''))"

text \<open>\<open>from_hex\<close>, then \<open>from_bytes_in_display_order\<close>, which reverses.\<close>

definition block_hash_from_str :: "(string \<Rightarrow> (string, bytes) result) \<Rightarrow> string \<Rightarrow> (ser_error, bytes) result" where
  "block_hash_from_str hx s =
     (case hx s of Ok b \<Rightarrow> Ok (rev b) | Err e \<Rightarrow> Err (FromHexError e))"

section \<open>Lines and fields\<close>

text \<open>\<open>str::split\<close> on a character, and \<open>str::lines\<close>.\<close>

fun split_on :: "char \<Rightarrow> string \<Rightarrow> string list" where
  "split_on c [] = [[]]"
| "split_on c (x # xs) =
     (if x = c then [] # split_on c xs
      else (case split_on c xs of p # ps \<Rightarrow> (x # p) # ps | [] \<Rightarrow> [[x]]))"

definition strip_cr :: "string \<Rightarrow> string" where
  "strip_cr l = (if l \<noteq> [] \<and> last l = CHR 0x0D then butlast l else l)"

definition str_lines :: "string \<Rightarrow> string list" where
  "str_lines s =
     (let ps = split_on (CHR 0x0A) s
      in map strip_cr (butlast ps) @ (if last ps = [] then [] else [last ps]))"

section \<open>Checkpoint lists\<close>

type_synonym checkpoint_list = "(height \<times> bytes) list"

datatype box_error = Boxed ser_error | Message string

text \<open>The error text names the number of fields and repeats the line.\<close>

definition checkpoint_height_and_hash ::
    "(string \<Rightarrow> (string, bytes) result) \<Rightarrow> string \<Rightarrow> (box_error, height \<times> bytes) result" where
  "checkpoint_height_and_hash hx checkpoint =
     (let fields = split_on (CHR '' '') checkpoint
      in case fields of
           [h, hash] \<Rightarrow>
             result_bind (map_err Boxed (height_from_str h)) (\<lambda>h'.
             result_bind (map_err Boxed (block_hash_from_str hx hash)) (\<lambda>hash'. Ok (h', hash')))
         | _ \<Rightarrow> Err (Message
             (''Invalid checkpoint format: expected 2 space-separated fields but found '' @
              show_nat (length fields) @ '': '' @ [CHR 0x27] @ checkpoint @ [CHR 0x27])))"

text \<open>\<open>max_height_in_range(..)\<close>; \<open>None\<close> is the panic of its \<open>expect\<close>.\<close>

definition max_height :: "checkpoint_list \<Rightarrow> height option" where
  "max_height cl = (if cl = [] then None else Some (fst (last cl)))"

definition null_hash :: bytes where "null_hash = replicate 32 0"

definition checkpoints_from_list :: "(height \<times> bytes) list \<Rightarrow> (box_error, checkpoint_list) result" where
  "checkpoints_from_list original_checkpoints =
     (let original_len = length original_checkpoints;
          checkpoints = btree_of original_checkpoints;
          block_hashes = set (map snd checkpoints)
      in case checkpoints of
           [] \<Rightarrow> Err (Message ''there must be at least one checkpoint, for the genesis block'')
         | (first, _) # _ \<Rightarrow>
             if first \<noteq> Height 0 then Err (Message ''checkpoints must start at the genesis block height 0'')
             else if length checkpoints \<noteq> original_len then Err (Message ''checkpoint heights must be unique'')
             else if card block_hashes \<noteq> original_len then Err (Message ''checkpoint hashes must be unique'')
             else if null_hash \<in> block_hashes then
               Err (Message ''checkpoint list contains invalid checkpoint hash: found null hash'')
             else if (case max_height checkpoints of Some m \<Rightarrow> m > HEIGHT_MAX | None \<Rightarrow> True) then
               Err (Message ''checkpoint list contains invalid checkpoint: checkpoint height is greater than the maximum block height'')
             else Ok checkpoints)"

fun parse_lines ::
    "(string \<Rightarrow> (string, bytes) result) \<Rightarrow> string list \<Rightarrow> (box_error, (height \<times> bytes) list) result" where
  "parse_lines hx [] = Ok []"
| "parse_lines hx (l # ls) =
     result_bind (checkpoint_height_and_hash hx l) (\<lambda>c.
     result_bind (parse_lines hx ls) (\<lambda>cs. Ok (c # cs)))"

definition checkpoints_from_str ::
    "(string \<Rightarrow> (string, bytes) result) \<Rightarrow> string \<Rightarrow> (box_error, checkpoint_list) result" where
  "checkpoints_from_str hx s = result_bind (parse_lines hx (str_lines s)) checkpoints_from_list"

definition checkpoints_contains :: "checkpoint_list \<Rightarrow> height \<Rightarrow> bool" where
  "checkpoints_contains cl h = (h \<in> fst ` set cl)"

definition checkpoints_hash :: "checkpoint_list \<Rightarrow> height \<Rightarrow> bytes option" where
  "checkpoints_hash cl h = map_of cl h"

text \<open>A range of heights is the predicate of being in it.\<close>

definition min_height_in_range :: "checkpoint_list \<Rightarrow> (height \<Rightarrow> bool) \<Rightarrow> height option" where
  "min_height_in_range cl P = (case filter (\<lambda>c. P (fst c)) cl of [] \<Rightarrow> None | c # _ \<Rightarrow> Some (fst c))"

definition max_height_in_range :: "checkpoint_list \<Rightarrow> (height \<Rightarrow> bool) \<Rightarrow> height option" where
  "max_height_in_range cl P =
     (let cs = filter (\<lambda>c. P (fst c)) cl in if cs = [] then None else Some (fst (last cs)))"

text \<open>\<open>keys().rposition(|key| key <= height)\<close>; \<open>None\<close> is the panic of its \<open>expect\<close>.\<close>

fun rposition :: "('a \<Rightarrow> bool) \<Rightarrow> 'a list \<Rightarrow> nat option" where
  "rposition P [] = None"
| "rposition P (x # xs) =
     (case rposition P xs of Some i \<Rightarrow> Some (Suc i) | None \<Rightarrow> if P x then Some 0 else None)"

definition prev_checkpoint_index :: "checkpoint_list \<Rightarrow> height \<Rightarrow> nat option" where
  "prev_checkpoint_index cl h = rposition (\<lambda>key. key \<le> h) (map fst cl)"

section \<open>Maps ordered by key\<close>

lemma btree_insert_keys [simp]: "fst ` set (btree_insert k v m) = insert k (fst ` set m)"
  by (induction m rule: btree_insert.induct [where ?a0.0 = k and ?a1.0 = v]) auto

lemma btree_insert_sorted:
  "sorted_wrt (<) (map fst m) \<Longrightarrow> sorted_wrt (<) (map fst (btree_insert k v m))"
proof (induction k v m rule: btree_insert.induct)
  case (2 k v k' v' xs)
  have keys: "\<forall>y\<in>fst ` set (btree_insert k v xs). k' < y" if "k' < k"
    using 2 that by auto
  show ?case
  proof (cases "k < k' \<or> k = k'")
    case True
    with 2 show ?thesis by (auto intro: less_trans)
  next
    case False
    then have "k' < k" by auto
    with keys 2 False show ?thesis by auto
  qed
qed simp

lemma map_of_btree_insert:
  "sorted_wrt (<) (map fst m) \<Longrightarrow> map_of (btree_insert k v m) = (map_of m)(k \<mapsto> v)"
proof (induction k v m rule: btree_insert.induct)
  case (2 k v k' v' xs)
  then show ?case by (cases "k < k'"; cases "k = k'") (auto simp: fun_eq_iff)
qed (simp add: fun_eq_iff)

lemma btree_fold:
  assumes "sorted_wrt (<) (map fst m)"
  shows "sorted_wrt (<) (map fst (fold (\<lambda>(k, v) m. btree_insert k v m) xs m))
    \<and> map_of (fold (\<lambda>(k, v) m. btree_insert k v m) xs m) = map_of m ++ map_of (rev xs)"
  using assms
proof (induction xs arbitrary: m)
  case (Cons x xs)
  obtain k v where x: "x = (k, v)" by (cases x)
  have "map_of (btree_insert k v m) ++ map_of (rev xs) = map_of m ++ map_of (rev (x # xs))"
    by (simp add: x map_of_btree_insert [OF Cons.prems] map_of_append map_add_assoc [symmetric])
  with Cons.IH [OF btree_insert_sorted [OF Cons.prems, of k v]] show ?case by (simp add: x)
qed simp

lemma btree_of_sorted: "sorted_wrt (<) (map fst (btree_of xs))"
  and map_of_btree_of: "map_of (btree_of xs) = map_of (rev xs)"
  using btree_fold [of "[]" xs] by (simp_all add: btree_of_def)

lemma btree_of_distinct: "distinct (map fst (btree_of xs))"
  using btree_of_sorted [of xs] strict_sorted_iff by blast

lemma btree_of_keys: "fst ` set (btree_of xs) = fst ` set xs"
  by (metis dom_map_of_conv_image_fst map_of_btree_of set_rev)

lemma length_btree_of: "length (btree_of xs) = card (fst ` set xs)"
  by (metis btree_of_distinct btree_of_keys distinct_card length_map list.set_map)

lemma length_btree_of_iff: "length (btree_of xs) = length xs \<longleftrightarrow> distinct (map fst xs)"
  by (metis card_distinct distinct_card length_btree_of length_map list.set_map)

lemma set_btree_of:
  assumes "distinct (map fst xs)"
  shows "set (btree_of xs) = set xs"
proof -
  have "(k, v) \<in> set (btree_of xs) \<longleftrightarrow> (k, v) \<in> set xs" for k v
    using assms btree_of_distinct [of xs]
    by (metis distinct_rev map_of_btree_of map_of_eq_Some_iff rev_map set_rev)
  then show ?thesis by auto
qed

section \<open>What a list accepts\<close>

definition sound_checkpoints :: "(height \<times> bytes) list \<Rightarrow> bool" where
  "sound_checkpoints xs \<longleftrightarrow>
     Height 0 \<in> fst ` set xs \<and> distinct (map fst xs) \<and> distinct (map snd xs)
     \<and> null_hash \<notin> snd ` set xs \<and> filter (\<lambda>c. fst c > HEIGHT_MAX) xs = []"

lemma least_height: "Height 0 \<le> h"
  by (simp add: less_eq_height_def)

lemma first_key_zero_iff:
  assumes "sorted_wrt (<) (map fst m)"
  shows "(\<exists>v r. m = (Height 0, v) # r) \<longleftrightarrow> Height 0 \<in> fst ` set m"
proof (cases m)
  case (Cons x r)
  have "\<not> fst x < Height 0" using least_height by (simp add: not_less)
  then show ?thesis using Cons assms by (cases x) auto
qed simp

lemma last_key_greatest:
  fixes m :: "('k::linorder \<times> 'v) list"
  shows "sorted_wrt (<) (map fst m) \<Longrightarrow> m \<noteq> [] \<Longrightarrow> c \<in> set m \<Longrightarrow> fst c \<le> fst (last m)"
proof (induction m)
  case (Cons x m)
  then show ?case
  proof (cases "m = []")
    case False
    then have "fst x \<le> fst (last m)" using Cons.prems by - (rule less_imp_le, simp)
    with Cons False show ?thesis by (cases "c = x") (simp, simp)
  qed (use Cons.prems in simp)
qed simp

lemma max_height_bound_iff:
  assumes "sorted_wrt (<) (map fst m)" "m \<noteq> []"
  shows "fst (last m) > HEIGHT_MAX \<longleftrightarrow> (\<exists>c\<in>set m. fst c > HEIGHT_MAX)"
  using last_key_greatest [OF assms] last_in_set [OF assms(2)] by (meson less_le_trans)

lemma card_hashes_iff:
  assumes "distinct (map fst xs)"
  shows "card (set (map snd (btree_of xs))) = length xs \<longleftrightarrow> distinct (map snd xs)"
proof -
  have "set (map snd (btree_of xs)) = set (map snd xs)" using set_btree_of [OF assms] by simp
  then show ?thesis by (metis card_distinct distinct_card length_map)
qed

lemma checkpoints_from_list_Ok_iff:
  "checkpoints_from_list xs = Ok cl \<longleftrightarrow> sound_checkpoints xs \<and> cl = btree_of xs"
proof (cases "distinct (map fst xs) \<and> Height 0 \<in> fst ` set xs")
  case True
  then obtain v r where m: "btree_of xs = (Height 0, v) # r"
    using first_key_zero_iff [OF btree_of_sorted [of xs]] btree_of_keys [of xs] by auto
  have "null_hash \<in> set (map snd (btree_of xs)) \<longleftrightarrow> null_hash \<in> snd ` set xs"
    using True set_btree_of [of xs] by simp
  moreover have "fst (last (btree_of xs)) > HEIGHT_MAX \<longleftrightarrow> filter (\<lambda>c. fst c > HEIGHT_MAX) xs \<noteq> []"
    using max_height_bound_iff [OF btree_of_sorted [of xs]] True set_btree_of [of xs] m
    by (metis filter_empty_conv list.distinct(1))
  moreover have "length (btree_of xs) = length xs" using True length_btree_of_iff by blast
  ultimately show ?thesis
    using True m card_hashes_iff [of xs]
    by (auto simp: checkpoints_from_list_def sound_checkpoints_def max_height_def Let_def)
next
  case False
  have "\<not> (\<exists>v r. btree_of xs = (Height 0, v) # r) \<or> length (btree_of xs) \<noteq> length xs"
    using False first_key_zero_iff [OF btree_of_sorted [of xs]] btree_of_keys [of xs]
      length_btree_of_iff [of xs] by auto
  then show ?thesis
    using False
    by (auto simp: checkpoints_from_list_def sound_checkpoints_def Let_def split: list.splits if_splits)
qed

lemma checkpoints_from_list_total:
  "(\<exists>cl. checkpoints_from_list xs = Ok cl) \<or> (\<exists>m. checkpoints_from_list xs = Err (Message m))"
  by (auto simp: checkpoints_from_list_def Let_def split: list.splits)

section \<open>Queries\<close>

lemma rposition_Some_iff:
  "rposition P xs = Some i \<longleftrightarrow> i < length xs \<and> P (xs ! i) \<and> (\<forall>j. i < j \<and> j < length xs \<longrightarrow> \<not> P (xs ! j))"
proof (induction xs arbitrary: i)
  case (Cons x xs)
  have none: "rposition P xs = None \<longleftrightarrow> (\<forall>j<length xs. \<not> P (xs ! j))"
    by (induction xs) (force simp: nth_Cons' less_Suc_eq_0_disj split: option.splits)+
  show ?case
  proof (cases "rposition P xs")
    case None
    with none show ?thesis by (cases i) (auto simp: nth_Cons' less_Suc_eq_0_disj)
  next
    case (Some k)
    with Cons [of k] have k: "k < length xs" "P (xs ! k)" "\<forall>j. k < j \<and> j < length xs \<longrightarrow> \<not> P (xs ! j)" by auto
    show ?thesis
    proof (cases i)
      case 0
      with Some k show ?thesis by auto
    next
      case (Suc i')
      with Some Cons [of i'] show ?thesis
        by (auto simp: nth_Cons' less_Suc_eq_0_disj)
    qed
  qed
qed simp

lemma rposition_exists:
  assumes "i < length xs" "P (xs ! i)"
  shows "\<exists>j. rposition P xs = Some j"
  using assms
proof (induction xs arbitrary: i)
  case (Cons x xs)
  then show ?case by (cases i) (fastforce split: option.splits)+
qed simp

lemma prev_checkpoint_exists:
  assumes "sound_checkpoints xs" "sorted_wrt (<) (map fst cl)" "set cl = set xs"
  shows "\<exists>i. prev_checkpoint_index cl h = Some i"
proof -
  obtain v where "(Height 0, v) \<in> set cl" using assms(1,3) by (auto simp: sound_checkpoints_def)
  then obtain i where i: "i < length cl" "cl ! i = (Height 0, v)" by (meson in_set_conv_nth)
  then have "i < length (map fst cl) \<and> map fst cl ! i \<le> h" using least_height by simp
  then show ?thesis unfolding prev_checkpoint_index_def by (intro rposition_exists [of i]) auto
qed

lemma max_height_is_greatest:
  assumes "sorted_wrt (<) (map fst cl)" "cl \<noteq> []"
  shows "\<exists>m. max_height cl = Some m \<and> m \<in> fst ` set cl \<and> (\<forall>c\<in>set cl. fst c \<le> m)"
  using assms last_key_greatest [OF assms] last_in_set [OF assms(2)] by (auto simp: max_height_def)

section \<open>Text\<close>

definition checkpoint_line :: "(bytes \<Rightarrow> string) \<Rightarrow> height \<times> bytes \<Rightarrow> string" where
  "checkpoint_line wr c = show_nat (unat (height_u32 (fst c))) @ '' '' @ wr (rev (snd c))"

definition checkpoint_text :: "(bytes \<Rightarrow> string) \<Rightarrow> (height \<times> bytes) list \<Rightarrow> string" where
  "checkpoint_text wr cs = concat (map (\<lambda>c. checkpoint_line wr c @ [CHR 0x0A]) cs)"

text \<open>The crate decodes what it encodes, and an encoding is never empty and made of hexadecimal digits.\<close>

definition hex32_documented :: "(bytes \<Rightarrow> string) \<Rightarrow> (string \<Rightarrow> (string, bytes) result) \<Rightarrow> bool" where
  "hex32_documented wr hx \<longleftrightarrow> (\<forall>b. length b = 32 \<longrightarrow> hx (wr b) = Ok b) \<and>
     (\<forall>b. list_all (\<lambda>c. c \<noteq> CHR '' '' \<and> c \<noteq> CHR 0x0A \<and> c \<noteq> CHR 0x0D) (wr b))"

lemma split_on_free: "list_all (\<lambda>x. x \<noteq> c) s \<Longrightarrow> split_on c s = [s]"
  by (induction s) auto

lemma split_on_not_Nil: "split_on c s \<noteq> []"
  by (induction s) (auto split: list.splits)

lemma split_on_append: "list_all (\<lambda>x. x \<noteq> c) s \<Longrightarrow> split_on c (s @ c # t) = s # split_on c t"
  by (induction s) auto

lemma digit_not_blank: "is_digit c \<Longrightarrow> c \<noteq> CHR '' '' \<and> c \<noteq> CHR 0x0A \<and> c \<noteq> CHR 0x0D"
  by (auto simp: is_digit_def Let_def)

lemma show_nat_no_blank:
  "list_all (\<lambda>c. c \<noteq> CHR '' '' \<and> c \<noteq> CHR 0x0A \<and> c \<noteq> CHR 0x0D) (show_nat n)"
  using show_nat_digits [of n] digit_not_blank by (auto simp: list_all_iff)

lemma checkpoint_line_parses:
  assumes "hex32_documented wr hx" "length (snd c) = 32" "fst c \<le> HEIGHT_MAX"
  shows "checkpoint_height_and_hash hx (checkpoint_line wr c) = Ok c"
proof -
  let ?h = "show_nat (unat (height_u32 (fst c)))"
  have "split_on (CHR '' '') (checkpoint_line wr c) = ?h # split_on (CHR '' '') (wr (rev (snd c)))"
    using split_on_append [of "CHR '' ''" ?h] show_nat_no_blank [of "unat (height_u32 (fst c))"]
    by (simp add: checkpoint_line_def list_all_iff)
  also have "split_on (CHR '' '') (wr (rev (snd c))) = [wr (rev (snd c))]"
    using assms(1) by (intro split_on_free) (auto simp: hex32_documented_def list_all_iff)
  finally have fields: "split_on (CHR '' '') (checkpoint_line wr c) = [?h, wr (rev (snd c))]" .
  have "unat (height_u32 (fst c)) < 2 ^ 32" using unsigned_less [of "height_u32 (fst c)"] by simp
  then have "height_from_str ?h = Ok (fst c)"
    using assms(3) by (simp add: height_from_str_def parse_show_nat)
  moreover have "block_hash_from_str hx (wr (rev (snd c))) = Ok (snd c)"
    using assms(1,2) by (simp add: block_hash_from_str_def hex32_documented_def)
  ultimately show ?thesis by (simp add: checkpoint_height_and_hash_def Let_def fields)
qed

lemma list_all_weaken: "list_all P xs \<Longrightarrow> (\<And>x. P x \<Longrightarrow> Q x) \<Longrightarrow> list_all Q xs"
  by (simp add: list_all_iff)

lemma checkpoint_line_plain:
  assumes "hex32_documented wr hx"
  shows "list_all (\<lambda>x. x \<noteq> CHR 0x0A \<and> x \<noteq> CHR 0x0D) (checkpoint_line wr c)"
proof -
  have "list_all (\<lambda>x. x \<noteq> CHR 0x0A \<and> x \<noteq> CHR 0x0D) (wr (rev (snd c)))"
    using assms by (simp add: hex32_documented_def list_all_iff)
  moreover have "list_all (\<lambda>x. x \<noteq> CHR 0x0A \<and> x \<noteq> CHR 0x0D) (show_nat (unat (height_u32 (fst c))))"
    by (rule list_all_weaken [OF show_nat_no_blank]) simp
  ultimately show ?thesis by (simp add: checkpoint_line_def)
qed

lemma strip_cr_free:
  assumes "list_all (\<lambda>x. x \<noteq> CHR 0x0D) l"
  shows "strip_cr l = l"
proof -
  have "l = [] \<or> last l \<noteq> CHR 0x0D"
    using assms last_in_set [of l] unfolding list_all_iff by blast
  then have "\<not> (l \<noteq> [] \<and> last l = CHR 0x0D)" by blast
  then show ?thesis unfolding strip_cr_def by (rule if_not_P)
qed

lemma strip_cr_line:
  assumes "hex32_documented wr hx"
  shows "strip_cr (checkpoint_line wr c) = checkpoint_line wr c"
  by (rule strip_cr_free, rule list_all_weaken [OF checkpoint_line_plain [OF assms]]) simp

lemma split_text:
  assumes "hex32_documented wr hx"
  shows "split_on (CHR 0x0A) (checkpoint_text wr cs) = map (checkpoint_line wr) cs @ [[]]"
proof (induction cs)
  case (Cons c cs)
  have "list_all (\<lambda>x. x \<noteq> CHR 0x0A) (checkpoint_line wr c)"
    by (rule list_all_weaken [OF checkpoint_line_plain [OF assms]]) simp
  from split_on_append [OF this, of "checkpoint_text wr cs"] Cons show ?case
    by (simp add: checkpoint_text_def)
qed (simp add: checkpoint_text_def)

lemma checkpoint_text_parses:
  assumes "hex32_documented wr hx" "list_all (\<lambda>c. length (snd c) = 32 \<and> fst c \<le> HEIGHT_MAX) cs"
  shows "checkpoints_from_str hx (checkpoint_text wr cs) = checkpoints_from_list cs"
proof -
  have "str_lines (checkpoint_text wr cs) = map (checkpoint_line wr) cs"
    by (simp add: str_lines_def Let_def split_text [OF assms(1)] strip_cr_line [OF assms(1)] comp_def)
  moreover have "parse_lines hx (map (checkpoint_line wr) cs) = Ok cs"
    using assms(2) by (induction cs) (simp_all add: checkpoint_line_parses [OF assms(1)])
  ultimately show ?thesis by (simp add: checkpoints_from_str_def)
qed

lemma btree_insert_last:
  "\<forall>k'\<in>fst ` set m. k' < k \<Longrightarrow> btree_insert k v m = m @ [(k, v)]"
  by (induction k v m rule: btree_insert.induct) (auto simp: not_less_iff_gr_or_eq)

lemma btree_of_sorted_id:
  assumes "sorted_wrt (<) (map fst m)"
  shows "btree_of m = m"
  using assms
proof (induction m rule: rev_induct)
  case (snoc x m)
  then have "btree_of (m @ [x]) = btree_insert (fst x) (snd x) m"
    by (simp add: btree_of_def sorted_wrt_append split_beta)
  also have "\<dots> = m @ [x]"
    using snoc.prems by (subst btree_insert_last) (auto simp: sorted_wrt_append)
  finally show ?case .
qed (simp add: btree_of_def)

lemma sound_list_is_fixed:
  assumes "sound_checkpoints xs" "cl = btree_of xs"
  shows "checkpoints_from_list cl = Ok cl"
proof -
  have keys: "distinct (map fst xs)" using assms(1) by (simp add: sound_checkpoints_def)
  have set: "set cl = set xs" using set_btree_of [OF keys] assms(2) by simp
  have sorted: "sorted_wrt (<) (map fst cl)" unfolding assms(2) by (rule btree_of_sorted)
  have len: "length cl = length xs" using length_btree_of_iff keys assms(2) by blast
  have "distinct (map snd cl)"
    using card_hashes_iff [OF keys] assms len by (metis card_distinct length_map sound_checkpoints_def)
  moreover have "distinct (map fst cl)" using btree_of_distinct assms(2) by blast
  ultimately have "sound_checkpoints cl"
    using assms(1) set by (simp add: sound_checkpoints_def filter_empty_conv)
  then show ?thesis by (simp add: checkpoints_from_list_Ok_iff btree_of_sorted_id [OF sorted])
qed

section \<open>Properties\<close>

lemma sound_checkpoints_iff:
  "sound_checkpoints xs \<longleftrightarrow> distinct (map fst xs) \<and> distinct (map snd xs) \<and> null_hash \<notin> snd ` set xs
     \<and> Height 0 \<in> fst ` set xs \<and> list_all (\<lambda>c. fst c \<le> HEIGHT_MAX) xs"
  by (auto simp: sound_checkpoints_def filter_empty_conv list_all_iff not_less)

text \<open>
  A checkpoint list is a map between heights and hashes in both directions, and it answers every
  query without a panic. A list of pairs is accepted exactly when it has a genesis checkpoint, no
  height and no hash twice, no null hash and no height above the maximum; what is built holds exactly
  those pairs, in increasing order. Then a lookup gives the hash of a height exactly when the pair
  was listed, the maximum height is the greatest one listed, and the index of the checkpoint at or
  before a height is the one whose height does not exceed it while the next one's does. With the
  \<open>hex\<close> crate as documented, a sound list written out, one checkpoint a line, is read back.
\<close>
theorem checkpoint_list_is_a_sound_map:
  assumes "hex32_documented wr hx" "list_all (\<lambda>c. length (snd c) = 32) xs"
  shows "(is_ok (checkpoints_from_list xs) \<longleftrightarrow>
        distinct (map fst xs) \<and> distinct (map snd xs) \<and> null_hash \<notin> snd ` set xs
        \<and> Height 0 \<in> fst ` set xs \<and> list_all (\<lambda>c. fst c \<le> HEIGHT_MAX) xs)
    \<and> (\<forall>cl. checkpoints_from_list xs = Ok cl \<longrightarrow>
        sorted_wrt (<) (map fst cl) \<and> set cl = set xs
        \<and> checkpoints_from_str hx (checkpoint_text wr xs) = Ok cl
        \<and> checkpoints_from_str hx (checkpoint_text wr cl) = Ok cl
        \<and> (\<forall>h b. checkpoints_hash cl h = Some b \<longleftrightarrow> (h, b) \<in> set xs)
        \<and> (\<exists>m. max_height cl = Some m \<and> m \<in> fst ` set xs \<and> (\<forall>c\<in>set xs. fst c \<le> m))
        \<and> (\<forall>h. \<exists>i. prev_checkpoint_index cl h = Some i \<and> i < length cl \<and> fst (cl ! i) \<le> h
             \<and> (Suc i < length cl \<longrightarrow> h < fst (cl ! Suc i))))"
proof (intro conjI allI impI)
  show "is_ok (checkpoints_from_list xs) \<longleftrightarrow>
      distinct (map fst xs) \<and> distinct (map snd xs) \<and> null_hash \<notin> snd ` set xs
      \<and> Height 0 \<in> fst ` set xs \<and> list_all (\<lambda>c. fst c \<le> HEIGHT_MAX) xs"
    by (auto simp: is_ok_iff checkpoints_from_list_Ok_iff simp flip: sound_checkpoints_iff)
  fix cl assume "checkpoints_from_list xs = Ok cl"
  then have xs: "sound_checkpoints xs" and cl: "cl = btree_of xs"
    by (simp_all add: checkpoints_from_list_Ok_iff)
  show sorted: "sorted_wrt (<) (map fst cl)" unfolding cl by (rule btree_of_sorted)
  have keys: "distinct (map fst xs)" using xs by (simp add: sound_checkpoints_def)
  show set: "set cl = set xs" unfolding cl by (rule set_btree_of [OF keys])
  have bounds: "list_all (\<lambda>c. length (snd c) = 32 \<and> fst c \<le> HEIGHT_MAX) xs"
    using assms(2) xs by (simp add: sound_checkpoints_iff list_all_iff)
  show "checkpoints_from_str hx (checkpoint_text wr xs) = Ok cl"
    by (simp add: checkpoint_text_parses [OF assms(1) bounds] checkpoints_from_list_Ok_iff xs cl)
  have "checkpoints_from_list cl = Ok cl" by (rule sound_list_is_fixed [OF xs cl])
  then show "checkpoints_from_str hx (checkpoint_text wr cl) = Ok cl"
    using checkpoint_text_parses [OF assms(1), of cl] bounds set by (simp add: list_all_iff)
  show "checkpoints_hash cl h = Some b \<longleftrightarrow> (h, b) \<in> set xs" for h b
    using set btree_of_distinct [of xs] by (simp add: checkpoints_hash_def cl)
  have "cl \<noteq> []" using xs set by (auto simp: sound_checkpoints_def)
  then show "\<exists>m. max_height cl = Some m \<and> m \<in> fst ` set xs \<and> (\<forall>c\<in>set xs. fst c \<le> m)"
    using max_height_is_greatest [OF sorted] set by simp
  show "\<exists>i. prev_checkpoint_index cl h = Some i \<and> i < length cl \<and> fst (cl ! i) \<le> h
      \<and> (Suc i < length cl \<longrightarrow> h < fst (cl ! Suc i))" for h
    using prev_checkpoint_exists [OF xs sorted set, of h]
    by (auto simp: prev_checkpoint_index_def rposition_Some_iff not_le)
qed

text \<open>A decoder that reads each byte as one character, for the witness.\<close>

definition demo_hex_write :: "bytes \<Rightarrow> string" where
  "demo_hex_write b = concat (map (\<lambda>x. [char_of (65 + unat x div 16), char_of (65 + unat x mod 16)]) b)"

fun demo_hex_pairs :: "string \<Rightarrow> bytes" where
  "demo_hex_pairs (a # b # r) = word_of_nat ((of_char a - 65) * 16 + (of_char b - 65)) # demo_hex_pairs r"
| "demo_hex_pairs _ = []"

lemma demo_hex_byte:
  "of_char (char_of (65 + unat (x :: byte) div 16)) = 65 + unat x div 16"
  "of_char (char_of (65 + unat x mod 16)) = 65 + unat x mod 16"
proof -
  have "unat x < 256" using unsigned_less [of x] by simp
  then have "65 + unat x div 16 < 256" "65 + unat x mod 16 < 256" by simp_all
  then show "of_char (char_of (65 + unat x div 16)) = 65 + unat x div 16"
    "of_char (char_of (65 + unat x mod 16)) = 65 + unat x mod 16" by simp_all
qed

lemma demo_hex_pair:
  "demo_hex_pairs (char_of (65 + unat x div 16) # char_of (65 + unat x mod 16) # r) = x # demo_hex_pairs r"
  for x :: byte
proof -
  have "(65 + unat x div 16 - 65) * 16 + (65 + unat x mod 16 - 65) = unat x" by simp
  then show ?thesis by (simp only: demo_hex_pairs.simps demo_hex_byte) simp
qed

lemma demo_hex_read: "demo_hex_pairs (demo_hex_write b) = b"
proof (induction b)
  case (Cons x b)
  have "demo_hex_write (x # b) = char_of (65 + unat x div 16) # char_of (65 + unat x mod 16) # demo_hex_write b"
    by (simp add: demo_hex_write_def)
  then show ?case by (simp only: demo_hex_pair Cons)
qed (simp add: demo_hex_write_def)

lemma demo_hex_letters: "c \<in> set (demo_hex_write b) \<Longrightarrow> of_char c \<ge> (65 :: nat)"
  unfolding demo_hex_write_def using demo_hex_byte by fastforce

lemma demo_hex_documented: "hex32_documented demo_hex_write (\<lambda>s. Ok (demo_hex_pairs s))"
proof -
  have "c \<noteq> CHR '' '' \<and> c \<noteq> CHR 0x0A \<and> c \<noteq> CHR 0x0D" if "of_char c \<ge> (65 :: nat)" for c
    using that by (intro conjI notI) simp_all
  then show ?thesis using demo_hex_letters by (simp add: hex32_documented_def demo_hex_read list_all_iff)
qed

definition demo_checkpoints :: "(height \<times> bytes) list" where
  "demo_checkpoints = [(Height 400, replicate 32 2), (Height 0, replicate 32 1)]"

theorem checkpoint_list_is_a_sound_map_witness:
  "is_ok (checkpoints_from_list demo_checkpoints)
   \<and> checkpoints_from_list demo_checkpoints = Ok (rev demo_checkpoints)
   \<and> prev_checkpoint_index (rev demo_checkpoints) (Height 399) = Some 0
   \<and> (\<exists>wr hx. checkpoints_from_str hx (checkpoint_text wr demo_checkpoints) = Ok (rev demo_checkpoints))"
proof -
  have list: "checkpoints_from_list demo_checkpoints = Ok (rev demo_checkpoints)"
    by (simp add: checkpoints_from_list_Ok_iff sound_checkpoints_def demo_checkpoints_def btree_of_def
        less_height_def HEIGHT_MAX_def null_hash_def)
  have "list_all (\<lambda>c. length (snd c) = 32) demo_checkpoints" by (simp add: demo_checkpoints_def)
  from checkpoint_list_is_a_sound_map [OF demo_hex_documented this] list
  have "checkpoints_from_str (\<lambda>s. Ok (demo_hex_pairs s)) (checkpoint_text demo_hex_write demo_checkpoints)
      = Ok (rev demo_checkpoints)"
    by blast
  moreover have "prev_checkpoint_index (rev demo_checkpoints) (Height 399) = Some 0"
    by (simp add: prev_checkpoint_index_def demo_checkpoints_def less_eq_height_def)
  ultimately show ?thesis using list by (auto simp: is_ok_iff)
qed

end
