(* ===== verification/Networks.thy ===== *)
theory Networks
  imports NetworkConstants Address Checkpoints Difficulty
begin

text \<open>
  Networks and their parameters (\<open>parameters/network.rs\<close>, \<open>parameters/network/testnet.rs\<close>,
  \<open>parameters/network/magic.rs\<close> and the data types of \<open>parameters/network/subsidy.rs\<close> of
  zebra-chain): Mainnet, and test networks given by a record of parameters that a builder makes. A
  \<open>HashMap\<close> is an association list with one entry for a key, in the order its entries were first
  inserted; only sums and lookups are taken of it. Names and addresses are ASCII text. A panic is
  \<open>None\<close>.
\<close>

section \<open>What comes from outside\<close>

text \<open>
  Addresses, 256-bit arithmetic and hexadecimal decoding, the two embedded checkpoint files, and the
  files a configuration names.
\<close>

record param_libs =
  pl_addr :: address_ops
  pl_uint :: u256_ops
  pl_hex32 :: "string \<Rightarrow> (string, bytes) result"
  pl_main_checkpoints :: string
  pl_test_checkpoints :: string
  pl_read_file :: "string \<Rightarrow> string option"

section \<open>Funding streams\<close>

datatype funding_stream_receiver = Ecc | ZcashFoundation | MajorGrants | Deferred

fun receiver_info :: "funding_stream_receiver \<Rightarrow> bool \<Rightarrow> string \<times> string" where
  "receiver_info self is_post_nu6 =
     (if is_post_nu6 then
        ((case self of Ecc \<Rightarrow> ''Electric Coin Company'' | ZcashFoundation \<Rightarrow> ''Zcash Foundation''
          | MajorGrants \<Rightarrow> ''Zcash Community Grants NU6'' | Deferred \<Rightarrow> ''Lockbox NU6''),
         LOCKBOX_SPECIFICATION)
      else
        ((case self of Ecc \<Rightarrow> ''Electric Coin Company'' | ZcashFoundation \<Rightarrow> ''Zcash Foundation''
          | MajorGrants \<Rightarrow> ''Major Grants'' | Deferred \<Rightarrow> ''Lockbox NU6''),
         FUNDING_STREAM_SPECIFICATION))"

definition is_deferred :: "funding_stream_receiver \<Rightarrow> bool" where
  "is_deferred r = (r = Deferred)"

record funding_stream_recipient =
  fr_numerator :: int
  fr_addresses :: "address list"

record funding_streams =
  fs_start :: height
  fs_end :: height
  fs_recipients :: "(funding_stream_receiver \<times> funding_stream_recipient) list"

text \<open>All the elements, or \<open>None\<close> when one of them panics.\<close>

fun sequence :: "'a option list \<Rightarrow> 'a list option" where
  "sequence [] = Some []"
| "sequence (x # xs) = Option.bind x (\<lambda>y. map_option ((#) y) (sequence xs))"

definition recipient_new :: "address_ops \<Rightarrow> int \<Rightarrow> string list \<Rightarrow> funding_stream_recipient option" where
  "recipient_new A numerator addresses =
     map_option (\<lambda>addrs. \<lparr>fr_numerator = numerator, fr_addresses = addrs\<rparr>)
       (sequence (map (\<lambda>s. case address_from_str A s of Ok a \<Rightarrow> Some a | Err _ \<Rightarrow> None) addresses))"

text \<open>\<open>iter().cycle().take(target_len)\<close>; the assertion refuses an empty list.\<close>

definition extend_addresses :: "nat \<Rightarrow> funding_stream_recipient \<Rightarrow> funding_stream_recipient option" where
  "extend_addresses target_len r =
     (if fr_addresses r = [] then None
      else Some (r\<lparr>fr_addresses :=
        map (\<lambda>i. fr_addresses r ! (i mod length (fr_addresses r))) [0..<target_len]\<rparr>))"

definition funding_streams_new ::
    "height \<Rightarrow> height \<Rightarrow> (funding_stream_receiver \<times> funding_stream_recipient) list \<Rightarrow> funding_streams" where
  "funding_streams_new s e recipients = \<lparr>fs_start = s, fs_end = e, fs_recipients = recipients\<rparr>"

definition funding_streams_empty :: funding_streams where
  "funding_streams_empty = funding_streams_new HEIGHT_MAX HEIGHT_MAX []"

definition recipient_of :: "funding_streams \<Rightarrow> funding_stream_receiver \<Rightarrow> funding_stream_recipient option" where
  "recipient_of fs r = map_of (fs_recipients fs) r"

definition extend_recipient_addresses :: "nat \<Rightarrow> funding_streams \<Rightarrow> funding_streams option" where
  "extend_recipient_addresses target_len fs =
     map_option (\<lambda>rs. fs\<lparr>fs_recipients := rs\<rparr>)
       (sequence (map (\<lambda>(receiver, recipient).
          if is_deferred receiver then Some (receiver, recipient)
          else map_option (Pair receiver) (extend_addresses target_len recipient)) (fs_recipients fs)))"

text \<open>\<open>(start..end).contains(&height)\<close>\<close>

definition in_range :: "funding_streams \<Rightarrow> height \<Rightarrow> bool" where
  "in_range fs h = (fs_start fs \<le> h \<and> h < fs_end fs)"

text \<open>\<open>HashMap::insert\<close>\<close>

fun hash_insert :: "'k \<Rightarrow> 'v \<Rightarrow> ('k \<times> 'v) list \<Rightarrow> ('k \<times> 'v) list" where
  "hash_insert k v [] = [(k, v)]"
| "hash_insert k v ((k', v') # m) = (if k = k' then (k, v) # m else (k', v') # hash_insert k v m)"

definition hash_of :: "('k \<times> 'v) list \<Rightarrow> ('k \<times> 'v) list" where
  "hash_of xs = fold (\<lambda>(k, v) m. hash_insert k v m) xs []"

section \<open>The hard-coded funding streams\<close>

text \<open>Each is built on first use, and panics when an address in it does not parse.\<close>

definition stream_of ::
    "address_ops \<Rightarrow> height \<Rightarrow> height \<Rightarrow> (funding_stream_receiver \<times> int \<times> string list) list
     \<Rightarrow> funding_streams option" where
  "stream_of A s e rs =
     map_option (\<lambda>recipients. \<lparr>fs_start = s, fs_end = e, fs_recipients = hash_of recipients\<rparr>)
       (sequence (map (\<lambda>(receiver, numerator, addresses).
          map_option (Pair receiver) (recipient_new A numerator addresses)) rs))"

definition MAINNET_FUNDING_STREAMS :: "address_ops \<Rightarrow> funding_streams list option" where
  "MAINNET_FUNDING_STREAMS A =
     sequence
       [stream_of A (Height 1046400) (Height 2726400)
          [(Ecc, 7, MAINNET_FUNDING_STREAM_ECC_ADDRESSES),
           (ZcashFoundation, 5, MAINNET_FUNDING_STREAM_ZF_ADDRESSES),
           (MajorGrants, 8, MAINNET_FUNDING_STREAM_MG_ADDRESSES)],
        stream_of A (Height MAINNET_POST_NU6_FUNDING_STREAM_START_HEIGHT)
          (Height (MAINNET_POST_NU6_FUNDING_STREAM_START_HEIGHT + POST_NU6_FUNDING_STREAM_NUM_BLOCKS))
          [(Deferred, 12, []), (MajorGrants, 8, MAINNET_POST_NU6_FUNDING_STREAM_FPF_ADDRESSES)],
        stream_of A (Height 3146400) (Height 4406400)
          [(Deferred, 12, []), (MajorGrants, 8, MAINNET_POST_NU6_1_FUNDING_STREAM_FPF_ADDRESSES)]]"

definition TESTNET_FUNDING_STREAMS :: "address_ops \<Rightarrow> funding_streams list option" where
  "TESTNET_FUNDING_STREAMS A =
     sequence
       [stream_of A (Height 1028500) (Height 2796000)
          [(Ecc, 7, TESTNET_FUNDING_STREAM_ECC_ADDRESSES),
           (ZcashFoundation, 5, TESTNET_FUNDING_STREAM_ZF_ADDRESSES),
           (MajorGrants, 8, TESTNET_FUNDING_STREAM_MG_ADDRESSES)],
        stream_of A (Height TESTNET_POST_NU6_FUNDING_STREAM_START_HEIGHT)
          (Height (TESTNET_POST_NU6_FUNDING_STREAM_START_HEIGHT + POST_NU6_FUNDING_STREAM_NUM_BLOCKS))
          [(Deferred, 12, []), (MajorGrants, 8, TESTNET_POST_NU6_FUNDING_STREAM_FPF_ADDRESSES)],
        stream_of A (Height 3536500) (Height 4476000)
          [(Deferred, 12, []), (MajorGrants, 8, TESTNET_POST_NU6_1_FUNDING_STREAM_FPF_ADDRESSES)]]"

section \<open>Configured activation heights\<close>

text \<open>Heights are the configured \<open>u32\<close> values.\<close>

record configured_activation_heights =
  ca_before_overwinter :: "u32 option"
  ca_overwinter :: "u32 option"
  ca_sapling :: "u32 option"
  ca_blossom :: "u32 option"
  ca_heartwood :: "u32 option"
  ca_canopy :: "u32 option"
  ca_nu5 :: "u32 option"
  ca_nu6 :: "u32 option"
  ca_nu6_1 :: "u32 option"
  ca_nu6_2 :: "u32 option"
  ca_nu6_3 :: "u32 option"
  ca_nu7 :: "u32 option"

definition no_configured_heights :: configured_activation_heights where
  "no_configured_heights =
     \<lparr>ca_before_overwinter = None, ca_overwinter = None, ca_sapling = None, ca_blossom = None,
      ca_heartwood = None, ca_canopy = None, ca_nu5 = None, ca_nu6 = None, ca_nu6_1 = None,
      ca_nu6_2 = None, ca_nu6_3 = None, ca_nu7 = None\<rparr>"

definition option_or :: "'a option \<Rightarrow> 'a option \<Rightarrow> 'a option" where
  "option_or a b = (case a of Some _ \<Rightarrow> a | None \<Rightarrow> b)"

definition for_regtest :: "configured_activation_heights \<Rightarrow> configured_activation_heights" where
  "for_regtest c =
     (let overwinter = option_or (option_or (ca_overwinter c) (ca_before_overwinter c)) (Some 1);
          sapling = option_or (ca_sapling c) overwinter;
          blossom = option_or (ca_blossom c) sapling;
          heartwood = option_or (ca_heartwood c) blossom;
          canopy = option_or (ca_canopy c) heartwood
      in c\<lparr>ca_overwinter := overwinter, ca_sapling := sapling, ca_blossom := blossom,
           ca_heartwood := heartwood, ca_canopy := canopy\<rparr>)"

text \<open>\<open>From<&BTreeMap<Height, NetworkUpgrade>>\<close>\<close>

fun set_configured_height :: "network_upgrade \<Rightarrow> u32 \<Rightarrow> configured_activation_heights \<Rightarrow> configured_activation_heights" where
  "set_configured_height Genesis h c = c"
| "set_configured_height BeforeOverwinter h c = c\<lparr>ca_before_overwinter := Some h\<rparr>"
| "set_configured_height Overwinter h c = c\<lparr>ca_overwinter := Some h\<rparr>"
| "set_configured_height Sapling h c = c\<lparr>ca_sapling := Some h\<rparr>"
| "set_configured_height Blossom h c = c\<lparr>ca_blossom := Some h\<rparr>"
| "set_configured_height Heartwood h c = c\<lparr>ca_heartwood := Some h\<rparr>"
| "set_configured_height Canopy h c = c\<lparr>ca_canopy := Some h\<rparr>"
| "set_configured_height Nu5 h c = c\<lparr>ca_nu5 := Some h\<rparr>"
| "set_configured_height Nu6 h c = c\<lparr>ca_nu6 := Some h\<rparr>"
| "set_configured_height Nu6_1 h c = c\<lparr>ca_nu6_1 := Some h\<rparr>"
| "set_configured_height Nu6_2 h c = c\<lparr>ca_nu6_2 := Some h\<rparr>"
| "set_configured_height Nu6_3 h c = c\<lparr>ca_nu6_3 := Some h\<rparr>"
| "set_configured_height Nu7 h c = c\<lparr>ca_nu7 := Some h\<rparr>"

definition configured_of :: "(height \<times> network_upgrade) list \<Rightarrow> configured_activation_heights" where
  "configured_of heights = fold (\<lambda>(h, nu) c. set_configured_height nu (height_u32 h) c) heights no_configured_heights"

definition configured_list :: "configured_activation_heights \<Rightarrow> (u32 \<times> network_upgrade) list" where
  "configured_list c =
     List.map_filter (\<lambda>(h, nu). map_option (\<lambda>h. (h, nu)) h)
       [(ca_before_overwinter c, BeforeOverwinter), (ca_overwinter c, Overwinter), (ca_sapling c, Sapling),
        (ca_blossom c, Blossom), (ca_heartwood c, Heartwood), (ca_canopy c, Canopy), (ca_nu5 c, Nu5),
        (ca_nu6 c, Nu6), (ca_nu6_1 c, Nu6_1), (ca_nu6_2 c, Nu6_2), (ca_nu6_3 c, Nu6_3), (ca_nu7 c, Nu7)]"

section \<open>The parameters builder\<close>

datatype parameters_builder_error =
    ReservedNetworkName string "string list"
  | NetworkNameTooLong string nat
  | InvalidCharacter
  | ReservedNetworkMagic
  | InvalidGenesisHash
  | LockFundingStreams
  | InvalidActivationHeight
  | InvalidHeightZero
  | OutOfOrderUpgrades
  | InvalidDifficultyLimits
  | HalvingIntervalAfterFundingStreams
  | InvalidCheckpointsFormat
  | FailedToParseDefaultCheckpoint
  | FailedToReadCheckpointFile string
  | FailedToParseCheckpointFile string box_error
  | InvalidCustomCheckpoints
  | CheckpointGenesisMismatch
  | InsufficientCheckpointCoverage

type_synonym magic = bytes

record parameters_builder =
  pb_network_name :: string
  pb_network_magic :: magic
  pb_genesis_hash :: bytes
  pb_activation_heights :: "(height \<times> network_upgrade) list"
  pb_slow_start_interval :: height
  pb_funding_streams :: "funding_streams list"
  pb_should_lock_funding_stream_address_period :: bool
  pb_target_difficulty_limit :: nat
  pb_disable_pow :: bool
  pb_should_allow_unshielded_coinbase_spends :: bool
  pb_pre_blossom_halving_interval :: int
  pb_post_blossom_halving_interval :: int
  pb_lockbox_disbursements :: "(string \<times> int) list"
  pb_checkpoints :: checkpoint_list
  pb_temporary_orchard_disabling_soft_fork_height :: "height option"

definition RESERVED_NETWORK_NAMES :: "string list" where
  "RESERVED_NETWORK_NAMES =
     [''Mainnet'', ''Testnet'', ''Regtest'', ''MainnetKind'', ''TestnetKind'', ''RegtestKind'']"

definition MAX_NETWORK_NAME_LENGTH :: nat where "MAX_NETWORK_NAME_LENGTH = 30"
definition REGTEST_GENESIS_HASH :: string where
  "REGTEST_GENESIS_HASH = ''029f11d80ef9765602235e1bc9727e3eb6ba20839319f761fee920d63401e327''"
definition TESTNET_GENESIS_HASH :: string where
  "TESTNET_GENESIS_HASH = ''05a60a92d99d85997cce3b87616c089f6124d7342af37106edc76126334a2c38''"
definition PRE_BLOSSOM_REGTEST_HALVING_INTERVAL :: int where "PRE_BLOSSOM_REGTEST_HALVING_INTERVAL = 144"
definition MAINNET_TEMPORARY_ORCHARD_DISABLING_SOFT_FORK_HEIGHT :: height where
  "MAINNET_TEMPORARY_ORCHARD_DISABLING_SOFT_FORK_HEIGHT = Height 3363426"
definition TESTNET_TEMPORARY_ORCHARD_DISABLING_SOFT_FORK_HEIGHT :: height where
  "TESTNET_TEMPORARY_ORCHARD_DISABLING_SOFT_FORK_HEIGHT = Height 4048500"

text \<open>The value of a \<open>Result\<close> that is unwrapped.\<close>

fun ok :: "('e, 'a) result \<Rightarrow> 'a option" where
  "ok (Ok x) = Some x" | "ok (Err e) = None"

definition TESTNET_CHECKPOINT_LIST :: "param_libs \<Rightarrow> checkpoint_list option" where
  "TESTNET_CHECKPOINT_LIST L = ok (checkpoints_from_str (pl_hex32 L) (pl_test_checkpoints L))"

definition MAINNET_CHECKPOINT_LIST :: "param_libs \<Rightarrow> checkpoint_list option" where
  "MAINNET_CHECKPOINT_LIST L = ok (checkpoints_from_str (pl_hex32 L) (pl_main_checkpoints L))"

text \<open>An expanded difficulty made compact and expanded again; the inner \<open>None\<close> is a refused target.\<close>

definition through_compact :: "param_libs \<Rightarrow> nat \<Rightarrow> nat option option" where
  "through_compact L limit = Option.bind (to_compact (pl_uint L) limit) (to_expanded (pl_uint L))"

definition builder_default :: "param_libs \<Rightarrow> parameters_builder option" where
  "builder_default L =
     Option.bind (ok (block_hash_from_str (pl_hex32 L) TESTNET_GENESIS_HASH)) (\<lambda>genesis.
     Option.bind (through_compact L (2 ^ 251 - 1)) (\<lambda>expanded.
     Option.bind expanded (\<lambda>limit.
     Option.bind (TESTNET_FUNDING_STREAMS (pl_addr L)) (\<lambda>streams.
     Option.bind (TESTNET_CHECKPOINT_LIST L) (\<lambda>checkpoints.
       Some \<lparr>pb_network_name = ''UnknownTestnet'',
             pb_network_magic = MAGIC_TESTNET,
             pb_genesis_hash = genesis,
             pb_activation_heights = btree_of TESTNET_ACTIVATION_HEIGHTS,
             pb_slow_start_interval = SLOW_START_INTERVAL,
             pb_funding_streams = streams,
             pb_should_lock_funding_stream_address_period = False,
             pb_target_difficulty_limit = limit,
             pb_disable_pow = False,
             pb_should_allow_unshielded_coinbase_spends = False,
             pb_pre_blossom_halving_interval = PRE_BLOSSOM_HALVING_INTERVAL,
             pb_post_blossom_halving_interval = POST_BLOSSOM_HALVING_INTERVAL,
             pb_lockbox_disbursements = TESTNET_NU6_1_LOCKBOX_DISBURSEMENTS,
             pb_checkpoints = checkpoints,
             pb_temporary_orchard_disabling_soft_fork_height =
               Some TESTNET_TEMPORARY_ORCHARD_DISABLING_SOFT_FORK_HEIGHT\<rparr>)))))"

definition is_alphanumeric :: "char \<Rightarrow> bool" where
  "is_alphanumeric c =
     (let n = (of_char c :: nat)
      in 48 \<le> n \<and> n \<le> 57 \<or> 65 \<le> n \<and> n \<le> 90 \<or> 97 \<le> n \<and> n \<le> 122)"

definition with_network_name ::
    "string \<Rightarrow> parameters_builder \<Rightarrow> (parameters_builder_error, parameters_builder) result" where
  "with_network_name network_name self =
     (if network_name \<in> set RESERVED_NETWORK_NAMES then
        Err (ReservedNetworkName network_name RESERVED_NETWORK_NAMES)
      else if length network_name > MAX_NETWORK_NAME_LENGTH then
        Err (NetworkNameTooLong network_name MAX_NETWORK_NAME_LENGTH)
      else if \<not> list_all (\<lambda>x. is_alphanumeric x \<or> x = CHR ''_'') network_name then Err InvalidCharacter
      else Ok (self\<lparr>pb_network_name := network_name\<rparr>))"

definition with_network_magic ::
    "magic \<Rightarrow> parameters_builder \<Rightarrow> (parameters_builder_error, parameters_builder) result" where
  "with_network_magic m self =
     (if m = MAGIC_MAINNET \<or> m = MAGIC_REGTEST then Err ReservedNetworkMagic
      else Ok (self\<lparr>pb_network_magic := m\<rparr>))"

definition with_genesis_hash ::
    "param_libs \<Rightarrow> string \<Rightarrow> parameters_builder \<Rightarrow> (parameters_builder_error, parameters_builder) result" where
  "with_genesis_hash L genesis_hash self =
     (case block_hash_from_str (pl_hex32 L) genesis_hash of
        Ok h \<Rightarrow> Ok (self\<lparr>pb_genesis_hash := h\<rparr>)
      | Err _ \<Rightarrow> Err InvalidGenesisHash)"

text \<open>
  \<open>with_activation_heights\<close>: the configured heights are collected into a map, later upgrades
  replacing earlier ones at the same height; then the upgrades of the map, by height, are compared
  with the order of the protocol, and everything from height 1 on is replaced.
\<close>

fun collect_heights ::
    "(u32 \<times> network_upgrade) list \<Rightarrow> (parameters_builder_error, (height \<times> network_upgrade) list) result" where
  "collect_heights [] = Ok []"
| "collect_heights ((h, nu) # xs) =
     (case height_try_from_u32 h of
        Err _ \<Rightarrow> Err InvalidActivationHeight
      | Ok h' \<Rightarrow> map_sum id (\<lambda>r. (h', nu) # r) (collect_heights xs))"

fun check_upgrade_order ::
    "network_upgrade list \<Rightarrow> network_upgrade list \<Rightarrow> (height \<times> network_upgrade) list
     \<Rightarrow> (parameters_builder_error, unit) result" where
  "check_upgrade_order network_upgrades [] entries = Ok ()"
| "check_upgrade_order network_upgrades (expected # later) entries =
     (if expected \<notin> set network_upgrades then check_upgrade_order network_upgrades later entries
      else (case entries of
          [] \<Rightarrow> check_upgrade_order network_upgrades later []
        | (h, nu) # rest \<Rightarrow>
            if h = Height 0 then Err InvalidHeightZero
            else if nu \<noteq> expected then Err OutOfOrderUpgrades
            else check_upgrade_order network_upgrades later rest))"

text \<open>\<open>split_off(&Height(1))\<close>, then \<open>extend\<close>.\<close>

definition btree_extend :: "('k::linorder \<times> 'v) list \<Rightarrow> ('k \<times> 'v) list \<Rightarrow> ('k \<times> 'v) list" where
  "btree_extend m xs = fold (\<lambda>(k, v) m. btree_insert k v m) xs m"

definition with_activation_heights ::
    "configured_activation_heights \<Rightarrow> parameters_builder \<Rightarrow> (parameters_builder_error, parameters_builder) result" where
  "with_activation_heights c self =
     (if pb_should_lock_funding_stream_address_period self then Err LockFundingStreams
      else
        result_bind (collect_heights (configured_list c)) (\<lambda>collected.
          let activation_heights = btree_of collected;
              network_upgrades = map snd activation_heights
          in result_bind (check_upgrade_order network_upgrades nu_iter activation_heights) (\<lambda>_.
            Ok (self\<lparr>pb_activation_heights :=
              btree_extend (filter (\<lambda>e. fst e < Height 1) (pb_activation_heights self)) activation_heights\<rparr>))))"

definition with_slow_start_interval :: "height \<Rightarrow> parameters_builder \<Rightarrow> parameters_builder" where
  "with_slow_start_interval h self = self\<lparr>pb_slow_start_interval := h\<rparr>"

section \<open>Configured funding streams\<close>

record configured_recipient =
  cr_receiver :: funding_stream_receiver
  cr_numerator :: int
  cr_addresses :: "string list option"

fun configured_recipient_new_for :: "funding_stream_receiver \<Rightarrow> configured_recipient" where
  "configured_recipient_new_for Ecc =
     \<lparr>cr_receiver = Ecc, cr_numerator = 7, cr_addresses = Some TESTNET_FUNDING_STREAM_ECC_ADDRESSES\<rparr>"
| "configured_recipient_new_for ZcashFoundation =
     \<lparr>cr_receiver = ZcashFoundation, cr_numerator = 5, cr_addresses = Some TESTNET_FUNDING_STREAM_ZF_ADDRESSES\<rparr>"
| "configured_recipient_new_for MajorGrants =
     \<lparr>cr_receiver = MajorGrants, cr_numerator = 8, cr_addresses = Some TESTNET_FUNDING_STREAM_MG_ADDRESSES\<rparr>"
| "configured_recipient_new_for Deferred =
     \<lparr>cr_receiver = Deferred, cr_numerator = 0, cr_addresses = None\<rparr>"

definition into_recipient ::
    "address_ops \<Rightarrow> configured_recipient \<Rightarrow> (funding_stream_receiver \<times> funding_stream_recipient) option" where
  "into_recipient A c =
     map_option (Pair (cr_receiver c))
       (recipient_new A (cr_numerator c) (case cr_addresses c of Some a \<Rightarrow> a | None \<Rightarrow> []))"

record configured_funding_streams =
  cf_height_range :: "(height \<times> height) option"
  cf_recipients :: "configured_recipient list option"

definition configured_funding_streams_of :: "address_ops \<Rightarrow> funding_streams \<Rightarrow> configured_funding_streams" where
  "configured_funding_streams_of A fs =
     \<lparr>cf_height_range = Some (fs_start fs, fs_end fs),
      cf_recipients = Some (map (\<lambda>(receiver, recipient).
        \<lparr>cr_receiver = receiver, cr_numerator = fr_numerator recipient,
         cr_addresses = Some (map (display_address A) (fr_addresses recipient))\<rparr>) (fs_recipients fs))\<rparr>"

text \<open>The sum of the numerators is a \<open>u64\<close> of a release build.\<close>

definition numerators_sum :: "funding_streams \<Rightarrow> int" where
  "numerators_sum fs = sum_list (map (fr_numerator \<circ> snd) (fs_recipients fs)) mod 2 ^ 64"

definition convert_with_default ::
    "address_ops \<Rightarrow> funding_streams option \<Rightarrow> configured_funding_streams \<Rightarrow> funding_streams option" where
  "convert_with_default A default_funding_streams c =
     Option.bind (case cf_height_range c of
         Some r \<Rightarrow> Some r
       | None \<Rightarrow> map_option (\<lambda>d. (fs_start d, fs_end d)) default_funding_streams) (\<lambda>(s, e).
     Option.bind (case cf_recipients c of
         Some rs \<Rightarrow> map_option hash_of (sequence (map (into_recipient A) rs))
       | None \<Rightarrow> map_option fs_recipients default_funding_streams) (\<lambda>recipients.
       if \<not> s \<le> e then None
       else
         let streams = funding_streams_new s e recipients
         in if numerators_sum streams \<le> FUNDING_STREAM_RECEIVER_DENOMINATOR then Some streams else None))"

definition into_funding_streams_unchecked ::
    "address_ops \<Rightarrow> configured_funding_streams \<Rightarrow> funding_streams option" where
  "into_funding_streams_unchecked A c =
     Option.bind (cf_height_range c) (\<lambda>(s, e).
       map_option (\<lambda>rs. funding_streams_new s e (hash_of rs))
         (sequence (map (into_recipient A) (case cf_recipients c of Some rs \<Rightarrow> rs | None \<Rightarrow> []))))"

definition with_funding_streams ::
    "param_libs \<Rightarrow> configured_funding_streams list \<Rightarrow> parameters_builder \<Rightarrow> parameters_builder option" where
  "with_funding_streams L streams self =
     Option.bind (if streams = [] then Some [] else TESTNET_FUNDING_STREAMS (pl_addr L)) (\<lambda>defaults.
     Option.bind (sequence (map (\<lambda>(idx, c).
         convert_with_default (pl_addr L) (if idx < length defaults then Some (defaults ! idx) else None) c)
       (enumerate 0 streams))) (\<lambda>converted.
       Some (self\<lparr>pb_funding_streams := converted,
                  pb_should_lock_funding_stream_address_period := True\<rparr>)))"

definition clear_funding_streams :: "parameters_builder \<Rightarrow> parameters_builder" where
  "clear_funding_streams self = self\<lparr>pb_funding_streams := []\<rparr>"

section \<open>The other settings\<close>

text \<open>The target is anything that converts to an expanded difficulty; \<open>to_compact\<close> asserts it is not zero.\<close>

definition with_target_difficulty_limit ::
    "param_libs \<Rightarrow> nat \<Rightarrow> parameters_builder \<Rightarrow> (parameters_builder_error, parameters_builder) result option" where
  "with_target_difficulty_limit L limit self =
     map_option (\<lambda>expanded. case expanded of
         Some l \<Rightarrow> Ok (self\<lparr>pb_target_difficulty_limit := l\<rparr>)
       | None \<Rightarrow> Err InvalidDifficultyLimits) (through_compact L limit)"

definition with_disable_pow :: "bool \<Rightarrow> parameters_builder \<Rightarrow> parameters_builder" where
  "with_disable_pow b self = self\<lparr>pb_disable_pow := b\<rparr>"

definition with_unshielded_coinbase_spends :: "bool \<Rightarrow> parameters_builder \<Rightarrow> parameters_builder" where
  "with_unshielded_coinbase_spends b self = self\<lparr>pb_should_allow_unshielded_coinbase_spends := b\<rparr>"

definition with_halving_interval ::
    "int \<Rightarrow> parameters_builder \<Rightarrow> (parameters_builder_error, parameters_builder) result" where
  "with_halving_interval pre self =
     (if pb_should_lock_funding_stream_address_period self then Err HalvingIntervalAfterFundingStreams
      else Ok (self\<lparr>pb_pre_blossom_halving_interval := pre,
                    pb_post_blossom_halving_interval := wrap_i64 (pre * int BLOSSOM_POW_TARGET_SPACING_RATIO)\<rparr>))"

definition with_lockbox_disbursements :: "(string \<times> int) list \<Rightarrow> parameters_builder \<Rightarrow> parameters_builder" where
  "with_lockbox_disbursements ds self = self\<lparr>pb_lockbox_disbursements := ds\<rparr>"

datatype configured_checkpoints =
    DefaultCheckpoints bool
  | CheckpointsPath string
  | HeightsAndHashes "(height \<times> bytes) list"

text \<open>\<open>None\<close> is the panic of the embedded list.\<close>

definition with_checkpoints ::
    "param_libs \<Rightarrow> configured_checkpoints \<Rightarrow> parameters_builder
     \<Rightarrow> (parameters_builder_error, parameters_builder) result option" where
  "with_checkpoints L c self =
     map_option (map_sum id (\<lambda>cl. self\<lparr>pb_checkpoints := cl\<rparr>))
       (case c of
          DefaultCheckpoints True \<Rightarrow> map_option Ok (TESTNET_CHECKPOINT_LIST L)
        | DefaultCheckpoints False \<Rightarrow>
            Some (map_err (\<lambda>_. FailedToParseDefaultCheckpoint)
              (checkpoints_from_list [(Height 0, pb_genesis_hash self)]))
        | CheckpointsPath path_buf \<Rightarrow>
            Some (case pl_read_file L path_buf of
                None \<Rightarrow> Err (FailedToReadCheckpointFile path_buf)
              | Some raw \<Rightarrow> map_err (FailedToParseCheckpointFile path_buf)
                  (checkpoints_from_str (pl_hex32 L) raw))
        | HeightsAndHashes items \<Rightarrow>
            Some (map_err (\<lambda>_. InvalidCustomCheckpoints) (checkpoints_from_list items)))"

definition clear_checkpoints ::
    "param_libs \<Rightarrow> parameters_builder \<Rightarrow> (parameters_builder_error, parameters_builder) result option" where
  "clear_checkpoints L self = with_checkpoints L (DefaultCheckpoints False) self"

definition with_temporary_orchard_disabling_soft_fork_height :: "height \<Rightarrow> parameters_builder \<Rightarrow> parameters_builder" where
  "with_temporary_orchard_disabling_soft_fork_height h self =
     self\<lparr>pb_temporary_orchard_disabling_soft_fork_height := Some h\<rparr>"

definition disable_temporary_orchard_disabling_soft_fork :: "parameters_builder \<Rightarrow> parameters_builder" where
  "disable_temporary_orchard_disabling_soft_fork self =
     self\<lparr>pb_temporary_orchard_disabling_soft_fork_height := None\<rparr>"

section \<open>Parameters\<close>

record parameters =
  par_network_name :: string
  par_network_magic :: magic
  par_genesis_hash :: bytes
  par_activation_heights :: "(height \<times> network_upgrade) list"
  par_slow_start_interval :: height
  par_slow_start_shift :: height
  par_funding_streams :: "funding_streams list"
  par_target_difficulty_limit :: nat
  par_disable_pow :: bool
  par_should_allow_unshielded_coinbase_spends :: bool
  par_pre_blossom_halving_interval :: int
  par_post_blossom_halving_interval :: int
  par_lockbox_disbursements :: "(string \<times> int) list"
  par_checkpoints :: checkpoint_list
  par_temporary_orchard_disabling_soft_fork_height :: "height option"

definition finish :: "parameters_builder \<Rightarrow> parameters" where
  "finish self =
     \<lparr>par_network_name = pb_network_name self,
      par_network_magic = pb_network_magic self,
      par_genesis_hash = pb_genesis_hash self,
      par_activation_heights = pb_activation_heights self,
      par_slow_start_interval = pb_slow_start_interval self,
      par_slow_start_shift = Height (height_u32 (pb_slow_start_interval self) div 2),
      par_funding_streams = pb_funding_streams self,
      par_target_difficulty_limit = pb_target_difficulty_limit self,
      par_disable_pow = pb_disable_pow self,
      par_should_allow_unshielded_coinbase_spends = pb_should_allow_unshielded_coinbase_spends self,
      par_pre_blossom_halving_interval = pb_pre_blossom_halving_interval self,
      par_post_blossom_halving_interval = pb_post_blossom_halving_interval self,
      par_lockbox_disbursements = pb_lockbox_disbursements self,
      par_checkpoints = pb_checkpoints self,
      par_temporary_orchard_disabling_soft_fork_height = pb_temporary_orchard_disabling_soft_fork_height self\<rparr>"

definition parameters_default :: "param_libs \<Rightarrow> parameters option" where
  "parameters_default L =
     map_option (\<lambda>b. (finish b)\<lparr>par_network_name := ''Testnet''\<rparr>) (builder_default L)"

definition is_compatible_with_default_parameters :: "param_libs \<Rightarrow> parameters_builder \<Rightarrow> bool option" where
  "is_compatible_with_default_parameters L self =
     map_option (\<lambda>d. pb_activation_heights self = pb_activation_heights d
      \<and> pb_network_magic self = pb_network_magic d
      \<and> pb_genesis_hash self = pb_genesis_hash d
      \<and> pb_slow_start_interval self = pb_slow_start_interval d
      \<and> pb_funding_streams self = pb_funding_streams d
      \<and> pb_target_difficulty_limit self = pb_target_difficulty_limit d
      \<and> pb_disable_pow self = pb_disable_pow d
      \<and> pb_should_allow_unshielded_coinbase_spends self = pb_should_allow_unshielded_coinbase_spends d
      \<and> pb_pre_blossom_halving_interval self = pb_pre_blossom_halving_interval d
      \<and> pb_post_blossom_halving_interval self = pb_post_blossom_halving_interval d
      \<and> pb_lockbox_disbursements self = pb_lockbox_disbursements d) (builder_default L)"

record regtest_parameters =
  rg_activation_heights :: configured_activation_heights
  rg_funding_streams :: "configured_funding_streams list option"
  rg_lockbox_disbursements :: "(string \<times> int) list option"
  rg_checkpoints :: "configured_checkpoints option"
  rg_extend_funding_stream_addresses_as_required :: "bool option"
  rg_should_allow_unshielded_coinbase_spends :: "bool option"

definition regtest_default :: regtest_parameters where
  "regtest_default =
     \<lparr>rg_activation_heights = no_configured_heights, rg_funding_streams = None,
      rg_lockbox_disbursements = None, rg_checkpoints = None,
      rg_extend_funding_stream_addresses_as_required = None,
      rg_should_allow_unshielded_coinbase_spends = None\<rparr>"

text \<open>A step that may fail or panic after one that may fail or panic.\<close>

fun then_try ::
    "('e, 'a) result option \<Rightarrow> ('a \<Rightarrow> ('e, 'b) result option) \<Rightarrow> ('e, 'b) result option" where
  "then_try None f = None"
| "then_try (Some (Err e)) f = Some (Err e)"
| "then_try (Some (Ok x)) f = f x"

definition unwrap_or :: "'a \<Rightarrow> 'a option \<Rightarrow> 'a" where
  "unwrap_or d x = (case x of Some y \<Rightarrow> y | None \<Rightarrow> d)"

text \<open>
  The calls of \<open>new_regtest\<close> up to the extension of the funding streams. The extension needs
  the address periods of the block subsidy and follows there; without it, as by default, these calls
  are all.
\<close>

definition regtest_builder ::
    "param_libs \<Rightarrow> regtest_parameters \<Rightarrow> (parameters_builder_error, parameters_builder) result option" where
  "regtest_builder L r =
     then_try (map_option Ok (builder_default L)) (\<lambda>b.
     then_try (Some (with_genesis_hash L REGTEST_GENESIS_HASH b)) (\<lambda>b.
     then_try (with_target_difficulty_limit L (nat_of_be (replicate 32 0x0f)) b) (\<lambda>b.
     then_try (Some (with_activation_heights (for_regtest (rg_activation_heights r))
         (disable_temporary_orchard_disabling_soft_fork
           (with_slow_start_interval HEIGHT_MIN
             (with_unshielded_coinbase_spends (unwrap_or True (rg_should_allow_unshielded_coinbase_spends r))
               (with_disable_pow True b)))))) (\<lambda>b.
     then_try (Some (with_halving_interval PRE_BLOSSOM_REGTEST_HALVING_INTERVAL b)) (\<lambda>b.
     then_try (map_option Ok (with_funding_streams L (unwrap_or [] (rg_funding_streams r)) b)) (\<lambda>b.
       with_checkpoints L (unwrap_or (DefaultCheckpoints False) (rg_checkpoints r))
         (with_lockbox_disbursements (unwrap_or [] (rg_lockbox_disbursements r)) b)))))))"

definition as_regtest :: "parameters \<Rightarrow> parameters" where
  "as_regtest p = p\<lparr>par_network_name := ''Regtest'', par_network_magic := MAGIC_REGTEST\<rparr>"

definition is_default_testnet :: "param_libs \<Rightarrow> parameters \<Rightarrow> bool option" where
  "is_default_testnet L self = map_option (\<lambda>d. self = d) (parameters_default L)"

text \<open>The comparison is with the default Regtest parameters, which have nothing to extend.\<close>

definition is_regtest :: "param_libs \<Rightarrow> parameters \<Rightarrow> bool option" where
  "is_regtest L self =
     (if par_network_magic self \<noteq> MAGIC_REGTEST then Some False
      else
        (case regtest_builder L regtest_default of
           Some (Ok b) \<Rightarrow>
             let d = as_regtest (finish b)
             in Some (par_network_name self = par_network_name d
               \<and> par_genesis_hash self = par_genesis_hash d
               \<and> par_slow_start_interval self = par_slow_start_interval d
               \<and> par_slow_start_shift self = par_slow_start_shift d
               \<and> par_target_difficulty_limit self = par_target_difficulty_limit d
               \<and> par_disable_pow self = par_disable_pow d
               \<and> par_pre_blossom_halving_interval self = par_pre_blossom_halving_interval d
               \<and> par_post_blossom_halving_interval self = par_post_blossom_halving_interval d)
         | _ \<Rightarrow> None))"

text \<open>\<open>Address\<close>es are parsed when the disbursements are asked for.\<close>

definition parse_disbursements :: "address_ops \<Rightarrow> (string \<times> int) list \<Rightarrow> (address \<times> int) list option" where
  "parse_disbursements A ds =
     sequence (map (\<lambda>(addr, amount). map_option (\<lambda>a. (a, amount)) (ok (address_from_str A addr))) ds)"

definition par_lockbox_disbursements_parsed :: "address_ops \<Rightarrow> parameters \<Rightarrow> (address \<times> int) list option" where
  "par_lockbox_disbursements_parsed A self = parse_disbursements A (par_lockbox_disbursements self)"

text \<open>\<open>reduce\<close> with the addition's \<open>expect\<close>s; nothing gives the default amount, zero.\<close>

fun reduce_amounts :: "int \<Rightarrow> int list \<Rightarrow> int option" where
  "reduce_amounts acc [] = Some acc"
| "reduce_amounts acc (a # as) =
     Option.bind (Option.bind (amount_add NonNegative acc a) ok) (\<lambda>acc'. reduce_amounts acc' as)"

definition par_lockbox_disbursement_total_amount :: "address_ops \<Rightarrow> parameters \<Rightarrow> int option" where
  "par_lockbox_disbursement_total_amount A self =
     Option.bind (par_lockbox_disbursements_parsed A self) (\<lambda>ds.
       case map snd ds of [] \<Rightarrow> Some 0 | a # as \<Rightarrow> reduce_amounts a as)"

section \<open>Networks\<close>

datatype chain_network = MainnetChain | TestnetChain parameters

text \<open>What \<open>NetworkUpgrade\<close> looks at: the activation heights.\<close>

fun upgrades_of :: "chain_network \<Rightarrow> network" where
  "upgrades_of MainnetChain = Mainnet"
| "upgrades_of (TestnetChain p) = Testnet (par_activation_heights p)"

definition new_default_testnet :: "param_libs \<Rightarrow> chain_network option" where
  "new_default_testnet L = map_option TestnetChain (parameters_default L)"

definition new_configured_testnet :: "parameters \<Rightarrow> chain_network" where
  "new_configured_testnet p = TestnetChain p"

definition to_network_unchecked :: "parameters_builder \<Rightarrow> chain_network" where
  "to_network_unchecked self = new_configured_testnet (finish self)"

fun net_is_default_testnet :: "param_libs \<Rightarrow> chain_network \<Rightarrow> bool option" where
  "net_is_default_testnet L (TestnetChain p) = is_default_testnet L p"
| "net_is_default_testnet L MainnetChain = Some False"

fun net_is_regtest :: "param_libs \<Rightarrow> chain_network \<Rightarrow> bool option" where
  "net_is_regtest L (TestnetChain p) = is_regtest L p"
| "net_is_regtest L MainnetChain = Some False"

fun net_kind :: "param_libs \<Rightarrow> chain_network \<Rightarrow> network_kind option" where
  "net_kind L MainnetChain = Some MainnetKind"
| "net_kind L (TestnetChain p) =
     map_option (\<lambda>r. if r then RegtestKind else TestnetKind) (is_regtest L p)"

fun t_addr_kind :: "chain_network \<Rightarrow> network_kind" where
  "t_addr_kind MainnetChain = MainnetKind"
| "t_addr_kind (TestnetChain _) = TestnetKind"

fun display_network :: "chain_network \<Rightarrow> string" where
  "display_network MainnetChain = ''Mainnet''"
| "display_network (TestnetChain p) = par_network_name p"

definition TESTNET_MAX_TIME_START_HEIGHT :: height where "TESTNET_MAX_TIME_START_HEIGHT = Height 653606"

fun is_max_block_time_enforced :: "chain_network \<Rightarrow> height \<Rightarrow> bool" where
  "is_max_block_time_enforced MainnetChain h = True"
| "is_max_block_time_enforced (TestnetChain _) h = (h \<ge> TESTNET_MAX_TIME_START_HEIGHT)"

fun default_port :: "chain_network \<Rightarrow> nat" where
  "default_port MainnetChain = 8233" | "default_port (TestnetChain _) = 18233"

definition mandatory_checkpoint_height :: "chain_network \<Rightarrow> height option" where
  "mandatory_checkpoint_height net =
     Option.bind (activation_height Canopy (upgrades_of net)) (\<lambda>h. ok (height_previous h))"

definition is_a_test_network :: "chain_network \<Rightarrow> bool" where
  "is_a_test_network net = (net \<noteq> MainnetChain)"

definition sapling_activation_height :: "chain_network \<Rightarrow> height option" where
  "sapling_activation_height net = activation_height Sapling (upgrades_of net)"

fun network_magic :: "chain_network \<Rightarrow> magic" where
  "network_magic MainnetChain = MAGIC_MAINNET" | "network_magic (TestnetChain p) = par_network_magic p"

definition MAINNET_GENESIS_HASH :: string where
  "MAINNET_GENESIS_HASH = ''00040fe8ec8471911baa1db1266ea15dd06b4a8a5c453883c000b031973dce08''"

fun genesis_hash :: "param_libs \<Rightarrow> chain_network \<Rightarrow> bytes option" where
  "genesis_hash L MainnetChain = ok (block_hash_from_str (pl_hex32 L) MAINNET_GENESIS_HASH)"
| "genesis_hash L (TestnetChain p) = Some (par_genesis_hash p)"

fun net_checkpoint_list :: "param_libs \<Rightarrow> chain_network \<Rightarrow> checkpoint_list option" where
  "net_checkpoint_list L MainnetChain = MAINNET_CHECKPOINT_LIST L"
| "net_checkpoint_list L (TestnetChain p) = Some (par_checkpoints p)"

definition to_lowercase :: "string \<Rightarrow> string" where
  "to_lowercase = map (\<lambda>c. let n = (of_char c :: nat) in if 65 \<le> n \<and> n \<le> 90 then char_of (n + 32) else c)"

text \<open>\<open>FromStr\<close>; the outer \<open>None\<close> is the panic of the default Testnet, the error repeats the text.\<close>

definition network_from_str :: "param_libs \<Rightarrow> string \<Rightarrow> (string, chain_network) result option" where
  "network_from_str L s =
     (if to_lowercase s = ''mainnet'' then Some (Ok MainnetChain)
      else if to_lowercase s = ''testnet'' then map_option Ok (new_default_testnet L)
      else Some (Err s))"

definition lowercase_name :: "chain_network \<Rightarrow> string" where
  "lowercase_name net = to_lowercase (display_network net)"

fun net_disable_pow :: "chain_network \<Rightarrow> bool" where
  "net_disable_pow (TestnetChain p) = par_disable_pow p" | "net_disable_pow MainnetChain = False"

fun slow_start_interval :: "chain_network \<Rightarrow> height" where
  "slow_start_interval (TestnetChain p) = par_slow_start_interval p"
| "slow_start_interval MainnetChain = SLOW_START_INTERVAL"

fun slow_start_shift :: "chain_network \<Rightarrow> height" where
  "slow_start_shift (TestnetChain p) = par_slow_start_shift p"
| "slow_start_shift MainnetChain = SLOW_START_SHIFT"

fun all_funding_streams :: "param_libs \<Rightarrow> chain_network \<Rightarrow> funding_streams list option" where
  "all_funding_streams L (TestnetChain p) = Some (par_funding_streams p)"
| "all_funding_streams L MainnetChain = MAINNET_FUNDING_STREAMS (pl_addr L)"

definition net_funding_streams :: "param_libs \<Rightarrow> chain_network \<Rightarrow> height \<Rightarrow> funding_streams option option" where
  "net_funding_streams L net h = map_option (List.find (\<lambda>streams. in_range streams h)) (all_funding_streams L net)"

fun net_should_allow_unshielded_coinbase_spends :: "chain_network \<Rightarrow> bool" where
  "net_should_allow_unshielded_coinbase_spends (TestnetChain p) = par_should_allow_unshielded_coinbase_spends p"
| "net_should_allow_unshielded_coinbase_spends MainnetChain = False"

fun founder_address_list :: "chain_network \<Rightarrow> string list" where
  "founder_address_list MainnetChain = MAINNET_FOUNDER_ADDRESS_LIST"
| "founder_address_list (TestnetChain _) = TESTNET_FOUNDER_ADDRESS_LIST"

section \<open>Lockbox disbursements and the Orchard soft fork\<close>

definition net_lockbox_disbursement_total_amount :: "param_libs \<Rightarrow> chain_network \<Rightarrow> height \<Rightarrow> int option" where
  "net_lockbox_disbursement_total_amount L net h =
     (if Some h \<noteq> activation_height Nu6_1 (upgrades_of net) then Some amount_zero
      else (case net of
          MainnetChain \<Rightarrow> Some MAINNET_EXPECTED_NU6_1_LOCKBOX_DISBURSEMENTS_TOTAL
        | TestnetChain p \<Rightarrow>
            Option.bind (is_default_testnet L p) (\<lambda>d.
              if d then Some TESTNET_EXPECTED_NU6_1_LOCKBOX_DISBURSEMENTS_TOTAL
              else par_lockbox_disbursement_total_amount (pl_addr L) p)))"

definition net_lockbox_disbursements :: "param_libs \<Rightarrow> chain_network \<Rightarrow> height \<Rightarrow> (address \<times> int) list option" where
  "net_lockbox_disbursements L net h =
     (if Some h \<noteq> activation_height Nu6_1 (upgrades_of net) then Some []
      else (case net of
          MainnetChain \<Rightarrow> parse_disbursements (pl_addr L) MAINNET_NU6_1_LOCKBOX_DISBURSEMENTS
        | TestnetChain p \<Rightarrow>
            Option.bind (is_default_testnet L p) (\<lambda>d.
              if d then parse_disbursements (pl_addr L) TESTNET_NU6_1_LOCKBOX_DISBURSEMENTS
              else par_lockbox_disbursements_parsed (pl_addr L) p)))"

fun temporary_orchard_disabling_soft_fork_height :: "chain_network \<Rightarrow> height option" where
  "temporary_orchard_disabling_soft_fork_height MainnetChain =
     Some MAINNET_TEMPORARY_ORCHARD_DISABLING_SOFT_FORK_HEIGHT"
| "temporary_orchard_disabling_soft_fork_height (TestnetChain p) =
     par_temporary_orchard_disabling_soft_fork_height p"

definition temporary_orchard_disabling_soft_fork_active :: "chain_network \<Rightarrow> height \<Rightarrow> bool" where
  "temporary_orchard_disabling_soft_fork_active net height =
     (case temporary_orchard_disabling_soft_fork_height net of Some h \<Rightarrow> height \<ge> h | None \<Rightarrow> False)"

definition is_orchard_temporarily_disabled :: "chain_network \<Rightarrow> height \<Rightarrow> bool" where
  "is_orchard_temporarily_disabled net height =
     (temporary_orchard_disabling_soft_fork_active net height \<and>
      (case activation_height Nu6_2 (upgrades_of net) of None \<Rightarrow> True | Some nu6_2 \<Rightarrow> height < nu6_2))"

definition is_temporary_orchard_disabling_soft_fork_activation_height :: "chain_network \<Rightarrow> height \<Rightarrow> bool" where
  "is_temporary_orchard_disabling_soft_fork_activation_height net height =
     (temporary_orchard_disabling_soft_fork_height net = Some height)"

definition orchard_canonical_proof_size_rule_active :: "chain_network \<Rightarrow> height \<Rightarrow> bool" where
  "orchard_canonical_proof_size_rule_active net height =
     (case activation_height Nu6_2 (upgrades_of net) of Some h \<Rightarrow> height \<ge> h | None \<Rightarrow> False)"

section \<open>Activation heights that were configured\<close>

lemma map_filter_keeps_order:
  "sorted_wrt R (map snd xs) \<Longrightarrow>
     sorted_wrt R (map snd (List.map_filter (\<lambda>(h, nu). map_option (\<lambda>h. (h, nu)) h) xs))"
  by (induction xs) (auto simp: List.map_filter_def)

lemma map_filter_entry:
  "(h, nu) \<in> set (List.map_filter (\<lambda>(h, nu). map_option (\<lambda>h. (h, nu)) h) xs) \<Longrightarrow> (Some h, nu) \<in> set xs"
  by (induction xs) (auto simp: List.map_filter_def split: if_splits)

lemma configured_not_genesis: "(h, nu) \<in> set (configured_list c) \<Longrightarrow> nu \<noteq> Genesis"
  unfolding configured_list_def by (drule map_filter_entry) auto

lemma configured_list_increasing: "sorted_wrt (<) (map snd (configured_list c))"
  unfolding configured_list_def by (rule map_filter_keeps_order) (simp add: nu_order)

lemma collect_heights_Ok_iff:
  "collect_heights xs = Ok ys \<longleftrightarrow>
     list_all (\<lambda>x. Height (fst x) \<le> HEIGHT_MAX) xs \<and> ys = map (\<lambda>(h, nu). (Height h, nu)) xs"
  by (induction xs arbitrary: ys)
     (auto simp: height_try_from_u32_def map_sum_Ok_iff split: sum.splits if_splits)

text \<open>The loop over the upgrades compares the entries with the upgrades present, in protocol order.\<close>

lemma check_upgrade_order_Ok:
  assumes "length entries = length (filter (\<lambda>u. u \<in> set present) order)"
  shows "check_upgrade_order present order entries = Ok () \<longleftrightarrow>
     map snd entries = filter (\<lambda>u. u \<in> set present) order \<and> list_all (\<lambda>e. fst e \<noteq> Height 0) entries"
  using assms
proof (induction present order entries rule: check_upgrade_order.induct)
  case (2 present expected later entries)
  then show ?case by (cases "expected \<in> set present"; cases entries) (auto split: if_splits)
qed simp

lemma nu_iter_complete: "set nu_iter = UNIV" "sorted_wrt (<) nu_iter" "distinct nu_iter"
proof -
  have "u \<in> set nu_iter" for u by (cases u) (simp_all add: nu_iter_def)
  then show "set nu_iter = UNIV" by blast
qed (simp_all add: nu_iter_def nu_order)

lemma filter_nu_iter:
  "map snd entries = filter (\<lambda>u. u \<in> set (map snd entries)) nu_iter \<longleftrightarrow> sorted_wrt (<) (map snd entries)"
  (is "?l = ?f \<longleftrightarrow> _") for entries :: "(height \<times> network_upgrade) list"
proof
  assume "?l = ?f"
  then have "sorted_wrt (<) ?l \<longleftrightarrow> sorted_wrt (<) ?f" by (rule arg_cong)
  then show "sorted_wrt (<) ?l" using sorted_wrt_filter [OF nu_iter_complete(2)] by blast
next
  assume s: "sorted_wrt (<) ?l"
  have "sorted_wrt (<) ?f" by (rule sorted_wrt_filter [OF nu_iter_complete(2)])
  moreover have "set ?l = set ?f" using nu_iter_complete(1) by auto
  ultimately show "?l = ?f" using s strict_sorted_equal by metis
qed

text \<open>The table a configuration gives: one entry a height, the latest upgrade configured there.\<close>

definition configured_table :: "configured_activation_heights \<Rightarrow> (height \<times> network_upgrade) list" where
  "configured_table c = btree_of (map (\<lambda>(h, nu). (Height h, nu)) (configured_list c))"

definition heights_accepted :: "configured_activation_heights \<Rightarrow> bool" where
  "heights_accepted c \<longleftrightarrow> list_all (\<lambda>x. Height (fst x) \<le> HEIGHT_MAX) (configured_list c)
     \<and> sorted_wrt (<) (map snd (configured_table c)) \<and> list_all (\<lambda>e. fst e \<noteq> Height 0) (configured_table c)"

lemma rev_map_of_greatest:
  fixes xs :: "('k \<times> 'v::linorder) list"
  shows "sorted_wrt (<) (map snd xs) \<Longrightarrow> (k, v) \<in> set xs \<Longrightarrow> \<exists>v'. map_of (rev xs) k = Some v' \<and> v \<le> v'"
proof (induction xs rule: rev_induct)
  case (snoc x xs)
  show ?case
  proof (cases "fst x = k")
    case True
    have "v \<le> snd x" using snoc.prems by (cases x) (auto simp: sorted_wrt_append intro: less_imp_le)
    with True show ?thesis by (cases x) simp
  next
    case False
    with snoc show ?thesis by (cases x) (auto simp: sorted_wrt_append)
  qed
qed simp

lemma configured_table_entry:
  assumes "(h, nu) \<in> set (configured_list c)"
  shows "\<exists>nu'. (Height h, nu') \<in> set (configured_table c) \<and> nu \<le> nu'"
proof -
  let ?xs = "map (\<lambda>(h, nu). (Height h, nu)) (configured_list c)"
  have "map snd ?xs = map snd (configured_list c)" by (simp add: split_beta comp_def)
  then have s: "sorted_wrt (<) (map snd ?xs)" using configured_list_increasing [of c] by (simp only:)
  have "(Height h, nu) \<in> set ?xs" using assms by force
  from rev_map_of_greatest [OF s this] show ?thesis
    by (metis configured_table_def map_of_SomeD map_of_btree_of)
qed

lemma configured_table_from:
  assumes "(h, nu) \<in> set (configured_table c)"
  shows "(height_u32 h, nu) \<in> set (configured_list c)"
proof -
  have "map_of (configured_table c) h = Some nu"
    unfolding configured_table_def
    by (rule map_of_is_SomeI [OF btree_of_distinct assms [unfolded configured_table_def]])
  then have "(h, nu) \<in> set (map (\<lambda>(h, nu). (Height h, nu)) (configured_list c))"
    by (metis configured_table_def map_of_SomeD map_of_btree_of set_rev)
  then show ?thesis by auto
qed

lemma distinct_snd_unique:
  "distinct (map snd xs) \<Longrightarrow> (a, v) \<in> set xs \<Longrightarrow> (b, v) \<in> set xs \<Longrightarrow> a = b"
  by (induction xs) force+

lemma configured_order_check:
  "check_upgrade_order (map snd (configured_table c)) nu_iter (configured_table c) = Ok () \<longleftrightarrow>
     sorted_wrt (<) (map snd (configured_table c)) \<and> list_all (\<lambda>e. fst e \<noteq> Height 0) (configured_table c)"
proof -
  let ?t = "configured_table c"
  have "distinct (map snd ?t)"
  proof -
    have "inj_on snd (set ?t)"
    proof (rule inj_onI)
      fix a b assume ab: "a \<in> set ?t" "b \<in> set ?t" "snd a = snd b"
      then have "(fst a, snd a) \<in> set ?t" "(fst b, snd a) \<in> set ?t" by (metis prod.collapse)+
      then have "(height_u32 (fst a), snd a) \<in> set (configured_list c)"
        "(height_u32 (fst b), snd a) \<in> set (configured_list c)"
        using configured_table_from by blast+
      moreover have "distinct (map snd (configured_list c))"
        using configured_list_increasing [of c] strict_sorted_iff by blast
      ultimately have "height_u32 (fst a) = height_u32 (fst b)" by (metis distinct_snd_unique)
      with ab(3) show "a = b" by (metis height.expand prod.expand)
    qed
    moreover have "distinct ?t"
      using btree_of_distinct distinct_map unfolding configured_table_def by blast
    ultimately show ?thesis by (simp add: distinct_map)
  qed
  moreover have "distinct (filter (\<lambda>u. u \<in> set (map snd ?t)) nu_iter)"
    using nu_iter_complete(3) by simp
  moreover have "set (filter (\<lambda>u. u \<in> set (map snd ?t)) nu_iter) = set (map snd ?t)"
    using nu_iter_complete(1) by auto
  ultimately have "length ?t = length (filter (\<lambda>u. u \<in> set (map snd ?t)) nu_iter)"
    by (metis distinct_card length_map)
  from check_upgrade_order_Ok [OF this] filter_nu_iter [of ?t] show ?thesis by blast
qed

lemma with_activation_heights_Ok_iff:
  "with_activation_heights c b = Ok b' \<longleftrightarrow>
     \<not> pb_should_lock_funding_stream_address_period b \<and> heights_accepted c
     \<and> b' = b\<lparr>pb_activation_heights :=
         btree_extend (filter (\<lambda>e. fst e < Height 1) (pb_activation_heights b)) (configured_table c)\<rparr>"
  using configured_order_check [of c]
  by (auto simp: with_activation_heights_def result_bind_Ok_iff collect_heights_Ok_iff heights_accepted_def Let_def
      configured_table_def [symmetric])

lemma sorted_wrt_both:
  "sorted_wrt P xs \<Longrightarrow> sorted_wrt Q xs \<Longrightarrow> sorted_wrt (\<lambda>a b. P a b \<and> Q a b) xs"
  by (induction xs) auto

lemma btree_extend_after:
  assumes "sorted_wrt (<) (map fst xs)" "\<forall>a\<in>fst ` set m. \<forall>b\<in>fst ` set xs. a < b"
  shows "btree_extend m xs = m @ xs"
  using assms
proof (induction xs arbitrary: m)
  case (Cons x xs)
  have "btree_insert (fst x) (snd x) m = m @ [x]"
    using Cons.prems(2) by (subst btree_insert_last) auto
  moreover have "btree_extend (m @ [x]) xs = (m @ [x]) @ xs"
    using Cons.prems by (intro Cons.IH) auto
  ultimately show ?case by (simp add: btree_extend_def split_beta)
qed (simp add: btree_extend_def)

lemma zero_or_later: "h \<noteq> Height 0 \<longleftrightarrow> Height 0 < h"
  using least_height [of h] by auto

lemma configured_table_well_formed:
  assumes "heights_accepted c"
  shows "btree_extend [(Height 0, Genesis)] (configured_table c) = (Height 0, Genesis) # configured_table c"
    and "well_formed_activations ((Height 0, Genesis) # configured_table c)"
proof -
  let ?t = "configured_table c"
  have keys: "sorted_wrt (<) (map fst ?t)" unfolding configured_table_def by (rule btree_of_sorted)
  have late: "\<forall>b\<in>fst ` set ?t. Height 0 < b"
    using assms by (auto simp: heights_accepted_def list_all_iff zero_or_later)
  with btree_extend_after [OF keys, of "[(Height 0, Genesis)]"]
  show "btree_extend [(Height 0, Genesis)] ?t = (Height 0, Genesis) # ?t" by simp
  have "Genesis < snd e" if "e \<in> set ?t" for e
  proof -
    have "snd e \<in> snd ` set (configured_list c)"
      using configured_table_from [of "fst e" "snd e" c] that by force
    then have "snd e \<noteq> Genesis" using configured_not_genesis by force
    then show ?thesis by (cases "snd e") (simp_all add: nu_order)
  qed
  moreover have "sorted_wrt (\<lambda>a b. fst a < fst b \<and> snd a < snd b) ?t"
    using keys assms by (intro sorted_wrt_both) (simp_all add: heights_accepted_def sorted_wrt_map)
  ultimately show "well_formed_activations ((Height 0, Genesis) # ?t)"
    using late by (simp add: well_formed_activations_def)
qed

text \<open>The upgrade in force at a height is the latest one configured up to it.\<close>

lemma last_value_greatest:
  fixes m :: "('k \<times> 'v::linorder) list"
  assumes "sorted_wrt (<) (map snd m)" "e \<in> set m"
  shows "snd e \<le> snd (List.last m)"
proof -
  have "m \<noteq> []" using assms(2) by auto
  moreover have "sorted_wrt (<) (map fst (map prod.swap m))"
    using assms(1) by (simp add: comp_def)
  ultimately show ?thesis
    using last_key_greatest [of "map prod.swap m" "prod.swap e"] assms(2) by (simp add: last_map)
qed

lemma current_of_table:
  assumes "heights_accepted c" "par = Testnet ((Height 0, Genesis) # configured_table c)"
  shows "\<exists>u. current par x = Some u
    \<and> (u = Genesis \<or> (\<exists>h. (h, u) \<in> set (configured_list c) \<and> Height h \<le> x))
    \<and> list_all (\<lambda>(h, nu). Height h \<le> x \<longrightarrow> nu \<le> u) (configured_list c)"
proof -
  let ?m = "(Height 0, Genesis) # configured_table c"
  let ?below = "filter (\<lambda>e. fst e \<le> x) ?m"
  have sorted: "sorted_wrt (\<lambda>a b. fst a < fst b \<and> snd a < snd b) ?m"
    using configured_table_well_formed(2) [OF assms(1)] by (simp add: well_formed_activations_def)
  have ne: "?below \<noteq> []" using least_height by simp
  let ?u = "snd (List.last ?below)"
  have cur: "current par x = Some ?u" using ne by (simp add: current_def range_to_last_def Let_def assms(2))
  have source: "?u = Genesis \<or> (\<exists>h. (h, ?u) \<in> set (configured_list c) \<and> Height h \<le> x)"
  proof -
    obtain h u where l: "List.last ?below = (h, u)" by fastforce
    have "(h, u) \<in> set ?below" using last_in_set [OF ne] unfolding l .
    then have "u = Genesis \<or> (height_u32 h, u) \<in> set (configured_list c) \<and> Height (height_u32 h) \<le> x"
      using configured_table_from [of h u c] by (auto split: if_splits)
    then show ?thesis unfolding l snd_conv by blast
  qed
  have greatest: "nu \<le> ?u" if conf: "(h, nu) \<in> set (configured_list c)" and le: "Height h \<le> x" for h nu
  proof -
    obtain nu' where nu': "(Height h, nu') \<in> set (configured_table c)" "nu \<le> nu'"
      using configured_table_entry [OF conf] by blast
    then have "(Height h, nu') \<in> set ?below" using le by simp
    moreover have "sorted_wrt (\<lambda>a b. snd a < snd b) ?below"
      by (rule sorted_wrt_mono_rel [OF _ sorted_wrt_filter [OF sorted]]) simp
    then have "sorted_wrt (<) (map snd ?below)" by (simp only: sorted_wrt_map)
    ultimately have "snd (Height h, nu') \<le> ?u" by (intro last_value_greatest)
    with nu'(2) show ?thesis unfolding snd_conv by (rule order_trans)
  qed
  have "list_all (\<lambda>(h, nu). Height h \<le> x \<longrightarrow> nu \<le> ?u) (configured_list c)"
    unfolding list_all_iff using greatest by blast
  with cur source show ?thesis by blast
qed

section \<open>Properties\<close>

lemma below_one: "h < Height 1 \<longleftrightarrow> h = Height 0"
  by (cases h) (simp add: less_height_def word_less_nat_alt unat_eq_zero)

text \<open>
  Activation heights configured for a test network. On a builder whose only upgrade below height
  1 is Genesis, as every builder operation leaves it, a configuration is accepted exactly when the
  funding streams are not set yet, no height exceeds the maximum, and the upgrades left after later
  ones replaced earlier ones at their height stand in protocol order, none at height 0; a refusal
  changes nothing. Acceptance changes only the activation heights; the new ones start with Genesis,
  rise in height and upgrade together, and put in force at every height the latest upgrade
  configured up to it. Every other setting keeps the heights as they are.
\<close>
theorem configured_heights_are_in_protocol_order:
  assumes "filter (\<lambda>e. fst e < Height 1) (pb_activation_heights b) = [(Height 0, Genesis)]"
  shows "(is_ok (with_activation_heights c b) \<longleftrightarrow>
        \<not> pb_should_lock_funding_stream_address_period b
        \<and> list_all (\<lambda>x. Height (fst x) \<le> HEIGHT_MAX) (configured_list c)
        \<and> sorted_wrt (<) (map snd (configured_table c))
        \<and> list_all (\<lambda>e. fst e \<noteq> Height 0) (configured_table c))
    \<and> (\<forall>b'. with_activation_heights c b = Ok b' \<longrightarrow>
        b' = b\<lparr>pb_activation_heights := pb_activation_heights b'\<rparr>
        \<and> filter (\<lambda>e. fst e < Height 1) (pb_activation_heights b') = [(Height 0, Genesis)]
        \<and> well_formed_activations (activation_list (upgrades_of (to_network_unchecked b')))
        \<and> (\<forall>x. \<exists>u. current (upgrades_of (to_network_unchecked b')) x = Some u
            \<and> (u = Genesis \<or> (\<exists>h. (h, u) \<in> set (configured_list c) \<and> Height h \<le> x))
            \<and> list_all (\<lambda>(h, nu). Height h \<le> x \<longrightarrow> nu \<le> u) (configured_list c)))"
proof (intro conjI allI impI)
  show "is_ok (with_activation_heights c b) \<longleftrightarrow>
      \<not> pb_should_lock_funding_stream_address_period b
      \<and> list_all (\<lambda>x. Height (fst x) \<le> HEIGHT_MAX) (configured_list c)
      \<and> sorted_wrt (<) (map snd (configured_table c))
      \<and> list_all (\<lambda>e. fst e \<noteq> Height 0) (configured_table c)"
    by (simp add: is_ok_iff with_activation_heights_Ok_iff heights_accepted_def)
  fix b' assume "with_activation_heights c b = Ok b'"
  then have acc: "heights_accepted c"
    and b': "b' = b\<lparr>pb_activation_heights := (Height 0, Genesis) # configured_table c\<rparr>"
    using configured_table_well_formed(1) [of c] assms by (auto simp: with_activation_heights_Ok_iff)
  then show "b' = b\<lparr>pb_activation_heights := pb_activation_heights b'\<rparr>" by simp
  have net: "upgrades_of (to_network_unchecked b') = Testnet ((Height 0, Genesis) # configured_table c)"
    by (simp add: b' to_network_unchecked_def new_configured_testnet_def finish_def)
  then show "well_formed_activations (activation_list (upgrades_of (to_network_unchecked b')))"
    using configured_table_well_formed(2) [OF acc] by simp
  show "filter (\<lambda>e. fst e < Height 1) (pb_activation_heights b') = [(Height 0, Genesis)]"
    using acc by (auto simp: b' below_one filter_empty_conv heights_accepted_def list_all_iff)
  show "\<exists>u. current (upgrades_of (to_network_unchecked b')) x = Some u
      \<and> (u = Genesis \<or> (\<exists>h. (h, u) \<in> set (configured_list c) \<and> Height h \<le> x))
      \<and> list_all (\<lambda>(h, nu). Height h \<le> x \<longrightarrow> nu \<le> u) (configured_list c)" for x
    by (rule current_of_table [OF acc net])
qed

definition demo_builder :: parameters_builder where
  "demo_builder =
     \<lparr>pb_network_name = ''Demo'', pb_network_magic = MAGIC_TESTNET, pb_genesis_hash = replicate 32 1,
      pb_activation_heights = btree_of TESTNET_ACTIVATION_HEIGHTS,
      pb_slow_start_interval = SLOW_START_INTERVAL, pb_funding_streams = [],
      pb_should_lock_funding_stream_address_period = False, pb_target_difficulty_limit = 1,
      pb_disable_pow = False, pb_should_allow_unshielded_coinbase_spends = False,
      pb_pre_blossom_halving_interval = PRE_BLOSSOM_HALVING_INTERVAL,
      pb_post_blossom_halving_interval = POST_BLOSSOM_HALVING_INTERVAL,
      pb_lockbox_disbursements = [], pb_checkpoints = [],
      pb_temporary_orchard_disabling_soft_fork_height = None\<rparr>"

definition demo_heights :: configured_activation_heights where
  "demo_heights = no_configured_heights\<lparr>ca_sapling := Some 3, ca_canopy := Some 5, ca_nu5 := Some 5\<rparr>"

lemma demo_builder_genesis:
  "filter (\<lambda>e. fst e < Height 1) (pb_activation_heights demo_builder) = [(Height 0, Genesis)]"
  by (simp add: demo_builder_def btree_of_def TESTNET_ACTIVATION_HEIGHTS_def less_height_def)

lemma demo_table: "configured_table demo_heights = [(Height 3, Sapling), (Height 5, Nu5)]"
  by (simp add: configured_table_def configured_list_def demo_heights_def no_configured_heights_def
      List.map_filter_def btree_of_def less_height_def)

theorem configured_heights_are_in_protocol_order_witness:
  "is_ok (with_activation_heights demo_heights demo_builder)"
proof -
  have "configured_list demo_heights = [(3, Sapling), (5, Canopy), (5, Nu5)]"
    by (simp add: configured_list_def demo_heights_def no_configured_heights_def List.map_filter_def)
  then show ?thesis
    using configured_heights_are_in_protocol_order [OF demo_builder_genesis, of demo_heights]
    by (simp add: demo_table nu_order less_eq_height_def HEIGHT_MAX_def demo_builder_def)
qed

text \<open>
  An upgrade that another one replaces at its height is not compared: here Overwinter is configured
  after Sapling, which the order of the protocol forbids, and the configuration is accepted.
\<close>

lemma masked_upgrade_is_not_compared:
  "is_ok (with_activation_heights
     (no_configured_heights\<lparr>ca_overwinter := Some 5, ca_sapling := Some 3, ca_blossom := Some 5\<rparr>) demo_builder)"
  by (simp add: is_ok_iff with_activation_heights_Ok_iff heights_accepted_def configured_table_def
      configured_list_def no_configured_heights_def List.map_filter_def btree_of_def less_height_def
      less_eq_height_def HEIGHT_MAX_def nu_order demo_builder_def)

end
