(* ===== verification/Subsidy.thy ===== *)
theory Subsidy
  imports Networks
begin

text \<open>
  The block subsidy and what it is divided into (\<open>parameters/network/subsidy.rs\<close> of
  zebra-chain), with the parts of \<open>parameters/network/testnet.rs\<close> that need its address periods: the
  extension of funding streams, the final checks of the builder, and Regtest. Heights differ by an
  \<open>i64\<close>, an \<open>int\<close> here; \<open>None\<close> is a panic.
\<close>

section \<open>Halvings\<close>

text \<open>Integer division of \<open>i64\<close>, with its two panics.\<close>

definition div_i64 :: "int \<Rightarrow> int \<Rightarrow> int option" where
  "div_i64 a b = (if b = 0 \<or> \<not> in_i64 (div_trunc a b) then None else Some (div_trunc a b))"

definition u32_from_i64 :: "int \<Rightarrow> nat option" where
  "u32_from_i64 v = (if 0 \<le> v \<and> v < 2 ^ 32 then Some (nat v) else None)"

fun pre_blossom_halving_interval :: "chain_network \<Rightarrow> int" where
  "pre_blossom_halving_interval MainnetChain = PRE_BLOSSOM_HALVING_INTERVAL"
| "pre_blossom_halving_interval (TestnetChain p) = par_pre_blossom_halving_interval p"

fun post_blossom_halving_interval :: "chain_network \<Rightarrow> int" where
  "post_blossom_halving_interval MainnetChain = POST_BLOSSOM_HALVING_INTERVAL"
| "post_blossom_halving_interval (TestnetChain p) = par_post_blossom_halving_interval p"

definition funding_stream_address_change_interval :: "chain_network \<Rightarrow> int" where
  "funding_stream_address_change_interval net = div_trunc (post_blossom_halving_interval net) 48"

text \<open>The differences are below \<open>2 ^ 32\<close>, so nothing overflows on the way to the divisions.\<close>

definition halving :: "chain_network \<Rightarrow> height \<Rightarrow> nat option" where
  "halving net h =
     Option.bind (activation_height Blossom (upgrades_of net)) (\<lambda>blossom_height.
       let shift = slow_start_shift net in
       Option.bind
         (if h < shift then Some 0
          else if h < blossom_height then
            (let pre_blossom_height = height_diff h shift
             in div_i64 pre_blossom_height (pre_blossom_halving_interval net))
          else
            (let pre_blossom_height = height_diff blossom_height shift;
                 scaled_pre_blossom_height = pre_blossom_height * int BLOSSOM_POW_TARGET_SPACING_RATIO;
                 post_blossom_height = height_diff h blossom_height
             in div_i64 (scaled_pre_blossom_height + post_blossom_height) (post_blossom_halving_interval net)))
         u32_from_i64)"

text \<open>\<open>1u64.checked_shl\<close>\<close>

definition halving_divisor :: "chain_network \<Rightarrow> height \<Rightarrow> nat option option" where
  "halving_divisor net h = map_option (\<lambda>n. if n < 64 then Some (2 ^ n) else None) (halving net h)"

text \<open>
  \<open>height_for_halving\<close>: a result of \<open>None\<close> is the function's own. The subtraction is unchecked in
  the code.
\<close>

definition height_for_halving :: "nat \<Rightarrow> chain_network \<Rightarrow> height option" where
  "height_for_halving n net =
     (if n = 0 then Some (Height 0)
      else
        let shift = uint (height_u32 (slow_start_shift net)) in
        Option.bind (map_option (\<lambda>h. uint (height_u32 h)) (activation_height Blossom (upgrades_of net)))
          (\<lambda>blossom_height.
        Option.bind (checked_mul_i64 (int n) (pre_blossom_halving_interval net)) (\<lambda>unscaled_height.
        Option.bind (checked_add_i64 (min unscaled_height blossom_height) shift) (\<lambda>pre_blossom_height.
        Option.bind (checked_mul_i64 (max 0 (wrap_i64 (unscaled_height - blossom_height)))
            (int BLOSSOM_POW_TARGET_SPACING_RATIO)) (\<lambda>post_scaled.
        Option.bind (checked_add_i64 post_scaled shift) (\<lambda>post_blossom_height.
        Option.bind (checked_add_i64 pre_blossom_height post_blossom_height) (\<lambda>height.
          try_into_height height)))))))"

definition height_for_first_halving :: "param_libs \<Rightarrow> chain_network \<Rightarrow> height option" where
  "height_for_first_halving L net =
     (case net of
        MainnetChain \<Rightarrow> activation_height Canopy (upgrades_of net)
      | TestnetChain p \<Rightarrow>
          Option.bind (is_regtest L p) (\<lambda>regtest.
            if regtest then Some REGTEST_FIRST_HALVING
            else Option.bind (is_default_testnet L p) (\<lambda>default.
              if default then Some TESTNET_FIRST_HALVING else height_for_halving 1 net)))"

definition funding_stream_address_period :: "param_libs \<Rightarrow> height \<Rightarrow> chain_network \<Rightarrow> nat option" where
  "funding_stream_address_period L h net =
     Option.bind (height_for_first_halving L net) (\<lambda>first.
       let height_after_first_halving = height_diff h first
       in Option.bind (div_i64 (wrap_i64 (height_after_first_halving + post_blossom_halving_interval net))
             (funding_stream_address_change_interval net)) u32_from_i64)"

section \<open>The block subsidy\<close>

datatype subsidy_error =
    NoCoinbase | FundingStreamNotFound | FoundersRewardNotFound | OneTimeLockboxDisbursementNotFound
  | InvalidMinerFees | SubsidyOverflow | SubsidyUnderflow | UnsupportedHeight | InvalidAmount amount_error

definition height_nat :: "height \<Rightarrow> nat" where "height_nat h = unat (height_u32 h)"

text \<open>The unsigned arithmetic is that of a release build.\<close>

definition subsidy_amount :: "chain_network \<Rightarrow> height \<Rightarrow> nat \<Rightarrow> nat option" where
  "subsidy_amount net h halving_div =
     (let interval = slow_start_interval net
      in if h < interval then
           (let slow_start_rate = MAX_BLOCK_SUBSIDY div height_nat interval
            in Some (if h < slow_start_shift net then slow_start_rate * height_nat h mod 2 ^ 64
                     else slow_start_rate * ((height_nat h + 1) mod 2 ^ 64) mod 2 ^ 64))
         else
           map_option (\<lambda>nu.
             (let base_subsidy = (if nu < Blossom then MAX_BLOCK_SUBSIDY
                                  else MAX_BLOCK_SUBSIDY div BLOSSOM_POW_TARGET_SPACING_RATIO)
              in base_subsidy div halving_div))
             (current (upgrades_of net) h))"

definition block_subsidy :: "chain_network \<Rightarrow> height \<Rightarrow> (subsidy_error, int) result option" where
  "block_subsidy net h =
     (case halving_divisor net h of
        None \<Rightarrow> None
      | Some None \<Rightarrow> Some (Ok amount_zero)
      | Some (Some halving_div) \<Rightarrow>
          map_option (\<lambda>amount. map_err InvalidAmount (try_from_u64 NonNegative (int amount)))
            (subsidy_amount net h halving_div))"

section \<open>What the subsidy is divided into\<close>

text \<open>The loop over the recipients of the stream in force.\<close>

fun stream_values ::
    "int \<Rightarrow> (funding_stream_receiver \<times> funding_stream_recipient) list \<Rightarrow> (funding_stream_receiver \<times> int) list
     \<Rightarrow> (amount_error, (funding_stream_receiver \<times> int) list) result option" where
  "stream_values expected [] results = Some (Ok results)"
| "stream_values expected ((receiver, recipient) # rs) results =
     then_try (amount_mul NonNegative expected (fr_numerator recipient)) (\<lambda>product.
     then_try (amount_div NonNegative product FUNDING_STREAM_RECEIVER_DENOMINATOR) (\<lambda>amount_value.
       stream_values expected rs (hash_insert receiver amount_value results)))"

definition funding_stream_values ::
    "param_libs \<Rightarrow> height \<Rightarrow> chain_network \<Rightarrow> int
     \<Rightarrow> (amount_error, (funding_stream_receiver \<times> int) list) result option" where
  "funding_stream_values L h net expected_block_subsidy =
     (if amount_is_zero expected_block_subsidy then Some (Ok [])
      else Option.bind (current (upgrades_of net) h) (\<lambda>nu.
        if nu \<ge> Canopy then
          Option.bind (net_funding_streams L net h) (\<lambda>streams.
            case streams of
              None \<Rightarrow> Some (Ok [])
            | Some fs \<Rightarrow> stream_values expected_block_subsidy (fs_recipients fs) [])
        else Some (Ok [])))"

definition founders_reward :: "chain_network \<Rightarrow> height \<Rightarrow> int option" where
  "founders_reward net h =
     Option.bind (halving net h) (\<lambda>n.
       if n < 1 then
         Option.bind (current (upgrades_of net) h) (\<lambda>nu.
           if nu < Canopy then
             (case block_subsidy net h of
                Some (Ok subsidy) \<Rightarrow> div_exact subsidy 5
              | _ \<Rightarrow> None)
           else Some amount_zero)
       else Some amount_zero)"

definition miner_subsidy ::
    "param_libs \<Rightarrow> height \<Rightarrow> chain_network \<Rightarrow> int \<Rightarrow> (amount_error, int) result option" where
  "miner_subsidy L h net expected_block_subsidy =
     Option.bind (founders_reward net h) (\<lambda>reward.
     then_try (funding_stream_values L h net expected_block_subsidy) (\<lambda>streams.
     then_try (amount_sum NonNegative (map snd streams)) (\<lambda>funding_streams_sum.
     then_try (amount_sub NonNegative expected_block_subsidy reward) (\<lambda>rest.
       amount_sub NonNegative rest funding_streams_sum))))"

text \<open>The outer \<open>None\<close> is the division by zero, the inner one the function's own.\<close>

definition founders_reward_address :: "param_libs \<Rightarrow> chain_network \<Rightarrow> height \<Rightarrow> address option option" where
  "founders_reward_address L net h =
     (let founders_address_list = founder_address_list net;
          num_founder_addresses = length founders_address_list;
          shift = height_nat (slow_start_shift net)
      in case u32_from_i64 (pre_blossom_halving_interval net) of
           None \<Rightarrow> Some None
         | Some pre \<Rightarrow>
             if shift + pre \<ge> 2 ^ 32 then Some None
             else
               let change_interval = (shift + pre + num_founder_addresses - 1) div num_founder_addresses
               in Option.bind (current (upgrades_of net) h) (\<lambda>nu.
                    let adjusted_height =
                      (if nu < Blossom then Some (height_nat h)
                       else Option.bind (activation_height Blossom (upgrades_of net)) (\<lambda>b.
                         if height_nat h < height_nat b then None
                         else
                           let v = height_nat b
                             + (height_nat h - height_nat b) div BLOSSOM_POW_TARGET_SPACING_RATIO
                           in if v < 2 ^ 32 then Some v else None))
                    in case adjusted_height of
                         None \<Rightarrow> Some None
                       | Some adjusted \<Rightarrow>
                           if change_interval = 0 then None
                           else
                             let index = adjusted div change_interval
                             in Some (if index < num_founder_addresses
                                      then ok (address_from_str (pl_addr L) (founders_address_list ! index))
                                      else None)))"

section \<open>Address periods of funding streams\<close>

text \<open>All of these panics (\<open>None\<close>) are reachable only with configured parameters.\<close>

definition num_funding_stream_addresses_required_for_height_range ::
    "param_libs \<Rightarrow> funding_streams \<Rightarrow> chain_network \<Rightarrow> nat option" where
  "num_funding_stream_addresses_required_for_height_range L fs net =
     Option.bind (ok (height_previous (fs_end fs))) (\<lambda>last.
     Option.bind (funding_stream_address_period L last net) (\<lambda>last_period.
       if 1 + last_period \<ge> 2 ^ 32 then None
       else Option.bind (funding_stream_address_period L (fs_start fs) net) (\<lambda>first_period.
         if 1 + last_period < first_period then None else Some (1 + last_period - first_period))))"

definition check_funding_stream_address_period :: "param_libs \<Rightarrow> funding_streams \<Rightarrow> chain_network \<Rightarrow> unit option" where
  "check_funding_stream_address_period L fs net =
     Option.bind (num_funding_stream_addresses_required_for_height_range L fs net) (\<lambda>expected.
       if list_all (\<lambda>(receiver, recipient). receiver = Deferred \<or>
            (expected \<le> length (fr_addresses recipient) \<and>
             list_all (\<lambda>address. network_kind address = TestnetKind) (fr_addresses recipient)))
            (fs_recipients fs)
       then Some () else None)"

definition extend_funding_streams :: "param_libs \<Rightarrow> parameters_builder \<Rightarrow> parameters_builder option" where
  "extend_funding_streams L self =
     (let network = to_network_unchecked self
      in map_option (\<lambda>streams. self\<lparr>pb_funding_streams := streams\<rparr>)
        (sequence (map (\<lambda>fs.
           Option.bind (num_funding_stream_addresses_required_for_height_range L fs network)
             (\<lambda>n. extend_recipient_addresses n fs))
           (pb_funding_streams self))))"

text \<open>The builder's final checks.\<close>

definition to_network ::
    "param_libs \<Rightarrow> parameters_builder \<Rightarrow> (parameters_builder_error, chain_network) result option" where
  "to_network L self =
     (let network = to_network_unchecked self
      in Option.bind (sequence (map (\<lambda>fs. check_funding_stream_address_period L fs network)
           (pb_funding_streams self))) (\<lambda>_.
         Option.bind (net_checkpoint_list L network) (\<lambda>checkpoints.
         Option.bind (genesis_hash L network) (\<lambda>genesis.
           if checkpoints_hash checkpoints (Height 0) \<noteq> Some genesis then Some (Err CheckpointGenesisMismatch)
           else
             Option.bind (max_height checkpoints) (\<lambda>max.
             Option.bind (mandatory_checkpoint_height network) (\<lambda>mandatory.
               if max < mandatory then Some (Err InsufficientCheckpointCoverage)
               else Some (Ok network)))))))"

definition new_regtest ::
    "param_libs \<Rightarrow> regtest_parameters \<Rightarrow> (parameters_builder_error, parameters) result option" where
  "new_regtest L params =
     then_try (regtest_builder L params) (\<lambda>b.
       map_option (\<lambda>b. Ok (as_regtest (finish b)))
         (if rg_extend_funding_stream_addresses_as_required params = Some True
          then extend_funding_streams L b else Some b))"

text \<open>\<open>Network::new_regtest\<close> panics on an error.\<close>

definition net_new_regtest :: "param_libs \<Rightarrow> regtest_parameters \<Rightarrow> chain_network option" where
  "net_new_regtest L params = Option.bind (new_regtest L params) (\<lambda>r. map_option TestnetChain (ok r))"

section \<open>Mainnet\<close>

lemma mainnet_activation_heights:
  "activation_height Blossom Mainnet = Some (Height 653600)"
  "activation_height Canopy Mainnet = Some (Height 1046400)"
  unfolding activation_height.simps [of Blossom] activation_height.simps [of Canopy] mainnet_activations
  by (simp_all add: MAINNET_ACTIVATION_HEIGHTS_def)

lemma height_less_nat: "h < Height w \<longleftrightarrow> height_nat h < unat w"
  by (simp add: less_height_def height_nat_def word_less_nat_alt)

lemma height_le_nat: "Height w \<le> h \<longleftrightarrow> unat w \<le> height_nat h"
  by (simp add: less_eq_height_def height_nat_def word_le_nat_alt)

lemma height_diff_nat: "height_diff a b = int (height_nat a) - int (height_nat b)"
  by (simp add: height_diff_def height_nat_def)

lemma height_nat_bound: "height_nat h < 2 ^ 32"
  using unsigned_less [of "height_u32 h"] by (simp add: height_nat_def)

lemma mainnet_current:
  "\<exists>nu. current Mainnet h = Some nu \<and> (nu < Blossom \<longleftrightarrow> height_nat h < 653600)
     \<and> (nu < Canopy \<longleftrightarrow> height_nat h < 1046400)"
proof -
  obtain nu where nu: "current Mainnet h = Some nu"
    using upgrade_in_force_from_activation [OF builtin_activations_well_formed(1), of h Blossom] by blast
  have "Blossom \<le> nu \<longleftrightarrow> Height 653600 \<le> h"
    using upgrade_in_force_from_activation [OF builtin_activations_well_formed(1), of h Blossom] nu
    by (simp add: mainnet_activation_heights)
  moreover have "Canopy \<le> nu \<longleftrightarrow> Height 1046400 \<le> h"
    using upgrade_in_force_from_activation [OF builtin_activations_well_formed(1), of h Canopy] nu
    by (simp add: mainnet_activation_heights)
  ultimately show ?thesis using nu by (auto simp: height_le_nat not_le)
qed

lemma div_trunc_nonneg: "0 \<le> a \<Longrightarrow> 0 < b \<Longrightarrow> div_trunc a b = a div b"
  by (cases "a = 0") (simp_all add: div_trunc_def)

lemma div_i64_nonneg:
  assumes "0 \<le> a" "0 < b" "a < 2 ^ 63"
  shows "div_i64 a b = Some (a div b)"
proof -
  have "a div b \<le> a" using zdiv_mono2 [of a 1 b] assms(1,2) by simp
  moreover have "0 \<le> a div b" using assms by (simp add: pos_imp_zdiv_nonneg_iff)
  ultimately show ?thesis using assms by (simp add: div_i64_def div_trunc_nonneg int_ranges)
qed

lemmas mainnet_params = SLOW_START_INTERVAL_def SLOW_START_SHIFT_def PRE_BLOSSOM_HALVING_INTERVAL_def
  POST_BLOSSOM_HALVING_INTERVAL_def BLOSSOM_POW_TARGET_SPACING_RATIO_def

lemma slow_start_shift_mainnet: "SLOW_START_SHIFT = Height 10000"
  by (simp add: SLOW_START_SHIFT_def SLOW_START_INTERVAL_def word_arith_nat_div unat_of_nat)

lemma halving_mainnet: "halving MainnetChain h = Some ((height_nat h + 633600) div 1680000)"
proof -
  let ?n = "height_nat h"
  have small: "(?n + 633600) div 1680000 = 0" if "?n < 653600" using that by simp
  consider (slow) "?n < 10000" | (pre) "10000 \<le> ?n" "?n < 653600" | (post) "653600 \<le> ?n" by linarith
  then show ?thesis
  proof cases
    case slow
    then show ?thesis
      by (simp add: halving_def mainnet_activation_heights slow_start_shift_mainnet height_less_nat
          u32_from_i64_def)
  next
    case pre
    then have "div_i64 (int ?n - 10000) 840000 = Some 0"
      by (subst div_i64_nonneg) simp_all
    with pre show ?thesis
      by (simp add: halving_def mainnet_activation_heights slow_start_shift_mainnet height_less_nat
          height_diff_nat height_nat_def [of "Height _"] u32_from_i64_def PRE_BLOSSOM_HALVING_INTERVAL_def)
  next
    case post
    have "633600 + int ?n = int (?n + 633600)" by simp
    then have quot: "(633600 + int ?n) div 1680000 = int ((?n + 633600) div 1680000)" by (simp only: zdiv_int of_nat_numeral)
    have "(?n + 633600) div 1680000 < 2 ^ 32" using height_nat_bound [of h] by simp
    then have "u32_from_i64 (int ((?n + 633600) div 1680000)) = Some ((?n + 633600) div 1680000)"
      by (simp add: u32_from_i64_def)
    moreover have "div_i64 (633600 + int ?n) 1680000 = Some (int ((?n + 633600) div 1680000))"
      using height_nat_bound [of h] quot by (subst div_i64_nonneg) simp_all
    ultimately show ?thesis using post
      by (simp add: halving_def mainnet_activation_heights slow_start_shift_mainnet height_less_nat
          height_diff_nat height_nat_def [of "Height _"] POST_BLOSSOM_HALVING_INTERVAL_def
          PRE_BLOSSOM_HALVING_INTERVAL_def BLOSSOM_POW_TARGET_SPACING_RATIO_def Let_def)
  qed
qed

text \<open>The subsidy of a Mainnet block in closed form.\<close>

definition mainnet_subsidy :: "nat \<Rightarrow> nat" where
  "mainnet_subsidy n =
     (if n < 10000 then 62500 * n
      else if n < 20000 then 62500 * (n + 1)
      else if n < 653600 then 1250000000
      else 625000000 div 2 ^ ((n + 633600) div 1680000))"

lemma mainnet_subsidy_bound: "mainnet_subsidy n \<le> 1250000000"
proof -
  have "625000000 div 2 ^ k \<le> (625000000 :: nat)" for k by simp
  then have "625000000 div 2 ^ k \<le> (1250000000 :: nat)" for k by (rule order_trans) simp
  then show ?thesis by (simp add: mainnet_subsidy_def)
qed

lemma block_subsidy_mainnet:
  "block_subsidy MainnetChain h = Some (Ok (int (mainnet_subsidy (height_nat h))))"
proof -
  let ?n = "height_nat h" and ?k = "(height_nat h + 633600) div 1680000"
  obtain nu where nu: "current Mainnet h = Some nu" "nu < Blossom \<longleftrightarrow> ?n < 653600"
    using mainnet_current [of h] by blast
  have in_range: "try_from_u64 NonNegative (int (mainnet_subsidy ?n)) = Ok (int (mainnet_subsidy ?n))"
    using mainnet_subsidy_bound [of ?n] by (simp add: try_from_u64_def int_ranges money)
  have max: "MAX_BLOCK_SUBSIDY = 1250000000" by (simp add: MAX_BLOCK_SUBSIDY_def COIN_def)
  show ?thesis
  proof (cases "?k < 64")
    case False
    then have "(2 :: nat) ^ 64 \<le> 2 ^ ?k" by (intro power_increasing) simp_all
    then have "625000000 < (2 :: nat) ^ ?k" by (rule less_le_trans [rotated]) simp
    then have "625000000 div (2 :: nat) ^ ?k = 0" by (rule div_less)
    moreover have "\<not> ?n < 653600" using False by simp
    ultimately have "mainnet_subsidy ?n = 0" by (simp add: mainnet_subsidy_def)
    with False show ?thesis
      by (simp add: block_subsidy_def halving_divisor_def halving_mainnet amount_zero_def)
  next
    case True
    have "subsidy_amount MainnetChain h (2 ^ ?k) = Some (mainnet_subsidy ?n)"
    proof (cases "?n < 20000")
      case True
      then show ?thesis
        by (simp add: subsidy_amount_def SLOW_START_INTERVAL_def slow_start_shift_mainnet height_less_nat max
            Let_def height_nat_def [of "Height _"] mainnet_subsidy_def)
    next
      case False
      have "?k = 0" if "?n < 653600" using that by simp
      with False nu show ?thesis
        by (simp add: subsidy_amount_def SLOW_START_INTERVAL_def height_less_nat max mainnet_subsidy_def
            BLOSSOM_POW_TARGET_SPACING_RATIO_def Let_def)
    qed
    with True in_range show ?thesis
      by (simp add: block_subsidy_def halving_divisor_def halving_mainnet)
  qed
qed

section \<open>The sum of all subsidies\<close>

definition issued :: "nat \<Rightarrow> nat" where
  "issued n = (\<Sum>i<n. mainnet_subsidy i)"

lemma issued_Suc: "issued (Suc n) = issued n + mainnet_subsidy n"
  by (simp add: issued_def)

lemma issued_split: "a \<le> b \<Longrightarrow> issued b = issued a + (\<Sum>i = a..<b. mainnet_subsidy i)"
  unfolding issued_def lessThan_atLeast0 by (simp add: sum.atLeastLessThan_concat)

lemma issued_mono: "a \<le> b \<Longrightarrow> issued a \<le> issued b"
  using issued_split by simp

lemma issued_constant:
  assumes "a \<le> b" "\<And>i. a \<le> i \<Longrightarrow> i < b \<Longrightarrow> mainnet_subsidy i = s"
  shows "issued b = issued a + (b - a) * s"
proof -
  have "(\<Sum>i = a..<b. mainnet_subsidy i) = (\<Sum>i = a..<b. s)"
    by (rule sum.cong) (simp_all add: assms(2))
  then show ?thesis using issued_split [OF assms(1)] by simp
qed

text \<open>The sums of the slow start, doubled to avoid the division of the closed form.\<close>

lemma issued_first_half: "n \<le> 10000 \<Longrightarrow> 2 * issued n = 62500 * (n * (n - 1))"
proof (induction n)
  case (Suc n)
  have "issued (Suc n) = issued n + 62500 * n" using Suc.prems by (simp add: issued_def mainnet_subsidy_def)
  moreover have "2 * issued n = 62500 * (n * (n - 1))" using Suc by simp
  moreover have "n * (n - 1) + 2 * n = Suc n * (Suc n - 1)" by (cases n) simp_all
  ultimately show ?case by (simp add: algebra_simps)
qed (simp add: issued_def)

lemma issued_second_half:
  "n \<le> 10000 \<Longrightarrow> 2 * issued (10000 + n) = 2 * issued 10000 + 62500 * (n * (n + 20001))"
proof (induction n)
  case (Suc n)
  have "issued (10000 + Suc n) = issued (10000 + n) + 62500 * (10000 + n + 1)"
    using issued_Suc [of "10000 + n"] Suc.prems by (simp add: mainnet_subsidy_def)
  with Suc show ?case by (simp add: algebra_simps)
qed simp

lemma issued_at_first_halving: "issued 1046400 = 1050000000000000"
proof -
  have "issued 10000 = 3124687500000" using issued_first_half [of 10000] by simp
  then have "issued 20000 = 12500000000000" using issued_second_half [of 10000] by simp
  moreover have "issued 653600 = issued 20000 + (653600 - 20000) * 1250000000"
    by (rule issued_constant) (simp_all add: mainnet_subsidy_def)
  moreover have "issued 1046400 = issued 653600 + (1046400 - 653600) * 625000000"
    by (rule issued_constant) (simp_all add: mainnet_subsidy_def)
  ultimately show ?thesis by simp
qed

text \<open>After the first halving each further interval issues at most half of what was still allowed.\<close>

lemma issued_at_halving:
  "issued (1680000 * Suc k - 633600) * 2 ^ k + 1050000000000000 \<le> 2100000000000000 * 2 ^ k"
proof (induction k)
  case 0
  then show ?case by (simp add: issued_at_first_halving)
next
  case (Suc k)
  let ?a = "1680000 * Suc k - 633600" and ?b = "1680000 * Suc (Suc k) - 633600"
  let ?s = "625000000 div 2 ^ Suc k :: nat"
  have "issued ?b = issued ?a + (?b - ?a) * ?s"
  proof (rule issued_constant)
    fix i assume i: "?a \<le> i" "i < ?b"
    then have "(i + 633600) div 1680000 = Suc k" by (intro div_nat_eqI) simp_all
    then show "mainnet_subsidy i = ?s" using i by (simp add: mainnet_subsidy_def)
  qed simp
  moreover have "?b - ?a = 1680000" by simp
  ultimately have "issued ?b * 2 ^ Suc k = 2 * (issued ?a * 2 ^ k) + 1680000 * (?s * 2 ^ Suc k)"
    by (simp add: algebra_simps)
  moreover have "?s * 2 ^ Suc k \<le> 625000000" by (rule div_times_less_eq_dividend)
  ultimately show ?case using Suc.IH by (simp only: power_Suc)
qed

lemma issued_capped: "issued n \<le> 2100000000000000"
proof -
  have "issued n \<le> issued (1680000 * Suc n - 633600)" by (rule issued_mono) simp
  moreover have "issued (1680000 * Suc n - 633600) * 2 ^ n \<le> 2100000000000000 * 2 ^ n"
    using issued_at_halving [of n] by linarith
  then have "issued (1680000 * Suc n - 633600) \<le> 2100000000000000" by simp
  ultimately show ?thesis by (rule order_trans)
qed

section \<open>Halving heights\<close>

text \<open>
  The networks on which \<open>height_for_halving\<close> is the start of the halving: Blossom is active, not
  before the slow start shift, and the first halving does not come before it.
\<close>

definition regular_halvings :: "chain_network \<Rightarrow> height \<Rightarrow> bool" where
  "regular_halvings net blossom \<longleftrightarrow>
     activation_height Blossom (upgrades_of net) = Some blossom \<and>
     slow_start_shift net \<le> blossom \<and> blossom \<le> HEIGHT_MAX \<and>
     0 < pre_blossom_halving_interval net \<and> pre_blossom_halving_interval net < 2 ^ 30 \<and>
     post_blossom_halving_interval net = 2 * pre_blossom_halving_interval net \<and>
     int (height_nat blossom) \<le> pre_blossom_halving_interval net"

lemma int_le_div_iff: "0 < c \<Longrightarrow> n \<le> a div c \<longleftrightarrow> n * c \<le> (a :: int)"
proof
  assume c: "0 < c" and "n \<le> a div c"
  then have "n * c \<le> (a div c) * c" by (simp add: mult_right_mono)
  also have "\<dots> \<le> a" using minus_mod_eq_div_mult [of a c] pos_mod_sign [OF c, of a] by linarith
  finally show "n * c \<le> a" .
next
  assume c: "0 < c" and "n * c \<le> a"
  then have "(n * c) div c \<le> a div c" by (intro zdiv_mono1)
  with c show "n \<le> a div c" by simp
qed

lemma height_le_iff_nat: "a \<le> b \<longleftrightarrow> height_nat a \<le> height_nat b"
  by (simp add: less_eq_height_def height_nat_def word_le_nat_alt)

lemma height_less_iff_nat: "a < b \<longleftrightarrow> height_nat a < height_nat b"
  by (simp add: less_height_def height_nat_def word_less_nat_alt)

lemma height_nat_max: "h \<le> HEIGHT_MAX \<longleftrightarrow> height_nat h < 2 ^ 31"
  by (simp add: height_le_iff_nat HEIGHT_MAX_def height_nat_def [of "Height _"] less_eq_iff_succ_less)

lemma halving_regular:
  assumes "regular_halvings net blossom"
  shows "halving net x = Some (if x < blossom then 0
    else nat ((int (height_nat blossom) + (int (height_nat x) - int (height_nat (slow_start_shift net)) * 2))
              div (2 * pre_blossom_halving_interval net)))"
proof -
  let ?s = "int (height_nat (slow_start_shift net))" and ?b = "int (height_nat blossom)"
    and ?x = "int (height_nat x)" and ?p = "pre_blossom_halving_interval net"
  note r = assms [unfolded regular_halvings_def]
  have sb: "?s \<le> ?b" "?b < 2 ^ 31" "?x < 2 ^ 32"
    using r height_nat_bound [of x] by (auto simp: height_le_iff_nat height_nat_max [symmetric])
  show ?thesis
  proof (cases "x < blossom")
    case True
    have "div_i64 (?x - ?s) ?p = Some 0" if "\<not> x < slow_start_shift net"
      using that True r sb by (subst div_i64_nonneg) (auto simp: height_less_iff_nat)
    with True r show ?thesis
      by (simp add: halving_def Let_def height_diff_nat u32_from_i64_def)
  next
    case False
    then have late: "\<not> x < slow_start_shift net" "?b \<le> ?x" using sb by (auto simp: height_less_iff_nat)
    let ?n = "?b + (?x - ?s * 2)"
    have n: "0 \<le> ?n" "?n < 2 ^ 33" using sb late by simp_all
    have "(?b - ?s) * 2 + (?x - ?b) = ?n" by simp
    moreover have "div_i64 ?n (2 * ?p) = Some (?n div (2 * ?p))"
      using n r by (intro div_i64_nonneg) simp_all
    moreover have "?n div (2 * ?p) \<le> ?n div 2" using n r by (intro zdiv_mono2) simp_all
    then have "?n div (2 * ?p) < 2 ^ 32" using n by simp
    moreover have "0 \<le> ?n div (2 * ?p)" using n r by (simp add: pos_imp_zdiv_nonneg_iff)
    ultimately show ?thesis using False late r
      by (simp add: halving_def Let_def height_diff_nat u32_from_i64_def BLOSSOM_POW_TARGET_SPACING_RATIO_def)
  qed
qed

lemma height_for_halving_regular:
  assumes "regular_halvings net blossom" "0 < n" "n < 2 ^ 32"
  shows "height_for_halving n net =
    try_into_height (2 * int (height_nat (slow_start_shift net)) + int n * pre_blossom_halving_interval net * 2
      - int (height_nat blossom))"
proof -
  let ?s = "int (height_nat (slow_start_shift net))" and ?b = "int (height_nat blossom)"
    and ?p = "pre_blossom_halving_interval net"
  note r = assms(1) [unfolded regular_halvings_def]
  have b: "?b < 2 ^ 31" "0 \<le> ?b" using r by (simp_all add: height_nat_max)
  have s: "?s \<le> ?b" "0 \<le> ?s" using r by (simp_all add: height_le_iff_nat)
  define u where "u = int n * ?p"
  have "?p \<le> u" using assms(2) r by (simp add: u_def mult_le_cancel_right1)
  then have low: "?b \<le> u" using r by linarith
  have "u \<le> (2 ^ 32) * (2 ^ 30 - 1)" unfolding u_def using assms r by (intro mult_mono) simp_all
  then have high: "u \<le> 4611686014132420608" by simp
  have id: "wrap_i64 (u - ?b) = u - ?b" using low high b by (intro wrap_i64_id) simp_all
  have uint: "uint (height_u32 h) = int (height_nat h)" for h by (simp add: height_nat_def)
  show ?thesis
    using r assms(2) low high b s id
    by (simp add: height_for_halving_def Let_def uint checked_mul_i64_def checked_add_i64_def int_ranges
        BLOSSOM_POW_TARGET_SPACING_RATIO_def u_def [symmetric])
qed

lemma try_into_height_nat:
  "try_into_height v = (if 0 \<le> v \<and> v < 2 ^ 31 then Some (Height (word_of_int v)) else None)"
  by (simp add: try_into_height_def checked_height)

lemma halving_reached_iff:
  assumes "regular_halvings net blossom" "n < 2 ^ 32" "x \<le> HEIGHT_MAX"
  shows "\<exists>m. halving net x = Some m
    \<and> (n \<le> m \<longleftrightarrow> (case height_for_halving n net of Some h \<Rightarrow> h \<le> x | None \<Rightarrow> False))"
proof (cases "n = 0")
  case True
  then show ?thesis
    using halving_regular [OF assms(1), of x] by (simp add: height_for_halving_def least_height)
next
  case False
  let ?s = "int (height_nat (slow_start_shift net))" and ?b = "int (height_nat blossom)"
    and ?x = "int (height_nat x)" and ?p = "pre_blossom_halving_interval net"
  define start where "start = 2 * ?s + int n * ?p * 2 - ?b"
  note r = assms(1) [unfolded regular_halvings_def]
  have sb: "?s \<le> ?b" using r by (simp add: height_le_iff_nat)
  have xb: "?x < 2 ^ 31" using assms(3) by (simp only: height_nat_max) simp
  have "?p \<le> int n * ?p" using False r by (simp add: mult_le_cancel_right1)
  moreover have "?b \<le> ?p" using r by simp
  ultimately have low: "?b \<le> start" "0 \<le> start" unfolding start_def by linarith+
  have "height_for_halving n net = try_into_height start"
    using height_for_halving_regular [OF assms(1), of n] False assms(2) by (simp add: start_def)
  then have hfh: "(case height_for_halving n net of Some h \<Rightarrow> h \<le> x | None \<Rightarrow> False) \<longleftrightarrow> start \<le> ?x"
    using low sb xb by (auto simp: try_into_height_nat less_eq_height_def height_nat_def word_le_def
        unsigned_of_int take_bit_int_eq_self)
  let ?q = "(?b + (?x - ?s * 2)) div (2 * ?p)"
  have "int n \<le> ?q \<longleftrightarrow> start \<le> ?x"
    using r int_le_div_iff [of "2 * ?p" "int n" "?b + (?x - ?s * 2)"]
    by (simp add: start_def algebra_simps)
  then have "\<not> x < blossom \<Longrightarrow> n \<le> nat ?q \<longleftrightarrow> start \<le> ?x" using False by linarith
  moreover have "x < blossom \<Longrightarrow> \<not> start \<le> ?x" using low by (simp add: height_less_iff_nat)
  ultimately show ?thesis
    using halving_regular [OF assms(1), of x] hfh False by (cases "x < blossom") simp_all
qed

lemma mainnet_regular: "regular_halvings MainnetChain (Height 653600)"
  by (simp add: regular_halvings_def mainnet_activation_heights slow_start_shift_mainnet height_le_iff_nat
      height_nat_def HEIGHT_MAX_def PRE_BLOSSOM_HALVING_INTERVAL_def POST_BLOSSOM_HALVING_INTERVAL_def
      BLOSSOM_POW_TARGET_SPACING_RATIO_def)

lemma testnet_blossom: "activation_height Blossom (Testnet (btree_of TESTNET_ACTIVATION_HEIGHTS)) = Some (Height 584000)"
  by (simp add: activation_height.simps [of Blossom] btree_of_def TESTNET_ACTIVATION_HEIGHTS_def less_height_def)

lemma default_testnet_regular:
  assumes "parameters_default L = Some p"
  shows "regular_halvings (TestnetChain p) (Height 584000)"
proof -
  obtain b where b: "builder_default L = Some b" "p = (finish b)\<lparr>par_network_name := ''Testnet''\<rparr>"
    using assms by (auto simp: parameters_default_def)
  then have "par_activation_heights p = btree_of TESTNET_ACTIVATION_HEIGHTS"
    "par_slow_start_shift p = SLOW_START_SHIFT"
    "par_pre_blossom_halving_interval p = PRE_BLOSSOM_HALVING_INTERVAL"
    "par_post_blossom_halving_interval p = POST_BLOSSOM_HALVING_INTERVAL"
    by (auto simp: builder_default_def finish_def SLOW_START_SHIFT_def split: Option.bind_splits)
  then show ?thesis
    by (simp add: regular_halvings_def testnet_blossom slow_start_shift_mainnet height_le_iff_nat
        height_nat_def HEIGHT_MAX_def PRE_BLOSSOM_HALVING_INTERVAL_def POST_BLOSSOM_HALVING_INTERVAL_def
        BLOSSOM_POW_TARGET_SPACING_RATIO_def)
qed

lemma first_mainnet_halving: "height_for_halving 1 MainnetChain = Some (Height 1046400)"
  using height_for_halving_regular [OF mainnet_regular, of 1]
  by (simp add: slow_start_shift_mainnet height_nat_def PRE_BLOSSOM_HALVING_INTERVAL_def try_into_height_nat)

section \<open>Where the two disagree\<close>

definition short_halvings :: chain_network where
  "short_halvings =
     (case with_halving_interval 144 demo_builder of
        Ok b \<Rightarrow> to_network_unchecked b | Err _ \<Rightarrow> MainnetChain)"

lemma early_halving_height_is_late:
  "halving short_halvings (Height 10144) = Some 1"
  "height_for_halving 1 short_halvings = Some (Height 20144)"
proof -
  have net: "upgrades_of short_halvings = Testnet (btree_of TESTNET_ACTIVATION_HEIGHTS)"
    "slow_start_shift short_halvings = Height 10000"
    "pre_blossom_halving_interval short_halvings = 144"
    using slow_start_shift_mainnet
    by (simp_all add: short_halvings_def with_halving_interval_def demo_builder_def
        to_network_unchecked_def new_configured_testnet_def finish_def SLOW_START_SHIFT_def)
  show "halving short_halvings (Height 10144) = Some 1"
    by (simp add: halving_def net testnet_blossom height_less_nat height_diff_nat height_nat_def
        div_i64_def div_trunc_def int_ranges u32_from_i64_def Let_def)
  show "height_for_halving 1 short_halvings = Some (Height 20144)"
    by (simp add: height_for_halving_def net testnet_blossom Let_def checked_mul_i64_def checked_add_i64_def
        int_ranges wrap_i64_def try_into_height_nat BLOSSOM_POW_TARGET_SPACING_RATIO_def)
qed

definition early_blossom :: chain_network where
  "early_blossom =
     (case result_bind (with_activation_heights (no_configured_heights\<lparr>ca_blossom := Some 1\<rparr>) demo_builder)
             (with_halving_interval 144) of
        Ok b \<Rightarrow> to_network_unchecked b | Err _ \<Rightarrow> MainnetChain)"

lemma halving_can_panic: "halving early_blossom (Height 10000) = None"
proof -
  have c: "configured_table (no_configured_heights\<lparr>ca_blossom := Some 1\<rparr>) = [(Height 1, Blossom)]"
    by (simp add: configured_table_def configured_list_def no_configured_heights_def List.map_filter_def
        btree_of_def)
  have acc: "heights_accepted (no_configured_heights\<lparr>ca_blossom := Some 1\<rparr>)"
    unfolding heights_accepted_def c
    by (simp add: configured_list_def no_configured_heights_def
        List.map_filter_def less_eq_height_def HEIGHT_MAX_def)
  have "with_activation_heights (no_configured_heights\<lparr>ca_blossom := Some 1\<rparr>) demo_builder
      = Ok (demo_builder\<lparr>pb_activation_heights := [(Height 0, Genesis), (Height 1, Blossom)]\<rparr>)"
    using acc demo_builder_genesis configured_table_well_formed(1) [OF acc]
    by (simp add: with_activation_heights_Ok_iff c) (simp add: demo_builder_def)
  then have net: "upgrades_of early_blossom = Testnet [(Height 0, Genesis), (Height 1, Blossom)]"
    "slow_start_shift early_blossom = Height 10000"
    "post_blossom_halving_interval early_blossom = 288"
    using slow_start_shift_mainnet
    by (simp_all add: early_blossom_def with_halving_interval_def demo_builder_def
        to_network_unchecked_def new_configured_testnet_def finish_def SLOW_START_SHIFT_def
        BLOSSOM_POW_TARGET_SPACING_RATIO_def wrap_i64_def)
  have "activation_height Blossom (upgrades_of early_blossom) = Some (Height 1)"
    by (simp add: net activation_height.simps [of Blossom])
  then show ?thesis
    by (simp add: halving_def net height_less_nat height_diff_nat height_nat_def
        div_i64_def div_trunc_def int_ranges u32_from_i64_def Let_def BLOSSOM_POW_TARGET_SPACING_RATIO_def)
qed

section \<open>The division of the Mainnet subsidy\<close>

lemma sequence_Some_iff: "sequence xs = Some ys \<longleftrightarrow> xs = map Some ys"
  by (induction xs arbitrary: ys) (auto simp: bind_eq_Some_conv)

lemma sequence_not_None: "\<forall>x \<in> set xs. x \<noteq> None \<Longrightarrow> sequence xs \<noteq> None"
  by (induction xs) auto

lemma hash_insert_new: "k \<notin> fst ` set m \<Longrightarrow> hash_insert k v m = m @ [(k, v)]"
  by (induction k v m rule: hash_insert.induct) auto

lemma hash_of_distinct: "distinct (map fst xs) \<Longrightarrow> hash_of xs = xs"
proof (induction xs rule: rev_induct)
  case (snoc x xs)
  then show ?case by (cases x) (simp add: hash_of_def hash_insert_new)
qed (simp add: hash_of_def)

text \<open>The shares of a stream, in percent.\<close>

definition fs_shares :: "funding_streams \<Rightarrow> (funding_stream_receiver \<times> int) list" where
  "fs_shares fs = map (\<lambda>(k, r). (k, fr_numerator r)) (fs_recipients fs)"

lemma stream_of_shares:
  assumes "stream_of A s e rs = Some fs" "distinct (map fst rs)"
  shows "fs_start fs = s \<and> fs_end fs = e \<and> fs_shares fs = map (\<lambda>(k, n, _). (k, n)) rs"
proof -
  let ?build = "\<lambda>(receiver, numerator, addresses). map_option (Pair receiver) (recipient_new A numerator addresses)"
  obtain recipients where r: "map ?build rs = map Some recipients"
    "fs = \<lparr>fs_start = s, fs_end = e, fs_recipients = hash_of recipients\<rparr>"
    using assms(1) by (auto simp: stream_of_def sequence_Some_iff)
  have "map (\<lambda>(k, r). (k, fr_numerator r)) recipients = map (\<lambda>(k, n, _). (k, n)) rs"
    using r(1)
  proof (induction rs arbitrary: recipients)
    case (Cons x rs)
    then show ?case by (cases x; cases recipients) (auto simp: recipient_new_def)
  qed simp
  moreover from this have "map fst recipients = map fst rs"
    by (metis (mono_tags, lifting) case_prod_beta fst_conv map_eq_conv map_map comp_apply)
  ultimately show ?thesis using r(2) assms(2) by (simp add: fs_shares_def hash_of_distinct)
qed

definition mainnet_shares :: "nat \<Rightarrow> (funding_stream_receiver \<times> int) list" where
  "mainnet_shares n =
     (if 1046400 \<le> n \<and> n < 2726400 then [(Ecc, 7), (ZcashFoundation, 5), (MajorGrants, 8)]
      else if 2726400 \<le> n \<and> n < 4406400 then [(Deferred, 12), (MajorGrants, 8)]
      else [])"

lemma mainnet_streams:
  assumes "MAINNET_FUNDING_STREAMS (pl_addr L) = Some fss"
  shows "\<exists>fs. net_funding_streams L MainnetChain h = Some fs
    \<and> mainnet_shares (height_nat h) = (case fs of None \<Rightarrow> [] | Some f \<Rightarrow> fs_shares f)"
proof -
  obtain f1 f2 f3 where f: "fss = [f1, f2, f3]"
    "stream_of (pl_addr L) (Height 1046400) (Height 2726400)
       [(Ecc, 7, MAINNET_FUNDING_STREAM_ECC_ADDRESSES),
        (ZcashFoundation, 5, MAINNET_FUNDING_STREAM_ZF_ADDRESSES),
        (MajorGrants, 8, MAINNET_FUNDING_STREAM_MG_ADDRESSES)] = Some f1"
    "stream_of (pl_addr L) (Height 2726400) (Height 3146400)
       [(Deferred, 12, []), (MajorGrants, 8, MAINNET_POST_NU6_FUNDING_STREAM_FPF_ADDRESSES)] = Some f2"
    "stream_of (pl_addr L) (Height 3146400) (Height 4406400)
       [(Deferred, 12, []), (MajorGrants, 8, MAINNET_POST_NU6_1_FUNDING_STREAM_FPF_ADDRESSES)] = Some f3"
    using assms unfolding MAINNET_FUNDING_STREAMS_def MAINNET_POST_NU6_FUNDING_STREAM_START_HEIGHT_def
      POST_NU6_FUNDING_STREAM_NUM_BLOCKS_def sequence_Some_iff
    by (auto simp: Cons_eq_map_conv)
  note shape = f(2-4) [THEN stream_of_shares]
  have "net_funding_streams L MainnetChain h = Some (List.find (\<lambda>streams. in_range streams h) [f1, f2, f3])"
    by (simp add: net_funding_streams_def assms f(1))
  moreover have "mainnet_shares (height_nat h)
      = (case List.find (\<lambda>streams. in_range streams h) [f1, f2, f3] of None \<Rightarrow> [] | Some f \<Rightarrow> fs_shares f)"
    using shape by (simp add: in_range_def mainnet_shares_def height_less_nat height_le_nat)
  ultimately show ?thesis by blast
qed

lemma stream_values_of_shares:
  assumes "0 \<le> s" "s \<le> 1250000000" "distinct (map fst rs @ map fst acc)"
    "list_all (\<lambda>(_, r). 0 \<le> fr_numerator r \<and> fr_numerator r \<le> 100) rs"
  shows "stream_values s rs acc =
    Some (Ok (acc @ map (\<lambda>(k, r). (k, s * fr_numerator r div 100)) rs))"
  using assms(3,4)
proof (induction rs arbitrary: acc)
  case (Cons x rs)
  obtain k r where x: "x = (k, r)" by (cases x)
  let ?n = "fr_numerator r"
  have n: "0 \<le> ?n" "?n \<le> 100" using Cons.prems by (simp_all add: x)
  define p where "p = s * ?n"
  have "p \<le> 1250000000 * 100" unfolding p_def using assms(1,2) n by (intro mult_mono) simp_all
  then have p: "0 \<le> p" "p \<le> 125000000000" unfolding p_def using assms(1) n by simp_all
  have "amount_mul NonNegative s ?n = Some (Ok p)"
    using assms(1,2) n p by (subst amount_mul_valid) (simp_all add: int_ranges money p_def [symmetric])
  moreover have "amount_div NonNegative p 100 = Some (Ok (p div 100))"
    using p amount_div_valid [of NonNegative p 100] by (simp add: div_trunc_nonneg int_ranges money)
  moreover have "hash_insert k v acc = acc @ [(k, v)]" for v
    using Cons.prems(1) by (intro hash_insert_new) (auto simp: x)
  ultimately show ?case
    using Cons.IH [of "acc @ [(k, p div 100)]"] Cons.prems
    by (simp add: x p_def FUNDING_STREAM_RECEIVER_DENOMINATOR_def)
qed simp

text \<open>Every subsidy is used up when the halvings have divided it below one zatoshi.\<close>

lemma mainnet_subsidy_zero: "mainnet_subsidy n = 0 \<longleftrightarrow> n = 0 \<or> 49766400 \<le> n"
proof (cases "n < 653600")
  case False
  let ?k = "(n + 633600) div 1680000"
  have "625000000 < (2 :: nat) ^ ?k \<longleftrightarrow> 30 \<le> ?k"
  proof
    assume "625000000 < (2 :: nat) ^ ?k"
    then have "(2 :: nat) ^ 29 < 2 ^ ?k" by simp
    then have "29 < ?k" by (rule power_less_imp_less_exp [rotated]) simp
    then show "30 \<le> ?k" by simp
  next
    assume "30 \<le> ?k"
    then have "(2 :: nat) ^ 30 \<le> 2 ^ ?k" by (intro power_increasing) simp_all
    then show "625000000 < (2 :: nat) ^ ?k" by simp
  qed
  moreover have "30 \<le> ?k \<longleftrightarrow> 49766400 \<le> n" using less_eq_div_iff_mult_less_eq [of 1680000 30 "n + 633600"] by simp
  ultimately show ?thesis using False by (simp add: mainnet_subsidy_def div_eq_0_iff)
qed (simp add: mainnet_subsidy_def)

lemma founders_reward_mainnet:
  "founders_reward MainnetChain h =
     Some (if height_nat h < 1046400 then int (mainnet_subsidy (height_nat h)) div 5 else 0)"
proof -
  let ?n = "height_nat h"
  obtain nu where nu: "current Mainnet h = Some nu" "nu < Canopy \<longleftrightarrow> ?n < 1046400"
    using mainnet_current [of h] by blast
  have first: "(?n + 633600) div 1680000 < 1 \<longleftrightarrow> ?n < 1046400" by auto
  show ?thesis
  proof (cases "?n < 1046400")
    case True
    have "5 dvd mainnet_subsidy ?n"
      using first True by (simp add: mainnet_subsidy_def dvd_mult2 del: div_eq_0_iff)
    then have "5 dvd int (mainnet_subsidy ?n)" by presburger
    then have "div_exact (int (mainnet_subsidy ?n)) 5 = Some (int (mainnet_subsidy ?n) div 5)"
      using mainnet_subsidy_bound [of ?n]
      by (auto simp: div_exact_def div_trunc_nonneg rem_trunc_def int_ranges)
    with True nu first show ?thesis
      by (simp add: founders_reward_def halving_mainnet block_subsidy_mainnet del: div_eq_0_iff)
  next
    case False
    with nu first show ?thesis
      by (simp add: founders_reward_def halving_mainnet amount_zero_def del: div_eq_0_iff)
  qed
qed

lemma mainnet_shares_shape:
  "distinct (map fst (mainnet_shares n))" "list_all (\<lambda>(_, p). 0 \<le> p \<and> p \<le> 100) (mainnet_shares n)"
  "n < 1046400 \<Longrightarrow> mainnet_shares n = []" "mainnet_subsidy n = 0 \<Longrightarrow> mainnet_shares n = []"
  by (auto simp: mainnet_shares_def mainnet_subsidy_zero)

definition parts :: "int \<Rightarrow> (funding_stream_receiver \<times> int) list \<Rightarrow> (funding_stream_receiver \<times> int) list" where
  "parts s shares = map (\<lambda>(k, p). (k, s * p div 100)) shares"

lemma funding_stream_values_mainnet:
  assumes "MAINNET_FUNDING_STREAMS (pl_addr L) = Some fss"
  shows "funding_stream_values L h MainnetChain (int (mainnet_subsidy (height_nat h)))
    = Some (Ok (parts (int (mainnet_subsidy (height_nat h))) (mainnet_shares (height_nat h))))"
proof -
  let ?n = "height_nat h" and ?s = "int (mainnet_subsidy (height_nat h))"
  obtain fs where fs: "net_funding_streams L MainnetChain h = Some fs"
    "mainnet_shares ?n = (case fs of None \<Rightarrow> [] | Some f \<Rightarrow> fs_shares f)"
    using mainnet_streams [OF assms] by blast
  obtain nu where nu: "current Mainnet h = Some nu" "nu < Canopy \<longleftrightarrow> ?n < 1046400"
    using mainnet_current [of h] by blast
  show ?thesis
  proof (cases "mainnet_subsidy ?n = 0 \<or> ?n < 1046400")
    case True
    then have "mainnet_shares ?n = []" using mainnet_shares_shape(3,4) by blast
    with True nu show ?thesis
      by (auto simp: funding_stream_values_def amount_is_zero_def amount_zero_def parts_def not_le)
  next
    case False
    then have ge: "Canopy \<le> nu" using nu(2) by (simp add: not_less)
    show ?thesis
    proof (cases fs)
      case None
      with False fs nu ge show ?thesis
        by (simp add: funding_stream_values_def amount_is_zero_def amount_zero_def parts_def)
    next
      case (Some f)
      then have sh: "fs_shares f = mainnet_shares ?n" using fs(2) by simp
      have "map fst (fs_recipients f) = map fst (mainnet_shares ?n)"
        unfolding sh [symmetric] fs_shares_def by (simp add: case_prod_beta comp_def)
      then have d: "distinct (map fst (fs_recipients f))" using mainnet_shares_shape(1) by simp
      have "list_all (\<lambda>(_, p). 0 \<le> p \<and> p \<le> 100) (fs_shares f)"
        unfolding sh by (rule mainnet_shares_shape(2))
      then have "list_all (\<lambda>(_, r). 0 \<le> fr_numerator r \<and> fr_numerator r \<le> 100) (fs_recipients f)"
        by (auto simp: fs_shares_def list_all_iff)
      then have "stream_values ?s (fs_recipients f) []
          = Some (Ok (map (\<lambda>(k, r). (k, ?s * fr_numerator r div 100)) (fs_recipients f)))"
        using d mainnet_subsidy_bound [of ?n] by (subst stream_values_of_shares) simp_all
      moreover have "parts ?s (mainnet_shares ?n)
          = map (\<lambda>(k, r). (k, ?s * fr_numerator r div 100)) (fs_recipients f)"
        unfolding sh [symmetric] by (simp add: parts_def fs_shares_def case_prod_beta comp_def)
      ultimately show ?thesis using False fs(1) Some nu ge
        by (simp add: funding_stream_values_def amount_is_zero_def amount_zero_def)
    qed
  qed
qed

lemma parts_bound:
  assumes "0 \<le> s" "list_all (\<lambda>(_, p). 0 \<le> p) shares"
  shows "0 \<le> sum_list (map snd (parts s shares))
    \<and> 100 * sum_list (map snd (parts s shares)) \<le> s * sum_list (map snd shares)
    \<and> list_all (\<lambda>v. 0 \<le> v) (map snd (parts s shares))"
  using assms(2)
proof (induction shares)
  case (Cons x shares)
  obtain k p where x: "x = (k, p)" by (cases x)
  have "100 * (s * p div 100) \<le> s * p" by simp
  moreover have "0 \<le> s * p div 100" 
    using Cons.prems assms(1) x pos_imp_zdiv_nonneg_iff [of 100 "s * p"] by simp
  ultimately show ?case using Cons x by (simp add: parts_def algebra_simps)
qed (simp add: parts_def)

lemma amount_sum_nonneg:
  assumes "list_all (\<lambda>v. 0 \<le> v) xs" "sum_list xs \<le> MAX_MONEY"
  shows "amount_sum NonNegative xs = Some (Ok (sum_list xs))"
proof -
  have "amount_sum_from NonNegative acc xs = Some (Ok (acc + sum_list xs))"
    if "0 \<le> acc" "acc + sum_list xs \<le> MAX_MONEY" for acc
    using that assms(1)
  proof (induction xs arbitrary: acc)
    case (Cons x xs)
    have "0 \<le> sum_list xs" using Cons.prems(3) by (intro sum_list_nonneg) (simp add: list_all_iff)
    then have "amount_add NonNegative acc x = Some (Ok (acc + x))"
      using Cons.prems by (subst amount_add_valid) simp_all
    then show ?case using Cons.IH [of "acc + x"] Cons.prems by (simp add: add.assoc)
  qed simp
  from this [of 0] assms(2) show ?thesis by (simp add: amount_sum_def amount_zero_def)
qed

section \<open>Properties\<close>

text \<open>
  C25. The subsidy of every Mainnet block is computed without an error or a panic and is at most 12.5
  ZEC; the subsidies of any number of blocks from genesis on never exceed \<open>MAX_MONEY\<close>, those up
  to the first halving are exactly half of it, and from height 49766400 on there is none.
\<close>

theorem mainnet_issuance_is_capped:
  "block_subsidy MainnetChain h = Some (Ok (int (mainnet_subsidy (height_nat h))))
   \<and> mainnet_subsidy (height_nat h) \<le> MAX_BLOCK_SUBSIDY
   \<and> int (\<Sum>i<n. mainnet_subsidy i) \<le> MAX_MONEY
   \<and> int (\<Sum>i<1046400. mainnet_subsidy i) = MAX_MONEY div 2
   \<and> (mainnet_subsidy n = 0 \<longleftrightarrow> n = 0 \<or> 49766400 \<le> n)"
proof -
  have max: "MAX_BLOCK_SUBSIDY = 1250000000" by (simp add: MAX_BLOCK_SUBSIDY_def COIN_def)
  have "int (issued n) \<le> MAX_MONEY" using issued_capped [of n] by (simp add: money)
  moreover have "int (issued 1046400) = MAX_MONEY div 2" by (simp add: issued_at_first_halving money)
  ultimately show ?thesis
    unfolding issued_def
    by (intro conjI block_subsidy_mainnet mainnet_subsidy_zero) (simp_all only: max mainnet_subsidy_bound)
qed

text \<open>
  What a Mainnet block divides its subsidy into adds up to the subsidy: with the embedded
  recipient addresses readable, the founders reward (a fifth, before height 1046400), the funding
  streams (their percentages, rounded down, in their height ranges) and the miner's share are
  computed without an error or a panic, are not negative, and the miner gets at least four fifths.
\<close>

theorem mainnet_subsidy_is_divided:
  fixes h :: height
  defines "n \<equiv> height_nat h"
  defines "s \<equiv> int (mainnet_subsidy n)"
  defines "reward \<equiv> if n < 1046400 then s div 5 else 0"
  defines "streams \<equiv> parts s (mainnet_shares n)"
  assumes "MAINNET_FUNDING_STREAMS (pl_addr L) = Some fss"
  shows "\<exists>miner. founders_reward MainnetChain h = Some reward
    \<and> funding_stream_values L h MainnetChain s = Some (Ok streams)
    \<and> miner_subsidy L h MainnetChain s = Some (Ok miner)
    \<and> reward + sum_list (map snd streams) + miner = s
    \<and> list_all (\<lambda>v. 0 \<le> v) (reward # map snd streams) \<and> 4 * s \<le> 5 * miner"
proof -
  have s: "0 \<le> s" "s \<le> 1250000000" using mainnet_subsidy_bound [of n] by (simp_all add: s_def)
  have shares: "list_all (\<lambda>(_, p). 0 \<le> p) (mainnet_shares n)" "sum_list (map snd (mainnet_shares n)) \<le> 20"
    by (simp_all add: mainnet_shares_def)
  note b = parts_bound [OF s(1) shares(1), folded streams_def]
  let ?sum = "sum_list (map snd streams)"
  have "s * sum_list (map snd (mainnet_shares n)) \<le> s * 20" using s shares by (intro mult_left_mono)
  then have sum: "0 \<le> ?sum" "5 * ?sum \<le> s" using b by linarith+
  have reward: "0 \<le> reward" "5 * reward \<le> s" using s by (auto simp: reward_def)
  have one: "reward = 0 \<or> ?sum = 0"
    using mainnet_shares_shape(3) by (simp add: reward_def streams_def parts_def)
  have f: "founders_reward MainnetChain h = Some reward"
    by (simp add: founders_reward_mainnet reward_def s_def n_def)
  have v: "funding_stream_values L h MainnetChain s = Some (Ok streams)"
    unfolding s_def streams_def n_def by (rule funding_stream_values_mainnet [OF assms(5)])
  have "amount_sum NonNegative (map snd streams) = Some (Ok ?sum)"
    using b sum s by (intro amount_sum_nonneg) (simp_all add: money)
  moreover have "amount_sub NonNegative s reward = Some (Ok (s - reward))"
    "amount_sub NonNegative (s - reward) ?sum = Some (Ok (s - reward - ?sum))"
    using s reward sum one by (auto simp: amount_sub_valid money)
  ultimately have "miner_subsidy L h MainnetChain s = Some (Ok (s - reward - ?sum))"
    by (simp add: miner_subsidy_def f v)
  then show ?thesis using f v b reward sum one by (intro exI [of _ "s - reward - ?sum"]) auto
qed

text \<open>
  \<open>height_for_halving\<close> and \<open>halving\<close> are inverse to each other on a network
  that activates Blossom after the slow start shift and before the first halving: a height is in
  the n-th halving or later exactly when the n-th halving's height exists and is not above it. Mainnet
  and the default Testnet are such networks, and on Mainnet the first halving is at Canopy's activation.
\<close>

theorem halving_heights_are_exact:
  assumes "regular_halvings net blossom" "n < 2 ^ 32" "x \<le> HEIGHT_MAX"
  shows "(\<exists>m. halving net x = Some m
      \<and> (n \<le> m \<longleftrightarrow> (case height_for_halving n net of Some h \<Rightarrow> h \<le> x | None \<Rightarrow> False)))
    \<and> regular_halvings MainnetChain (Height 653600)
    \<and> (parameters_default L = Some p \<longrightarrow> regular_halvings (TestnetChain p) (Height 584000)
         \<and> height_for_halving 1 (TestnetChain p) = Some TESTNET_FIRST_HALVING)
    \<and> height_for_halving 1 MainnetChain = height_for_first_halving L MainnetChain"
proof -
  have testnet: "height_for_halving 1 (TestnetChain p) = Some TESTNET_FIRST_HALVING"
    if "parameters_default L = Some p"
  proof -
    have "slow_start_shift (TestnetChain p) = Height 10000"
      "pre_blossom_halving_interval (TestnetChain p) = 840000"
      using that slow_start_shift_mainnet
      by (auto simp: parameters_default_def builder_default_def finish_def SLOW_START_SHIFT_def
          PRE_BLOSSOM_HALVING_INTERVAL_def split: Option.bind_splits)
    then show ?thesis
      using height_for_halving_regular [OF default_testnet_regular [OF that], of 1]
      by (simp add: height_nat_def try_into_height_nat TESTNET_FIRST_HALVING_def)
  qed
  show ?thesis
    using halving_reached_iff [OF assms] mainnet_regular default_testnet_regular testnet first_mainnet_halving
    by (simp add: height_for_first_halving_def mainnet_activation_heights)
qed

text \<open>For the witnesses: a decoder to which every text is a P2SH address of Mainnet.\<close>

definition demo_param_libs :: param_libs where
  "demo_param_libs =
     \<lparr>pl_addr = demo_address_ops\<lparr>b58_check_decode := \<lambda>_. Some ([0x1c, 0xbd] @ replicate 20 7)\<rparr>,
      pl_uint = exact_uint, pl_hex32 = (\<lambda>_. Ok (replicate 32 0)),
      pl_main_checkpoints = [], pl_test_checkpoints = [], pl_read_file = (\<lambda>_. None)\<rparr>"

lemma demo_param_libs_stream: "stream_of (pl_addr demo_param_libs) s e rs \<noteq> None"
proof -
  have "\<exists>a. address_from_str (pl_addr demo_param_libs) t = Ok a" for t
    by (simp add: address_from_str_def demo_param_libs_def read_address_def read_exact_def demo_address_ops_def
        pbind_def preturn_def)
  then have "(case address_from_str (pl_addr demo_param_libs) t of Ok a \<Rightarrow> Some a | Err _ \<Rightarrow> None) \<noteq> None" for t
    by (auto split: sum.splits) (metis sum.distinct(1))
  then have "recipient_new (pl_addr demo_param_libs) n as \<noteq> None" for n as
    unfolding recipient_new_def map_option_is_None by (intro sequence_not_None) (simp add: image_iff)
  then have "sequence (map (\<lambda>(receiver, numerator, addresses).
      map_option (Pair receiver) (recipient_new (pl_addr demo_param_libs) numerator addresses)) rs) \<noteq> None"
    by (intro sequence_not_None) auto
  then show ?thesis by (simp add: stream_of_def)
qed

lemma demo_param_libs_MAINNET: "\<exists>fss. MAINNET_FUNDING_STREAMS (pl_addr demo_param_libs) = Some fss"
proof -
  have "MAINNET_FUNDING_STREAMS (pl_addr demo_param_libs) \<noteq> None"
    unfolding MAINNET_FUNDING_STREAMS_def using demo_param_libs_stream
    by (intro sequence_not_None) (simp del: not_None_eq)
  then show ?thesis by blast
qed

theorem mainnet_subsidy_is_divided_witness:
  "\<exists>miner. miner_subsidy demo_param_libs (Height 2726400) MainnetChain 156250000 = Some (Ok miner)
    \<and> miner = 125000000"
proof -
  obtain fss where "MAINNET_FUNDING_STREAMS (pl_addr demo_param_libs) = Some fss"
    using demo_param_libs_MAINNET by blast
  from mainnet_subsidy_is_divided [OF this, of "Height 2726400"] show ?thesis
    by (auto simp: height_nat_def mainnet_subsidy_def mainnet_shares_def parts_def)
qed

theorem halving_heights_are_exact_witness:
  "\<exists>m. halving MainnetChain (Height 1046400) = Some m \<and> 1 \<le> m"
  using halving_heights_are_exact [OF mainnet_regular, of 1 "Height 1046400"] first_mainnet_halving
  by (auto simp: less_eq_height_def HEIGHT_MAX_def)

end
