(* ===== verification/MountainRange.thy ===== *)
theory MountainRange
  imports Prelude
begin

text \<open>
  The Merkle mountain ranges of ZIP-221 as shapes: the altitudes of the mountains after a number of
  leaves, the positions of their peaks in the array of all nodes, and the loop of
  \<open>NonEmptyHistoryTree::prune\<close> (\<open>history_tree.rs\<close> of zebra-chain) that finds these positions from
  the size of the array alone.
\<close>

section \<open>Mountains\<close>

text \<open>
  The altitudes, lowest first. A new leaf is a mountain of altitude 0; while the lowest mountain has
  the same altitude as the new one, the two become one mountain under a new node.
\<close>

fun raise :: "nat \<Rightarrow> nat list \<Rightarrow> nat list" where
  "raise a [] = [a]"
| "raise a (b # bs) = (if a = b then raise (Suc a) bs else a # b # bs)"

primrec mountains :: "nat \<Rightarrow> nat list" where
  "mountains 0 = []"
| "mountains (Suc n) = raise 0 (mountains n)"

text \<open>A mountain of altitude \<open>a\<close> has \<open>2 ^ a\<close> leaves and \<open>2 ^ (a + 1) - 1\<close> nodes.\<close>

definition nodes :: "nat \<Rightarrow> nat" where "nodes a = 2 ^ (a + 1) - 1"

definition leaf_count :: "nat list \<Rightarrow> nat" where
  "leaf_count as = sum_list (map (\<lambda>a. 2 ^ a) as)"

definition node_count :: "nat list \<Rightarrow> nat" where
  "node_count as = sum_list (map nodes as)"

text \<open>
  The nodes stand in the array mountain by mountain, the highest first, the peak of each last; \<open>b\<close>
  is where the first mountain begins.
\<close>

fun peaks_from :: "nat \<Rightarrow> nat list \<Rightarrow> nat list" where
  "peaks_from b [] = []"
| "peaks_from b (a # as) = (b + (nodes a - 1)) # peaks_from (b + nodes a) as"

definition peaks_of :: "nat \<Rightarrow> nat list" where
  "peaks_of n = peaks_from 0 (rev (mountains n))"

definition range_size :: "nat \<Rightarrow> nat" where
  "range_size n = node_count (mountains n)"

text \<open>How many mountains the next leaf is merged with.\<close>

definition merges :: "nat \<Rightarrow> nat" where
  "merges n = Suc (length (mountains n)) - length (mountains (Suc n))"

section \<open>Shape of a range\<close>

lemma nodes_simps [simp]: "nodes 0 = 1" "nodes (Suc a) = Suc (2 * nodes a)"
proof -
  have "(1 :: nat) \<le> 2 ^ a" by simp
  then have "4 * 2 ^ a - 1 = Suc (2 * (2 * 2 ^ a - 1 :: nat))" by arith
  then show "nodes (Suc a) = Suc (2 * nodes a)" by (simp add: nodes_def)
qed (simp add: nodes_def)

lemma power_nodes: "2 ^ (a + 1) = Suc (nodes a)" "2 * 2 ^ a = Suc (nodes a)"
  by (simp_all add: nodes_def)

lemma nodes_pos [simp]: "0 < nodes a" "Suc 0 \<le> nodes a" "nodes a \<noteq> 0"
  by (induction a) simp_all

lemma count_simps [simp]:
  "leaf_count [] = 0" "leaf_count (a # as) = 2 ^ a + leaf_count as"
  "node_count [] = 0" "node_count (a # as) = nodes a + node_count as"
  "node_count (as @ bs) = node_count as + node_count bs"
  "node_count (rev as) = node_count as"
  by (simp_all add: leaf_count_def node_count_def rev_map [symmetric])

text \<open>The altitudes merged are consecutive.\<close>

lemma raise_split:
  "\<exists>k. raise a as = (a + k) # drop k as \<and> k \<le> length as \<and> take k as = [a..<a + k]"
proof (induction a as rule: raise.induct)
  case (2 a b bs)
  show ?case
  proof (cases "a = b")
    case True
    then obtain k where "raise (Suc a) bs = (Suc a + k) # drop k bs" "k \<le> length bs"
      "take k bs = [Suc a..<Suc a + k]" using 2 by blast
    with True show ?thesis by (intro exI [of _ "Suc k"]) (simp add: upt_conv_Cons)
  qed (intro exI [of _ 0], simp)
qed simp

lemma raise_increasing:
  "sorted_wrt (<) as \<Longrightarrow> list_all (\<lambda>b. a \<le> b) as \<Longrightarrow>
     sorted_wrt (<) (raise a as) \<and> list_all (\<lambda>b. a \<le> b) (raise a as)"
proof (induction a as rule: raise.induct)
  case (2 a b bs)
  show ?case
  proof (cases "a = b")
    case True
    then have "list_all (\<lambda>c. Suc a \<le> c) bs" using "2.prems" by (auto simp: list_all_iff)
    with True 2 show ?thesis by (auto simp: list_all_iff)
  next
    case False
    with 2 show ?thesis by (auto simp: list_all_iff)
  qed
qed simp

lemma mountains_increasing: "sorted_wrt (<) (mountains n)"
  by (induction n) (simp_all add: raise_increasing list_all_iff)

lemma leaf_count_raise: "leaf_count (raise a as) = 2 ^ a + leaf_count as"
  by (induction a as rule: raise.induct) simp_all

text \<open>So the altitudes are the bits of the number of leaves.\<close>

lemma leaf_count_mountains: "leaf_count (mountains n) = n"
  by (induction n) (simp_all add: leaf_count_raise)

lemma node_count_leaves: "node_count as + length as = 2 * leaf_count as"
  by (induction as) (simp_all add: power_nodes)

lemma range_size_leaves: "range_size n + length (mountains n) = 2 * n"
  using node_count_leaves [of "mountains n"] by (simp add: range_size_def leaf_count_mountains)

lemma mountains_Suc:
  obtains k where "mountains (Suc n) = k # drop k (mountains n)" "k = merges n"
    "mountains n = [0..<k] @ drop k (mountains n)"
proof -
  obtain k where k: "raise 0 (mountains n) = k # drop k (mountains n)" "k \<le> length (mountains n)"
    "take k (mountains n) = [0..<k]" using raise_split [of 0 "mountains n"] by auto
  show ?thesis
  proof
    show "mountains n = [0..<k] @ drop k (mountains n)"
      using k(3) append_take_drop_id [of k "mountains n"] by simp
  qed (use k in \<open>simp_all add: merges_def\<close>)
qed

lemma mountain_count: "length (mountains (Suc n)) + merges n = Suc (length (mountains n))"
proof (cases rule: mountains_Suc [of n])
  case (1 k)
  have "length (mountains n) = k + length (drop k (mountains n))" by (subst 1(3)) simp
  moreover have "length (mountains (Suc n)) = Suc (length (drop k (mountains n)))" by (subst 1(1)) simp
  ultimately show ?thesis using 1(2) by simp
qed

lemma range_size_Suc: "range_size (Suc n) = range_size n + Suc (merges n)"
  using range_size_leaves [of n] range_size_leaves [of "Suc n"] mountain_count [of n] by simp

lemma range_size_pos: "0 < n \<Longrightarrow> 0 < range_size n"
  using range_size_Suc by (cases n) simp_all

lemma range_size_bound: "range_size n \<le> 2 * n"
  using range_size_leaves [of n] by simp


section \<open>Positions of the peaks\<close>

lemma peaks_from_append:
  "peaks_from b (as @ cs) = peaks_from b as @ peaks_from (b + node_count as) cs"
  by (induction b as rule: peaks_from.induct) (simp_all add: add.assoc)

lemma peaks_from_bounds:
  "p \<in> set (peaks_from b as) \<Longrightarrow> b \<le> p \<and> p < b + node_count as"
proof (induction b as rule: peaks_from.induct)
  case (2 b a as)
  consider "p = b + (nodes a - 1)" | "p \<in> set (peaks_from (b + nodes a) as)" using "2.prems" by auto
  then show ?case
  proof cases
    case 1
    obtain m where "nodes a = Suc m" using nodes_pos(1) gr0_implies_Suc by blast
    with 1 show ?thesis by simp
  next
    case 2
    then show ?thesis using "2.IH" by simp
  qed
qed simp

lemma peaks_from_increasing: "sorted_wrt (<) (peaks_from b as)"
proof (induction b as rule: peaks_from.induct)
  case (2 b a as)
  have "b + (nodes a - 1) < b + nodes a" by simp
  then have "\<forall>p \<in> set (peaks_from (b + nodes a) as). b + (nodes a - 1) < p"
    using peaks_from_bounds by (meson less_le_trans)
  with 2 show ?case by simp
qed simp

lemma peaks_of_increasing: "sorted_wrt (<) (peaks_of n)"
  by (simp add: peaks_of_def peaks_from_increasing)

lemma peaks_of_bound: "p \<in> set (peaks_of n) \<Longrightarrow> p < range_size n"
  unfolding peaks_of_def range_size_def by (drule peaks_from_bounds) simp

text \<open>A leaf keeps the peaks of the mountains it is not merged with, and its own mountain's peak is the last node.\<close>

lemma peaks_of_Suc:
  "set (peaks_of (Suc n)) \<subseteq> insert (range_size n + merges n) (set (peaks_of n))"
proof (cases rule: mountains_Suc [of n])
  case (1 k)
  let ?rest = "rev (drop k (mountains n))"
  have "peaks_of (Suc n) = peaks_from 0 ?rest @ [node_count ?rest + (nodes k - 1)]"
    unfolding peaks_of_def by (subst 1(1)) (simp add: peaks_from_append)
  moreover have "range_size (Suc n) = nodes k + node_count ?rest"
    unfolding range_size_def by (subst 1(1)) simp
  then have "node_count ?rest + (nodes k - 1) = range_size n + merges n"
    using range_size_Suc [of n] by simp
  moreover have "peaks_of n = peaks_from 0 ?rest @ peaks_from (node_count ?rest) (rev [0..<k])"
    unfolding peaks_of_def by (subst 1(3)) (simp only: rev_append peaks_from_append add_0)
  ultimately show ?thesis by auto
qed

section \<open>The loop that finds the peaks\<close>

text \<open>\<open>32 - leading_zeros\<close>\<close>

fun bit_length :: "nat \<Rightarrow> nat" where
  "bit_length x = (if x = 0 then 0 else Suc (bit_length (x div 2)))"

declare bit_length.simps [simp del]

text \<open>
  The body of the loop: a position outside the array is replaced by that of its left child, one
  inside is a peak and is followed by its right sibling. \<open>None\<close> stands for arithmetic that leaves
  \<open>u32\<close>; it is not reached by the sizes of ranges (\<open>prune_positions_of_range\<close>).
\<close>

function prune_loop :: "nat \<Rightarrow> nat \<Rightarrow> nat \<Rightarrow> nat list \<Rightarrow> nat list option" where
  "prune_loop len alt peak_pos peak_pos_set =
     (if len \<le> peak_pos \<and> (alt = 0 \<or> peak_pos < 2 ^ alt) then None
      else
        let (alt, peak_pos) = (if len \<le> peak_pos then (alt - 1, peak_pos - 2 ^ alt) else (alt, peak_pos))
        in if peak_pos < len \<and> 2 ^ 32 \<le> peak_pos + 2 ^ (alt + 1) then None
           else
             let (peak_pos, peak_pos_set) =
               (if peak_pos < len then (peak_pos + 2 ^ (alt + 1) - 1, peak_pos_set @ [peak_pos])
                else (peak_pos, peak_pos_set))
             in if alt = 0 then Some peak_pos_set else prune_loop len alt peak_pos peak_pos_set)"
  by pat_completeness auto

termination
proof (relation "measures [\<lambda>(len, alt, _, _). alt, \<lambda>(len, _, peak_pos, _). len - peak_pos]")
  show "wf (measures [\<lambda>(len, alt, _, _). alt, \<lambda>(len, _, peak_pos, _). len - peak_pos])"
    by (rule wf_measures)
next
  fix len alt peak_pos :: nat and set :: "nat list" and x y a p
  assume body: "\<not> (len \<le> peak_pos \<and> (alt = 0 \<or> peak_pos < 2 ^ alt))"
    "x = (if len \<le> peak_pos then (alt - 1, peak_pos - 2 ^ alt) else (alt, peak_pos))" "(a, p) = x"
  fix ps q qs
  assume "ps = (if p < len then (p + 2 ^ (a + 1) - 1, set @ [p]) else (p, set))" "(q, qs) = ps"
  then have "p \<le> q" "p < len \<Longrightarrow> p < q" by (auto simp: power_nodes split: if_splits)
  with body show "((len, a, q, qs), len, alt, peak_pos, set)
      \<in> measures [\<lambda>(len, alt, _, _). alt, \<lambda>(len, _, peak_pos, _). len - peak_pos]"
    by (auto split: if_splits)
qed

definition prune_positions :: "nat \<Rightarrow> nat list option" where
  "prune_positions len =
     (if 2 ^ 32 \<le> len + 1 \<or> bit_length (len + 1) < 2 then None
      else let alt = bit_length (len + 1) - 2 in prune_loop len alt (2 ^ (alt + 1) - 2) [])"

declare prune_loop.simps [simp del]

text \<open>Mountains below altitude \<open>a\<close> fill less than the left subtree of a mountain of that altitude.\<close>

lemma node_count_below:
  "sorted_wrt (>) as \<Longrightarrow> list_all (\<lambda>a. a < h) as \<Longrightarrow> node_count as + 1 \<le> nodes h"
proof (induction as arbitrary: h)
  case (Cons a as)
  then have "node_count as + 1 \<le> nodes a" by (auto simp: list_all_iff)
  moreover have "nodes (Suc a) \<le> nodes h"
    unfolding nodes_def using Cons.prems by (intro diff_le_mono power_increasing) simp_all
  ultimately show ?case by simp
qed simp

lemma prune_loop_take:
  assumes "peak_pos < len" "peak_pos + 2 ^ (alt + 1) < 2 ^ 32"
  shows "prune_loop len alt peak_pos acc =
    (if alt = 0 then Some (acc @ [peak_pos]) else prune_loop len alt (peak_pos + nodes alt) (acc @ [peak_pos]))"
  using assms by (subst prune_loop.simps) (auto simp: Let_def power_nodes)

lemma prune_loop_descend:
  assumes "len \<le> b + 2 * nodes a" "b + 2 * nodes a < 2 ^ 31"
  shows "prune_loop len (Suc a) (b + 2 * nodes a) acc =
    (if b + (nodes a - 1) < len \<or> a \<noteq> 0 then prune_loop len a (b + (nodes a - 1)) acc else Some acc)"
proof -
  obtain m where m: "nodes a = Suc m" using nodes_pos(1) gr0_implies_Suc by blast
  then have p: "2 * 2 ^ a = Suc (Suc m)" "(2 :: nat) ^ (a + 1) = Suc (Suc m)" by (simp_all add: power_nodes)
  show ?thesis
  proof (cases "b + m < len")
    case True
    with assms m p show ?thesis
      by (subst prune_loop.simps) (simp add: Let_def prune_loop_take ac_simps)
  next
    case False
    with assms m p show ?thesis
      by (subst prune_loop.simps) (simp add: Let_def ac_simps)
  qed
qed

text \<open>
  The invariant of the loop: the mountains still to be found begin at \<open>b\<close> and are not higher than
  \<open>alt\<close>, and \<open>peak_pos\<close> is where the peak of a mountain of altitude \<open>alt\<close> would be.
\<close>

lemma prune_loop_finds_peaks:
  assumes "sorted_wrt (>) as" "list_all (\<lambda>a. a \<le> alt) as" "alt = 0 \<longrightarrow> as \<noteq> []"
    "b + node_count as < 2 ^ 30" "b + nodes alt < 2 ^ 31" "alt < 30"
  shows "prune_loop (b + node_count as) alt (b + (nodes alt - 1)) acc = Some (acc @ peaks_from b as)"
  using assms
proof (induction alt arbitrary: b as acc)
  case 0
  then obtain rest where "as = 0 # rest" by (cases as) (auto simp: list_all_iff)
  moreover from this have "rest = []" using 0 by (cases rest) auto
  ultimately show ?case using 0 by (simp add: prune_loop_take)
next
  case (Suc alt)
  have down: "prune_loop (b + node_count as) (Suc alt) (b + 2 * nodes alt) acc = Some (acc @ peaks_from b as)"
    if d: "sorted_wrt (>) as" "list_all (\<lambda>a. a < Suc alt) as"
      "b + node_count as < 2 ^ 30" "b + 2 * nodes alt < 2 ^ 31" for b as acc
  proof -
    have len: "b + node_count as \<le> b + 2 * nodes alt" using node_count_below [OF d(1,2)] by simp
    show ?thesis
    proof (cases "alt = 0 \<and> as = []")
      case True
      then show ?thesis using prune_loop_descend [OF len d(4)] by simp
    next
      case False
      have "b + (nodes alt - 1) < b + node_count as \<or> alt \<noteq> 0" using False by (cases as) auto
      moreover have "prune_loop (b + node_count as) alt (b + (nodes alt - 1)) acc = Some (acc @ peaks_from b as)"
        using d False Suc.prems by (intro Suc.IH) (auto simp: list_all_iff)
      ultimately show ?thesis using prune_loop_descend [OF len d(4)] by simp
    qed
  qed
  show ?case
  proof (cases "as \<noteq> [] \<and> hd as = Suc alt")
    case True
    then obtain rest where as: "as = Suc alt # rest" by (cases as) auto
    let ?b = "b + nodes (Suc alt)"
    obtain m where m: "nodes alt = Suc m" using nodes_pos(1) gr0_implies_Suc by blast
    have rest: "list_all (\<lambda>a. a < Suc alt) rest" "sorted_wrt (>) rest" using Suc.prems(1) as by (auto simp: list_all_iff)
    have "prune_loop (?b + node_count rest) (Suc alt) (?b + 2 * nodes alt) (acc @ [b + (nodes (Suc alt) - 1)])
        = Some ((acc @ [b + (nodes (Suc alt) - 1)]) @ peaks_from ?b rest)"
      using rest Suc.prems as by (intro down) simp_all
    moreover have "prune_loop (b + node_count as) (Suc alt) (b + (nodes (Suc alt) - 1)) acc
        = prune_loop (b + node_count as) (Suc alt) (b + (nodes (Suc alt) - 1) + nodes (Suc alt))
            (acc @ [b + (nodes (Suc alt) - 1)])"
      using Suc.prems as m by (subst prune_loop_take) (simp_all add: power_nodes)
    ultimately show ?thesis using as m by (simp add: ac_simps)
  next
    case False
    have "list_all (\<lambda>a. a < Suc alt) as"
      using Suc.prems(1,2) False by (cases as) (auto simp: list_all_iff)
    then show ?thesis using down [of as b acc] Suc.prems by simp
  qed
qed

lemma bit_length_between: "2 ^ k \<le> x \<Longrightarrow> x < 2 ^ Suc k \<Longrightarrow> bit_length x = Suc k"
proof (induction k arbitrary: x)
  case 0
  then have "x = 1" by simp
  then show ?case by (simp add: bit_length.simps)
next
  case (Suc k)
  then have "2 ^ k \<le> x div 2" "x div 2 < 2 ^ Suc k" "x \<noteq> 0" by auto
  with Suc.IH show ?case by (subst bit_length.simps) simp
qed

text \<open>From the size alone, the loop finds the positions of the peaks, for up to \<open>2 ^ 29\<close> leaves.\<close>

lemma prune_positions_of_range:
  assumes "0 < n" "range_size n < 2 ^ 30"
  shows "prune_positions (range_size n) = Some (peaks_of n)"
proof -
  let ?as = "rev (mountains n)"
  have dec: "sorted_wrt (>) ?as" using mountains_increasing by (simp add: sorted_wrt_rev)
  have size: "range_size n = node_count ?as" by (simp add: range_size_def)
  have "?as \<noteq> []" using range_size_pos [OF assms(1)] by (auto simp: range_size_def)
  then obtain a rest where as: "?as = a # rest" by (cases ?as) auto
  have below: "list_all (\<lambda>c. c < a) rest" "sorted_wrt (>) rest" using dec unfolding as by (simp_all add: list_all_iff)
  have "node_count rest + 1 \<le> nodes a" using node_count_below [OF below(2,1)] .
  then have len: "nodes a \<le> range_size n" "range_size n < 2 * nodes a" unfolding size as by simp_all
  have pow: "2 ^ Suc a = Suc (nodes a)" "2 ^ Suc (Suc a) = 2 * Suc (nodes a)" using power_nodes [of a] by simp_all
  have "bit_length (range_size n + 1) = Suc (Suc a)"
    using len by (intro bit_length_between) (simp_all only: pow, simp_all)
  moreover have "(2 :: nat) ^ Suc a < 2 ^ Suc 30" using len assms(2) unfolding pow by simp
  then have "a < 30" by (subst (asm) power_strict_increasing_iff) simp_all
  moreover have "prune_loop (0 + node_count ?as) a (0 + (nodes a - 1)) [] = Some ([] @ peaks_from 0 ?as)"
    using dec below len assms(2) \<open>a < 30\<close> \<open>?as \<noteq> []\<close> unfolding as size
    by (intro prune_loop_finds_peaks) (auto simp: list_all_iff as size)
  ultimately show ?thesis
    using assms(2) by (simp add: prune_positions_def Let_def power_nodes range_size_def peaks_of_def)
qed

end
