(* ===== verification/HistoryTree.thy ===== *)
theory HistoryTree
  imports MountainRange Block Networks
begin

text \<open>
  The chain history tree: \<open>history_tree.rs\<close> and \<open>primitives/zcash_history.rs\<close> of zebra-chain. The
  Merkle mountain range itself is the \<open>zcash_history\<close> crate, a parameter here; this code decides
  which version of it a block goes to, when a new range begins, and which nodes are kept.
\<close>

section \<open>Nodes and entries\<close>

record commitment_tree_roots =
  ctr_sapling :: bytes
  ctr_orchard :: bytes
  ctr_ironwood :: bytes

text \<open>The fields of \<open>zcash_history\<close>'s node data, for its three versions.\<close>

record node_v1 =
  nd_consensus_branch_id :: u32
  nd_subtree_commitment :: bytes
  nd_start_time :: nat
  nd_end_time :: nat
  nd_start_target :: u32
  nd_end_target :: u32
  nd_start_sapling_root :: bytes
  nd_end_sapling_root :: bytes
  nd_subtree_total_work :: nat
  nd_start_height :: nat
  nd_end_height :: nat
  nd_sapling_tx :: nat

record node_v2 =
  nd_v1 :: node_v1
  nd_start_orchard_root :: bytes
  nd_end_orchard_root :: bytes
  nd_orchard_tx :: nat

record node_v3 =
  nd_v2 :: node_v2
  nd_start_ironwood_root :: bytes
  nd_end_ironwood_root :: bytes
  nd_ironwood_tx :: nat

datatype node_data = NodeV1 node_v1 | NodeV2 node_v2 | NodeV3 node_v3

datatype history_version = HistoryV1 | HistoryV2 | HistoryV3

text \<open>
  The crate: entries and their bytes, a tree from its length, peaks and further nodes (\<open>None\<close>
  panics), appending (the tree changes, also when it fails), resolving a link (\<open>None\<close>: it is not
  one), and the hash of the root's data.
\<close>

record ('t, 'l, 'e) history_ops =
  entry_from_bytes :: "history_version \<Rightarrow> u32 \<Rightarrow> bytes \<Rightarrow> (string, 'e) result"
  entry_new_leaf :: "node_data \<Rightarrow> 'e"
  entry_bytes :: "'e \<Rightarrow> bytes"
  node_bytes :: "node_data \<Rightarrow> bytes"
  MAX_ENTRY_SIZE :: nat
  MAX_NODE_DATA_SIZE :: nat
  tree_new :: "history_version \<Rightarrow> nat \<Rightarrow> (nat \<times> 'e) list \<Rightarrow> (nat \<times> 'e) list \<Rightarrow> 't option"
  tree_append :: "'t \<Rightarrow> node_data \<Rightarrow> 't \<times> (string, 'l list) result"
  tree_resolve :: "'t \<Rightarrow> 'l \<Rightarrow> 'e option"
  tree_root_hash :: "'t \<Rightarrow> bytes option"
  hist_hashing :: hashing
  hist_uint :: u256_ops

text \<open>Writing into a zeroed buffer; \<open>None\<close> is the \<open>expect\<close> of its capacity.\<close>

definition into_buffer :: "nat \<Rightarrow> bytes \<Rightarrow> bytes option" where
  "into_buffer capacity b = (if length b \<le> capacity then Some (b @ replicate (capacity - length b) 0) else None)"

definition encoded_node_data :: "('t, 'l, 'e) history_ops \<Rightarrow> node_data \<Rightarrow> bytes option" where
  "encoded_node_data H d = into_buffer (MAX_NODE_DATA_SIZE H) (node_bytes H d)"

definition from_raw_bytes_padded :: "('t, 'l, 'e) history_ops \<Rightarrow> bytes \<Rightarrow> bytes" where
  "from_raw_bytes_padded H b =
     (let len = min (length b) (MAX_ENTRY_SIZE H) in take len b @ replicate (MAX_ENTRY_SIZE H - len) 0)"

text \<open>Heartwood is the first upgrade with a history tree.\<close>

fun version_for :: "network_upgrade \<Rightarrow> history_version option" where
  "version_for Heartwood = Some HistoryV1" | "version_for Canopy = Some HistoryV1"
| "version_for Nu5 = Some HistoryV2" | "version_for Nu6 = Some HistoryV2"
| "version_for Nu6_1 = Some HistoryV2" | "version_for Nu6_2 = Some HistoryV2"
| "version_for Nu6_3 = Some HistoryV3" | "version_for Nu7 = Some HistoryV3"
| "version_for _ = None"

definition block_to_node_v1 ::
    "('t, 'l, 'e) history_ops \<Rightarrow> chain_network \<Rightarrow> block \<Rightarrow> commitment_tree_roots \<Rightarrow> node_v1 option" where
  "block_to_node_v1 H net b roots =
     Option.bind (coinbase_height b) (\<lambda>height.
     Option.bind (current (upgrades_of net) height) (\<lambda>nu.
     Option.bind (branch_id nu) (\<lambda>branch.
     Option.bind (block_hash (hist_hashing H) (blk_header b)) (\<lambda>block_hash.
       let time = hd_time (blk_header b); target = hd_difficulty_threshold (blk_header b) in
       if time < 0 \<or> time \<ge> 2 ^ 32 then None
       else Option.bind (Option.bind (to_work (hist_uint H) target) id) (\<lambda>work.
       if version_for nu = None then None
       else Some \<lparr>nd_consensus_branch_id = branch, nd_subtree_commitment = block_hash,
         nd_start_time = nat time, nd_end_time = nat time, nd_start_target = target, nd_end_target = target,
         nd_start_sapling_root = ctr_sapling roots, nd_end_sapling_root = ctr_sapling roots,
         nd_subtree_total_work = work, nd_start_height = unat (height_u32 height),
         nd_end_height = unat (height_u32 height), nd_sapling_tx = sapling_transactions_count b\<rparr>)))))"

definition block_to_node_v2 ::
    "('t, 'l, 'e) history_ops \<Rightarrow> chain_network \<Rightarrow> block \<Rightarrow> commitment_tree_roots \<Rightarrow> node_v2 option" where
  "block_to_node_v2 H net b roots =
     map_option (\<lambda>node_data_v1. \<lparr>nd_v1 = node_data_v1, nd_start_orchard_root = ctr_orchard roots,
       nd_end_orchard_root = ctr_orchard roots, nd_orchard_tx = orchard_transactions_count b\<rparr>)
       (block_to_node_v1 H net b roots)"

definition block_to_node_v3 ::
    "('t, 'l, 'e) history_ops \<Rightarrow> chain_network \<Rightarrow> block \<Rightarrow> commitment_tree_roots \<Rightarrow> node_v3 option" where
  "block_to_node_v3 H net b roots =
     map_option (\<lambda>node_data_v2. \<lparr>nd_v2 = node_data_v2, nd_start_ironwood_root = ctr_ironwood roots,
       nd_end_ironwood_root = ctr_ironwood roots, nd_ironwood_tx = ironwood_transactions_count b\<rparr>)
       (block_to_node_v2 H net b roots)"

fun block_to_history_node ::
    "('t, 'l, 'e) history_ops \<Rightarrow> history_version \<Rightarrow> chain_network \<Rightarrow> block \<Rightarrow> commitment_tree_roots
     \<Rightarrow> node_data option" where
  "block_to_history_node H HistoryV1 net b roots = map_option NodeV1 (block_to_node_v1 H net b roots)"
| "block_to_history_node H HistoryV2 net b roots = map_option NodeV2 (block_to_node_v2 H net b roots)"
| "block_to_history_node H HistoryV3 net b roots = map_option NodeV3 (block_to_node_v3 H net b roots)"

definition new_leaf ::
    "('t, 'l, 'e) history_ops \<Rightarrow> history_version \<Rightarrow> chain_network \<Rightarrow> block \<Rightarrow> commitment_tree_roots
     \<Rightarrow> bytes option" where
  "new_leaf H v net b roots =
     Option.bind (block_to_history_node H v net b roots) (\<lambda>node_data.
       into_buffer (MAX_ENTRY_SIZE H) (entry_bytes H (entry_new_leaf H node_data)))"

section \<open>Trees of one version\<close>

record 't mmr_tree =
  mt_network :: chain_network
  mt_upgrade :: network_upgrade
  mt_inner :: 't

fun parse_entries ::
    "('t, 'l, 'e) history_ops \<Rightarrow> history_version \<Rightarrow> u32 \<Rightarrow> (nat \<times> bytes) list
     \<Rightarrow> (string, (nat \<times> 'e) list) result" where
  "parse_entries H v branch [] = Ok []"
| "parse_entries H v branch ((idx, entry) # es) =
     result_bind (entry_from_bytes H v branch entry) (\<lambda>inner_entry.
       map_sum id (\<lambda>rest. (idx, inner_entry) # rest) (parse_entries H v branch es))"

definition new_from_cache ::
    "('t, 'l, 'e) history_ops \<Rightarrow> history_version \<Rightarrow> chain_network \<Rightarrow> network_upgrade \<Rightarrow> nat
     \<Rightarrow> (nat \<times> bytes) list \<Rightarrow> (nat \<times> bytes) list \<Rightarrow> (string, 't mmr_tree) result option" where
  "new_from_cache H v net nu len peaks extra =
     Option.bind (branch_id nu) (\<lambda>branch.
     then_try (Some (parse_entries H v branch peaks)) (\<lambda>peaks_vec.
     then_try (Some (parse_entries H v branch extra)) (\<lambda>extra_vec.
       map_option (\<lambda>inner. Ok \<lparr>mt_network = net, mt_upgrade = nu, mt_inner = inner\<rparr>)
         (tree_new H v len peaks_vec extra_vec))))"

definition new_from_block ::
    "('t, 'l, 'e) history_ops \<Rightarrow> history_version \<Rightarrow> chain_network \<Rightarrow> block \<Rightarrow> commitment_tree_roots
     \<Rightarrow> (string, 't mmr_tree \<times> bytes) result option" where
  "new_from_block H v net b roots =
     Option.bind (coinbase_height b) (\<lambda>height.
     Option.bind (current (upgrades_of net) height) (\<lambda>nu.
     Option.bind (new_leaf H v net b roots) (\<lambda>entry0.
       then_try (new_from_cache H v net nu 1 [(0, entry0)] []) (\<lambda>tree. Some (Ok (tree, entry0))))))"

definition append_leaf ::
    "('t, 'l, 'e) history_ops \<Rightarrow> history_version \<Rightarrow> 't mmr_tree \<Rightarrow> block \<Rightarrow> commitment_tree_roots
     \<Rightarrow> ('t mmr_tree \<times> (string, bytes list) result) option" where
  "append_leaf H v t b roots =
     Option.bind (coinbase_height b) (\<lambda>height.
     Option.bind (current (upgrades_of (mt_network t)) height) (\<lambda>nu.
       if nu \<noteq> mt_upgrade t then None
       else Option.bind (block_to_history_node H v (mt_network t) b roots) (\<lambda>node_data.
         let (inner, appended) = tree_append H (mt_inner t) node_data; t = t\<lparr>mt_inner := inner\<rparr>
         in case appended of
              Err e \<Rightarrow> Some (t, Err e)
            | Ok links \<Rightarrow>
                map_option (\<lambda>new_nodes. (t, Ok new_nodes))
                  (sequence (map (\<lambda>entry_link.
                     Option.bind (tree_resolve H inner entry_link) (\<lambda>e.
                       into_buffer (MAX_ENTRY_SIZE H) (entry_bytes H e))) links)))))"

section \<open>The pruned tree\<close>

datatype history_tree_error = InnerError string | HistoryIOError string

datatype 't inner_history_tree =
    PreOrchard (inner_tree: "'t mmr_tree")
  | OrchardOnward (inner_tree: "'t mmr_tree")
  | IronwoodOnward (inner_tree: "'t mmr_tree")

fun inner_version :: "'t inner_history_tree \<Rightarrow> history_version" where
  "inner_version (PreOrchard _) = HistoryV1"
| "inner_version (OrchardOnward _) = HistoryV2"
| "inner_version (IronwoodOnward _) = HistoryV3"

fun inner_of :: "history_version \<Rightarrow> 't mmr_tree \<Rightarrow> 't inner_history_tree" where
  "inner_of HistoryV1 = PreOrchard"
| "inner_of HistoryV2 = OrchardOnward"
| "inner_of HistoryV3 = IronwoodOnward"

record 't history_tree =
  ht_network :: chain_network
  ht_upgrade :: network_upgrade
  ht_inner :: "'t inner_history_tree"
  ht_size :: nat
  ht_peaks :: "(nat \<times> bytes) list"
  ht_current_height :: height

definition ht_from_cache ::
    "('t, 'l, 'e) history_ops \<Rightarrow> chain_network \<Rightarrow> nat \<Rightarrow> (nat \<times> bytes) list \<Rightarrow> height
     \<Rightarrow> (history_tree_error, 't history_tree) result option" where
  "ht_from_cache H net len peaks current_height =
     Option.bind (current (upgrades_of net) current_height) (\<lambda>nu.
     Option.bind (version_for nu) (\<lambda>v.
     then_try (map_option (map_err HistoryIOError) (new_from_cache H v net nu len peaks [])) (\<lambda>tree.
       Some (Ok \<lparr>ht_network = net, ht_upgrade = nu, ht_inner = inner_of v tree, ht_size = len,
         ht_peaks = peaks, ht_current_height = current_height\<rparr>))))"

definition ht_from_block ::
    "('t, 'l, 'e) history_ops \<Rightarrow> chain_network \<Rightarrow> block \<Rightarrow> commitment_tree_roots
     \<Rightarrow> (history_tree_error, 't history_tree) result option" where
  "ht_from_block H net b roots =
     Option.bind (coinbase_height b) (\<lambda>height.
     Option.bind (current (upgrades_of net) height) (\<lambda>nu.
     Option.bind (version_for nu) (\<lambda>v.
     then_try (map_option (map_err HistoryIOError) (new_from_block H v net b roots)) (\<lambda>(tree, entry).
       Some (Ok \<lparr>ht_network = net, ht_upgrade = nu, ht_inner = inner_of v tree, ht_size = 1,
         ht_peaks = [(0, entry)], ht_current_height = height\<rparr>)))))"

definition rebuilt_inner ::
    "('t, 'l, 'e) history_ops \<Rightarrow> 't history_tree \<Rightarrow> (string, 't inner_history_tree) result option" where
  "rebuilt_inner H t =
     (let v = inner_version (ht_inner t)
      in map_option (map_sum id (inner_of v))
           (new_from_cache H v (ht_network t) (ht_upgrade t) (ht_size t) (ht_peaks t) []))"

text \<open>Every operation that changes the tree returns it, with its result; \<open>None\<close> panics.\<close>

definition prune ::
    "('t, 'l, 'e) history_ops \<Rightarrow> 't history_tree \<Rightarrow> ('t history_tree \<times> (string, unit) result) option" where
  "prune H t =
     Option.bind (prune_positions (ht_size t)) (\<lambda>peak_pos_set.
       let t = t\<lparr>ht_peaks := filter (\<lambda>(k, _). k \<in> set peak_pos_set) (ht_peaks t)\<rparr>
       in map_option (\<lambda>r. case r of Err e \<Rightarrow> (t, Err e) | Ok inner \<Rightarrow> (t\<lparr>ht_inner := inner\<rparr>, Ok ()))
            (rebuilt_inner H t))"

text \<open>The size is a \<open>u32\<close>.\<close>

fun insert_entries :: "bytes list \<Rightarrow> 't history_tree \<Rightarrow> 't history_tree option" where
  "insert_entries [] t = Some t"
| "insert_entries (entry # new_entries) t =
     (if ht_size t + 1 \<ge> 2 ^ 32 then None
      else insert_entries new_entries
        (t\<lparr>ht_peaks := btree_insert (ht_size t) entry (ht_peaks t), ht_size := ht_size t + 1\<rparr>))"

definition ht_push ::
    "('t, 'l, 'e) history_ops \<Rightarrow> 't history_tree \<Rightarrow> block \<Rightarrow> commitment_tree_roots
     \<Rightarrow> ('t history_tree \<times> (history_tree_error, unit) result) option" where
  "ht_push H t b roots =
     Option.bind (coinbase_height b) (\<lambda>height.
       if Some height \<noteq> height_add (ht_current_height t) 1 then None
       else Option.bind (current (upgrades_of (ht_network t)) height) (\<lambda>nu.
         if nu \<noteq> ht_upgrade t then
           Option.bind (ht_from_block H (ht_network t) b roots) (\<lambda>r.
             case r of
               Err e \<Rightarrow> Some (t, Err e)
             | Ok new_tree \<Rightarrow> if ht_upgrade new_tree \<noteq> nu then None else Some (new_tree, Ok ()))
         else
           let v = inner_version (ht_inner t) in
           Option.bind (append_leaf H v (inner_tree (ht_inner t)) b roots) (\<lambda>(inner, r).
             let t = t\<lparr>ht_inner := inner_of v inner\<rparr>
             in case r of
                  Err e \<Rightarrow> Some (t, Err (InnerError e))
                | Ok new_entries \<Rightarrow>
                    Option.bind (insert_entries new_entries t) (\<lambda>t.
                      map_option (\<lambda>(t, r).
                        case r of
                          Err e \<Rightarrow> (t, Err (HistoryIOError e))
                        | Ok _ \<Rightarrow> (t\<lparr>ht_current_height := height\<rparr>, Ok ()))
                        (prune H t)))))"

fun try_extend ::
    "('t, 'l, 'e) history_ops \<Rightarrow> 't history_tree \<Rightarrow> (block \<times> commitment_tree_roots) list
     \<Rightarrow> ('t history_tree \<times> (history_tree_error, unit) result) option" where
  "try_extend H t [] = Some (t, Ok ())"
| "try_extend H t ((b, roots) # iter) =
     Option.bind (ht_push H t b roots) (\<lambda>(t, r).
       case r of Err e \<Rightarrow> Some (t, Err e) | Ok _ \<Rightarrow> try_extend H t iter)"

definition ht_hash :: "('t, 'l, 'e) history_ops \<Rightarrow> 't history_tree \<Rightarrow> bytes option" where
  "ht_hash H t = tree_root_hash H (mt_inner (inner_tree (ht_inner t)))"

definition ht_clone :: "('t, 'l, 'e) history_ops \<Rightarrow> 't history_tree \<Rightarrow> 't history_tree option" where
  "ht_clone H t =
     Option.bind (rebuilt_inner H t) (\<lambda>r. map_option (\<lambda>inner. t\<lparr>ht_inner := inner\<rparr>) (ok r))"

section \<open>The tree that may not exist yet\<close>

definition history_from_block ::
    "('t, 'l, 'e) history_ops \<Rightarrow> chain_network \<Rightarrow> block \<Rightarrow> commitment_tree_roots
     \<Rightarrow> (history_tree_error, 't history_tree option) result option" where
  "history_from_block H net b roots =
     (case activation_height Heartwood (upgrades_of net) of
        None \<Rightarrow> Some (Ok None)
      | Some heartwood_height \<Rightarrow>
          Option.bind (coinbase_height b) (\<lambda>height.
            if height < heartwood_height then Some (Ok None)
            else map_option (map_sum id Some) (ht_from_block H net b roots)))"

definition history_push ::
    "('t, 'l, 'e) history_ops \<Rightarrow> 't history_tree option \<Rightarrow> chain_network \<Rightarrow> block \<Rightarrow> commitment_tree_roots
     \<Rightarrow> ('t history_tree option \<times> (history_tree_error, unit) result) option" where
  "history_push H self net b roots =
     (case activation_height Heartwood (upgrades_of net) of
        None \<Rightarrow> if self = None then Some (self, Ok ()) else None
      | Some heartwood_height \<Rightarrow>
          Option.bind (coinbase_height b) (\<lambda>height.
            if height < heartwood_height then (if self = None then Some (self, Ok ()) else None)
            else if height = heartwood_height then
              map_option (\<lambda>r. case r of Err e \<Rightarrow> (self, Err e) | Ok tree \<Rightarrow> (Some tree, Ok ()))
                (ht_from_block H net b roots)
            else
              (case self of
                 None \<Rightarrow> None
               | Some t \<Rightarrow> map_option (\<lambda>(t, r). (Some t, r)) (ht_push H t b roots))))"

definition history_hash :: "('t, 'l, 'e) history_ops \<Rightarrow> 't history_tree option \<Rightarrow> bytes option option" where
  "history_hash H self =
     (case self of None \<Rightarrow> Some None | Some t \<Rightarrow> map_option Some (ht_hash H t))"

text \<open>\<open>PartialEq\<close> compares the hashes.\<close>

definition history_eq ::
    "('t, 'l, 'e) history_ops \<Rightarrow> 't history_tree option \<Rightarrow> 't history_tree option \<Rightarrow> bool option" where
  "history_eq H self other =
     Option.bind (history_hash H self) (\<lambda>a. map_option (\<lambda>b. a = b) (history_hash H other))"

section \<open>What the crate promises\<close>

fun version_of :: "node_data \<Rightarrow> history_version" where
  "version_of (NodeV1 _) = HistoryV1" | "version_of (NodeV2 _) = HistoryV2" | "version_of (NodeV3 _) = HistoryV3"

fun branch_of :: "node_data \<Rightarrow> u32" where
  "branch_of (NodeV1 d) = nd_consensus_branch_id d"
| "branch_of (NodeV2 d) = nd_consensus_branch_id (nd_v1 d)"
| "branch_of (NodeV3 d) = nd_consensus_branch_id (nd_v1 (nd_v2 d))"

text \<open>
  \<open>W v branch b\<close>: \<open>b\<close> is a stored entry of version \<open>v\<close> of that branch. Stored entries can be
  read, leaves can be stored, a tree is made from any peaks, and appending to the tree of a
  mountain range returns links to the leaf and to one new node for each mountain it is merged with.
\<close>

definition stores ::
    "('t, 'l, 'e) history_ops \<Rightarrow> (history_version \<Rightarrow> u32 \<Rightarrow> bytes \<Rightarrow> bool) \<Rightarrow> node_data \<Rightarrow> 'e \<Rightarrow> bool" where
  "stores H W d e \<longleftrightarrow>
     (case into_buffer (MAX_ENTRY_SIZE H) (entry_bytes H e) of
        None \<Rightarrow> False | Some b \<Rightarrow> W (version_of d) (branch_of d) b)"

definition range_tree ::
    "('t, 'l, 'e) history_ops \<Rightarrow> (history_version \<Rightarrow> u32 \<Rightarrow> bytes \<Rightarrow> bool) \<Rightarrow> history_version \<Rightarrow> u32 \<Rightarrow> nat \<Rightarrow> 't
     \<Rightarrow> bool" where
  "range_tree H W v branch n t \<longleftrightarrow>
     (\<exists>bs es. length bs = length (peaks_of n) \<and> list_all (W v branch) bs
        \<and> parse_entries H v branch (zip (peaks_of n) bs) = Ok es
        \<and> tree_new H v (range_size n) es [] = Some t)"

definition history_documented ::
    "('t, 'l, 'e) history_ops \<Rightarrow> (history_version \<Rightarrow> u32 \<Rightarrow> bytes \<Rightarrow> bool) \<Rightarrow> bool" where
  "history_documented H W \<longleftrightarrow>
     (\<forall>v branch b. W v branch b \<longrightarrow> is_ok (entry_from_bytes H v branch b))
   \<and> (\<forall>d. stores H W d (entry_new_leaf H d))
   \<and> (\<forall>v len es. es \<noteq> [] \<longrightarrow> tree_new H v len es [] \<noteq> None)
   \<and> (\<forall>d n t. 0 < n \<and> range_tree H W (version_of d) (branch_of d) n t \<longrightarrow>
        (\<exists>t' l ls. tree_append H t d = (t', Ok (l # ls)) \<and> length ls = merges n
           \<and> tree_resolve H t' l = Some (entry_new_leaf H d)
           \<and> (\<forall>k \<in> set ls. \<exists>e. tree_resolve H t' k = Some e \<and> stores H W d e)))"

section \<open>Pruned trees stand for whole ranges\<close>

text \<open>
  \<open>represents H W t n ns\<close>: the tree keeps, of the array \<open>ns\<close> of all nodes after \<open>n\<close> leaves,
  exactly the peaks, with the positions they have in the array.
\<close>

definition represents ::
    "('t, 'l, 'e) history_ops \<Rightarrow> (history_version \<Rightarrow> u32 \<Rightarrow> bytes \<Rightarrow> bool) \<Rightarrow> 't history_tree \<Rightarrow> nat
     \<Rightarrow> bytes list \<Rightarrow> bool" where
  "represents H W t n ns \<longleftrightarrow>
     0 < n \<and> length ns = range_size n \<and> ht_size t = range_size n
   \<and> ht_peaks t = map (\<lambda>i. (i, ns ! i)) (peaks_of n)
   \<and> version_for (ht_upgrade t) = Some (inner_version (ht_inner t))
   \<and> (\<exists>branch. branch_id (ht_upgrade t) = Some branch
        \<and> list_all (W (inner_version (ht_inner t)) branch) ns)
   \<and> new_from_cache H (inner_version (ht_inner t)) (ht_network t) (ht_upgrade t) (ht_size t) (ht_peaks t) []
       = Some (Ok (inner_tree (ht_inner t)))"

lemma inner_of_simps [simp]:
  "inner_version (inner_of v t) = v" "inner_tree (inner_of v t) = t"
  "inner_of (inner_version i) (inner_tree i) = i"
  by (cases v; simp)+ (cases i; simp)

lemma parse_entries_stored:
  assumes "\<And>b. W v branch b \<Longrightarrow> is_ok (entry_from_bytes H v branch b)"
    "list_all (\<lambda>e. W v branch (snd e)) ps"
  shows "\<exists>es. parse_entries H v branch ps = Ok es \<and> length es = length ps"
  using assms(2)
proof (induction ps)
  case (Cons p ps)
  obtain i b where p: "p = (i, b)" by (cases p)
  then have "is_ok (entry_from_bytes H v branch b)" using Cons.prems assms(1) by simp
  then obtain e where "entry_from_bytes H v branch b = Ok e" by (cases "entry_from_bytes H v branch b") auto
  moreover obtain es where "parse_entries H v branch ps = Ok es" "length es = length ps" using Cons by auto
  ultimately show ?case by (simp add: p)
qed simp

text \<open>Rebuilding from stored peaks works, and gives the tree of the range.\<close>

lemma new_from_cache_stored:
  assumes doc: "history_documented H W" and b: "branch_id nu = Some branch" "0 < n"
    and bs: "length bs = length (peaks_of n)" "list_all (W v branch) bs"
  shows "\<exists>t. new_from_cache H v net nu (range_size n) (zip (peaks_of n) bs) []
      = Some (Ok \<lparr>mt_network = net, mt_upgrade = nu, mt_inner = t\<rparr>) \<and> range_tree H W v branch n t"
proof -
  let ?ps = "zip (peaks_of n) bs"
  have "list_all (\<lambda>e. W v branch (snd e)) ?ps"
    using bs(2) by (auto simp: list_all_iff dest: set_zip_rightD)
  then obtain es where es: "parse_entries H v branch ?ps = Ok es" "length es = length ?ps"
    using parse_entries_stored [of W v branch H ?ps] doc by (auto simp: history_documented_def)
  have "peaks_of n \<noteq> []"
  proof
    assume "peaks_of n = []"
    then have "mountains n = []" by (cases "rev (mountains n)") (auto simp: peaks_of_def)
    then show False using leaf_count_mountains [of n] b(2) by simp
  qed
  then have "es \<noteq> []" using es(2) bs(1) by auto
  then obtain t where t: "tree_new H v (range_size n) es [] = Some t"
    using doc unfolding history_documented_def by blast
  with es b bs show ?thesis by (auto simp: new_from_cache_def range_tree_def)
qed

lemma block_to_node_v1_branch:
  assumes "block_to_node_v1 H net b roots = Some d" "coinbase_height b = Some h"
    "current (upgrades_of net) h = Some nu"
  shows "branch_id nu = Some (nd_consensus_branch_id d)"
  using assms by (auto simp: block_to_node_v1_def bind_eq_Some_conv Let_def split: if_splits)

lemma history_node:
  assumes "block_to_history_node H v net b roots = Some d" "coinbase_height b = Some h"
    "current (upgrades_of net) h = Some nu"
  shows "version_of d = v \<and> branch_id nu = Some (branch_of d)"
  using assms block_to_node_v1_branch [of H net b roots _ h nu]
  by (cases v) (auto simp: block_to_node_v2_def block_to_node_v3_def)

lemma insert_entries_append:
  assumes "\<forall>e \<in> set (ht_peaks t). fst e < ht_size t" "ht_size t + length es < 2 ^ 32"
  shows "insert_entries es t = Some (t\<lparr>ht_peaks := ht_peaks t @ zip [ht_size t..<ht_size t + length es] es,
    ht_size := ht_size t + length es\<rparr>)"
  using assms
proof (induction es arbitrary: t)
  case (Cons e es)
  let ?t = "t\<lparr>ht_peaks := btree_insert (ht_size t) e (ht_peaks t), ht_size := ht_size t + 1\<rparr>"
  have p: "btree_insert (ht_size t) e (ht_peaks t) = ht_peaks t @ [(ht_size t, e)]"
    using Cons.prems(1) by (intro btree_insert_last) simp
  have "insert_entries es ?t = Some (?t\<lparr>ht_peaks := ht_peaks ?t @ zip [ht_size ?t..<ht_size ?t + length es] es,
      ht_size := ht_size ?t + length es\<rparr>)"
    using Cons.prems p by (intro Cons.IH) (auto simp: less_Suc_eq)
  moreover have "[ht_size t..<ht_size t + length (e # es)] = ht_size t # [Suc (ht_size t)..<Suc (ht_size t) + length es]"
    by (simp add: upt_conv_Cons del: upt_Suc)
  ultimately show ?case using Cons.prems p by (simp del: upt_Suc)
qed simp

lemma filter_keys:
  fixes ks :: "nat list"
  assumes "sorted_wrt (<) ks" "sorted_wrt (<) ps" "set ps \<subseteq> set ks"
  shows "filter (\<lambda>(k, _). k \<in> set ps) (map (\<lambda>i. (i, f i)) ks) = map (\<lambda>i. (i, f i)) ps"
proof -
  have "filter (\<lambda>k. k \<in> set ps) ks = ps"
    using assms by (intro strict_sorted_equal sorted_wrt_filter) auto
  then show ?thesis by (simp add: filter_map comp_def)
qed

text \<open>
  One block: the tree appends, its new nodes are inserted after all others, everything but the
  peaks is dropped, and the tree is rebuilt from them.
\<close>

lemma peaks_after_append:
  assumes "length ns = range_size n" "length es = Suc (merges n)"
  shows "filter (\<lambda>(k, _). k \<in> set (peaks_of (Suc n)))
      (map (\<lambda>i. (i, ns ! i)) (peaks_of n) @ zip [range_size n..<range_size n + length es] es)
    = map (\<lambda>i. (i, (ns @ es) ! i)) (peaks_of (Suc n))"
proof -
  let ?ks = "peaks_of n @ [range_size n..<range_size n + length es]"
  have "map (\<lambda>i. (i, ns ! i)) (peaks_of n) = map (\<lambda>i. (i, (ns @ es) ! i)) (peaks_of n)"
    using peaks_of_bound [of _ n] assms(1) by (simp add: nth_append)
  moreover have "zip [range_size n..<range_size n + length es] es
      = map (\<lambda>i. (i, (ns @ es) ! i)) [range_size n..<range_size n + length es]"
    using assms(1) by (intro nth_equalityI) (simp_all add: nth_append)
  ultimately have all: "map (\<lambda>i. (i, ns ! i)) (peaks_of n) @ zip [range_size n..<range_size n + length es] es
      = map (\<lambda>i. (i, (ns @ es) ! i)) ?ks" by (simp only: map_append)
  have "sorted_wrt (<) ?ks"
    using peaks_of_increasing [of n] peaks_of_bound [of _ n] by (force simp: sorted_wrt_append)
  moreover have "set (peaks_of (Suc n)) \<subseteq> set ?ks"
    using peaks_of_Suc [of n] assms(2) by auto
  ultimately show ?thesis unfolding all by (intro filter_keys peaks_of_increasing)
qed

lemma sequence_map_exists:
  assumes "\<forall>x \<in> set xs. \<exists>y. f x = Some y \<and> P y"
  shows "\<exists>ys. sequence (map f xs) = Some ys \<and> length ys = length xs \<and> list_all P ys"
  using assms by (induction xs) fastforce+

text \<open>The block a tree with \<open>n\<close> leaves takes next.\<close>

definition next_leaf ::
    "('t, 'l, 'e) history_ops \<Rightarrow> chain_network \<Rightarrow> network_upgrade \<Rightarrow> height \<Rightarrow> block \<Rightarrow> commitment_tree_roots
     \<Rightarrow> bytes option" where
  "next_leaf H net nu h b roots =
     (if coinbase_height b = Some h \<and> current (upgrades_of net) h = Some nu
      then Option.bind (version_for nu) (\<lambda>v. new_leaf H v net b roots) else None)"

lemma append_leaf_of_range:
  assumes doc: "history_documented H W" and "0 < n" "coinbase_height b = Some h"
    "current (upgrades_of net) h = Some nu" "branch_id nu = Some branch" "range_tree H W v branch n t"
    "new_leaf H v net b roots = Some leaf"
  shows "\<exists>t' es. append_leaf H v \<lparr>mt_network = net, mt_upgrade = nu, mt_inner = t\<rparr> b roots
      = Some (\<lparr>mt_network = net, mt_upgrade = nu, mt_inner = t'\<rparr>, Ok (leaf # es))
    \<and> length es = merges n \<and> list_all (W v branch) (leaf # es)"
proof -
  let ?store = "\<lambda>e. into_buffer (MAX_ENTRY_SIZE H) (entry_bytes H e)"
  obtain d where d: "block_to_history_node H v net b roots = Some d" "?store (entry_new_leaf H d) = Some leaf"
    using assms(7) by (auto simp: new_leaf_def bind_eq_Some_conv)
  have vb: "version_of d = v" "branch_of d = branch" using history_node [OF d(1) assms(3,4)] assms(5) by simp_all
  obtain t' l ls where a: "tree_append H t d = (t', Ok (l # ls))" "length ls = merges n"
    "tree_resolve H t' l = Some (entry_new_leaf H d)"
    "\<forall>k \<in> set ls. \<exists>e. tree_resolve H t' k = Some e \<and> stores H W d e"
    using doc assms(2,6) vb unfolding history_documented_def by metis
  have "\<exists>es. sequence (map (\<lambda>k. Option.bind (tree_resolve H t' k) ?store) ls) = Some es
      \<and> length es = length ls \<and> list_all (W v branch) es"
    using a(4) vb by (intro sequence_map_exists) (fastforce simp: stores_def split: option.splits)
  moreover have "W v branch leaf"
    using doc d(2) vb unfolding history_documented_def stores_def by (metis option.case(2))
  ultimately show ?thesis using a d assms(3,4) by (auto simp: append_leaf_def)
qed

lemma peaks_from_length: "length (peaks_from b as) = length as"
  by (induction b as rule: peaks_from.induct) simp_all

lemma map_as_zip: "map (\<lambda>i. (i, f i)) ps = zip ps (map f ps)"
  by (induction ps) simp_all

text \<open>A tree whose peaks are stored entries represents its range once it is rebuilt.\<close>

lemma rebuilt_represents:
  assumes doc: "history_documented H W"
    and t: "0 < n" "length ns = range_size n" "ht_size t = range_size n"
      "ht_peaks t = map (\<lambda>i. (i, ns ! i)) (peaks_of n)"
      "version_for (ht_upgrade t) = Some (inner_version (ht_inner t))"
      "branch_id (ht_upgrade t) = Some branch" "list_all (W (inner_version (ht_inner t)) branch) ns"
  shows "\<exists>inner. rebuilt_inner H t = Some (Ok inner) \<and> represents H W (t\<lparr>ht_inner := inner\<rparr>) n ns"
proof -
  let ?v = "inner_version (ht_inner t)" and ?bs = "map ((!) ns) (peaks_of n)"
  have "list_all (W ?v branch) ?bs"
    using t(2,7) peaks_of_bound [of _ n] by (auto simp: list_all_iff)
  then obtain r where r: "new_from_cache H ?v (ht_network t) (ht_upgrade t) (range_size n) (zip (peaks_of n) ?bs) []
      = Some (Ok \<lparr>mt_network = ht_network t, mt_upgrade = ht_upgrade t, mt_inner = r\<rparr>)"
    using new_from_cache_stored [OF doc t(6,1), of ?bs ?v "ht_network t"] by auto
  have "rebuilt_inner H t
      = Some (Ok (inner_of ?v \<lparr>mt_network = ht_network t, mt_upgrade = ht_upgrade t, mt_inner = r\<rparr>))"
    using r t(3,4) by (simp add: rebuilt_inner_def map_as_zip)
  moreover have "represents H W (t\<lparr>ht_inner := inner_of ?v
      \<lparr>mt_network = ht_network t, mt_upgrade = ht_upgrade t, mt_inner = r\<rparr>\<rparr>) n ns"
    using r t by (simp add: represents_def map_as_zip)
  ultimately show ?thesis by blast
qed

lemma represents_inner:
  assumes "history_documented H W" "represents H W t n ns" "branch_id (ht_upgrade t) = Some branch"
  shows "\<exists>r. inner_tree (ht_inner t) = \<lparr>mt_network = ht_network t, mt_upgrade = ht_upgrade t, mt_inner = r\<rparr>
    \<and> range_tree H W (inner_version (ht_inner t)) branch n r"
proof -
  let ?v = "inner_version (ht_inner t)" and ?bs = "map ((!) ns) (peaks_of n)"
  note t = assms(2) [unfolded represents_def] and n = assms(2) [unfolded represents_def, THEN conjunct1]
  have "list_all (W ?v branch) ?bs"
    using t assms(3) peaks_of_bound [of _ n] by (auto simp: list_all_iff)
  then obtain r where "new_from_cache H ?v (ht_network t) (ht_upgrade t) (range_size n) (zip (peaks_of n) ?bs) []
      = Some (Ok \<lparr>mt_network = ht_network t, mt_upgrade = ht_upgrade t, mt_inner = r\<rparr>)"
      "range_tree H W ?v branch n r"
    using new_from_cache_stored [OF assms(1,3) n, of ?bs ?v "ht_network t"] by auto
  moreover from this(1) have "inner_tree (ht_inner t)
      = \<lparr>mt_network = ht_network t, mt_upgrade = ht_upgrade t, mt_inner = r\<rparr>"
    using t by (elim conjE) (simp add: map_as_zip)
  ultimately show ?thesis by blast
qed

lemma represents_height [simp]: "represents H W (t\<lparr>ht_current_height := h\<rparr>) n ns = represents H W t n ns"
  by (simp add: represents_def)

lemma ht_push_next:
  assumes doc: "history_documented H W" and rep: "represents H W t n ns"
    and small: "range_size (Suc n) < 2 ^ 30"
    and next_height: "height_add (ht_current_height t) 1 = Some h"
    and leaf: "next_leaf H (ht_network t) (ht_upgrade t) h b roots = Some leaf"
  shows "\<exists>t' es. ht_push H t b roots = Some (t', Ok ()) \<and> represents H W t' (Suc n) (ns @ leaf # es)
    \<and> ht_network t' = ht_network t \<and> ht_upgrade t' = ht_upgrade t \<and> ht_current_height t' = h"
proof -
  let ?v = "inner_version (ht_inner t)"
  note r = rep [unfolded represents_def]
  obtain branch where branch: "branch_id (ht_upgrade t) = Some branch" "list_all (W ?v branch) ns" using r by blast
  have h: "coinbase_height b = Some h" "current (upgrades_of (ht_network t)) h = Some (ht_upgrade t)"
    "new_leaf H ?v (ht_network t) b roots = Some leaf"
    using leaf r by (auto simp: next_leaf_def split: if_splits)
  obtain it where it: "inner_tree (ht_inner t)
      = \<lparr>mt_network = ht_network t, mt_upgrade = ht_upgrade t, mt_inner = it\<rparr>"
    "range_tree H W ?v branch n it"
    using represents_inner [OF doc rep branch(1)] by blast
  obtain it' es where app: "append_leaf H ?v (inner_tree (ht_inner t)) b roots
      = Some (\<lparr>mt_network = ht_network t, mt_upgrade = ht_upgrade t, mt_inner = it'\<rparr>, Ok (leaf # es))"
    "length es = merges n" "list_all (W ?v branch) (leaf # es)"
    using append_leaf_of_range [OF doc conjunct1 [OF r] h(1,2) branch(1) it(2) h(3)] unfolding it(1) by blast
  define t1 where "t1 = t\<lparr>ht_inner := inner_of ?v \<lparr>mt_network = ht_network t, mt_upgrade = ht_upgrade t, mt_inner = it'\<rparr>\<rparr>"
  define t2 where "t2 = t1\<lparr>ht_peaks := ht_peaks t @ zip [range_size n..<range_size n + length (leaf # es)] (leaf # es),
    ht_size := range_size n + length (leaf # es)\<rparr>"
  have size: "range_size n + length (leaf # es) = range_size (Suc n)" using range_size_Suc [of n] app(2) by simp
  have "\<forall>e \<in> set (ht_peaks t1). fst e < ht_size t1" using r peaks_of_bound [of _ n] by (auto simp: t1_def)
  moreover have "ht_size t1 + length (leaf # es) < 2 ^ 32" using r size small by (simp add: t1_def)
  ultimately have ins: "insert_entries (leaf # es) t1 = Some t2"
    using r by (subst insert_entries_append) (simp_all add: t1_def t2_def)
  define t3 where "t3 = t2\<lparr>ht_peaks := filter (\<lambda>(k, _). k \<in> set (peaks_of (Suc n))) (ht_peaks t2)\<rparr>"
  have peaks: "ht_peaks t3 = map (\<lambda>i. (i, (ns @ leaf # es) ! i)) (peaks_of (Suc n))"
    using peaks_after_append [of ns n "leaf # es"] r app(2) by (simp add: t3_def t2_def)
  have size3: "ht_size t3 = range_size (Suc n)" using size by (simp add: t3_def t2_def)
  have "\<exists>inner. rebuilt_inner H t3 = Some (Ok inner)
      \<and> represents H W (t3\<lparr>ht_inner := inner\<rparr>) (Suc n) (ns @ leaf # es)"
  proof (rule rebuilt_represents [OF doc _ _ size3 peaks])
    show "length (ns @ leaf # es) = range_size (Suc n)" using r size by simp
    show "version_for (ht_upgrade t3) = Some (inner_version (ht_inner t3))"
      "branch_id (ht_upgrade t3) = Some branch"
      "list_all (W (inner_version (ht_inner t3)) branch) (ns @ leaf # es)"
      using r branch app(3) by (simp_all add: t3_def t2_def t1_def)
  qed simp
  then obtain inner where inner: "rebuilt_inner H t3 = Some (Ok inner)"
    "represents H W (t3\<lparr>ht_inner := inner\<rparr>) (Suc n) (ns @ leaf # es)" by blast
  have "prune_positions (ht_size t2) = Some (peaks_of (Suc n))"
    using prune_positions_of_range [OF _ small] size by (simp add: t2_def)
  then have "prune H t2 = Some (t3\<lparr>ht_inner := inner\<rparr>, Ok ())"
    using inner(1) by (simp add: prune_def t3_def)
  then have "ht_push H t b roots = Some (t3\<lparr>ht_inner := inner, ht_current_height := h\<rparr>, Ok ())"
    using h(1,2) next_height app(1) ins by (simp add: ht_push_def Let_def t1_def)
  moreover have "represents H W (t3\<lparr>ht_inner := inner, ht_current_height := h\<rparr>) (Suc n) (ns @ leaf # es)"
    using inner(2) represents_height [of H W h "t3\<lparr>ht_inner := inner\<rparr>" "Suc n" "ns @ leaf # es"] by simp
  ultimately show ?thesis by (auto simp: t3_def t2_def t1_def)
qed

text \<open>A tree from its first block, and then from the blocks that follow it.\<close>

lemma ht_from_block_first:
  assumes doc: "history_documented H W" and leaf: "next_leaf H net nu h b roots = Some leaf"
  shows "\<exists>t. ht_from_block H net b roots = Some (Ok t) \<and> represents H W t 1 [leaf]
    \<and> ht_network t = net \<and> ht_upgrade t = nu \<and> ht_current_height t = h"
proof -
  obtain v where v: "coinbase_height b = Some h" "current (upgrades_of net) h = Some nu" "version_for nu = Some v"
    "new_leaf H v net b roots = Some leaf"
    using leaf by (auto simp: next_leaf_def bind_eq_Some_conv split: if_splits)
  obtain d where d: "block_to_history_node H v net b roots = Some d"
    "into_buffer (MAX_ENTRY_SIZE H) (entry_bytes H (entry_new_leaf H d)) = Some leaf"
    using v(4) by (auto simp: new_leaf_def bind_eq_Some_conv)
  have vb: "version_of d = v" "branch_id nu = Some (branch_of d)" using history_node [OF d(1) v(1,2)] by simp_all
  have one: "peaks_of (Suc 0) = [0]" "range_size (Suc 0) = 1" by (simp_all add: peaks_of_def range_size_def)
  have stored: "W v (branch_of d) leaf"
    using doc d(2) vb(1) unfolding history_documented_def stores_def by (metis option.case(2))
  obtain it where it: "new_from_cache H v net nu 1 [(0, leaf)] []
      = Some (Ok \<lparr>mt_network = net, mt_upgrade = nu, mt_inner = it\<rparr>)"
    using new_from_cache_stored [OF doc vb(2), of 1 "[leaf]" v net] stored by (auto simp: one)
  have "represents H W \<lparr>ht_network = net, ht_upgrade = nu,
      ht_inner = inner_of v \<lparr>mt_network = net, mt_upgrade = nu, mt_inner = it\<rparr>, ht_size = 1,
      ht_peaks = [(0, leaf)], ht_current_height = h\<rparr> 1 [leaf]"
    using it stored vb(2) v(3) one by (simp add: represents_def)
  moreover have "ht_from_block H net b roots = Some (Ok \<lparr>ht_network = net, ht_upgrade = nu,
      ht_inner = inner_of v \<lparr>mt_network = net, mt_upgrade = nu, mt_inner = it\<rparr>, ht_size = 1,
      ht_peaks = [(0, leaf)], ht_current_height = h\<rparr>)"
    using v it by (simp add: ht_from_block_def new_from_block_def)
  ultimately show ?thesis by auto
qed

text \<open>The leaves of consecutive blocks of one upgrade, or \<open>None\<close> if one of them has none.\<close>

fun leaves_from ::
    "('t, 'l, 'e) history_ops \<Rightarrow> chain_network \<Rightarrow> network_upgrade \<Rightarrow> height \<Rightarrow> (block \<times> commitment_tree_roots) list
     \<Rightarrow> bytes list option" where
  "leaves_from H net nu h [] = Some []"
| "leaves_from H net nu h ((b, roots) # bs) =
     Option.bind (height_add h 1) (\<lambda>h'.
     Option.bind (next_leaf H net nu h' b roots) (\<lambda>leaf.
       map_option ((#) leaf) (leaves_from H net nu h' bs)))"

lemma try_extend_represents:
  assumes doc: "history_documented H W"
  shows "represents H W t n ns \<Longrightarrow> leaves_from H (ht_network t) (ht_upgrade t) (ht_current_height t) bs = Some ls
    \<Longrightarrow> n + length bs \<le> 2 ^ 28 \<Longrightarrow>
    \<exists>t' es. try_extend H t bs = Some (t', Ok ()) \<and> represents H W t' (n + length bs) (ns @ es)
      \<and> ht_network t' = ht_network t \<and> ht_upgrade t' = ht_upgrade t
      \<and> (\<forall>i < length bs. (ns @ es) ! range_size (n + i) = ls ! i)"
proof (induction bs arbitrary: t n ns ls)
  case (Cons x bs)
  obtain b roots where x: "x = (b, roots)" by (cases x)
  obtain h' leaf ls' where h: "height_add (ht_current_height t) 1 = Some h'"
    "next_leaf H (ht_network t) (ht_upgrade t) h' b roots = Some leaf"
    "leaves_from H (ht_network t) (ht_upgrade t) h' bs = Some ls'" "ls = leaf # ls'"
    using Cons.prems(2) by (auto simp: x bind_eq_Some_conv)
  have "range_size (Suc n) \<le> 2 * Suc n" by (rule range_size_bound)
  then have small: "range_size (Suc n) < 2 ^ 30" using Cons.prems(3) by simp
  obtain t1 es1 where t1: "ht_push H t b roots = Some (t1, Ok ())"
    "represents H W t1 (Suc n) (ns @ leaf # es1)" "ht_network t1 = ht_network t"
    "ht_upgrade t1 = ht_upgrade t" "ht_current_height t1 = h'"
    using ht_push_next [OF doc Cons.prems(1) small h(1,2)] by blast
  obtain t' es where t': "try_extend H t1 bs = Some (t', Ok ())"
    "represents H W t' (Suc n + length bs) ((ns @ leaf # es1) @ es)"
    "ht_network t' = ht_network t1" "ht_upgrade t' = ht_upgrade t1"
    "\<forall>i < length bs. ((ns @ leaf # es1) @ es) ! range_size (Suc n + i) = ls' ! i"
    using Cons.IH [OF t1(2), of ls'] h(3) t1(3-5) Cons.prems(3) by auto
  have first: "(ns @ (leaf # es1) @ es) ! range_size n = leaf"
    using Cons.prems(1) by (simp add: represents_def nth_append)
  have "(ns @ (leaf # es1) @ es) ! range_size (n + i) = ls ! i" if "i < length (x # bs)" for i
    using that t'(5) first h(4) by (cases i) simp_all
  then show ?case using t1 t' by (intro exI [of _ t'] exI [of _ "(leaf # es1) @ es"]) (simp add: x)
qed (auto simp: represents_def)

lemma history_push_before:
  assumes "activation_height Heartwood (upgrades_of net) = Some heartwood" "coinbase_height b = Some h"
    "h < heartwood"
  shows "history_push H None net b roots = Some (None, Ok ()) \<and> history_push H (Some t) net b roots = None"
  using assms by (simp add: history_push_def)

lemma history_push_at:
  assumes doc: "history_documented H W"
    and hw: "activation_height Heartwood (upgrades_of net) = Some h"
    and leaf: "next_leaf H net nu h b roots = Some leaf"
  shows "\<exists>t'. history_push H self net b roots = Some (Some t', Ok ()) \<and> represents H W t' 1 [leaf]
    \<and> ht_network t' = net \<and> ht_upgrade t' = nu \<and> ht_current_height t' = h"
proof -
  have "coinbase_height b = Some h" using leaf by (simp add: next_leaf_def split: if_splits)
  then show ?thesis using ht_from_block_first [OF doc leaf] hw by (auto simp: history_push_def)
qed

lemma history_push_restart:
  assumes doc: "history_documented H W"
    and hw: "activation_height Heartwood (upgrades_of (ht_network t)) = Some heartwood" "heartwood < h"
    and h: "height_add (ht_current_height t) 1 = Some h" "ht_upgrade t \<noteq> nu"
    and leaf: "next_leaf H (ht_network t) nu h b roots = Some leaf"
  shows "\<exists>t'. history_push H (Some t) (ht_network t) b roots = Some (Some t', Ok ()) \<and> represents H W t' 1 [leaf]
    \<and> ht_network t' = ht_network t \<and> ht_upgrade t' = nu \<and> ht_current_height t' = h"
proof -
  have b: "coinbase_height b = Some h" "current (upgrades_of (ht_network t)) h = Some nu"
    using leaf by (simp_all add: next_leaf_def split: if_splits)
  obtain t' where t': "ht_from_block H (ht_network t) b roots = Some (Ok t')" "represents H W t' 1 [leaf]"
    "ht_network t' = ht_network t" "ht_upgrade t' = nu" "ht_current_height t' = h"
    using ht_from_block_first [OF doc leaf] by blast
  then have "ht_push H t b roots = Some (t', Ok ())" using b h by (simp add: ht_push_def)
  with t' b hw show ?thesis by (auto simp: history_push_def not_less_iff_gr_or_eq)
qed

lemma history_push_append:
  assumes doc: "history_documented H W" and rep: "represents H W t n ns" and small: "range_size (Suc n) < 2 ^ 30"
    and hw: "activation_height Heartwood (upgrades_of (ht_network t)) = Some heartwood" "heartwood < h"
    and h: "height_add (ht_current_height t) 1 = Some h"
    and leaf: "next_leaf H (ht_network t) (ht_upgrade t) h b roots = Some leaf"
  shows "\<exists>t' es. history_push H (Some t) (ht_network t) b roots = Some (Some t', Ok ())
    \<and> represents H W t' (Suc n) (ns @ leaf # es)
    \<and> ht_network t' = ht_network t \<and> ht_upgrade t' = ht_upgrade t \<and> ht_current_height t' = h"
proof -
  have b: "coinbase_height b = Some h" using leaf by (simp add: next_leaf_def split: if_splits)
  obtain t' es where t': "ht_push H t b roots = Some (t', Ok ())" "represents H W t' (Suc n) (ns @ leaf # es)"
    "ht_network t' = ht_network t" "ht_upgrade t' = ht_upgrade t" "ht_current_height t' = h"
    using ht_push_next [OF doc rep small h leaf] by blast
  then have "history_push H (Some t) (ht_network t) b roots = Some (Some t', Ok ())"
    using b hw by (auto simp: history_push_def not_less_iff_gr_or_eq)
  with t' show ?thesis by blast
qed

text \<open>A configured Testnet may activate Nu7, which has no branch id: no history tree can hold its blocks.\<close>

lemma nu7_blocks_panic:
  assumes "coinbase_height b = Some h" "current (upgrades_of net) h = Some Nu7"
  shows "ht_from_block H net b roots = None"
  using assms by (simp add: ht_from_block_def new_from_block_def new_leaf_def block_to_node_v3_def
      block_to_node_v2_def block_to_node_v1_def branch_id_table)

section \<open>Properties\<close>

text \<open>For the witnesses: a tree that is the length of its array, with one entry.\<close>

definition leaves_of_size :: "nat \<Rightarrow> nat" where
  "leaves_of_size len = length (filter (\<lambda>i. range_size (Suc i) \<le> len) [0..<len])"

definition demo_history :: "(nat, unit, bytes) history_ops" where
  "demo_history =
     \<lparr>entry_from_bytes = \<lambda>_ _ b. Ok b, entry_new_leaf = \<lambda>_. [1], entry_bytes = \<lambda>e. e, node_bytes = \<lambda>_. [],
      MAX_ENTRY_SIZE = 1, MAX_NODE_DATA_SIZE = 0, tree_new = \<lambda>_ len _ _. Some len,
      tree_append = \<lambda>len _. (len, Ok (replicate (Suc (merges (leaves_of_size len))) ())),
      tree_resolve = \<lambda>_ _. Some [1], tree_root_hash = \<lambda>_. Some [], hist_hashing = demo_hashing,
      hist_uint = exact_uint\<rparr>"

definition demo_stored :: "history_version \<Rightarrow> u32 \<Rightarrow> bytes \<Rightarrow> bool" where
  "demo_stored v branch b = (b = [1])"

lemma range_size_less_iff: "range_size m \<le> range_size n \<longleftrightarrow> m \<le> n"
proof -
  have "strict_mono range_size" by (simp add: strict_mono_Suc_iff range_size_Suc)
  then show ?thesis by (rule strict_mono_less_eq)
qed

lemma leaves_of_range: "leaves_of_size (range_size n) = n"
proof -
  have le: "n \<le> range_size n" by (induction n) (simp_all add: range_size_Suc)
  have "leaves_of_size (range_size n) = card {i. i < range_size n \<and> Suc i \<le> n}"
    by (simp add: leaves_of_size_def range_size_less_iff length_filter_conv_card conj_commute cong: conj_cong)
  also have "{i. i < range_size n \<and> Suc i \<le> n} = {..<n}" using le by auto
  finally show ?thesis by simp
qed

lemma demo_history_documented: "history_documented demo_history demo_stored"
  by (auto simp: history_documented_def demo_history_def demo_stored_def stores_def into_buffer_def
      range_tree_def leaves_of_range)

definition demo_roots :: commitment_tree_roots where
  "demo_roots = \<lparr>ctr_sapling = [], ctr_orchard = [], ctr_ironwood = []\<rparr>"

definition demo_block_at :: "u32 \<Rightarrow> block" where
  "demo_block_at h = \<lparr>blk_header = demo_header, blk_transactions = [V1 [Coinbase (Height h) [] 0] [] (LockHeight (Height 0))]\<rparr>"

lemma demo_leaf:
  assumes "current Mainnet (Height h) = Some Heartwood"
  shows "next_leaf demo_history MainnetChain Heartwood (Height h) (demo_block_at h) demo_roots = Some [1]"
proof -
  have height: "Block.coinbase_height (demo_block_at h) = Some (Height h)"
    by (simp add: Block.coinbase_height_def demo_block_at_def)
  obtain bytes where "write_header demo_header = Ok bytes" using codec_header.written [OF demo_valid(1)] by blast
  then have hash: "\<exists>x. block_hash demo_hashing demo_header = Some x" by (simp add: block_hash_def)
  have "to_work exact_uint 0x1f07ffff = Some (Some 8192)"
    using to_work_spec [OF exact_uint_documented, of "0x1f07ffff"] by (simp add: to_target_def)
  then have "\<exists>d. block_to_node_v1 demo_history MainnetChain (demo_block_at h) demo_roots = Some d"
    using height assms hash
    by (auto simp: block_to_node_v1_def demo_block_at_def demo_history_def demo_header_def branch_id_table Let_def)
  then show ?thesis
    using height assms by (auto simp: next_leaf_def new_leaf_def demo_history_def into_buffer_def)
qed

lemma demo_heartwood:
  "current Mainnet (Height 903000) = Some Heartwood" "current Mainnet (Height 903001) = Some Heartwood"
  "current Mainnet (Height 903002) = Some Heartwood"
  unfolding current_def range_to_last_def mainnet_activations
  by (simp_all add: MAINNET_ACTIVATION_HEIGHTS_def less_eq_height_def Let_def)

lemma demo_heights:
  "height_add (Height 903000) 1 = Some (Height 903001)" "height_add (Height 903001) 1 = Some (Height 903002)"
  by (simp_all add: height_add_exact)

lemma range_of_three:
  "range_size (Suc (Suc 0)) = 3" "range_size (Suc (Suc (Suc 0))) = 4" "peaks_of (Suc (Suc (Suc 0))) = [2, 3]"
  by (simp_all add: peaks_of_def range_size_def)

text \<open>
  C19. The pruned tree stands for the whole range. From the first block of a network upgrade and any
  number of blocks that follow it (below \<open>2 ^ 28\<close>), the history tree is built without an error, a
  panic or an overflow; its size is that of the mountain range with one leaf for each block, and it
  has kept, of all nodes ever appended, exactly the peaks of that range, at the positions
  they have in it. The leaf of each block is where the range puts it.
\<close>

theorem history_tree_is_a_pruned_range:
  assumes "history_documented H W" "next_leaf H net nu h b roots = Some leaf"
    "leaves_from H net nu h bs = Some leaves" "length bs < 2 ^ 28"
  shows "\<exists>t0 t ns. ht_from_block H net b roots = Some (Ok t0) \<and> try_extend H t0 bs = Some (t, Ok ())
    \<and> length ns = range_size (Suc (length bs)) \<and> ht_size t = length ns
    \<and> ht_size t + length (ht_peaks t) = 2 * Suc (length bs)
    \<and> ht_peaks t = map (\<lambda>i. (i, ns ! i)) (peaks_of (Suc (length bs)))
    \<and> ht_upgrade t = nu \<and> ht_network t = net
    \<and> (\<forall>i \<le> length bs. ns ! range_size i = (leaf # leaves) ! i)"
proof -
  obtain t0 where t0: "ht_from_block H net b roots = Some (Ok t0)" "represents H W t0 1 [leaf]"
    "ht_network t0 = net" "ht_upgrade t0 = nu" "ht_current_height t0 = h"
    using ht_from_block_first [OF assms(1,2)] by blast
  obtain t es where t: "try_extend H t0 bs = Some (t, Ok ())" "represents H W t (1 + length bs) ([leaf] @ es)"
    "ht_network t = ht_network t0" "ht_upgrade t = ht_upgrade t0"
    "\<forall>i < length bs. ([leaf] @ es) ! range_size (1 + i) = leaves ! i"
    using try_extend_represents [OF assms(1) t0(2), of bs leaves] t0(3-5) assms(3,4) by auto
  have "([leaf] @ es) ! range_size i = (leaf # leaves) ! i" if "i \<le> length bs" for i
    using that t(5) by (cases i) (simp_all add: range_size_def)
  moreover have "ht_size t + length (ht_peaks t) = 2 * Suc (length bs)"
    using t(2) range_size_leaves [of "Suc (length bs)"] by (simp add: represents_def peaks_of_def peaks_from_length)
  moreover have "length ([leaf] @ es) = range_size (Suc (length bs))" "ht_size t = length ([leaf] @ es)"
    "ht_peaks t = map (\<lambda>i. (i, ([leaf] @ es) ! i)) (peaks_of (Suc (length bs)))"
    using t(2) by (simp_all add: represents_def)
  ultimately show ?thesis using t0 t by blast
qed

theorem history_tree_is_a_pruned_range_witness:
  "\<exists>t0 t. ht_from_block demo_history MainnetChain (demo_block_at 903000) demo_roots = Some (Ok t0)
     \<and> try_extend demo_history t0 [(demo_block_at 903001, demo_roots), (demo_block_at 903002, demo_roots)] = Some (t, Ok ())
     \<and> ht_size t = 4 \<and> map fst (ht_peaks t) = [2, 3]"
proof -
  have "leaves_from demo_history MainnetChain Heartwood (Height 903000)
      [(demo_block_at 903001, demo_roots), (demo_block_at 903002, demo_roots)] = Some [[1], [1]]"
    using demo_heights demo_heartwood by (simp add: demo_leaf)
  from history_tree_is_a_pruned_range [OF demo_history_documented demo_leaf [OF demo_heartwood(1)] this]
  obtain t0 t ns where "ht_from_block demo_history MainnetChain (demo_block_at 903000) demo_roots = Some (Ok t0)"
    "try_extend demo_history t0 [(demo_block_at 903001, demo_roots), (demo_block_at 903002, demo_roots)] = Some (t, Ok ())"
    "ht_size t = 4" "ht_peaks t = map (\<lambda>i. (i, ns ! i)) [2, 3]"
    by (auto simp: range_of_three simp del: try_extend.simps)
  then show ?thesis by (intro exI [of _ t0] exI [of _ t]) (simp del: try_extend.simps)
qed



end
