(* ===== verification/NoteTrees.thy ===== *)
theory NoteTrees
  imports Block
begin

text \<open>
  The note commitment trees of zebra-chain: \<open>sprout/tree.rs\<close>, \<open>sapling/tree.rs\<close> and
  \<open>orchard/tree.rs\<close>, whose methods are the same up to the types of nodes and roots, their stored
  form (\<open>tree/legacy.rs\<close>), subtrees (\<open>subtree.rs\<close>) and the update of all trees by a block
  (\<open>parallel/tree.rs\<close>). Nodes, roots and commitments are their byte representations; the frontier
  is that of the \<open>incrementalmerkletree\<close> crate, a parameter.
\<close>

section \<open>Subtrees\<close>

definition TRACKED_SUBTREE_HEIGHT :: nat where "TRACKED_SUBTREE_HEIGHT = 16"

text \<open>An index is a \<open>u16\<close>.\<close>

definition subtree_index_try_from :: "nat \<Rightarrow> nat option" where
  "subtree_index_try_from v = (if v < 2 ^ 16 then Some v else None)"

record note_commitment_subtree =
  ncs_index :: nat
  ncs_root :: bytes
  ncs_end_height :: height

record note_commitment_subtree_data =
  ncd_root :: bytes
  ncd_end_height :: height

definition subtree_new :: "nat \<Rightarrow> height \<Rightarrow> bytes \<Rightarrow> note_commitment_subtree" where
  "subtree_new index end_height root = \<lparr>ncs_index = index, ncs_root = root, ncs_end_height = end_height\<rparr>"

definition subtree_into_data :: "note_commitment_subtree \<Rightarrow> note_commitment_subtree_data" where
  "subtree_into_data s = \<lparr>ncd_root = ncs_root s, ncd_end_height = ncs_end_height s\<rparr>"

definition subtree_with_index :: "nat \<Rightarrow> note_commitment_subtree_data \<Rightarrow> note_commitment_subtree" where
  "subtree_with_index index d = subtree_new index (ncd_end_height d) (ncd_root d)"

section \<open>Hashing\<close>

text \<open>The field and hash function of Orchard and the compression function of Sprout.\<close>

record tree_hashing =
  pallas_zero :: bytes
  pallas_one :: bytes
  pallas_double :: "bytes \<Rightarrow> bytes"
  sinsemilla_hash :: "string \<Rightarrow> bool list \<Rightarrow> bytes option"
  sha256_compress :: "u32 list \<Rightarrow> bytes \<Rightarrow> u32 list"

definition MERKLE_DEPTH_SPROUT :: nat where "MERKLE_DEPTH_SPROUT = 29"
definition MERKLE_DEPTH_SAPLING :: nat where "MERKLE_DEPTH_SAPLING = 32"
definition MERKLE_DEPTH_ORCHARD :: nat where "MERKLE_DEPTH_ORCHARD = 32"

text \<open>Bits of bytes, the least significant first.\<close>

definition lsb0_bits :: "bytes \<Rightarrow> bool list" where
  "lsb0_bits b = concat (map (\<lambda>x. map (bit x) [0..<8]) b)"

text \<open>The layer is a \<open>u8\<close>; it is at most 31 where this is called.\<close>

definition merkle_crh_orchard :: "tree_hashing \<Rightarrow> nat \<Rightarrow> bytes \<Rightarrow> bytes \<Rightarrow> bytes" where
  "merkle_crh_orchard F layer left right =
     (let l = MERKLE_DEPTH_ORCHARD - 1 - layer;
          s = take 10 (lsb0_bits [word_of_nat l, 0]) @ take 255 (lsb0_bits left) @ take 255 (lsb0_bits right)
      in case sinsemilla_hash F ''z.cash:Orchard-MerkleCRH'' s of Some h \<Rightarrow> h | None \<Rightarrow> pallas_zero F)"

definition merkle_crh_sprout :: "tree_hashing \<Rightarrow> bytes \<Rightarrow> bytes \<Rightarrow> bytes" where
  "merkle_crh_sprout F left right =
     (let state = [0x6a09e667, 0xbb67ae85, 0x3c6ef372, 0xa54ff53a, 0x510e527f, 0x9b05688c, 0x1f83d9ab, 0x5be0cd19]
      in concat (map (\<lambda>w. be_of_nat 4 (unat w)) (sha256_compress F state (left @ right))))"

definition orchard_uncommitted :: "tree_hashing \<Rightarrow> bytes" where
  "orchard_uncommitted F = pallas_double F (pallas_one F)"

definition sprout_uncommitted :: bytes where "sprout_uncommitted = replicate 32 0"

text \<open>The loop over the layers, from the one above the leaves to the root.\<close>

definition ORCHARD_EMPTY_ROOTS :: "tree_hashing \<Rightarrow> bytes list" where
  "ORCHARD_EMPTY_ROOTS F =
     fold (\<lambda>layer v. merkle_crh_orchard F layer (v ! 0) (v ! 0) # v) (rev [0..<MERKLE_DEPTH_ORCHARD])
       [orchard_uncommitted F]"

definition SPROUT_EMPTY_ROOTS :: "tree_hashing \<Rightarrow> bytes list" where
  "SPROUT_EMPTY_ROOTS F =
     fold (\<lambda>_ v. merkle_crh_sprout F (v ! 0) (v ! 0) # v) [0..<MERKLE_DEPTH_SPROUT] [sprout_uncommitted]"

text \<open>\<open>Hashable\<close>: level 0 is above the leaves. \<open>None\<close>: the \<open>u8\<close> underflows or the index is out of range.\<close>

definition orchard_combine :: "tree_hashing \<Rightarrow> nat \<Rightarrow> bytes \<Rightarrow> bytes \<Rightarrow> bytes option" where
  "orchard_combine F level a b =
     (if level > MERKLE_DEPTH_ORCHARD - 1 then None
      else Some (merkle_crh_orchard F (MERKLE_DEPTH_ORCHARD - 1 - level) a b))"

definition orchard_empty_root :: "tree_hashing \<Rightarrow> nat \<Rightarrow> bytes option" where
  "orchard_empty_root F level =
     (if level > MERKLE_DEPTH_ORCHARD then None
      else Some (ORCHARD_EMPTY_ROOTS F ! (MERKLE_DEPTH_ORCHARD - level)))"

definition sprout_combine :: "tree_hashing \<Rightarrow> nat \<Rightarrow> bytes \<Rightarrow> bytes \<Rightarrow> bytes option" where
  "sprout_combine F level a b = Some (merkle_crh_sprout F a b)"

definition sprout_empty_root :: "tree_hashing \<Rightarrow> nat \<Rightarrow> bytes option" where
  "sprout_empty_root F level =
     (if level > MERKLE_DEPTH_SPROUT then None
      else Some (SPROUT_EMPTY_ROOTS F ! (MERKLE_DEPTH_SPROUT - level)))"

section \<open>Trees\<close>

text \<open>
  Frontiers: appending (whether the tree was not full), the position, leaf and ommers of one that is
  not empty, building one from these, the root, the root of the subtree at a level over the last
  leaf; addresses and positions; and how a pool turns a commitment into a node and a node into a root
  (\<open>None\<close> where Sapling's \<open>unwrap\<close> panics).
\<close>

record 'f frontier_ops =
  fr_empty :: 'f
  fr_append :: "'f \<Rightarrow> bytes \<Rightarrow> 'f \<times> bool"
  fr_value :: "'f \<Rightarrow> (nat \<times> bytes \<times> bytes list) option"
  fr_from_parts :: "nat \<Rightarrow> bytes \<Rightarrow> bytes list \<Rightarrow> 'f option"
  fr_root :: "'f \<Rightarrow> bytes"
  fr_subtree_root :: "nat \<Rightarrow> bytes \<Rightarrow> bytes list \<Rightarrow> nat \<Rightarrow> bytes"
  fr_commitment_tree_bytes :: "'f \<Rightarrow> bytes option"
  ad_index :: "nat \<Rightarrow> nat \<Rightarrow> nat"
  ad_max_position :: "nat \<Rightarrow> nat \<Rightarrow> nat"
  ad_range_start :: "nat \<Rightarrow> nat \<Rightarrow> nat"
  ad_range_end :: "nat \<Rightarrow> nat \<Rightarrow> nat"
  pos_is_complete_subtree :: "nat \<Rightarrow> nat \<Rightarrow> bool"
  pos_is_right_child :: "nat \<Rightarrow> bool"
  node_of_commitment :: "bytes \<Rightarrow> bytes"
  root_of_node :: "bytes \<Rightarrow> bytes option"

datatype tree_error = FullTree

record 'f note_tree =
  nt_inner :: 'f
  nt_cached_root :: "bytes option"

definition nt_default :: "'f frontier_ops \<Rightarrow> 'f note_tree" where
  "nt_default O' = \<lparr>nt_inner = fr_empty O', nt_cached_root = None\<rparr>"

definition nt_append :: "'f frontier_ops \<Rightarrow> bytes \<Rightarrow> 'f note_tree \<Rightarrow> 'f note_tree \<times> (tree_error, unit) result" where
  "nt_append O' cm t =
     (let (inner, appended) = fr_append O' (nt_inner t) (node_of_commitment O' cm)
      in if appended then (t\<lparr>nt_inner := inner, nt_cached_root := None\<rparr>, Ok ())
         else (t\<lparr>nt_inner := inner\<rparr>, Err FullTree))"

definition nt_position :: "'f frontier_ops \<Rightarrow> 'f note_tree \<Rightarrow> nat option" where
  "nt_position O' t = map_option fst (fr_value O' (nt_inner t))"

definition nt_is_complete_subtree :: "'f frontier_ops \<Rightarrow> 'f note_tree \<Rightarrow> bool" where
  "nt_is_complete_subtree O' t =
     (case nt_position O' t of None \<Rightarrow> False | Some p \<Rightarrow> pos_is_complete_subtree O' TRACKED_SUBTREE_HEIGHT p)"

text \<open>The outer \<open>None\<close> is the panic \<open>fits in u16\<close>.\<close>

definition nt_subtree_index :: "'f frontier_ops \<Rightarrow> 'f note_tree \<Rightarrow> nat option option" where
  "nt_subtree_index O' t =
     (case nt_position O' t of
        None \<Rightarrow> Some None
      | Some p \<Rightarrow> map_option Some (subtree_index_try_from (ad_index O' TRACKED_SUBTREE_HEIGHT p)))"

definition contains_new_subtree :: "'f frontier_ops \<Rightarrow> 'f note_tree \<Rightarrow> 'f note_tree \<Rightarrow> bool option" where
  "contains_new_subtree O' self prev_tree =
     Option.bind (nt_subtree_index O' self) (\<lambda>index.
     Option.bind (nt_subtree_index O' prev_tree) (\<lambda>prev_index.
       let index = (case index of None \<Rightarrow> - 1 | Some i \<Rightarrow> int i);
           prev_index = (case prev_index of None \<Rightarrow> - 1 | Some i \<Rightarrow> int i);
           index_difference = index - prev_index
       in Some (
         if index < prev_index then False
         else if index_difference > 1 then True
         else if index = prev_index then nt_is_complete_subtree O' self
         else if nt_is_complete_subtree O' self then True
         else if nt_is_complete_subtree O' prev_tree \<or> prev_index = - 1 then False
         else True)))"

definition remaining_subtree_leaf_nodes :: "'f frontier_ops \<Rightarrow> 'f note_tree \<Rightarrow> nat option" where
  "remaining_subtree_leaf_nodes O' t =
     (case nt_position O' t of
        Some p \<Rightarrow>
          (let max_position = ad_max_position O' TRACKED_SUBTREE_HEIGHT p
           in if max_position < p then None else Some (max_position - p))
      | None \<Rightarrow>
          if ad_range_start O' TRACKED_SUBTREE_HEIGHT 0 \<noteq> 0 then None
          else Some (ad_range_end O' TRACKED_SUBTREE_HEIGHT 0))"

definition completed_subtree_index_and_root :: "'f frontier_ops \<Rightarrow> 'f note_tree \<Rightarrow> (nat \<times> bytes) option option" where
  "completed_subtree_index_and_root O' t =
     (if \<not> nt_is_complete_subtree O' t then Some None
      else map_option (\<lambda>index.
        Option.bind index (\<lambda>index. map_option (\<lambda>(p, leaf, ommers).
          (index, fr_subtree_root O' p leaf ommers TRACKED_SUBTREE_HEIGHT)) (fr_value O' (nt_inner t))))
        (nt_subtree_index O' t))"

definition recalculate_root :: "'f frontier_ops \<Rightarrow> 'f note_tree \<Rightarrow> bytes option" where
  "recalculate_root O' t = root_of_node O' (fr_root O' (nt_inner t))"

text \<open>One thread alone; several are the step relation below.\<close>

definition nt_root :: "'f frontier_ops \<Rightarrow> 'f note_tree \<Rightarrow> ('f note_tree \<times> bytes) option" where
  "nt_root O' t =
     (case nt_cached_root t of
        Some root \<Rightarrow> Some (t, root)
      | None \<Rightarrow> map_option (\<lambda>root. (t\<lparr>nt_cached_root := Some root\<rparr>, root)) (recalculate_root O' t))"

definition nt_hash :: "'f frontier_ops \<Rightarrow> 'f note_tree \<Rightarrow> ('f note_tree \<times> bytes) option" where
  "nt_hash O' t = nt_root O' t"

definition nt_count :: "'f frontier_ops \<Rightarrow> 'f note_tree \<Rightarrow> nat" where
  "nt_count O' t = (case nt_position O' t of None \<Rightarrow> 0 | Some p \<Rightarrow> p + 1)"

definition to_rpc_bytes :: "'f frontier_ops \<Rightarrow> 'f note_tree \<Rightarrow> bytes option" where
  "to_rpc_bytes O' t = fr_commitment_tree_bytes O' (nt_inner t)"

definition nt_clone :: "'f note_tree \<Rightarrow> 'f note_tree" where
  "nt_clone t = \<lparr>nt_inner = nt_inner t, nt_cached_root = nt_cached_root t\<rparr>"

definition nt_eq :: "'f note_tree \<Rightarrow> 'f note_tree \<Rightarrow> bool" where
  "nt_eq self other =
     (case (nt_cached_root self, nt_cached_root other) of
        (Some root, Some other_root) \<Rightarrow> root = other_root
      | _ \<Rightarrow> nt_inner self = nt_inner other)"

text \<open>Errors are ignored.\<close>

definition nt_from_vec :: "'f frontier_ops \<Rightarrow> bytes list \<Rightarrow> 'f note_tree" where
  "nt_from_vec O' values = fold (\<lambda>cm t. fst (nt_append O' cm t)) values (nt_default O')"

section \<open>The stored form\<close>

datatype legacy_leaf = LegacyLeft bytes | LegacyRight bytes bytes

record legacy_frontier =
  lf_position :: nat
  lf_leaf :: legacy_leaf
  lf_ommers :: "bytes list"

text \<open>The outer \<open>None\<close>s are panics: \<open>remove(0)\<close> of no ommers, and parts that make no frontier.\<close>

definition legacy_of_frontier :: "'f frontier_ops \<Rightarrow> 'f \<Rightarrow> legacy_frontier option option" where
  "legacy_of_frontier O' f =
     (case fr_value O' f of
        None \<Rightarrow> Some None
      | Some (position, leaf, ommers) \<Rightarrow>
          if pos_is_right_child O' position then
            (case ommers of
               [] \<Rightarrow> None
             | left # ommers \<Rightarrow>
                 Some (Some \<lparr>lf_position = position, lf_leaf = LegacyRight left leaf, lf_ommers = ommers\<rparr>))
          else Some (Some \<lparr>lf_position = position, lf_leaf = LegacyLeft leaf, lf_ommers = ommers\<rparr>))"

definition frontier_of_legacy :: "'f frontier_ops \<Rightarrow> legacy_frontier option \<Rightarrow> 'f option" where
  "frontier_of_legacy O' legacy =
     (case legacy of
        None \<Rightarrow> Some (fr_empty O')
      | Some d \<Rightarrow>
          (case lf_leaf d of
             LegacyLeft a \<Rightarrow> fr_from_parts O' (lf_position d) a (lf_ommers d)
           | LegacyRight a b \<Rightarrow> fr_from_parts O' (lf_position d) b (a # lf_ommers d)))"

record legacy_tree =
  lt_inner :: "legacy_frontier option"
  lt_cached_root :: "bytes option"

definition legacy_of_tree :: "'f frontier_ops \<Rightarrow> 'f note_tree \<Rightarrow> legacy_tree option" where
  "legacy_of_tree O' t =
     map_option (\<lambda>inner. \<lparr>lt_inner = inner, lt_cached_root = nt_cached_root t\<rparr>) (legacy_of_frontier O' (nt_inner t))"

definition tree_of_legacy :: "'f frontier_ops \<Rightarrow> legacy_tree \<Rightarrow> 'f note_tree option" where
  "tree_of_legacy O' l =
     map_option (\<lambda>inner. \<lparr>nt_inner = inner, nt_cached_root = lt_cached_root l\<rparr>) (frontier_of_legacy O' (lt_inner l))"

section \<open>The update by a block\<close>

datatype note_commitment_tree_error =
    SproutTreeError tree_error | SaplingTreeError tree_error
  | OrchardTreeError tree_error | IronwoodTreeError tree_error

record ('s, 'p, 'o) note_commitment_trees =
  nct_sprout :: "'s note_tree"
  nct_sapling :: "'p note_tree"
  nct_sapling_subtree :: "note_commitment_subtree option"
  nct_orchard :: "'o note_tree"
  nct_orchard_subtree :: "note_commitment_subtree option"
  nct_ironwood :: "'o note_tree"
  nct_ironwood_subtree :: "note_commitment_subtree option"

fun append_all :: "'f frontier_ops \<Rightarrow> bytes list \<Rightarrow> 'f note_tree \<Rightarrow> (tree_error, 'f note_tree) result" where
  "append_all O' [] t = Ok t"
| "append_all O' (cm # cms) t =
     (case nt_append O' cm t of (t, Ok _) \<Rightarrow> append_all O' cms t | (_, Err e) \<Rightarrow> Err e)"

definition update_sprout_note_commitment_tree ::
    "'s frontier_ops \<Rightarrow> 's note_tree \<Rightarrow> bytes list
     \<Rightarrow> (note_commitment_tree_error, 's note_tree) result option" where
  "update_sprout_note_commitment_tree O' sprout notes =
     (case append_all O' notes sprout of
        Err e \<Rightarrow> Some (Err (SproutTreeError e))
      | Ok t \<Rightarrow> map_option (\<lambda>(t, _). Ok t) (nt_root O' t))"

text \<open>Appending, with the last subtree completed on the way.\<close>

fun append_tracked ::
    "'f frontier_ops \<Rightarrow> bytes list \<Rightarrow> 'f note_tree \<Rightarrow> (nat \<times> bytes) option
     \<Rightarrow> (tree_error, 'f note_tree \<times> (nat \<times> bytes) option) result option" where
  "append_tracked O' [] t subtree_root = Some (Ok (t, subtree_root))"
| "append_tracked O' (cm # cms) t subtree_root =
     (case nt_append O' cm t of
        (_, Err e) \<Rightarrow> Some (Err e)
      | (t, Ok _) \<Rightarrow>
          Option.bind (completed_subtree_index_and_root O' t) (\<lambda>completed.
            append_tracked O' cms t (case completed of None \<Rightarrow> subtree_root | Some c \<Rightarrow> Some c)))"

definition update_tracked_tree ::
    "'f frontier_ops \<Rightarrow> 'f note_tree \<Rightarrow> bytes list
     \<Rightarrow> (tree_error, 'f note_tree \<times> (nat \<times> bytes) option) result option" where
  "update_tracked_tree O' tree notes =
     Option.bind (append_tracked O' notes tree None) (\<lambda>r.
       case r of
         Err e \<Rightarrow> Some (Err e)
       | Ok (t, subtree_root) \<Rightarrow> map_option (\<lambda>(t, _). Ok (t, subtree_root)) (nt_root O' t))"

definition update_sapling_note_commitment_tree ::
    "'p frontier_ops \<Rightarrow> 'p note_tree \<Rightarrow> bytes list
     \<Rightarrow> (note_commitment_tree_error, 'p note_tree \<times> (nat \<times> bytes) option) result option" where
  "update_sapling_note_commitment_tree O' sapling notes =
     map_option (map_err SaplingTreeError) (update_tracked_tree O' sapling notes)"

definition update_orchard_note_commitment_tree ::
    "'o frontier_ops \<Rightarrow> 'o note_tree \<Rightarrow> bytes list
     \<Rightarrow> (note_commitment_tree_error, 'o note_tree \<times> (nat \<times> bytes) option) result option" where
  "update_orchard_note_commitment_tree O' orchard notes =
     map_option (map_err OrchardTreeError) (update_tracked_tree O' orchard notes)"

definition update_ironwood_note_commitment_tree ::
    "'o frontier_ops \<Rightarrow> 'o note_tree \<Rightarrow> bytes list
     \<Rightarrow> (note_commitment_tree_error, 'o note_tree \<times> (nat \<times> bytes) option) result option" where
  "update_ironwood_note_commitment_tree O' ironwood notes =
     map_option (map_err (\<lambda>err. case err of OrchardTreeError inner \<Rightarrow> IronwoodTreeError inner | other \<Rightarrow> other))
       (update_orchard_note_commitment_tree O' ironwood notes)"

text \<open>
  The four updates run in threads of their own, on clones of the trees, where the block has notes; a
  panic of one is a panic of all. Their results are assigned in order, up to the first error.
\<close>

definition spawned :: "bytes list \<Rightarrow> 'a option \<Rightarrow> 'a option option" where
  "spawned notes result = (if notes = [] then Some None else map_option Some result)"

definition new_subtree :: "height \<Rightarrow> (nat \<times> bytes) option \<Rightarrow> note_commitment_subtree option" where
  "new_subtree height subtree_root = map_option (\<lambda>(idx, node). subtree_new idx height node) subtree_root"

definition assigned ::
    "('e, 'a) result option \<Rightarrow> ('a \<Rightarrow> 't \<Rightarrow> 't) \<Rightarrow> 't \<times> ('e, unit) result \<Rightarrow> 't \<times> ('e, unit) result" where
  "assigned r f s =
     (case s of
        (_, Err _) \<Rightarrow> s
      | (t, Ok _) \<Rightarrow>
          (case r of None \<Rightarrow> (t, Ok ()) | Some (Err e) \<Rightarrow> (t, Err e) | Some (Ok x) \<Rightarrow> (f x t, Ok ())))"

definition update_trees_parallel ::
    "'s frontier_ops \<Rightarrow> 'p frontier_ops \<Rightarrow> 'o frontier_ops \<Rightarrow> block \<Rightarrow> ('s, 'p, 'o) note_commitment_trees
     \<Rightarrow> (('s, 'p, 'o) note_commitment_trees \<times> (note_commitment_tree_error, unit) result) option" where
  "update_trees_parallel Os Op Oo b self =
     Option.bind (coinbase_height b) (\<lambda>height.
       let sprout = block_sprout_note_commitments b; sapling = block_sapling_note_commitments b;
           orchard = block_orchard_note_commitments b; ironwood = block_ironwood_note_commitments b
       in
       Option.bind (spawned sprout (update_sprout_note_commitment_tree Os (nct_sprout self) sprout)) (\<lambda>sprout_result.
       Option.bind (spawned sapling (update_sapling_note_commitment_tree Op (nct_sapling self) sapling)) (\<lambda>sapling_result.
       Option.bind (spawned orchard (update_orchard_note_commitment_tree Oo (nct_orchard self) orchard)) (\<lambda>orchard_result.
       Option.bind (spawned ironwood (update_ironwood_note_commitment_tree Oo (nct_ironwood self) ironwood)) (\<lambda>ironwood_result.
         Some
           (assigned ironwood_result (\<lambda>(t, sub) s. s\<lparr>nct_ironwood := t, nct_ironwood_subtree := new_subtree height sub\<rparr>)
           (assigned orchard_result (\<lambda>(t, sub) s. s\<lparr>nct_orchard := t, nct_orchard_subtree := new_subtree height sub\<rparr>)
           (assigned sapling_result (\<lambda>(t, sub) s. s\<lparr>nct_sapling := t, nct_sapling_subtree := new_subtree height sub\<rparr>)
           (assigned sprout_result (\<lambda>t s. s\<lparr>nct_sprout := t\<rparr>) (self, Ok ()))))))))))"

section \<open>Threads that ask for the root\<close>

text \<open>
  The lock makes each step atomic: a thread reads the cache; if it was empty, the thread later takes
  the write lock, looks again, and computes and stores the root if it is still missing.
\<close>

datatype root_thread = ReadCache | TakeWriteLock | HasRoot bytes

inductive root_step ::
    "'f frontier_ops \<Rightarrow> 'f note_tree \<times> (nat \<Rightarrow> root_thread) \<Rightarrow> 'f note_tree \<times> (nat \<Rightarrow> root_thread) \<Rightarrow> bool"
  for O' where
  cached: "ts i = ReadCache \<Longrightarrow> nt_cached_root t = Some root \<Longrightarrow> root_step O' (t, ts) (t, ts(i := HasRoot root))"
| missing: "ts i = ReadCache \<Longrightarrow> nt_cached_root t = None \<Longrightarrow> root_step O' (t, ts) (t, ts(i := TakeWriteLock))"
| other_was_first:
    "ts i = TakeWriteLock \<Longrightarrow> nt_cached_root t = Some root \<Longrightarrow> root_step O' (t, ts) (t, ts(i := HasRoot root))"
| compute:
    "ts i = TakeWriteLock \<Longrightarrow> nt_cached_root t = None \<Longrightarrow> recalculate_root O' t = Some root \<Longrightarrow>
       root_step O' (t, ts) (t\<lparr>nt_cached_root := Some root\<rparr>, ts(i := HasRoot root))"

section \<open>What the crate promises\<close>

text \<open>
  \<open>A\<close> gives the leaves a frontier stands for and \<open>H\<close> the root, at a level, over leaves that are
  padded with empty ones. At most \<open>2 ^ depth\<close> are accepted; the position is
  that of the last leaf; a frontier is made again from its parts, and one whose last leaf is a right
  child has an ommer; roots of subtrees are those over their leaves; the addresses are those of the protocol's tree; every root is a root of the pool.
\<close>

definition frontier_documented ::
    "'f frontier_ops \<Rightarrow> nat \<Rightarrow> ('f \<Rightarrow> bytes list) \<Rightarrow> (nat \<Rightarrow> bytes list \<Rightarrow> bytes) \<Rightarrow> bool" where
  "frontier_documented O' depth A H \<longleftrightarrow>
     A (fr_empty O') = [] \<and> fr_value O' (fr_empty O') = None
   \<and> (\<forall>f x. length (A f) \<le> 2 ^ depth
        \<and> (if length (A f) < 2 ^ depth
           then \<exists>f'. fr_append O' f x = (f', True) \<and> A f' = A f @ [x]
           else fr_append O' f x = (f, False)))
   \<and> (\<forall>f. case fr_value O' f of
          None \<Rightarrow> A f = [] \<and> f = fr_empty O'
        | Some (p, leaf, ommers) \<Rightarrow> p + 1 = length (A f) \<and> fr_from_parts O' p leaf ommers = Some f
            \<and> (pos_is_right_child O' p \<longrightarrow> ommers \<noteq> [])
            \<and> (\<forall>level. (p + 1) mod 2 ^ level = 0 \<longrightarrow>
                 fr_subtree_root O' p leaf ommers level = H level (drop (p + 1 - 2 ^ level) (A f))))
   \<and> (\<forall>f. fr_root O' f = H depth (A f))
   \<and> (\<forall>level p. ad_index O' level p = p div 2 ^ level
        \<and> ad_max_position O' level p = (p div 2 ^ level + 1) * 2 ^ level - 1
        \<and> ad_range_start O' level p = p div 2 ^ level * 2 ^ level
        \<and> ad_range_end O' level p = (p div 2 ^ level + 1) * 2 ^ level
        \<and> (pos_is_complete_subtree O' level p \<longleftrightarrow> (p + 1) mod 2 ^ level = 0))
   \<and> (\<forall>f. root_of_node O' (fr_root O' f) \<noteq> None)"

definition notes_of :: "('f \<Rightarrow> bytes list) \<Rightarrow> 'f note_tree \<Rightarrow> bytes list" where
  "notes_of A t = A (nt_inner t)"

text \<open>The cached root, where there is one, is the root.\<close>

definition cache_sound :: "'f frontier_ops \<Rightarrow> 'f note_tree \<Rightarrow> bool" where
  "cache_sound O' t \<longleftrightarrow> (case nt_cached_root t of None \<Rightarrow> True | Some r \<Rightarrow> recalculate_root O' t = Some r)"

lemma documented_position:
  assumes "frontier_documented O' depth A H"
  shows "nt_position O' t = (if notes_of A t = [] then None else Some (length (notes_of A t) - 1))"
proof -
  have "case fr_value O' (nt_inner t) of
      None \<Rightarrow> A (nt_inner t) = [] \<and> nt_inner t = fr_empty O'
    | Some (p, leaf, ommers) \<Rightarrow> p + 1 = length (A (nt_inner t)) \<and> fr_from_parts O' p leaf ommers = Some (nt_inner t)
        \<and> (pos_is_right_child O' p \<longrightarrow> ommers \<noteq> [])
        \<and> (\<forall>level. (p + 1) mod 2 ^ level = 0 \<longrightarrow>
             fr_subtree_root O' p leaf ommers level = H level (drop (p + 1 - 2 ^ level) (A (nt_inner t))))"
    using assms unfolding frontier_documented_def by blast
  then show ?thesis by (auto simp: nt_position_def notes_of_def split: option.splits)
qed

lemma documented_bound:
  "frontier_documented O' depth A H \<Longrightarrow> length (notes_of A t) \<le> 2 ^ depth"
  by (simp add: frontier_documented_def notes_of_def)

lemma documented_addresses:
  assumes "frontier_documented O' depth A H"
  shows "ad_index O' l p = p div 2 ^ l" "ad_max_position O' l p = (p div 2 ^ l + 1) * 2 ^ l - 1"
    "ad_range_start O' l p = p div 2 ^ l * 2 ^ l" "ad_range_end O' l p = (p div 2 ^ l + 1) * 2 ^ l"
    "pos_is_complete_subtree O' l p \<longleftrightarrow> (p + 1) mod 2 ^ l = 0"
  using assms by (simp_all add: frontier_documented_def)

lemma nt_append_documented:
  assumes "frontier_documented O' depth A H"
  shows "length (notes_of A t) < 2 ^ depth \<Longrightarrow>
      \<exists>f. nt_append O' cm t = (\<lparr>nt_inner = f, nt_cached_root = None\<rparr>, Ok ())
        \<and> A f = notes_of A t @ [node_of_commitment O' cm]"
    "\<not> length (notes_of A t) < 2 ^ depth \<Longrightarrow> nt_append O' cm t = (t, Err FullTree)"
proof -
  let ?x = "node_of_commitment O' cm"
  have a: "if length (A (nt_inner t)) < 2 ^ depth
      then \<exists>f'. fr_append O' (nt_inner t) ?x = (f', True) \<and> A f' = A (nt_inner t) @ [?x]
      else fr_append O' (nt_inner t) ?x = (nt_inner t, False)"
    using assms unfolding frontier_documented_def by blast
  show "\<exists>f. nt_append O' cm t = (\<lparr>nt_inner = f, nt_cached_root = None\<rparr>, Ok ()) \<and> A f = notes_of A t @ [?x]"
    if "length (notes_of A t) < 2 ^ depth"
    using a that by (cases t) (auto simp: nt_append_def notes_of_def)
  show "nt_append O' cm t = (t, Err FullTree)" if "\<not> length (notes_of A t) < 2 ^ depth"
    using a that by (simp add: nt_append_def notes_of_def)
qed

section \<open>Subtree queries\<close>

definition leaves_per_subtree :: nat where "leaves_per_subtree = 2 ^ TRACKED_SUBTREE_HEIGHT"

lemma subtree_queries:
  fixes t :: "'f note_tree"
  assumes doc: "frontier_documented O' depth A H" and depth: "depth \<le> 32"
  defines "n \<equiv> length (notes_of A t)"
  shows "nt_subtree_index O' t = Some (if n = 0 then None else Some ((n - 1) div leaves_per_subtree))"
    "nt_is_complete_subtree O' t \<longleftrightarrow> 0 < n \<and> n mod leaves_per_subtree = 0"
    "remaining_subtree_leaf_nodes O' t =
       Some (if n = 0 then leaves_per_subtree else leaves_per_subtree - 1 - (n - 1) mod leaves_per_subtree)"
    "nt_count O' t = n"
proof -
  note pos = documented_position [OF doc, of t, folded n_def]
  have empty: "notes_of A t = [] \<longleftrightarrow> n = 0" by (simp add: n_def)
  have "n \<le> 2 ^ depth" using documented_bound [OF doc] by (simp add: n_def)
  also have "(2 :: nat) ^ depth \<le> 2 ^ 32" using depth by (intro power_increasing) simp_all
  finally have n: "n \<le> 2 ^ 32" .
  have idx: "(n - 1) div 2 ^ 16 < 2 ^ 16" if "n \<noteq> 0" using n that by (simp add: div_less_iff_less_mult)
  show "nt_subtree_index O' t = Some (if n = 0 then None else Some ((n - 1) div leaves_per_subtree))"
    using pos idx by (auto simp: nt_subtree_index_def documented_addresses [OF doc] subtree_index_try_from_def
        TRACKED_SUBTREE_HEIGHT_def leaves_per_subtree_def empty)
  show "nt_is_complete_subtree O' t \<longleftrightarrow> 0 < n \<and> n mod leaves_per_subtree = 0"
    using pos by (auto simp: nt_is_complete_subtree_def documented_addresses [OF doc] leaves_per_subtree_def empty)
  show "nt_count O' t = n" using pos by (auto simp: nt_count_def empty)
  show "remaining_subtree_leaf_nodes O' t =
       Some (if n = 0 then leaves_per_subtree else leaves_per_subtree - 1 - (n - 1) mod leaves_per_subtree)"
  proof (cases "n = 0")
    case True
    then show ?thesis using pos
      by (simp add: remaining_subtree_leaf_nodes_def documented_addresses [OF doc] leaves_per_subtree_def empty)
  next
    case False
    let ?S = "leaves_per_subtree" and ?p = "n - 1"
    have "?p mod ?S < ?S" "?p = ?p div ?S * ?S + ?p mod ?S"
      by (simp add: leaves_per_subtree_def) (rule div_mult_mod_eq [symmetric])
    moreover have "(?p div ?S + 1) * ?S = ?p div ?S * ?S + ?S" by simp
    ultimately have "?p \<le> (?p div ?S + 1) * ?S - 1"
      "(?p div ?S + 1) * ?S - 1 - ?p = ?S - 1 - ?p mod ?S" by linarith+
    with False pos show ?thesis
      by (simp add: remaining_subtree_leaf_nodes_def documented_addresses [OF doc]
          leaves_per_subtree_def [symmetric] empty)
  qed
qed

text \<open>Between fewer and more notes, a subtree was completed exactly when a multiple of its size was reached.\<close>

lemma last_index_div:
  "0 < (S :: nat) \<Longrightarrow> (if n = 0 then - 1 else int ((n - 1) div S)) = int (n div S) - (if n mod S = 0 then 1 else 0)"
  by (cases n) (auto simp: div_Suc)

lemma same_div_mod_less: "a div S = b div S \<Longrightarrow> (a :: nat) < b \<Longrightarrow> a mod S < b mod S"
  by (metis div_mult_mod_eq nat_add_left_cancel_less)

lemma contains_new_subtree_counts:
  fixes self prev_tree :: "'f note_tree"
  assumes doc: "frontier_documented O' depth A H" and depth: "depth \<le> 32"
  defines "a \<equiv> length (notes_of A prev_tree)" and "b \<equiv> length (notes_of A self)"
  shows "contains_new_subtree O' self prev_tree =
    Some (if a = b then 0 < b \<and> b mod leaves_per_subtree = 0
          else a < b \<and> a div leaves_per_subtree < b div leaves_per_subtree)"
proof -
  let ?S = leaves_per_subtree
  have S: "0 < ?S" by (simp add: leaves_per_subtree_def)
  define i where "i n = (if n = 0 then - 1 else int ((n - 1) div ?S))" for n :: nat
  have i: "i n = int (n div ?S) - (if n mod ?S = 0 then 1 else 0)" for n
    using last_index_div [OF S] by (simp only: i_def)
  have c: "contains_new_subtree O' self prev_tree = Some (
      if i b < i a then False else if i b - i a > 1 then True
      else if i b = i a then 0 < b \<and> b mod ?S = 0
      else if 0 < b \<and> b mod ?S = 0 then True
      else if (0 < a \<and> a mod ?S = 0) \<or> i a = - 1 then False else True)"
    unfolding contains_new_subtree_def Let_def i_def a_def b_def
    by (simp add: subtree_queries [OF doc depth] split: option.splits)
  consider "a = b" | "a < b" "a div ?S = b div ?S" | "a < b" "a div ?S < b div ?S"
    | "b < a" "b div ?S = a div ?S" | "b < a" "b div ?S < a div ?S"
    by (metis div_le_mono le_neq_implies_less less_imp_le_nat linorder_neqE_nat)
  then show ?thesis
  proof cases
    case 1
    then show ?thesis by (simp add: c)
  next
    case 2
    then have "a mod ?S < b mod ?S" by (intro same_div_mod_less)
    with 2 show ?thesis by (cases "a = 0") (auto simp: c i)
  next
    case 3
    then have "0 < b" by linarith
    with 3 show ?thesis by (auto simp: c i)
  next
    case 4
    then have "b mod ?S < a mod ?S" by (intro same_div_mod_less)
    with 4 show ?thesis by (auto simp: c i)
  next
    case 5
    then show ?thesis by (auto simp: c i)
  qed
qed

section \<open>Appending\<close>

lemma documented_completed:
  assumes doc: "frontier_documented O' depth A H" and depth: "depth \<le> 32"
  shows "completed_subtree_index_and_root O' t =
    Some (let n = length (notes_of A t) in
      if 0 < n \<and> n mod leaves_per_subtree = 0
      then Some ((n - 1) div leaves_per_subtree,
             H TRACKED_SUBTREE_HEIGHT (drop (n - leaves_per_subtree) (notes_of A t)))
      else None)"
proof -
  have v: "case fr_value O' (nt_inner t) of
      None \<Rightarrow> A (nt_inner t) = [] \<and> nt_inner t = fr_empty O'
    | Some (p, leaf, ommers) \<Rightarrow> p + 1 = length (A (nt_inner t)) \<and> fr_from_parts O' p leaf ommers = Some (nt_inner t)
        \<and> (pos_is_right_child O' p \<longrightarrow> ommers \<noteq> [])
        \<and> (\<forall>level. (p + 1) mod 2 ^ level = 0 \<longrightarrow>
             fr_subtree_root O' p leaf ommers level = H level (drop (p + 1 - 2 ^ level) (A (nt_inner t))))"
    using doc unfolding frontier_documented_def by blast
  show ?thesis
  proof (cases "fr_value O' (nt_inner t)")
    case None
    then have "notes_of A t = []" using v by (auto simp: notes_of_def)
    then show ?thesis
      by (simp add: completed_subtree_index_and_root_def subtree_queries [OF doc depth] Let_def)
  next
    case (Some w)
    obtain p leaf ommers where w: "w = (p, leaf, ommers)" by (cases w)
    have n: "length (notes_of A t) = p + 1"
      and root: "(p + 1) mod leaves_per_subtree = 0 \<Longrightarrow>
        fr_subtree_root O' p leaf ommers TRACKED_SUBTREE_HEIGHT
          = H TRACKED_SUBTREE_HEIGHT (drop (p + 1 - leaves_per_subtree) (notes_of A t))"
      using v by (simp_all add: Some w notes_of_def leaves_per_subtree_def)
    show ?thesis
      by (simp add: completed_subtree_index_and_root_def subtree_queries [OF doc depth] Let_def n Some w root [simplified])
  qed
qed

definition last_subtree :: "(nat \<Rightarrow> bytes list \<Rightarrow> bytes) \<Rightarrow> nat \<Rightarrow> bytes list \<Rightarrow> (nat \<times> bytes) option" where
  "last_subtree H a notes =
     (let k = length notes div leaves_per_subtree
      in if a div leaves_per_subtree = k then None
         else Some (k - 1, H TRACKED_SUBTREE_HEIGHT
                (take leaves_per_subtree (drop ((k - 1) * leaves_per_subtree) notes))))"

lemma append_all_documented:
  assumes doc: "frontier_documented O' depth A H"
  shows "(length (notes_of A t) + length cms \<le> 2 ^ depth \<longrightarrow>
      (\<exists>t'. append_all O' cms t = Ok t' \<and> notes_of A t' = notes_of A t @ map (node_of_commitment O') cms
          \<and> (cms \<noteq> [] \<longrightarrow> nt_cached_root t' = None)))
    \<and> (\<not> length (notes_of A t) + length cms \<le> 2 ^ depth \<longrightarrow> append_all O' cms t = Err FullTree)"
proof (induction cms arbitrary: t)
  case Nil
  then show ?case using documented_bound [OF doc, of t] by simp
next
  case (Cons cm cms)
  show ?case
  proof (cases "length (notes_of A t) < 2 ^ depth")
    case True
    from nt_append_documented(1) [OF doc this, of cm] obtain f where
      f: "nt_append O' cm t = (\<lparr>nt_inner = f, nt_cached_root = None\<rparr>, Ok ())"
         "A f = notes_of A t @ [node_of_commitment O' cm]" by blast
    define u where "u = \<lparr>nt_inner = f, nt_cached_root = None\<rparr>"
    have u: "notes_of A u = notes_of A t @ [node_of_commitment O' cm]" "nt_cached_root u = None"
      by (simp_all add: u_def notes_of_def f)
    show ?thesis using Cons.IH [of u] by (cases cms) (auto simp: f u u_def [symmetric])
  next
    case False
    then show ?thesis by (simp add: nt_append_documented(2) [OF doc])
  qed
qed

lemma last_subtree_start: "last_subtree H (length notes) notes = None"
  by (simp add: last_subtree_def)

lemma take_drop_all: "k + n = Suc (length xs) \<Longrightarrow> take n (drop k (xs @ [x])) = drop k (xs @ [x])"
  by (rule take_all) (simp del: drop_append)

lemma last_subtree_snoc:
  assumes "a \<le> length xs"
  shows "last_subtree H a (xs @ [x]) =
    (let n = length xs + 1 in
      if n mod leaves_per_subtree = 0
      then Some ((n - 1) div leaves_per_subtree, H TRACKED_SUBTREE_HEIGHT (drop (n - leaves_per_subtree) (xs @ [x])))
      else last_subtree H a xs)"
proof -
  let ?S = leaves_per_subtree and ?n = "length xs"
  have S: "0 < ?S" by (simp add: leaves_per_subtree_def)
  have le: "a div ?S \<le> ?n div ?S" using assms by (rule div_le_mono)
  show ?thesis
  proof (cases "Suc ?n mod ?S = 0")
    case True
    have k: "Suc ?n div ?S = Suc (?n div ?S)" using True by (simp add: div_Suc)
    have "Suc ?n div ?S * ?S = Suc ?n" using True by (metis add.right_neutral div_mult_mod_eq)
    then have m: "Suc (?n div ?S) * ?S = Suc ?n" by (simp only: k)
    then have d: "Suc ?n - ?S = ?n div ?S * ?S" by (metis add_diff_cancel_left' mult_Suc)
    have "take ?S (drop (?n div ?S * ?S) (xs @ [x])) = drop (?n div ?S * ?S) (xs @ [x])"
      using m by (intro take_drop_all) simp
    then show ?thesis using True le by (simp add: last_subtree_def Let_def k d)
  next
    case False
    have k: "Suc ?n div ?S = ?n div ?S" using False by (simp add: div_Suc)
    have sub: "take ?S (drop ((?n div ?S - 1) * ?S) (xs @ [x])) = take ?S (drop ((?n div ?S - 1) * ?S) xs)"
      if nz: "?n div ?S \<noteq> 0"
    proof -
      obtain q where q: "?n div ?S = Suc q" using nz not0_implies_Suc by blast
      have "?n div ?S * ?S \<le> ?n" by (rule div_times_less_eq_dividend)
      then have "q * ?S + ?S \<le> ?n" by (simp add: q)
      then show ?thesis by (simp add: q)
    qed
    show ?thesis using False le sub by (auto simp: last_subtree_def Let_def k)
  qed
qed

lemma append_tracked_documented:
  assumes doc: "frontier_documented O' depth A H" and depth: "depth \<le> 32" and a: "a \<le> length (notes_of A t)"
  shows "(length (notes_of A t) + length cms \<le> 2 ^ depth \<longrightarrow>
      (\<exists>t'. append_tracked O' cms t (last_subtree H a (notes_of A t)) = Some (Ok (t', last_subtree H a (notes_of A t')))
          \<and> notes_of A t' = notes_of A t @ map (node_of_commitment O') cms
          \<and> (cms \<noteq> [] \<longrightarrow> nt_cached_root t' = None)))
    \<and> (\<not> length (notes_of A t) + length cms \<le> 2 ^ depth \<longrightarrow>
        append_tracked O' cms t (last_subtree H a (notes_of A t)) = Some (Err FullTree))"
  using a
proof (induction cms arbitrary: t)
  case Nil
  then show ?case using documented_bound [OF doc, of t] by simp
next
  case (Cons cm cms)
  show ?case
  proof (cases "length (notes_of A t) < 2 ^ depth")
    case True
    from nt_append_documented(1) [OF doc this, of cm] obtain f where
      f: "nt_append O' cm t = (\<lparr>nt_inner = f, nt_cached_root = None\<rparr>, Ok ())"
         "A f = notes_of A t @ [node_of_commitment O' cm]" by blast
    define u where "u = \<lparr>nt_inner = f, nt_cached_root = None\<rparr>"
    have u: "notes_of A u = notes_of A t @ [node_of_commitment O' cm]" "nt_cached_root u = None"
      by (simp_all add: u_def notes_of_def f)
    have acc: "(case (let n = length (notes_of A u) in
        if 0 < n \<and> n mod leaves_per_subtree = 0
        then Some ((n - 1) div leaves_per_subtree,
               H TRACKED_SUBTREE_HEIGHT (drop (n - leaves_per_subtree) (notes_of A u)))
        else None) of None \<Rightarrow> last_subtree H a (notes_of A t) | Some c \<Rightarrow> Some c) = last_subtree H a (notes_of A u)"
      using last_subtree_snoc [OF Cons.prems, of H "node_of_commitment O' cm"] by (simp add: u Let_def)
    have "append_tracked O' (cm # cms) t (last_subtree H a (notes_of A t))
        = append_tracked O' cms u (last_subtree H a (notes_of A u))"
      by (simp add: f u_def [symmetric] documented_completed [OF doc depth] acc del: length_greater_0_conv)
    moreover have "a \<le> length (notes_of A u)" using Cons.prems by (simp add: u)
    ultimately show ?thesis using Cons.IH [of u] by (cases cms) (auto simp: u)
  next
    case False
    then show ?thesis by (simp add: nt_append_documented(2) [OF doc])
  qed
qed

section \<open>A pool follows a block\<close>

definition pool_fits :: "nat \<Rightarrow> ('f \<Rightarrow> bytes list) \<Rightarrow> 'f note_tree \<Rightarrow> bytes list \<Rightarrow> bool" where
  "pool_fits depth A t cms \<longleftrightarrow> length (notes_of A t) + length cms \<le> 2 ^ depth"

definition pool_follows ::
    "'f frontier_ops \<Rightarrow> nat \<Rightarrow> ('f \<Rightarrow> bytes list) \<Rightarrow> (nat \<Rightarrow> bytes list \<Rightarrow> bytes) \<Rightarrow> 'f note_tree \<Rightarrow> bytes list
     \<Rightarrow> 'f note_tree \<Rightarrow> bool" where
  "pool_follows O' depth A H t cms t' \<longleftrightarrow>
     (if cms = [] then t' = t
      else notes_of A t' = notes_of A t @ map (node_of_commitment O') cms
         \<and> nt_cached_root t' = root_of_node O' (H depth (notes_of A t')) \<and> nt_cached_root t' \<noteq> None)"

definition subtree_follows ::
    "('f \<Rightarrow> bytes list) \<Rightarrow> (nat \<Rightarrow> bytes list \<Rightarrow> bytes) \<Rightarrow> 'f note_tree \<Rightarrow> bytes list \<Rightarrow> 'f note_tree \<Rightarrow> height
     \<Rightarrow> note_commitment_subtree option \<Rightarrow> note_commitment_subtree option \<Rightarrow> bool" where
  "subtree_follows A H t cms t' h sub sub' \<longleftrightarrow>
     sub' = (if cms = [] then sub
             else new_subtree h (last_subtree H (length (notes_of A t)) (notes_of A t')))"

lemma documented_root:
  assumes doc: "frontier_documented O' depth A H" and "nt_cached_root t = None"
  shows "\<exists>t' r. nt_root O' t = Some (t', r) \<and> notes_of A t' = notes_of A t
    \<and> nt_cached_root t' = root_of_node O' (H depth (notes_of A t)) \<and> nt_cached_root t' \<noteq> None"
proof -
  have "root_of_node O' (fr_root O' (nt_inner t)) \<noteq> None" "fr_root O' (nt_inner t) = H depth (A (nt_inner t))"
    using doc unfolding frontier_documented_def by blast+
  then show ?thesis using assms(2)
    by (auto simp: nt_root_def recalculate_root_def notes_of_def)
qed

lemma sprout_update_documented:
  assumes doc: "frontier_documented O' depth A H"
  shows "pool_fits depth A t cms \<Longrightarrow> cms \<noteq> [] \<Longrightarrow>
      \<exists>t'. update_sprout_note_commitment_tree O' t cms = Some (Ok t') \<and> pool_follows O' depth A H t cms t'"
    "\<not> pool_fits depth A t cms \<Longrightarrow>
      update_sprout_note_commitment_tree O' t cms = Some (Err (SproutTreeError FullTree))"
proof -
  note appended = append_all_documented [OF doc, of t cms, folded pool_fits_def]
  show "\<exists>t'. update_sprout_note_commitment_tree O' t cms = Some (Ok t') \<and> pool_follows O' depth A H t cms t'"
    if "pool_fits depth A t cms" "cms \<noteq> []"
  proof -
    from appended that obtain u where u: "append_all O' cms t = Ok u"
      "notes_of A u = notes_of A t @ map (node_of_commitment O') cms" "nt_cached_root u = None" by blast
    from documented_root [OF doc u(3)] show ?thesis
      using that(2) by (auto simp: update_sprout_note_commitment_tree_def u pool_follows_def)
  qed
  show "update_sprout_note_commitment_tree O' t cms = Some (Err (SproutTreeError FullTree))"
    if "\<not> pool_fits depth A t cms"
    using appended that by (simp add: update_sprout_note_commitment_tree_def)
qed

lemma tracked_update_documented:
  assumes doc: "frontier_documented O' depth A H" and depth: "depth \<le> 32"
  shows "pool_fits depth A t cms \<Longrightarrow> cms \<noteq> [] \<Longrightarrow>
      \<exists>t'. update_tracked_tree O' t cms = Some (Ok (t', last_subtree H (length (notes_of A t)) (notes_of A t')))
         \<and> pool_follows O' depth A H t cms t'"
    "\<not> pool_fits depth A t cms \<Longrightarrow> update_tracked_tree O' t cms = Some (Err FullTree)"
proof -
  note appended = append_tracked_documented [OF doc depth order_refl, of t cms, folded pool_fits_def,
      unfolded last_subtree_start]
  show "\<exists>t'. update_tracked_tree O' t cms = Some (Ok (t', last_subtree H (length (notes_of A t)) (notes_of A t')))
      \<and> pool_follows O' depth A H t cms t'"
    if "pool_fits depth A t cms" "cms \<noteq> []"
  proof -
    from appended that obtain u where
      u: "append_tracked O' cms t None = Some (Ok (u, last_subtree H (length (notes_of A t)) (notes_of A u)))"
      "notes_of A u = notes_of A t @ map (node_of_commitment O') cms" "nt_cached_root u = None" by blast
    from documented_root [OF doc u(3)] show ?thesis
      using that(2) by (auto simp: update_tracked_tree_def u pool_follows_def)
  qed
  show "update_tracked_tree O' t cms = Some (Err FullTree)" if "\<not> pool_fits depth A t cms"
    using appended that by (simp add: update_tracked_tree_def)
qed

lemma ironwood_is_orchard_retagged:
  "update_ironwood_note_commitment_tree O' t cms = map_option (map_err IronwoodTreeError) (update_tracked_tree O' t cms)"
  by (cases "update_tracked_tree O' t cms"; cases "the (update_tracked_tree O' t cms)")
    (auto simp: update_ironwood_note_commitment_tree_def update_orchard_note_commitment_tree_def)

text \<open>What a spawned update leaves for the assignment that follows.\<close>

lemma spawned_documented:
  assumes doc: "frontier_documented O' depth A H" and depth: "depth \<le> 32"
  shows "pool_fits depth A t cms \<Longrightarrow>
      (cms = [] \<and> spawned cms (map_option (map_err E) (update_tracked_tree O' t cms)) = Some None)
    \<or> (cms \<noteq> [] \<and> (\<exists>t'. spawned cms (map_option (map_err E) (update_tracked_tree O' t cms))
          = Some (Some (Ok (t', last_subtree H (length (notes_of A t)) (notes_of A t'))))
        \<and> pool_follows O' depth A H t cms t'))"
    "\<not> pool_fits depth A t cms \<Longrightarrow>
      spawned cms (map_option (map_err E) (update_tracked_tree O' t cms)) = Some (Some (Err (E FullTree)))"
proof -
  show "(cms = [] \<and> spawned cms (map_option (map_err E) (update_tracked_tree O' t cms)) = Some None)
    \<or> (cms \<noteq> [] \<and> (\<exists>t'. spawned cms (map_option (map_err E) (update_tracked_tree O' t cms))
          = Some (Some (Ok (t', last_subtree H (length (notes_of A t)) (notes_of A t'))))
        \<and> pool_follows O' depth A H t cms t'))" if "pool_fits depth A t cms"
    using tracked_update_documented(1) [OF doc depth that] by (auto simp: spawned_def)
  show "spawned cms (map_option (map_err E) (update_tracked_tree O' t cms)) = Some (Some (Err (E FullTree)))"
    if "\<not> pool_fits depth A t cms"
    using tracked_update_documented(2) [OF doc depth that] that documented_bound [OF doc, of t]
    by (auto simp: spawned_def pool_fits_def)
qed

lemma spawned_sprout_documented:
  assumes doc: "frontier_documented O' depth A H"
  shows "pool_fits depth A t cms \<Longrightarrow>
      (cms = [] \<and> spawned cms (update_sprout_note_commitment_tree O' t cms) = Some None)
    \<or> (cms \<noteq> [] \<and> (\<exists>t'. spawned cms (update_sprout_note_commitment_tree O' t cms) = Some (Some (Ok t'))
        \<and> pool_follows O' depth A H t cms t'))"
    "\<not> pool_fits depth A t cms \<Longrightarrow>
      spawned cms (update_sprout_note_commitment_tree O' t cms) = Some (Some (Err (SproutTreeError FullTree)))"
  using sprout_update_documented [OF doc, of t cms] documented_bound [OF doc, of t]
  by (auto simp: spawned_def pool_fits_def)

lemma pool_follows_no_notes: "pool_follows O' depth A H t [] t' \<longleftrightarrow> t' = t"
  by (simp add: pool_follows_def)

lemma tracked_assigned:
  assumes "frontier_documented O' depth A H" "depth \<le> 32"
  obtains r where "spawned cms (map_option (map_err E) (update_tracked_tree O' t cms)) = Some r"
    "if pool_fits depth A t cms
     then (cms = [] \<and> r = None) \<or> (\<exists>t'. cms \<noteq> [] \<and> r = Some (Ok (t', last_subtree H (length (notes_of A t)) (notes_of A t')))
        \<and> pool_follows O' depth A H t cms t')
     else r = Some (Err (E FullTree))"
  using spawned_documented [OF assms, where t = t and cms = cms and E = E] by (cases "pool_fits depth A t cms") auto

lemma sprout_assigned:
  assumes "frontier_documented O' depth A H"
  obtains r where "spawned cms (update_sprout_note_commitment_tree O' t cms) = Some r"
    "if pool_fits depth A t cms
     then (cms = [] \<and> r = None) \<or> (\<exists>t'. cms \<noteq> [] \<and> r = Some (Ok t') \<and> pool_follows O' depth A H t cms t')
     else r = Some (Err (SproutTreeError FullTree))"
  using spawned_sprout_documented [OF assms, where t = t and cms = cms] by (cases "pool_fits depth A t cms") auto

lemmas tracked_updates = update_sapling_note_commitment_tree_def update_orchard_note_commitment_tree_def
  ironwood_is_orchard_retagged

text \<open>A tracked pool whose result is assigned, after the state \<open>s\<close>, where no error came before.\<close>

lemma assigned_none: "assigned None f (s, Ok ()) = (s, Ok ())"
  and assigned_ok: "assigned (Some (Ok x)) f (s, Ok ()) = (f x s, Ok ())"
  and assigned_err: "assigned (Some (Err e)) f (s, Ok ()) = (s, Err e)"
  and assigned_after_err: "assigned r f (s, Err e) = (s, Err e)"
  by (simp_all add: assigned_def)

lemmas assigned_simps = assigned_none assigned_ok assigned_err assigned_after_err

text \<open>The first pool that has no room for the block's notes.\<close>

definition full_pool ::
    "('s \<Rightarrow> bytes list) \<Rightarrow> ('p \<Rightarrow> bytes list) \<Rightarrow> ('o \<Rightarrow> bytes list) \<Rightarrow> ('s, 'p, 'o) note_commitment_trees \<Rightarrow> block
     \<Rightarrow> note_commitment_tree_error option" where
  "full_pool As Ap Ao s b =
     (if \<not> pool_fits MERKLE_DEPTH_SPROUT As (nct_sprout s) (block_sprout_note_commitments b)
      then Some (SproutTreeError FullTree)
      else if \<not> pool_fits MERKLE_DEPTH_SAPLING Ap (nct_sapling s) (block_sapling_note_commitments b)
      then Some (SaplingTreeError FullTree)
      else if \<not> pool_fits MERKLE_DEPTH_ORCHARD Ao (nct_orchard s) (block_orchard_note_commitments b)
      then Some (OrchardTreeError FullTree)
      else if \<not> pool_fits MERKLE_DEPTH_ORCHARD Ao (nct_ironwood s) (block_ironwood_note_commitments b)
      then Some (IronwoodTreeError FullTree)
      else None)"

lemma tracked_depths: "MERKLE_DEPTH_SAPLING \<le> 32" "MERKLE_DEPTH_ORCHARD \<le> 32"
  by (simp_all add: MERKLE_DEPTH_SAPLING_def MERKLE_DEPTH_ORCHARD_def)

lemmas update_trees_simps = update_trees_parallel_def tracked_updates assigned_simps pool_follows_no_notes
  subtree_follows_def

text \<open>
  C21. When every pool has room for the block's notes, the parallel update succeeds: each pool that has
  notes in the block ends with exactly these appended in block order and its root cached, the tracked
  pools record the last subtree of 65536 notes that the block completed, with the block's height, or
  none; a pool without notes keeps its tree and its subtree field.
\<close>

theorem note_trees_follow_the_block:
  assumes docs: "frontier_documented Os MERKLE_DEPTH_SPROUT As Hs"
      "frontier_documented Op MERKLE_DEPTH_SAPLING Ap Hp" "frontier_documented Oo MERKLE_DEPTH_ORCHARD Ao Ho"
    and height: "coinbase_height b = Some h" and fits: "full_pool As Ap Ao s b = None"
  shows "\<exists>s'. update_trees_parallel Os Op Oo b s = Some (s', Ok ())
    \<and> pool_follows Os MERKLE_DEPTH_SPROUT As Hs (nct_sprout s) (block_sprout_note_commitments b) (nct_sprout s')
    \<and> pool_follows Op MERKLE_DEPTH_SAPLING Ap Hp (nct_sapling s) (block_sapling_note_commitments b) (nct_sapling s')
    \<and> pool_follows Oo MERKLE_DEPTH_ORCHARD Ao Ho (nct_orchard s) (block_orchard_note_commitments b) (nct_orchard s')
    \<and> pool_follows Oo MERKLE_DEPTH_ORCHARD Ao Ho (nct_ironwood s) (block_ironwood_note_commitments b) (nct_ironwood s')
    \<and> subtree_follows Ap Hp (nct_sapling s) (block_sapling_note_commitments b) (nct_sapling s') h
        (nct_sapling_subtree s) (nct_sapling_subtree s')
    \<and> subtree_follows Ao Ho (nct_orchard s) (block_orchard_note_commitments b) (nct_orchard s') h
        (nct_orchard_subtree s) (nct_orchard_subtree s')
    \<and> subtree_follows Ao Ho (nct_ironwood s) (block_ironwood_note_commitments b) (nct_ironwood s') h
        (nct_ironwood_subtree s) (nct_ironwood_subtree s')"
proof -
  note rs = sprout_assigned [OF docs(1)]
  note rp = tracked_assigned [OF docs(2) tracked_depths(1), where E = SaplingTreeError]
  note ro = tracked_assigned [OF docs(3) tracked_depths(2), where E = OrchardTreeError]
  note ri = tracked_assigned [OF docs(3) tracked_depths(2), where E = IronwoodTreeError]
  have fits: "pool_fits MERKLE_DEPTH_SPROUT As (nct_sprout s) (block_sprout_note_commitments b)"
    "pool_fits MERKLE_DEPTH_SAPLING Ap (nct_sapling s) (block_sapling_note_commitments b)"
    "pool_fits MERKLE_DEPTH_ORCHARD Ao (nct_orchard s) (block_orchard_note_commitments b)"
    "pool_fits MERKLE_DEPTH_ORCHARD Ao (nct_ironwood s) (block_ironwood_note_commitments b)"
    using fits by (simp_all add: full_pool_def split: if_splits)
  show ?thesis
    by (rule rs [of "block_sprout_note_commitments b" "nct_sprout s"],
        rule rp [of "block_sapling_note_commitments b" "nct_sapling s"],
        rule ro [of "block_orchard_note_commitments b" "nct_orchard s"],
        rule ri [of "block_ironwood_note_commitments b" "nct_ironwood s"])
      (simp only: fits if_True, elim disjE conjE exE; simp add: height update_trees_simps)
qed

text \<open>
  C22. When some pool is full, the update returns the error of the first one in the order Sprout,
  Sapling, Orchard, Ironwood; the pools before it have already been updated, and it and the pools
  after it keep their trees and subtrees.
\<close>

theorem full_pools_are_reported_in_order:
  assumes docs: "frontier_documented Os MERKLE_DEPTH_SPROUT As Hs"
      "frontier_documented Op MERKLE_DEPTH_SAPLING Ap Hp" "frontier_documented Oo MERKLE_DEPTH_ORCHARD Ao Ho"
    and height: "coinbase_height b = Some h" and full: "full_pool As Ap Ao s b = Some e"
  shows "\<exists>s'. update_trees_parallel Os Op Oo b s = Some (s', Err e)
    \<and> (case e of
        SproutTreeError _ \<Rightarrow> s' = s
      | SaplingTreeError _ \<Rightarrow>
          s' = s\<lparr>nct_sprout := nct_sprout s'\<rparr>
        \<and> pool_follows Os MERKLE_DEPTH_SPROUT As Hs (nct_sprout s) (block_sprout_note_commitments b) (nct_sprout s')
      | OrchardTreeError _ \<Rightarrow>
          s' = s\<lparr>nct_sprout := nct_sprout s', nct_sapling := nct_sapling s', nct_sapling_subtree := nct_sapling_subtree s'\<rparr>
        \<and> pool_follows Os MERKLE_DEPTH_SPROUT As Hs (nct_sprout s) (block_sprout_note_commitments b) (nct_sprout s')
        \<and> pool_follows Op MERKLE_DEPTH_SAPLING Ap Hp (nct_sapling s) (block_sapling_note_commitments b) (nct_sapling s')
      | IronwoodTreeError _ \<Rightarrow>
          nct_ironwood s' = nct_ironwood s \<and> nct_ironwood_subtree s' = nct_ironwood_subtree s
        \<and> pool_follows Os MERKLE_DEPTH_SPROUT As Hs (nct_sprout s) (block_sprout_note_commitments b) (nct_sprout s')
        \<and> pool_follows Op MERKLE_DEPTH_SAPLING Ap Hp (nct_sapling s) (block_sapling_note_commitments b) (nct_sapling s')
        \<and> pool_follows Oo MERKLE_DEPTH_ORCHARD Ao Ho (nct_orchard s) (block_orchard_note_commitments b) (nct_orchard s'))"
proof -
  note rs = sprout_assigned [OF docs(1)]
  note rp = tracked_assigned [OF docs(2) tracked_depths(1), where E = SaplingTreeError]
  note ro = tracked_assigned [OF docs(3) tracked_depths(2), where E = OrchardTreeError]
  note ri = tracked_assigned [OF docs(3) tracked_depths(2), where E = IronwoodTreeError]
  show ?thesis
    by (insert full, rule rs [of "block_sprout_note_commitments b" "nct_sprout s"],
        rule rp [of "block_sapling_note_commitments b" "nct_sapling s"],
        rule ro [of "block_orchard_note_commitments b" "nct_orchard s"],
        rule ri [of "block_ironwood_note_commitments b" "nct_ironwood s"])
      (simp only: full_pool_def split: if_splits; (elim disjE conjE exE)?; auto simp: height update_trees_simps)
qed

section \<open>Threads, stored trees, empty roots\<close>

lemma root_step_keeps:
  assumes "root_step O' (t, ts) (t', ts')"
    and "cache_sound O' t" "\<forall>i r. ts i = HasRoot r \<longrightarrow> recalculate_root O' t = Some r"
  shows "nt_inner t' = nt_inner t \<and> cache_sound O' t' \<and> recalculate_root O' t' = recalculate_root O' t
    \<and> (\<forall>i r. ts' i = HasRoot r \<longrightarrow> recalculate_root O' t = Some r)"
  using assms by cases (auto simp: cache_sound_def recalculate_root_def split: if_splits)

lemma root_steps_keep:
  assumes "(root_step O')\<^sup>*\<^sup>* (t, \<lambda>_. ReadCache) s'" "cache_sound O' t"
  shows "case s' of (t', ts) \<Rightarrow> nt_inner t' = nt_inner t \<and> cache_sound O' t'
    \<and> recalculate_root O' t' = recalculate_root O' t
    \<and> (\<forall>i r. ts i = HasRoot r \<longrightarrow> recalculate_root O' t = Some r)"
  using assms
proof (induction rule: rtranclp_induct)
  case base
  then show ?case by simp
next
  case (step s1 s2)
  obtain t1 ts1 t2 ts2 where s: "s1 = (t1, ts1)" "s2 = (t2, ts2)" by (cases s1, cases s2)
  from step.IH [OF step.prems] have ih: "nt_inner t1 = nt_inner t" "cache_sound O' t1"
    "recalculate_root O' t1 = recalculate_root O' t"
    "\<forall>i r. ts1 i = HasRoot r \<longrightarrow> recalculate_root O' t1 = Some r" by (auto simp: s)
  from root_step_keeps [OF step.hyps(2) [unfolded s] ih(2,4)] show ?case by (simp add: s ih)
qed

text \<open>
  C23. Threads that ask one tree for its root while its cache is empty or right all get the root of
  its notes, in every interleaving; the cache ends right, the notes stay, and a thread that has not
  got the root yet can always go on.
\<close>

theorem concurrent_root_queries_agree:
  assumes "(root_step O')\<^sup>*\<^sup>* (t, \<lambda>_. ReadCache) (t', ts)" "cache_sound O' t" "recalculate_root O' t = Some root"
  shows "nt_inner t' = nt_inner t \<and> (nt_cached_root t' = None \<or> nt_cached_root t' = Some root)
    \<and> (case ts i of HasRoot r \<Rightarrow> r = root | _ \<Rightarrow> \<exists>x u. x \<noteq> ts i \<and> root_step O' (t', ts) (u, ts(i := x)))"
proof -
  from root_steps_keep [OF assms(1,2)] assms(3) have k: "nt_inner t' = nt_inner t" "cache_sound O' t'"
    "recalculate_root O' t' = Some root" "\<And>i r. ts i = HasRoot r \<Longrightarrow> r = root" by auto
  have c: "nt_cached_root t' = None \<or> nt_cached_root t' = Some root"
    using k(2,3) by (auto simp: cache_sound_def split: option.splits)
  have "case ts i of HasRoot r \<Rightarrow> r = root | _ \<Rightarrow> \<exists>x u. x \<noteq> ts i \<and> root_step O' (t', ts) (u, ts(i := x))"
  proof (cases "ts i")
    case ReadCache
    then show ?thesis using c root_step.cached [of ts i t' root O'] root_step.missing [of ts i t' O']
      by fastforce
  next
    case TakeWriteLock
    then show ?thesis using c k(3) root_step.other_was_first [of ts i t' root O'] root_step.compute [of ts i t' O' root]
      by fastforce
  next
    case (HasRoot r)
    then show ?thesis using k(4) by simp
  qed
  with k(1) c show ?thesis by blast
qed

text \<open>A tree written in the stored form is read back as the same tree, cache included.\<close>

theorem stored_trees_round_trip:
  assumes "frontier_documented O' depth A H"
  shows "\<exists>l. legacy_of_tree O' t = Some l \<and> tree_of_legacy O' l = Some t"
proof -
  have "case fr_value O' (nt_inner t) of
      None \<Rightarrow> A (nt_inner t) = [] \<and> nt_inner t = fr_empty O'
    | Some (p, leaf, ommers) \<Rightarrow> p + 1 = length (A (nt_inner t)) \<and> fr_from_parts O' p leaf ommers = Some (nt_inner t)
        \<and> (pos_is_right_child O' p \<longrightarrow> ommers \<noteq> [])
        \<and> (\<forall>level. (p + 1) mod 2 ^ level = 0 \<longrightarrow>
             fr_subtree_root O' p leaf ommers level = H level (drop (p + 1 - 2 ^ level) (A (nt_inner t))))"
    using assms unfolding frontier_documented_def by blast
  then have "legacy_of_frontier O' (nt_inner t) \<noteq> None
      \<and> frontier_of_legacy O' (the (legacy_of_frontier O' (nt_inner t))) = Some (nt_inner t)"
    by (auto simp: legacy_of_frontier_def frontier_of_legacy_def split: option.splits list.splits)
  then show ?thesis by (cases t) (auto simp: legacy_of_tree_def tree_of_legacy_def)
qed

lemma empty_roots_fold:
  "length (fold (\<lambda>l v. h l (v ! 0) (v ! 0) # v) ls [u]) = Suc (length ls)
   \<and> fold (\<lambda>l v. h l (v ! 0) (v ! 0) # v) ls [u] ! length ls = u
   \<and> (\<forall>k < length ls. fold (\<lambda>l v. h l (v ! 0) (v ! 0) # v) ls [u] ! k
        = h (rev ls ! k) (fold (\<lambda>l v. h l (v ! 0) (v ! 0) # v) ls [u] ! Suc k)
            (fold (\<lambda>l v. h l (v ! 0) (v ! 0) # v) ls [u] ! Suc k))"
  by (induction ls rule: rev_induct) (auto simp: nth_Cons split: nat.splits)

text \<open>
  The tables of empty roots agree with the hash of two children: at level 0 it is the uncommitted
  leaf, and one level up the combination of two empty subtrees, up to the root's level.
\<close>

theorem empty_roots_are_combined:
  "orchard_empty_root F 0 = Some (orchard_uncommitted F)
   \<and> (\<forall>level < MERKLE_DEPTH_ORCHARD. \<exists>e. orchard_empty_root F level = Some e
        \<and> orchard_empty_root F (level + 1) = orchard_combine F level e e)
   \<and> sprout_empty_root F 0 = Some sprout_uncommitted
   \<and> (\<forall>level < MERKLE_DEPTH_SPROUT. \<exists>e. sprout_empty_root F level = Some e
        \<and> sprout_empty_root F (level + 1) = sprout_combine F level e e)"
proof -
  have o: "ORCHARD_EMPTY_ROOTS F ! 32 = orchard_uncommitted F"
    "k < 32 \<Longrightarrow> ORCHARD_EMPTY_ROOTS F ! k
       = merkle_crh_orchard F k (ORCHARD_EMPTY_ROOTS F ! Suc k) (ORCHARD_EMPTY_ROOTS F ! Suc k)" for k
    using empty_roots_fold [of "merkle_crh_orchard F" "rev [0..<32]" "orchard_uncommitted F"]
    by (simp_all add: ORCHARD_EMPTY_ROOTS_def MERKLE_DEPTH_ORCHARD_def del: upt_Suc upt_rec_numeral)
  have p: "SPROUT_EMPTY_ROOTS F ! 29 = sprout_uncommitted"
    "k < 29 \<Longrightarrow> SPROUT_EMPTY_ROOTS F ! k
       = merkle_crh_sprout F (SPROUT_EMPTY_ROOTS F ! Suc k) (SPROUT_EMPTY_ROOTS F ! Suc k)" for k
    using empty_roots_fold [of "\<lambda>_. merkle_crh_sprout F" "[0..<29]" "sprout_uncommitted"]
    by (simp_all add: SPROUT_EMPTY_ROOTS_def MERKLE_DEPTH_SPROUT_def del: upt_Suc upt_rec_numeral)
  have s: "Suc (31 - level) = 32 - level" if "level < 32" for level :: nat using that by arith
  have s': "Suc (28 - level) = 29 - level" if "level < 29" for level :: nat using that by arith
  show ?thesis
    by (simp add: orchard_empty_root_def sprout_empty_root_def orchard_combine_def sprout_combine_def
        MERKLE_DEPTH_ORCHARD_def MERKLE_DEPTH_SPROUT_def o(1) p(1)) (auto simp: o(2) p(2) s s')
qed

text \<open>
  C24. Between trees with different numbers of notes, a new subtree is reported exactly when the later
  one has completed more subtrees of 65536 notes; between trees with the same number of notes the
  answer is whether the last subtree is complete, even though no subtree is new.
\<close>

theorem new_subtrees_are_detected:
  assumes "frontier_documented O' depth A H" "depth \<le> 32"
  shows "contains_new_subtree O' self prev_tree =
    Some (if length (notes_of A self) = length (notes_of A prev_tree) then nt_is_complete_subtree O' self
          else length (notes_of A prev_tree) div 65536 < length (notes_of A self) div 65536)"
proof -
  have S: "leaves_per_subtree = 65536" by (simp add: leaves_per_subtree_def TRACKED_SUBTREE_HEIGHT_def)
  have "a div 65536 < b div 65536 \<longleftrightarrow> a < b \<and> a div 65536 < b div 65536" for a b :: nat
    by (metis div_le_mono leD not_le_imp_less)
  then show ?thesis
    by (simp add: contains_new_subtree_counts [OF assms, unfolded S] subtree_queries(2) [OF assms, unfolded S])
qed

section \<open>Instances\<close>

definition demo_frontier :: "nat \<Rightarrow> bytes list frontier_ops" where
  "demo_frontier depth =
     \<lparr>fr_empty = [], fr_append = \<lambda>f x. if length f < 2 ^ depth then (f @ [x], True) else (f, False),
      fr_value = \<lambda>f. if f = [] then None else Some (length (take (2 ^ depth) f) - 1, last f, f),
      fr_from_parts = \<lambda>_ _ ommers. Some ommers, fr_root = \<lambda>f. concat (take (2 ^ depth) f),
      fr_subtree_root = \<lambda>p _ ommers l. concat (drop (p + 1 - 2 ^ l) (take (2 ^ depth) ommers)),
      fr_commitment_tree_bytes = Some \<circ> concat, ad_index = \<lambda>l p. p div 2 ^ l,
      ad_max_position = \<lambda>l p. (p div 2 ^ l + 1) * 2 ^ l - 1, ad_range_start = \<lambda>l p. p div 2 ^ l * 2 ^ l,
      ad_range_end = \<lambda>l p. (p div 2 ^ l + 1) * 2 ^ l, pos_is_complete_subtree = \<lambda>l p. (p + 1) mod 2 ^ l = 0,
      pos_is_right_child = odd, node_of_commitment = id, root_of_node = Some\<rparr>"

definition demo_leaves :: "nat \<Rightarrow> bytes list \<Rightarrow> bytes list" where "demo_leaves depth f = take (2 ^ depth) f"

lemma demo_frontier_documented: "frontier_documented (demo_frontier depth) depth (demo_leaves depth) (\<lambda>_. concat)"
  by (auto simp: frontier_documented_def demo_frontier_def demo_leaves_def split: option.splits)

definition demo_sapling_output :: sapling_output where
  "demo_sapling_output = \<lparr>so_cv = [], so_cm_u = [7], so_ephemeral_key = [], so_enc_ciphertext = [],
     so_out_ciphertext = [], so_zkproof = []\<rparr>"

definition demo_noted :: block where
  "demo_noted = \<lparr>blk_header = demo_header, blk_transactions =
     [V4 [Coinbase (Height 5) [] 0] [] (LockHeight (Height 0)) (Height 0) None
       (Some \<lparr>sd_value_balance = 0, sd_transfers = JustOutputs [demo_sapling_output], sd_binding_sig = []\<rparr>)]\<rparr>"

lemma demo_noted_facts:
  "coinbase_height demo_noted = Some (Height 5)" "block_sprout_note_commitments demo_noted = []"
  "block_sapling_note_commitments demo_noted = [[7]]" "block_orchard_note_commitments demo_noted = []"
  "block_ironwood_note_commitments demo_noted = []"
  by (simp_all add: demo_noted_def Block.coinbase_height_def block_sprout_note_commitments_def
      block_sapling_note_commitments_def block_orchard_note_commitments_def block_ironwood_note_commitments_def
      sd_note_commitments_def sd_outputs_def orchard_note_commitments_def ironwood_note_commitments_def demo_sapling_output_def)

definition demo_trees :: "bytes list \<Rightarrow> (bytes list, bytes list, bytes list) note_commitment_trees" where
  "demo_trees sapling =
     (let empty = \<lparr>nt_inner = [], nt_cached_root = None\<rparr>
      in \<lparr>nct_sprout = empty, nct_sapling = \<lparr>nt_inner = sapling, nt_cached_root = None\<rparr>, nct_sapling_subtree = None,
          nct_orchard = empty, nct_orchard_subtree = None, nct_ironwood = empty, nct_ironwood_subtree = None\<rparr>)"

abbreviation "demo_full_pool sapling \<equiv>
  full_pool (demo_leaves MERKLE_DEPTH_SPROUT) (demo_leaves MERKLE_DEPTH_SAPLING) (demo_leaves MERKLE_DEPTH_ORCHARD)
    (demo_trees sapling) demo_noted"

lemma demo_full_pool_iff:
  "demo_full_pool sapling = (if length sapling < 2 ^ 32 then None else Some (SaplingTreeError FullTree))"
proof -
  have "pool_fits MERKLE_DEPTH_SAPLING (demo_leaves MERKLE_DEPTH_SAPLING) (nct_sapling (demo_trees sapling)) [[7]]
      \<longleftrightarrow> length sapling < 2 ^ 32"
    unfolding pool_fits_def notes_of_def demo_leaves_def MERKLE_DEPTH_SAPLING_def
    by (auto simp: demo_trees_def Let_def)
  then show ?thesis
    by (simp add: full_pool_def demo_noted_facts pool_fits_def [of _ _ _ "[]"] notes_of_def demo_leaves_def)
qed

lemma note_trees_follow_the_block_witness:
  "\<exists>s'. update_trees_parallel (demo_frontier MERKLE_DEPTH_SPROUT) (demo_frontier MERKLE_DEPTH_SAPLING)
      (demo_frontier MERKLE_DEPTH_ORCHARD) demo_noted (demo_trees []) = Some (s', Ok ())
    \<and> notes_of (demo_leaves MERKLE_DEPTH_SAPLING) (nct_sapling s') = [[7]]
    \<and> nct_orchard s' = nct_orchard (demo_trees [])"
proof -
  have "demo_full_pool [] = None" by (simp add: demo_full_pool_iff)
  from note_trees_follow_the_block [OF demo_frontier_documented demo_frontier_documented demo_frontier_documented
      demo_noted_facts(1) this]
  show ?thesis
    by (auto simp: demo_noted_facts pool_follows_def subtree_follows_def notes_of_def demo_leaves_def
        demo_trees_def Let_def demo_frontier_def [of MERKLE_DEPTH_SAPLING])
qed

lemma full_pools_are_reported_in_order_witness:
  "\<exists>s'. update_trees_parallel (demo_frontier MERKLE_DEPTH_SPROUT) (demo_frontier MERKLE_DEPTH_SAPLING)
      (demo_frontier MERKLE_DEPTH_ORCHARD) demo_noted (demo_trees (replicate (2 ^ 32) []))
      = Some (s', Err (SaplingTreeError FullTree))
    \<and> nct_sapling s' = nct_sapling (demo_trees (replicate (2 ^ 32) []))"
proof -
  have "\<not> length (replicate (2 ^ 32) ([] :: bytes)) < 2 ^ 32" unfolding length_replicate by (rule less_irrefl)
  then have "demo_full_pool (replicate (2 ^ 32) []) = Some (SaplingTreeError FullTree)"
    unfolding demo_full_pool_iff by (rule if_not_P)
  from full_pools_are_reported_in_order [OF demo_frontier_documented demo_frontier_documented
      demo_frontier_documented demo_noted_facts(1) this]
  obtain s' where s': "update_trees_parallel (demo_frontier MERKLE_DEPTH_SPROUT) (demo_frontier MERKLE_DEPTH_SAPLING)
      (demo_frontier MERKLE_DEPTH_ORCHARD) demo_noted (demo_trees (replicate (2 ^ 32) []))
      = Some (s', Err (SaplingTreeError FullTree))"
    "s' = demo_trees (replicate (2 ^ 32) [])\<lparr>nct_sprout := nct_sprout s'\<rparr>"
    unfolding tree_error.case note_commitment_tree_error.case by blast
  have "nct_sapling (t\<lparr>nct_sprout := x\<rparr>) = nct_sapling t"
    for t :: "(bytes list, bytes list, bytes list) note_commitment_trees" and x by simp
  from trans [OF arg_cong [OF s'(2), of nct_sapling] this]
  have "nct_sapling s' = nct_sapling (demo_trees (replicate (2 ^ 32) []))" .
  with s'(1) show ?thesis by blast
qed

lemma concurrent_root_queries_agree_witness:
  "let F = demo_frontier 32; t = \<lparr>nt_inner = [[7], [8]], nt_cached_root = None\<rparr> in
   \<exists>t' ts. (root_step F)\<^sup>*\<^sup>* (t, \<lambda>_. ReadCache) (t', ts) \<and> ts 0 = HasRoot [7, 8] \<and> nt_inner t' = [[7], [8]]"
proof -
  let ?F = "demo_frontier 32" and ?t = "\<lparr>nt_inner = [[7], [8]] :: bytes list, nt_cached_root = None\<rparr>"
  have r: "recalculate_root ?F ?t = Some [7, 8]" by (simp add: recalculate_root_def demo_frontier_def)
  have "root_step ?F (?t, \<lambda>_. ReadCache) (?t, (\<lambda>_. ReadCache)(0 := TakeWriteLock))" by (rule missing) simp_all
  moreover have "root_step ?F (?t, (\<lambda>_. ReadCache)(0 := TakeWriteLock))
      (?t\<lparr>nt_cached_root := Some [7, 8]\<rparr>, (\<lambda>_. ReadCache)(0 := TakeWriteLock, 0 := HasRoot [7, 8]))"
    using r by (intro compute) simp_all
  ultimately have s: "(root_step ?F)\<^sup>*\<^sup>* (?t, \<lambda>_. ReadCache)
      (?t\<lparr>nt_cached_root := Some [7, 8]\<rparr>, (\<lambda>_. ReadCache)(0 := TakeWriteLock, 0 := HasRoot [7, 8]))"
    by (meson converse_rtranclp_into_rtranclp r_into_rtranclp)
  have "cache_sound ?F ?t" by (simp add: cache_sound_def)
  from conjunct1 [OF concurrent_root_queries_agree [OF s this r]]
  have k: "nt_inner (?t\<lparr>nt_cached_root := Some [7, 8]\<rparr>) = [[7], [8]]" unfolding note_tree.select_convs .
  show ?thesis unfolding Let_def by (intro exI conjI, rule s) (simp, rule k)
qed

lemma stored_trees_round_trip_witness:
  "\<exists>l. legacy_of_tree (demo_frontier 32) \<lparr>nt_inner = [[7], [8]], nt_cached_root = None\<rparr> = Some l
    \<and> tree_of_legacy (demo_frontier 32) l = Some \<lparr>nt_inner = [[7], [8]], nt_cached_root = None\<rparr>"
  by (rule stored_trees_round_trip [OF demo_frontier_documented])

lemma empty_roots_are_combined_witness:
  "\<exists>e. orchard_empty_root F 3 = Some e \<and> orchard_empty_root F 4 = orchard_combine F 3 e e"
  using empty_roots_are_combined [of F] by (auto simp: MERKLE_DEPTH_ORCHARD_def dest: spec [of _ 3])

lemma new_subtrees_are_detected_witness:
  "contains_new_subtree (demo_frontier 32) \<lparr>nt_inner = [[7], [8]], nt_cached_root = None\<rparr>
     \<lparr>nt_inner = [], nt_cached_root = None\<rparr> = Some False"
  using new_subtrees_are_detected [OF demo_frontier_documented order_refl,
      of "\<lparr>nt_inner = [[7], [8]], nt_cached_root = None\<rparr>" "\<lparr>nt_inner = [], nt_cached_root = None\<rparr>"]
  by (simp add: notes_of_def demo_leaves_def)

end
