(* ===== verification/ChainTime.thy ===== *)
theory ChainTime
  imports Networks
begin

text \<open>
  Times of zebra-chain: 32-bit times and durations (\<open>serialization/date_time.rs\<close>), the estimator of
  the network chain tip's height (\<open>chain_tip/network_chain_tip_height_estimator.rs\<close>) and the provided
  methods of the \<open>ChainTip\<close> trait (\<open>chain_tip.rs\<close>). Times and durations of the \<open>chrono\<close> crate are
  parameters.
\<close>

section \<open>Machine arithmetic\<close>

definition checked_add_u32 :: "u32 \<Rightarrow> u32 \<Rightarrow> u32 option" where
  "checked_add_u32 a b = (if uint a + uint b < 2 ^ 32 then Some (a + b) else None)"

definition checked_sub_u32 :: "u32 \<Rightarrow> u32 \<Rightarrow> u32 option" where
  "checked_sub_u32 a b = (if b \<le> a then Some (a - b) else None)"

definition saturating_add_u32 :: "u32 \<Rightarrow> u32 \<Rightarrow> u32" where
  "saturating_add_u32 a b = (if uint a + uint b < 2 ^ 32 then a + b else - 1)"

definition saturating_sub_u32 :: "u32 \<Rightarrow> u32 \<Rightarrow> u32" where
  "saturating_sub_u32 a b = (if b \<le> a then a - b else 0)"

definition saturating_mul_u32 :: "u32 \<Rightarrow> u32 \<Rightarrow> u32" where
  "saturating_mul_u32 a b = (if uint a * uint b < 2 ^ 32 then a * b else - 1)"

text \<open>\<open>div_euclid\<close> panics on 0 and rounds so that the remainder is not negative.\<close>

definition div_euclid :: "int \<Rightarrow> int \<Rightarrow> int option" where
  "div_euclid a b = (if b = 0 then None else if 0 < b then Some (a div b) else Some (- (a div (- b))))"

section \<open>32-bit times and durations\<close>

datatype datetime32 = DateTime32 (timestamp: u32)
datatype duration32 = Duration32 (duration_seconds: u32)

definition DATETIME_MIN :: datetime32 where "DATETIME_MIN = DateTime32 0"
definition DATETIME_MAX :: datetime32 where "DATETIME_MAX = DateTime32 (- 1)"
definition DURATION_MIN :: duration32 where "DURATION_MIN = Duration32 0"
definition DURATION_MAX :: duration32 where "DURATION_MAX = Duration32 (- 1)"

definition checked_duration_since :: "datetime32 \<Rightarrow> datetime32 \<Rightarrow> duration32 option" where
  "checked_duration_since self earlier = map_option Duration32 (checked_sub_u32 (timestamp self) (timestamp earlier))"

definition saturating_duration_since :: "datetime32 \<Rightarrow> datetime32 \<Rightarrow> duration32" where
  "saturating_duration_since self earlier = Duration32 (saturating_sub_u32 (timestamp self) (timestamp earlier))"

definition datetime_checked_add :: "datetime32 \<Rightarrow> duration32 \<Rightarrow> datetime32 option" where
  "datetime_checked_add self d = map_option DateTime32 (checked_add_u32 (timestamp self) (duration_seconds d))"

definition datetime_saturating_add :: "datetime32 \<Rightarrow> duration32 \<Rightarrow> datetime32" where
  "datetime_saturating_add self d = DateTime32 (saturating_add_u32 (timestamp self) (duration_seconds d))"

definition datetime_checked_sub :: "datetime32 \<Rightarrow> duration32 \<Rightarrow> datetime32 option" where
  "datetime_checked_sub self d = map_option DateTime32 (checked_sub_u32 (timestamp self) (duration_seconds d))"

definition datetime_saturating_sub :: "datetime32 \<Rightarrow> duration32 \<Rightarrow> datetime32" where
  "datetime_saturating_sub self d = DateTime32 (saturating_sub_u32 (timestamp self) (duration_seconds d))"

definition from_seconds :: "u32 \<Rightarrow> duration32" where "from_seconds s = Duration32 s"
definition from_minutes :: "u32 \<Rightarrow> duration32" where "from_minutes m = from_seconds (saturating_mul_u32 m 60)"
definition from_hours :: "u32 \<Rightarrow> duration32" where "from_hours h = from_minutes (saturating_mul_u32 h 60)"
definition from_days :: "u32 \<Rightarrow> duration32" where "from_days d = from_hours (saturating_mul_u32 d 24)"

definition duration_checked_add :: "duration32 \<Rightarrow> duration32 \<Rightarrow> duration32 option" where
  "duration_checked_add self d = map_option Duration32 (checked_add_u32 (duration_seconds self) (duration_seconds d))"

definition duration_saturating_add :: "duration32 \<Rightarrow> duration32 \<Rightarrow> duration32" where
  "duration_saturating_add self d = Duration32 (saturating_add_u32 (duration_seconds self) (duration_seconds d))"

definition duration_checked_sub :: "duration32 \<Rightarrow> duration32 \<Rightarrow> duration32 option" where
  "duration_checked_sub self d = map_option Duration32 (checked_sub_u32 (duration_seconds self) (duration_seconds d))"

definition duration_saturating_sub :: "duration32 \<Rightarrow> duration32 \<Rightarrow> duration32" where
  "duration_saturating_sub self d = Duration32 (saturating_sub_u32 (duration_seconds self) (duration_seconds d))"

definition datetime_from_str :: "string \<Rightarrow> datetime32 option" where
  "datetime_from_str s = map_option (\<lambda>n. DateTime32 (word_of_nat n)) (parse_unsigned (2 ^ 32) s)"

definition duration_from_str :: "string \<Rightarrow> duration32 option" where
  "duration_from_str s = map_option (\<lambda>n. Duration32 (word_of_nat n)) (parse_unsigned (2 ^ 32) s)"

definition write_datetime :: "datetime32 writer" where "write_datetime t = write_u32 (timestamp t)"
definition read_datetime :: "datetime32 parser" where "read_datetime = pbind read_u32 (\<lambda>t. preturn (DateTime32 t))"

section \<open>chrono\<close>

text \<open>
  The seconds of a time, rounded down; the time of whole seconds; the difference and sum of times and
  durations, their order; the duration of whole seconds and its whole seconds. \<open>None\<close> is a panic.
\<close>

record ('t, 'd) chrono_ops =
  ch_timestamp :: "'t \<Rightarrow> int"
  ch_timestamp_opt :: "int \<Rightarrow> 't option"
  ch_since :: "'t \<Rightarrow> 't \<Rightarrow> 'd"
  ch_plus :: "'t \<Rightarrow> 'd \<Rightarrow> 't option"
  ch_at_or_after :: "'t \<Rightarrow> 't \<Rightarrow> bool"
  ch_seconds :: "int \<Rightarrow> 'd option"
  ch_num_seconds :: "'d \<Rightarrow> int"

definition datetime_to_chrono :: "('t, 'd) chrono_ops \<Rightarrow> datetime32 \<Rightarrow> 't option" where
  "datetime_to_chrono C t = ch_timestamp_opt C (uint (timestamp t))"

definition datetime_of_chrono :: "('t, 'd) chrono_ops \<Rightarrow> 't \<Rightarrow> datetime32 option" where
  "datetime_of_chrono C t = map_option DateTime32 (u32_try_from (ch_timestamp C t))"

definition duration_to_chrono :: "('t, 'd) chrono_ops \<Rightarrow> duration32 \<Rightarrow> 'd option" where
  "duration_to_chrono C d = ch_seconds C (uint (duration_seconds d))"

definition duration_of_chrono :: "('t, 'd) chrono_ops \<Rightarrow> 'd \<Rightarrow> duration32 option" where
  "duration_of_chrono C d = map_option Duration32 (u32_try_from (ch_num_seconds C d))"

text \<open>Durations of the standard library: seconds and nanoseconds.\<close>

definition duration_to_std :: "duration32 \<Rightarrow> nat \<times> nat" where
  "duration_to_std d = (unat (duration_seconds d), 0)"

definition duration_of_std :: "nat \<times> nat \<Rightarrow> duration32 option" where
  "duration_of_std d = map_option Duration32 (u32_try_from (int (fst d)))"

definition checked_elapsed :: "('t, 'd) chrono_ops \<Rightarrow> datetime32 \<Rightarrow> 't \<Rightarrow> duration32 option option" where
  "checked_elapsed C self now = map_option (\<lambda>now. checked_duration_since now self) (datetime_of_chrono C now)"

definition saturating_elapsed :: "('t, 'd) chrono_ops \<Rightarrow> datetime32 \<Rightarrow> 't \<Rightarrow> duration32 option" where
  "saturating_elapsed C self now = map_option (\<lambda>now. saturating_duration_since now self) (datetime_of_chrono C now)"

section \<open>The estimator\<close>

text \<open>Target spacings are \<open>Duration::seconds\<close> of the numbers here.\<close>

record 't estimator =
  es_block_time :: 't
  es_height :: height
  es_spacing :: int
  es_next :: "(height \<times> int) list"

definition estimator_new :: "'t \<Rightarrow> height \<Rightarrow> network \<Rightarrow> 't estimator option" where
  "estimator_new block_time h net =
     (case target_spacings net of
        [] \<Rightarrow> None
      | (_, initial) # rest \<Rightarrow>
          Some \<lparr>es_block_time = block_time, es_height = h, es_spacing = initial, es_next = rest\<rparr>)"

definition estimate_up_to :: "('t, 'd) chrono_ops \<Rightarrow> height \<Rightarrow> 't estimator \<Rightarrow> 't estimator option" where
  "estimate_up_to C until e =
     (let remaining_blocks = height_diff until (es_height e)
      in if remaining_blocks > 0 then
           Option.bind (ch_seconds C (wrap_i64 (remaining_blocks * es_spacing e))) (\<lambda>time_to_activation.
           Option.bind (ch_plus C (es_block_time e) time_to_activation) (\<lambda>t.
             Some (e\<lparr>es_block_time := t, es_height := until\<rparr>)))
         else Some e)"

definition estimate_with_current_spacing :: "('t, 'd) chrono_ops \<Rightarrow> 't \<Rightarrow> 't estimator \<Rightarrow> height option" where
  "estimate_with_current_spacing C target e =
     (let secs = ch_num_seconds C (ch_since C target (es_block_time e));
          secs = (if secs < 0 then wrap_i64 (secs - 1) else secs)
      in Option.bind (div_euclid secs (es_spacing e)) (\<lambda>block_difference.
           Some (case height_add (es_height e) block_difference of
               Some estimate \<Rightarrow> estimate
             | None \<Rightarrow>
                 if wrap_i64 (uint (height_u32 (es_height e)) + block_difference) < 0 then Height 0
                 else HEIGHT_MAX)))"

fun estimate_from :: "('t, 'd) chrono_ops \<Rightarrow> 't \<Rightarrow> (height \<times> int) list \<Rightarrow> 't estimator \<Rightarrow> 't estimator option" where
  "estimate_from C target [] e = Some e"
| "estimate_from C target ((change_height, next_spacing) # rest) e =
     Option.bind (estimate_up_to C change_height e) (\<lambda>e.
       if ch_at_or_after C (es_block_time e) target then Some e
       else estimate_from C target rest (e\<lparr>es_spacing := next_spacing\<rparr>))"

definition estimate_height_at :: "('t, 'd) chrono_ops \<Rightarrow> 't \<Rightarrow> 't estimator \<Rightarrow> height option" where
  "estimate_height_at C target e =
     Option.bind (estimate_from C target (es_next e) e) (estimate_with_current_spacing C target)"

section \<open>The tip\<close>

definition AT_OR_NEAR_TIP_THRESHOLD :: int where "AT_OR_NEAR_TIP_THRESHOLD = 1000"

text \<open>The best tip is what \<open>best_tip_height_and_block_time\<close> answers; the outer \<open>None\<close> is a panic.\<close>

definition estimate_network_chain_tip_height ::
    "('t, 'd) chrono_ops \<Rightarrow> (height \<times> 't) option \<Rightarrow> network \<Rightarrow> 't \<Rightarrow> height option option" where
  "estimate_network_chain_tip_height C best net now =
     (case best of
        None \<Rightarrow> Some None
      | Some (current_height, current_block_time) \<Rightarrow>
          map_option Some
            (Option.bind (estimator_new current_block_time current_height net) (estimate_height_at C now)))"

definition estimate_distance_to_network_chain_tip ::
    "('t, 'd) chrono_ops \<Rightarrow> (height \<times> 't) option \<Rightarrow> network \<Rightarrow> 't \<Rightarrow> (int \<times> height) option option" where
  "estimate_distance_to_network_chain_tip C best net utc_now =
     (case best of
        None \<Rightarrow> Some None
      | Some (current_height, current_block_time) \<Rightarrow>
          map_option (\<lambda>h. Some (height_diff h current_height, current_height))
            (Option.bind (estimator_new current_block_time current_height net) (estimate_height_at C utc_now)))"

definition is_at_or_near_network_tip :: "('t, 'd) chrono_ops \<Rightarrow> (height \<times> 't) option \<Rightarrow> network \<Rightarrow> 't \<Rightarrow> bool option" where
  "is_at_or_near_network_tip C best net utc_now =
     map_option (\<lambda>r. case r of None \<Rightarrow> False | Some (distance, _) \<Rightarrow> distance \<le> AT_OR_NEAR_TIP_THRESHOLD)
       (estimate_distance_to_network_chain_tip C best net utc_now)"

text \<open>\<open>NoChainTip\<close> has no best tip.\<close>

definition no_chain_tip :: "(height \<times> 't) option" where "no_chain_tip = None"

section \<open>Saturation and checks are exact\<close>

lemma u32_word_of_int: "0 \<le> v \<Longrightarrow> v < 2 ^ 32 \<Longrightarrow> uint (word_of_int v :: u32) = v"
  by (simp add: unsigned_of_int take_bit_int_eq_self)

lemma checked_add_u32_eq: "checked_add_u32 a b = u32_try_from (uint a + uint b)"
  by (simp add: checked_add_u32_def u32_try_from_def wi_hom_add [symmetric])

lemma checked_sub_u32_eq: "checked_sub_u32 a b = u32_try_from (uint a - uint b)"
proof -
  have "uint a - uint b < 2 ^ 32" using uint_u32_bounds(2) [of a] uint_u32_bounds(1) [of b] by linarith
  then show ?thesis by (simp add: checked_sub_u32_def u32_try_from_def word_le_def wi_hom_sub [symmetric])
qed

lemma uint_u32_arith:
  "uint a + uint b < 2 ^ 32 \<Longrightarrow> uint (a + b :: u32) = uint a + uint b"
  "uint b \<le> uint a \<Longrightarrow> uint (a - b :: u32) = uint a - uint b"
  "uint a * uint b < 2 ^ 32 \<Longrightarrow> uint (a * b :: u32) = uint a * uint b"
  "uint (- 1 :: u32) = 2 ^ 32 - 1"
proof -
  have n: "0 \<le> uint a" "0 \<le> uint b" "uint a < 2 ^ 32" by (rule uint_u32_bounds)+
  show "uint (a + b :: u32) = uint a + uint b" if "uint a + uint b < 2 ^ 32"
    using u32_word_of_int [OF add_nonneg_nonneg [OF n(1,2)] that] by (simp add: wi_hom_add [symmetric])
  show "uint (a - b :: u32) = uint a - uint b" if "uint b \<le> uint a"
  proof -
    have "0 \<le> uint a - uint b" "uint a - uint b < 2 ^ 32" using that n by linarith+
    from u32_word_of_int [OF this] show ?thesis by (simp only: wi_hom_sub [symmetric] word_of_int_uint)
  qed
  show "uint (a * b :: u32) = uint a * uint b" if "uint a * uint b < 2 ^ 32"
    using u32_word_of_int [OF mult_nonneg_nonneg [OF n(1,2)] that] by (simp add: wi_hom_mult [symmetric])
qed (simp add: unsigned_minus_1_eq_mask mask_eq_exp_minus_1)

lemma uint_saturating:
  "uint (saturating_add_u32 a b) = min (uint a + uint b) (2 ^ 32 - 1)"
  "uint (saturating_sub_u32 a b) = max 0 (uint a - uint b)"
  "uint (saturating_mul_u32 a b) = min (uint a * uint b) (2 ^ 32 - 1)"
  by (auto simp: saturating_add_u32_def saturating_sub_u32_def saturating_mul_u32_def word_le_def uint_u32_arith)

text \<open>
  Durations of minutes, hours and days are their seconds or the longest duration; the difference of
  two times is exact, and none or zero when the earlier one is later; adding it back gives the time.
\<close>

theorem durations_saturate:
  "uint (duration_seconds (from_minutes m)) = min (uint m * 60) (2 ^ 32 - 1)
   \<and> uint (duration_seconds (from_hours h)) = min (uint h * 3600) (2 ^ 32 - 1)
   \<and> uint (duration_seconds (from_days d)) = min (uint d * 86400) (2 ^ 32 - 1)"
proof -
  have m: "uint (duration_seconds (from_minutes m)) = min (uint m * 60) (2 ^ 32 - 1)" for m
    by (simp add: from_minutes_def from_seconds_def uint_saturating)
  have h: "uint (duration_seconds (from_hours h)) = min (uint h * 3600) (2 ^ 32 - 1)" for h
    by (simp add: from_hours_def m uint_saturating min_def)
  have "uint (duration_seconds (from_days d)) = min (uint d * 86400) (2 ^ 32 - 1)"
    by (simp add: from_days_def h uint_saturating min_def)
  with m h show ?thesis by simp
qed

theorem times_and_durations_are_exact:
  "checked_duration_since t earlier =
     (if uint (timestamp earlier) \<le> uint (timestamp t)
      then Some (Duration32 (word_of_int (uint (timestamp t) - uint (timestamp earlier)))) else None)
   \<and> uint (duration_seconds (saturating_duration_since t earlier)) = max 0 (uint (timestamp t) - uint (timestamp earlier))
   \<and> (case checked_duration_since t earlier of None \<Rightarrow> True | Some d \<Rightarrow> datetime_checked_add earlier d = Some t)"
proof -
  have b: "uint (timestamp t) - uint (timestamp earlier) < 2 ^ 32"
    using uint_u32_bounds(2) [of "timestamp t"] uint_u32_bounds(1) [of "timestamp earlier"] by linarith
  have c: "checked_duration_since t earlier =
     (if uint (timestamp earlier) \<le> uint (timestamp t)
      then Some (Duration32 (word_of_int (uint (timestamp t) - uint (timestamp earlier)))) else None)"
    using b by (simp add: checked_duration_since_def checked_sub_u32_eq u32_try_from_def)
  have "datetime_checked_add earlier (Duration32 (word_of_int (uint (timestamp t) - uint (timestamp earlier)))) = Some t"
    if "uint (timestamp earlier) \<le> uint (timestamp t)"
    using that b u32_word_of_int [of "uint (timestamp t) - uint (timestamp earlier)"] uint_u32_bounds(2) [of "timestamp t"]
    by (simp add: datetime_checked_add_def checked_add_u32_eq u32_try_from_def)
  then show ?thesis by (simp add: c saturating_duration_since_def uint_saturating)
qed

section \<open>What chrono promises\<close>

text \<open>
  \<open>N\<close> and \<open>D\<close> are the nanoseconds of times and durations. Times reach more than 8 million million
  seconds around the epoch, durations of that many seconds can be made; the whole seconds of a
  duration are rounded to zero.
\<close>

abbreviation nanos :: int where "nanos \<equiv> 1000000000"

definition whole_seconds :: "int \<Rightarrow> int" where
  "whole_seconds d = (if d < 0 then - ((- d) div nanos) else d div nanos)"

definition chrono_documented :: "('t, 'd) chrono_ops \<Rightarrow> ('t \<Rightarrow> int) \<Rightarrow> ('d \<Rightarrow> int) \<Rightarrow> bool" where
  "chrono_documented C N D \<longleftrightarrow>
     (\<forall>t. \<bar>N t\<bar> \<le> 2 ^ 43 * nanos \<and> ch_timestamp C t = N t div nanos)
   \<and> (\<forall>s. \<bar>s\<bar> \<le> 2 ^ 42 \<longrightarrow> (\<exists>t. ch_timestamp_opt C s = Some t \<and> N t = s * nanos))
   \<and> (\<forall>a b. D (ch_since C a b) = N a - N b \<and> (ch_at_or_after C a b \<longleftrightarrow> N b \<le> N a))
   \<and> (\<forall>t d. \<bar>N t + D d\<bar> \<le> 2 ^ 42 * nanos \<longrightarrow> (\<exists>t'. ch_plus C t d = Some t' \<and> N t' = N t + D d))
   \<and> (\<forall>s. \<bar>s\<bar> \<le> 2 ^ 42 \<longrightarrow> (\<exists>d. ch_seconds C s = Some d \<and> D d = s * nanos))
   \<and> (\<forall>d. ch_num_seconds C d = whole_seconds (D d))"

text \<open>Times of 32 bits survive the conversion to chrono and back.\<close>

lemma times_survive_chrono:
  assumes "chrono_documented C N D"
  shows "Option.bind (datetime_to_chrono C t) (datetime_of_chrono C) = Some t"
proof -
  have b: "\<bar>uint (timestamp t)\<bar> \<le> 2 ^ 42" using uint_u32_bounds [of "timestamp t"] by simp
  from assms b obtain u where "ch_timestamp_opt C (uint (timestamp t)) = Some u" "N u = uint (timestamp t) * nanos"
    unfolding chrono_documented_def by blast
  moreover have "ch_timestamp C u = N u div nanos" using assms unfolding chrono_documented_def by blast
  ultimately show ?thesis using uint_u32_bounds [of "timestamp t"]
    by (simp add: datetime_to_chrono_def datetime_of_chrono_def u32_try_from_def)
qed

section \<open>Estimates\<close>

text \<open>
  The difference in blocks the code computes from a difference in nanoseconds: for a time before the
  known one it takes one second off the whole seconds, unless there is none.
\<close>

definition blocks_of :: "int \<Rightarrow> int \<Rightarrow> int" where
  "blocks_of d spacing = (if whole_seconds d < 0 then whole_seconds d - 1 else whole_seconds d) div spacing"

definition clamp_height :: "int \<Rightarrow> height" where
  "clamp_height h = (if h < 0 then Height 0 else if h < 2 ^ 31 then Height (word_of_int h) else HEIGHT_MAX)"

lemma uint_clamp_height: "uint (height_u32 (clamp_height h)) = max 0 (min h (2 ^ 31 - 1))"
  by (auto simp: clamp_height_def HEIGHT_MAX_def u32_word_of_int)

lemma div_bounds:
  assumes "0 < (s :: int)"
  shows "x div s * s \<le> x \<and> x < (x div s + 1) * s"
proof -
  have "(x div s + 1) * s = x div s * s + s" by (simp add: distrib_right)
  then show ?thesis
    using div_mult_mod_eq [of x s] pos_mod_bound [OF assms, of x] pos_mod_sign [OF assms, of x] by linarith
qed

lemma whole_seconds_bounds: "\<bar>d\<bar> \<le> k * nanos \<Longrightarrow> \<bar>whole_seconds d\<bar> \<le> k"
  using div_bounds [of nanos d] div_bounds [of nanos "- d"] by (auto simp: whole_seconds_def)

lemma blocks_of_forward:
  assumes "0 \<le> d" "0 < s"
  shows "blocks_of d s * (s * nanos) \<le> d" "d < (blocks_of d s + 1) * (s * nanos)"
proof -
  have "0 \<le> d div nanos" using assms(1) by (simp add: pos_imp_zdiv_nonneg_iff)
  then have "blocks_of d s = d div (nanos * s)"
    using assms by (simp add: blocks_of_def whole_seconds_def zdiv_zmult2_eq)
  moreover have "0 < nanos * s" using assms(2) by simp
  ultimately show "blocks_of d s * (s * nanos) \<le> d" "d < (blocks_of d s + 1) * (s * nanos)"
    using div_bounds [of "nanos * s" d] by (simp_all add: mult.commute)
qed

lemma blocks_of_back:
  assumes "d < 0" "0 < s"
  shows "blocks_of d s * (s * nanos) < d + nanos" "d \<le> (blocks_of d s + 1) * (s * nanos)" "blocks_of d s \<le> 0"
proof -
  define m where "m = (- d) div nanos"
  have m: "m * nanos \<le> - d" "- d < (m + 1) * nanos" unfolding m_def using div_bounds [of nanos "- d"] by simp_all
  have w: "whole_seconds d = - m" using assms(1) by (simp add: whole_seconds_def m_def)
  have m0: "0 \<le> m" unfolding m_def using assms(1) by (simp add: pos_imp_zdiv_nonneg_iff)
  show "blocks_of d s * (s * nanos) < d + nanos"
  proof (cases "m = 0")
    case True
    with m show ?thesis using assms by (simp add: blocks_of_def w)
  next
    case False
    then have b: "blocks_of d s = (- m - 1) div s" using m0 by (simp add: blocks_of_def w)
    have "(- m - 1) div s * s * nanos \<le> (- m - 1) * nanos"
      using div_bounds [OF assms(2), of "- m - 1"] by (intro mult_right_mono) simp_all
    with m show ?thesis unfolding b by (simp add: algebra_simps)
  qed
  show "d \<le> (blocks_of d s + 1) * (s * nanos)"
  proof (cases "m = 0")
    case True
    with m show ?thesis using assms by (simp add: blocks_of_def w)
  next
    case False
    then have b: "blocks_of d s = (- m - 1) div s" using m0 by (simp add: blocks_of_def w)
    have "- m \<le> ((- m - 1) div s + 1) * s" using div_bounds [OF assms(2), of "- m - 1"] by linarith
    then have "- m * nanos \<le> ((- m - 1) div s + 1) * s * nanos" by (intro mult_right_mono) simp_all
    with m show ?thesis unfolding b by (simp add: algebra_simps)
  qed
  show "blocks_of d s \<le> 0" using m0 assms(2) by (auto simp: blocks_of_def w div_nonpos_pos_le0)
qed

text \<open>
  Going back, the count is that of the whole spacings that have come, except in the last second, where it
  is zero, and a whole number of spacings before, where it is one less.
\<close>

lemma blocks_of_back_exact:
  assumes "d < 0" "0 < s" "nanos \<le> - d" "\<not> s * nanos dvd d"
  shows "blocks_of d s * (s * nanos) \<le> d" "d < (blocks_of d s + 1) * (s * nanos)"
proof -
  have "blocks_of d s = d div (s * nanos)"
  proof -
    define m where "m = (- d) div nanos"
    have w: "whole_seconds d = - m" using assms(1) by (simp add: whole_seconds_def m_def)
    have m: "1 \<le> m" unfolding m_def using zdiv_mono1 [OF assms(3), of nanos] by simp
    then have b: "blocks_of d s = (- m - 1) div s" by (simp add: blocks_of_def w)
    have f: "d div (s * nanos) = (d div nanos) div s" using assms(2) by (simp add: mult.commute [of s] zdiv_zmult2_eq)
    show ?thesis
    proof (cases "nanos dvd d")
      case True
      then have d: "d div nanos = - m" by (simp add: m_def dvd_neg_div)
      have "\<not> s dvd m"
      proof
        assume "s dvd m"
        then obtain k where k: "m = s * k" by blast
        have "d = - m * nanos" using True d by (metis dvd_div_mult_self)
        then have "d = s * nanos * (- k)" by (simp add: k)
        then show False using assms(4) by (metis dvd_triv_left)
      qed
      have "(- m - 1) div s = (- m) div s"
      proof -
        have "(- m) mod s \<noteq> 0" using \<open>\<not> s dvd m\<close> by (simp add: dvd_eq_mod_eq_0 [symmetric])
        then have "0 < (- m) mod s" "(- m) mod s < s" using assms(2) by (simp_all add: order_neq_le_trans)
        then have small: "((- m) mod s - 1) div s = 0" by (intro div_pos_pos_trivial) simp_all
        have "- m - 1 = ((- m) mod s - 1) + s * ((- m) div s)" using mult_div_mod_eq [of s "- m"] by linarith
        then have "(- m - 1) div s = (((- m) mod s - 1) + s * ((- m) div s)) div s" by (rule arg_cong)
        also have "\<dots> = (- m) div s + ((- m) mod s - 1) div s" using assms(2) by (intro div_mult_self2) simp
        finally show ?thesis by (simp only: small add_0_right)
      qed
      then show ?thesis by (simp add: b f d)
    next
      case False
      have "d div nanos = - m - 1" using False unfolding m_def
        by (simp add: div_minus_minus zdiv_zminus1_eq_if dvd_eq_mod_eq_0)
      then show ?thesis by (simp add: b f)
    qed
  qed
  with div_bounds [of "s * nanos" d] assms(2)
  show "blocks_of d s * (s * nanos) \<le> d" "d < (blocks_of d s + 1) * (s * nanos)" by simp_all
qed

lemma i64_sum:
  "0 \<le> h \<Longrightarrow> h < 2 ^ 32 \<Longrightarrow> - (2 ^ 45) \<le> q \<Longrightarrow> q \<le> 2 ^ 45 \<Longrightarrow> wrap_i64 (h + q) = h + q"
  by (intro wrap_i64_id) simp_all

lemma finish_exact:
  assumes doc: "chrono_documented C N D" and s: "0 < es_spacing e"
  shows "estimate_with_current_spacing C target e =
    Some (clamp_height (uint (height_u32 (es_height e)) + blocks_of (N target - N (es_block_time e)) (es_spacing e)))"
proof -
  let ?s = "es_spacing e" and ?h = "uint (height_u32 (es_height e))"
  define d where "d = N target - N (es_block_time e)"
  define w where "w = whole_seconds d"
  have n: "ch_num_seconds C (ch_since C target (es_block_time e)) = w"
    using doc by (simp add: chrono_documented_def w_def d_def)
  have "\<bar>N target\<bar> \<le> 2 ^ 43 * nanos" "\<bar>N (es_block_time e)\<bar> \<le> 2 ^ 43 * nanos"
    using doc unfolding chrono_documented_def by blast+
  then have "\<bar>d\<bar> \<le> 2 ^ 44 * nanos" unfolding d_def by simp
  then have w: "\<bar>w\<bar> \<le> 2 ^ 44" unfolding w_def by (rule whole_seconds_bounds)
  define x where "x = (if w < 0 then w - 1 else w)"
  have x: "(if w < 0 then wrap_i64 (w - 1) else w) = x" using w by (simp add: x_def wrap_i64_id)
  have bx: "blocks_of d ?s = x div ?s" by (simp add: blocks_of_def x_def w_def)
  have xb: "\<bar>x\<bar> \<le> 2 ^ 45" using w by (auto simp: x_def)
  have q: "\<bar>x div ?s\<bar> \<le> 2 ^ 45"
  proof (cases "x < 0")
    case True
    then have "x \<le> x div ?s" using zdiv_mono2_neg [of x 1 ?s] s by simp
    moreover have "x div ?s < 0" using True s by (simp add: div_neg_pos_less0)
    ultimately show ?thesis using xb by linarith
  next
    case False
    then have "x div ?s \<le> x" "0 \<le> x div ?s"
      using zdiv_mono2 [of x 1 ?s] s by (simp_all add: pos_imp_zdiv_nonneg_iff)
    then show ?thesis using xb by linarith
  qed
  then have r: "- (2 ^ 63) \<le> x div ?s" "x div ?s < 2 ^ 63" by (simp_all add: abs_le_iff)
  have q': "- (2 ^ 45) \<le> x div ?s" "x div ?s \<le> 2 ^ 45" using q by (simp_all add: abs_le_iff)
  have "wrap_i64 (?h + x div ?s) = ?h + x div ?s" using q' by (rule i64_sum [OF uint_u32_bounds])
  then show ?thesis using s uint_u32_bounds [of "height_u32 (es_height e)"]
    by (simp add: estimate_with_current_spacing_def n x div_euclid_def height_add_exact [OF r] clamp_height_def
        d_def [symmetric] bx)
qed

text \<open>The seconds an ideal chain takes to a height: every block exactly one target spacing after its parent.\<close>

definition ideal_time :: "network \<Rightarrow> int \<Rightarrow> int" where
  "ideal_time net h =
     (case activation_height Blossom net of
        None \<Rightarrow> 150 * h
      | Some b \<Rightarrow> 150 * min h (uint (height_u32 b)) + 75 * max 0 (h - uint (height_u32 b)))"

lemma ideal_time_mono: "h \<le> h' \<Longrightarrow> ideal_time net h \<le> ideal_time net h'"
  by (auto simp: ideal_time_def min_def max_def split: option.splits)

text \<open>The nanoseconds from a known block to the ideal time of a height.\<close>

definition ideal_delay :: "network \<Rightarrow> height \<Rightarrow> int \<Rightarrow> int" where
  "ideal_delay net known h = (ideal_time net h - ideal_time net (uint (height_u32 known))) * nanos"

lemma ideal_delay_mono: "h \<le> h' \<Longrightarrow> ideal_delay net known h \<le> ideal_delay net known h'"
  using ideal_time_mono [of h h' net] by (simp add: ideal_delay_def)

definition next_spacing_known :: "network \<Rightarrow> bool" where
  "next_spacing_known net \<longleftrightarrow> activation_height Genesis net \<noteq> None"

lemma target_spacings_eq:
  "next_spacing_known net \<Longrightarrow> \<exists>g. target_spacings net =
     (g, 150) # (case activation_height Blossom net of None \<Rightarrow> [] | Some b \<Rightarrow> [(b, 75)])"
  by (auto simp: next_spacing_known_def target_spacings_def List.map_filter_def PRE_BLOSSOM_POW_TARGET_SPACING_def
      POST_BLOSSOM_POW_TARGET_SPACING_def split: option.splits)

definition exactly_at :: "network \<Rightarrow> height \<Rightarrow> int \<Rightarrow> height \<Rightarrow> bool" where
  "exactly_at net known elapsed h \<longleftrightarrow>
     ideal_delay net known (uint (height_u32 h)) \<le> elapsed
   \<and> (h = HEIGHT_MAX \<or> elapsed < ideal_delay net known (uint (height_u32 h) + 1))"

definition nearly_at :: "network \<Rightarrow> height \<Rightarrow> int \<Rightarrow> height \<Rightarrow> bool" where
  "nearly_at net known elapsed h \<longleftrightarrow>
     ideal_delay net known (uint (height_u32 h)) < elapsed + nanos
   \<and> (h = HEIGHT_MAX \<or> elapsed \<le> ideal_delay net known (uint (height_u32 h) + 1))"

lemma exactly_nearly: "exactly_at net known elapsed h \<Longrightarrow> nearly_at net known elapsed h"
  by (auto simp: exactly_at_def nearly_at_def)

lemma clamp_height_max: "2 ^ 31 - 1 \<le> k \<Longrightarrow> clamp_height k = HEIGHT_MAX"
  by (cases "k = 2 ^ 31 - 1") (auto simp: clamp_height_def HEIGHT_MAX_def)

lemma clamped_exactly:
  assumes "0 \<le> k" "ideal_delay net known k \<le> elapsed" "elapsed < ideal_delay net known (k + 1)"
  shows "exactly_at net known elapsed (clamp_height k)"
proof (cases "k < 2 ^ 31 - 1")
  case True
  then have "uint (height_u32 (clamp_height k)) = k" using assms(1) by (simp add: uint_clamp_height)
  with assms show ?thesis by (simp add: exactly_at_def)
next
  case False
  then have "clamp_height k = HEIGHT_MAX" by (intro clamp_height_max) simp
  moreover have "ideal_delay net known (uint (height_u32 HEIGHT_MAX)) \<le> ideal_delay net known k"
    using False by (intro ideal_delay_mono) (simp add: HEIGHT_MAX_def)
  ultimately show ?thesis using assms(2) by (simp add: exactly_at_def)
qed

lemma clamped_nearly:
  assumes "- 1 \<le> k" "ideal_delay net known k < elapsed + nanos" "elapsed \<le> ideal_delay net known (k + 1)"
    and "0 \<le> elapsed"
  shows "nearly_at net known elapsed (clamp_height k)"
proof -
  consider "k = - 1" | "0 \<le> k" "k < 2 ^ 31 - 1" | "2 ^ 31 - 1 \<le> k" using assms(1) by linarith
  then show ?thesis
  proof cases
    case 1
    then have u: "uint (height_u32 (clamp_height k)) = 0" by (simp add: uint_clamp_height)
    have "ideal_delay net known 0 \<le> ideal_delay net known (uint (height_u32 known))"
      using uint_u32_bounds(1) by (rule ideal_delay_mono)
    moreover have "ideal_delay net known 0 \<le> ideal_delay net known 1" by (rule ideal_delay_mono) simp
    ultimately show ?thesis using assms(3,4) unfolding nearly_at_def u by (simp add: 1 ideal_delay_def)
  next
    case 2
    then have "uint (height_u32 (clamp_height k)) = k" by (simp add: uint_clamp_height)
    with assms show ?thesis by (simp add: nearly_at_def)
  next
    case 3
    then have "clamp_height k = HEIGHT_MAX" by (rule clamp_height_max)
    moreover have "ideal_delay net known (uint (height_u32 HEIGHT_MAX)) \<le> ideal_delay net known k"
      using 3 by (intro ideal_delay_mono) (simp add: HEIGHT_MAX_def)
    ultimately show ?thesis using assms(2) by (simp add: nearly_at_def)
  qed
qed

lemma no_change_ahead:
  assumes doc: "chrono_documented C N D" and sp: "0 < es_spacing e" and k: "es_height e = known"
    and lin: "\<And>h. uint (height_u32 known) \<le> h \<Longrightarrow>
      ideal_time net h = ideal_time net (uint (height_u32 known)) + es_spacing e * (h - uint (height_u32 known))"
    and el: "elapsed = N now - N (es_block_time e)" "0 \<le> elapsed"
  shows "\<exists>h. estimate_with_current_spacing C now e = Some h \<and> exactly_at net known elapsed h"
proof -
  let ?h = "uint (height_u32 known)" and ?b = "blocks_of elapsed (es_spacing e)"
  have "blocks_of elapsed (es_spacing e) * (es_spacing e * nanos) \<le> elapsed"
    "elapsed < (?b + 1) * (es_spacing e * nanos)"
    using blocks_of_forward [OF el(2) sp] by blast+
  moreover have b: "0 \<le> ?b"
  proof (rule ccontr)
    assume "\<not> 0 \<le> ?b"
    then have "(?b + 1) * (es_spacing e * nanos) \<le> 0" using sp by (intro mult_nonpos_nonneg) simp_all
    with blocks_of_forward(2) [OF el(2) sp] el(2) show False by linarith
  qed
  moreover have "ideal_delay net known (?h + ?b) = ?b * (es_spacing e * nanos)"
    "ideal_delay net known (?h + ?b + 1) = (?b + 1) * (es_spacing e * nanos)"
    using lin [of "?h + ?b"] lin [of "?h + ?b + 1"] b by (simp_all add: ideal_delay_def algebra_simps)
  ultimately have "exactly_at net known elapsed (clamp_height (?h + ?b))"
    using uint_u32_bounds(1) [of "height_u32 known"] by (intro clamped_exactly) simp_all
  then show ?thesis using finish_exact [OF doc sp, of now] by (simp add: k el(1))
qed

lemma moved_to_change:
  assumes doc: "chrono_documented C N D" and sp: "0 < es_spacing e" "es_spacing e \<le> 150"
    and t: "\<bar>N (es_block_time e)\<bar> \<le> 2 ^ 41 * nanos"
    and ahead: "uint (height_u32 (es_height e)) < uint (height_u32 b)"
  shows "\<exists>t1. estimate_up_to C b e = Some (e\<lparr>es_block_time := t1, es_height := b\<rparr>)
    \<and> N t1 = N (es_block_time e) + (uint (height_u32 b) - uint (height_u32 (es_height e))) * es_spacing e * nanos"
proof -
  define r where "r = (uint (height_u32 b) - uint (height_u32 (es_height e))) * es_spacing e"
  have "uint (height_u32 b) - uint (height_u32 (es_height e)) \<le> 2 ^ 32"
    using uint_u32_bounds(2) [of "height_u32 b"] uint_u32_bounds(1) [of "height_u32 (es_height e)"] by linarith
  then have "r \<le> 2 ^ 32 * 150" unfolding r_def using sp ahead by (intro mult_mono) simp_all
  moreover have r0: "0 \<le> r" unfolding r_def using sp ahead by simp
  ultimately have r: "\<bar>r\<bar> \<le> 2 ^ 41" by simp
  then have "\<bar>r\<bar> \<le> 2 ^ 42" by simp
  then obtain d where d: "ch_seconds C r = Some d" "D d = r * nanos"
    using doc unfolding chrono_documented_def by blast
  have "\<bar>N (es_block_time e) + D d\<bar> \<le> 2 ^ 42 * nanos" using t r by (simp add: d(2))
  then obtain t1 where t1: "ch_plus C (es_block_time e) d = Some t1" "N t1 = N (es_block_time e) + D d"
    using doc unfolding chrono_documented_def by blast
  have w: "wrap_i64 r = r" using r by (intro wrap_i64_id) (simp_all add: abs_le_iff)
  have "estimate_up_to C b e = Some (e\<lparr>es_block_time := t1, es_height := b\<rparr>)" using ahead
    by (simp add: estimate_up_to_def height_diff_def Let_def r_def [symmetric] w d(1) t1(1))
  then show ?thesis using t1(2) by (auto simp: d(2) r_def)
qed

text \<open>
  C37. From a known block, the estimate for a time that is not before the time of the block is the last
  height whose ideal time has come, or the greatest height there is. The exceptions are before a change
  of the target spacing that is still ahead: within the last second before the change, and a whole
  number of spacings before it, it may be off, by one height.
\<close>

theorem tip_estimates_follow_the_spacing:
  assumes doc: "chrono_documented C N D" and net: "next_spacing_known net"
    and t: "\<bar>N block_time\<bar> \<le> 2 ^ 41 * nanos" and later: "N block_time \<le> N now"
  shows "\<exists>h. estimate_network_chain_tip_height C (Some (known, block_time)) net now = Some (Some h)
    \<and> nearly_at net known (N now - N block_time) h
    \<and> ((\<forall>b. activation_height Blossom net = Some b \<longrightarrow>
          uint (height_u32 b) \<le> uint (height_u32 known)
        \<or> ideal_delay net known (uint (height_u32 b)) \<le> N now - N block_time
        \<or> (nanos \<le> ideal_delay net known (uint (height_u32 b)) - (N now - N block_time)
           \<and> (ideal_delay net known (uint (height_u32 b)) - (N now - N block_time)) mod (150 * nanos) \<noteq> 0))
       \<longrightarrow> exactly_at net known (N now - N block_time) h)"
proof -
  let ?k = "uint (height_u32 known)" and ?E = "N now - N block_time"
  have E: "0 \<le> ?E" using later by simp
  obtain g where g: "target_spacings net = (g, 150) # (case activation_height Blossom net of None \<Rightarrow> [] | Some b \<Rightarrow> [(b, 75)])"
    using target_spacings_eq [OF net] by blast
  define spacings where "spacings = (case activation_height Blossom net of None \<Rightarrow> [] | Some b \<Rightarrow> [(b, 75 :: int)])"
  define e where "e = \<lparr>es_block_time = block_time, es_height = known, es_spacing = 150, es_next = spacings\<rparr>"
  have start: "estimate_network_chain_tip_height C (Some (known, block_time)) net now = map_option Some
      (Option.bind (estimate_from C now spacings e) (estimate_with_current_spacing C now))"
    by (simp add: estimate_network_chain_tip_height_def estimator_new_def g spacings_def [symmetric] e_def estimate_height_at_def)
  have ge: "ch_at_or_after C a b \<longleftrightarrow> N b \<le> N a" for a b using doc by (simp add: chrono_documented_def)
  show ?thesis
  proof (cases "activation_height Blossom net")
    case None
    have "\<exists>h. estimate_with_current_spacing C now e = Some h \<and> exactly_at net known ?E h"
      by (rule no_change_ahead [OF doc]) (use E in \<open>simp_all add: e_def ideal_time_def None\<close>)
    moreover have "estimate_from C now spacings e = Some e" by (simp add: spacings_def None)
    ultimately show ?thesis using exactly_nearly by (auto simp: start)
  next
    case (Some b)
    let ?b = "uint (height_u32 b)"
    show ?thesis
    proof (cases "?b \<le> ?k")
      case True
      define e' where "e' = (if N now \<le> N block_time then e else e\<lparr>es_spacing := 75\<rparr>)"
      have "estimate_from C now spacings e = Some e'" using True
        by (auto simp: spacings_def Some e_def e'_def estimate_up_to_def height_diff_def ge)
      moreover have "\<exists>h. estimate_with_current_spacing C now (e\<lparr>es_spacing := 75\<rparr>) = Some h \<and> exactly_at net known ?E h"
        by (rule no_change_ahead [OF doc]) (use E True in \<open>simp_all add: e_def ideal_time_def Some\<close>)
      moreover have "estimate_with_current_spacing C now e' = estimate_with_current_spacing C now (e\<lparr>es_spacing := 75\<rparr>)"
        using E by (simp add: e'_def e_def finish_exact [OF doc] blocks_of_def whole_seconds_def)
      ultimately show ?thesis using exactly_nearly by (auto simp: start)
    next
      case False
      then have ahead: "?k < ?b" by simp
      obtain t1 where t1: "estimate_up_to C b e = Some (e\<lparr>es_block_time := t1, es_height := b\<rparr>)"
          "N t1 = N block_time + (?b - ?k) * 150 * nanos"
        using moved_to_change [OF doc, of e b] t ahead by (auto simp: e_def)
      define e1 where "e1 = e\<lparr>es_block_time := t1, es_height := b\<rparr>"
      have db: "ideal_delay net known ?b = (?b - ?k) * 150 * nanos"
        using ahead by (simp add: ideal_delay_def ideal_time_def Some)
      have rel: "N now - N t1 = ?E - ideal_delay net known ?b" by (simp add: db t1(2))
      show ?thesis
      proof (cases "N t1 < N now")
        case True
        have "estimate_from C now spacings e = Some (e1\<lparr>es_spacing := 75\<rparr>)" using True
          by (simp add: spacings_def Some t1(1) ge e1_def)
        moreover have "\<exists>h. estimate_with_current_spacing C now (e1\<lparr>es_spacing := 75\<rparr>) = Some h
            \<and> exactly_at net b (N now - N t1) h"
          by (rule no_change_ahead [OF doc]) (use True in \<open>simp_all add: e1_def e_def ideal_time_def Some\<close>)
        moreover have "exactly_at net b (N now - N t1) h \<longleftrightarrow> exactly_at net known ?E h" for h
          by (auto simp: exactly_at_def rel ideal_delay_def algebra_simps)
        ultimately show ?thesis using exactly_nearly by (auto simp: start)
      next
        case before: False
        have found: "estimate_from C now spacings e = Some e1" using before
          by (simp add: spacings_def Some t1(1) ge e1_def)
        show ?thesis
        proof (cases "N now = N t1")
          case True
          have "\<exists>h. estimate_with_current_spacing C now (e1\<lparr>es_spacing := 75\<rparr>) = Some h
              \<and> exactly_at net b (N now - N t1) h"
            by (rule no_change_ahead [OF doc]) (use True in \<open>simp_all add: e1_def e_def ideal_time_def Some\<close>)
          moreover have "estimate_with_current_spacing C now e1 = estimate_with_current_spacing C now (e1\<lparr>es_spacing := 75\<rparr>)"
            using True by (simp add: e1_def e_def finish_exact [OF doc] blocks_of_def whole_seconds_def)
          moreover have "exactly_at net b (N now - N t1) h \<longleftrightarrow> exactly_at net known ?E h" for h
            by (auto simp: exactly_at_def rel ideal_delay_def algebra_simps)
          ultimately show ?thesis using exactly_nearly by (auto simp: start found)
        next
          case False
          define d where "d = N now - N t1"
          define n where "n = blocks_of d 150"
          have d: "d < 0" using before False by (simp add: d_def)
          have n: "n * (150 * nanos) < d + nanos" "d \<le> (n + 1) * (150 * nanos)" "n \<le> 0"
            unfolding n_def using blocks_of_back [OF d, of 150] by simp_all
          have dE: "?E = d + (?b - ?k) * 150 * nanos" using rel by (simp add: d_def db)
          have K: "ideal_delay net known (?b + n) = (?b - ?k) * 150 * nanos + n * (150 * nanos)"
            using n(3) ahead by (simp add: ideal_delay_def ideal_time_def Some algebra_simps)
          have K1: "?E \<le> ideal_delay net known (?b + n + 1)"
          proof (cases "n = 0")
            case True
            then show ?thesis using d dE db ideal_delay_mono [of ?b "?b + 1" net known] by simp
          next
            case False
            then have "ideal_delay net known (?b + n + 1) = (?b - ?k) * 150 * nanos + (n + 1) * (150 * nanos)"
              using n(3) ahead by (simp add: ideal_delay_def ideal_time_def Some algebra_simps)
            then show ?thesis using n(2) dE by linarith
          qed
          have "- 1 \<le> ?b + n"
          proof -
            have "0 \<le> (n + 1) * (150 * nanos) + (?b - ?k) * 150 * nanos" using n(2) dE E by linarith
            then have "0 \<le> n + 1 + (?b - ?k)" by simp
            then show ?thesis using uint_u32_bounds(1) [of "height_u32 known"] by linarith
          qed
          then have "nearly_at net known ?E (clamp_height (?b + n))"
            using K K1 n(1) dE E by (intro clamped_nearly) linarith+
          moreover have "estimate_with_current_spacing C now e1 = Some (clamp_height (?b + n))"
            using finish_exact [OF doc, of e1 now] by (simp add: e1_def e_def n_def d_def)
          moreover have "exactly_at net known ?E (clamp_height (?b + n))"
            if far: "nanos \<le> ideal_delay net known ?b - ?E" "(ideal_delay net known ?b - ?E) mod (150 * nanos) \<noteq> 0"
          proof -
            have dd: "ideal_delay net known ?b - ?E = - d" using rel by (simp add: d_def)
            have "\<not> 150 * nanos dvd d" using far(2) unfolding dd by (metis dvd_minus_iff mod_0_imp_dvd dvd_imp_mod_0)
            from blocks_of_back_exact [OF d, of 150] far(1) this
            have x: "n * (150 * nanos) \<le> d" "d < (n + 1) * (150 * nanos)" unfolding dd by (simp_all add: n_def)
            have neg: "n + 1 \<le> 0"
            proof (rule ccontr)
              assume "\<not> n + 1 \<le> 0"
              then have "n = 0" using n(3) by simp
              with x(1) d show False by simp
            qed
            then have K2: "ideal_delay net known (?b + n + 1) = (?b - ?k) * 150 * nanos + (n + 1) * (150 * nanos)"
              using ahead by (simp add: ideal_delay_def ideal_time_def Some algebra_simps)
            have "0 < (n + 1) * (150 * nanos) + (?b - ?k) * 150 * nanos" using x(2) dE E by linarith
            then have "0 < n + 1 + (?b - ?k)" by simp
            then have "0 \<le> ?b + n" using uint_u32_bounds(1) [of "height_u32 known"] by linarith
            then show ?thesis using K K2 x dE by (intro clamped_exactly) linarith+
          qed
          moreover have "?E < ideal_delay net known ?b" using d rel by (simp add: d_def)
          ultimately show ?thesis using ahead by (auto simp: start found Some)
        qed
      qed
    qed
  qed
qed

text \<open>
  For a time before the known block the code always divides by the spacing from before Blossom, also
  when the block is past it.
\<close>

lemma past_estimates_use_the_first_spacing:
  assumes doc: "chrono_documented C N D" and net: "next_spacing_known net"
    and b: "activation_height Blossom net = Some b" "uint (height_u32 b) \<le> uint (height_u32 known)"
    and earlier: "N now \<le> N block_time"
  shows "estimate_network_chain_tip_height C (Some (known, block_time)) net now =
    Some (Some (clamp_height (uint (height_u32 known) + blocks_of (N now - N block_time) 150)))"
proof -
  obtain g where g: "target_spacings net = [(g, 150), (b, 75)]" using target_spacings_eq [OF net] b(1) by auto
  have ge: "ch_at_or_after C x y \<longleftrightarrow> N y \<le> N x" for x y using doc by (simp add: chrono_documented_def)
  show ?thesis using b(2) earlier
    by (simp add: estimate_network_chain_tip_height_def estimator_new_def g estimate_height_at_def estimate_up_to_def
        height_diff_def ge finish_exact [OF doc])
qed

section \<open>Instances\<close>

definition demo_nanos :: "int \<Rightarrow> int" where "demo_nanos t = max (- (2 ^ 43 * nanos)) (min (2 ^ 43 * nanos) t)"

definition demo_chrono :: "(int, int) chrono_ops" where
  "demo_chrono =
     \<lparr>ch_timestamp = \<lambda>t. demo_nanos t div nanos, ch_timestamp_opt = \<lambda>s. Some (s * nanos),
      ch_since = \<lambda>a b. demo_nanos a - demo_nanos b, ch_plus = \<lambda>t d. Some (demo_nanos t + d),
      ch_at_or_after = \<lambda>a b. demo_nanos b \<le> demo_nanos a, ch_seconds = \<lambda>s. Some (s * nanos),
      ch_num_seconds = whole_seconds\<rparr>"

lemma demo_chrono_documented: "chrono_documented demo_chrono demo_nanos id"
  by (auto simp: chrono_documented_def demo_chrono_def demo_nanos_def)

lemma mainnet_spacings: "next_spacing_known Mainnet" "activation_height Blossom Mainnet = Some (Height 653600)"
proof -
  have s: "sorted_wrt (\<lambda>a b. snd a < snd b) (activation_list Mainnet)"
    unfolding mainnet_activations by (simp add: MAINNET_ACTIVATION_HEIGHTS_def nu_order)
  show "next_spacing_known Mainnet" "activation_height Blossom Mainnet = Some (Height 653600)"
    unfolding next_spacing_known_def activation_height_find [OF s] mainnet_activations
    by (simp_all add: MAINNET_ACTIVATION_HEIGHTS_def nu_order)
qed

text \<open>
  The exception is real: two blocks before Blossom, one spacing after the block, the chain is ideally one
  block on and the estimate is still the block.
\<close>

lemma estimate_can_be_one_short:
  "estimate_network_chain_tip_height demo_chrono (Some (Height 653598, 1500000000 * nanos)) Mainnet
     (1500000150 * nanos) = Some (Some (Height 653598))
   \<and> exactly_at Mainnet (Height 653598) (150 * nanos) (Height 653599)"
proof
  obtain g where g: "target_spacings Mainnet = [(g, 150), (Height 653600, 75)]"
    using target_spacings_eq [OF mainnet_spacings(1)] mainnet_spacings(2) by auto
  let ?e = "\<lparr>es_block_time = 1500000000 * nanos, es_height = Height 653598, es_spacing = 150,
    es_next = [(Height 653600, 75)]\<rparr>"
  obtain t1 where t1: "estimate_up_to demo_chrono (Height 653600) ?e = Some (?e\<lparr>es_block_time := t1, es_height := Height 653600\<rparr>)"
      "demo_nanos t1 = demo_nanos (1500000000 * nanos) + (653600 - 653598) * 150 * nanos"
    using moved_to_change [OF demo_chrono_documented, of ?e "Height 653600"] by (auto simp: demo_nanos_def)
  have "demo_nanos t1 = 1500000300 * nanos" using t1(2) by (simp add: demo_nanos_def)
  moreover have "blocks_of (- (150 * nanos)) 150 = - 2" by (simp add: blocks_of_def whole_seconds_def)
  moreover have "clamp_height 653598 = Height 653598" by (simp add: clamp_height_def)
  moreover have "demo_nanos (1500000150 * nanos) = 1500000150 * nanos" by (simp add: demo_nanos_def)
  moreover have "ch_at_or_after demo_chrono a b \<longleftrightarrow> demo_nanos b \<le> demo_nanos a" for a b
    by (simp add: demo_chrono_def)
  moreover note t1(1)
  ultimately show "estimate_network_chain_tip_height demo_chrono (Some (Height 653598, 1500000000 * nanos)) Mainnet
     (1500000150 * nanos) = Some (Some (Height 653598))"
    by (simp add: estimate_network_chain_tip_height_def estimator_new_def g estimate_height_at_def
        finish_exact [OF demo_chrono_documented])
  show "exactly_at Mainnet (Height 653598) (150 * nanos) (Height 653599)"
    by (simp add: exactly_at_def ideal_delay_def ideal_time_def mainnet_spacings(2))
qed

lemma tip_estimates_follow_the_spacing_witness:
  "\<exists>h. estimate_network_chain_tip_height demo_chrono (Some (Height 2000000, 1600000000 * nanos)) Mainnet
      (1600000160 * nanos) = Some (Some h)
    \<and> exactly_at Mainnet (Height 2000000) (160 * nanos) h"
  using tip_estimates_follow_the_spacing [OF demo_chrono_documented mainnet_spacings(1),
      of "1600000000 * nanos" "1600000160 * nanos" "Height 2000000"]
  by (auto simp: demo_nanos_def mainnet_spacings(2))

end
