(* ===== verification/Utxo.thy ===== *)
theory Utxo
  imports Block
begin

text \<open>
  The transparent outputs a block creates (\<open>transparent/utxo.rs\<close>): their index by outpoint, with the
  height and the position of the transaction.
\<close>

record utxo =
  ut_output :: tx_output
  ut_height :: height
  ut_from_coinbase :: bool

record ordered_utxo =
  ou_utxo :: utxo
  ou_tx_index_in_block :: nat

definition utxo_new :: "tx_output \<Rightarrow> height \<Rightarrow> bool \<Rightarrow> utxo" where
  "utxo_new out h from_coinbase = \<lparr>ut_output = out, ut_height = h, ut_from_coinbase = from_coinbase\<rparr>"

definition utxo_from_location :: "tx_output \<Rightarrow> height \<Rightarrow> nat \<Rightarrow> utxo" where
  "utxo_from_location out h tx_index = \<lparr>ut_output = out, ut_height = h, ut_from_coinbase = (tx_index = 0)\<rparr>"

definition ordered_utxo_new :: "tx_output \<Rightarrow> height \<Rightarrow> nat \<Rightarrow> ordered_utxo" where
  "ordered_utxo_new out h tx_index =
     \<lparr>ou_utxo = utxo_new out h (tx_index = 0), ou_tx_index_in_block = tx_index\<rparr>"

definition ordered_utxo_from_utxo :: "utxo \<Rightarrow> nat \<Rightarrow> ordered_utxo" where
  "ordered_utxo_from_utxo u tx_index = \<lparr>ou_utxo = u, ou_tx_index_in_block = tx_index\<rparr>"

datatype coinbase_spend_restriction = DisallowCoinbaseSpend | CheckCoinbaseMaturity (spend_height: height)

definition utxos_from_ordered_utxos :: "(outpoint \<rightharpoonup> ordered_utxo) \<Rightarrow> (outpoint \<rightharpoonup> utxo)" where
  "utxos_from_ordered_utxos m = map_option ou_utxo \<circ> m"

definition outputs_from_utxos :: "(outpoint \<rightharpoonup> utxo) \<Rightarrow> (outpoint \<rightharpoonup> tx_output)" where
  "outputs_from_utxos m = map_option ut_output \<circ> m"

text \<open>\<open>None\<close>: more than \<open>u32::MAX + 1\<close> outputs, or no coinbase height; the code panics.\<close>

fun insert_outputs ::
    "bytes \<Rightarrow> nat \<Rightarrow> height \<Rightarrow> nat \<Rightarrow> tx_output list \<Rightarrow> (outpoint \<rightharpoonup> ordered_utxo) \<Rightarrow> (outpoint \<rightharpoonup> ordered_utxo) option" where
  "insert_outputs hash tx_index h j [] m = Some m"
| "insert_outputs hash tx_index h j (out # outs) m =
     Option.bind (u32_try_from (int j)) (\<lambda>index.
       insert_outputs hash tx_index h (j + 1) outs
         (m(\<lparr>op_hash = hash, op_index = index\<rparr> \<mapsto> ordered_utxo_new out h tx_index)))"

definition new_transaction_ordered_outputs ::
    "transaction \<Rightarrow> bytes \<Rightarrow> nat \<Rightarrow> height \<Rightarrow> (outpoint \<rightharpoonup> ordered_utxo) option" where
  "new_transaction_ordered_outputs tx hash tx_index h = insert_outputs hash tx_index h 0 (tx_outputs tx) Map.empty"

fun extend_outputs ::
    "height \<Rightarrow> nat \<Rightarrow> (transaction \<times> bytes) list \<Rightarrow> (outpoint \<rightharpoonup> ordered_utxo) \<Rightarrow> (outpoint \<rightharpoonup> ordered_utxo) option" where
  "extend_outputs h i [] m = Some m"
| "extend_outputs h i ((tx, hash) # rest) m =
     Option.bind (new_transaction_ordered_outputs tx hash i h) (\<lambda>created. extend_outputs h (i + 1) rest (m ++ created))"

definition new_ordered_outputs_with_height :: "block \<Rightarrow> height \<Rightarrow> bytes list \<Rightarrow> (outpoint \<rightharpoonup> ordered_utxo) option" where
  "new_ordered_outputs_with_height b h hashes = extend_outputs h 0 (zip (blk_transactions b) hashes) Map.empty"

definition new_ordered_outputs :: "block \<Rightarrow> bytes list \<Rightarrow> (outpoint \<rightharpoonup> ordered_utxo) option" where
  "new_ordered_outputs b hashes =
     Option.bind (coinbase_height b) (\<lambda>h. new_ordered_outputs_with_height b h hashes)"

definition new_outputs :: "block \<Rightarrow> bytes list \<Rightarrow> (outpoint \<rightharpoonup> utxo) option" where
  "new_outputs b hashes = map_option utxos_from_ordered_utxos (new_ordered_outputs b hashes)"

definition new_outputs_with_height :: "block \<Rightarrow> height \<Rightarrow> bytes list \<Rightarrow> (outpoint \<rightharpoonup> utxo) option" where
  "new_outputs_with_height b h hashes =
     map_option utxos_from_ordered_utxos (new_ordered_outputs_with_height b h hashes)"

section \<open>The index is that of the block\<close>

lemma u32_index: "j < 2 ^ 32 \<Longrightarrow> u32_try_from (int j) = Some (word_of_nat j)"
  by (simp add: u32_try_from_def)

lemma unat_u32_index: "j < 2 ^ 32 \<Longrightarrow> unat (word_of_nat j :: u32) = j"
  by (simp add: unsigned_of_nat take_bit_nat_eq_self)

lemma insert_outputs_lookup:
  assumes "j + length outs \<le> 2 ^ 32"
  shows "\<exists>m'. insert_outputs hash i h j outs m = Some m'
    \<and> (\<forall>op. m' op =
        (if op_hash op = hash \<and> j \<le> unat (op_index op) \<and> unat (op_index op) < j + length outs
         then Some (ordered_utxo_new (outs ! (unat (op_index op) - j)) h i) else m op))"
  using assms
proof (induction outs arbitrary: j m)
  case Nil
  then show ?case by auto
next
  case (Cons out outs)
  let ?m = "m(\<lparr>op_hash = hash, op_index = word_of_nat j\<rparr> \<mapsto> ordered_utxo_new out h i)"
  have j: "j < 2 ^ 32" and "Suc j + length outs \<le> 2 ^ 32" using Cons.prems by simp_all
  from Cons.IH [OF this(2), of ?m] obtain m' where
    m': "insert_outputs hash i h (Suc j) outs ?m = Some m'"
    "\<And>op. m' op = (if op_hash op = hash \<and> Suc j \<le> unat (op_index op) \<and> unat (op_index op) < Suc j + length outs
         then Some (ordered_utxo_new (outs ! (unat (op_index op) - Suc j)) h i) else ?m op)" by blast
  have here: "op = \<lparr>op_hash = hash, op_index = word_of_nat j\<rparr> \<longleftrightarrow> op_hash op = hash \<and> unat (op_index op) = j" for op
    using unat_u32_index [OF j] by (cases op) auto
  have "m' op = (if op_hash op = hash \<and> j \<le> unat (op_index op) \<and> unat (op_index op) < j + length (out # outs)
         then Some (ordered_utxo_new ((out # outs) ! (unat (op_index op) - j)) h i) else m op)" for op
  proof (cases "op_hash op = hash \<and> Suc j \<le> unat (op_index op) \<and> unat (op_index op) < Suc j + length outs")
    case True
    then obtain k where "unat (op_index op) = Suc j + k" by (metis le_iff_add)
    with True show ?thesis by (simp add: m'(2))
  next
    case False
    then show ?thesis unfolding m'(2) fun_upd_apply here by auto
  qed
  then show ?case using m'(1) j by (auto simp: u32_index)
qed

lemma new_transaction_ordered_outputs_lookup:
  assumes "length (tx_outputs tx) \<le> 2 ^ 32"
  obtains m where "new_transaction_ordered_outputs tx hash i h = Some m"
    "\<And>op. m op = (if op_hash op = hash \<and> unat (op_index op) < length (tx_outputs tx)
      then Some (ordered_utxo_new (tx_outputs tx ! unat (op_index op)) h i) else None)"
  using insert_outputs_lookup [of 0 "tx_outputs tx" hash i h Map.empty] assms
  by (auto simp: new_transaction_ordered_outputs_def)

lemma extend_outputs_lookup:
  assumes "\<forall>(tx, hash) \<in> set txs. length (tx_outputs tx) \<le> 2 ^ 32" "distinct (map snd txs)"
    and "\<forall>op. op_hash op \<in> snd ` set txs \<longrightarrow> m op = None"
  shows "\<exists>m'. extend_outputs h i txs m = Some m'
    \<and> (\<forall>op u. m' op = Some u \<longleftrightarrow> m op = Some u \<or>
        (\<exists>k < length txs. op_hash op = snd (txs ! k) \<and> unat (op_index op) < length (tx_outputs (fst (txs ! k)))
           \<and> u = ordered_utxo_new (tx_outputs (fst (txs ! k)) ! unat (op_index op)) h (i + k)))"
  using assms
proof (induction txs arbitrary: i m)
  case Nil
  then show ?case by simp
next
  case (Cons x txs)
  obtain tx hash where x: "x = (tx, hash)" by (cases x)
  obtain created where c: "new_transaction_ordered_outputs tx hash i h = Some created"
    "\<And>op. created op = (if op_hash op = hash \<and> unat (op_index op) < length (tx_outputs tx)
      then Some (ordered_utxo_new (tx_outputs tx ! unat (op_index op)) h i) else None)"
    using new_transaction_ordered_outputs_lookup [of tx hash i h] Cons.prems(1) x by auto
  have "\<forall>op. op_hash op \<in> snd ` set txs \<longrightarrow> (m ++ created) op = None"
    using Cons.prems(2,3) by (auto simp: map_add_def c(2) x)
  then obtain m' where m': "extend_outputs h (i + 1) txs (m ++ created) = Some m'"
    "\<And>op u. m' op = Some u \<longleftrightarrow> (m ++ created) op = Some u \<or>
        (\<exists>k < length txs. op_hash op = snd (txs ! k) \<and> unat (op_index op) < length (tx_outputs (fst (txs ! k)))
           \<and> u = ordered_utxo_new (tx_outputs (fst (txs ! k)) ! unat (op_index op)) h (i + 1 + k))"
    using Cons.IH [of "m ++ created" "i + 1"] Cons.prems by auto
  have "m' op = Some u \<longleftrightarrow> m op = Some u \<or>
        (\<exists>k < length (x # txs). op_hash op = snd ((x # txs) ! k)
           \<and> unat (op_index op) < length (tx_outputs (fst ((x # txs) ! k)))
           \<and> u = ordered_utxo_new (tx_outputs (fst ((x # txs) ! k)) ! unat (op_index op)) h (i + k))" for op u
  proof -
    have "(m ++ created) op = Some u \<longleftrightarrow> m op = Some u \<or> (op_hash op = hash \<and> unat (op_index op) < length (tx_outputs tx)
        \<and> u = ordered_utxo_new (tx_outputs tx ! unat (op_index op)) h i)"
      using Cons.prems(3) by (auto simp: map_add_def c(2) x)
    then show ?thesis unfolding m'(2) by (simp add: x Ex_less_Suc2 ac_simps)
  qed
  then show ?case using m'(1) c(1) by (auto simp: x)
qed

text \<open>
  With the hashes of a block's transactions, no two equal, the new outputs of the block are
  exactly those of its transactions, at the hash and the index of each, with the block's height, and
  marked as coinbase exactly for the first transaction; the position of the transaction is kept for
  the ordered ones.
\<close>

theorem new_outputs_are_the_blocks_outputs:
  assumes h: "coinbase_height b = Some h"
    and hashes: "length hashes = length (blk_transactions b)" "distinct hashes"
    and len: "\<forall>tx \<in> set (blk_transactions b). length (tx_outputs tx) \<le> 2 ^ 32"
  shows "\<exists>ordered. new_ordered_outputs b hashes = Some ordered \<and> new_outputs b hashes = Some (map_option ou_utxo \<circ> ordered)
    \<and> (\<forall>op u. ordered op = Some u \<longleftrightarrow>
        (\<exists>k < length hashes. op_hash op = hashes ! k
           \<and> unat (op_index op) < length (tx_outputs (blk_transactions b ! k))
           \<and> u = \<lparr>ou_utxo = \<lparr>ut_output = tx_outputs (blk_transactions b ! k) ! unat (op_index op), ut_height = h,
                     ut_from_coinbase = (k = 0)\<rparr>, ou_tx_index_in_block = k\<rparr>))"
proof -
  let ?txs = "zip (blk_transactions b) hashes"
  have "\<forall>(tx, hash) \<in> set ?txs. length (tx_outputs tx) \<le> 2 ^ 32" using len by (auto dest: set_zip_leftD)
  moreover have "distinct (map snd ?txs)" using hashes by simp
  ultimately obtain m where m: "extend_outputs h 0 ?txs Map.empty = Some m"
    "\<And>op u. m op = Some u \<longleftrightarrow>
        (\<exists>k < length ?txs. op_hash op = snd (?txs ! k) \<and> unat (op_index op) < length (tx_outputs (fst (?txs ! k)))
           \<and> u = ordered_utxo_new (tx_outputs (fst (?txs ! k)) ! unat (op_index op)) h k)"
    using extend_outputs_lookup [of ?txs Map.empty h 0] by auto
  have o: "new_ordered_outputs b hashes = Some m"
    by (simp add: new_ordered_outputs_def h new_ordered_outputs_with_height_def m(1))
  have "m op = Some u \<longleftrightarrow>
        (\<exists>k < length hashes. op_hash op = hashes ! k
           \<and> unat (op_index op) < length (tx_outputs (blk_transactions b ! k))
           \<and> u = \<lparr>ou_utxo = \<lparr>ut_output = tx_outputs (blk_transactions b ! k) ! unat (op_index op), ut_height = h,
                     ut_from_coinbase = (k = 0)\<rparr>, ou_tx_index_in_block = k\<rparr>)" for op u
    unfolding m(2) using hashes(1) by (auto simp: ordered_utxo_new_def utxo_new_def)
  then show ?thesis using o by (simp add: new_outputs_def utxos_from_ordered_utxos_def)
qed

definition demo_paying :: block where
  "demo_paying = \<lparr>blk_header = demo_header, blk_transactions =
     [V1 [Coinbase (Height 5) [] 0] [\<lparr>out_value = 10, lock_script = [1]\<rparr>] (LockHeight (Height 0))]\<rparr>"

lemma new_outputs_are_the_blocks_outputs_witness:
  "\<exists>m. new_outputs demo_paying [[9]] = Some m
    \<and> m \<lparr>op_hash = [9], op_index = 0\<rparr> =
        Some \<lparr>ut_output = \<lparr>out_value = 10, lock_script = [1]\<rparr>, ut_height = Height 5, ut_from_coinbase = True\<rparr>"
proof -
  have "coinbase_height demo_paying = Some (Height 5)" "length [[9 :: byte]] = length (blk_transactions demo_paying)"
    "distinct [[9 :: byte]]" "\<forall>tx \<in> set (blk_transactions demo_paying). length (tx_outputs tx) \<le> 2 ^ 32"
    by (simp_all add: demo_paying_def Block.coinbase_height_def)
  from new_outputs_are_the_blocks_outputs [OF this] obtain ordered where
    m: "new_outputs demo_paying [[9]] = Some (map_option ou_utxo \<circ> ordered)"
    and lookup: "\<forall>op u. ordered op = Some u \<longleftrightarrow>
        (\<exists>k < length [[9 :: byte]]. op_hash op = [[9]] ! k
           \<and> unat (op_index op) < length (tx_outputs (blk_transactions demo_paying ! k))
           \<and> u = \<lparr>ou_utxo = \<lparr>ut_output = tx_outputs (blk_transactions demo_paying ! k) ! unat (op_index op), ut_height = Height 5,
                  ut_from_coinbase = (k = 0)\<rparr>, ou_tx_index_in_block = k\<rparr>)" by blast
  have "ordered \<lparr>op_hash = [9], op_index = 0\<rparr> = Some \<lparr>ou_utxo = \<lparr>ut_output = \<lparr>out_value = 10, lock_script = [1]\<rparr>,
      ut_height = Height 5, ut_from_coinbase = True\<rparr>, ou_tx_index_in_block = 0\<rparr>"
    by (rule lookup [rule_format, THEN iffD2]) (simp add: demo_paying_def)
  with m show ?thesis by simp
qed

end
