(* ===== verification/CompactBlocks.thy ===== *)
theory CompactBlocks
  imports Upgrades "HOL-Library.Sublist"
begin

text \<open>
  Pool types, block range requests and compact blocks of zaino-proto (\<open>proto/utils.rs\<close>, with the
  messages of \<open>compact_formats.rs\<close> and \<open>service.rs\<close>).
\<close>

section \<open>Messages\<close>

datatype pool_type = InvalidPool | TransparentPool | SaplingPool | OrchardPool | IronwoodPool

fun pool_type_to_i32 :: "pool_type \<Rightarrow> int" where
  "pool_type_to_i32 InvalidPool = 0"
| "pool_type_to_i32 TransparentPool = 1"
| "pool_type_to_i32 SaplingPool = 2"
| "pool_type_to_i32 OrchardPool = 3"
| "pool_type_to_i32 IronwoodPool = 4"

definition pool_type_try_from :: "int \<Rightarrow> pool_type option" where
  "pool_type_try_from v =
     (if v = 0 then Some InvalidPool else if v = 1 then Some TransparentPool else if v = 2 then Some SaplingPool
      else if v = 3 then Some OrchardPool else if v = 4 then Some IronwoodPool else None)"

fun pool_type_as_str_name :: "pool_type \<Rightarrow> string" where
  "pool_type_as_str_name InvalidPool = ''POOL_TYPE_INVALID''"
| "pool_type_as_str_name TransparentPool = ''TRANSPARENT''"
| "pool_type_as_str_name SaplingPool = ''SAPLING''"
| "pool_type_as_str_name OrchardPool = ''ORCHARD''"
| "pool_type_as_str_name IronwoodPool = ''IRONWOOD''"

definition pool_type_from_str_name :: "string \<Rightarrow> pool_type option" where
  "pool_type_from_str_name s =
     (if s = ''POOL_TYPE_INVALID'' then Some InvalidPool else if s = ''TRANSPARENT'' then Some TransparentPool
      else if s = ''SAPLING'' then Some SaplingPool else if s = ''ORCHARD'' then Some OrchardPool
      else if s = ''IRONWOOD'' then Some IronwoodPool else None)"

record block_id =
  bi_height :: u64
  bi_hash :: bytes

record block_range =
  br_start :: "block_id option"
  br_end :: "block_id option"
  br_pool_types :: "int list"

record chain_metadata =
  cm_sapling_size :: u32
  cm_orchard_size :: u32
  cm_ironwood_size :: u32

record compact_tx_in =
  ci_prevout_txid :: bytes
  ci_prevout_index :: u32

record compact_tx_out =
  co_value :: u64
  co_script :: bytes

record compact_sapling_spend =
  cs_nf :: bytes

record compact_sapling_output =
  cso_cmu :: bytes
  cso_ephemeral_key :: bytes
  cso_ciphertext :: bytes

record compact_orchard_action =
  ca_nullifier :: bytes
  ca_cmx :: bytes
  ca_ephemeral_key :: bytes
  ca_ciphertext :: bytes

record compact_tx =
  ct_index :: u64
  ct_txid :: bytes
  ct_fee :: u32
  ct_spends :: "compact_sapling_spend list"
  ct_outputs :: "compact_sapling_output list"
  ct_actions :: "compact_orchard_action list"
  ct_ironwood_actions :: "compact_orchard_action list"
  ct_vin :: "compact_tx_in list"
  ct_vout :: "compact_tx_out list"

record compact_block =
  cb_proto_version :: u32
  cb_height :: u64
  cb_hash :: bytes
  cb_prev_hash :: bytes
  cb_time :: u32
  cb_header :: bytes
  cb_vtx :: "compact_tx list"
  cb_chain_metadata :: "chain_metadata option"

section \<open>Pool filters\<close>

datatype pool_type_error = InvalidPoolType | UnknownPoolType int

record pool_type_filter =
  include_transparent :: bool
  include_sapling :: bool
  include_orchard :: bool
  include_ironwood :: bool

definition filter_default :: pool_type_filter where
  "filter_default = \<lparr>include_transparent = False, include_sapling = True, include_orchard = True, include_ironwood = True\<rparr>"

definition filter_includes_all :: pool_type_filter where
  "filter_includes_all = \<lparr>include_transparent = True, include_sapling = True, include_orchard = True, include_ironwood = True\<rparr>"

definition filter_empty :: pool_type_filter where
  "filter_empty = \<lparr>include_transparent = False, include_sapling = False, include_orchard = False, include_ironwood = False\<rparr>"

definition filter_is_empty :: "pool_type_filter \<Rightarrow> bool" where
  "filter_is_empty f \<longleftrightarrow>
     \<not> include_transparent f \<and> \<not> include_sapling f \<and> \<not> include_orchard f \<and> \<not> include_ironwood f"

definition to_pool_types_vector :: "pool_type_filter \<Rightarrow> pool_type list" where
  "to_pool_types_vector f =
     (if include_transparent f then [TransparentPool] else []) @ (if include_sapling f then [SaplingPool] else [])
     @ (if include_orchard f then [OrchardPool] else []) @ (if include_ironwood f then [IronwoodPool] else [])"

fun collect_pools :: "int list \<Rightarrow> pool_type list \<Rightarrow> (pool_type_error, pool_type list) result" where
  "collect_pools [] pools = Ok pools"
| "collect_pools (p # ps) pools =
     (case pool_type_try_from p of
        Some t \<Rightarrow> if t = InvalidPool then Err InvalidPoolType else collect_pools ps (pools @ [t])
      | None \<Rightarrow> Err (UnknownPoolType p))"

definition pool_types_from_vector :: "int list \<Rightarrow> (pool_type_error, pool_type list) result" where
  "pool_types_from_vector pool_types =
     (if pool_types = [] then Ok (to_pool_types_vector filter_default) else collect_pools pool_types [])"

definition pool_types_into_i32_vec :: "pool_type list \<Rightarrow> int list" where
  "pool_types_into_i32_vec pool_types = map pool_type_to_i32 pool_types"

fun include_pools :: "pool_type list \<Rightarrow> pool_type_filter \<Rightarrow> (pool_type_error, pool_type_filter) result" where
  "include_pools [] f = Ok f"
| "include_pools (p # ps) f =
     (case p of
        InvalidPool \<Rightarrow> Err InvalidPoolType
      | TransparentPool \<Rightarrow> include_pools ps (f\<lparr>include_transparent := True\<rparr>)
      | SaplingPool \<Rightarrow> include_pools ps (f\<lparr>include_sapling := True\<rparr>)
      | OrchardPool \<Rightarrow> include_pools ps (f\<lparr>include_orchard := True\<rparr>)
      | IronwoodPool \<Rightarrow> include_pools ps (f\<lparr>include_ironwood := True\<rparr>))"

definition new_from_pool_types :: "pool_type list \<Rightarrow> (pool_type_error, pool_type_filter) result" where
  "new_from_pool_types pool_types =
     (if int (length pool_types) > pool_type_to_i32 IronwoodPool then Err InvalidPoolType
      else if pool_types = [] then Ok filter_default
      else result_bind (include_pools pool_types filter_empty) (\<lambda>f.
        if filter_is_empty f then Ok filter_default else Ok f))"

definition new_from_slice :: "int list \<Rightarrow> (pool_type_error, pool_type_filter) result" where
  "new_from_slice pool_types = result_bind (pool_types_from_vector pool_types) new_from_pool_types"

section \<open>Block range requests\<close>

datatype get_block_range_error =
  NoStartHeightProvided | NoEndHeightProvided | StartHeightOutOfRange | EndHeightOutOfRange
| PoolTypeArgumentError pool_type_error

record validated_request =
  vr_start :: u64
  vr_end :: u64
  vr_pool_types :: "pool_type list"

definition new_from_block_range :: "block_range \<Rightarrow> (get_block_range_error, validated_request) result" where
  "new_from_block_range request =
     (case br_start request of
        None \<Rightarrow> Err NoStartHeightProvided
      | Some start_id \<Rightarrow>
     (case br_end request of
        None \<Rightarrow> Err NoEndHeightProvided
      | Some end_id \<Rightarrow>
     (if u32_try_from (uint (bi_height start_id)) = None then Err StartHeightOutOfRange
      else if u32_try_from (uint (bi_height end_id)) = None then Err EndHeightOutOfRange
      else result_bind (map_err PoolTypeArgumentError (pool_types_from_vector (br_pool_types request))) (\<lambda>pools.
        Ok \<lparr>vr_start = bi_height start_id, vr_end = bi_height end_id, vr_pool_types = pools\<rparr>))))"

definition is_reverse_ordered :: "validated_request \<Rightarrow> bool" where
  "is_reverse_ordered r \<longleftrightarrow> vr_start r > vr_end r"

definition reverse_request :: "validated_request \<Rightarrow> validated_request" where
  "reverse_request r = r\<lparr>vr_start := vr_end r, vr_end := vr_start r\<rparr>"

datatype hash_or_height = IsHash bytes | IsHeight height

definition blockid_to_hashorheight :: "block_id \<Rightarrow> hash_or_height option" where
  "blockid_to_hashorheight i =
     (if length (bi_hash i) = 32 then Some (IsHash (bi_hash i))
      else map_option (\<lambda>h. IsHeight (Height h)) (u32_try_from (uint (bi_height i))))"

section \<open>Pruning\<close>

definition compact_block_with_pool_types :: "compact_block \<Rightarrow> pool_type list \<Rightarrow> compact_block" where
  "compact_block_with_pool_types b pool_types =
     (if pool_types = [] then
        b\<lparr>cb_vtx := filter (\<lambda>t. ct_spends t \<noteq> [] \<or> ct_outputs t \<noteq> [] \<or> ct_actions t \<noteq> [] \<or> ct_ironwood_actions t \<noteq> [])
            (map (\<lambda>t. t\<lparr>ct_vin := [], ct_vout := []\<rparr>) (cb_vtx b))\<rparr>
      else
        b\<lparr>cb_vtx := filter (\<lambda>t. ct_vin t \<noteq> [] \<or> ct_vout t \<noteq> [] \<or> ct_spends t \<noteq> [] \<or> ct_outputs t \<noteq> []
              \<or> ct_actions t \<noteq> [] \<or> ct_ironwood_actions t \<noteq> [])
            (map (\<lambda>t.
              let t = (if TransparentPool \<notin> set pool_types then t\<lparr>ct_vin := [], ct_vout := []\<rparr> else t);
                  t = (if SaplingPool \<notin> set pool_types then t\<lparr>ct_spends := [], ct_outputs := []\<rparr> else t);
                  t = (if OrchardPool \<notin> set pool_types then t\<lparr>ct_actions := []\<rparr> else t)
              in if IronwoodPool \<notin> set pool_types then t\<lparr>ct_ironwood_actions := []\<rparr> else t)
              (cb_vtx b))\<rparr>)"

text \<open>\<open>Default\<close> of an action is empty.\<close>

definition only_nullifier :: "compact_orchard_action \<Rightarrow> compact_orchard_action" where
  "only_nullifier a = \<lparr>ca_nullifier = ca_nullifier a, ca_cmx = [], ca_ephemeral_key = [], ca_ciphertext = []\<rparr>"

definition compact_block_to_nullifiers :: "compact_block \<Rightarrow> compact_block" where
  "compact_block_to_nullifiers b =
     b\<lparr>cb_vtx := map (\<lambda>t. t\<lparr>ct_outputs := [], ct_vin := [], ct_vout := [], ct_actions := map only_nullifier (ct_actions t),
           ct_ironwood_actions := map only_nullifier (ct_ironwood_actions t)\<rparr>) (cb_vtx b),
       cb_chain_metadata := Some \<lparr>cm_sapling_size = 0, cm_orchard_size = 0, cm_ironwood_size = 0\<rparr>\<rparr>"

section \<open>Requests are validated\<close>

lemma pool_type_round_trip: "pool_type_try_from (pool_type_to_i32 p) = Some p"
  by (cases p) (simp_all add: pool_type_try_from_def)

lemma pool_type_try_from_iff: "pool_type_try_from v = Some p \<longleftrightarrow> v = pool_type_to_i32 p"
  by (cases p) (auto simp: pool_type_try_from_def)

lemma pool_type_to_i32_inj: "pool_type_to_i32 p = pool_type_to_i32 q \<longleftrightarrow> p = q"
  by (metis pool_type_round_trip option.inject)

lemma pool_names_round_trip: "pool_type_from_str_name (pool_type_as_str_name p) = Some p"
  by (cases p) (simp_all add: pool_type_from_str_name_def)

lemma collect_pools_iff:
  "collect_pools ps acc = Ok pools \<longleftrightarrow>
     (\<exists>qs. pools = acc @ qs \<and> InvalidPool \<notin> set qs \<and> ps = pool_types_into_i32_vec qs)"
proof (induction ps arbitrary: acc)
  case Nil
  then show ?case by (auto simp: pool_types_into_i32_vec_def)
next
  case (Cons p ps)
  show ?case
  proof (cases "pool_type_try_from p")
    case None
    then have "p \<noteq> pool_type_to_i32 q" for q using pool_type_round_trip by fastforce
    then show ?thesis using None by (auto simp: pool_types_into_i32_vec_def Cons_eq_map_conv)
  next
    case (Some t)
    then have "p # ps = map pool_type_to_i32 qs \<longleftrightarrow> (\<exists>zs. qs = t # zs \<and> ps = map pool_type_to_i32 zs)" for qs
      by (cases qs) (auto simp: pool_type_try_from_iff pool_type_to_i32_inj)
    note list = this
    have "collect_pools (p # ps) acc = Ok pools \<longleftrightarrow> t \<noteq> InvalidPool \<and> collect_pools ps (acc @ [t]) = Ok pools"
      using Some by simp
    also have "\<dots> \<longleftrightarrow> (\<exists>qs. pools = acc @ qs \<and> InvalidPool \<notin> set qs \<and> (\<exists>zs. qs = t # zs \<and> ps = map pool_type_to_i32 zs))"
      unfolding Cons.IH pool_types_into_i32_vec_def by auto
    finally show ?thesis unfolding pool_types_into_i32_vec_def list .
  qed
qed

text \<open>
  A block range request is accepted exactly when it has both ends, both within 32 bits, and every
  pool of its list is one of the four, and then the ends are kept and the pools are those of the list
  in its order, or all shielded ones for an empty list.
\<close>

theorem block_range_requests_are_validated:
  "new_from_block_range request = Ok v \<longleftrightarrow>
     (\<exists>s e. br_start request = Some s \<and> br_end request = Some e \<and> vr_start v = bi_height s \<and> vr_end v = bi_height e
        \<and> uint (vr_start v) < 2 ^ 32 \<and> uint (vr_end v) < 2 ^ 32 \<and> InvalidPool \<notin> set (vr_pool_types v)
        \<and> (if br_pool_types request = [] then vr_pool_types v = [SaplingPool, OrchardPool, IronwoodPool]
           else br_pool_types request = pool_types_into_i32_vec (vr_pool_types v)))"
proof -
  have u: "u32_try_from (uint (w :: u64)) = None \<longleftrightarrow> \<not> uint w < 2 ^ 32" for w by (simp add: u32_try_from_def)
  have pools: "pool_types_from_vector ps = Ok qs \<longleftrightarrow>
      InvalidPool \<notin> set qs \<and> (if ps = [] then qs = [SaplingPool, OrchardPool, IronwoodPool] else ps = pool_types_into_i32_vec qs)"
    for ps qs
    by (auto simp: pool_types_from_vector_def collect_pools_iff to_pool_types_vector_def filter_default_def)
  show ?thesis
    by (cases v) (auto simp: new_from_block_range_def u pools result_bind_Ok_iff split: option.splits if_splits)
qed

text \<open>
  A filter is the set of the pools of a list of at most four pools; a list with an invalid pool or
  with more entries, repeated ones counted, is refused. Every filter but the empty one is that of its
  own list of pools.
\<close>

lemma include_pools_eq:
  "include_pools ps f =
     (if InvalidPool \<in> set ps then Err InvalidPoolType
      else Ok \<lparr>include_transparent = (include_transparent f \<or> TransparentPool \<in> set ps),
               include_sapling = (include_sapling f \<or> SaplingPool \<in> set ps),
               include_orchard = (include_orchard f \<or> OrchardPool \<in> set ps),
               include_ironwood = (include_ironwood f \<or> IronwoodPool \<in> set ps)\<rparr>)"
proof (induction ps arbitrary: f)
  case Nil
  then show ?case by simp
next
  case (Cons p ps)
  then show ?case by (cases p) auto
qed

theorem pool_filters_are_sets_of_pools:
  "new_from_pool_types ps =
     (if 4 < length ps \<or> InvalidPool \<in> set ps then Err InvalidPoolType
      else if ps = [] then Ok filter_default
      else Ok \<lparr>include_transparent = (TransparentPool \<in> set ps), include_sapling = (SaplingPool \<in> set ps),
               include_orchard = (OrchardPool \<in> set ps), include_ironwood = (IronwoodPool \<in> set ps)\<rparr>)
   \<and> (filter_is_empty f \<or> new_from_pool_types (to_pool_types_vector f) = Ok f)"
proof -
  have "\<not> filter_is_empty \<lparr>include_transparent = (TransparentPool \<in> set ps), include_sapling = (SaplingPool \<in> set ps),
               include_orchard = (OrchardPool \<in> set ps), include_ironwood = (IronwoodPool \<in> set ps)\<rparr>"
    if "ps \<noteq> []" "InvalidPool \<notin> set ps" for ps
    using that by (cases "hd ps") (auto simp: filter_is_empty_def neq_Nil_conv)
  note nonempty = this
  have e: "new_from_pool_types ps =
     (if 4 < length ps \<or> InvalidPool \<in> set ps then Err InvalidPoolType
      else if ps = [] then Ok filter_default
      else Ok \<lparr>include_transparent = (TransparentPool \<in> set ps), include_sapling = (SaplingPool \<in> set ps),
               include_orchard = (OrchardPool \<in> set ps), include_ironwood = (IronwoodPool \<in> set ps)\<rparr>)" for ps
    using nonempty [of ps] by (simp add: new_from_pool_types_def include_pools_eq filter_empty_def)
  have "length (to_pool_types_vector f) \<le> 4" "InvalidPool \<notin> set (to_pool_types_vector f)"
    "to_pool_types_vector f = [] \<longleftrightarrow> filter_is_empty f"
    by (simp_all add: to_pool_types_vector_def filter_is_empty_def)
  moreover have "TransparentPool \<in> set (to_pool_types_vector f) \<longleftrightarrow> include_transparent f"
    "SaplingPool \<in> set (to_pool_types_vector f) \<longleftrightarrow> include_sapling f"
    "OrchardPool \<in> set (to_pool_types_vector f) \<longleftrightarrow> include_orchard f"
    "IronwoodPool \<in> set (to_pool_types_vector f) \<longleftrightarrow> include_ironwood f"
    by (simp_all add: to_pool_types_vector_def)
  ultimately have "filter_is_empty f \<or> new_from_pool_types (to_pool_types_vector f) = Ok f"
    by (simp add: e)
  with e [of ps] show ?thesis by blast
qed

section \<open>Pruned blocks\<close>

definition requested_pools :: "pool_type list \<Rightarrow> pool_type set" where
  "requested_pools ps = (if ps = [] then {SaplingPool, OrchardPool, IronwoodPool} else set ps)"

definition keeps :: "pool_type list \<Rightarrow> pool_type \<Rightarrow> 'a list \<Rightarrow> 'a list" where
  "keeps ps p xs = (if p \<in> requested_pools ps then xs else [])"

definition pruned_tx :: "pool_type list \<Rightarrow> compact_tx \<Rightarrow> compact_tx" where
  "pruned_tx ps t = t\<lparr>ct_spends := keeps ps SaplingPool (ct_spends t), ct_outputs := keeps ps SaplingPool (ct_outputs t),
     ct_actions := keeps ps OrchardPool (ct_actions t), ct_ironwood_actions := keeps ps IronwoodPool (ct_ironwood_actions t),
     ct_vin := keeps ps TransparentPool (ct_vin t), ct_vout := keeps ps TransparentPool (ct_vout t)\<rparr>"

definition tx_has_elements :: "compact_tx \<Rightarrow> bool" where
  "tx_has_elements t \<longleftrightarrow> ct_vin t \<noteq> [] \<or> ct_vout t \<noteq> [] \<or> ct_spends t \<noteq> [] \<or> ct_outputs t \<noteq> []
     \<or> ct_actions t \<noteq> [] \<or> ct_ironwood_actions t \<noteq> []"

lemma compact_block_with_pool_types_eq:
  "compact_block_with_pool_types b ps = b\<lparr>cb_vtx := filter tx_has_elements (map (pruned_tx ps) (cb_vtx b))\<rparr>"
proof (cases "ps = []")
  case True
  have "map (\<lambda>t. t\<lparr>ct_vin := [], ct_vout := []\<rparr>) xs = map (pruned_tx ps) xs" for xs
    using True by (intro map_cong) (simp_all add: pruned_tx_def keeps_def requested_pools_def)
  moreover have "filter (\<lambda>t. ct_spends t \<noteq> [] \<or> ct_outputs t \<noteq> [] \<or> ct_actions t \<noteq> [] \<or> ct_ironwood_actions t \<noteq> [])
      (map (pruned_tx ps) xs) = filter tx_has_elements (map (pruned_tx ps) xs)" for xs
    using True by (intro filter_cong) (auto simp: tx_has_elements_def pruned_tx_def keeps_def requested_pools_def)
  ultimately show ?thesis unfolding compact_block_with_pool_types_def if_P [OF True] by (simp only:)
next
  case False
  have "(let t = (if TransparentPool \<notin> set ps then t\<lparr>ct_vin := [], ct_vout := []\<rparr> else t);
                  t = (if SaplingPool \<notin> set ps then t\<lparr>ct_spends := [], ct_outputs := []\<rparr> else t);
                  t = (if OrchardPool \<notin> set ps then t\<lparr>ct_actions := []\<rparr> else t)
              in if IronwoodPool \<notin> set ps then t\<lparr>ct_ironwood_actions := []\<rparr> else t) = pruned_tx ps t" for t
    using False by (cases t) (simp add: pruned_tx_def keeps_def requested_pools_def Let_def)
  then show ?thesis using False by (simp add: compact_block_with_pool_types_def tx_has_elements_def [abs_def])
qed

lemma concat_filter_kept:
  "(\<And>t. t \<in> set ts \<Longrightarrow> \<not> P t \<Longrightarrow> f t = []) \<Longrightarrow> concat (map f (filter P ts)) = concat (map f ts)"
  by (induction ts) auto

lemma concat_keeps: "concat (map (\<lambda>t. keeps ps p (f t)) ts) = keeps ps p (concat (map f ts))"
  by (simp add: keeps_def)

text \<open>
  C38. A pruned block changes only its transactions: it has, in order, exactly the elements of the
  requested pools and none of the others; no transaction is left without elements, those left keep
  their index, id and fee and their order; pruning again changes nothing; an empty request is that for
  all shielded pools.
\<close>

theorem pruned_blocks_have_the_requested_pools:
  "let b' = compact_block_with_pool_types b ps in
   b' = b\<lparr>cb_vtx := cb_vtx b'\<rparr>
   \<and> concat (map ct_vin (cb_vtx b')) = keeps ps TransparentPool (concat (map ct_vin (cb_vtx b)))
   \<and> concat (map ct_vout (cb_vtx b')) = keeps ps TransparentPool (concat (map ct_vout (cb_vtx b)))
   \<and> concat (map ct_spends (cb_vtx b')) = keeps ps SaplingPool (concat (map ct_spends (cb_vtx b)))
   \<and> concat (map ct_outputs (cb_vtx b')) = keeps ps SaplingPool (concat (map ct_outputs (cb_vtx b)))
   \<and> concat (map ct_actions (cb_vtx b')) = keeps ps OrchardPool (concat (map ct_actions (cb_vtx b)))
   \<and> concat (map ct_ironwood_actions (cb_vtx b')) = keeps ps IronwoodPool (concat (map ct_ironwood_actions (cb_vtx b)))
   \<and> list_all tx_has_elements (cb_vtx b')
   \<and> subseq (map (\<lambda>t. (ct_index t, ct_txid t, ct_fee t)) (cb_vtx b')) (map (\<lambda>t. (ct_index t, ct_txid t, ct_fee t)) (cb_vtx b))
   \<and> compact_block_with_pool_types b' ps = b'
   \<and> compact_block_with_pool_types b [] = compact_block_with_pool_types b [SaplingPool, OrchardPool, IronwoodPool]"
proof -
  let ?vtx = "filter tx_has_elements (map (pruned_tx ps) (cb_vtx b))"
  have elements: "concat (map f ?vtx) = keeps ps p (concat (map f (cb_vtx b)))"
    if "\<And>t. \<not> tx_has_elements t \<Longrightarrow> f t = []" "\<And>t. f (pruned_tx ps t) = keeps ps p (f t)"
    for f :: "compact_tx \<Rightarrow> 'z list" and p
    using that by (subst concat_filter_kept) (simp_all add: comp_def concat_keeps)
  have "subseq ?vtx (map (pruned_tx ps) (cb_vtx b))" by simp
  then have "subseq (map (\<lambda>t. (ct_index t, ct_txid t, ct_fee t)) ?vtx)
      (map (\<lambda>t. (ct_index t, ct_txid t, ct_fee t)) (map (pruned_tx ps) (cb_vtx b)))" by (rule subseq_map)
  then have ids: "subseq (map (\<lambda>t. (ct_index t, ct_txid t, ct_fee t)) ?vtx)
      (map (\<lambda>t. (ct_index t, ct_txid t, ct_fee t)) (cb_vtx b))" by (simp add: comp_def pruned_tx_def)
  have twice: "pruned_tx ps (pruned_tx ps t) = pruned_tx ps t" for t by (simp add: pruned_tx_def keeps_def)
  then have "map (pruned_tx ps) ?vtx = ?vtx" by (auto intro!: map_idI)
  then have again: "filter tx_has_elements (map (pruned_tx ps) ?vtx) = ?vtx" by simp
  have shielded: "pruned_tx [] = pruned_tx [SaplingPool, OrchardPool, IronwoodPool]"
    by (intro ext) (simp add: pruned_tx_def keeps_def requested_pools_def)
  have same: "b\<lparr>cb_vtx := v\<rparr> = b\<lparr>cb_vtx := cb_vtx (b\<lparr>cb_vtx := v\<rparr>)\<rparr>" for v by simp
  have all: "list_all tx_has_elements ?vtx" by (simp add: list_all_iff)
  have vtx: "cb_vtx (b\<lparr>cb_vtx := v\<rparr>) = v" "b\<lparr>cb_vtx := v, cb_vtx := w\<rparr> = b\<lparr>cb_vtx := w\<rparr>" for v w by simp_all
  show ?thesis
    unfolding Let_def compact_block_with_pool_types_eq
    by (intro conjI same; (unfold vtx)?; (rule elements all ids)?)
      (simp_all only: tx_has_elements_def de_Morgan_disj not_not pruned_tx_def compact_tx.select_convs
        compact_tx.update_convs again shielded, simp_all add: again [unfolded tx_has_elements_def])
qed

text \<open>A block reduced to nullifiers has all of them, in order, and reducing it again changes nothing.\<close>

lemma nullifier_blocks_keep_the_nullifiers:
  "concat (map ct_spends (cb_vtx (compact_block_to_nullifiers b))) = concat (map ct_spends (cb_vtx b))"
  "map ca_nullifier (concat (map ct_actions (cb_vtx (compact_block_to_nullifiers b))))
     = map ca_nullifier (concat (map ct_actions (cb_vtx b)))"
  "map ca_nullifier (concat (map ct_ironwood_actions (cb_vtx (compact_block_to_nullifiers b))))
     = map ca_nullifier (concat (map ct_ironwood_actions (cb_vtx b)))"
  "compact_block_to_nullifiers (compact_block_to_nullifiers b) = compact_block_to_nullifiers b"
  by (simp_all add: compact_block_to_nullifiers_def only_nullifier_def map_concat comp_def)

end
