(* ===== verification/SigHash.thy ===== *)
theory SigHash
  imports Merkle Utxo Networks
begin

text \<open>
  Signature hashes (\<open>transaction/sighash.rs\<close>, \<open>primitives/zcash_primitives.rs\<close>), what a spend of a
  coinbase output must respect (\<open>transaction.rs\<close>) and the values, indexes and dust limit of
  transparent inputs and outputs (\<open>transparent.rs\<close>). The transaction of librustzcash and its digest are
  parameters.
\<close>

section \<open>Hash types\<close>

type_synonym hash_type = u32

definition HASH_ALL :: hash_type where "HASH_ALL = 0x01"
definition HASH_NONE :: hash_type where "HASH_NONE = 0x02"
definition HASH_SINGLE :: hash_type where "HASH_SINGLE = HASH_ALL OR HASH_NONE"
definition HASH_ANYONECANPAY :: hash_type where "HASH_ANYONECANPAY = 0x80"
definition HASH_ALL_ANYONECANPAY :: hash_type where "HASH_ALL_ANYONECANPAY = HASH_ALL OR HASH_ANYONECANPAY"
definition HASH_NONE_ANYONECANPAY :: hash_type where "HASH_NONE_ANYONECANPAY = HASH_NONE OR HASH_ANYONECANPAY"
definition HASH_SINGLE_ANYONECANPAY :: hash_type where "HASH_SINGLE_ANYONECANPAY = HASH_SINGLE OR HASH_ANYONECANPAY"

text \<open>
  librustzcash: reading a transaction (that it can be read is \<open>lrz_read\<close>), the number of inputs of its
  transparent bundle, hash types, whether an amount is valid, the input to sign (\<open>None\<close> is an error)
  and the hash over the amounts and scripts of the previous outputs. The amounts are \<open>None\<close> where
  converting them panics, and so is the hash.
\<close>

record ('tx, 'st, 'si) sighash_libs =
  sl_tx :: "bytes \<Rightarrow> u32 \<Rightarrow> 'tx"
  sl_vin_len :: "'tx \<Rightarrow> nat option"
  sl_from_raw :: "byte \<Rightarrow> 'st"
  sl_ALL :: 'st
  sl_NONE :: 'st
  sl_SINGLE :: 'st
  sl_ALL_ANYONECANPAY :: 'st
  sl_NONE_ANYONECANPAY :: 'st
  sl_SINGLE_ANYONECANPAY :: 'st
  sl_zatoshis_ok :: "int \<Rightarrow> bool"
  sl_from_parts :: "'tx \<Rightarrow> 'st \<Rightarrow> nat \<Rightarrow> bytes \<Rightarrow> bytes \<Rightarrow> int \<Rightarrow> 'si option"
  sl_signature_hash :: "'tx \<Rightarrow> int list option \<Rightarrow> bytes list \<Rightarrow> 'si option \<Rightarrow> bytes option"

definition sighash_type_try_from :: "('tx, 'st, 'si) sighash_libs \<Rightarrow> hash_type \<Rightarrow> 'st option" where
  "sighash_type_try_from L hash_type =
     (if hash_type = HASH_ALL then Some (sl_ALL L)
      else if hash_type = HASH_NONE then Some (sl_NONE L)
      else if hash_type = HASH_SINGLE then Some (sl_SINGLE L)
      else if hash_type = HASH_ALL_ANYONECANPAY then Some (sl_ALL_ANYONECANPAY L)
      else if hash_type = HASH_NONE_ANYONECANPAY then Some (sl_NONE_ANYONECANPAY L)
      else if hash_type = HASH_SINGLE_ANYONECANPAY then Some (sl_SINGLE_ANYONECANPAY L)
      else None)"

section \<open>Precomputed data\<close>

record 'tx precomputed_tx_data =
  pc_tx :: 'tx
  pc_outputs :: "tx_output list"

definition input_amounts :: "('tx, 'st, 'si) sighash_libs \<Rightarrow> tx_output list \<Rightarrow> int list option" where
  "input_amounts L outs = those (map (\<lambda>o'. if sl_zatoshis_ok L (out_value o') then Some (out_value o') else None) outs)"

definition input_scriptpubkeys :: "tx_output list \<Rightarrow> bytes list" where
  "input_scriptpubkeys outs = map lock_script outs"

definition precomputed_new ::
    "('tx, 'st, 'si) sighash_libs \<Rightarrow> crypto \<Rightarrow> transaction \<Rightarrow> network_upgrade \<Rightarrow> tx_output list
     \<Rightarrow> (lrz_failure, 'tx precomputed_tx_data) result" where
  "precomputed_new L cr tx nu all_previous_outputs =
     result_bind (to_librustzcash cr tx nu) (\<lambda>_.
       case (write_transaction cr tx, branch_id nu) of
         (Ok bs, Some b) \<Rightarrow> Ok \<lparr>pc_tx = sl_tx L bs b, pc_outputs = all_previous_outputs\<rparr>
       | _ \<Rightarrow> Err (LrzError InvalidConsensusBranchId))"

definition sighasher_new ::
    "('tx, 'st, 'si) sighash_libs \<Rightarrow> crypto \<Rightarrow> transaction \<Rightarrow> network_upgrade \<Rightarrow> tx_output list
     \<Rightarrow> (lrz_failure, 'tx precomputed_tx_data) result" where
  "sighasher_new L cr tx nu all_previous_outputs = precomputed_new L cr tx nu all_previous_outputs"

section \<open>Signature hashes\<close>

datatype sighash_error =
  InputIndexOutOfBounds nat nat | NoTransparentBundle | BundleInputCountMismatch nat nat nat
| InvalidPreviousOutputAmount

fun display_sighash_error :: "sighash_error \<Rightarrow> string" where
  "display_sighash_error (InputIndexOutOfBounds input_index input_count) =
     ''input_index '' @ show_nat input_index @ '' is out of bounds (transaction has '' @ show_nat input_count
       @ '' transparent inputs)''"
| "display_sighash_error NoTransparentBundle =
     ''transparent sighash requested for a transaction with no transparent bundle (vin and vout both empty)''"
| "display_sighash_error (BundleInputCountMismatch input_index bundle_vin_len all_prev_outputs_len) =
     ''input_index '' @ show_nat input_index @ '' valid for all_previous_outputs (len ''
       @ show_nat all_prev_outputs_len @ '') but out of bounds for the parsed transparent bundle (vin len ''
       @ show_nat bundle_vin_len @ ''); this indicates a serialize/deserialize round-trip inconsistency''"
| "display_sighash_error InvalidPreviousOutputAmount =
     ''previous output amount could not be converted to Zatoshis; the amount should have been validated before sighash computation''"

text \<open>The outer \<open>None\<close> is a panic of librustzcash on the amounts.\<close>

definition sighash_inner ::
    "('tx, 'st, 'si) sighash_libs \<Rightarrow> 'tx precomputed_tx_data \<Rightarrow> 'st \<Rightarrow> (nat \<times> bytes) option
     \<Rightarrow> (sighash_error, bytes) result option" where
  "sighash_inner L p st input_index_script_code =
     (let signable =
        (case input_index_script_code of
           None \<Rightarrow> Ok None
         | Some (input_index, script_code) \<Rightarrow>
             (let all_prev_outputs_len = length (pc_outputs p)
              in if \<not> input_index < all_prev_outputs_len
                 then Err (InputIndexOutOfBounds input_index all_prev_outputs_len)
                 else case sl_vin_len L (pc_tx p) of
                   None \<Rightarrow> Err NoTransparentBundle
                 | Some vin_len \<Rightarrow>
                     (let out = pc_outputs p ! input_index
                      in if \<not> sl_zatoshis_ok L (out_value out) then Err InvalidPreviousOutputAmount
                         else case sl_from_parts L (pc_tx p) st input_index script_code (lock_script out) (out_value out) of
                           None \<Rightarrow> Err (BundleInputCountMismatch input_index vin_len all_prev_outputs_len)
                         | Some parts \<Rightarrow> Ok (Some parts))))
      in case signable of
           Err e \<Rightarrow> Some (Err e)
         | Ok s \<Rightarrow>
             map_option Ok
               (sl_signature_hash L (pc_tx p) (input_amounts L (pc_outputs p)) (input_scriptpubkeys (pc_outputs p)) s))"

definition expect_ok :: "('e, 'a) result option \<Rightarrow> 'a option" where
  "expect_ok r = (case r of Some (Ok x) \<Rightarrow> Some x | _ \<Rightarrow> None)"

definition sighash ::
    "('tx, 'st, 'si) sighash_libs \<Rightarrow> 'tx precomputed_tx_data \<Rightarrow> hash_type \<Rightarrow> (nat \<times> bytes) option \<Rightarrow> bytes option" where
  "sighash L p hash_type input_index_script_code =
     Option.bind (sighash_type_try_from L hash_type) (\<lambda>st. expect_ok (sighash_inner L p st input_index_script_code))"

definition sighash_v4_raw ::
    "('tx, 'st, 'si) sighash_libs \<Rightarrow> 'tx precomputed_tx_data \<Rightarrow> byte \<Rightarrow> (nat \<times> bytes) option \<Rightarrow> bytes option" where
  "sighash_v4_raw L p raw_hash_type input_index_script_code =
     expect_ok (sighash_inner L p (sl_from_raw L raw_hash_type) input_index_script_code)"

text \<open>\<open>Transaction::sighash\<close>.\<close>

definition transaction_sighash ::
    "('tx, 'st, 'si) sighash_libs \<Rightarrow> crypto \<Rightarrow> transaction \<Rightarrow> network_upgrade \<Rightarrow> hash_type \<Rightarrow> tx_output list
     \<Rightarrow> (nat \<times> bytes) option \<Rightarrow> (lrz_failure, bytes option) result" where
  "transaction_sighash L cr tx nu hash_type all_previous_outputs input_index_script_code =
     result_bind (sighasher_new L cr tx nu all_previous_outputs) (\<lambda>p. Ok (sighash L p hash_type input_index_script_code))"

section \<open>Transparent inputs and outputs\<close>

definition MIN_TRANSPARENT_COINBASE_MATURITY :: u32 where "MIN_TRANSPARENT_COINBASE_MATURITY = 100"
definition ONE_THIRD_DUST_THRESHOLD_RATE :: nat where "ONE_THIRD_DUST_THRESHOLD_RATE = 100"

definition tx_coinbase_spend_restriction :: "transaction \<Rightarrow> chain_network \<Rightarrow> height \<Rightarrow> coinbase_spend_restriction" where
  "tx_coinbase_spend_restriction tx net h =
     (if tx_outputs tx = [] \<or> net_should_allow_unshielded_coinbase_spends net then CheckCoinbaseMaturity h
      else DisallowCoinbaseSpend)"

definition raw_lock_time :: "transaction \<Rightarrow> u32 option" where
  "raw_lock_time tx =
     (case write_lock_time (tx_lock_time_field tx) of
        Ok b \<Rightarrow> if length b = 4 then Some (word_of_nat (nat_of_le b)) else None
      | Err _ \<Rightarrow> None)"

fun input_miner_data :: "tx_input \<Rightarrow> bytes option" where
  "input_miner_data (Coinbase _ d _) = Some d"
| "input_miner_data (PrevOut _ _ _) = None"

fun input_sequence_number :: "tx_input \<Rightarrow> u32" where
  "input_sequence_number (PrevOut _ _ s) = s"
| "input_sequence_number (Coinbase _ _ s) = s"

definition input_value :: "(outpoint \<rightharpoonup> utxo) \<Rightarrow> tx_input \<Rightarrow> int option" where
  "input_value utxos i =
     (case input_outpoint i of
        Some out \<Rightarrow>
          Option.bind (utxos out) (\<lambda>u. value_from_outputs [out \<mapsto> ut_output u] i)
      | None \<Rightarrow> value_from_outputs Map.empty i)"

definition value_from_ordered_utxos :: "(outpoint \<rightharpoonup> ordered_utxo) \<Rightarrow> tx_input \<Rightarrow> int option" where
  "value_from_ordered_utxos utxos i =
     (case input_outpoint i of
        Some out \<Rightarrow>
          Option.bind (utxos out) (\<lambda>u. value_from_outputs [out \<mapsto> ut_output (ou_utxo u)] i)
      | None \<Rightarrow> value_from_outputs Map.empty i)"

definition outpoint_from_usize :: "bytes \<Rightarrow> nat \<Rightarrow> outpoint option" where
  "outpoint_from_usize hash index = map_option (\<lambda>i. \<lparr>op_hash = hash, op_index = i\<rparr>) (u32_try_from (int index))"

text \<open>The multiplication and the sum are on \<open>u32\<close> and wrap as in a release build; the size is that of the written output.\<close>

definition is_dust :: "tx_output \<Rightarrow> bool option" where
  "is_dust out =
     (case write_output out of
        Err _ \<Rightarrow> None
      | Ok b \<Rightarrow>
          Option.bind (u32_try_from (int (length b))) (\<lambda>output_size.
            let threshold = 3 * (word_of_nat ONE_THIRD_DUST_THRESHOLD_RATE * (output_size + 148) div 1000)
            in Some (out_value out < uint (threshold :: u32))))"

datatype output_index = OutputIndex (output_index_inner: u32)

definition output_index_from_usize :: "nat \<Rightarrow> output_index option" where
  "output_index_from_usize n = map_option OutputIndex (u32_try_from (int n))"

definition output_index_as_usize :: "output_index \<Rightarrow> nat" where "output_index_as_usize i = unat (output_index_inner i)"

definition output_index_from_u64 :: "u64 \<Rightarrow> output_index option" where
  "output_index_from_u64 n = map_option OutputIndex (u32_try_from (uint n))"

definition output_index_as_u64 :: "output_index \<Rightarrow> u64" where
  "output_index_as_u64 i = word_of_nat (unat (output_index_inner i))"

definition output_index_add_assign :: "output_index \<Rightarrow> u32 \<Rightarrow> output_index" where
  "output_index_add_assign i rhs = OutputIndex (output_index_inner i + rhs)"

section \<open>No panics for the documented calls\<close>

text \<open>
  librustzcash makes its hash types from the same bytes, accepts amounts up to \<open>MAX_MONEY\<close>, finds the
  input to sign exactly when the bundle has it, hashes whatever has amounts; the transparent bundle of
  a transaction has its inputs, and there is none when it has neither inputs nor outputs.
\<close>

definition sighash_documented :: "('tx, 'st, 'si) sighash_libs \<Rightarrow> crypto \<Rightarrow> bool" where
  "sighash_documented L cr \<longleftrightarrow>
     sl_ALL L = sl_from_raw L 0x01 \<and> sl_NONE L = sl_from_raw L 0x02 \<and> sl_SINGLE L = sl_from_raw L 0x03
   \<and> sl_ALL_ANYONECANPAY L = sl_from_raw L 0x81 \<and> sl_NONE_ANYONECANPAY L = sl_from_raw L 0x82
   \<and> sl_SINGLE_ANYONECANPAY L = sl_from_raw L 0x83
   \<and> (\<forall>v. sl_zatoshis_ok L v \<longleftrightarrow> 0 \<le> v \<and> v \<le> MAX_MONEY)
   \<and> (\<forall>t st i code script v. sl_from_parts L t st i code script v = None
        \<longleftrightarrow> (case sl_vin_len L t of None \<Rightarrow> True | Some n \<Rightarrow> n \<le> i))
   \<and> (\<forall>t amounts scripts s. sl_signature_hash L t (Some amounts) scripts s \<noteq> None)
   \<and> (\<forall>tx bs b. valid_tx cr tx \<longrightarrow> write_transaction cr tx = Ok bs \<longrightarrow> sl_vin_len L (sl_tx L bs b) =
        (if tx_inputs tx = [] \<and> tx_outputs tx = [] then None else Some (length (tx_inputs tx))))"

definition canonical_hash_types :: "hash_type set" where
  "canonical_hash_types = {0x01, 0x02, 0x03, 0x81, 0x82, 0x83}"

lemma sighash_type_documented:
  assumes "sighash_documented L cr"
  shows "sighash_type_try_from L ht =
    (if ht \<in> canonical_hash_types then Some (sl_from_raw L (ucast ht)) else None)"
proof -
  have v: "HASH_ALL = 0x01" "HASH_NONE = 0x02" "HASH_SINGLE = 0x03" "HASH_ALL_ANYONECANPAY = 0x81"
    "HASH_NONE_ANYONECANPAY = 0x82" "HASH_SINGLE_ANYONECANPAY = 0x83"
    by (simp_all add: HASH_ALL_def HASH_NONE_def HASH_SINGLE_def HASH_ANYONECANPAY_def HASH_ALL_ANYONECANPAY_def
        HASH_NONE_ANYONECANPAY_def HASH_SINGLE_ANYONECANPAY_def)
  show ?thesis using assms
    by (auto simp: sighash_type_try_from_def v canonical_hash_types_def sighash_documented_def)
qed

lemma input_amounts_valid:
  assumes "sighash_documented L cr" "list_all (\<lambda>out. valid_amount NonNegative (out_value out)) outs"
  shows "input_amounts L outs = Some (map out_value outs)"
proof -
  have z: "sl_zatoshis_ok L v \<longleftrightarrow> 0 \<le> v \<and> v \<le> MAX_MONEY" for v
    using assms(1) unfolding sighash_documented_def by blast
  show ?thesis using assms(2) by (induction outs) (simp_all add: input_amounts_def z)
qed

text \<open>
  C39. With the outputs its inputs spend, all of valid amounts, the signature hash of a valid transaction is
  there exactly for the six canonical hash types and for shielded inputs or an input the transaction
  has; everything else panics. For these types it is the raw one of the same byte.
\<close>

theorem signature_hashes_for_canonical_calls:
  assumes doc: "sighash_documented L cr" and tx: "valid_tx cr tx" and p: "sighasher_new L cr tx nu outs = Ok p"
    and outs: "length outs = length (tx_inputs tx)"
      "list_all (\<lambda>out. valid_amount NonNegative (out_value out)) outs"
  shows "(sighash L p ht arg \<noteq> None \<longleftrightarrow>
      ht \<in> canonical_hash_types \<and> (case arg of None \<Rightarrow> True | Some (i, _) \<Rightarrow> i < length (tx_inputs tx)))
    \<and> (ht \<in> canonical_hash_types \<longrightarrow> sighash L p ht arg = sighash_v4_raw L p (ucast ht) arg)"
proof -
  from p obtain bs b where w: "write_transaction cr tx = Ok bs" "p = \<lparr>pc_tx = sl_tx L bs b, pc_outputs = outs\<rparr>"
    by (auto simp: sighasher_new_def precomputed_new_def result_bind_Ok_iff split: sum.splits option.splits)
  have vin: "sl_vin_len L (pc_tx p) =
      (if tx_inputs tx = [] \<and> tx_outputs tx = [] then None else Some (length (tx_inputs tx)))"
    using doc w tx unfolding sighash_documented_def by simp
  have parts: "sl_from_parts L t st i code script v = None
      \<longleftrightarrow> (case sl_vin_len L t of None \<Rightarrow> True | Some n \<Rightarrow> n \<le> i)" for t st i code script v
    using doc unfolding sighash_documented_def by blast
  have z: "sl_zatoshis_ok L v \<longleftrightarrow> valid_amount NonNegative v" for v
    using doc unfolding sighash_documented_def by simp
  have h: "\<exists>x. sl_signature_hash L t (Some amounts) scripts s = Some x" for t amounts scripts s
    using doc unfolding sighash_documented_def by blast
  have amounts: "input_amounts L outs = Some (map out_value outs)" by (rule input_amounts_valid [OF doc outs(2)])
  have inner: "expect_ok (sighash_inner L p st arg) \<noteq> None \<longleftrightarrow>
      (case arg of None \<Rightarrow> True | Some (i, _) \<Rightarrow> i < length (tx_inputs tx))" for st
  proof (cases arg)
    case None
    then show ?thesis using h by (auto simp: sighash_inner_def expect_ok_def amounts w(2) split: option.splits)
  next
    case (Some a)
    obtain i code where a: "a = (i, code)" by (cases a)
    show ?thesis
    proof (cases "i < length (tx_inputs tx)")
      case True
      then have "valid_amount NonNegative (out_value (outs ! i))" using outs by (simp add: list_all_length)
      moreover have n: "sl_vin_len L (pc_tx p) = Some (length (tx_inputs tx))" using vin True by auto
      moreover from parts [of "pc_tx p" st i code "lock_script (outs ! i)" "out_value (outs ! i)"] n True
      obtain si where "sl_from_parts L (pc_tx p) st i code (lock_script (outs ! i)) (out_value (outs ! i)) = Some si"
        by auto
      moreover obtain x where "sl_signature_hash L (pc_tx p) (Some (map out_value outs)) (input_scriptpubkeys outs) (Some si) = Some x"
        using h by blast
      ultimately show ?thesis using True
        by (simp add: sighash_inner_def expect_ok_def amounts Some a outs(1) z w(2) del: valid_amount_simps)
    next
      case False
      then show ?thesis by (simp add: sighash_inner_def expect_ok_def Some a outs(1) w(2))
    qed
  qed
  show ?thesis
    using inner [of "sl_from_raw L (ucast ht)"]
    by (simp add: sighash_def sighash_v4_raw_def sighash_type_documented [OF doc])
qed

section \<open>Values and dust\<close>

text \<open>An input's value is the same from outputs, from unspent outputs and from ordered ones.\<close>

lemma input_values_agree:
  "input_value utxos i = value_from_outputs (outputs_from_utxos utxos) i"
  "value_from_ordered_utxos ordered i = input_value (utxos_from_ordered_utxos ordered) i"
proof -
  show "input_value utxos i = value_from_outputs (outputs_from_utxos utxos) i"
    by (cases i; cases "utxos (prev_outpoint i)")
      (simp_all add: input_value_def value_from_outputs_def outputs_from_utxos_def)
  show "value_from_ordered_utxos ordered i = input_value (utxos_from_ordered_utxos ordered) i"
    by (cases i; cases "ordered (prev_outpoint i)")
      (simp_all add: input_value_def value_from_ordered_utxos_def utxos_from_ordered_utxos_def)
qed

text \<open>Nothing overflows in the dust limit of an output of less than 40 million bytes.\<close>

lemma dust_limit_is_exact:
  assumes "write_output out = Ok b" "length b < 40000000"
  shows "is_dust out = Some (out_value out < 3 * ((int (length b) + 148) * 100 div 1000))"
proof -
  let ?n = "word_of_nat (length b) :: u32"
  have n: "unat ?n = length b" using assms(2) by (simp add: unsigned_of_nat take_bit_nat_eq_self)
  define k where "k = (100 * (?n + 148) :: u32)"
  have k: "unat k = 100 * (length b + 148)"
  proof -
    have "k = word_of_nat (100 * (length b + 148))" by (simp add: k_def)
    then show ?thesis using assms(2) by (simp only: unsigned_of_nat) (simp add: take_bit_nat_eq_self)
  qed
  have d: "unat (k div 1000) = unat k div 1000" by (simp add: unat_div)
  have "k div 1000 = word_of_nat (unat k div 1000)" unfolding d [symmetric] by simp
  then have "3 * (k div 1000) = word_of_nat (3 * (unat k div 1000))" by simp
  moreover have "3 * (unat k div 1000) < 2 ^ 32" using assms(2) by (simp add: k)
  ultimately have t: "uint (3 * (k div 1000)) = 3 * (int (unat k) div 1000)"
    by (simp only: unsigned_of_nat) (simp add: take_bit_nat_eq_self zdiv_int)
  have "u32_try_from (int (length b)) = Some ?n" using assms(2) by (simp add: u32_try_from_def)
  moreover have "word_of_nat ONE_THIRD_DUST_THRESHOLD_RATE * (?n + 148) = k"
    by (simp add: ONE_THIRD_DUST_THRESHOLD_RATE_def k_def)
  moreover have "uint (3 * (k div 1000)) = 3 * ((int (length b) + 148) * 100 div 1000)"
    unfolding t k by simp
  ultimately show ?thesis by (simp only: is_dust_def assms(1) Option.bind.simps Let_def sum.case)
qed

section \<open>Instances\<close>

definition demo_sighash :: "(nat option, byte, nat) sighash_libs" where
  "demo_sighash =
     \<lparr>sl_tx = \<lambda>bs _. (case read_transaction demo_crypto bs of
          Err _ \<Rightarrow> None
        | Ok (tx, _) \<Rightarrow> if tx_inputs tx = [] \<and> tx_outputs tx = [] then None else Some (length (tx_inputs tx))),
      sl_vin_len = id, sl_from_raw = id, sl_ALL = 0x01, sl_NONE = 0x02, sl_SINGLE = 0x03,
      sl_ALL_ANYONECANPAY = 0x81, sl_NONE_ANYONECANPAY = 0x82, sl_SINGLE_ANYONECANPAY = 0x83,
      sl_zatoshis_ok = \<lambda>v. 0 \<le> v \<and> v \<le> MAX_MONEY,
      sl_from_parts = \<lambda>t st i _ _ _. (case t of None \<Rightarrow> None | Some n \<Rightarrow> if n \<le> i then None else Some (unat st)),
      sl_signature_hash = \<lambda>_ amounts _ s. map_option (\<lambda>_. case s of None \<Rightarrow> [0] | Some n \<Rightarrow> [1, word_of_nat n]) amounts\<rparr>"

lemma demo_sighash_documented: "sighash_documented demo_sighash demo_crypto"
proof -
  have "sl_vin_len demo_sighash (sl_tx demo_sighash bs b) =
      (if tx_inputs tx = [] \<and> tx_outputs tx = [] then None else Some (length (tx_inputs tx)))"
    if "valid_tx demo_crypto tx" "write_transaction demo_crypto tx = Ok bs" for tx bs b
  proof -
    have "read_transaction demo_crypto (bs @ []) = Ok (tx, [])"
      using that by (auto simp: read_transaction_iff [OF demo_bip34] valid_tx_def simp del: append_Nil2)
    then show ?thesis by (simp add: demo_sighash_def)
  qed
  then show ?thesis
    by (auto simp: sighash_documented_def demo_sighash_def split: option.splits)
qed

definition demo_spending :: transaction where
  "demo_spending = V1 [PrevOut \<lparr>op_hash = replicate 32 1, op_index = 0\<rparr> [] 0] [] (LockHeight (Height 0))"

lemma demo_spending_valid: "valid_tx demo_crypto demo_spending"
proof -
  have "write_csm 1 = Ok [1]" "write_csm 0 = Ok [0]"
    by (simp_all add: write_csm_def write_compact64_def write_u8_def MAX_PROTOCOL_MESSAGE_LEN_def)
  then have "write_inputs demo_crypto [PrevOut \<lparr>op_hash = replicate 32 1, op_index = 0\<rparr> [] 0]
      = Ok ([1] @ (replicate 32 1 @ [0,0,0,0]) @ [0] @ [0,0,0,0])"
    by (simp add: write_inputs_def write_vec_def csm_try_from_def MAX_PROTOCOL_MESSAGE_LEN_def write_external_count_def
        write_outpoint_def write_all_def write_u32_small write_script_def write_bytes_def)
  then have "\<exists>b. write_transaction demo_crypto demo_spending = Ok b \<and> length b \<le> MAX_BLOCK_BYTES"
    by (simp add: demo_spending_def write_transaction_def tx_header_def write_u32_small write_outputs_def
      write_vec_Nil write_empty_list_eq MAX_BLOCK_BYTES_def)
  moreover have "(replicate 32 1 :: bytes) \<noteq> replicate 32 0" by (simp add: replicate_eq_replicate)
  ultimately show ?thesis
    by (simp add: valid_tx_def demo_spending_def valid_fields_def valid_inputs_def valid_outputs_def
        lrz_accepts_def LOCK_MIN_TIMESTAMP_def input_max_allocation_def MIN_TRANSPARENT_INPUT_SIZE_def
        MAX_BLOCK_BYTES_def)
qed

lemma signature_hashes_for_canonical_calls_witness:
  "\<exists>p. sighasher_new demo_sighash demo_crypto demo_spending Sapling [\<lparr>out_value = 10, lock_script = []\<rparr>] = Ok p
    \<and> sighash demo_sighash p HASH_ALL (Some (0, [])) \<noteq> None \<and> sighash demo_sighash p HASH_ALL (Some (1, [])) = None
    \<and> sighash demo_sighash p 0x41 None = None"
proof -
  obtain bs where w: "write_transaction demo_crypto demo_spending = Ok bs"
    using demo_spending_valid by (auto simp: valid_tx_def)
  obtain b where b: "branch_id Sapling = Some b" by (simp add: branch_id_table)
  obtain p where p: "sighasher_new demo_sighash demo_crypto demo_spending Sapling [\<lparr>out_value = 10, lock_script = []\<rparr>] = Ok p"
    using w b by (simp add: sighasher_new_def precomputed_new_def to_librustzcash_def demo_spending_def demo_crypto_def)
  have "length [\<lparr>out_value = 10, lock_script = []\<rparr>] = length (tx_inputs demo_spending)"
    "list_all (\<lambda>out. valid_amount NonNegative (out_value out)) [\<lparr>out_value = 10, lock_script = []\<rparr>]"
    by (simp_all add: demo_spending_def money)
  note at = signature_hashes_for_canonical_calls [OF demo_sighash_documented demo_spending_valid p this, THEN conjunct1]
  have "sighash demo_sighash p HASH_ALL (Some (0, [])) \<noteq> None"
    unfolding at by (simp add: canonical_hash_types_def HASH_ALL_def demo_spending_def)
  moreover have "sighash demo_sighash p HASH_ALL (Some (1, [])) = None"
    using at [of HASH_ALL "Some (1, [])"] by (simp add: demo_spending_def)
  moreover have "sighash demo_sighash p 0x41 None = None"
    using at [of "0x41" None] by (simp add: canonical_hash_types_def)
  ultimately show ?thesis using p by blast
qed

end
