(* ===== verification/TxIds.thy ===== *)
theory TxIds
  imports Mempool
begin

text \<open>
  The text and binary forms of witnessed ids and authorizing digests (\<open>transaction/hash.rs\<close>,
  \<open>transaction/auth_digest.rs\<close>), serialized transactions (\<open>transaction/serialize.rs\<close>) and the
  Merkle roots over what the mempool keeps of transactions (\<open>block/merkle.rs\<close>).
\<close>

section \<open>UTF-8\<close>

text \<open>
  \<open>str::from_utf8\<close> of the standard library: how far the bytes are valid and the length of the invalid
  sequence, \<open>None\<close> where the bytes end inside one.
\<close>

definition is_continuation :: "nat \<Rightarrow> bool" where
  "is_continuation b \<longleftrightarrow> 0x80 \<le> b \<and> b \<le> 0xBF"

text \<open>The bytes that may follow the first byte of a sequence of three or four.\<close>

definition second_byte_ok :: "nat \<Rightarrow> nat \<Rightarrow> bool" where
  "second_byte_ok first b \<longleftrightarrow>
     (if first = 0xE0 then 0xA0 \<le> b \<and> b \<le> 0xBF
      else if first = 0xED then 0x80 \<le> b \<and> b \<le> 0x9F
      else if first = 0xF0 then 0x90 \<le> b \<and> b \<le> 0xBF
      else if first = 0xF4 then 0x80 \<le> b \<and> b \<le> 0x8F
      else is_continuation b)"

definition sequence_length :: "nat \<Rightarrow> nat option" where
  "sequence_length b =
     (if b < 0x80 then Some 1 else if 0xC2 \<le> b \<and> b \<le> 0xDF then Some 2
      else if 0xE0 \<le> b \<and> b \<le> 0xEF then Some 3 else if 0xF0 \<le> b \<and> b \<le> 0xF4 then Some 4 else None)"

text \<open>The bytes after the first of a sequence of \<open>n\<close>: \<open>None\<close> when they complete it.\<close>

definition sequence_error :: "nat \<Rightarrow> nat \<Rightarrow> nat list \<Rightarrow> nat option option" where
  "sequence_error n first rest =
     (let bad = (\<lambda>i. if i = 1 then \<not> second_byte_ok first (rest ! 0) else \<not> is_continuation (rest ! (i - 1)))
      in case find (\<lambda>i. length rest < i \<or> bad i) [1..<n] of
           None \<Rightarrow> None
         | Some i \<Rightarrow> Some (if length rest < i then None else Some i))"

fun utf8_error :: "nat \<Rightarrow> nat \<Rightarrow> nat list \<Rightarrow> (nat \<times> nat option) option" where
  "utf8_error 0 index bs = None"
| "utf8_error (Suc fuel) index [] = None"
| "utf8_error (Suc fuel) index (b # bs) =
     (case sequence_length b of
        None \<Rightarrow> Some (index, Some 1)
      | Some n \<Rightarrow>
          (case sequence_error n b bs of
             Some e \<Rightarrow> Some (index, e)
           | None \<Rightarrow> utf8_error fuel (index + n) (drop (n - 1) bs)))"

definition from_utf8 :: "string \<Rightarrow> (ser_error, string) result" where
  "from_utf8 s =
     (case utf8_error (length s) 0 (map of_char s) of
        None \<Rightarrow> Ok s
      | Some (valid_up_to, Some error_len) \<Rightarrow>
          Err (Utf8Error (''invalid utf-8 sequence of '' @ show_nat error_len @ '' bytes from index '' @ show_nat valid_up_to))
      | Some (valid_up_to, None) \<Rightarrow>
          Err (Utf8Error (''incomplete utf-8 byte sequence from index '' @ show_nat valid_up_to)))"

section \<open>Ids as text and bytes\<close>

definition auth_digest_from_str :: "hashing \<Rightarrow> string \<Rightarrow> (ser_error, bytes) result" where
  "auth_digest_from_str hs s =
     (case hex_decode hs s of
        Some b \<Rightarrow> if length b = 32 then Ok (rev b) else Err (Parse ''hex decoding error'')
      | None \<Rightarrow> Err (Parse ''hex decoding error''))"

definition display_auth_digest :: "hashing \<Rightarrow> bytes \<Rightarrow> string" where
  "display_auth_digest hs d = hex_encode hs (bytes_in_display_order d)"

definition wtx_id_from_str :: "hashing \<Rightarrow> string \<Rightarrow> (ser_error, wtx_id) result" where
  "wtx_id_from_str hs s =
     (if length s = 128 then
        result_bind (from_utf8 (take 64 s)) (\<lambda>id.
        result_bind (from_utf8 (drop 64 s)) (\<lambda>auth_digest.
        result_bind (hash_from_str hs id) (\<lambda>id.
        result_bind (auth_digest_from_str hs auth_digest) (\<lambda>auth_digest.
          Ok \<lparr>wtx_tx_id = id, wtx_auth_digest = auth_digest\<rparr>))))
      else Err (Parse ''wrong length for WtxId hex string''))"

definition write_wtx_id :: "wtx_id writer" where "write_wtx_id w = write_all (wtx_to_bytes w)"

definition read_wtx_id :: "wtx_id parser" where
  "read_wtx_id = pbind read_64_bytes (\<lambda>b. preturn (wtx_from_bytes b))"

definition write_auth_digest :: "bytes writer" where "write_auth_digest d = write_all d"
definition read_auth_digest :: "bytes parser" where "read_auth_digest = pbind read_32_bytes preturn"

definition auth_digest_try_from :: "bytes \<Rightarrow> bytes option" where
  "auth_digest_try_from b = (if length b = 32 then Some b else None)"

section \<open>Serialized transactions\<close>

definition serialized_transaction :: "crypto \<Rightarrow> transaction \<Rightarrow> bytes option" where
  "serialized_transaction cr tx = (case write_transaction cr tx of Ok b \<Rightarrow> Some b | Err _ \<Rightarrow> None)"

definition display_serialized_transaction :: "hashing \<Rightarrow> bytes \<Rightarrow> string" where
  "display_serialized_transaction hs b = hex_encode hs b"

text \<open>\<open>Debug\<close>; \<open>replace_range(500..=end)\<close> takes the character at \<open>end\<close> away too.\<close>

definition debug_serialized_transaction :: "hashing \<Rightarrow> bytes \<Rightarrow> string" where
  "debug_serialized_transaction hs b =
     (let data = hex_encode hs b;
          data_truncated =
            (if length data > 1003 then take 500 data @ ''...'' @ drop (length data - 500 + 1) data else data)
      in ''SerializedTransaction('' @ [char_of (34 :: nat)] @ data_truncated @ [char_of (34 :: nat)] @ '')'')"

definition serialized_transaction_from_hex :: "hashing \<Rightarrow> string \<Rightarrow> bytes option" where
  "serialized_transaction_from_hex hs s = hex_decode hs s"

section \<open>Roots over the mempool\<close>

definition merkle_root_of_ids :: "hashing \<Rightarrow> unmined_tx_id list \<Rightarrow> bytes option" where
  "merkle_root_of_ids hs tx_ids = merkle_root hs (map mined_id tx_ids)"

definition merkle_root_of_unmined :: "hashing \<Rightarrow> unmined_tx list \<Rightarrow> bytes option" where
  "merkle_root_of_unmined hs transactions = merkle_root hs (map (\<lambda>tx. mined_id (ut_id tx)) transactions)"

definition merkle_root_of_verified :: "hashing \<Rightarrow> verified_unmined_tx list \<Rightarrow> bytes option" where
  "merkle_root_of_verified hs transactions =
     merkle_root hs (map (\<lambda>tx. mined_id (ut_id (vt_transaction tx))) transactions)"

definition or_placeholder :: "bytes option \<Rightarrow> bytes" where
  "or_placeholder d = (case d of Some h \<Rightarrow> h | None \<Rightarrow> AUTH_DIGEST_PLACEHOLDER)"

definition auth_data_root_of_ids :: "auth_hashing \<Rightarrow> unmined_tx_id list \<Rightarrow> bytes option" where
  "auth_data_root_of_ids ah tx_ids = auth_data_root ah (map (\<lambda>tx_id. or_placeholder (unmined_auth_digest tx_id)) tx_ids)"

definition auth_data_root_of_unmined :: "auth_hashing \<Rightarrow> unmined_tx list \<Rightarrow> bytes option" where
  "auth_data_root_of_unmined ah transactions =
     auth_data_root ah (map (\<lambda>tx. or_placeholder (unmined_auth_digest (ut_id tx))) transactions)"

definition auth_data_root_of_verified :: "auth_hashing \<Rightarrow> verified_unmined_tx list \<Rightarrow> bytes option" where
  "auth_data_root_of_verified ah transactions =
     auth_data_root ah (map (\<lambda>tx. or_placeholder (unmined_auth_digest (ut_id (vt_transaction tx)))) transactions)"

section \<open>The roots agree\<close>

lemma unmined_tx_id_parts:
  assumes "unmined_tx_id_of hs ah cr tx = Some u"
  shows "tx_hash hs cr tx = Some (mined_id u)" "auth_digest ah cr tx = Some (unmined_auth_digest u)"
  using assms
  by (cases tx; auto simp: unmined_tx_id_of_def wtx_id_of_def auth_digest_def split: option.splits)+

lemma unmined_tx_parts:
  assumes "unmined_tx_of dc hs ah cr tx = Some u"
  shows "ut_transaction u = tx" "unmined_tx_id_of hs ah cr tx = Some (ut_id u)"
  using assms by (auto simp: unmined_tx_of_def split: option.splits)

lemma unmined_all_parts:
  assumes "map (unmined_tx_of dc hs ah cr) txs = map Some us"
  shows "those (map (tx_hash hs cr) txs) = Some (map (\<lambda>u. mined_id (ut_id u)) us)"
    "those (map (auth_digest ah cr) txs) = Some (map (\<lambda>u. unmined_auth_digest (ut_id u)) us)"
proof -
  have "those (map (tx_hash hs cr) txs) = Some (map (\<lambda>u. mined_id (ut_id u)) us)
    \<and> those (map (auth_digest ah cr) txs) = Some (map (\<lambda>u. unmined_auth_digest (ut_id u)) us)"
    using assms
  proof (induction txs arbitrary: us)
    case (Cons tx txs)
    then obtain u us' where us: "us = u # us'" "unmined_tx_of dc hs ah cr tx = Some u"
      "map (unmined_tx_of dc hs ah cr) txs = map Some us'" by (cases us) auto
    from unmined_tx_id_parts [OF unmined_tx_parts(2) [OF us(2)]] Cons.IH [OF us(3)] us(1)
    show ?case by simp
  qed simp
  then show "those (map (tx_hash hs cr) txs) = Some (map (\<lambda>u. mined_id (ut_id u)) us)"
    "those (map (auth_digest ah cr) txs) = Some (map (\<lambda>u. unmined_auth_digest (ut_id u)) us)" by auto
qed

text \<open>
  A template made of what the mempool keeps has the block's roots. For transactions that became
  unmined ones, the two Merkle roots computed from their ids, from the unmined transactions or
  from the verified ones are those of the transactions themselves: the root of the ids, and that
  of the authorizing digests with the placeholder for versions before 5.
\<close>

theorem mempool_roots_are_the_blocks:
  assumes "map (unmined_tx_of dc hs ah cr) txs = map Some us" "map vt_transaction vs = us"
  shows "merkle_root_of_unmined hs us = merkle_root_of_transactions hs cr txs
    \<and> merkle_root_of_verified hs vs = merkle_root_of_transactions hs cr txs
    \<and> merkle_root_of_ids hs (map ut_id us) = merkle_root_of_transactions hs cr txs
    \<and> auth_data_root_of_unmined ah us = auth_data_root_of_transactions ah cr txs
    \<and> auth_data_root_of_verified ah vs = auth_data_root_of_transactions ah cr txs
    \<and> auth_data_root_of_ids ah (map ut_id us) = auth_data_root_of_transactions ah cr txs"
  unfolding assms(2) [symmetric] merkle_root_of_unmined_def merkle_root_of_verified_def merkle_root_of_ids_def
    auth_data_root_of_unmined_def auth_data_root_of_verified_def auth_data_root_of_ids_def
    merkle_root_of_transactions_def auth_data_root_of_transactions_def
    unmined_all_parts [OF assms(1) [unfolded assms(2) [symmetric]]]
  by (simp add: comp_def or_placeholder_def)

section \<open>Ids survive their text and byte forms\<close>

text \<open>The \<open>hex\<close> crate decodes what it encodes.\<close>

definition hex_documented :: "hashing \<Rightarrow> bool" where
  "hex_documented hs \<longleftrightarrow> (\<forall>b. hex_decode hs (hex_string b) = Some b)"

lemma hex_digit_ascii: "n < 16 \<Longrightarrow> of_char (hex_digit n) < (0x80 :: nat)"
  by (simp add: hex_digit_def)

lemma hex_string_ascii: "list_all (\<lambda>c. of_char c < (0x80 :: nat)) (hex_string b)"
proof -
  have d: "unat x div 16 < 16" "unat x mod 16 < 16" for x :: byte
    using unsigned_less [of x, where 'a = nat] by simp_all
  show ?thesis by (induction b) (simp_all add: hex_string_def hex_byte_def hex_digit_ascii d)
qed

lemma ascii_utf8: "list_all (\<lambda>b. b < 0x80) bs \<Longrightarrow> utf8_error fuel index bs = None"
  by (induction fuel index bs rule: utf8_error.induct) (simp_all add: sequence_length_def sequence_error_def)

lemma hex_string_utf8: "from_utf8 (hex_string b) = Ok (hex_string b)"
  using hex_string_ascii [of b] by (simp add: from_utf8_def ascii_utf8 list.pred_map comp_def)

lemma wtx_ids_survive_text:
  assumes "hashing_ok hs" "hex_documented hs" "length (wtx_tx_id w) = 32" "length (wtx_auth_digest w) = 32"
  shows "length (display_wtx_id hs w) = 128 \<and> wtx_id_from_str hs (display_wtx_id hs w) = Ok w"
  using assms
  by (simp add: display_wtx_id_def display_hash_def wtx_id_from_str_def hashing_ok_def hex_documented_def
      hash_from_str_def auth_digest_from_str_def bytes_in_display_order_def hex_string_utf8)

lemma wtx_bytes:
  assumes "length (wtx_tx_id w) = 32" "length (wtx_auth_digest w) = 32"
  shows "wtx_to_bytes w = wtx_tx_id w @ wtx_auth_digest w" "wtx_from_bytes (wtx_tx_id w @ wtx_auth_digest w) = w"
  using assms by (simp_all add: wtx_to_bytes_def wtx_from_bytes_def write_at_def slice_def)

lemma wtx_from_bytes_parts:
  assumes "length b = 64"
  shows "length (wtx_tx_id (wtx_from_bytes b)) = 32" "length (wtx_auth_digest (wtx_from_bytes b)) = 32"
    "b = wtx_tx_id (wtx_from_bytes b) @ wtx_auth_digest (wtx_from_bytes b)"
  using assms by (simp_all add: wtx_from_bytes_def slice_def)

interpretation codec_wtx_id: codec write_wtx_id read_wtx_id
    "\<lambda>w. length (wtx_tx_id w) = 32 \<and> length (wtx_auth_digest w) = 32"
proof unfold_locales
  fix w :: wtx_id assume "length (wtx_tx_id w) = 32 \<and> length (wtx_auth_digest w) = 32"
  then show "\<exists>b. write_wtx_id w = Ok b \<and> (\<forall>rest. read_wtx_id (b @ rest) = Ok (w, rest))"
    by (simp add: write_wtx_id_def read_wtx_id_def write_all_def wtx_bytes pbind_def read_64_bytes_def
        read_exact_def preturn_def)
next
  fix bs rest and w :: wtx_id assume "read_wtx_id bs = Ok (w, rest)"
  then obtain b where "length b = 64" "bs = b @ rest" "w = wtx_from_bytes b"
    by (auto simp: read_wtx_id_def pbind_Ok_iff read_64_bytes_def read_exact_Ok_iff preturn_def)
  then show "(length (wtx_tx_id w) = 32 \<and> length (wtx_auth_digest w) = 32)
      \<and> (\<exists>b. write_wtx_id w = Ok b \<and> bs = b @ rest)"
    using wtx_from_bytes_parts [of b] wtx_bytes [of w] by (simp add: write_wtx_id_def write_all_def)
qed

interpretation codec_auth_digest: codec write_auth_digest read_auth_digest "\<lambda>d. length d = 32"
  by unfold_locales
    (auto simp: write_auth_digest_def read_auth_digest_def write_all_def pbind_def read_32_bytes_def
      read_exact_def preturn_def split: if_splits sum.splits)

text \<open>A long transaction is shown with 500 characters before the dots and 499 after them.\<close>

lemma debug_shows_both_ends:
  assumes "hashing_ok hs" "502 \<le> length b"
  shows "\<exists>first last. debug_serialized_transaction hs b =
      ''SerializedTransaction('' @ [char_of (34 :: nat)] @ first @ ''...'' @ last @ [char_of (34 :: nat)] @ '')''
    \<and> length first = 500 \<and> length last = 499"
proof -
  have h: "hex_encode hs b = hex_string b" using assms(1) by (simp add: hashing_ok_def)
  have "length (drop (2 * length b - 500 + 1) (hex_string b)) = 499" "1003 < 2 * length b" using assms(2) by simp_all
  then show ?thesis using assms(2)
    by (intro exI [of _ "take 500 (hex_string b)"] exI [of _ "drop (2 * length b - 500 + 1) (hex_string b)"])
      (simp add: debug_serialized_transaction_def Let_def h)
qed

text \<open>A concrete pool of one transaction.\<close>

lemma mempool_roots_are_the_blocks_witness:
  "\<exists>u. unmined_tx_of (\<lambda>a b. (a + b - 1) div b) demo_hashing demo_auth demo_crypto demo_tx = Some u
    \<and> merkle_root_of_unmined demo_hashing [u] = merkle_root_of_transactions demo_hashing demo_crypto [demo_tx]
    \<and> auth_data_root_of_unmined demo_auth [u] = auth_data_root_of_transactions demo_auth demo_crypto [demo_tx]"
proof -
  have c: "ceiling_documented (\<lambda>a b. (a + b - 1) div b)" by (simp add: ceiling_documented_def)
  obtain u n where u: "unmined_tx_of (\<lambda>a b. (a + b - 1) div b) demo_hashing demo_auth demo_crypto demo_tx = Some u"
    "ut_transaction u = demo_tx" "conventional_actions (\<lambda>a b. (a + b - 1) div b) demo_crypto demo_tx = Some n"
    "2 \<le> n" "n < 2 ^ 32" "ut_conventional_fee u = 5000 * int n" "ut_size u \<le> MAX_BLOCK_BYTES"
    "tx_hash demo_hashing demo_crypto demo_tx = Some (mined_id (ut_id u))"
    by (rule unmined_tx_total [OF demo_bip34 demo_hashing_ok c demo_tx_facts(1)])
  define v where "v = \<lparr>vt_transaction = u, vt_miner_fee = 0, vt_legacy_sigop_count = 0, vt_p2sh_sigop_count = 0,
    vt_conventional_actions = 2, vt_unpaid_actions = 0, vt_time = None, vt_height = None, vt_spent_outputs = []\<rparr>"
  have "map (unmined_tx_of (\<lambda>a b. (a + b - 1) div b) demo_hashing demo_auth demo_crypto) [demo_tx] = map Some [u]"
    "map vt_transaction [v] = [u]" by (simp_all only: list.map u(1) v_def verified_unmined_tx.simps)
  from mempool_roots_are_the_blocks [OF this] u(1) show ?thesis by blast
qed

end
