(* ===== verification/Binding.thy ===== *)
theory Binding
  imports TxIds
begin

text \<open>
  Value commitments and the keys that check a shielded bundle (\<open>orchard/commitment.rs\<close>,
  \<open>binding_verification_key\<close> of \<open>sapling/shielded_data.rs\<close> and \<open>orchard/shielded_data.rs\<close>), the points
  diversifiers stand for and the keys of an address (\<open>sapling/keys.rs\<close>, \<open>orchard/keys.rs\<close>), and the
  notes and nullifiers (\<open>orchard/note.rs\<close>, \<open>sapling/note/nullifiers.rs\<close>, \<open>sprout/commitment.rs\<close>). The
  curves are parameters: their points form an abelian group, their scalars and coordinates a
  commutative ring.
\<close>

section \<open>Randomness\<close>

text \<open>\<open>try_fill_bytes\<close> on a buffer of the given length, with the state of the generator.\<close>

type_synonym 'r csprng = "'r \<Rightarrow> nat \<Rightarrow> bytes option \<times> 'r"

datatype rand_error = FillBytes
datatype note_error = NoteRandomness rand_error | InvalidRho
datatype address_error = AddressRandomness rand_error | DiversifierGenerationFailure

definition fill_bytes :: "'r csprng \<Rightarrow> nat \<Rightarrow> 'r \<Rightarrow> (rand_error, bytes) result \<times> 'r" where
  "fill_bytes fill n r = (case fill r n of (None, r') \<Rightarrow> (Err FillBytes, r') | (Some bs, r') \<Rightarrow> (Ok bs, r'))"

section \<open>The Pallas curve\<close>

record ('s, 'p, 'b) pallas =
  pa_mul :: "'p \<Rightarrow> 's \<Rightarrow> 'p"
  pa_to_bytes :: "'p \<Rightarrow> bytes"
  pa_from_bytes :: "bytes \<Rightarrow> 'p option"
  pa_hash_to_curve :: "bytes \<Rightarrow> bytes \<Rightarrow> 'p"
  pa_from_uniform :: "bytes \<Rightarrow> 's"
  pa_coordinate_x :: "'p \<Rightarrow> 'b option"
  pa_base_from_repr :: "bytes \<Rightarrow> 'b option"

text \<open>\<open>None\<close> is the panic of a domain separator that is not UTF-8.\<close>

definition pallas_group_hash :: "('s, 'p, 'b) pallas \<Rightarrow> bytes \<Rightarrow> bytes \<Rightarrow> 'p option" where
  "pallas_group_hash P D M =
     (case utf8_error (length D) 0 (map unat D) of
        Some e \<Rightarrow> None
      | None \<Rightarrow> Some (pa_hash_to_curve P D M))"

definition extract_p :: "('s, 'p, 'b::zero) pallas \<Rightarrow> 'p \<Rightarrow> 'b" where
  "extract_p P point = (case pa_coordinate_x P point of Some x \<Rightarrow> x | None \<Rightarrow> 0)"

section \<open>Value commitments\<close>

text \<open>\<open>From<Amount>\<close> for the scalars of Jubjub and of Pallas; \<open>None\<close> is one of its panics.\<close>

definition scalar_of_amount :: "int \<Rightarrow> 's::comm_ring_1 option" where
  "scalar_of_amount a =
     (if a < 0
      then (if in_i128 (- a) \<and> in_u64 (- a) then Some (- of_nat (nat (- a))) else None)
      else (if in_u64 a then Some (of_nat (nat a)) else None))"

definition cv_domain :: bytes where "cv_domain = map of_char ''z.cash:Orchard-cv''"

definition value_base :: "('s, 'p, 'b) pallas \<Rightarrow> 'p option" where
  "value_base P = pallas_group_hash P cv_domain (map of_char ''v'')"

definition randomness_base :: "('s, 'p, 'b) pallas \<Rightarrow> 'p option" where
  "randomness_base P = pallas_group_hash P cv_domain (map of_char ''r'')"

definition value_commitment_new ::
  "('s::comm_ring_1, 'p::ab_group_add, 'b) pallas \<Rightarrow> 's \<Rightarrow> int \<Rightarrow> 'p option" where
  "value_commitment_new P rcv val =
     (case (scalar_of_amount val, value_base P, randomness_base P) of
        (Some v, Some V, Some R) \<Rightarrow> Some (pa_mul P V v + pa_mul P R rcv)
      | _ \<Rightarrow> None)"

definition generate_trapdoor :: "('s, 'p, 'b) pallas \<Rightarrow> 'r csprng \<Rightarrow> 'r \<Rightarrow> (rand_error, 's) result \<times> 'r" where
  "generate_trapdoor P fill r =
     (case fill_bytes fill 64 r of
        (Err e, r') \<Rightarrow> (Err e, r')
      | (Ok bs, r') \<Rightarrow> (Ok (pa_from_uniform P bs), r'))"

definition value_commitment_randomized ::
  "('s::comm_ring_1, 'p::ab_group_add, 'b) pallas \<Rightarrow> 'r csprng \<Rightarrow> 'r \<Rightarrow> int
    \<Rightarrow> (rand_error, 'p option) result \<times> 'r" where
  "value_commitment_randomized P fill r val =
     (case generate_trapdoor P fill r of
        (Err e, r') \<Rightarrow> (Err e, r')
      | (Ok rcv, r') \<Rightarrow> (Ok (value_commitment_new P rcv val), r'))"

definition commitment_sum :: "'p::ab_group_add list \<Rightarrow> 'p" where
  "commitment_sum cvs = foldl (+) 0 cvs"

definition point_try_from :: "('s, 'p, 'b) pallas \<Rightarrow> bytes \<Rightarrow> (string, 'p) result" where
  "point_try_from P bytes =
     (case pa_from_bytes P bytes of Some p \<Rightarrow> Ok p | None \<Rightarrow> Err ''Invalid pallas::Affine value'')"

definition note_commitment_x :: "('s, 'p, 'b::zero) pallas \<Rightarrow> 'p \<Rightarrow> 'b" where
  "note_commitment_x P cm = extract_p P cm"

section \<open>Binding verification keys\<close>

text \<open>
  The bytes of a commitment in a bundle are those of a point; the outer \<open>None\<close> stands for bytes that
  are not, which no value of the source has.
\<close>

definition orchard_binding_key ::
  "('s::comm_ring_1, 'p::ab_group_add, 'b) pallas \<Rightarrow> orchard_data \<Rightarrow> bytes option" where
  "orchard_binding_key P d =
     (case (those (map (\<lambda>a. pa_from_bytes P (ac_cv a)) (od_action_list d)),
            value_commitment_new P 0 (od_value_balance d)) of
        (Some cvs, Some cv_balance) \<Rightarrow> Some (pa_to_bytes P (commitment_sum cvs - cv_balance))
      | _ \<Rightarrow> None)"

text \<open>\<open>orchard::Proof::expected_proof_size\<close> is a parameter.\<close>

definition proof_size_is_canonical :: "(nat \<Rightarrow> nat) \<Rightarrow> orchard_data \<Rightarrow> bool" where
  "proof_size_is_canonical expected_proof_size d \<longleftrightarrow>
     length (od_proof d) = expected_proof_size (length (od_actions d))"

text \<open>The value commitments of sapling-crypto and its sums of them.\<close>

record 'c sapling_values =
  sv_commitment :: "bytes \<Rightarrow> 'c option"
  sv_sum :: "'c list \<Rightarrow> 'c"
  sv_sub :: "'c \<Rightarrow> 'c \<Rightarrow> 'c"
  sv_into_bvk :: "'c \<Rightarrow> int \<Rightarrow> bytes"

definition sapling_binding_key :: "'c sapling_values \<Rightarrow> ('anchor, 'shared) sapling_data \<Rightarrow> bytes option" where
  "sapling_binding_key S d =
     (case (those (map (\<lambda>s. sv_commitment S (spend_cv s)) (sd_spends d)),
            those (map (\<lambda>x. sv_commitment S (so_cv x)) (sd_outputs d))) of
        (Some olds, Some news) \<Rightarrow>
          Some (sv_into_bvk S (sv_sub S (sv_sum S olds) (sv_sum S news)) (sd_value_balance d))
      | _ \<Rightarrow> None)"

section \<open>Diversifiers and keys\<close>

record 'j jubjub =
  jj_blake2s :: "bytes \<Rightarrow> bytes \<Rightarrow> bytes"
  jj_from_bytes :: "bytes \<Rightarrow> 'j option"
  jj_mul_by_cofactor :: "'j \<Rightarrow> 'j"
  jj_is_torsion_free :: "'j \<Rightarrow> bool"

definition RANDOMNESS_BEACON_URS :: bytes where
  "RANDOMNESS_BEACON_URS = map of_char ''096b36a5804bfacef1691e173c366a47ff5ba84a44f26ddd7e8d9f79d5b42df0''"

definition jubjub_group_hash :: "'j::zero jubjub \<Rightarrow> bytes \<Rightarrow> bytes \<Rightarrow> 'j option" where
  "jubjub_group_hash J d m =
     (case jj_from_bytes J (jj_blake2s J d (RANDOMNESS_BEACON_URS @ m)) of
        None \<Rightarrow> None
      | Some point \<Rightarrow>
          (let extended_point = jj_mul_by_cofactor J point
           in if extended_point \<noteq> 0 then Some extended_point else None))"

definition sapling_diversify_hash :: "'j::zero jubjub \<Rightarrow> bytes \<Rightarrow> 'j option" where
  "sapling_diversify_hash J d = jubjub_group_hash J (map of_char ''Zcash_gd'') d"

definition diversified_extended :: "'j::zero jubjub \<Rightarrow> bytes \<Rightarrow> (string, 'j) result" where
  "diversified_extended J d =
     (case sapling_diversify_hash J d of
        Some point \<Rightarrow> Ok point
      | None \<Rightarrow> Err ''Invalid Diversifier -> jubjub::ExtendedPoint'')"

definition diversified_affine :: "'j::zero jubjub \<Rightarrow> bytes \<Rightarrow> (string, 'j) result" where
  "diversified_affine J d =
     (case diversified_extended J d of
        Ok extended_point \<Rightarrow> Ok extended_point
      | Err e \<Rightarrow> Err ''Invalid Diversifier -> jubjub::AffinePoint'')"

definition DIVERSIFY_HASH_TRIES :: nat where "DIVERSIFY_HASH_TRIES = 2"

fun diversifier_tries ::
  "'j::zero jubjub \<Rightarrow> 'r csprng \<Rightarrow> nat \<Rightarrow> 'r \<Rightarrow> (address_error, bytes) result \<times> 'r" where
  "diversifier_tries J fill 0 r = (Err DiversifierGenerationFailure, r)"
| "diversifier_tries J fill (Suc n) r =
     (case fill_bytes fill 11 r of
        (Err e, r') \<Rightarrow> (Err (AddressRandomness e), r')
      | (Ok bs, r') \<Rightarrow>
          (if sapling_diversify_hash J bs \<noteq> None then (Ok bs, r') else diversifier_tries J fill n r'))"

definition sapling_diversifier_new ::
  "'j::zero jubjub \<Rightarrow> 'r csprng \<Rightarrow> 'r \<Rightarrow> (address_error, bytes) result \<times> 'r" where
  "sapling_diversifier_new J fill r = diversifier_tries J fill DIVERSIFY_HASH_TRIES r"

text \<open>\<open>None\<close> is the panic of \<open>unwrap\<close> on bytes that are not a point.\<close>

definition transmission_key_try_from :: "'j jubjub \<Rightarrow> bytes \<Rightarrow> (string, 'j) result option" where
  "transmission_key_try_from J bytes =
     (case jj_from_bytes J bytes of
        None \<Rightarrow> None
      | Some affine_point \<Rightarrow>
          Some (if jj_is_torsion_free J affine_point then Ok affine_point
                else Err ''Invalid jubjub::AffinePoint value for Sapling TransmissionKey''))"

definition orchard_diversify_hash ::
  "('s, 'p::zero, 'b) pallas \<Rightarrow> bytes \<Rightarrow> 'p option" where
  "orchard_diversify_hash P d =
     (case pallas_group_hash P (map of_char ''z.cash:Orchard-gd'') d of
        None \<Rightarrow> None
      | Some p \<Rightarrow> (if p = 0 then pallas_group_hash P (map of_char ''z.cash:Orchard-gd'') [] else Some p))"

definition orchard_diversifier_new :: "'r csprng \<Rightarrow> 'r \<Rightarrow> (rand_error, bytes) result \<times> 'r" where
  "orchard_diversifier_new fill r = fill_bytes fill 11 r"

section \<open>Notes and nullifiers\<close>

definition orchard_nullifier_try_from :: "('s, 'p, 'b) pallas \<Rightarrow> bytes \<Rightarrow> (ser_error, 'b) result" where
  "orchard_nullifier_try_from P bytes =
     (case pa_base_from_repr P bytes of
        Some x \<Rightarrow> Ok x
      | None \<Rightarrow> Err (Parse ''Invalid pallas::Base value for orchard Nullifier''))"

definition seed_randomness_new :: "'r csprng \<Rightarrow> 'r \<Rightarrow> (rand_error, bytes) result \<times> 'r" where
  "seed_randomness_new fill r = fill_bytes fill 32 r"

definition rho_new :: "('s, 'p, 'b::zero) pallas \<Rightarrow> 'r csprng \<Rightarrow> 'r \<Rightarrow> (note_error, 'b) result \<times> 'r" where
  "rho_new P fill r =
     (case fill_bytes fill 32 r of
        (Err e, r') \<Rightarrow> (Err (NoteRandomness e), r')
      | (Ok bs, r') \<Rightarrow>
          (case pa_from_bytes P bs of
             Some point \<Rightarrow> (Ok (extract_p P point), r')
           | None \<Rightarrow> (Err InvalidRho, r')))"

record 'p orchard_address =
  oa_diversifier :: bytes
  oa_transmission_key :: 'p

record ('p, 'b) orchard_note =
  on_address :: "'p orchard_address"
  on_value :: int
  on_rho :: 'b
  on_rseed :: bytes

definition orchard_note_new ::
  "'r csprng \<Rightarrow> 'r \<Rightarrow> 'p orchard_address \<Rightarrow> int \<Rightarrow> 'b \<Rightarrow> (rand_error, ('p, 'b) orchard_note) result \<times> 'r" where
  "orchard_note_new fill r addr val nf_old =
     (case seed_randomness_new fill r of
        (Err e, r') \<Rightarrow> (Err e, r')
      | (Ok rseed, r') \<Rightarrow>
          (Ok \<lparr>on_address = addr, on_value = val, on_rho = nf_old, on_rseed = rseed\<rparr>, r'))"

record sprout_note =
  sn_paying_key :: bytes
  sn_value :: int
  sn_rho :: bytes
  sn_rcm :: bytes
  sn_memo :: bytes

text \<open>SHA-256 is a parameter, in \<open>hashing_scheme\<close>.\<close>

definition sprout_note_commitment :: "'x hashing_scheme \<Rightarrow> sprout_note \<Rightarrow> bytes" where
  "sprout_note_commitment hs n =
     sha256 hs ([0xB0] @ sn_paying_key n @ amount_to_bytes (sn_value n) @ sn_rho n @ sn_rcm n)"

text \<open>A Sapling nullifier as two elements of the scalar field of the proofs.\<close>

fun chunks :: "nat \<Rightarrow> 'a list \<Rightarrow> 'a list list" where
  "chunks n xs = (if n = 0 \<or> xs = [] then [] else take n xs # chunks n (drop n xs))"

declare chunks.simps [simp del]

definition nullifier_bits_le :: "bytes \<Rightarrow> bool list" where
  "nullifier_bits_le n = concat (map (\<lambda>v. map (\<lambda>i. (drop_bit i v) AND 1 = 1) [0..<8]) n)"

definition CAPACITY :: nat where "CAPACITY = 255 - 1"

definition pack_bits :: "bool list \<Rightarrow> 's::comm_ring_1" where
  "pack_bits bits =
     fst (foldl (\<lambda>(cur, coeff) b. (if b then cur + coeff else cur, coeff + coeff)) (0, 1) bits)"

definition nullifier_fields :: "bytes \<Rightarrow> 's::comm_ring_1 list" where
  "nullifier_fields n =
     foldl (\<lambda>res (i, bits). res[i := pack_bits bits]) [0, 0] (enumerate 0 (chunks CAPACITY (nullifier_bits_le n)))"

section \<open>Group hashes and keys\<close>

lemma cv_domain_hashes [simp]: "pallas_group_hash P cv_domain M = Some (pa_hash_to_curve P cv_domain M)"
proof -
  have "utf8_error (length cv_domain) 0 (map unat cv_domain) = None" by code_simp
  then show ?thesis by (simp add: pallas_group_hash_def)
qed

lemma group_hash_is_no_identity: "jubjub_group_hash J d m = Some p \<Longrightarrow> p \<noteq> 0"
  by (auto simp: jubjub_group_hash_def Let_def split: option.splits if_splits)

text \<open>A new diversifier has a base point; a failure is that of the generator, or two misses.\<close>

lemma new_diversifier_has_a_base:
  assumes "sapling_diversifier_new J fill r = (Ok d, r')"
  shows "\<exists>p. diversified_affine J d = Ok p \<and> p \<noteq> 0"
proof -
  have "sapling_diversify_hash J d \<noteq> None" if "diversifier_tries J fill n r = (Ok d, r')" for n r
    using that by (induction J fill n r rule: diversifier_tries.induct)
      (auto split: prod.splits sum.splits if_splits)
  with assms obtain p where "sapling_diversify_hash J d = Some p"
    by (auto simp: sapling_diversifier_new_def)
  then show ?thesis
    by (auto simp: diversified_affine_def diversified_extended_def sapling_diversify_hash_def
        dest: group_hash_is_no_identity)
qed

lemma diversifier_failure_is_two_misses:
  assumes "sapling_diversifier_new J fill r = (Err DiversifierGenerationFailure, r')"
  shows "\<exists>d1 r1 d2. fill r 11 = (Some d1, r1) \<and> fill r1 11 = (Some d2, r') \<and>
    sapling_diversify_hash J d1 = None \<and> sapling_diversify_hash J d2 = None"
  using assms
  by (auto simp: sapling_diversifier_new_def DIVERSIFY_HASH_TRIES_def numeral_2_eq_2 fill_bytes_def
      split: prod.splits option.splits if_splits)

lemma orchard_diversifiers_always_hash:
  "\<exists>p. orchard_diversify_hash P d = Some p \<and>
     (p = 0 \<longleftrightarrow> pa_hash_to_curve P (map of_char ''z.cash:Orchard-gd'') d = 0 \<and>
                 pa_hash_to_curve P (map of_char ''z.cash:Orchard-gd'') [] = 0)"
proof -
  have "utf8_error (length ''z.cash:Orchard-gd'') 0 (map unat (map of_char ''z.cash:Orchard-gd'' :: bytes)) = None"
    by code_simp
  then show ?thesis by (simp add: orchard_diversify_hash_def pallas_group_hash_def)
qed

section \<open>Packed nullifiers\<close>

lemma pack_bits_is_horner: "pack_bits bits = (horner_sum of_bool 2 bits :: 's::comm_ring_1)"
proof -
  have "fst (foldl (\<lambda>(cur, coeff) b. (if b then cur + coeff else cur, coeff + coeff)) (s, c) bits) =
      s + c * (horner_sum of_bool 2 bits :: 's)" for s c
    by (induction bits arbitrary: s c) (auto simp: algebra_simps)
  then show ?thesis by (simp add: pack_bits_def)
qed

lemma length_nullifier_bits [simp]: "length (nullifier_bits_le n) = 8 * length n"
  by (induction n) (simp_all add: nullifier_bits_le_def)

lemma byte_bits_value: "horner_sum of_bool 2 (map (\<lambda>i. (drop_bit i b) AND 1 = 1) [0..<8]) = unat (b :: byte)"
proof -
  have "((drop_bit i b) AND 1 = 1) = bit b i" for i
    by (simp add: and_one_eq odd_iff_mod_2_eq_one [symmetric] bit_iff_odd_drop_bit)
  then have "map (\<lambda>i. (drop_bit i b) AND 1 = 1) [0..<8] = map (bit (unat b)) [0..<8]"
    by (simp add: bit_unsigned_iff)
  then have "horner_sum of_bool 2 (map (\<lambda>i. (drop_bit i b) AND 1 = 1) [0..<8]) =
      horner_sum of_bool 2 (map (bit (unat b)) [0..<8])" by (rule arg_cong)
  also have "\<dots> = take_bit 8 (unat b)" by (rule horner_sum_bit_eq_take_bit)
  also have "\<dots> = unat b"
  proof (rule take_bit_nat_eq_self)
    show "unat b < 2 ^ 8" using unsigned_less [of b] by simp
  qed
  finally show ?thesis .
qed

lemma nullifier_bits_value: "horner_sum of_bool 2 (nullifier_bits_le n) = nat_of_le n"
  by (induction n) (simp_all add: nullifier_bits_le_def horner_sum_append byte_bits_value del: upt.simps)

lemma horner_bits_less: "horner_sum of_bool 2 bits < (2::nat) ^ length bits"
  by (induction bits) auto

lemma of_nat_horner: "of_nat (horner_sum of_bool 2 bits) = (horner_sum of_bool 2 bits :: 's::comm_ring_1)"
  by (induction bits) simp_all

lemma horner_split:
  fixes bits :: "bool list"
  assumes "k \<le> length bits"
  shows "horner_sum of_bool 2 (take k bits) = (horner_sum of_bool 2 bits :: nat) mod 2 ^ k"
    and "horner_sum of_bool 2 (drop k bits) = (horner_sum of_bool 2 bits :: nat) div 2 ^ k"
proof -
  have eq: "(horner_sum of_bool 2 bits :: nat) =
      horner_sum of_bool 2 (take k bits) + 2 ^ k * horner_sum of_bool 2 (drop k bits)"
    using horner_sum_append [of of_bool "2::nat" "take k bits" "drop k bits"] assms by simp
  have "horner_sum of_bool 2 (take k bits) < (2::nat) ^ k"
    using horner_bits_less [of "take k bits"] assms by simp
  then show "horner_sum of_bool 2 (take k bits) = (horner_sum of_bool 2 bits :: nat) mod 2 ^ k"
    and "horner_sum of_bool 2 (drop k bits) = (horner_sum of_bool 2 bits :: nat) div 2 ^ k"
    by (simp_all add: eq)
qed

lemma two_chunks:
  assumes "n < length xs" "length xs \<le> 2 * n"
  shows "chunks n xs = [take n xs, drop n xs]"
  using assms by (auto simp: chunks.simps [of n])

text \<open>The two elements are the low 254 bits of the little-endian nullifier and the two bits above.\<close>

lemma nullifier_fields_are_its_halves:
  assumes "length n = 32"
  shows "nullifier_fields n =
    [of_nat (nat_of_le n mod 2 ^ 254), of_nat (nat_of_le n div 2 ^ 254) :: 's::comm_ring_1]"
proof -
  have "chunks CAPACITY (nullifier_bits_le n) = [take 254 (nullifier_bits_le n), drop 254 (nullifier_bits_le n)]"
    using assms by (simp add: two_chunks CAPACITY_def)
  then have "nullifier_fields n =
      [pack_bits (take 254 (nullifier_bits_le n)), pack_bits (drop 254 (nullifier_bits_le n)) :: 's]"
    by (simp add: nullifier_fields_def)
  then show ?thesis
    using assms by (simp add: pack_bits_is_horner horner_split nullifier_bits_value flip: of_nat_horner)
qed

lemma nullifier_fields_inject:
  assumes "length n = 32" "length m = 32"
    and inj: "\<And>a b. a < 2 ^ 254 \<Longrightarrow> b < 2 ^ 254 \<Longrightarrow> (of_nat a :: 's::comm_ring_1) = of_nat b \<Longrightarrow> a = b"
    and eq: "(nullifier_fields n :: 's list) = nullifier_fields m"
  shows "n = m"
proof -
  have small: "nat_of_le k div 2 ^ 254 < 2 ^ 254" if "length k = 32" for k
    using nat_of_le_bound [of k] that by (simp add: less_mult_imp_div_less)
  have "nat_of_le n mod 2 ^ 254 = nat_of_le m mod 2 ^ 254"
    by (rule inj) (use eq assms(1,2) in \<open>simp_all add: nullifier_fields_are_its_halves\<close>)
  moreover have "nat_of_le n div 2 ^ 254 = nat_of_le m div 2 ^ 254"
    by (rule inj) (use eq assms(1,2) small in \<open>simp_all add: nullifier_fields_are_its_halves\<close>)
  ultimately have "nat_of_le n = nat_of_le m" by (metis div_mult_mod_eq)
  then show ?thesis by (metis assms(1,2) le_of_nat_of_le)
qed

section \<open>Bundles balance\<close>

lemma scalar_of_amount_of_int: "in_i64 a \<Longrightarrow> scalar_of_amount a = Some (of_int a)"
  by (auto simp: scalar_of_amount_def int_ranges of_nat_nat)

lemma commitment_sum_is_sum: "commitment_sum cvs = sum_list cvs"
proof -
  have "foldl (+) c cvs = c + sum_list cvs" for c
    by (induction cvs arbitrary: c) (simp_all add: add.assoc)
  then show ?thesis by (simp add: commitment_sum_def)
qed

lemma those_map_Some_pairs: "those (map (\<lambda>(x, y). Some (f x y)) xs) = Some (map (\<lambda>(x, y). f x y) xs)"
  by (induction xs) auto

lemma money_is_i64: "valid_amount NegativeAllowed v \<Longrightarrow> in_i64 v"
  by (auto simp: money int_ranges)

text \<open>The sum of amounts over a bounded list stays far below the order of the groups.\<close>

lemma money_sum_bound:
  assumes "\<forall>v\<in>set vs. valid_amount NegativeAllowed v"
  shows "\<bar>sum_list vs\<bar> \<le> int (length vs) * MAX_MONEY"
  using assms
proof (induction vs)
  case (Cons v vs)
  then have "\<bar>v\<bar> \<le> MAX_MONEY" "\<bar>sum_list vs\<bar> \<le> int (length vs) * MAX_MONEY" by auto
  then have "\<bar>v + sum_list vs\<bar> \<le> MAX_MONEY + int (length vs) * MAX_MONEY" by linarith
  then show ?case by (simp add: algebra_simps)
qed simp

lemma net_value_bound:
  assumes "\<forall>v\<in>set vs. valid_amount NegativeAllowed v" and "length vs \<le> 2 ^ 17"
    and "valid_amount NegativeAllowed b"
  shows "\<bar>sum_list vs - b\<bar> < 2 ^ 250"
proof -
  have "int (length vs) * MAX_MONEY \<le> 2 ^ 17 * MAX_MONEY"
    using assms(2) by (intro mult_right_mono) (simp_all add: money)
  then have "\<bar>sum_list vs\<bar> \<le> 2 ^ 17 * MAX_MONEY"
    using money_sum_bound [OF assms(1)] by linarith
  moreover have "\<bar>b\<bar> \<le> MAX_MONEY" using assms(3) by auto
  ultimately have "\<bar>sum_list vs - b\<bar> \<le> 2 ^ 18 * MAX_MONEY" by (simp add: money)
  then show ?thesis by (simp add: money)
qed

text \<open>
  What the code relies on: a point is read back from its encoding, multiplication by scalars
  distributes, and no multiple of the value base below the order of the group, which has more than 250
  bits, is the identity.
\<close>

definition pallas_laws :: "('s::comm_ring_1, 'p::ab_group_add, 'b) pallas \<Rightarrow> bool" where
  "pallas_laws P \<longleftrightarrow>
     (\<forall>p. pa_from_bytes P (pa_to_bytes P p) = Some p) \<and>
     (\<forall>p a b. pa_mul P p (a + b) = pa_mul P p a + pa_mul P p b) \<and>
     (\<forall>V n. value_base P = Some V \<longrightarrow> pa_mul P V (of_int n) = 0 \<longrightarrow> \<bar>n\<bar> < 2 ^ 250 \<longrightarrow> n = (0::int))"

lemma pallas_lawsD:
  assumes "pallas_laws P"
  shows "pa_from_bytes P (pa_to_bytes P p) = Some p"
    and "pa_mul P p (a + b) = pa_mul P p a + pa_mul P p b"
    and "value_base P = Some V \<Longrightarrow> pa_mul P V (of_int n) = 0 \<Longrightarrow> \<bar>n\<bar> < 2 ^ 250 \<Longrightarrow> n = 0"
  using assms unfolding pallas_laws_def by blast+

lemma pallas_mul_laws:
  assumes "pallas_laws P"
  shows "pa_mul P p 0 = 0" and "pa_mul P p (- a) = - pa_mul P p a"
    and "pa_mul P p (a - b) = pa_mul P p a - pa_mul P p b"
    and "pa_mul P p (sum_list xs) = sum_list (map (pa_mul P p) xs)"
proof -
  note add = pallas_lawsD(2) [OF assms]
  show zero: "pa_mul P p 0 = 0" for p using add [of p 0 0] by simp
  show neg: "pa_mul P p (- a) = - pa_mul P p a" for p a
    using add [of p a "- a"] zero [of p] by (simp add: eq_neg_iff_add_eq_0 add.commute)
  show "pa_mul P p (a - b) = pa_mul P p a - pa_mul P p b"
    using add [of p a "- b"] neg [of p b] by simp
  show "pa_mul P p (sum_list xs) = sum_list (map (pa_mul P p) xs)"
    by (induction xs) (simp_all add: add zero)
qed

text \<open>The point of a commitment to \<open>v\<close> under the randomness \<open>rcv\<close>.\<close>

definition commitment_point :: "('s::comm_ring_1, 'p::ab_group_add, 'b) pallas \<Rightarrow> 's \<Rightarrow> int \<Rightarrow> 'p" where
  "commitment_point P rcv v =
     pa_mul P (pa_hash_to_curve P cv_domain (map of_char ''v'')) (of_int v) +
     pa_mul P (pa_hash_to_curve P cv_domain (map of_char ''r'')) rcv"

lemma value_commitment_is_point:
  "in_i64 v \<Longrightarrow> value_commitment_new P rcv v = Some (commitment_point P rcv v)"
  by (simp add: value_commitment_new_def scalar_of_amount_of_int value_base_def randomness_base_def
      commitment_point_def)

lemma commitment_points_add:
  assumes "pallas_laws P"
  shows "sum_list (map (\<lambda>(rcv, v). commitment_point P rcv v) cs) =
    commitment_point P (sum_list (map fst cs)) (sum_list (map snd cs))"
  by (induction cs)
    (auto simp: commitment_point_def pallas_lawsD(2) [OF assms] pallas_mul_laws(1) [OF assms] algebra_simps)

lemma commitment_point_diff:
  assumes "pallas_laws P"
  shows "commitment_point P r v - commitment_point P 0 b = commitment_point P r (v - b)"
  by (simp add: commitment_point_def pallas_mul_laws [OF assms] algebra_simps)

lemma commitment_to_zero:
  assumes "pallas_laws P" and "\<bar>v\<bar> < 2 ^ 250"
  shows "commitment_point P r v = commitment_point P r 0 \<longleftrightarrow> v = 0"
  using pallas_lawsD(3) [OF assms(1) _ _ assms(2)] pallas_mul_laws(1) [OF assms(1)]
  by (auto simp: commitment_point_def value_base_def)

text \<open>
  The key of a bundle whose actions commit to the given values is a commitment to what the values and
  the balance leave, under the sum of their randomness.
\<close>

lemma orchard_binding_key_commits:
  assumes "pallas_laws P"
    and openings: "map (\<lambda>(rcv, v). map_option (pa_to_bytes P) (value_commitment_new P rcv v)) cs =
          map (\<lambda>a. Some (ac_cv a)) (od_action_list d)"
    and vals: "\<forall>(rcv, v)\<in>set cs. in_i64 v" "in_i64 (od_value_balance d)"
  shows "orchard_binding_key P d =
    Some (pa_to_bytes P (commitment_point P (sum_list (map fst cs)) (sum_list (map snd cs) - od_value_balance d)))"
proof -
  have "map (\<lambda>a. Some (ac_cv a)) (od_action_list d) =
      map (\<lambda>(rcv, v). Some (pa_to_bytes P (commitment_point P rcv v))) cs"
    unfolding openings [symmetric] using vals(1)
    by (intro map_cong) (auto simp: value_commitment_is_point)
  then have "map the (map (\<lambda>a. Some (ac_cv a)) (od_action_list d)) =
      map the (map (\<lambda>(rcv, v). Some (pa_to_bytes P (commitment_point P rcv v))) cs)"
    by simp
  then have "map ac_cv (od_action_list d) = map (\<lambda>(rcv, v). pa_to_bytes P (commitment_point P rcv v)) cs"
    by (simp add: comp_def case_prod_beta)
  then have "map (pa_from_bytes P) (map ac_cv (od_action_list d)) =
      map (\<lambda>c. Some (commitment_point P (fst c) (snd c))) cs"
    by (simp add: comp_def case_prod_beta pallas_lawsD(1) [OF assms(1)])
  then have "those (map (\<lambda>a. pa_from_bytes P (ac_cv a)) (od_action_list d)) =
      Some (map (\<lambda>(rcv, v). commitment_point P rcv v) cs)"
    by (simp add: comp_def case_prod_beta those_map_Some)
  then show ?thesis
    by (simp add: orchard_binding_key_def value_commitment_is_point vals(2) commitment_sum_is_sum
        commitment_points_add [OF assms(1)] commitment_point_diff [OF assms(1)])
qed

text \<open>C40. Suppose the actions of a parsed Orchard bundle (at most 2^16) commit to known amounts. Then the
  binding verification key is the encoding of a commitment to zero under the sum of their randomness,
  the key the signer of a balanced bundle can sign for, exactly when the amounts sum to the value
  balance: no wrap-around of the scalar field makes an unbalanced bundle look balanced.\<close>

theorem orchard_binding_key_balances:
  assumes "pallas_laws P"
    and "map (\<lambda>(rcv, v). map_option (pa_to_bytes P) (value_commitment_new P rcv v)) cs =
          map (\<lambda>a. Some (ac_cv a)) (od_action_list d)"
    and "\<forall>(rcv, v)\<in>set cs. valid_amount NegativeAllowed v" and "valid_amount NegativeAllowed (od_value_balance d)"
    and "length (od_actions d) \<le> 2 ^ 16"
  shows "orchard_binding_key P d =
      map_option (pa_to_bytes P) (value_commitment_new P (sum_list (map fst cs)) 0)
    \<longleftrightarrow> sum_list (map snd cs) = od_value_balance d"
proof -
  have "length cs = length (od_actions d)"
    using arg_cong [OF assms(2), of length] by (simp add: od_action_list_def)
  with assms(3,5) have bound: "\<bar>sum_list (map snd cs) - od_value_balance d\<bar> < 2 ^ 250"
    by (intro net_value_bound [OF _ _ assms(4)]) auto
  have "\<forall>(rcv, v)\<in>set cs. in_i64 v" using assms(3) money_is_i64 by auto
  then have key: "orchard_binding_key P d = Some (pa_to_bytes P
      (commitment_point P (sum_list (map fst cs)) (sum_list (map snd cs) - od_value_balance d)))"
    by (intro orchard_binding_key_commits assms(1,2) money_is_i64 [OF assms(4)])
  have inj: "pa_to_bytes P p = pa_to_bytes P q \<longleftrightarrow> p = q" for p q
    by (metis option.inject pallas_lawsD(1) [OF assms(1)])
  have "in_i64 0" by (simp add: int_ranges)
  then show ?thesis
    using commitment_to_zero [OF assms(1) bound] by (simp add: key value_commitment_is_point inj)
qed

section \<open>Sapling bundles\<close>

text \<open>
  Both value commitments and their sums wrap a point in sapling-crypto; \<open>commit\<close> is its commitment and
  \<open>enc\<close> its encoding.
\<close>

definition sapling_values_laws ::
  "'c::ab_group_add sapling_values \<Rightarrow> ('s::comm_ring_1 \<Rightarrow> int \<Rightarrow> 'c) \<Rightarrow> ('c \<Rightarrow> bytes) \<Rightarrow> bool" where
  "sapling_values_laws S commit enc \<longleftrightarrow>
     (\<forall>cvs. sv_sum S cvs = sum_list cvs) \<and> (\<forall>a b. sv_sub S a b = a - b) \<and>
     (\<forall>c b. sv_into_bvk S c b = enc (c - commit 0 b)) \<and> inj enc \<and>
     (\<forall>r v r' v'. commit (r + r') (v + v') = commit r v + commit r' v') \<and>
     (\<forall>r v. commit r v = commit r 0 \<longrightarrow> \<bar>v\<bar> < 2 ^ 250 \<longrightarrow> v = 0)"

lemma sapling_values_lawsD:
  assumes "sapling_values_laws S commit enc"
  shows "sv_sum S cvs = sum_list cvs" and "sv_sub S a b = a - b"
    and "sv_into_bvk S c n = enc (c - commit 0 n)" and "inj enc"
    and "commit (r + r') (v + v') = commit r v + commit r' v'"
    and "commit r v = commit r 0 \<Longrightarrow> \<bar>v\<bar> < 2 ^ 250 \<Longrightarrow> v = 0"
  using assms unfolding sapling_values_laws_def by blast+

lemma sapling_commits_add:
  assumes "sapling_values_laws S commit enc"
  shows "commit 0 0 = 0" and "commit r v - commit r' v' = commit (r - r') (v - v')"
    and "sum_list (map (\<lambda>(r, v). commit r v) cs) = commit (sum_list (map fst cs)) (sum_list (map snd cs))"
proof -
  note add = sapling_values_lawsD(5) [OF assms]
  show zero: "commit 0 0 = 0" using add [of 0 0 0 0] by simp
  show "commit r v - commit r' v' = commit (r - r') (v - v')"
    using add [of "r - r'" r' "v - v'" v'] by (simp add: algebra_simps)
  show "sum_list (map (\<lambda>(r, v). commit r v) cs) = commit (sum_list (map fst cs)) (sum_list (map snd cs))"
    by (induction cs) (auto simp: zero add)
qed

lemma sapling_binding_key_balances:
  assumes laws: "sapling_values_laws S commit enc"
    and ins: "map (\<lambda>s. sv_commitment S (spend_cv s)) (sd_spends d) = map (\<lambda>(r, v). Some (commit r v)) olds"
    and outs: "map (\<lambda>x. sv_commitment S (so_cv x)) (sd_outputs d) = map (\<lambda>(r, v). Some (commit r v)) news"
    and amounts: "\<forall>(r, v)\<in>set (olds @ news). valid_amount NegativeAllowed v"
      "valid_amount NegativeAllowed (sd_value_balance d)"
    and small: "length olds \<le> 2 ^ 16" "length news \<le> 2 ^ 16"
  shows "sapling_binding_key S d = Some (enc (commit (sum_list (map fst olds) - sum_list (map fst news)) 0))
    \<longleftrightarrow> sum_list (map snd olds) - sum_list (map snd news) = sd_value_balance d"
proof -
  let ?r = "sum_list (map fst olds) - sum_list (map fst news)"
  let ?v = "sum_list (map snd olds) - sum_list (map snd news) - sd_value_balance d"
  have ins': "those (map (\<lambda>s. sv_commitment S (spend_cv s)) (sd_spends d)) = Some (map (\<lambda>(r, v). commit r v) olds)"
    unfolding ins by (rule those_map_Some_pairs)
  have outs': "those (map (\<lambda>x. sv_commitment S (so_cv x)) (sd_outputs d)) = Some (map (\<lambda>(r, v). commit r v) news)"
    unfolding outs by (rule those_map_Some_pairs)
  have key: "sapling_binding_key S d = Some (enc (commit ?r ?v))"
    by (simp add: sapling_binding_key_def ins' outs' sapling_values_lawsD(1-3) [OF laws] sapling_commits_add [OF laws])
  have "sum_list (map uminus xs) = - sum_list xs" for xs :: "int list"
    by (induction xs) simp_all
  moreover have "\<bar>sum_list (map snd olds @ map uminus (map snd news)) - sd_value_balance d\<bar> < 2 ^ 250"
  proof (rule net_value_bound [OF _ _ amounts(2)])
    have "- MAX_MONEY \<le> snd x \<and> snd x \<le> MAX_MONEY" if "x \<in> set (olds @ news)" for x
      using amounts(1) that by (cases x) auto
    then have "- MAX_MONEY \<le> snd x" "snd x \<le> MAX_MONEY" if "x \<in> set (olds @ news)" for x
      using that by blast+
    then show "\<forall>v\<in>set (map snd olds @ map uminus (map snd news)). valid_amount NegativeAllowed v"
      by (force simp: minus_le_iff)
  qed (use small in simp)
  ultimately have "\<bar>?v\<bar> < 2 ^ 250" by (simp del: map_map)
  then have "commit ?r ?v = commit ?r 0 \<longleftrightarrow> ?v = 0"
    using sapling_values_lawsD(6) [OF laws] by metis
  then show ?thesis
    by (simp add: key inj_eq [OF sapling_values_lawsD(4) [OF laws]])
qed

text \<open>The integers as a curve and as value commitments, on which the laws hold.\<close>

definition int_to_bytes :: "int \<Rightarrow> bytes" where
  "int_to_bytes p = (if p < 0 then 1 else 0) # replicate (nat \<bar>p\<bar>) 0"

definition int_from_bytes :: "bytes \<Rightarrow> int option" where
  "int_from_bytes bs = Some (if hd bs = 1 then - int (length (tl bs)) else int (length (tl bs)))"

lemma int_bytes_roundtrip: "int_from_bytes (int_to_bytes p) = Some p"
  by (simp add: int_from_bytes_def int_to_bytes_def)

definition int_pallas :: "(int, int, int) pallas" where
  "int_pallas = \<lparr>pa_mul = (*), pa_to_bytes = int_to_bytes, pa_from_bytes = int_from_bytes,
     pa_hash_to_curve = (\<lambda>D M. 1), pa_from_uniform = (\<lambda>bs. 0), pa_coordinate_x = Some,
     pa_base_from_repr = int_from_bytes\<rparr>"

lemma int_pallas_laws: "pallas_laws int_pallas"
  by (simp add: pallas_laws_def int_pallas_def int_bytes_roundtrip algebra_simps value_base_def)

text \<open>One action commits to 5 zatoshis under the randomness 2, and the bundle's balance is 5.\<close>

definition sample_action :: action where
  "sample_action = \<lparr>ac_cv = int_to_bytes 7, ac_nullifier = [], ac_rk = [], ac_cm_x = [], ac_ephemeral_key = [],
     ac_enc_ciphertext = [], ac_out_ciphertext = []\<rparr>"

definition sample_bundle :: "int \<Rightarrow> orchard_data" where
  "sample_bundle balance = \<lparr>od_flags = 3, od_value_balance = balance, od_shared_anchor = [], od_proof = [],
     od_actions = [\<lparr>aa_action = sample_action, aa_spend_auth_sig = []\<rparr>], od_binding_sig = []\<rparr>"

theorem orchard_binding_key_balances_witness:
  "orchard_binding_key int_pallas (sample_bundle 5) = Some (int_to_bytes 2) \<and>
   orchard_binding_key int_pallas (sample_bundle 4) \<noteq> Some (int_to_bytes 2)"
proof -
  have commit: "value_commitment_new int_pallas r v = Some (v + r)" if "in_i64 v" for r v
    using that by (simp add: value_commitment_is_point commitment_point_def int_pallas_def)
  have i64: "in_i64 5" "in_i64 0" by (simp_all add: int_ranges)
  have enc: "pa_to_bytes int_pallas = int_to_bytes" by (simp add: int_pallas_def)
  have key: "orchard_binding_key int_pallas (sample_bundle b) = Some (int_to_bytes 2) \<longleftrightarrow> 5 = b"
    if "0 \<le> b" "b \<le> MAX_MONEY" for b
    using orchard_binding_key_balances [of int_pallas "[(2, 5)]" "sample_bundle b"] that
    by (simp add: int_pallas_laws commit i64 enc sample_bundle_def sample_action_def od_action_list_def money)
  show ?thesis using key [of 5] key [of 4] by (simp add: money)
qed

end
