(* ===== verification/Receivers.thy ===== *)
theory Receivers
  imports Address Networks TxHash
begin

text \<open>
  What a wallet is paid to: the addresses \<open>zcash_address\<close> parses, as zebra-chain keeps them
  (\<open>primitives/address.rs\<close>), memos (\<open>transaction/memo.rs\<close>), and whether the shielded outputs of a
  coinbase transaction can be read by everyone (\<open>primitives/zcash_note_encryption.rs\<close>). The parsers of
  shielded addresses, the unified container and the decryption are parameters.
\<close>

section \<open>Networks of librustzcash\<close>

datatype network_type = Main | Test | RegtestType

fun network_kind_of_type :: "network_type \<Rightarrow> network_kind" where
  "network_kind_of_type Main = MainnetKind"
| "network_kind_of_type Test = TestnetKind"
| "network_kind_of_type RegtestType = RegtestKind"

fun network_type_of_kind :: "network_kind \<Rightarrow> network_type" where
  "network_type_of_kind MainnetKind = Main"
| "network_type_of_kind TestnetKind = Test"
| "network_type_of_kind RegtestKind = RegtestType"

text \<open>The network upgrades of \<open>zcash_protocol\<close>; its unstable ones are not in this build.\<close>

datatype protocol_upgrade =
  PuOverwinter | PuSapling | PuBlossom | PuHeartwood | PuCanopy | PuNu5 | PuNu6 | PuNu6_1 | PuNu6_2 | PuNu6_3

fun upgrade_of_protocol :: "protocol_upgrade \<Rightarrow> network_upgrade" where
  "upgrade_of_protocol PuOverwinter = Overwinter"
| "upgrade_of_protocol PuSapling = Sapling"
| "upgrade_of_protocol PuBlossom = Blossom"
| "upgrade_of_protocol PuHeartwood = Heartwood"
| "upgrade_of_protocol PuCanopy = Canopy"
| "upgrade_of_protocol PuNu5 = Nu5"
| "upgrade_of_protocol PuNu6 = Nu6"
| "upgrade_of_protocol PuNu6_1 = Nu6_1"
| "upgrade_of_protocol PuNu6_2 = Nu6_2"
| "upgrade_of_protocol PuNu6_3 = Nu6_3"

text \<open>\<open>consensus::Parameters\<close> for a network; \<open>None\<close> is a panic, the inner one that there is no height.\<close>

definition protocol_network_type :: "param_libs \<Rightarrow> chain_network \<Rightarrow> network_type option" where
  "protocol_network_type L net = map_option network_type_of_kind (net_kind L net)"

definition protocol_activation_height :: "chain_network \<Rightarrow> protocol_upgrade \<Rightarrow> u32 option" where
  "protocol_activation_height net nu =
     map_option (\<lambda>h. case h of Height n \<Rightarrow> n) (activation_height (upgrade_of_protocol nu) (upgrades_of net))"

section \<open>Addresses\<close>

datatype receiver =
  OrchardReceiver bytes | SaplingReceiver bytes | P2pkh bytes | P2sh bytes | UnknownReceiver u32 bytes

text \<open>The items of a unified address, the parsers of raw shielded addresses, and \<open>ZcashAddress\<close>.\<close>

record ('u, 's, 'o) receiver_libs =
  ua_items :: "'u \<Rightarrow> receiver list"
  orchard_from_raw :: "bytes \<Rightarrow> 'o option"
  sapling_from_bytes :: "bytes \<Rightarrow> 's option"
  sapling_to_bytes :: "'s \<Rightarrow> bytes"
  encode_sapling_address :: "network_type \<Rightarrow> bytes \<Rightarrow> string"

record ('u, 's, 'o) unified =
  un_network :: network_kind
  un_address :: 'u
  un_orchard :: "'o option"
  un_sapling :: "'s option"
  un_transparent :: "address option"

datatype ('u, 's, 'o) zcash_address =
  TransparentAddress address | SaplingAddress network_kind 's | UnifiedAddress "('u, 's, 'o) unified"

definition try_from_transparent_p2pkh :: "network_type \<Rightarrow> bytes \<Rightarrow> (string, ('u, 's, 'o) zcash_address) result" where
  "try_from_transparent_p2pkh network data =
     Ok (TransparentAddress (from_pub_key_hash (network_kind_of_type network) data))"

definition try_from_transparent_p2sh :: "network_type \<Rightarrow> bytes \<Rightarrow> (string, ('u, 's, 'o) zcash_address) result" where
  "try_from_transparent_p2sh network data =
     Ok (TransparentAddress (from_script_hash (network_kind_of_type network) data))"

definition try_from_tex :: "network_type \<Rightarrow> bytes \<Rightarrow> (string, ('u, 's, 'o) zcash_address) result" where
  "try_from_tex network data = Ok (TransparentAddress (from_tex (network_kind_of_type network) data))"

definition try_from_sapling ::
    "('u, 's, 'o) receiver_libs \<Rightarrow> network_type \<Rightarrow> bytes \<Rightarrow> (string, ('u, 's, 'o) zcash_address) result" where
  "try_from_sapling A network data =
     (case sapling_from_bytes A data of
        Some address \<Rightarrow> Ok (SaplingAddress (network_kind_of_type network) address)
      | None \<Rightarrow> Err ''not a valid sapling address'')"

text \<open>The loop over the items; the last receiver of a kind wins.\<close>

fun collect_receivers ::
    "('u, 's, 'o) receiver_libs \<Rightarrow> receiver list \<Rightarrow> ('u, 's, 'o) unified \<Rightarrow> (string, ('u, 's, 'o) unified) result" where
  "collect_receivers A [] u = Ok u"
| "collect_receivers A (OrchardReceiver data # items) u =
     (case orchard_from_raw A data of
        None \<Rightarrow> Err ''Unified Address contains an invalid Orchard receiver.''
      | Some a \<Rightarrow> collect_receivers A items (u\<lparr>un_orchard := Some a\<rparr>))"
| "collect_receivers A (SaplingReceiver data # items) u =
     (case sapling_from_bytes A data of
        None \<Rightarrow> Err ''Unified Address contains an invalid Sapling receiver''
      | Some a \<Rightarrow> collect_receivers A items (u\<lparr>un_sapling := Some a\<rparr>))"
| "collect_receivers A (P2pkh data # items) u =
     collect_receivers A items (u\<lparr>un_transparent := Some (from_pub_key_hash (un_network u) data)\<rparr>)"
| "collect_receivers A (P2sh data # items) u =
     collect_receivers A items (u\<lparr>un_transparent := Some (from_script_hash (un_network u) data)\<rparr>)"
| "collect_receivers A (UnknownReceiver _ _ # items) u = Err ''Unsupported receiver in a Unified Address.''"

definition try_from_unified ::
    "('u, 's, 'o) receiver_libs \<Rightarrow> network_type \<Rightarrow> 'u \<Rightarrow> (string, ('u, 's, 'o) zcash_address) result" where
  "try_from_unified A network unified_address =
     result_bind
       (collect_receivers A (ua_items A unified_address)
          \<lparr>un_network = network_kind_of_type network, un_address = unified_address, un_orchard = None,
           un_sapling = None, un_transparent = None\<rparr>)
       (\<lambda>u. Ok (UnifiedAddress u))"

fun zcash_address_network :: "('u, 's, 'o) zcash_address \<Rightarrow> network_kind" where
  "zcash_address_network (TransparentAddress address) = network_kind address"
| "zcash_address_network (SaplingAddress network _) = network"
| "zcash_address_network (UnifiedAddress u) = un_network u"

fun zcash_address_is_script_hash :: "('u, 's, 'o) zcash_address \<Rightarrow> bool" where
  "zcash_address_is_script_hash (TransparentAddress address) = is_script_hash address"
| "zcash_address_is_script_hash (SaplingAddress _ _) = False"
| "zcash_address_is_script_hash (UnifiedAddress _) = False"

fun zcash_address_is_transparent :: "('u, 's, 'o) zcash_address \<Rightarrow> bool" where
  "zcash_address_is_transparent (TransparentAddress _) = True"
| "zcash_address_is_transparent _ = False"

fun payment_address ::
    "address_ops \<Rightarrow> ('u, 's, 'o) receiver_libs \<Rightarrow> ('u, 's, 'o) zcash_address \<Rightarrow> string option" where
  "payment_address B A (TransparentAddress address) = Some (display_address B address)"
| "payment_address B A (SaplingAddress network address) =
     Some (encode_sapling_address A (network_type_of_kind network) (sapling_to_bytes A address))"
| "payment_address B A (UnifiedAddress _) = None"

section \<open>Memos\<close>

definition memo_try_from :: "bytes \<Rightarrow> (string, bytes) result" where
  "memo_try_from inp =
     (if length inp < 512 then Ok (write_at 0 inp (replicate 512 0))
      else if length inp = 512 then Ok inp
      else Err ''Memos have a max length of 512 bytes.'')"

section \<open>Coinbase outputs\<close>

text \<open>
  The bundles of the librustzcash transaction and what recovering their outputs with the outgoing
  viewing key of zeros gives; Sapling's depends on whether ZIP 212 is enforced.
\<close>

record ('tx, 'so, 'oa) decryption_libs =
  dl_tx :: "bytes \<Rightarrow> u32 \<Rightarrow> 'tx"
  dl_sapling_outputs :: "'tx \<Rightarrow> 'so list option"
  dl_orchard_actions :: "'tx \<Rightarrow> 'oa list option"
  dl_ironwood_actions :: "'tx \<Rightarrow> 'oa list option"
  dl_sapling_recovers :: "bytes \<Rightarrow> 'so \<Rightarrow> bool \<Rightarrow> bool"
  dl_orchard_recovers :: "bytes \<Rightarrow> 'oa \<Rightarrow> bool"
  dl_ironwood_recovers :: "bytes \<Rightarrow> 'oa \<Rightarrow> bool"

text \<open>A loop that returns \<open>false\<close> at the first output that cannot be recovered.\<close>

fun all_recover :: "('x \<Rightarrow> bool) \<Rightarrow> 'x list \<Rightarrow> bool" where
  "all_recover recovers [] = True"
| "all_recover recovers (x # xs) = (if \<not> recovers x then False else all_recover recovers xs)"

definition bundle_recovers :: "('x \<Rightarrow> bool) \<Rightarrow> 'x list option \<Rightarrow> bool" where
  "bundle_recovers recovers bundle = (case bundle of Some xs \<Rightarrow> all_recover recovers xs | None \<Rightarrow> True)"

text \<open>\<open>None\<close> is a panic.\<close>

definition decrypts_successfully ::
    "('tx, 'so, 'oa) decryption_libs \<Rightarrow> crypto \<Rightarrow> transaction \<Rightarrow> chain_network \<Rightarrow> height \<Rightarrow> bool option" where
  "decrypts_successfully D cr tx net h =
     Option.bind (current (upgrades_of net) h) (\<lambda>nu.
       case to_librustzcash cr tx nu of
         Err (LrzError _) \<Rightarrow> Some False
       | Err (LrzPanic _) \<Rightarrow> None
       | Ok _ \<Rightarrow>
           (case (write_transaction cr tx, branch_id nu) of
              (Ok b, Some br) \<Rightarrow>
                (let lrz = dl_tx D b br;
                     ovk = replicate 32 0;
                     zip_212_enforcement = (Canopy \<le> nu)
                 in Some (if \<not> bundle_recovers (\<lambda>out. dl_sapling_recovers D ovk out zip_212_enforcement) (dl_sapling_outputs D lrz)
                          then False
                          else if \<not> bundle_recovers (dl_orchard_recovers D ovk) (dl_orchard_actions D lrz) then False
                          else bundle_recovers (dl_ironwood_recovers D ovk) (dl_ironwood_actions D lrz)))
            | _ \<Rightarrow> None))"

section \<open>Unified addresses follow ZIP 316\<close>

lemma network_kinds_match [simp]:
  "network_kind_of_type (network_type_of_kind k) = k" "network_type_of_kind (network_kind_of_type t) = t"
  by (cases k; simp) (cases t; simp)

text \<open>A receiver a consumer may accept, and what each receiver gives.\<close>

fun acceptable :: "('u, 's, 'o) receiver_libs \<Rightarrow> receiver \<Rightarrow> bool" where
  "acceptable A (OrchardReceiver data) \<longleftrightarrow> orchard_from_raw A data \<noteq> None"
| "acceptable A (SaplingReceiver data) \<longleftrightarrow> sapling_from_bytes A data \<noteq> None"
| "acceptable A (UnknownReceiver _ _) \<longleftrightarrow> False"
| "acceptable A _ \<longleftrightarrow> True"

fun receiver_orchard :: "('u, 's, 'o) receiver_libs \<Rightarrow> receiver \<Rightarrow> 'o option" where
  "receiver_orchard A (OrchardReceiver data) = orchard_from_raw A data"
| "receiver_orchard A _ = None"

fun receiver_sapling :: "('u, 's, 'o) receiver_libs \<Rightarrow> receiver \<Rightarrow> 's option" where
  "receiver_sapling A (SaplingReceiver data) = sapling_from_bytes A data"
| "receiver_sapling A _ = None"

fun receiver_transparent :: "network_kind \<Rightarrow> receiver \<Rightarrow> address option" where
  "receiver_transparent k (P2pkh data) = Some (PayToPublicKeyHash k data)"
| "receiver_transparent k (P2sh data) = Some (PayToScriptHash k data)"
| "receiver_transparent k _ = None"

definition last_given :: "('r \<Rightarrow> 'x option) \<Rightarrow> 'r list \<Rightarrow> 'x option \<Rightarrow> 'x option" where
  "last_given f items start = fold (\<lambda>r d. case f r of Some x \<Rightarrow> Some x | None \<Rightarrow> d) items start"

lemma last_given_simps [simp]:
  "last_given f [] start = start"
  "last_given f (r # items) start = last_given f items (case f r of Some x \<Rightarrow> Some x | None \<Rightarrow> start)"
  by (simp_all add: last_given_def)

lemma last_given_None: "last_given f items None = None \<longleftrightarrow> (\<forall>r \<in> set items. f r = None)"
proof -
  have "last_given f items (Some x) \<noteq> None" for x
    by (induction items arbitrary: x) (auto split: option.split)
  then show ?thesis by (induction items) (auto split: option.split)
qed

text \<open>What is said of a receiver that is not acceptable.\<close>

fun refusal :: "receiver \<Rightarrow> string" where
  "refusal (OrchardReceiver _) = ''Unified Address contains an invalid Orchard receiver.''"
| "refusal (SaplingReceiver _) = ''Unified Address contains an invalid Sapling receiver''"
| "refusal _ = ''Unsupported receiver in a Unified Address.''"

lemma collect_receivers_spec:
  "collect_receivers A items u =
     (case find (\<lambda>r. \<not> acceptable A r) items of
        Some r \<Rightarrow> Err (refusal r)
      | None \<Rightarrow> Ok (u\<lparr>un_orchard := last_given (receiver_orchard A) items (un_orchard u),
          un_sapling := last_given (receiver_sapling A) items (un_sapling u),
          un_transparent := last_given (receiver_transparent (un_network u)) items (un_transparent u)\<rparr>))"
proof (induction A items u rule: collect_receivers.induct)
  case (2 A data items u)
  then show ?case by (cases "orchard_from_raw A data") (simp_all split: option.split)
next
  case (3 A data items u)
  then show ?case by (cases "sapling_from_bytes A data") (simp_all split: option.split)
qed (simp_all add: from_pub_key_hash_def from_script_hash_def split: option.split)

text \<open>
  A unified address is taken exactly when all its receivers are of known kinds and their encodings
  are valid, as ZIP 316 asks of consumers; the error names the first that is not. Then it has, for
  each pool, the last receiver of the pool, and none where there is none.
\<close>

lemma unified_addresses_follow_zip316:
  "case find (\<lambda>r. \<not> acceptable A r) (ua_items A ua) of
     Some r \<Rightarrow> try_from_unified A network ua = Err (refusal r)
   | None \<Rightarrow> (\<exists>u. try_from_unified A network ua = Ok (UnifiedAddress u)
       \<and> un_network u = network_kind_of_type network \<and> un_address u = ua
       \<and> (un_orchard u = None \<longleftrightarrow> (\<forall>data. OrchardReceiver data \<notin> set (ua_items A ua)))
       \<and> (un_sapling u = None \<longleftrightarrow> (\<forall>data. SaplingReceiver data \<notin> set (ua_items A ua)))
       \<and> (un_transparent u = None \<longleftrightarrow> (\<forall>data. P2pkh data \<notin> set (ua_items A ua) \<and> P2sh data \<notin> set (ua_items A ua))))"
proof (cases "find (\<lambda>r. \<not> acceptable A r) (ua_items A ua)")
  case None
  then have ok: "\<forall>r \<in> set (ua_items A ua). acceptable A r" by (simp add: find_None_iff)
  have "receiver_orchard A r = None \<longleftrightarrow> (\<forall>data. r \<noteq> OrchardReceiver data)"
    "receiver_sapling A r = None \<longleftrightarrow> (\<forall>data. r \<noteq> SaplingReceiver data)"
    "receiver_transparent k r = None \<longleftrightarrow> (\<forall>data. r \<noteq> P2pkh data \<and> r \<noteq> P2sh data)"
    if "acceptable A r" for r k using that by (cases r; simp)+
  with ok have "(\<forall>r \<in> set (ua_items A ua). receiver_orchard A r = None) \<longleftrightarrow> (\<forall>data. OrchardReceiver data \<notin> set (ua_items A ua))"
    "(\<forall>r \<in> set (ua_items A ua). receiver_sapling A r = None) \<longleftrightarrow> (\<forall>data. SaplingReceiver data \<notin> set (ua_items A ua))"
    "(\<forall>r \<in> set (ua_items A ua). receiver_transparent k r = None) \<longleftrightarrow>
      (\<forall>data. P2pkh data \<notin> set (ua_items A ua) \<and> P2sh data \<notin> set (ua_items A ua))" for k
    by metis+
  then show ?thesis
    by (simp add: None try_from_unified_def collect_receivers_spec last_given_None)
next
  case (Some r)
  then show ?thesis
    by (simp add: try_from_unified_def collect_receivers_spec)
qed

section \<open>Memos and coinbase outputs\<close>

lemma memo_length: "memo_try_from b = Ok m \<longleftrightarrow> length b \<le> 512 \<and> m = b @ replicate (512 - length b) 0"
  by (auto simp: memo_try_from_def write_at_def)

lemma all_recover_iff: "all_recover r xs \<longleftrightarrow> list_all r xs"
  by (induction xs) simp_all

text \<open>Every output of every bundle has to be recovered, with ZIP 212 enforced from Canopy on.\<close>

lemma coinbase_outputs_are_public:
  assumes "current (upgrades_of net) h = Some nu" "to_librustzcash cr tx nu = Ok ()"
    "write_transaction cr tx = Ok b" "branch_id nu = Some br"
  shows "decrypts_successfully D cr tx net h = Some
    ((\<forall>outs. dl_sapling_outputs D (dl_tx D b br) = Some outs \<longrightarrow>
        list_all (\<lambda>out. dl_sapling_recovers D (replicate 32 0) out (Canopy \<le> nu)) outs)
   \<and> (\<forall>acts. dl_orchard_actions D (dl_tx D b br) = Some acts \<longrightarrow> list_all (dl_orchard_recovers D (replicate 32 0)) acts)
   \<and> (\<forall>acts. dl_ironwood_actions D (dl_tx D b br) = Some acts \<longrightarrow> list_all (dl_ironwood_recovers D (replicate 32 0)) acts))"
  using assms by (simp add: decrypts_successfully_def Let_def bundle_recovers_def all_recover_iff split: option.splits)

end
