(* ===== verification/Solver.thy ===== *)
theory Solver
  imports Block Difficulty
begin

text \<open>
  The mining loop (\<open>work/equihash.rs\<close> of zebra-chain, with the \<open>internal-miner\<close> feature): the solver
  of the \<open>equihash\<close> crate is offered nonces until it finds solutions or is cancelled, and the
  solutions that are valid and meet the target become headers. The verifier and the solver are
  parameters, as is what the world answers when it is asked whether to stop.
\<close>

section \<open>What the loop calls\<close>

text \<open>
  \<open>is_shutting_down\<close> and whether \<open>cancel_fn\<close> is an error, each with the state of the world after it.
\<close>

record 'e miner_world =
  mi_shutting_down :: "'e \<Rightarrow> bool \<times> 'e"
  mi_cancelled :: "'e \<Rightarrow> bool \<times> 'e"

text \<open>
  The verifier, and \<open>solve_200_9\<close>: given the answers to its requests for nonces so far, it asks for
  another one (\<open>None\<close>) or returns solutions.
\<close>

record equihash_libs =
  eq_is_valid :: "nat \<Rightarrow> nat \<Rightarrow> bytes \<Rightarrow> bytes \<Rightarrow> bytes \<Rightarrow> bool"
  eq_solve :: "bytes \<Rightarrow> bytes option list \<Rightarrow> bytes list option"

section \<open>The loop\<close>

text \<open>\<open>None\<close> is a panic.\<close>

definition difficulty_is_valid :: "u256_ops \<Rightarrow> hashing \<Rightarrow> block_header \<Rightarrow> bool option" where
  "difficulty_is_valid U hs header =
     (case to_expanded U (hd_difficulty_threshold header) of
        Some (Some difficulty_threshold) \<Rightarrow>
          map_option (\<lambda>hash. meets_target hash difficulty_threshold) (block_hash hs header)
      | _ \<Rightarrow> None)"

text \<open>One run of the solver; \<open>None\<close> is fuel that ran out.\<close>

fun solver_run ::
    "nat \<Rightarrow> equihash_libs \<Rightarrow> 'e miner_world \<Rightarrow> bytes \<Rightarrow> bytes option list \<Rightarrow> block_header \<Rightarrow> 'e
     \<Rightarrow> (bytes list \<times> block_header \<times> 'e) option" where
  "solver_run 0 Q M inp answers header e = None"
| "solver_run (Suc fuel) Q M inp answers header e =
     (case eq_solve Q inp answers of
        Some solutions \<Rightarrow> Some (solutions, header, e)
      | None \<Rightarrow>
          (case mi_cancelled M e of
             (True, e) \<Rightarrow> solver_run fuel Q M inp (answers @ [None]) header e
           | (False, e) \<Rightarrow>
               (let header = header\<lparr>hd_nonce := next_nonce (hd_nonce header)\<rparr>
                in solver_run fuel Q M inp (answers @ [Some (hd_nonce header)]) header e)))"

text \<open>The loop over the solutions: the valid headers and the last header, or a panic.\<close>

fun valid_solutions ::
    "equihash_libs \<Rightarrow> u256_ops \<Rightarrow> hashing \<Rightarrow> bytes list \<Rightarrow> block_header \<Rightarrow> (block_header list \<times> block_header) option" where
  "valid_solutions Q U hs [] header = Some ([], header)"
| "valid_solutions Q U hs (s # solutions) header =
     (case solution_from_bytes s of
        Err _ \<Rightarrow> None
      | Ok solution \<Rightarrow>
          (let header = header\<lparr>hd_solution := solution\<rparr>
           in case solution_check (eq_is_valid Q) solution header of
                None \<Rightarrow> None
              | Some False \<Rightarrow> valid_solutions Q U hs solutions header
              | Some True \<Rightarrow>
                  Option.bind (difficulty_is_valid U hs header) (\<lambda>meets.
                    map_option (apfst (\<lambda>vs. if meets then header # vs else vs))
                      (valid_solutions Q U hs solutions header))))"

datatype solver_outcome = Mined "block_header list" | SolverCancelled | SolverPanic

fun solver_loop ::
    "nat \<Rightarrow> equihash_libs \<Rightarrow> 'e miner_world \<Rightarrow> u256_ops \<Rightarrow> hashing \<Rightarrow> bytes \<Rightarrow> block_header \<Rightarrow> 'e \<Rightarrow> solver_outcome option" where
  "solver_loop 0 Q M U hs inp header e = None"
| "solver_loop (Suc fuel) Q M U hs inp header e =
     (case mi_shutting_down M e of
        (True, e) \<Rightarrow> Some SolverCancelled
      | (False, e) \<Rightarrow>
          (case mi_cancelled M e of
             (True, e) \<Rightarrow> Some SolverCancelled
           | (False, e) \<Rightarrow>
               (case solver_run fuel Q M inp [] header e of
                  None \<Rightarrow> None
                | Some (solutions, header, e) \<Rightarrow>
                    (case valid_solutions Q U hs solutions header of
                       None \<Rightarrow> Some SolverPanic
                     | Some ([], header) \<Rightarrow> solver_loop fuel Q M U hs inp header e
                     | Some (headers, header) \<Rightarrow> Some (Mined headers)))))"

definition solve ::
    "nat \<Rightarrow> equihash_libs \<Rightarrow> 'e miner_world \<Rightarrow> u256_ops \<Rightarrow> hashing \<Rightarrow> block_header \<Rightarrow> 'e \<Rightarrow> solver_outcome option" where
  "solve fuel Q M U hs header e =
     (case write_header header of
        Err _ \<Rightarrow> Some SolverPanic
      | Ok inp \<Rightarrow>
          if length inp < SOLUTION_INPUT_LENGTH then Some SolverPanic
          else solver_loop fuel Q M U hs (slice 0 SOLUTION_INPUT_LENGTH inp) header e)"

section \<open>What the loop relies on\<close>

text \<open>
  The solver gives up when it gets no nonce, and its solutions have the length of
  Equihash(200, 9).
\<close>

definition equihash_documented :: "equihash_libs \<Rightarrow> bool" where
  "equihash_documented Q \<longleftrightarrow>
     (\<forall>inp answers. eq_solve Q inp (answers @ [None]) \<noteq> None)
   \<and> (\<forall>inp answers solutions. eq_solve Q inp answers = Some solutions \<longrightarrow> list_all (\<lambda>s. length s = SOLUTION_SIZE) solutions)"

text \<open>The world asks to stop after at most \<open>left e\<close> more questions, and keeps to it.\<close>

definition stops_within :: "('e \<Rightarrow> nat) \<Rightarrow> 'e miner_world \<Rightarrow> bool" where
  "stops_within left M \<longleftrightarrow>
     (\<forall>e. left (snd (mi_shutting_down M e)) \<le> left e)
   \<and> (\<forall>e. if left e = 0 then fst (mi_cancelled M e) \<and> left (snd (mi_cancelled M e)) = 0
          else left (snd (mi_cancelled M e)) < left e)"

section \<open>Every run ends\<close>

lemma solver_run_ends:
  assumes "equihash_documented Q" "stops_within left M" "left e + 2 \<le> fuel"
  shows "\<exists>solutions h' e'. solver_run fuel Q M inp answers h e = Some (solutions, h', e') \<and> left e' \<le> left e"
  using assms(3)
proof (induction fuel arbitrary: answers h e)
  case (Suc fuel)
  show ?case
  proof (cases "eq_solve Q inp answers")
    case None
    obtain stop e1 where c: "mi_cancelled M e = (stop, e1)" by (cases "mi_cancelled M e")
    show ?thesis
    proof (cases stop)
      case True
      obtain n where n: "fuel = Suc n" using Suc.prems by (cases fuel) auto
      obtain solutions where "eq_solve Q inp (answers @ [None]) = Some solutions"
        using assms(1) unfolding equihash_documented_def by blast
      moreover have "left e1 \<le> left e" using assms(2) c
        by (auto simp: stops_within_def dest!: spec [of _ e] split: if_splits)
      ultimately show ?thesis using None c True n by simp
    next
      case False
      then have less: "left e1 < left e" using assms(2) c
        by (auto simp: stops_within_def dest!: spec [of _ e] split: if_splits)
      with Suc.prems have "left e1 + 2 \<le> fuel" by simp
      from Suc.IH [OF this] less obtain solutions h' e' where
        "solver_run fuel Q M inp (answers @ [Some (next_nonce (hd_nonce h))]) (h\<lparr>hd_nonce := next_nonce (hd_nonce h)\<rparr>) e1
          = Some (solutions, h', e')" "left e' \<le> left e"
        using less_imp_le le_trans by meson
      with None c False show ?thesis by (simp add: Let_def)
    qed
  qed simp
qed simp

section \<open>What is mined\<close>

text \<open>The template with its nonce counted up and another solution.\<close>

definition of_template :: "block_header \<Rightarrow> block_header \<Rightarrow> bool" where
  "of_template template h \<longleftrightarrow>
     (\<exists>k s. h = template\<lparr>hd_nonce := (next_nonce ^^ k) (hd_nonce template), hd_solution := s\<rparr>)"

lemma solver_run_template:
  "solver_run fuel Q M inp answers h e = Some (solutions, h', e') \<Longrightarrow>
   \<exists>k. h' = h\<lparr>hd_nonce := (next_nonce ^^ k) (hd_nonce h)\<rparr>"
proof (induction fuel Q M inp answers h e rule: solver_run.induct)
  case (2 fuel Q M inp answers h e)
  have "\<exists>k. h = h\<lparr>hd_nonce := (next_nonce ^^ k) (hd_nonce h)\<rparr>" by (rule exI [of _ 0]) simp
  moreover have "\<exists>k. h' = h\<lparr>hd_nonce := (next_nonce ^^ k) (hd_nonce h)\<rparr>"
    if "\<exists>k. h' = h\<lparr>hd_nonce := (next_nonce ^^ k) (next_nonce (hd_nonce h))\<rparr>"
  proof -
    from that obtain k where "h' = h\<lparr>hd_nonce := (next_nonce ^^ Suc k) (hd_nonce h)\<rparr>"
      by (auto simp: funpow_swap1)
    then show ?thesis by blast
  qed
  ultimately show ?case using 2 by (auto simp: Let_def split: option.splits prod.splits bool.splits)
qed simp

lemma solver_run_documented:
  assumes "equihash_documented Q" "solver_run fuel Q M inp answers h e = Some (solutions, h', e')"
  shows "list_all (\<lambda>s. length s = SOLUTION_SIZE) solutions"
  using assms
  by (induction fuel Q M inp answers h e rule: solver_run.induct)
    (auto simp: Let_def equihash_documented_def split: option.splits prod.splits bool.splits)

lemma of_template_step:
  assumes "of_template template h"
  shows "of_template template (h\<lparr>hd_solution := s\<rparr>)"
    "of_template template (h\<lparr>hd_nonce := (next_nonce ^^ k) (hd_nonce h)\<rparr>)"
proof -
  obtain j s' where h: "h = template\<lparr>hd_nonce := (next_nonce ^^ j) (hd_nonce template), hd_solution := s'\<rparr>"
    using assms by (auto simp: of_template_def)
  show "of_template template (h\<lparr>hd_solution := s\<rparr>)" unfolding of_template_def h by (intro exI) simp
  have "(next_nonce ^^ k) (hd_nonce h) = (next_nonce ^^ (k + j)) (hd_nonce template)" by (simp add: h funpow_add)
  then show "of_template template (h\<lparr>hd_nonce := (next_nonce ^^ k) (hd_nonce h)\<rparr>)"
    unfolding of_template_def h by (intro exI [of _ "k + j"] exI [of _ s']) simp
qed

lemma length_next_nonce: "length (next_nonce b) = length b"
  using increment_reversed_value [of "rev b"]
  by (cases "increment_reversed (rev b)") (simp add: next_nonce_def increment_big_endian_def)

lemma length_next_nonces: "length ((next_nonce ^^ k) b) = length b"
  by (induction k) (simp_all add: length_next_nonce)

lemma template_valid:
  "valid_header template \<Longrightarrow> of_template template h \<Longrightarrow> valid_solution (hd_solution h) \<Longrightarrow> valid_header h"
  by (auto simp: valid_header_def of_template_def length_next_nonces)

text \<open>What a mined header has to be.\<close>

definition mined_header :: "equihash_libs \<Rightarrow> hashing \<Rightarrow> nat \<Rightarrow> block_header \<Rightarrow> block_header \<Rightarrow> bool" where
  "mined_header Q hs target template h \<longleftrightarrow>
     of_template template h \<and> valid_header h \<and> solution_check (eq_is_valid Q) (hd_solution h) h = Some True
   \<and> (\<exists>hash. block_hash hs h = Some hash \<and> meets_target hash target)"

lemma solution_check_defined: "valid_header h \<Longrightarrow> \<exists>ok. solution_check v s h = Some ok"
proof -
  assume h: "valid_header h"
  then obtain b where b: "write_header h = Ok b" using codec_header.written by blast
  have "SOLUTION_INPUT_LENGTH \<le> length b" using length_write_header [OF h b] 
    by (auto simp: HEADER_SERIALIZED_SIZE_def HEADER_REGTEST_SERIALIZED_SIZE_def split: solution.splits)
  then show ?thesis using b by (simp add: solution_check_def)
qed

lemma valid_solutions_spec:
  assumes "valid_header template" "of_template template h"
    "to_expanded U (hd_difficulty_threshold template) = Some (Some target)"
    "list_all (\<lambda>s. length s = SOLUTION_SIZE) solutions"
  shows "\<exists>vs h'. valid_solutions Q U hs solutions h = Some (vs, h') \<and> list_all (mined_header Q hs target template) vs
    \<and> of_template template h'"
  using assms(2,4)
proof (induction solutions arbitrary: h)
  case (Cons s solutions)
  then have len: "length s = SOLUTION_SIZE" and rest: "list_all (\<lambda>s. length s = SOLUTION_SIZE) solutions" by auto
  define h1 where "h1 = h\<lparr>hd_solution := Common s\<rparr>"
  have s: "solution_from_bytes s = Ok (Common s)" by (simp add: solution_from_bytes_Ok_iff len)
  have of1: "of_template template h1" unfolding h1_def by (rule of_template_step(1) [OF Cons.prems(1)])
  have v: "valid_header h1" by (rule template_valid [OF assms(1) of1]) (simp add: h1_def len)
  obtain ok where ok: "solution_check (eq_is_valid Q) (Common s) h1 = Some ok" using solution_check_defined [OF v] by blast
  obtain hash where hash: "block_hash hs h1 = Some hash" using block_hash_Ok [OF v] by blast
  have "hd_difficulty_threshold h1 = hd_difficulty_threshold template" using of1 by (auto simp: of_template_def)
  then have d: "difficulty_is_valid U hs h1 = Some (meets_target hash target)"
    by (simp add: difficulty_is_valid_def assms(3) hash)
  obtain vs h' where ih: "valid_solutions Q U hs solutions h1 = Some (vs, h')"
    "list_all (mined_header Q hs target template) vs" "of_template template h'"
    using Cons.IH [OF of1 rest] by blast
  have "hd_solution h1 = Common s" by (simp add: h1_def)
  then have m: "mined_header Q hs target template h1" if ok "meets_target hash target"
    using that of1 v ok hash by (simp add: mined_header_def)
  show ?case
    using ih m d by (cases ok) (auto simp: s ok Let_def h1_def [symmetric])
qed simp

lemma solver_loop_spec:
  assumes "equihash_documented Q" "stops_within left M" "valid_header template"
    "to_expanded U (hd_difficulty_threshold template) = Some (Some target)"
    and "of_template template h" "left e + 3 \<le> fuel"
  shows "\<exists>r. solver_loop fuel Q M U hs inp h e = Some r
    \<and> (r = SolverCancelled \<or> (\<exists>vs. r = Mined vs \<and> vs \<noteq> [] \<and> list_all (mined_header Q hs target template) vs))"
  using assms(5,6)
proof (induction fuel arbitrary: h e)
  case (Suc fuel)
  obtain down e1 where d: "mi_shutting_down M e = (down, e1)" by (cases "mi_shutting_down M e")
  then have e1: "left e1 \<le> left e" using assms(2) by (auto simp: stops_within_def dest!: spec [of _ e])
  obtain stop e2 where c: "mi_cancelled M e1 = (stop, e2)" by (cases "mi_cancelled M e1")
  show ?case
  proof (cases "down \<or> stop")
    case True
    then show ?thesis using d c by (cases down) auto
  next
    case False
    then have e2: "left e2 < left e1" using assms(2) c
      by (auto simp: stops_within_def dest!: spec [of _ e1] split: if_splits)
    then have "left e2 + 2 \<le> fuel" using e1 Suc.prems(2) by simp
    from solver_run_ends [OF assms(1,2) this] obtain solutions h1 e3 where
      run: "solver_run fuel Q M inp [] h e2 = Some (solutions, h1, e3)" "left e3 \<le> left e2" by blast
    have of1: "of_template template h1"
      using solver_run_template [OF run(1)] of_template_step(2) [OF Suc.prems(1)] by auto
    obtain vs h2 where vs: "valid_solutions Q U hs solutions h1 = Some (vs, h2)"
      "list_all (mined_header Q hs target template) vs" "of_template template h2"
      using valid_solutions_spec [OF assms(3) of1 assms(4) solver_run_documented [OF assms(1) run(1)]] by blast
    have "left e3 + 3 \<le> fuel" using e1 e2 run(2) Suc.prems(2) by simp
    note ih = Suc.IH [OF vs(3) this]
    show ?thesis using False d c run(1) vs ih by (cases vs) auto
  qed
qed simp

text \<open>
  Mining ends and mines only what the chain accepts. With a template whose target expands, a solver
  as documented and a world that asks to stop after a bounded number of questions, the loop does not
  panic: it is cancelled or returns headers, at least one. Each is the template with its nonce
  counted up and a solution that the verifier accepts, and its hash meets the target.
\<close>

lemma mining_ends_with_valid_headers:
  assumes "equihash_documented Q" "stops_within left M" "valid_header template"
    "to_expanded U (hd_difficulty_threshold template) = Some (Some target)" "left e + 3 \<le> fuel"
  shows "solve fuel Q M U hs template e = Some SolverCancelled
    \<or> (\<exists>headers. solve fuel Q M U hs template e = Some (Mined headers) \<and> headers \<noteq> []
         \<and> list_all (mined_header Q hs target template) headers)"
proof -
  obtain b where b: "write_header template = Ok b" using codec_header.written [OF assms(3)] by blast
  then have "SOLUTION_INPUT_LENGTH \<le> length b" using length_write_header [OF assms(3) b]
    by (auto simp: HEADER_SERIALIZED_SIZE_def HEADER_REGTEST_SERIALIZED_SIZE_def split: solution.splits)
  moreover have "of_template template template"
    unfolding of_template_def by (intro exI [of _ 0] exI [of _ "hd_solution template"]) simp
  ultimately show ?thesis
    using b solver_loop_spec [OF assms(1-4) _ assms(5), of template hs "slice 0 SOLUTION_INPUT_LENGTH b"]
    by (auto simp: solve_def)
qed

section \<open>Instances\<close>

text \<open>A solver that answers the second nonce, and a world that asks to stop after a number of questions.\<close>

definition demo_equihash :: equihash_libs where
  "demo_equihash =
     \<lparr>eq_is_valid = \<lambda>n k inp nonce s. True,
      eq_solve = \<lambda>inp answers. if answers = [] then None else if None \<in> set answers then Some []
        else if length answers < 2 then None else Some [replicate SOLUTION_SIZE 0]\<rparr>"

definition demo_world :: "nat miner_world" where
  "demo_world = \<lparr>mi_shutting_down = \<lambda>n. (False, n), mi_cancelled = \<lambda>n. (n = 0, n - 1)\<rparr>"

lemma demo_equihash_documented: "equihash_documented demo_equihash"
  by (auto simp: equihash_documented_def demo_equihash_def)

lemma demo_world_stops: "stops_within id demo_world"
  by (simp add: stops_within_def demo_world_def)

lemma hd_threshold: "hd_difficulty_threshold demo_header = 0x1f07ffff"
  by (simp add: demo_header_def)

lemma mining_ends_with_valid_headers_witness:
  "(\<exists>target. to_expanded exact_uint 0x1f07ffff = Some (Some target) \<and>
     (solve 8 demo_equihash demo_world exact_uint demo_hashing demo_header (5 :: nat) = Some SolverCancelled
      \<or> (\<exists>headers. solve 8 demo_equihash demo_world exact_uint demo_hashing demo_header 5 = Some (Mined headers)
           \<and> headers \<noteq> [] \<and> list_all (mined_header demo_equihash demo_hashing target demo_header) headers)))"
proof -
  have target: "to_expanded exact_uint (hd_difficulty_threshold demo_header) = Some (Some (0x07ffff * 256 ^ 28))"
    using to_expanded_spec [OF exact_uint_documented, of "0x1f07ffff"] by (simp add: demo_header_def to_target_def)
  have "id 5 + 3 \<le> (8 :: nat)" by simp
  from mining_ends_with_valid_headers [OF demo_equihash_documented demo_world_stops demo_valid(1) target this]
  show ?thesis using target unfolding hd_threshold by blast
qed

end
