(* ===== verification/Classify.thy ===== *)
theory Classify
  imports TxParse ValueBalance
begin

text \<open>
  The turnstile classifier (\<open>zeronym/shim/src/classify.rs\<close>): from transaction bytes to a
  verdict, and the evidence logged with it. The transaction reader is the one of \<open>TxParse\<close>; its
  position in the input is the number of bytes it did not leave over.
\<close>

section \<open>Verdicts\<close>

datatype tx_class = Migration | PassThrough | Unparseable

fun treat_as_migration :: "tx_class \<Rightarrow> bool" where
  "treat_as_migration Migration = True"
| "treat_as_migration Unparseable = True"
| "treat_as_migration PassThrough = False"

fun display_class :: "tx_class \<Rightarrow> string" where
  "display_class Migration = ''MIGRATION''"
| "display_class PassThrough = ''PASS-THROUGH''"
| "display_class Unparseable = ''UNPARSEABLE''"

record evidence =
  ev_version :: string
  ev_orchard_actions :: nat
  ev_orchard_vb :: int
  ev_ironwood_vb :: int
  ev_sapling_vb :: int
  ev_expiry_height :: "u32 option"
  ev_inputs :: nat
  ev_outputs :: nat
  ev_len :: nat
  ev_error :: "string option"
  ev_class :: tx_class

text \<open>\<open>str::contains\<close>.\<close>

fun str_contains :: "string \<Rightarrow> string \<Rightarrow> bool" where
  "str_contains needle [] = (needle = [])"
| "str_contains needle (c # cs) =
     (take (length needle) (c # cs) = needle \<or> str_contains needle cs)"

definition is_unrecognised_branch :: "evidence \<Rightarrow> bool" where
  "is_unrecognised_branch ev =
     (case ev_error ev of None \<Rightarrow> False | Some err \<Rightarrow> str_contains ''invalid consensus branch id'' err)"

definition unparseable :: "nat \<Rightarrow> string \<Rightarrow> evidence" where
  "unparseable len err =
     \<lparr>ev_version = ''unparseable'', ev_orchard_actions = 0, ev_orchard_vb = 0, ev_ironwood_vb = 0,
      ev_sapling_vb = 0, ev_expiry_height = None, ev_inputs = 0, ev_outputs = 0, ev_len = len,
      ev_error = Some err, ev_class = Unparseable\<rparr>"

section \<open>The predicate\<close>

definition is_orchard_touching :: "transaction \<Rightarrow> bool" where
  "is_orchard_touching tx = (orchard_shielded_data tx \<noteq> None)"

definition orchard_action_count :: "transaction \<Rightarrow> nat" where
  "orchard_action_count tx = length (orchard_actions tx)"

definition classify_with_evidence :: "crypto \<Rightarrow> bytes \<Rightarrow> evidence" where
  "classify_with_evidence cr raw =
     (case read_transaction cr raw of
        Err err \<Rightarrow> unparseable (length raw) (display_ser_error err)
      | Ok (tx, rest) \<Rightarrow>
          let position = length raw - length rest
          in if position \<noteq> length raw
             then unparseable (length raw)
               (''trailing bytes: parsed '' @ show_nat position @ '' of '' @ show_nat (length raw) @ '' bytes'')
             else
               \<lparr>ev_version = ''V'' @ show_nat (unat (tx_version tx)),
                ev_orchard_actions = orchard_action_count tx,
                ev_orchard_vb = vb_orchard (orchard_value_balance tx),
                ev_ironwood_vb = vb_ironwood (ironwood_value_balance tx),
                ev_sapling_vb = vb_sapling (sapling_value_balance tx),
                ev_expiry_height = map_option height_u32 (expiry_height tx),
                ev_inputs = length (tx_inputs tx),
                ev_outputs = length (tx_outputs tx),
                ev_len = length raw,
                ev_error = None,
                ev_class = (if is_orchard_touching tx then Migration else PassThrough)\<rparr>)"

definition classify :: "crypto \<Rightarrow> bytes \<Rightarrow> tx_class" where
  "classify cr raw = ev_class (classify_with_evidence cr raw)"

section \<open>Facts about the classifier\<close>

lemma read_transaction_suffix:
  assumes "push_num_bip34 cr" "read_transaction cr raw = Ok (tx, rest)"
  shows "length raw - length rest = length raw \<longleftrightarrow> rest = []"
proof -
  obtain b where b: "write_transaction cr tx = Ok b" "raw = b @ rest"
    using assms by (auto simp: read_transaction_iff)
  have "b \<noteq> []"
  proof
    assume "b = []"
    with b(1) have "length (le_of_nat 4 (unat (tx_header tx))) = length ([] :: bytes)"
      by (auto simp: write_transaction_def write_u32_def map_sum_Ok_iff simp del: length_le_of_nat)
    then show False by simp
  qed
  with b show ?thesis by auto
qed

lemma orchard_presence:
  assumes "push_num_bip34 cr" "read_transaction cr raw = Ok (tx, rest)"
  shows "is_orchard_touching tx \<longleftrightarrow> orchard_actions tx \<noteq> []"
proof -
  have "valid_fields cr tx" using assms by (auto simp: read_transaction_iff)
  with valid_orchard_flags(1) show ?thesis
    by (auto simp: is_orchard_touching_def orchard_actions_def od_action_list_def split: option.splits)
qed

lemma classify_Err: "read_transaction cr raw = Err e \<Longrightarrow>
    classify_with_evidence cr raw = unparseable (length raw) (display_ser_error e)"
  by (simp add: classify_with_evidence_def)

lemma classify_Ok:
  assumes "push_num_bip34 cr" "read_transaction cr raw = Ok (tx, [])"
  shows "classify cr raw = (if orchard_actions tx = [] then PassThrough else Migration)
    \<and> ev_error (classify_with_evidence cr raw) = None
    \<and> ev_orchard_actions (classify_with_evidence cr raw) = length (orchard_actions tx)"
  using assms orchard_presence [OF assms]
  by (auto simp: classify_def classify_with_evidence_def orchard_action_count_def)

lemma classify_trailing:
  assumes "push_num_bip34 cr" "read_transaction cr raw = Ok (tx, rest)" "rest \<noteq> []"
  shows "classify cr raw = Unparseable \<and> ev_error (classify_with_evidence cr raw) \<noteq> None"
  using assms read_transaction_suffix [OF assms(1,2)]
  by (auto simp: classify_def classify_with_evidence_def unparseable_def Let_def)

lemma classify_cases:
  assumes "push_num_bip34 cr"
  shows "(classify cr raw = PassThrough \<longleftrightarrow>
        (\<exists>tx. read_transaction cr raw = Ok (tx, []) \<and> orchard_actions tx = []))
    \<and> (classify cr raw = Migration \<longleftrightarrow>
        (\<exists>tx. read_transaction cr raw = Ok (tx, []) \<and> orchard_actions tx \<noteq> []))
    \<and> (\<not> treat_as_migration (classify cr raw) \<longleftrightarrow> classify cr raw = PassThrough)
    \<and> (0 < ev_orchard_actions (classify_with_evidence cr raw) \<longleftrightarrow> classify cr raw = Migration)
    \<and> (ev_error (classify_with_evidence cr raw) \<noteq> None \<longleftrightarrow> classify cr raw = Unparseable)"
proof (cases "read_transaction cr raw")
  case (Inl e)
  then show ?thesis
    by (simp add: classify_def classify_Err unparseable_def)
next
  case (Inr r)
  obtain tx rest where r: "read_transaction cr raw = Ok (tx, rest)" using Inr by (cases r) simp
  show ?thesis
  proof (cases "rest = []")
    case True
    with classify_Ok [OF assms, of raw tx] r show ?thesis by auto
  next
    case False
    have "0 < ev_orchard_actions (classify_with_evidence cr raw) \<longleftrightarrow> False"
      using r False read_transaction_suffix [OF assms r]
      by (simp add: classify_with_evidence_def unparseable_def Let_def)
    with classify_trailing [OF assms r False] r False show ?thesis by auto
  qed
qed

lemma classify_passes_iff:
  "push_num_bip34 cr \<Longrightarrow> classify cr raw = PassThrough \<longleftrightarrow>
     (\<exists>tx. read_transaction cr raw = Ok (tx, []) \<and> orchard_actions tx = [])"
  using classify_cases [of cr raw] by simp

section \<open>Properties\<close>

text \<open>
  C2. The classifier hands a transaction to the operator's indexer only when the bytes are, in
  full, one well-formed transaction without Orchard actions; a transaction with an Orchard action
  is a migration whatever its version, balances or other pools, and everything else, trailing
  bytes included, is treated as one. An Ironwood bundle does not matter. The evidence agrees: the
  action count is positive exactly for a migration, an error is given exactly when nothing could
  be read.
\<close>

theorem only_orchard_free_transactions_pass:
  assumes "push_num_bip34 cr"
  shows "(classify cr raw = PassThrough \<longleftrightarrow>
        (\<exists>tx. read_transaction cr raw = Ok (tx, []) \<and> orchard_actions tx = []))
    \<and> (classify cr raw = Migration \<longleftrightarrow>
        (\<exists>tx. read_transaction cr raw = Ok (tx, []) \<and> orchard_actions tx \<noteq> []))
    \<and> (\<not> treat_as_migration (classify cr raw) \<longleftrightarrow> classify cr raw = PassThrough)
    \<and> (0 < ev_orchard_actions (classify_with_evidence cr raw) \<longleftrightarrow> classify cr raw = Migration)
    \<and> (ev_error (classify_with_evidence cr raw) \<noteq> None \<longleftrightarrow> classify cr raw = Unparseable)"
  using classify_cases [OF assms, of raw] by simp

lemma demo_reads:
  "read_transaction demo_crypto ([1,0,0,0, 0, 0, 0,0,0,0] @ r) = Ok (V1 [] [] (LockHeight (Height 0)), r)"
  using demo_written
  by (simp add: read_transaction_iff [OF demo_bip34] valid_fields_def valid_inputs_def valid_outputs_def
      lrz_accepts_def MAX_BLOCK_BYTES_def LOCK_MIN_TIMESTAMP_def)

theorem only_orchard_free_transactions_pass_witness:
  "classify demo_crypto [1,0,0,0, 0, 0, 0,0,0,0] = PassThrough
   \<and> classify demo_crypto [1,0,0,0, 0, 0, 0,0,0,0, 7] \<noteq> PassThrough"
  using demo_reads [of "[]"] demo_reads [of "[7]"]
    only_orchard_free_transactions_pass [OF demo_bip34, of "[1,0,0,0, 0, 0, 0,0,0,0]"]
    only_orchard_free_transactions_pass [OF demo_bip34, of "[1,0,0,0, 0, 0, 0,0,0,0, 7]"]
  by (simp add: orchard_actions_def)

section \<open>The upgrade signal\<close>

lemma read_u32_head: "length h = 4 \<Longrightarrow> read_u32 (h @ r) = Ok (word_of_nat (nat_of_le h), r)"
  by (simp add: read_u32_def pbind_def read_exact_def preturn_def)

lemma read_unknown_branch:
  assumes "length b = 4" "nu_try_from_branch (word_of_nat (nat_of_le b)) = None"
  shows "read_branch least msg (b @ r) = Err (Parse ''invalid consensus branch id'')"
  using assms(2) by (simp add: read_branch_def read_u32_head [OF assms(1)] pfail_def)

lemma read_group_id_head:
  "length g = 4 \<Longrightarrow> word_of_nat (nat_of_le g) = i \<Longrightarrow> expect_group_id i msg (g @ r) = Ok ((), r)"
  by (simp add: expect_group_id_def read_u32_head)

lemma read_version_unknown_branch:
  assumes "(v, word_of_nat (nat_of_le g)) \<in> {((5, True), TX_V5_VERSION_GROUP_ID), ((6, True), TX_V6_VERSION_GROUP_ID)}"
    and "length g = 4" "length b = 4" "nu_try_from_branch (word_of_nat (nat_of_le b)) = None"
  shows "read_version cr v (g @ b @ r) = Err (Parse ''invalid consensus branch id'')"
  using assms
  by (auto simp: read_version_def check_lrz_def read_v5_fields_def read_v6_fields_def pbind_def
      read_group_id_head read_unknown_branch)

lemma read_unknown_branch_transaction:
  assumes "length h = 4" "length g = 4" "length b = 4"
    and "(header_version (word_of_nat (nat_of_le h)), word_of_nat (nat_of_le g)) \<in>
          {((5, True), TX_V5_VERSION_GROUP_ID), ((6, True), TX_V6_VERSION_GROUP_ID)}"
    and "nu_try_from_branch (word_of_nat (nat_of_le b)) = None"
  shows "read_transaction cr (h @ g @ b @ rest) = Err (Parse ''invalid consensus branch id'')"
proof -
  have "take MAX_BLOCK_BYTES (h @ g @ b @ rest) = h @ g @ b @ take (MAX_BLOCK_BYTES - 12) rest"
    using assms(1-3) by (simp add: MAX_BLOCK_BYTES_def)
  with read_version_unknown_branch [OF assms(4,2,3,5)] show ?thesis
    by (simp add: read_transaction_def ptake_def read_limited_def read_u32_head [OF assms(1)])
qed

text \<open>
  At a network upgrade this build does not know, every version 5 or 6 transaction of the new
  branch is diverted, whatever follows the branch id, and is reported as such; and nothing that
  was read at all is ever reported so.
\<close>

theorem unknown_branch_is_diverted_and_reported:
  assumes "length h = 4" "length g = 4" "length b = 4"
    and "(header_version (word_of_nat (nat_of_le h)), word_of_nat (nat_of_le g)) \<in>
          {((5, True), TX_V5_VERSION_GROUP_ID), ((6, True), TX_V6_VERSION_GROUP_ID)}"
    and "nu_try_from_branch (word_of_nat (nat_of_le b)) = None"
  shows "classify cr (h @ g @ b @ rest) = Unparseable
    \<and> treat_as_migration (classify cr (h @ g @ b @ rest))
    \<and> is_unrecognised_branch (classify_with_evidence cr (h @ g @ b @ rest))
    \<and> (is_unrecognised_branch (classify_with_evidence cr raw) \<longrightarrow> classify cr raw = Unparseable)"
proof -
  have "classify cr raw = Unparseable" if "is_unrecognised_branch (classify_with_evidence cr raw)"
    using that
    by (auto simp: classify_def is_unrecognised_branch_def classify_with_evidence_def unparseable_def Let_def
        split: sum.splits if_splits)
  with classify_Err [OF read_unknown_branch_transaction [OF assms, of cr rest]] show ?thesis
    by (simp add: classify_def unparseable_def is_unrecognised_branch_def)
qed

theorem unknown_branch_is_diverted_and_reported_witness:
  "classify demo_crypto ([5, 0, 0, 0x80] @ [0x0a, 0x27, 0xa7, 0x26] @ [1, 2, 3, 4] @ []) = Unparseable"
proof -
  have "nu_try_from_branch (word_of_nat (nat_of_le [1, 2, 3, 4])) = None"
    by (simp add: nu_try_from_branch_def CONSENSUS_BRANCH_IDS_def)
  moreover have "header_version (word_of_nat (nat_of_le [5, 0, 0, 0x80])) = (5, True)"
    "word_of_nat (nat_of_le [0x0a, 0x27, 0xa7, 0x26]) = TX_V5_VERSION_GROUP_ID"
    by (simp_all add: header_version_def TX_V5_VERSION_GROUP_ID_def)
  ultimately show ?thesis
    using unknown_branch_is_diverted_and_reported
      [of "[5, 0, 0, 0x80]" "[0x0a, 0x27, 0xa7, 0x26]" "[1, 2, 3, 4]" demo_crypto "[]" "[]"]
    by simp
qed

end
