(* ===== verification/NymStatus.thy ===== *)
theory NymStatus
  imports Prelude
begin

text \<open>
  What the shim tells about its mixnet client (\<open>MixnetStatus\<close> in
  \<open>zeronym/shim/src/nym.rs\<close>): the flags and counters, the operations that change them, the
  two JSON documents and the health verdict. The atomics are the fields of a record, an operation
  is one step on it, and the wall clock is an argument.
\<close>

section \<open>State and operations\<close>

record mixnet_status =
  configured :: bool
  connected :: bool
  deaths :: u64
  consecutive_failures :: u64
  diag_flag :: bool
  replies_received :: u64
  empty_inbound :: u64
  sends_dispatched :: u64
  last_reply_unix :: u64
  started_unix :: u64
  own_address :: "string option"

definition mixnet_status_default :: mixnet_status where
  "mixnet_status_default =
     \<lparr>configured = False, connected = False, deaths = 0, consecutive_failures = 0, diag_flag = False,
      replies_received = 0, empty_inbound = 0, sends_dispatched = 0, last_reply_unix = 0,
      started_unix = 0, own_address = None\<rparr>"

definition set_configured :: "u64 \<Rightarrow> mixnet_status \<Rightarrow> mixnet_status" where
  "set_configured unix_now s = s\<lparr>configured := True, started_unix := unix_now\<rparr>"

definition set_connected :: "mixnet_status \<Rightarrow> mixnet_status" where
  "set_connected s = s\<lparr>connected := True, consecutive_failures := 0\<rparr>"

definition set_died :: "mixnet_status \<Rightarrow> mixnet_status" where
  "set_died s = s\<lparr>connected := False, deaths := deaths s + 1\<rparr>"

definition set_rebuild_failed :: "mixnet_status \<Rightarrow> mixnet_status" where
  "set_rebuild_failed s = s\<lparr>connected := False, consecutive_failures := consecutive_failures s + 1\<rparr>"

definition enable_diag :: "mixnet_status \<Rightarrow> mixnet_status" where
  "enable_diag s = s\<lparr>diag_flag := True\<rparr>"

definition diag_enabled :: "mixnet_status \<Rightarrow> bool" where
  "diag_enabled s = diag_flag s"

definition record_send :: "mixnet_status \<Rightarrow> mixnet_status" where
  "record_send s = s\<lparr>sends_dispatched := sends_dispatched s + 1\<rparr>"

definition record_inbound :: "bool \<Rightarrow> u64 \<Rightarrow> mixnet_status \<Rightarrow> mixnet_status" where
  "record_inbound is_empty unix_now s =
     (if is_empty then s\<lparr>empty_inbound := empty_inbound s + 1\<rparr>
      else s\<lparr>replies_received := replies_received s + 1, last_reply_unix := unix_now\<rparr>)"

definition inbound_total :: "mixnet_status \<Rightarrow> u64" where
  "inbound_total s = replies_received s + empty_inbound s"

definition set_address :: "string \<Rightarrow> mixnet_status \<Rightarrow> mixnet_status" where
  "set_address a s = s\<lparr>own_address := Some a\<rparr>"

section \<open>What it publishes\<close>

definition show_u64 :: "u64 \<Rightarrow> string" where
  "show_u64 v = show_nat (unat v)"

definition to_json :: "mixnet_status \<Rightarrow> string" where
  "to_json s =
     ''{'' @ [CHR 0x22] @ ''diversion_configured'' @ [CHR 0x22] @ '':'' @ show_bool (configured s) @
     '','' @ [CHR 0x22] @ ''mixnet_connected'' @ [CHR 0x22] @ '':'' @ show_bool (connected s) @
     '','' @ [CHR 0x22] @ ''client_deaths'' @ [CHR 0x22] @ '':'' @ show_u64 (deaths s) @
     '','' @ [CHR 0x22] @ ''consecutive_rebuild_failures'' @ [CHR 0x22] @ '':''
     @ show_u64 (consecutive_failures s) @ ''}''"

definition is_healthy :: "mixnet_status \<Rightarrow> bool" where
  "is_healthy s \<longleftrightarrow> \<not> configured s \<or> connected s"

text \<open>\<open>address.rsplit('@').next()\<close>: what follows the last \<open>@\<close>.\<close>

definition gateway_of :: "string \<Rightarrow> string" where
  "gateway_of address = rev (takeWhile (\<lambda>c. c \<noteq> CHR ''@'') (rev address))"

definition json_key :: "string \<Rightarrow> string" where
  "json_key k = [CHR 0x22] @ k @ [CHR 0x22] @ '':''"

definition diag_json :: "u64 \<Rightarrow> mixnet_status \<Rightarrow> string" where
  "diag_json unix_now s =
     (let started = started_unix s;
          address = (case own_address s of None \<Rightarrow> '''' | Some a \<Rightarrow> a);
          gateway = gateway_of address;
          uptime = (if started \<le> unix_now then unix_now - started else 0)
      in ''{'' @ json_key ''replies_received'' @ show_u64 (replies_received s)
         @ '','' @ json_key ''empty_inbound'' @ show_u64 (empty_inbound s)
         @ '','' @ json_key ''sends_dispatched'' @ show_u64 (sends_dispatched s)
         @ '','' @ json_key ''last_reply_unix'' @ show_u64 (last_reply_unix s)
         @ '','' @ json_key ''started_unix'' @ show_u64 started
         @ '','' @ json_key ''uptime_secs'' @ show_u64 uptime
         @ '','' @ json_key ''gateway'' @ [CHR 0x22] @ gateway @ [CHR 0x22]
         @ '','' @ json_key ''mixnet_connected'' @ show_bool (connected s)
         @ '','' @ json_key ''client_deaths'' @ show_u64 (deaths s)
         @ '','' @ json_key ''consecutive_rebuild_failures'' @ show_u64 (consecutive_failures s) @ ''}'')"

section \<open>Runs\<close>

datatype status_event =
    SetConfigured u64 | SetConnected | SetDied | SetRebuildFailed | EnableDiag
  | RecordSend | RecordInbound bool u64 | SetAddress string

fun status_step :: "mixnet_status \<Rightarrow> status_event \<Rightarrow> mixnet_status" where
  "status_step s (SetConfigured t) = set_configured t s"
| "status_step s SetConnected = set_connected s"
| "status_step s SetDied = set_died s"
| "status_step s SetRebuildFailed = set_rebuild_failed s"
| "status_step s EnableDiag = enable_diag s"
| "status_step s RecordSend = record_send s"
| "status_step s (RecordInbound e t) = record_inbound e t s"
| "status_step s (SetAddress a) = set_address a s"

lemmas status_ops = set_configured_def set_connected_def set_died_def set_rebuild_failed_def
  enable_diag_def record_send_def record_inbound_def set_address_def

text \<open>The events user traffic causes: a frame sent, a message in.\<close>

fun traffic :: "status_event \<Rightarrow> bool" where
  "traffic RecordSend = True"
| "traffic (RecordInbound _ _) = True"
| "traffic _ = False"

text \<open>What the public documents are computed from.\<close>

definition public_view :: "mixnet_status \<Rightarrow> bool \<times> bool \<times> u64 \<times> u64 \<times> bool" where
  "public_view s = (configured s, connected s, deaths s, consecutive_failures s, diag_flag s)"

lemma public_view_step:
  "public_view s = public_view t \<Longrightarrow> public_view (status_step s e) = public_view (status_step t e)"
  by (cases e) (auto simp: public_view_def status_ops)

lemma public_view_traffic: "traffic e \<Longrightarrow> public_view (status_step s e) = public_view s"
  by (cases e) (auto simp: public_view_def status_ops)

lemma public_view_run:
  "public_view s = public_view t \<Longrightarrow>
     public_view (run status_step s es) = public_view (run status_step t (filter (\<lambda>e. \<not> traffic e) es))"
proof (induction es arbitrary: s t)
  case Nil
  then show ?case by simp
next
  case (Cons e es)
  then show ?case
    using Cons.IH [OF public_view_step [OF Cons.prems, of e]]
      Cons.IH [OF trans [OF public_view_traffic Cons.prems], of e]
    by (cases "traffic e") simp_all
qed

lemma public_view_determines:
  assumes "public_view s = public_view t"
  shows "to_json s = to_json t" "is_healthy s = is_healthy t" "diag_enabled s = diag_enabled t"
  using assms by (auto simp: public_view_def to_json_def is_healthy_def diag_enabled_def)

lemma run_snoc: "run step s (es @ [e]) = step (run step s es) e"
  by (simp add: run_append)

text \<open>The lifecycle read off the events: the last word on the connection, and its failures since.\<close>

fun lifecycle_connected :: "status_event list \<Rightarrow> bool" where
  "lifecycle_connected [] = False"
| "lifecycle_connected (e # rev_es) =
     (case e of SetConnected \<Rightarrow> True | SetDied \<Rightarrow> False | SetRebuildFailed \<Rightarrow> False
      | _ \<Rightarrow> lifecycle_connected rev_es)"

definition failures_since_connected :: "status_event list \<Rightarrow> nat" where
  "failures_since_connected es =
     length (filter (\<lambda>e. e = SetRebuildFailed) (takeWhile (\<lambda>e. e \<noteq> SetConnected) (rev es)))"

definition inbound_events :: "status_event list \<Rightarrow> nat" where
  "inbound_events es = length (filter (\<lambda>e. case e of RecordInbound _ _ \<Rightarrow> True | _ \<Rightarrow> False) es)"

definition tracks :: "status_event list \<Rightarrow> mixnet_status \<Rightarrow> bool" where
  "tracks es s \<longleftrightarrow>
     (configured s \<longleftrightarrow> (\<exists>t. SetConfigured t \<in> set es))
   \<and> connected s = lifecycle_connected (rev es)
   \<and> deaths s = word_of_nat (length (filter (\<lambda>e. e = SetDied) es))
   \<and> consecutive_failures s = word_of_nat (failures_since_connected es)
   \<and> inbound_total s = word_of_nat (inbound_events es)
   \<and> (diag_enabled s \<longleftrightarrow> EnableDiag \<in> set es)"

lemma tracks_step: "tracks es s \<Longrightarrow> tracks (es @ [e]) (status_step s e)"
  by (cases e) (auto simp: tracks_def status_ops failures_since_connected_def inbound_events_def
      inbound_total_def diag_enabled_def)

text \<open>
  The step invariant of \<open>Prelude\<close>, on the status with the events so far kept beside it.
\<close>

definition status_step_logged ::
    "status_event list \<times> mixnet_status \<Rightarrow> status_event \<Rightarrow> status_event list \<times> mixnet_status" where
  "status_step_logged st e = (fst st @ [e], status_step (snd st) e)"

interpretation status: step_invariant status_step_logged "\<lambda>st. tracks (fst st) (snd st)"
  by unfold_locales (simp add: status_step_logged_def tracks_step)

lemma run_logged:
  "run status_step_logged (log, s) es = (log @ es, run status_step s es)"
  by (induction es arbitrary: log s) (simp_all add: status_step_logged_def)

lemma tracks_run: "tracks es (run status_step mixnet_status_default es)"
proof -
  have "tracks [] mixnet_status_default"
    by (simp add: tracks_def mixnet_status_default_def failures_since_connected_def inbound_events_def
        inbound_total_def diag_enabled_def)
  with status.run_inv [of "([], mixnet_status_default)" es] show ?thesis by (simp add: run_logged)
qed

lemma gateway_of_no_at: "CHR ''@'' \<notin> set (gateway_of a)"
  by (auto simp: gateway_of_def dest: set_takeWhileD)

lemma gateway_of_idem [simp]: "gateway_of (gateway_of a) = gateway_of a"
  by (simp add: gateway_of_def)

section \<open>Properties\<close>

text \<open>
  C27. The public status is no divert oracle: whatever frames were sent and messages received, and
  when, the JSON of the status endpoint, the health verdict and the gate of the diagnostic endpoint
  are those of the same history without them. The diagnostic document, whose gate is closed until it
  is opened explicitly, depends on the shim's own address only through its gateway half.
\<close>

theorem status_is_no_divert_oracle:
  "to_json (run status_step s es) = to_json (run status_step s (filter (\<lambda>e. \<not> traffic e) es))
   \<and> is_healthy (run status_step s es) = is_healthy (run status_step s (filter (\<lambda>e. \<not> traffic e) es))
   \<and> (diag_enabled (run status_step mixnet_status_default es) \<longleftrightarrow> EnableDiag \<in> set es)
   \<and> diag_json t (set_address a s) = diag_json t (set_address (gateway_of a) s)
   \<and> CHR ''@'' \<notin> set (gateway_of a)"
  using public_view_determines [OF public_view_run [OF refl], of s es] tracks_run [of es]
    gateway_of_no_at [of a]
  by (auto simp: tracks_def diag_json_def set_address_def Let_def)

text \<open>
  The status is the client's lifecycle: after any history the connection flag is what the last
  of connected, died and rebuild-failed said, the deaths are counted, the failures are those since
  the last connection, every inbound message counts towards the liveness total (all modulo the 64
  bits of a counter), and the shim is healthy unless diversion is configured and the client is not
  up.
\<close>

theorem status_tracks_the_client:
  "let s = run status_step mixnet_status_default es
   in connected s = lifecycle_connected (rev es)
    \<and> deaths s = word_of_nat (length (filter (\<lambda>e. e = SetDied) es))
    \<and> consecutive_failures s = word_of_nat (failures_since_connected es)
    \<and> inbound_total s = word_of_nat (inbound_events es)
    \<and> (\<not> is_healthy s \<longleftrightarrow> (\<exists>t. SetConfigured t \<in> set es) \<and> \<not> lifecycle_connected (rev es))"
  using tracks_run [of es] by (auto simp: tracks_def is_healthy_def Let_def)

end
