(* ===== verification/Correlator.thy ===== *)
theory Correlator
  imports Wire "HOL-Library.AList"
begin

text \<open>
  The transport loop over the mixnet (\<open>run_transport\<close>, \<open>correlate\<close> and
  \<open>deliver\<close> in \<open>zeronym/shim/src/nym.rs\<close>): it hands request frames to the driver and
  matches inbound reply frames to the callers waiting for them. One turn of its
  \<open>select!\<close> is one step; which arm a turn takes, and when a caller goes away, is the
  environment's choice, so every interleaving is a list of turns.
\<close>

section \<open>Requests, waiters and the loop's state\<close>

text \<open>
  A oneshot channel is the number of its caller: the loop holds the sending half in a
  \<open>Waiter\<close>, and whether the receiving half is gone is part of the state.
\<close>

datatype waiter = AckWaiter (waiter_chan: nat) | LookupWaiter (waiter_chan: nat)

record nym_request =
  rq_nonce :: nonce
  rq_frame :: bytes
  rq_surbs :: nat
  rq_waiter :: waiter
  rq_target :: nat

record out_frame =
  of_frame :: bytes
  of_surbs :: nat
  of_target :: nat

definition SUBMIT_REPLY_SURBS :: nat where "SUBMIT_REPLY_SURBS = 13"
definition LOOKUP_REPLY_SURBS :: nat where "LOOKUP_REPLY_SURBS = 60"

datatype nym_reply = AckReply ack_kind | LookupAnswer lookup_reply

record correlator =
  pending :: "(nonce \<times> waiter) list"
  requests_open :: bool
  permit :: bool
  inflight :: nat
  gone :: "nat set"
  fired :: "(nat \<times> nym_reply) list"
  sent :: "out_frame list"
  returned :: bool

definition correlator_start :: correlator where
  "correlator_start =
     \<lparr>pending = [], requests_open = True, permit = False, inflight = 0, gone = {}, fired = [],
      sent = [], returned = False\<rparr>"

definition is_abandoned :: "nat set \<Rightarrow> waiter \<Rightarrow> bool" where
  "is_abandoned gs w = (waiter_chan w \<in> gs)"

text \<open>\<open>oneshot::Sender::send\<close>: a value sent to a receiver that is gone is dropped.\<close>

definition oneshot_send :: "nat \<Rightarrow> nym_reply \<Rightarrow> correlator \<Rightarrow> correlator" where
  "oneshot_send c r s = (if c \<in> gone s then s else s\<lparr>fired := fired s @ [(c, r)]\<rparr>)"

section \<open>Delivering one inbound frame\<close>

definition deliver :: "bytes \<Rightarrow> correlator \<Rightarrow> correlator" where
  "deliver bs s =
     (if length bs = ACK_BYTES then
        (case decode_ack bs of
           Ok (nonce, kind) \<Rightarrow>
             (case map_of (pending s) nonce of
                Some (AckWaiter c) \<Rightarrow>
                  oneshot_send c (AckReply kind) (s\<lparr>pending := AList.delete nonce (pending s)\<rparr>)
              | Some other \<Rightarrow>
                  s\<lparr>pending := AList.update nonce other (AList.delete nonce (pending s))\<rparr>
              | None \<Rightarrow> s)
         | Err _ \<Rightarrow> s)
      else if length bs = FRAME_BYTES then
        (case decode_lookup_reply bs of
           Ok (nonce, reply) \<Rightarrow>
             (case map_of (pending s) nonce of
                Some (LookupWaiter c) \<Rightarrow>
                  oneshot_send c (LookupAnswer reply) (s\<lparr>pending := AList.delete nonce (pending s)\<rparr>)
              | Some other \<Rightarrow>
                  s\<lparr>pending := AList.update nonce other (AList.delete nonce (pending s))\<rparr>
              | None \<Rightarrow> s)
         | Err _ \<Rightarrow> s)
      else s)"

section \<open>The loop\<close>

text \<open>
  The arms of the \<open>select!\<close>, and the two things that happen around it: a caller drops its
  receiver. An arm is taken only when its guard holds.
\<close>

datatype turn =
    Reserved "(unit, unit) result"
  | Requested "nym_request option"
  | FromMixnet "bytes option"
  | SweepTick
  | CallerGone nat

fun arm_enabled :: "turn \<Rightarrow> correlator \<Rightarrow> bool" where
  "arm_enabled (Reserved _) s \<longleftrightarrow> \<not> permit s \<and> requests_open s"
| "arm_enabled (Requested _) s \<longleftrightarrow> permit s \<and> requests_open s"
| "arm_enabled (FromMixnet _) s \<longleftrightarrow> True"
| "arm_enabled SweepTick s \<longleftrightarrow> pending s \<noteq> []"
| "arm_enabled (CallerGone _) s \<longleftrightarrow> True"

text \<open>
  \<open>run_transport\<close> after the loop: every waiter is dropped and the count is cleared.
\<close>

definition transport_return :: "correlator \<Rightarrow> correlator" where
  "transport_return s = s\<lparr>pending := [], inflight := 0, returned := True\<rparr>"

text \<open>The end of a turn: sweep, publish the count, and stop when nothing can come any more.\<close>

definition end_of_turn :: "correlator \<Rightarrow> correlator" where
  "end_of_turn s =
     (let p = filter (\<lambda>e. \<not> is_abandoned (gone s) (snd e)) (pending s);
          s = s\<lparr>pending := p, inflight := length p\<rparr>
      in if \<not> requests_open s \<and> p = [] then transport_return s else s)"

definition accept_request :: "nym_request \<Rightarrow> correlator \<Rightarrow> correlator" where
  "accept_request rq s =
     s\<lparr>permit := False,
       sent := sent s @ [\<lparr>of_frame = rq_frame rq, of_surbs = rq_surbs rq, of_target = rq_target rq\<rparr>],
       pending := AList.update (rq_nonce rq) (rq_waiter rq) (pending s)\<rparr>"

fun take_arm :: "turn \<Rightarrow> correlator \<Rightarrow> correlator" where
  "take_arm (Reserved (Ok _)) s = end_of_turn (s\<lparr>permit := True\<rparr>)"
| "take_arm (Reserved (Err _)) s = transport_return s"
| "take_arm (Requested (Some rq)) s = end_of_turn (accept_request rq s)"
| "take_arm (Requested None) s = end_of_turn (s\<lparr>requests_open := False\<rparr>)"
| "take_arm (FromMixnet (Some bs)) s = end_of_turn (if bs \<noteq> [] then deliver bs s else s)"
| "take_arm (FromMixnet None) s = transport_return s"
| "take_arm SweepTick s = end_of_turn s"
| "take_arm (CallerGone c) s = s\<lparr>gone := insert c (gone s)\<rparr>"

text \<open>A run: the turns taken so far, and the state after them.\<close>

inductive correlate_run :: "turn list \<Rightarrow> correlator \<Rightarrow> bool" where
  start: "correlate_run [] correlator_start"
| turn: "correlate_run ts s \<Longrightarrow> \<not> returned s \<Longrightarrow> arm_enabled t s \<Longrightarrow>
         correlate_run (ts @ [t]) (take_arm t s)"

inductive_cases correlate_run_snocE: "correlate_run (ts @ [t]) s"

text \<open>The requests accepted in a run, in order.\<close>

fun requests :: "turn list \<Rightarrow> nym_request list" where
  "requests [] = []"
| "requests (Requested (Some rq) # ts) = rq # requests ts"
| "requests (_ # ts) = requests ts"

lemma requests_append [simp]: "requests (ts @ us) = requests ts @ requests us"
  by (induction ts rule: requests.induct) simp_all

section \<open>What a turn does to the waiters\<close>

text \<open>\<open>bs\<close> is a reply of the kind \<open>w\<close> waits for, to the nonce \<open>n\<close>, saying \<open>r\<close>.\<close>

definition decodes :: "bytes \<Rightarrow> nonce \<Rightarrow> waiter \<Rightarrow> nym_reply \<Rightarrow> bool" where
  "decodes bs n w r =
     (case w of
        AckWaiter _ \<Rightarrow> \<exists>k. r = AckReply k \<and> length bs = ACK_BYTES \<and> decode_ack bs = Ok (n, k)
      | LookupWaiter _ \<Rightarrow> \<exists>l. r = LookupAnswer l \<and> length bs = FRAME_BYTES \<and> decode_lookup_reply bs = Ok (n, l))"

abbreviation waiting :: "correlator \<Rightarrow> nonce \<rightharpoonup> waiter" where
  "waiting s \<equiv> map_of (pending s)"

abbreviation keys_distinct :: "correlator \<Rightarrow> bool" where
  "keys_distinct s \<equiv> distinct (map fst (pending s))"

lemma deliver_frame [simp]:
  "requests_open (deliver bs s) = requests_open s" "permit (deliver bs s) = permit s"
  "inflight (deliver bs s) = inflight s" "gone (deliver bs s) = gone s" "sent (deliver bs s) = sent s"
  "returned (deliver bs s) = returned s"
  by (simp_all add: deliver_def oneshot_send_def split: sum.split option.split waiter.split)

lemma deliver_keys: "keys_distinct s \<Longrightarrow> keys_distinct (deliver bs s)"
  by (simp add: deliver_def oneshot_send_def distinct_update distinct_delete
      split: sum.split option.split waiter.split)

lemma map_of_reinsert: "map_of p n = Some w \<Longrightarrow> map_of (AList.update n w (AList.delete n p)) = map_of p"
  by (rule ext) (simp add: AList.update_conv' AList.delete_conv')

lemma frame_not_ack [simp]: "FRAME_BYTES \<noteq> ACK_BYTES"
  by (simp add: wire_consts)

lemma deliver_outcome:
  obtains (kept) "waiting (deliver bs s) = waiting s" "fired (deliver bs s) = fired s"
  | (answered) n w r where "waiting s n = Some w" "decodes bs n w r"
      "waiting (deliver bs s) = (waiting s)(n := None)"
      "fired (deliver bs s) = (if waiter_chan w \<in> gone s then fired s else fired s @ [(waiter_chan w, r)])"
proof -
  consider (same) "deliver bs s = s"
    | (wrong) n w where "waiting s n = Some w"
        "deliver bs s = s\<lparr>pending := AList.update n w (AList.delete n (pending s))\<rparr>"
    | (hit) n w r where "waiting s n = Some w" "decodes bs n w r"
        "deliver bs s = oneshot_send (waiter_chan w) r (s\<lparr>pending := AList.delete n (pending s)\<rparr>)"
  proof -
    assume same: "deliver bs s = s \<Longrightarrow> thesis"
      and wrong: "\<And>n w. waiting s n = Some w \<Longrightarrow>
        deliver bs s = s\<lparr>pending := AList.update n w (AList.delete n (pending s))\<rparr> \<Longrightarrow> thesis"
      and hit: "\<And>n w r. waiting s n = Some w \<Longrightarrow> decodes bs n w r \<Longrightarrow>
        deliver bs s = oneshot_send (waiter_chan w) r (s\<lparr>pending := AList.delete n (pending s)\<rparr>) \<Longrightarrow> thesis"
    consider (ack) n k where "length bs = ACK_BYTES" "decode_ack bs = Ok (n, k)"
      | (lookup) n l where "length bs = FRAME_BYTES" "decode_lookup_reply bs = Ok (n, l)"
      | (none) "deliver bs s = s"
      by (cases "length bs = ACK_BYTES"; cases "length bs = FRAME_BYTES"; cases "decode_ack bs";
          cases "decode_lookup_reply bs"; auto simp: deliver_def)
    then show thesis
    proof cases
      case ack
      then show thesis
        using same wrong [of n] hit [of n "the (waiting s n)" "AckReply k"]
        by (cases "waiting s n"; cases "the (waiting s n)") (simp_all add: deliver_def decodes_def)
    next
      case lookup
      then show thesis
        using same wrong [of n] hit [of n "the (waiting s n)" "LookupAnswer l"]
        by (cases "waiting s n"; cases "the (waiting s n)") (simp_all add: deliver_def decodes_def)
    next
      case none
      then show thesis by (rule same)
    qed
  qed
  then show thesis
  proof cases
    case same
    then show thesis by (intro kept) simp_all
  next
    case wrong
    then show thesis by (intro kept) (simp_all add: map_of_reinsert)
  next
    case hit
    then show thesis
      by (intro answered [of n w r]) (simp_all add: oneshot_send_def AList.delete_conv')
  qed
qed

lemma map_of_filter_values:
  "distinct (map fst p) \<Longrightarrow> map_of (filter (\<lambda>e. P (snd e)) p) n =
     (case map_of p n of Some w \<Rightarrow> if P w then Some w else None | None \<Rightarrow> None)"
  by (induction p) (auto split: option.splits simp: map_of_eq_None_iff image_iff)

lemma end_of_turn_frame [simp]:
  "gone (end_of_turn s) = gone s" "fired (end_of_turn s) = fired s" "sent (end_of_turn s) = sent s"
  "permit (end_of_turn s) = permit s" "requests_open (end_of_turn s) = requests_open s"
  by (simp_all add: end_of_turn_def transport_return_def Let_def)

lemma end_of_turn_inflight: "inflight (end_of_turn s) = length (pending (end_of_turn s))"
  by (simp add: end_of_turn_def transport_return_def Let_def)

lemma distinct_map_filter_fst: "distinct (map fst p) \<Longrightarrow> distinct (map fst (filter P p))"
  by (induction p) auto

lemma end_of_turn_keys: "keys_distinct s \<Longrightarrow> keys_distinct (end_of_turn s)"
  by (simp add: end_of_turn_def transport_return_def Let_def distinct_map_filter_fst)

lemma end_of_turn_waiting:
  assumes "keys_distinct s"
  shows "waiting (end_of_turn s) n =
     (case waiting s n of Some w \<Rightarrow> if is_abandoned (gone s) w then None else Some w | None \<Rightarrow> None)"
proof -
  have "waiting (end_of_turn s) = map_of (filter (\<lambda>e. \<not> is_abandoned (gone s) (snd e)) (pending s))"
    by (auto simp: end_of_turn_def transport_return_def Let_def)
  with map_of_filter_values [OF assms, of "\<lambda>w. \<not> is_abandoned (gone s) w" n] show ?thesis
    by (simp split: option.split)
qed

section \<open>Invariants of a run\<close>

definition out_frame_of :: "nym_request \<Rightarrow> out_frame" where
  "out_frame_of rq = \<lparr>of_frame = rq_frame rq, of_surbs = rq_surbs rq, of_target = rq_target rq\<rparr>"

text \<open>The caller \<open>c\<close> was told \<open>r\<close> for a reason: an inbound frame after its request.\<close>

definition justified :: "turn list \<Rightarrow> nat \<Rightarrow> nym_reply \<Rightarrow> bool" where
  "justified ts c r \<longleftrightarrow> (\<exists>pre m post rq. ts = pre @ FromMixnet (Some m) # post
     \<and> rq \<in> set (requests pre) \<and> waiter_chan (rq_waiter rq) = c
     \<and> decodes m (rq_nonce rq) (rq_waiter rq) r)"

lemma justified_mono: "justified ts c r \<Longrightarrow> justified (ts @ [t]) c r"
  unfolding justified_def by (metis append.assoc append_Cons)

lemma justified_now:
  "rq \<in> set (requests ts) \<Longrightarrow> decodes m (rq_nonce rq) (rq_waiter rq) r \<Longrightarrow>
     justified (ts @ [FromMixnet (Some m)]) (waiter_chan (rq_waiter rq)) r"
  unfolding justified_def by blast

lemma justified_request:
  "justified ts c r \<Longrightarrow> \<exists>rq \<in> set (requests ts). waiter_chan (rq_waiter rq) = c"
  unfolding justified_def by auto

definition held :: "turn list \<Rightarrow> correlator \<Rightarrow> bool" where
  "held ts s \<longleftrightarrow> keys_distinct s \<and> sent s = map out_frame_of (requests ts)
     \<and> (\<forall>n w. waiting s n = Some w \<longrightarrow> (\<exists>rq \<in> set (requests ts). rq_nonce rq = n \<and> rq_waiter rq = w))
     \<and> (\<forall>c r. (c, r) \<in> set (fired s) \<longrightarrow> justified ts c r)"

lemma held_end_of_turn: "held ts s \<Longrightarrow> held ts (end_of_turn s)"
  unfolding held_def
  by (auto simp: end_of_turn_keys end_of_turn_waiting split: option.splits if_splits)

lemma held_return: "held ts s \<Longrightarrow> held ts (transport_return s)"
  by (simp add: held_def transport_return_def)

text \<open>Anything but an accepted request leaves the list of requests alone.\<close>

lemma held_same_view:
  assumes "held ts s" "requests [t] = []" "keys_distinct m" "sent m = sent s" "waiting m \<subseteq>\<^sub>m waiting s"
    "\<And>c r. (c, r) \<in> set (fired m) \<Longrightarrow> (c, r) \<in> set (fired s) \<or> justified (ts @ [t]) c r"
  shows "held (ts @ [t]) m"
proof -
  have "justified (ts @ [t]) c r" if "(c, r) \<in> set (fired m)" for c r
    using assms(6) [OF that] assms(1) by (auto simp: held_def intro: justified_mono)
  moreover have "\<exists>rq \<in> set (requests ts). rq_nonce rq = n \<and> rq_waiter rq = w" if "waiting m n = Some w" for n w
    using assms(1,5) that unfolding held_def map_le_def by (metis domI)
  ultimately show ?thesis using assms(1-4) by (simp add: held_def)
qed

lemma held_deliver:
  assumes "held ts s"
  shows "held (ts @ [FromMixnet (Some bs)]) (deliver bs s)"
proof (cases rule: deliver_outcome [of bs s])
  case kept
  with assms show ?thesis
    by (intro held_same_view [OF assms]) (auto simp: held_def deliver_keys)
next
  case (answered n w r)
  with assms obtain rq where rq: "rq \<in> set (requests ts)" "rq_nonce rq = n" "rq_waiter rq = w"
    unfolding held_def by blast
  from justified_now [OF rq(1), of bs r] answered(2) rq
  have "justified (ts @ [FromMixnet (Some bs)]) (waiter_chan w) r" by simp
  moreover have "keys_distinct s" using assms by (simp add: held_def)
  ultimately show ?thesis
    using answered
    by (intro held_same_view [OF assms]) (auto simp: deliver_keys map_le_def split: if_splits)
qed

lemma held_accept: "held ts s \<Longrightarrow> held (ts @ [Requested (Some rq)]) (accept_request rq s)"
  by (auto simp: held_def accept_request_def out_frame_of_def AList.update_conv' distinct_update
      intro: justified_mono split: if_splits)

lemma held_start: "held [] correlator_start"
  by (simp add: held_def correlator_start_def)

lemma held_quiet:
  assumes "held ts s" "requests [t] = []"
    "keys_distinct m" "sent m = sent s" "waiting m = waiting s" "fired m = fired s"
  shows "held (ts @ [t]) m"
  using assms by (intro held_same_view [OF assms(1)]) auto

lemma held_step:
  assumes h: "held ts s"
  shows "held (ts @ [t]) (take_arm t s)"
proof -
  have k: "keys_distinct s" using h by (simp add: held_def)
  have quiet: "held (ts @ [t]) m"
    if "requests [t] = []" "pending m = pending s" "sent m = sent s" "fired m = fired s" for m
    by (rule held_quiet [OF h that(1)]) (use that k in simp_all)
  show ?thesis
  proof (cases "(t, s)" rule: take_arm.cases)
    case (3 rq s')
    with held_accept [OF h, of rq] show ?thesis by (auto intro: held_end_of_turn)
  next
    case (5 bs s')
    with quiet [of s] held_deliver [OF h, of bs] show ?thesis
      by (cases "bs = []") (simp_all add: held_end_of_turn)
  qed (use quiet in \<open>auto intro!: held_end_of_turn held_return\<close>)
qed

lemma run_held: "correlate_run ts s \<Longrightarrow> held ts s \<and> inflight s = length (pending s)"
proof (induction rule: correlate_run.induct)
  case start
  then show ?case by (simp add: held_start) (simp add: correlator_start_def)
next
  case (turn ts s t)
  then have "inflight (take_arm t s) = length (pending (take_arm t s))"
    by (cases "(t, s)" rule: take_arm.cases) (auto simp: end_of_turn_inflight transport_return_def)
  with turn held_step show ?case by blast
qed

section \<open>No caller is lost\<close>

text \<open>
  Nonces are drawn afresh and every request brings its own channel; runs where both are distinct.
\<close>

definition fresh_requests :: "turn list \<Rightarrow> bool" where
  "fresh_requests ts \<longleftrightarrow> distinct (map rq_nonce (requests ts))
     \<and> distinct (map (\<lambda>rq. waiter_chan (rq_waiter rq)) (requests ts))"

lemma fresh_prefix: "fresh_requests (ts @ us) \<Longrightarrow> fresh_requests ts"
  by (simp add: fresh_requests_def)

definition told :: "correlator \<Rightarrow> nat set" where
  "told s = fst ` set (fired s)"

definition tracked :: "turn list \<Rightarrow> correlator \<Rightarrow> bool" where
  "tracked ts s \<longleftrightarrow>
     distinct (map fst (fired s))
     \<and> (\<forall>n w. waiting s n = Some w \<longrightarrow> waiter_chan w \<notin> told s)
     \<and> (\<forall>rq \<in> set (requests ts). waiter_chan (rq_waiter rq) \<in> gone s \<or> waiter_chan (rq_waiter rq) \<in> told s
          \<or> waiting s (rq_nonce rq) = Some (rq_waiter rq))"

lemma tracked_end_of_turn: "keys_distinct s \<Longrightarrow> tracked ts s \<Longrightarrow> tracked ts (end_of_turn s)"
  unfolding tracked_def told_def
  by (fastforce simp: end_of_turn_waiting is_abandoned_def simp del: map_of_eq_Some_iff
      split: option.splits if_splits)

lemma tracked_accept:
  assumes "held ts s" "tracked ts s" "fresh_requests (ts @ [Requested (Some rq)])"
  shows "tracked (ts @ [Requested (Some rq)]) (accept_request rq s)"
proof -
  have old: "rq_nonce q \<noteq> rq_nonce rq" "waiter_chan (rq_waiter q) \<noteq> waiter_chan (rq_waiter rq)"
    if "q \<in> set (requests ts)" for q
    using assms(3) that by (auto simp: fresh_requests_def image_iff dest: sym)
  have "waiter_chan (rq_waiter rq) \<notin> told s"
  proof
    assume "waiter_chan (rq_waiter rq) \<in> told s"
    then obtain r where "(waiter_chan (rq_waiter rq), r) \<in> set (fired s)" by (auto simp: told_def)
    then have "justified ts (waiter_chan (rq_waiter rq)) r" using assms(1) unfolding held_def by blast
    with justified_request old show False by blast
  qed
  with assms(2) old show ?thesis
    by (auto simp: tracked_def told_def accept_request_def AList.update_conv')
qed

lemma fresh_channels:
  "fresh_requests ts \<Longrightarrow> p \<in> set (requests ts) \<Longrightarrow> q \<in> set (requests ts) \<Longrightarrow>
     waiter_chan (rq_waiter p) = waiter_chan (rq_waiter q) \<Longrightarrow> p = q"
  by (auto simp: fresh_requests_def distinct_map inj_on_def)

lemma tracked_deliver:
  assumes h: "held ts s" and t: "tracked ts s" and f: "fresh_requests ts"
  shows "tracked ts (deliver bs s)"
proof (cases rule: deliver_outcome [of bs s])
  case kept
  with t show ?thesis by (simp add: tracked_def told_def)
next
  case (answered n w r)
  from h answered(1) obtain rq where rq: "rq \<in> set (requests ts)" "rq_nonce rq = n" "rq_waiter rq = w"
    unfolding held_def by blast
  have other: "waiter_chan w' \<noteq> waiter_chan w" if "waiting s n' = Some w'" "n' \<noteq> n" for n' w'
  proof -
    from h that(1) obtain q where "q \<in> set (requests ts)" "rq_nonce q = n'" "rq_waiter q = w'"
      unfolding held_def by blast
    with fresh_channels [OF f this(1) rq(1)] rq that(2) show ?thesis by auto
  qed
  have "waiter_chan w \<notin> told s" using t answered(1) unfolding tracked_def by blast
  moreover have "waiter_chan (rq_waiter q) \<in> gone s \<or> waiter_chan (rq_waiter q) \<in> insert (waiter_chan w) (told s)
      \<or> waiting s (rq_nonce q) = Some (rq_waiter q) \<and> rq_nonce q \<noteq> n" if "q \<in> set (requests ts)" for q
    using t that answered(1) unfolding tracked_def by auto
  moreover have "waiter_chan w' \<notin> told s" if "waiting s n' = Some w'" for n' w'
    using t that unfolding tracked_def by blast
  ultimately have "tracked ts (deliver bs s)" if "told (deliver bs s) = (if waiter_chan w \<in> gone s then told s
      else insert (waiter_chan w) (told s))" "distinct (map fst (fired (deliver bs s)))"
    using that other unfolding tracked_def answered(3) deliver_frame
    by (fastforce simp del: map_of_eq_Some_iff split: if_splits)
  moreover have "distinct (map fst (fired (deliver bs s)))"
    using t \<open>waiter_chan w \<notin> told s\<close> answered(4) by (simp add: tracked_def told_def)
  moreover have "told (deliver bs s) = (if waiter_chan w \<in> gone s then told s
      else insert (waiter_chan w) (told s))"
    using answered(4) by (simp add: told_def)
  ultimately show ?thesis by blast
qed

lemma tracked_quiet:
  "tracked ts s \<Longrightarrow> requests [t] = [] \<Longrightarrow> waiting m = waiting s \<Longrightarrow> fired m = fired s \<Longrightarrow>
     gone s \<subseteq> gone m \<Longrightarrow> tracked (ts @ [t]) m"
  unfolding tracked_def told_def by auto

lemma tracked_run:
  assumes "correlate_run ts s" "fresh_requests ts" "\<not> returned s"
  shows "tracked ts s"
  using assms
proof (induction rule: correlate_run.induct)
  case start
  then show ?case by (simp add: tracked_def correlator_start_def told_def)
next
  case (turn ts s t)
  have h: "held ts s" and h': "held (ts @ [t]) (take_arm t s)"
    using run_held turn.hyps(1) held_step by blast+
  have k: "keys_distinct s" using h by (simp add: held_def)
  have tr: "tracked ts s" using turn fresh_prefix by blast
  show ?case
  proof (cases "(t, s)" rule: take_arm.cases)
    case (3 rq s')
    with tracked_accept [OF h tr] turn.prems held_accept [OF h, of rq] show ?thesis
      by (auto intro!: tracked_end_of_turn simp: held_def)
  next
    case (5 bs s')
    have "tracked (ts @ [t]) (deliver bs s)"
      using tracked_deliver [OF h tr fresh_prefix [OF turn.prems(1)], of bs] 5
      by (simp add: tracked_def)
    moreover have "tracked (ts @ [t]) s" using tr 5 by (simp add: tracked_def)
    ultimately show ?thesis using 5 k by (auto intro!: tracked_end_of_turn deliver_keys)
  qed (use turn.prems tr k in \<open>auto simp: transport_return_def intro!: tracked_end_of_turn
      intro: tracked_quiet\<close>)
qed

lemma told_once:
  assumes "correlate_run ts s" "fresh_requests ts"
  shows "distinct (map fst (fired s))"
  using assms
proof (induction rule: correlate_run.induct)
  case start
  then show ?case by (simp add: correlator_start_def)
next
  case (turn ts s t)
  have f: "fresh_requests ts" using turn.prems by (rule fresh_prefix)
  have h: "held ts s" using run_held turn.hyps(1) by blast
  have tr: "tracked ts s" by (rule tracked_run [OF turn.hyps(1) f turn.hyps(2)])
  have "distinct (map fst (fired (deliver bs s)))" for bs
    using tracked_deliver [OF h tr f, of bs] by (simp add: tracked_def)
  moreover have "distinct (map fst (fired s))" using turn.IH f by blast
  ultimately show ?case
    by (cases "(t, s)" rule: take_arm.cases) (simp_all add: transport_return_def accept_request_def)
qed

definition reservations :: "turn list \<Rightarrow> nat" where
  "reservations ts = length (filter (\<lambda>t. t = Reserved (Ok ())) ts)"

lemma permits_counted:
  "correlate_run ts s \<Longrightarrow> length (requests ts) + (if permit s then 1 else 0) = reservations ts"
proof (induction rule: correlate_run.induct)
  case start
  then show ?case by (simp add: correlator_start_def reservations_def)
next
  case (turn ts s t)
  then show ?case
    by (cases "(t, s)" rule: take_arm.cases)
      (auto simp: reservations_def transport_return_def accept_request_def split: if_splits)
qed

lemma deliver_match:
  assumes "map_of (pending s) n = Some w" "waiter_chan w \<notin> gone s" "decodes bs n w r"
  shows "deliver bs s =
    s\<lparr>pending := AList.delete n (pending s), fired := fired s @ [(waiter_chan w, r)]\<rparr>"
  using assms by (cases w) (auto simp: deliver_def decodes_def oneshot_send_def)

lemma deliver_wrong_kind:
  assumes "map_of (pending s) n = Some w"
    and "case w of AckWaiter _ \<Rightarrow> length bs = FRAME_BYTES \<and> (\<exists>l. decode_lookup_reply bs = Ok (n, l))
         | LookupWaiter _ \<Rightarrow> length bs = ACK_BYTES \<and> (\<exists>k. decode_ack bs = Ok (n, k))"
  shows "fired (deliver bs s) = fired s \<and> waiting (deliver bs s) = waiting s"
  using assms by (cases w) (auto simp: deliver_def map_of_reinsert)

section \<open>Properties\<close>

text \<open>
  C12. A caller is told only what the hub answered to its own request: every value fired is decoded
  from an inbound frame that arrived after the request, carries that request's nonce and is of the
  kind the caller waits for; and no caller is told anything twice. This holds for every interleaving
  of requests, replies, duplicates, forged and late frames, and callers going away.
\<close>

theorem replies_reach_only_their_caller:
  assumes "correlate_run ts s" "fresh_requests ts"
  shows "(\<forall>(c, r) \<in> set (fired s).
        \<exists>pre m post rq. ts = pre @ FromMixnet (Some m) # post \<and> rq \<in> set (requests pre)
          \<and> waiter_chan (rq_waiter rq) = c
          \<and> (case rq_waiter rq of
               AckWaiter _ \<Rightarrow> \<exists>k. r = AckReply k \<and> length m = ACK_BYTES \<and> decode_ack m = Ok (rq_nonce rq, k)
             | LookupWaiter _ \<Rightarrow> \<exists>l. r = LookupAnswer l \<and> length m = FRAME_BYTES
                 \<and> decode_lookup_reply m = Ok (rq_nonce rq, l)))
    \<and> distinct (map fst (fired s))"
proof
  have "\<forall>c r. (c, r) \<in> set (fired s) \<longrightarrow> justified ts c r"
    using run_held [OF assms(1)] by (simp add: held_def)
  then show "\<forall>(c, r) \<in> set (fired s).
      \<exists>pre m post rq. ts = pre @ FromMixnet (Some m) # post \<and> rq \<in> set (requests pre)
        \<and> waiter_chan (rq_waiter rq) = c
        \<and> (case rq_waiter rq of
             AckWaiter _ \<Rightarrow> \<exists>k. r = AckReply k \<and> length m = ACK_BYTES \<and> decode_ack m = Ok (rq_nonce rq, k)
           | LookupWaiter _ \<Rightarrow> \<exists>l. r = LookupAnswer l \<and> length m = FRAME_BYTES
               \<and> decode_lookup_reply m = Ok (rq_nonce rq, l))"
    unfolding justified_def decodes_def by blast
qed (rule told_once [OF assms])

definition demo_request :: nym_request where
  "demo_request = \<lparr>rq_nonce = replicate 16 7, rq_frame = [1, 2, 3], rq_surbs = LOOKUP_REPLY_SURBS,
     rq_waiter = LookupWaiter 4, rq_target = 0\<rparr>"

definition demo_waiting :: correlator where
  "demo_waiting = correlator_start\<lparr>pending := [(replicate 16 7, LookupWaiter 4)], inflight := 1,
     sent := [out_frame_of demo_request]\<rparr>"

lemma demo_run: "correlate_run [Reserved (Ok ()), Requested (Some demo_request)] demo_waiting"
proof -
  have "correlate_run ([] @ [Reserved (Ok ())]) (take_arm (Reserved (Ok ())) correlator_start)"
    by (rule correlate_run.turn [OF correlate_run.start]) (simp_all add: correlator_start_def)
  then have "correlate_run (([] @ [Reserved (Ok ())]) @ [Requested (Some demo_request)])
      (take_arm (Requested (Some demo_request)) (take_arm (Reserved (Ok ())) correlator_start))"
    by (rule correlate_run.turn) (simp_all add: correlator_start_def end_of_turn_def)
  moreover have "take_arm (Requested (Some demo_request)) (take_arm (Reserved (Ok ())) correlator_start) = demo_waiting"
    by (simp add: demo_waiting_def correlator_start_def end_of_turn_def accept_request_def out_frame_of_def
        demo_request_def is_abandoned_def Let_def)
  ultimately show ?thesis by simp
qed

lemma demo_reply:
  "\<exists>f. length f = FRAME_BYTES \<and> decode_lookup_reply f = Ok (replicate 16 7, NotFound)"
proof -
  have n: "length (replicate 16 7 :: bytes) = NONCE_BYTES" by (simp add: wire_consts)
  show ?thesis
    using lookup_reply.encode_fits [OF n, of NotFound] lookup_reply.fixed_size [OF n, of NotFound]
    by (auto simp: reply_fits_def)
qed

theorem replies_reach_only_their_caller_witness:
  "\<exists>f ts s. correlate_run (ts @ [FromMixnet (Some f)]) s \<and> fired s = [(4, LookupAnswer NotFound)]
     \<and> distinct (map fst (fired s))"
proof -
  obtain f where f: "length f = FRAME_BYTES" "decode_lookup_reply f = Ok (replicate 16 7, NotFound)"
    using demo_reply by blast
  then have "f \<noteq> []" using frame_sizes by auto
  have "deliver f demo_waiting = demo_waiting\<lparr>pending := [], fired := [(4, LookupAnswer NotFound)]\<rparr>"
    by (subst deliver_match [where n = "replicate 16 7" and w = "LookupWaiter 4" and r = "LookupAnswer NotFound"])
      (use f in \<open>simp_all add: demo_waiting_def correlator_start_def decodes_def\<close>)
  with \<open>f \<noteq> []\<close> have fired: "fired (take_arm (FromMixnet (Some f)) demo_waiting) = [(4, LookupAnswer NotFound)]"
    by simp
  have run: "correlate_run ([Reserved (Ok ()), Requested (Some demo_request)] @ [FromMixnet (Some f)])
      (take_arm (FromMixnet (Some f)) demo_waiting)"
    by (rule correlate_run.turn [OF demo_run]) (simp_all add: demo_waiting_def correlator_start_def)
  moreover have "fresh_requests ([Reserved (Ok ()), Requested (Some demo_request)] @ [FromMixnet (Some f)])"
    by (simp add: fresh_requests_def)
  ultimately show ?thesis
    using replies_reach_only_their_caller fired by blast
qed

text \<open>
  The loop loses nothing while it runs: the frames given to the driver are exactly those of the
  accepted requests, in order, with the reply blocks and the target of each, and every one of them
  used a reservation made beforehand; the published in-flight count is the number of waiters held;
  and a caller who was accepted, is still there and has not been told anything is one of them, so
  the count is positive and its reply can still be matched.
\<close>

theorem accepted_requests_are_sent_and_counted:
  assumes "correlate_run ts s" "fresh_requests ts" "\<not> returned s"
  shows "sent s = map (\<lambda>rq. \<lparr>of_frame = rq_frame rq, of_surbs = rq_surbs rq, of_target = rq_target rq\<rparr>) (requests ts)
    \<and> length (requests ts) \<le> length (filter (\<lambda>t. t = Reserved (Ok ())) ts)
    \<and> inflight s = length (pending s)
    \<and> (\<forall>rq \<in> set (requests ts). waiter_chan (rq_waiter rq) \<notin> gone s \<longrightarrow>
         waiter_chan (rq_waiter rq) \<notin> fst ` set (fired s) \<longrightarrow>
         map_of (pending s) (rq_nonce rq) = Some (rq_waiter rq) \<and> 0 < inflight s)"
proof -
  have out: "out_frame_of = (\<lambda>rq. \<lparr>of_frame = rq_frame rq, of_surbs = rq_surbs rq, of_target = rq_target rq\<rparr>)"
    by (rule ext) (simp add: out_frame_of_def)
  have "\<forall>rq \<in> set (requests ts). waiter_chan (rq_waiter rq) \<notin> gone s \<longrightarrow>
         waiter_chan (rq_waiter rq) \<notin> fst ` set (fired s) \<longrightarrow> waiting s (rq_nonce rq) = Some (rq_waiter rq)"
    using tracked_run [OF assms] unfolding tracked_def told_def by blast
  moreover have "0 < length (pending s)" if "waiting s n = Some w" for n w
    using that by (cases "pending s") auto
  ultimately show ?thesis
    using run_held [OF assms(1)] permits_counted [OF assms(1)]
    unfolding held_def out reservations_def by fastforce
qed

theorem accepted_requests_are_sent_and_counted_witness:
  "map_of (pending demo_waiting) (replicate 16 7) = Some (LookupWaiter 4) \<and> 0 < inflight demo_waiting"
  using accepted_requests_are_sent_and_counted [OF demo_run]
  by (simp add: fresh_requests_def demo_waiting_def correlator_start_def demo_request_def)

text \<open>
  The right reply always gets through and the wrong kind never does: while a caller of a lookup
  is held, the frame a hub encodes for its nonce tells it that reply and removes it, and an
  acknowledgement for its nonce, from a confused or hostile hub, neither answers it nor removes it;
  a caller of a submission is told every acknowledgement of its nonce and no lookup reply.
\<close>

theorem right_reply_gets_through_wrong_kind_does_not:
  assumes "length n = NONCE_BYTES" and "map_of (pending s) n = Some w" and "waiter_chan w \<notin> gone s"
    and "distinct (map fst (pending s))" and "reply_fits l" and "encode_lookup_reply n l = Ok f"
  shows "(let answered = take_arm (FromMixnet (Some f)) s; acked = take_arm (FromMixnet (Some (encode_ack n k))) s
    in case w of
      LookupWaiter c \<Rightarrow>
        fired answered = fired s @ [(c, LookupAnswer l)] \<and> map_of (pending answered) n = None
        \<and> fired acked = fired s \<and> map_of (pending acked) n = Some w
    | AckWaiter c \<Rightarrow>
        fired acked = fired s @ [(c, AckReply k)] \<and> map_of (pending acked) n = None
        \<and> fired answered = fired s \<and> map_of (pending answered) n = Some w)"
proof -
  have f: "decode_lookup_reply f = Ok (n, l)" "length f = FRAME_BYTES" "f \<noteq> []"
    using lookup_reply.roundtrip [OF assms(1,6)] lookup_reply.fixed_size [OF assms(1,6)] frame_sizes by auto
  have a: "decode_ack (encode_ack n k) = Ok (n, k)" "length (encode_ack n k) = ACK_BYTES" "encode_ack n k \<noteq> []"
    using ack.roundtrip [OF assms(1), of k] ack.fixed_size [OF assms(1), of k] frame_sizes by auto
  have step: "fired (take_arm (FromMixnet (Some b)) s) = fired (deliver b s)
      \<and> waiting (take_arm (FromMixnet (Some b)) s) n =
        (case waiting (deliver b s) n of Some w \<Rightarrow> if waiter_chan w \<in> gone s then None else Some w | None \<Rightarrow> None)"
    if "b \<noteq> []" for b
    using that end_of_turn_waiting [OF deliver_keys [OF assms(4)], of b n] by (simp add: is_abandoned_def split: option.split)
  show ?thesis
  proof (cases w)
    case (AckWaiter c)
    with step [OF f(3)] step [OF a(3)] deliver_wrong_kind [OF assms(2), of f]
      deliver_match [OF assms(2,3), of "encode_ack n k" "AckReply k"] f a assms(2,3)
    show ?thesis by (simp add: decodes_def AList.delete_conv')
  next
    case (LookupWaiter c)
    with step [OF f(3)] step [OF a(3)] deliver_wrong_kind [OF assms(2), of "encode_ack n k"]
      deliver_match [OF assms(2,3), of f "LookupAnswer l"] f a assms(2,3)
    show ?thesis by (simp add: decodes_def AList.delete_conv')
  qed
qed

theorem right_reply_gets_through_wrong_kind_does_not_witness:
  "\<exists>f. fired (take_arm (FromMixnet (Some f)) demo_waiting) = [(4, LookupAnswer NotFound)]
     \<and> fired (take_arm (FromMixnet (Some (encode_ack (replicate 16 7) Accepted))) demo_waiting) = []"
proof -
  have n: "length (replicate 16 7 :: bytes) = NONCE_BYTES" by (simp add: wire_consts)
  obtain f where f: "encode_lookup_reply (replicate 16 7) NotFound = Ok f"
    using lookup_reply.encode_fits [OF n, of NotFound] by (auto simp: reply_fits_def)
  have d: "map_of (pending demo_waiting) (replicate 16 7) = Some (LookupWaiter 4)" "4 \<notin> gone demo_waiting"
    "distinct (map fst (pending demo_waiting))" "fired demo_waiting = []"
    by (simp_all add: demo_waiting_def correlator_start_def)
  have "reply_fits NotFound" by (simp add: reply_fits_def)
  from right_reply_gets_through_wrong_kind_does_not [OF n d(1) _ d(3) this f, of Accepted] d(2,4)
  show ?thesis by (auto simp: Let_def simp del: take_arm.simps)
qed

end
