(* ===== verification/NymHandle.thy ===== *)
theory NymHandle
  imports Correlator
begin

text \<open>
  The sender side of the mixnet transport (\<open>NymHandle\<close> in
  \<open>zeronym/shim/src/nym.rs\<close>): the best-effort submission to every configured hub address and
  the lookup that sweeps them. What the transport does with a request is the environment's: how long
  it takes to accept it, and when and how the waiter is resolved. Time is in milliseconds since the
  call; a \<open>timeout_at\<close> gives the value when it is ready by the deadline.
\<close>

section \<open>Errors and configuration\<close>

datatype nym_error = Encode wire_error | Timeout | TransportGone

fun display_nym_error :: "nym_error \<Rightarrow> string" where
  "display_nym_error (Encode err) = ''could not frame the request: '' @ display_wire_error err"
| "display_nym_error Timeout = ''no reply from the hub within the timeout''"
| "display_nym_error TransportGone = ''the mixnet transport is not running''"

definition REQUEST_TIMEOUT :: nat where "REQUEST_TIMEOUT = 90 * 1000"
definition SUBMIT_DISPATCH_TIMEOUT :: nat where "SUBMIT_DISPATCH_TIMEOUT = 5 * 1000"

record nym_handle =
  nh_timeout :: nat
  nh_dispatch_timeout :: nat
  nh_targets :: nat
  nh_cursor :: u64

definition nym_handle_new :: "nat \<Rightarrow> nat \<Rightarrow> nat \<Rightarrow> nym_handle" where
  "nym_handle_new timeout dispatch_timeout targets =
     \<lparr>nh_timeout = timeout, nh_dispatch_timeout = dispatch_timeout, nh_targets = targets, nh_cursor = 0\<rparr>"

section \<open>The environment of a call\<close>

text \<open>
  \<open>requests.send\<close>: accepted or refused (the loop is gone) after a while, or never.
\<close>

datatype accept = AcceptedAfter nat | ClosedAfter nat | NeverAccepts

text \<open>The waiter: a value, or dropped without one, after a while from acceptance, or never.\<close>

datatype 'r resolution = RepliesAfter nat 'r | DroppedAfter nat | NeverReplies

text \<open>
  One attempt of a call sees a fresh nonce, a fresh channel, and these two.
\<close>

record 'r attempt_env =
  ae_nonce :: nonce
  ae_chan :: nat
  ae_accept :: accept
  ae_reply :: "'r resolution"

section \<open>Submission\<close>

definition submit_request :: "nonce \<Rightarrow> nat \<Rightarrow> nat \<Rightarrow> bytes \<Rightarrow> (wire_error, nym_request) result" where
  "submit_request nonce chan target tx =
     (case encode_submit nonce tx of
        Err e \<Rightarrow> Err e
      | Ok frame \<Rightarrow> Ok \<lparr>rq_nonce = nonce, rq_frame = frame, rq_surbs = SUBMIT_REPLY_SURBS,
                       rq_waiter = AckWaiter chan, rq_target = target\<rparr>)"

text \<open>
  The loop over the targets still to go, from \<open>target\<close> on, \<open>elapsed\<close> after the call: the
  requests handed over, the time at its end, and the error of the one early return.
\<close>

fun submit_loop ::
    "(nat \<Rightarrow> 'r attempt_env) \<Rightarrow> nat \<Rightarrow> bytes \<Rightarrow> nat \<Rightarrow> nat \<Rightarrow> nat \<Rightarrow> nym_request list \<times> nat \<times> nym_error option"
where
  "submit_loop env limit tx elapsed target 0 = ([], elapsed, None)"
| "submit_loop env limit tx elapsed target (Suc remaining) =
     (let e = env target
      in case submit_request (ae_nonce e) (ae_chan e) target tx of
           Err err \<Rightarrow> ([], elapsed, Some (Encode err))
         | Ok request \<Rightarrow>
             (case ae_accept e of
                AcceptedAfter d \<Rightarrow>
                  (if elapsed + d \<le> limit then
                     (let (out, t, err) = submit_loop env limit tx (elapsed + d) (Suc target) remaining
                      in (request # out, t, err))
                   else ([], limit, None))
              | ClosedAfter d \<Rightarrow> ([], min (elapsed + d) limit, None)
              | NeverAccepts \<Rightarrow> ([], limit, None)))"

definition nym_submit ::
    "nym_handle \<Rightarrow> (nat \<Rightarrow> 'r attempt_env) \<Rightarrow> bytes \<Rightarrow> nym_request list \<times> nat \<times> (nym_error, unit) result" where
  "nym_submit h env tx =
     (if nh_targets h = 0 then ([], 0, Err TransportGone)
      else let (out, t, early) = submit_loop env (nh_dispatch_timeout h) tx 0 0 (nh_targets h)
           in (out, t, case early of Some err \<Rightarrow> Err err
                        | None \<Rightarrow> if 0 < length out then Ok () else Err TransportGone))"

section \<open>Lookup\<close>

definition lookup_request :: "nonce \<Rightarrow> nat \<Rightarrow> nat \<Rightarrow> bytes \<Rightarrow> (wire_error, nym_request) result" where
  "lookup_request nonce chan target wire_hash =
     (case encode_lookup nonce wire_hash of
        Err e \<Rightarrow> Err e
      | Ok frame \<Rightarrow> Ok \<lparr>rq_nonce = nonce, rq_frame = frame, rq_surbs = LOOKUP_REPLY_SURBS,
                       rq_waiter = LookupWaiter chan, rq_target = target\<rparr>)"

text \<open>\<open>await_reply\<close>: \<open>used\<close> of the limit is gone when the wait starts.\<close>

fun await_reply :: "nat \<Rightarrow> nat \<Rightarrow> 'r resolution \<Rightarrow> nat \<times> (nym_error, 'r) result" where
  "await_reply limit used (RepliesAfter d r) =
     (if used + d \<le> limit then (used + d, Ok r) else (limit, Err Timeout))"
| "await_reply limit used (DroppedAfter d) =
     (if used + d \<le> limit then (used + d, Err TransportGone) else (limit, Err Timeout))"
| "await_reply limit used NeverReplies = (limit, Err Timeout)"

text \<open>
  \<open>each_target\<close>: \<open>start\<close> is the cursor's old value, \<open>attempt\<close> counts up, \<open>last\<close>
  is the error so far. The index arithmetic is that of a 64-bit \<open>usize\<close>.
\<close>

definition sweep_target :: "u64 \<Rightarrow> nat \<Rightarrow> nat \<Rightarrow> nat" where
  "sweep_target start attempt targets = unat (start + word_of_nat attempt) mod targets"

fun sweep ::
    "(nat \<Rightarrow> 'r attempt_env) \<Rightarrow> (nat \<Rightarrow> nat \<Rightarrow> (wire_error, nym_request) result) \<Rightarrow> nat \<Rightarrow> nat \<Rightarrow> u64 \<Rightarrow>
     nat \<Rightarrow> nat \<Rightarrow> nym_error \<Rightarrow> nym_request list \<times> nat \<times> (nym_error, 'r) result"
where
  "sweep env build limit targets start attempt 0 last_err = ([], 0, Err last_err)"
| "sweep env build limit targets start attempt (Suc remaining) last_err =
     (let e = env attempt; target = sweep_target start attempt targets
      in case build attempt target of
           Err err \<Rightarrow> ([], 0, Err (Encode err))
         | Ok request \<Rightarrow>
             (let again = sweep env build limit targets start (Suc attempt) remaining Timeout
              in case ae_accept e of
                   AcceptedAfter d \<Rightarrow>
                     (if d \<le> limit then
                        (case await_reply limit d (ae_reply e) of
                           (t, Err Timeout) \<Rightarrow> (request # fst again, t + fst (snd again), snd (snd again))
                         | (t, other) \<Rightarrow> ([request], t, other))
                      else (fst again, limit + fst (snd again), snd (snd again)))
                 | ClosedAfter d \<Rightarrow>
                     (if d \<le> limit then ([], d, Err TransportGone)
                      else (fst again, limit + fst (snd again), snd (snd again)))
                 | NeverAccepts \<Rightarrow> (fst again, limit + fst (snd again), snd (snd again))))"

definition each_target ::
    "nym_handle \<Rightarrow> (nat \<Rightarrow> 'r attempt_env) \<Rightarrow> (nat \<Rightarrow> nat \<Rightarrow> (wire_error, nym_request) result) \<Rightarrow>
     nym_request list \<times> nat \<times> (nym_error, 'r) result \<times> nym_handle" where
  "each_target h env build =
     (if nh_targets h = 0 then ([], 0, Err TransportGone, h)
      else let (out, t, r) = sweep env build (nh_timeout h) (nh_targets h) (nh_cursor h) 0 (nh_targets h) TransportGone
           in (out, t, r, h\<lparr>nh_cursor := nh_cursor h + 1\<rparr>))"

definition nym_get_transaction ::
    "nym_handle \<Rightarrow> (nat \<Rightarrow> lookup_reply attempt_env) \<Rightarrow> bytes \<Rightarrow>
     nym_request list \<times> nat \<times> (nym_error, lookup_reply) result \<times> nym_handle" where
  "nym_get_transaction h env wire_hash =
     each_target h env
       (\<lambda>attempt target. lookup_request (ae_nonce (env attempt)) (ae_chan (env attempt)) target wire_hash)"

section \<open>What a submission does\<close>

fun accept_wait :: "accept \<Rightarrow> nat" where
  "accept_wait (AcceptedAfter d) = d"
| "accept_wait (ClosedAfter d) = d"
| "accept_wait NeverAccepts = 0"

text \<open>The first \<open>m\<close> addresses from \<open>target\<close> on accept within what is left of the budget.\<close>

definition accepts_within :: "(nat \<Rightarrow> 'r attempt_env) \<Rightarrow> nat \<Rightarrow> nat \<Rightarrow> nat \<Rightarrow> nat \<Rightarrow> bool" where
  "accepts_within env limit elapsed target m \<longleftrightarrow>
     (\<forall>i<m. \<exists>d. ae_accept (env (target + i)) = AcceptedAfter d)
     \<and> (m = 0 \<or> elapsed + (\<Sum>i<m. accept_wait (ae_accept (env (target + i)))) \<le> limit)"

lemma accepts_within_0 [simp]: "accepts_within env limit elapsed target 0"
  by (simp add: accepts_within_def)

lemma accepts_within_Suc:
  assumes "ae_accept (env target) = AcceptedAfter d" "elapsed + d \<le> limit"
  shows "accepts_within env limit elapsed target (Suc m) \<longleftrightarrow> accepts_within env limit (elapsed + d) (Suc target) m"
proof -
  have "(\<Sum>i<Suc m. accept_wait (ae_accept (env (target + i)))) =
      d + (\<Sum>i<m. accept_wait (ae_accept (env (Suc target + i))))"
    using assms(1) by (subst sum.lessThan_Suc_shift) simp
  moreover have "(\<forall>i<Suc m. \<exists>d. ae_accept (env (target + i)) = AcceptedAfter d) \<longleftrightarrow>
      (\<forall>i<m. \<exists>d. ae_accept (env (Suc target + i)) = AcceptedAfter d)"
    using assms(1) by (auto simp: less_Suc_eq_0_disj)
  ultimately show ?thesis using assms(2) by (cases m) (simp_all add: accepts_within_def add.assoc)
qed

lemma accepts_within_refused:
  assumes "\<And>d. ae_accept (env target) = AcceptedAfter d \<Longrightarrow> limit < elapsed + d"
  shows "\<not> accepts_within env limit elapsed target (Suc m)"
proof
  assume a: "accepts_within env limit elapsed target (Suc m)"
  then obtain d where d: "ae_accept (env target) = AcceptedAfter d" by (force simp: accepts_within_def)
  moreover have "d \<le> (\<Sum>i<Suc m. accept_wait (ae_accept (env (target + i))))"
    using d by (subst sum.lessThan_Suc_shift) simp
  ultimately show False using a assms [of d] by (auto simp: accepts_within_def)
qed

lemma submit_request_fits:
  assumes "length nonce = NONCE_BYTES" "length tx \<le> MAX_NYM_TX_BYTES"
  shows "\<exists>f. decode_submit f = Ok (nonce, tx) \<and> submit_request nonce chan target tx =
    Ok \<lparr>rq_nonce = nonce, rq_frame = f, rq_surbs = SUBMIT_REPLY_SURBS, rq_waiter = AckWaiter chan, rq_target = target\<rparr>"
  using submit.encode_fits [OF assms(1), of tx] assms(2) by (auto simp: submit_request_def)

definition carries :: "(nat \<Rightarrow> 'r attempt_env) \<Rightarrow> bytes \<Rightarrow> nym_request \<Rightarrow> bool" where
  "carries env tx rq \<longleftrightarrow> decode_submit (rq_frame rq) = Ok (rq_nonce rq, tx)
     \<and> rq_nonce rq = ae_nonce (env (rq_target rq)) \<and> rq_surbs rq = SUBMIT_REPLY_SURBS
     \<and> rq_waiter rq = AckWaiter (ae_chan (env (rq_target rq)))"

lemma submit_loop_spec:
  assumes "\<And>i. length (ae_nonce (env i)) = NONCE_BYTES" "length tx \<le> MAX_NYM_TX_BYTES"
    "submit_loop env limit tx elapsed target n = (out, t, err)" "elapsed \<le> limit"
  shows "err = None \<and> t \<le> limit \<and> map rq_target out = [target..<target + length out]
    \<and> length out \<le> n \<and> (\<forall>rq \<in> set out. carries env tx rq)
    \<and> (\<forall>m \<le> n. m \<le> length out \<longleftrightarrow> accepts_within env limit elapsed target m)"
  using assms(3,4)
proof (induction n arbitrary: elapsed target out t err)
  case 0
  then show ?case by simp
next
  case (Suc n)
  obtain f where f: "decode_submit f = Ok (ae_nonce (env target), tx)"
    "submit_request (ae_nonce (env target)) (ae_chan (env target)) target tx =
     Ok \<lparr>rq_nonce = ae_nonce (env target), rq_frame = f, rq_surbs = SUBMIT_REPLY_SURBS,
         rq_waiter = AckWaiter (ae_chan (env target)), rq_target = target\<rparr>"
    using submit_request_fits assms(1,2) by blast
  show ?case
  proof (cases "\<exists>d. ae_accept (env target) = AcceptedAfter d \<and> elapsed + d \<le> limit")
    case True
    then obtain d where d: "ae_accept (env target) = AcceptedAfter d" "elapsed + d \<le> limit" by blast
    obtain out' t' err' where rest: "submit_loop env limit tx (elapsed + d) (Suc target) n = (out', t', err')"
      using prod_cases3 by blast
    have s: "out = \<lparr>rq_nonce = ae_nonce (env target), rq_frame = f, rq_surbs = SUBMIT_REPLY_SURBS,
        rq_waiter = AckWaiter (ae_chan (env target)), rq_target = target\<rparr> # out'" "t = t'" "err = err'"
      using Suc.prems(1) d f(2) rest by (simp_all add: Let_def)
    have "m \<le> length out \<longleftrightarrow> accepts_within env limit elapsed target m" if "m \<le> Suc n" for m
      using that Suc.IH [OF rest d(2)] accepts_within_Suc [where env = env, OF d]
      by (cases m) (simp_all add: s)
    with s Suc.IH [OF rest d(2)] f(1) show ?thesis
      by (simp add: carries_def upt_conv_Cons del: upt_Suc)
  next
    case False
    then have "out = [] \<and> err = None \<and> t \<le> limit"
      using Suc.prems f(2) by (auto simp: Let_def split: accept.splits)
    moreover have "m \<le> 0 \<longleftrightarrow> accepts_within env limit elapsed target m" for m
      using False by (cases m) (auto intro!: accepts_within_refused simp: not_le [symmetric])
    ultimately show ?thesis by simp
  qed
qed

lemma submit_loop_too_large:
  "\<not> length tx \<le> MAX_NYM_TX_BYTES \<Longrightarrow> 0 < n \<Longrightarrow>
     submit_loop env limit tx elapsed target n = ([], elapsed, Some (Encode (TxTooLarge (length tx) MAX_NYM_TX_BYTES)))"
  by (cases n) (simp_all add: submit_request_def encode_submit_def)

lemma submit_ignores_replies:
  "submit_loop (\<lambda>i. (env i)\<lparr>ae_reply := f i\<rparr>) limit tx elapsed target n = submit_loop env limit tx elapsed target n"
  by (induction n arbitrary: elapsed target) (simp_all add: Let_def split: sum.split accept.split)

section \<open>What a lookup does\<close>

text \<open>The verdict of one attempt.\<close>

definition attempt_result :: "nat \<Rightarrow> 'r attempt_env \<Rightarrow> (nym_error, 'r) result" where
  "attempt_result limit e =
     (case ae_accept e of
        AcceptedAfter d \<Rightarrow> if d \<le> limit then snd (await_reply limit d (ae_reply e)) else Err Timeout
      | ClosedAfter d \<Rightarrow> if d \<le> limit then Err TransportGone else Err Timeout
      | NeverAccepts \<Rightarrow> Err Timeout)"

definition first_answer :: "nat \<Rightarrow> (nat \<Rightarrow> 'r attempt_env) \<Rightarrow> nat list \<Rightarrow> (nym_error, 'r) result option" where
  "first_answer limit env ks =
     map_option (\<lambda>k. attempt_result limit (env k)) (List.find (\<lambda>k. attempt_result limit (env k) \<noteq> Err Timeout) ks)"

lemma await_reply_bound: "used \<le> limit \<Longrightarrow> fst (await_reply limit used r) \<le> limit"
  by (cases r) auto

lemma sweep_Suc:
  assumes "build attempt (sweep_target start attempt targets) = Ok rq"
    "sweep env build limit targets start (Suc attempt) n Timeout = (out', t', r')"
    "sweep env build limit targets start attempt (Suc n) last_err = (out, t, r)"
  shows "(if attempt_result limit (env attempt) = Err Timeout
          then r = r' \<and> t \<le> limit + t' \<and> (out = out' \<or> out = rq # out')
          else r = attempt_result limit (env attempt) \<and> t \<le> limit \<and> (out = [] \<or> out = [rq]))"
proof (cases "ae_accept (env attempt)")
  case (AcceptedAfter d)
  show ?thesis
  proof (cases "d \<le> limit")
    case True
    obtain u v where uv: "await_reply limit d (ae_reply (env attempt)) = (u, v)" by (metis prod.exhaust)
    then have "u \<le> limit" using await_reply_bound [OF True, of "ae_reply (env attempt)"] by simp
    with assms uv AcceptedAfter True show ?thesis
      by (cases v; cases "projl v") (auto simp: attempt_result_def Let_def)
  next
    case False
    with assms AcceptedAfter show ?thesis by (simp add: attempt_result_def Let_def)
  qed
qed (use assms in \<open>auto simp: attempt_result_def Let_def split: if_splits\<close>)

lemma sweep_spec:
  assumes "\<And>k tg. build k tg = Ok (mk k tg)"
    and "sweep env build limit targets start attempt n last_err = (out, t, r)"
  shows "r = (case first_answer limit env [attempt..<attempt + n] of Some v \<Rightarrow> v
              | None \<Rightarrow> Err (if n = 0 then last_err else Timeout))
    \<and> t \<le> n * limit
    \<and> (\<exists>ks. sorted_wrt (<) ks \<and> set ks \<subseteq> {attempt..<attempt + n}
         \<and> out = map (\<lambda>k. mk k (sweep_target start k targets)) ks)"
  using assms(2)
proof (induction n arbitrary: attempt last_err out t r)
  case 0
  then show ?case by (auto simp: first_answer_def intro: exI [of _ "[]"])
next
  case (Suc n)
  obtain out' t' r' where rest: "sweep env build limit targets start (Suc attempt) n Timeout = (out', t', r')"
    using prod_cases3 by blast
  from Suc.IH [OF rest] obtain ks where ks: "sorted_wrt (<) ks" "set ks \<subseteq> {Suc attempt..<Suc attempt + n}"
      "out' = map (\<lambda>k. mk k (sweep_target start k targets)) ks"
    and r': "r' = (case first_answer limit env [Suc attempt..<Suc attempt + n] of Some v \<Rightarrow> v | None \<Rightarrow> Err Timeout)"
    and t': "t' \<le> n * limit" by auto
  have first: "first_answer limit env [attempt..<attempt + Suc n] =
      (if attempt_result limit (env attempt) = Err Timeout then first_answer limit env [Suc attempt..<Suc attempt + n]
       else Some (attempt_result limit (env attempt)))"
    by (simp add: first_answer_def upt_conv_Cons del: upt_Suc)
  have lt: "\<forall>k \<in> set ks. attempt < k" using ks(2) by auto
  note step = sweep_Suc [OF assms(1) rest Suc.prems]
  show ?case
  proof (cases "attempt_result limit (env attempt) = Err Timeout")
    case True
    with step consider "out = out'" | "out = mk attempt (sweep_target start attempt targets) # out'" by auto
    then have "\<exists>ks. sorted_wrt (<) ks \<and> set ks \<subseteq> {attempt..<attempt + Suc n}
        \<and> out = map (\<lambda>k. mk k (sweep_target start k targets)) ks"
    proof cases
      case 1
      with ks show ?thesis by (intro exI [of _ ks]) auto
    next
      case 2
      with ks lt show ?thesis by (intro exI [of _ "attempt # ks"]) auto
    qed
    with True step first r' t' show ?thesis by (auto split: option.splits)
  next
    case False
    with step consider "out = []" | "out = [mk attempt (sweep_target start attempt targets)]" by auto
    then have "\<exists>ks. sorted_wrt (<) ks \<and> set ks \<subseteq> {attempt..<attempt + Suc n}
        \<and> out = map (\<lambda>k. mk k (sweep_target start k targets)) ks"
    proof cases
      case 1
      then show ?thesis by (intro exI [of _ "[]"]) simp
    next
      case 2
      then show ?thesis by (intro exI [of _ "[attempt]"]) simp
    qed
    with False step first show ?thesis by auto
  qed
qed

lemma sweep_target_small:
  "unat start + k < 2 ^ 64 \<Longrightarrow> sweep_target start k n = (unat start + k) mod n"
  by (simp add: sweep_target_def unat_word_ariths unat_of_nat)

lemma shift_mod_inj:
  assumes "(a + k) mod n = (a + k') mod n" "k < n" "k' < (n :: nat)"
  shows "k = k'"
proof -
  have "int (a + k) mod int n = int (a + k') mod int n"
    using assms(1) by (simp only: of_nat_mod [symmetric])
  then have "int n dvd (int k - int k')"
    by (simp add: mod_eq_dvd_iff)
  moreover have "\<bar>int k - int k'\<bar> < int n" using assms(2,3) by linarith
  ultimately show ?thesis using zdvd_not_zless [of "\<bar>int k - int k'\<bar>" "int n"] by (cases "k = k'") auto
qed

lemma sweep_covers:
  assumes "unat start + n \<le> 2 ^ 64"
  shows "inj_on (\<lambda>k. sweep_target start k n) {..<n}"
    and "(\<lambda>k. sweep_target start k n) ` {..<n} = {..<n}"
proof -
  have eq: "sweep_target start k n = (unat start + k) mod n" if "k < n" for k
    using sweep_target_small that assms by simp
  show "inj_on (\<lambda>k. sweep_target start k n) {..<n}"
  proof (rule inj_onI)
    fix k k' assume k: "k \<in> {..<n}" "k' \<in> {..<n}" "sweep_target start k n = sweep_target start k' n"
    then have lt: "k < n" "k' < n" by simp_all
    from k(3) have "(unat start + k) mod n = (unat start + k') mod n"
      unfolding eq [OF lt(1)] eq [OF lt(2)] .
    then show "k = k'" using lt by (rule shift_mod_inj)
  qed
  moreover have "(\<lambda>k. sweep_target start k n) ` {..<n} \<subseteq> {..<n}"
    by (auto simp: sweep_target_def)
  ultimately show "(\<lambda>k. sweep_target start k n) ` {..<n} = {..<n}"
    by (intro endo_inj_surj finite_lessThan)
qed

lemma lookup_request_fits:
  assumes "length nonce = NONCE_BYTES" "length h \<le> MAX_LOOKUP_HASH_BYTES"
  shows "\<exists>f. decode_lookup f = Ok (nonce, h) \<and> lookup_request nonce chan target h =
    Ok \<lparr>rq_nonce = nonce, rq_frame = f, rq_surbs = LOOKUP_REPLY_SURBS, rq_waiter = LookupWaiter chan, rq_target = target\<rparr>"
  using lookup.encode_fits [OF assms(1), of h] assms(2) by (auto simp: lookup_request_def)

section \<open>Properties\<close>

text \<open>
  C13. A submission goes to every configured address, in order, and never chooses among them: the
  requests handed to the transport are for the addresses 0, 1, ... up to the first one the transport
  does not accept within the common budget, each with its own nonce, its own channel and a frame that
  carries exactly the transaction. It succeeds exactly when one was handed over, takes no longer than
  the dispatch budget, and depends on no reply of any hub. What does not fit the frame is refused
  with the size error before anything is sent.
\<close>

theorem submission_goes_to_every_address:
  assumes "\<And>i. length (ae_nonce (env i)) = NONCE_BYTES" and "0 < nh_targets h"
    and "nym_submit h env tx = (out, t, r)"
  shows "(if length tx \<le> MAX_NYM_TX_BYTES
      then map rq_target out = [0..<length out]
        \<and> (\<forall>m \<le> nh_targets h. m \<le> length out \<longleftrightarrow> accepts_within env (nh_dispatch_timeout h) 0 0 m)
        \<and> (\<forall>rq \<in> set out. decode_submit (rq_frame rq) = Ok (rq_nonce rq, tx)
             \<and> rq_nonce rq = ae_nonce (env (rq_target rq))
             \<and> rq_surbs rq = SUBMIT_REPLY_SURBS \<and> rq_waiter rq = AckWaiter (ae_chan (env (rq_target rq))))
        \<and> length out \<le> nh_targets h \<and> t \<le> nh_dispatch_timeout h
        \<and> r = (if out = [] then Err TransportGone else Ok ())
      else out = [] \<and> r = Err (Encode (TxTooLarge (length tx) MAX_NYM_TX_BYTES)))
    \<and> nym_submit h (\<lambda>i. (env i)\<lparr>ae_reply := f i\<rparr>) tx = nym_submit h env tx"
proof -
  have "nym_submit h (\<lambda>i. (env i)\<lparr>ae_reply := f i\<rparr>) tx = nym_submit h env tx"
    by (simp add: nym_submit_def submit_ignores_replies)
  moreover obtain out' t' err where run:
      "submit_loop env (nh_dispatch_timeout h) tx 0 0 (nh_targets h) = (out', t', err)"
    using prod_cases3 by blast
  moreover have "out = out' \<and> t = t' \<and> r = (case err of Some e \<Rightarrow> Err e
      | None \<Rightarrow> if 0 < length out' then Ok () else Err TransportGone)"
    using assms(2,3) run by (auto simp: nym_submit_def)
  ultimately show ?thesis
    using submit_loop_spec [OF assms(1) _ run] assms(2)
      submit_loop_too_large [of tx "nh_targets h" env "nh_dispatch_timeout h" 0 0]
    by (cases "length tx \<le> MAX_NYM_TX_BYTES") (auto simp: carries_def)
qed

theorem submission_goes_to_every_address_witness:
  "\<exists>out t. nym_submit \<lparr>nh_timeout = 10, nh_dispatch_timeout = 5, nh_targets = 2, nh_cursor = 0\<rparr>
      (\<lambda>i. \<lparr>ae_nonce = replicate 16 (word_of_nat i), ae_chan = i, ae_accept = AcceptedAfter i,
            ae_reply = NeverReplies :: lookup_reply resolution\<rparr>)
      [1, 2] = (out, t, Ok ()) \<and> map rq_target out = [0, 1] \<and> t \<le> 5"
proof -
  let ?h = "\<lparr>nh_timeout = 10, nh_dispatch_timeout = 5, nh_targets = 2, nh_cursor = 0\<rparr>"
  let ?env = "\<lambda>i. \<lparr>ae_nonce = replicate 16 (word_of_nat i), ae_chan = i, ae_accept = AcceptedAfter i,
    ae_reply = NeverReplies :: lookup_reply resolution\<rparr>"
  obtain out t r where run: "nym_submit ?h ?env [1, 2] = (out, t, r)" using prod_cases3 by blast
  have two: "accepts_within ?env 5 0 0 2"
    unfolding accepts_within_def by (simp add: numeral_2_eq_2)
  have n: "length (ae_nonce (?env i)) = NONCE_BYTES" for i by (simp add: wire_consts)
  from submission_goes_to_every_address [OF n _ run]
  have spec: "map rq_target out = [0..<length out]" "\<forall>m \<le> 2. m \<le> length out \<longleftrightarrow> accepts_within ?env 5 0 0 m"
    "length out \<le> 2" "t \<le> 5" "r = (if out = [] then Err TransportGone else Ok ())"
    by (simp_all add: wire_consts)
  from spec(2) two have "2 \<le> length out" by blast
  with spec(3) have len: "length out = 2" by simp
  then have "out \<noteq> []" by auto
  with spec len have "map rq_target out = [0, 1]" "r = Ok ()" by (simp_all add: upt_rec)
  with run spec(4) show ?thesis by (intro exI [of _ out] exI [of _ t]) simp
qed

text \<open>
  A lookup asks the hub addresses one after the other, starting at the cursor, each once: while
  the cursor is not at the end of its 64 bits, the attempts visit every configured address exactly
  once. The answer is that of the first attempt that does not time out, a live hub's reply or a gone
  transport, and a timeout only when all do; the whole takes no longer than the number of addresses
  times the lookup budget, and every frame sent carries the queried hash with the attempt's own
  nonce.
\<close>

theorem lookup_sweeps_each_address_once:
  assumes "\<And>i. length (ae_nonce (env i)) = NONCE_BYTES" and "length wire_hash \<le> MAX_LOOKUP_HASH_BYTES"
    and "0 < nh_targets h" and "unat (nh_cursor h) + nh_targets h \<le> 2 ^ 64"
    and "nym_get_transaction h env wire_hash = (out, t, r, h')"
  shows "(\<forall>a < nh_targets h. \<exists>!k. k < nh_targets h \<and> sweep_target (nh_cursor h) k (nh_targets h) = a)
    \<and> r = (case List.find (\<lambda>k. attempt_result (nh_timeout h) (env k) \<noteq> Err Timeout) [0..<nh_targets h] of
             Some k \<Rightarrow> attempt_result (nh_timeout h) (env k) | None \<Rightarrow> Err Timeout)
    \<and> t \<le> nh_targets h * nh_timeout h
    \<and> distinct (map rq_target out)
    \<and> (\<forall>rq \<in> set out. rq_target rq < nh_targets h \<and> decode_lookup (rq_frame rq) = Ok (rq_nonce rq, wire_hash)
         \<and> rq_surbs rq = LOOKUP_REPLY_SURBS)
    \<and> h' = h\<lparr>nh_cursor := nh_cursor h + 1\<rparr>"
proof -
  let ?n = "nh_targets h"
  let ?build = "\<lambda>attempt target. lookup_request (ae_nonce (env attempt)) (ae_chan (env attempt)) target wire_hash"
  define mk where "mk k tg = projr (?build k tg)" for k tg
  have mk: "?build k tg = Ok (mk k tg) \<and> rq_target (mk k tg) = tg \<and> rq_surbs (mk k tg) = LOOKUP_REPLY_SURBS
      \<and> decode_lookup (rq_frame (mk k tg)) = Ok (rq_nonce (mk k tg), wire_hash)" for k tg
    using lookup_request_fits [OF assms(1,2), of k "ae_chan (env k)" tg] by (auto simp: mk_def)
  obtain out' t' r' where run:
      "sweep env ?build (nh_timeout h) ?n (nh_cursor h) 0 ?n TransportGone = (out', t', r')"
    using prod_cases3 by blast
  have eq: "out = out'" "t = t'" "r = r'" "h' = h\<lparr>nh_cursor := nh_cursor h + 1\<rparr>"
    using assms(3,5) run by (auto simp: nym_get_transaction_def each_target_def)
  have build: "?build k tg = Ok (mk k tg)" for k tg using mk by blast
  obtain ks where ks: "sorted_wrt (<) ks" "set ks \<subseteq> {..<?n}"
      "out = map (\<lambda>k. mk k (sweep_target (nh_cursor h) k ?n)) ks"
    and r: "r = (case first_answer (nh_timeout h) env [0..<?n] of Some v \<Rightarrow> v | None \<Rightarrow> Err Timeout)"
    and t: "t \<le> ?n * nh_timeout h"
    using sweep_spec [where mk = mk, OF build run] assms(3) by (auto simp: eq lessThan_atLeast0)
  have targets: "map rq_target out = map (\<lambda>k. sweep_target (nh_cursor h) k ?n) ks"
    using mk by (simp add: ks(3))
  note cover = sweep_covers [OF assms(4)]
  have "distinct (map rq_target out)"
    unfolding targets using ks cover(1)
    by (simp add: distinct_map strict_sorted_iff inj_on_subset)
  moreover have "\<exists>!k. k < ?n \<and> sweep_target (nh_cursor h) k ?n = a" if "a < ?n" for a
    using that cover unfolding inj_on_def by (metis (no_types, lifting) imageE lessThan_iff)
  moreover have "sweep_target (nh_cursor h) k ?n < ?n" for k
    using assms(3) by (simp add: sweep_target_def)
  moreover have "r = (case List.find (\<lambda>k. attempt_result (nh_timeout h) (env k) \<noteq> Err Timeout) [0..<?n] of
             Some k \<Rightarrow> attempt_result (nh_timeout h) (env k) | None \<Rightarrow> Err Timeout)"
    unfolding r first_answer_def by (simp split: option.split)
  moreover have "\<forall>rq \<in> set out. \<exists>k. rq = mk k (sweep_target (nh_cursor h) k ?n)"
    using ks(3) by auto
  ultimately show ?thesis
    using mk t eq(4) by fastforce
qed

theorem lookup_sweeps_each_address_once_witness:
  "\<exists>out t h'. nym_get_transaction \<lparr>nh_timeout = 10, nh_dispatch_timeout = 5, nh_targets = 2, nh_cursor = 1\<rparr>
      (\<lambda>i. \<lparr>ae_nonce = replicate 16 7, ae_chan = i, ae_accept = AcceptedAfter 3,
            ae_reply = (if i = 0 then NeverReplies else RepliesAfter 4 NotFound)\<rparr>)
      (replicate 32 1) = (out, t, Ok NotFound, h') \<and> t \<le> 20"
proof -
  let ?h = "\<lparr>nh_timeout = 10, nh_dispatch_timeout = 5, nh_targets = 2, nh_cursor = 1\<rparr>"
  let ?env = "\<lambda>i. \<lparr>ae_nonce = replicate 16 7, ae_chan = i, ae_accept = AcceptedAfter 3,
    ae_reply = (if i = (0::nat) then NeverReplies else RepliesAfter 4 NotFound)\<rparr>"
  obtain out t r h' where run: "nym_get_transaction ?h ?env (replicate 32 1) = (out, t, r, h')"
    using prod_cases4 by blast
  have n: "length (ae_nonce (?env i)) = NONCE_BYTES" for i by (simp add: wire_consts)
  have "List.find (\<lambda>k. attempt_result 10 (?env k) \<noteq> Err Timeout) [0..<2] = Some 1"
    by (simp add: attempt_result_def upt_rec)
  moreover have "attempt_result 10 (?env 1) = Ok NotFound" by (simp add: attempt_result_def)
  ultimately have "r = Ok NotFound" "t \<le> 20"
    using lookup_sweeps_each_address_once [OF n _ _ _ run] by (simp_all add: wire_consts)
  with run show ?thesis by blast
qed

end
