(* ===== verification/Supervisor.thy ===== *)
theory Supervisor
  imports NymHandle
begin

text \<open>
  The lifecycle policy of the mixnet client (\<open>RotationPolicy\<close>, \<open>next_rotation\<close> and
  \<open>run_supervisor\<close> in \<open>zeronym/shim/src/nym.rs\<close>): rebuild a dead client at once,
  rotate a live one on schedule but not under a request that can still be answered, disconnect on
  shutdown. The loop is a step function of the arm its \<open>select!\<close> takes; time, in
  milliseconds, passes between steps. A command channel whose receiver is gone makes a send fail.
\<close>

section \<open>Policy\<close>

record rotation_policy =
  period :: "nat option"
  defer_limit :: nat
  rebuild_backoff :: nat

definition policy_never :: rotation_policy where
  "policy_never = \<lparr>period = None, defer_limit = REQUEST_TIMEOUT, rebuild_backoff = 5 * 1000\<rparr>"

definition policy_every :: "nat \<Rightarrow> rotation_policy" where
  "policy_every p = policy_never\<lparr>period := Some p\<rparr>"

definition effective_defer_limit :: "rotation_policy \<Rightarrow> nat" where
  "effective_defer_limit p = max (defer_limit p) REQUEST_TIMEOUT"

definition next_rotation :: "rotation_policy \<Rightarrow> nat \<Rightarrow> nat option" where
  "next_rotation p now = map_option (\<lambda>per. now + max per (rebuild_backoff p)) (period p)"

definition DEFER_RECHECK :: nat where "DEFER_RECHECK = 250"

section \<open>The supervisor\<close>

datatype client_command = Rebuild | Disconnect

text \<open>Where the loop waits: at its \<open>select!\<close> with the computed wake-up, in the backoff after a death, or nowhere.\<close>

datatype sup_phase = Watching "nat option" | BackingOff nat | Stopped

record supervisor =
  clock :: nat
  rotate_at :: "nat option"
  defer_deadline :: "nat option"
  phase :: sup_phase
  commands :: "(nat \<times> client_command) list"

text \<open>The top of the loop: when to wake up next.\<close>

definition watch :: "supervisor \<Rightarrow> supervisor" where
  "watch s = s\<lparr>phase := Watching
     (case (defer_deadline s, rotate_at s) of
        (Some _, _) \<Rightarrow> Some (clock s + DEFER_RECHECK)
      | (None, Some at) \<Rightarrow> Some at
      | (None, None) \<Rightarrow> None)\<rparr>"

definition sup_start :: "rotation_policy \<Rightarrow> nat \<Rightarrow> supervisor" where
  "sup_start p now = watch \<lparr>clock = now, rotate_at = next_rotation p now, defer_deadline = None,
     phase = Stopped, commands = []\<rparr>"

text \<open>
  The arms: time passing, the shutdown signal, a death report, the driver's end of the event channel
  closing, the wake-up (with the in-flight count it reads), and the end of the backoff. The flag says
  whether the command channel takes the command.
\<close>

datatype sup_event =
    Elapse nat | ShutdownSignal bool | ClientDied bool | DriverGone | WakeUp nat bool | BackoffOver

fun sup_enabled :: "sup_event \<Rightarrow> supervisor \<Rightarrow> bool" where
  "sup_enabled (Elapse d) s \<longleftrightarrow> phase s \<noteq> Stopped"
| "sup_enabled (ShutdownSignal ok) s \<longleftrightarrow> phase s \<noteq> Stopped"
| "sup_enabled (ClientDied ok) s \<longleftrightarrow> (\<exists>w. phase s = Watching w)"
| "sup_enabled DriverGone s \<longleftrightarrow> (\<exists>w. phase s = Watching w)"
| "sup_enabled (WakeUp n ok) s \<longleftrightarrow> (\<exists>at. phase s = Watching (Some at) \<and> at \<le> clock s)"
| "sup_enabled BackoffOver s \<longleftrightarrow> (\<exists>until. phase s = BackingOff until \<and> until \<le> clock s)"

definition send_command :: "client_command \<Rightarrow> supervisor \<Rightarrow> supervisor" where
  "send_command c s = s\<lparr>commands := commands s @ [(clock s, c)]\<rparr>"

fun sup_arm :: "rotation_policy \<Rightarrow> supervisor \<Rightarrow> sup_event \<Rightarrow> supervisor" where
  "sup_arm p s (Elapse d) = s\<lparr>clock := clock s + d\<rparr>"
| "sup_arm p s (ShutdownSignal ok) = (if ok then send_command Disconnect s else s)\<lparr>phase := Stopped\<rparr>"
| "sup_arm p s (ClientDied ok) =
     (if ok then (send_command Rebuild s)\<lparr>phase := BackingOff (clock s + rebuild_backoff p)\<rparr>
      else s\<lparr>phase := Stopped\<rparr>)"
| "sup_arm p s DriverGone = s\<lparr>phase := Stopped\<rparr>"
| "sup_arm p s (WakeUp n ok) =
     (let deadline = (case defer_deadline s of Some d \<Rightarrow> d | None \<Rightarrow> clock s + effective_defer_limit p);
          s = s\<lparr>defer_deadline := Some deadline\<rparr>;
          idle = (n = 0)
      in if \<not> idle \<and> clock s < deadline then watch s
         else if \<not> ok then s\<lparr>phase := Stopped\<rparr>
         else watch ((send_command Rebuild s)\<lparr>rotate_at := next_rotation p (clock s), defer_deadline := None\<rparr>))"
| "sup_arm p s BackoffOver =
     watch (s\<lparr>rotate_at := next_rotation p (clock s), defer_deadline := None\<rparr>)"

definition sup_step :: "rotation_policy \<Rightarrow> supervisor \<Rightarrow> sup_event \<Rightarrow> supervisor" where
  "sup_step p s e = (if sup_enabled e s then sup_arm p s e else s)"

section \<open>Invariant\<close>

text \<open>The shortest time from a rebuild to the next rotation.\<close>

definition rotation_floor :: "rotation_policy \<Rightarrow> nat" where
  "rotation_floor p = (case period p of Some per \<Rightarrow> max per (rebuild_backoff p) | None \<Rightarrow> 0)"

definition sup_inv :: "rotation_policy \<Rightarrow> supervisor \<Rightarrow> bool" where
  "sup_inv p s \<longleftrightarrow>
     (rotate_at s = None \<longleftrightarrow> period p = None)
     \<and> (\<forall>(t, c) \<in> set (commands s). t \<le> clock s)
     \<and> (\<forall>w. phase s = Watching w \<longrightarrow>
          (\<forall>at. rotate_at s = Some at \<longrightarrow> (\<forall>(t, c) \<in> set (commands s). t + rotation_floor p \<le> at))
          \<and> (case defer_deadline s of
               None \<Rightarrow> w = rotate_at s
             | Some dl \<Rightarrow> \<exists>at. rotate_at s = Some at \<and> at \<le> clock s \<and> at + effective_defer_limit p \<le> dl))
     \<and> (phase s \<noteq> Stopped \<longrightarrow> (\<forall>(t, c) \<in> set (commands s). c = Rebuild))
     \<and> (\<forall>until. phase s = BackingOff until \<longrightarrow> (\<exists>t. (t, Rebuild) = last (commands s) \<and> until = t + rebuild_backoff p))"

lemma next_rotation_floor:
  "next_rotation p now = (if period p = None then None else Some (now + rotation_floor p))"
  by (auto simp: next_rotation_def rotation_floor_def)

lemma watch_fields [simp]:
  "clock (watch s) = clock s" "rotate_at (watch s) = rotate_at s" "defer_deadline (watch s) = defer_deadline s"
  "commands (watch s) = commands s"
  by (simp_all add: watch_def)

lemma watch_phase: "phase (watch s) = Watching
     (case (defer_deadline s, rotate_at s) of
        (Some _, _) \<Rightarrow> Some (clock s + DEFER_RECHECK) | (None, Some at) \<Rightarrow> Some at | (None, None) \<Rightarrow> None)"
  by (simp add: watch_def)

lemma send_command_fields [simp]:
  "clock (send_command c s) = clock s" "rotate_at (send_command c s) = rotate_at s"
  "defer_deadline (send_command c s) = defer_deadline s" "phase (send_command c s) = phase s"
  "commands (send_command c s) = commands s @ [(clock s, c)]"
  by (simp_all add: send_command_def)

lemma inv_start: "sup_inv p (sup_start p now)"
  by (simp add: sup_inv_def sup_start_def watch_phase next_rotation_floor split: option.split)

text \<open>After a rebuild, with nothing deferred, the next rotation is a full floor away.\<close>

lemma inv_restart:
  assumes "\<forall>(t, c) \<in> set (commands s). t \<le> clock s \<and> c = Rebuild"
  shows "sup_inv p (watch (s\<lparr>rotate_at := next_rotation p (clock s), defer_deadline := None\<rparr>))"
  using assms by (auto simp: sup_inv_def watch_phase next_rotation_floor split: option.split)

lemma wake_due:
  assumes "sup_inv p s" "sup_enabled (WakeUp n ok) s"
  obtains at where "rotate_at s = Some at" "at \<le> clock s"
    "\<forall>dl. defer_deadline s = Some dl \<longrightarrow> at + effective_defer_limit p \<le> dl"
    "\<forall>(t, c) \<in> set (commands s). t + rotation_floor p \<le> at" "period p \<noteq> None"
  using assms by (cases "defer_deadline s") (auto simp: sup_inv_def)

lemma inv_defer:
  assumes "sup_inv p s" "sup_enabled (WakeUp n ok) s"
    and "dl = (case defer_deadline s of Some d \<Rightarrow> d | None \<Rightarrow> clock s + effective_defer_limit p)"
  shows "sup_inv p (watch (s\<lparr>defer_deadline := Some dl\<rparr>))"
proof -
  obtain at where at: "rotate_at s = Some at" "at \<le> clock s"
    "\<forall>dl. defer_deadline s = Some dl \<longrightarrow> at + effective_defer_limit p \<le> dl"
    "\<forall>(t, c) \<in> set (commands s). t + rotation_floor p \<le> at" "period p \<noteq> None"
    by (rule wake_due [OF assms(1,2)])
  then have "at + effective_defer_limit p \<le> dl" by (auto simp: assms(3) split: option.split)
  moreover have "\<forall>(t, c) \<in> set (commands s). t \<le> clock s \<and> c = Rebuild"
    using assms(1,2) by (auto simp: sup_inv_def)
  ultimately show ?thesis using at by (auto simp: sup_inv_def watch_phase)
qed

lemma inv_step: "sup_inv p s \<Longrightarrow> sup_inv p (sup_step p s e)"
proof (cases "sup_enabled e s")
  case True
  assume inv: "sup_inv p s"
  show ?thesis
  proof (cases e)
    case (WakeUp n ok)
    let ?dl = "case defer_deadline s of Some d \<Rightarrow> d | None \<Rightarrow> clock s + effective_defer_limit p"
    have "\<forall>(t, c) \<in> set (commands (send_command Rebuild (s\<lparr>defer_deadline := Some ?dl\<rparr>))). t \<le> clock s \<and> c = Rebuild"
      using inv True WakeUp by (auto simp: sup_inv_def)
    then have "sup_inv p (watch ((send_command Rebuild (s\<lparr>defer_deadline := Some ?dl\<rparr>))
        \<lparr>rotate_at := next_rotation p (clock s), defer_deadline := None\<rparr>))"
      using inv_restart [of "send_command Rebuild (s\<lparr>defer_deadline := Some ?dl\<rparr>)" p] by simp
    moreover have "sup_inv p (s\<lparr>defer_deadline := Some ?dl, phase := Stopped\<rparr>)"
      using inv by (simp add: sup_inv_def)
    ultimately show ?thesis
      using inv_defer [OF inv, of n ok ?dl] True WakeUp by (simp add: sup_step_def Let_def)
  next
    case BackoffOver
    with inv True have "\<forall>(t, c) \<in> set (commands s). t \<le> clock s \<and> c = Rebuild" by (auto simp: sup_inv_def)
    with True BackoffOver inv_restart [of s p] show ?thesis by (simp add: sup_step_def)
  next
    case (Elapse d)
    with True inv show ?thesis
      by (cases "phase s") (fastforce simp: sup_step_def sup_inv_def split: option.splits)+
  qed (use True inv in \<open>auto simp: sup_step_def sup_inv_def\<close>)
qed (simp add: sup_step_def)

interpretation sup: step_invariant "sup_step p" "sup_inv p" for p
  by unfold_locales (rule inv_step)

lemma reachable_inv: "sup_inv p (run (sup_step p) (sup_start p now) es)"
  by (rule sup.run_inv [OF inv_start])

text \<open>Stopping is final, and a disconnect is the last command.\<close>

definition sup_quiet :: "supervisor \<Rightarrow> bool" where
  "sup_quiet s \<longleftrightarrow> (\<forall>(t, c) \<in> set (butlast (commands s)). c = Rebuild)
     \<and> (commands s \<noteq> [] \<longrightarrow> snd (last (commands s)) = Disconnect \<longrightarrow> phase s = Stopped)"

lemma stopped_final: "phase s = Stopped \<Longrightarrow> sup_step p s e = s"
  by (cases e) (auto simp: sup_step_def)

lemma quiet_of_inv: "sup_inv p s \<Longrightarrow> phase s \<noteq> Stopped \<Longrightarrow> \<forall>(t, c) \<in> set (commands s). c = Rebuild"
  by (simp add: sup_inv_def)

lemma step_commands:
  assumes "sup_enabled e s"
  shows "commands (sup_step p s e) = commands s
    \<or> (\<exists>c. commands (sup_step p s e) = commands s @ [(clock s, c)]
         \<and> (c = Disconnect \<longrightarrow> phase (sup_step p s e) = Stopped))"
  using assms by (cases e) (auto simp: sup_step_def Let_def)

lemma quiet_step: "sup_inv p s \<and> sup_quiet s \<Longrightarrow> sup_inv p (sup_step p s e) \<and> sup_quiet (sup_step p s e)"
proof
  assume a: "sup_inv p s \<and> sup_quiet s"
  then show "sup_inv p (sup_step p s e)" using inv_step by blast
  show "sup_quiet (sup_step p s e)"
  proof (cases "sup_enabled e s")
    case False
    with a show ?thesis by (simp add: sup_step_def)
  next
    case True
    then have live: "phase s \<noteq> Stopped" by (cases e) auto
    note all = quiet_of_inv [OF conjunct1 [OF a] live]
    from step_commands [OF True, of p] show ?thesis
    proof
      assume same: "commands (sup_step p s e) = commands s"
      have "snd (last (commands s)) = Rebuild" if "commands s \<noteq> []"
        using all last_in_set [OF that] by (cases "last (commands s)") auto
      with same all show ?thesis by (auto simp: sup_quiet_def dest: in_set_butlastD)
    next
      assume "\<exists>c. commands (sup_step p s e) = commands s @ [(clock s, c)]
         \<and> (c = Disconnect \<longrightarrow> phase (sup_step p s e) = Stopped)"
      with all show ?thesis by (auto simp: sup_quiet_def)
    qed
  qed
qed

interpretation sup_commands: step_invariant "sup_step p" "\<lambda>s. sup_inv p s \<and> sup_quiet s" for p
  by unfold_locales (rule quiet_step)

lemma reachable_quiet: "sup_quiet (run (sup_step p) (sup_start p now) es)"
  using sup_commands.run_inv [of p "sup_start p now" es] inv_start
  by (simp add: sup_quiet_def sup_start_def)

section \<open>Properties\<close>

text \<open>
  C15. A rotation never cuts off a request that was waiting when it came due: whenever a wake-up
  rebuilds the client while requests are in flight, the rotation has been due for at least the
  deferral limit, and so for the whole budget of a lookup, whatever limit is configured. A wake-up
  with nothing in flight does not wait. Rotations come only when a period is set, and never sooner
  after any earlier command than the period, or the rebuild backoff when that is longer.
\<close>

theorem rotation_waits_for_requests:
  assumes "s = run (sup_step p) (sup_start p now) es" and "sup_enabled (WakeUp n True) s"
  shows "(0 < n \<longrightarrow> commands (sup_step p s (WakeUp n True)) \<noteq> commands s \<longrightarrow>
      (\<exists>at. rotate_at s = Some at \<and> at + max (defer_limit p) REQUEST_TIMEOUT \<le> clock s))
    \<and> commands (sup_step p s (WakeUp 0 True)) = commands s @ [(clock s, Rebuild)]
    \<and> (\<exists>per. period p = Some per \<and> (\<forall>(t, c) \<in> set (commands s). t + max per (rebuild_backoff p) \<le> clock s))"
proof -
  have inv: "sup_inv p s" using assms(1) reachable_inv by simp
  obtain at where at: "rotate_at s = Some at" "at \<le> clock s"
    "\<forall>dl. defer_deadline s = Some dl \<longrightarrow> at + effective_defer_limit p \<le> dl"
    "\<forall>(t, c) \<in> set (commands s). t + rotation_floor p \<le> at" "period p \<noteq> None"
    by (rule wake_due [OF inv assms(2)])
  have "at + effective_defer_limit p \<le> clock s"
    if "0 < n" "commands (sup_step p s (WakeUp n True)) \<noteq> commands s"
    using that at(3) assms(2)
    by (cases "defer_deadline s") (auto simp: sup_step_def Let_def effective_defer_limit_def REQUEST_TIMEOUT_def split: if_splits)
  moreover have "commands (sup_step p s (WakeUp 0 True)) = commands s @ [(clock s, Rebuild)]"
    using assms(2) by (simp add: sup_step_def)
  moreover have "\<exists>per. period p = Some per \<and> rotation_floor p = max per (rebuild_backoff p)"
    using at(5) by (auto simp: rotation_floor_def)
  ultimately show ?thesis using at by (fastforce simp: effective_defer_limit_def)
qed

theorem rotation_waits_for_requests_witness:
  "commands (sup_step (policy_every 600000)
      (run (sup_step (policy_every 600000)) (sup_start (policy_every 600000) 0) [Elapse 600000]) (WakeUp 0 True))
    = [(600000, Rebuild)]"
proof -
  let ?p = "policy_every 600000"
  let ?s = "run (sup_step ?p) (sup_start ?p 0) [Elapse 600000]"
  have "sup_enabled (WakeUp 0 True) ?s" "clock ?s = 600000" "commands ?s = []"
    by (simp_all add: sup_step_def sup_start_def watch_def next_rotation_def policy_every_def policy_never_def)
  with rotation_waits_for_requests [of ?s ?p 0 "[Elapse 600000]" 0] show ?thesis by simp
qed

text \<open>
  A dead client is rebuilt at once, whatever is in flight; nothing but a shutdown interrupts the
  backoff that follows; a shutdown is honoured wherever the loop waits, ends it with a disconnect, and
  no command ever follows that one. The loop ends only by a shutdown, by the driver going away, or by a
  command that could not be delivered.
\<close>

theorem supervisor_commands_are_orderly:
  assumes "s = run (sup_step p) (sup_start p now) es"
  shows "(\<forall>(t, c) \<in> set (butlast (commands s)). c = Rebuild)
    \<and> (phase s = Stopped \<or> (\<forall>(t, c) \<in> set (commands s). c = Rebuild))
    \<and> (case phase s of
         Watching w \<Rightarrow> commands (sup_step p s (ClientDied True)) = commands s @ [(clock s, Rebuild)]
           \<and> phase (sup_step p s (ClientDied True)) = BackingOff (clock s + rebuild_backoff p)
           \<and> commands (sup_step p s (ShutdownSignal True)) = commands s @ [(clock s, Disconnect)]
       | BackingOff until \<Rightarrow> (\<exists>t. last (commands s) = (t, Rebuild) \<and> until = t + rebuild_backoff p)
           \<and> (\<forall>n ok. sup_step p s (WakeUp n ok) = s \<and> sup_step p s (ClientDied ok) = s)
           \<and> commands (sup_step p s (ShutdownSignal True)) = commands s @ [(clock s, Disconnect)]
       | Stopped \<Rightarrow> run (sup_step p) s fs = s)"
proof -
  have inv: "sup_inv p s" and q: "sup_quiet s"
    using assms reachable_inv reachable_quiet by simp_all
  have stop: "run (sup_step p) s fs = s" if "phase s = Stopped"
    using that by (induction fs) (simp_all add: stopped_final)
  have "phase s = Stopped \<or> (\<forall>(t, c) \<in> set (commands s). c = Rebuild)"
    using quiet_of_inv [OF inv] by blast
  moreover have "case phase s of
         Watching w \<Rightarrow> commands (sup_step p s (ClientDied True)) = commands s @ [(clock s, Rebuild)]
           \<and> phase (sup_step p s (ClientDied True)) = BackingOff (clock s + rebuild_backoff p)
           \<and> commands (sup_step p s (ShutdownSignal True)) = commands s @ [(clock s, Disconnect)]
       | BackingOff until \<Rightarrow> (\<exists>t. last (commands s) = (t, Rebuild) \<and> until = t + rebuild_backoff p)
           \<and> (\<forall>n ok. sup_step p s (WakeUp n ok) = s \<and> sup_step p s (ClientDied ok) = s)
           \<and> commands (sup_step p s (ShutdownSignal True)) = commands s @ [(clock s, Disconnect)]
       | Stopped \<Rightarrow> run (sup_step p) s fs = s"
    using inv stop by (cases "phase s") (auto simp: sup_step_def sup_inv_def)
  ultimately show ?thesis using q by (simp add: sup_quiet_def)
qed

theorem supervisor_commands_are_orderly_witness:
  "let s = run (sup_step policy_never) (sup_start policy_never 0) [ClientDied True, Elapse 10, ShutdownSignal True]
   in commands s = [(0, Rebuild), (10, Disconnect)]
    \<and> run (sup_step policy_never) s [ClientDied True, WakeUp 0 True, ShutdownSignal True] = s"
  using supervisor_commands_are_orderly
    [OF refl, of policy_never 0 "[ClientDied True, Elapse 10, ShutdownSignal True]"
      "[ClientDied True, WakeUp 0 True, ShutdownSignal True]"]
  by (simp add: sup_step_def sup_start_def watch_def next_rotation_def policy_never_def send_command_def Let_def)

end
