(* ===== verification/Hub.thy ===== *)
theory Hub
  imports Grpc NymHandle TxHash
begin

text \<open>
  The client of the hub (\<open>zeronym/shim/src/hub.rs\<close>): submission and lookup over the
  clearnet HTTP transport or the mixnet. What happens outside the process is the environment's: each
  stage of a connection succeeds, fails or stalls until the deadline of the call. Everything the shim
  does to the outside is an entry of an effect trace, which the interception and the proxy extend.
\<close>

section \<open>Libraries and effects\<close>

record hub_response =
  disposition :: string
  hub_txid :: "string option"
  hub_reason :: "string option"

record raw_transaction =
  raw_data :: bytes
  raw_height :: u64

record tx_filter =
  filter_block :: "bytes option"
  filter_hash :: bytes

record send_response =
  error_code :: int
  error_message :: string

text \<open>
  The crates the code calls: header values and status codes (\<open>http\<close>), the hub's JSON (\<open>serde\<close>), the
  protobuf messages (\<open>prost\<close>), digests and curves.
\<close>

record libs =
  lib_hv :: "string \<Rightarrow> string option"
  lib_to_str :: "string \<Rightarrow> string option"
  lib_lossy :: "string \<Rightarrow> string"
  lib_status :: "nat \<Rightarrow> string"
  lib_json :: "bytes \<Rightarrow> (string, hub_response) result"
  decode_raw :: "bytes \<Rightarrow> (string, raw_transaction) result"
  encode_raw :: "raw_transaction \<Rightarrow> bytes"
  decode_filter :: "bytes \<Rightarrow> (string, tx_filter) result"
  encode_response :: "send_response \<Rightarrow> bytes"
  lib_crypto :: crypto
  lib_hashing :: hashing

datatype effect =
    HubDial | HubHttp request | HubMixnet nym_request
  | OperatorDial | OperatorRequest request
  | RelayDial | RelayRequest request

fun to_operator :: "effect \<Rightarrow> bool" where
  "to_operator OperatorDial = True"
| "to_operator (OperatorRequest _) = True"
| "to_operator _ = False"

section \<open>Stages of an exchange\<close>

datatype 'a stage = Done 'a | Fails string | Stalls

type_synonym 'a traced = "effect list \<times> 'a stage"

definition tdone :: "'a \<Rightarrow> 'a traced" where "tdone x = ([], Done x)"

definition teffect :: "effect \<Rightarrow> unit traced" where "teffect e = ([e], Done ())"

definition tstage :: "'a stage \<Rightarrow> 'a traced" where "tstage s = ([], s)"

definition tbind :: "'a traced \<Rightarrow> ('a \<Rightarrow> 'b traced) \<Rightarrow> 'b traced" where
  "tbind m f = (case snd m of
     Done x \<Rightarrow> (fst m @ fst (f x), snd (f x)) | Fails e \<Rightarrow> (fst m, Fails e) | Stalls \<Rightarrow> (fst m, Stalls))"

text \<open>A result inside an exchange, and \<open>tokio::time::timeout\<close> around one.\<close>

fun stage_of :: "(string, 'a) result \<Rightarrow> 'a stage" where
  "stage_of (Ok x) = Done x"
| "stage_of (Err e) = Fails e"

fun with_timeout :: "string \<Rightarrow> 'a stage \<Rightarrow> (string, 'a) result" where
  "with_timeout msg (Done x) = Ok x"
| "with_timeout msg (Fails e) = Err e"
| "with_timeout msg Stalls = Err msg"

section \<open>The HTTP client\<close>

definition TRANSACTION_PATH :: string where "TRANSACTION_PATH = ''/transaction''"
definition TX_HEIGHT_HEADER :: string where "TX_HEIGHT_HEADER = ''x-tx-height''"
definition MAX_HUB_RESPONSE_BYTES :: nat where "MAX_HUB_RESPONSE_BYTES = 4 * 1024 * 1024"

record hub_client =
  hc_addr :: string
  hc_tls :: bool
  hc_authority :: string

text \<open>\<open>HubClient::new\<close>: the authority is the TLS name when there is one.\<close>

definition hub_client_new :: "string \<Rightarrow> string option \<Rightarrow> hub_client" where
  "hub_client_new addr tls =
     \<lparr>hc_addr = addr, hc_tls = (tls \<noteq> None), hc_authority = (case tls of Some a \<Rightarrow> a | None \<Rightarrow> addr)\<rparr>"

text \<open>
  One connection: TCP, \<open>set_nodelay\<close>, TLS, the HTTP/1.1 handshake, the exchange, and the
  response body read up to a limit.
\<close>

record http_env =
  he_connect :: "unit stage"
  he_nodelay :: "unit stage"
  he_tls :: "unit stage"
  he_handshake :: "unit stage"
  he_exchange :: "request \<Rightarrow> (nat \<times> headers) stage"
  he_body :: "nat \<Rightarrow> bytes option stage"

definition hub_request :: "libs \<Rightarrow> hub_client \<Rightarrow> string \<Rightarrow> bytes \<Rightarrow> (string, request) result" where
  "hub_request L c path body =
     (case lib_hv L (hc_authority c) of
        None \<Rightarrow> Err ''failed to parse header value''
      | Some host \<Rightarrow> Ok
          \<lparr>http_method = ''POST'',
           req_uri = \<lparr>scheme = None, authority = None, path_and_query = Some path\<rparr>,
           req_headers = hdr_insert ''content-type'' ''application/octet-stream''
             (hdr_insert ''host'' host Map.empty),
           req_body = full_body body\<rparr>)"

text \<open>\<open>round_trip\<close>: a body over the limit, or one that breaks, is the same error.\<close>

definition round_trip :: "http_env \<Rightarrow> request \<Rightarrow> (nat \<times> headers \<times> bytes) traced" where
  "round_trip env req =
     tbind (tstage (he_handshake env)) (\<lambda>_.
     tbind (teffect (HubHttp req)) (\<lambda>_.
     tbind (tstage (he_exchange env req)) (\<lambda>(status, hs).
     tbind (tstage (he_body env MAX_HUB_RESPONSE_BYTES)) (\<lambda>body.
       case body of
         Some b \<Rightarrow> tdone (status, hs, b)
       | None \<Rightarrow> tstage (Fails ''hub response exceeded the size limit'')))))"

definition hub_attempt ::
    "libs \<Rightarrow> http_env \<Rightarrow> hub_client \<Rightarrow> string \<Rightarrow> bytes \<Rightarrow> (nat \<times> headers \<times> bytes) traced" where
  "hub_attempt L env c path body =
     tbind (teffect HubDial) (\<lambda>_.
     tbind (tstage (he_connect env)) (\<lambda>_.
     tbind (tstage (he_nodelay env)) (\<lambda>_.
     tbind (tstage (stage_of (hub_request L c path body))) (\<lambda>req.
     tbind (if hc_tls c then tstage (he_tls env) else tdone ()) (\<lambda>_.
       round_trip env req)))))"

section \<open>Submission and lookup over HTTP\<close>

datatype submit_verdict =
    SubmitAccepted string
  | SubmitAlreadyKnown "string option"
  | SubmitRejected string
  | SubmitTooLarge nat

datatype lookup_verdict = LookupFound bytes u64 | LookupNotFound

definition unwrap_or_default :: "string option \<Rightarrow> string" where
  "unwrap_or_default v = (case v of Some s \<Rightarrow> s | None \<Rightarrow> '''')"

definition submit_of_response :: "hub_response \<Rightarrow> submit_verdict" where
  "submit_of_response parsed =
     (if disposition parsed = ''accepted'' then SubmitAccepted (unwrap_or_default (hub_txid parsed))
      else if disposition parsed = ''already_known'' then SubmitAlreadyKnown (hub_txid parsed)
      else SubmitRejected (case hub_reason parsed of Some r \<Rightarrow> r | None \<Rightarrow> disposition parsed))"

definition http_submit ::
    "libs \<Rightarrow> http_env \<Rightarrow> nonce \<Rightarrow> hub_client \<Rightarrow> bytes \<Rightarrow> effect list \<times> (string, submit_verdict) result" where
  "http_submit L env nonce c tx =
     (case encode_submit nonce tx of
        Err _ \<Rightarrow> ([], Ok (SubmitTooLarge MAX_NYM_TX_BYTES))
      | Ok frame \<Rightarrow>
          (let (effects, out) = hub_attempt L env c ''/'' frame
           in (effects, case with_timeout ''hub submission timed out'' out of
                 Err e \<Rightarrow> Err e
               | Ok (status, hs, body) \<Rightarrow>
                   (if status = 413 then Ok (SubmitTooLarge FRAME_BYTES)
                    else result_bind (lib_json L body) (\<lambda>parsed. Ok (submit_of_response parsed))))))"

definition parse_u64 :: "string \<Rightarrow> u64 option" where
  "parse_u64 s = map_option word_of_nat (parse_unsigned (2 ^ 64) s)"

definition starts_with :: "string \<Rightarrow> string \<Rightarrow> bool" where
  "starts_with p s = (take (length p) s = p)"

definition lookup_of_response :: "libs \<Rightarrow> nat \<times> headers \<times> bytes \<Rightarrow> (string, lookup_verdict) result" where
  "lookup_of_response L resp =
     (case resp of (status, hs, body) \<Rightarrow>
        if status = 200 then
          (let octet_stream =
                 (case Option.bind (hdr_get hs ''content-type'') (lib_to_str L) of
                    Some v \<Rightarrow> starts_with ''application/octet-stream'' v | None \<Rightarrow> False);
               height = Option.bind (Option.bind (hdr_get hs TX_HEIGHT_HEADER) (lib_to_str L)) parse_u64
           in case height of
                Some h \<Rightarrow> (if octet_stream then Ok (LookupFound body h)
                           else Err ''hub lookup: 200 without the expected transaction shape'')
              | None \<Rightarrow> Err ''hub lookup: 200 without the expected transaction shape'')
        else if status = 404 then Ok LookupNotFound
        else Err (''hub lookup: unexpected status '' @ lib_status L status))"

definition http_get_transaction ::
    "libs \<Rightarrow> http_env \<Rightarrow> hub_client \<Rightarrow> bytes \<Rightarrow> effect list \<times> (string, lookup_verdict) result" where
  "http_get_transaction L env c wire_hash =
     (let (effects, out) = hub_attempt L env c TRANSACTION_PATH wire_hash
      in (effects, result_bind (with_timeout ''hub lookup timed out'' out) (lookup_of_response L)))"

section \<open>The two transports\<close>

datatype hub_transport = Http hub_client | Nym nym_handle

record hub_env =
  hub_nonce :: nonce
  hub_http :: http_env
  hub_mixnet :: "nat \<Rightarrow> lookup_reply attempt_env"

definition local_txid :: "libs \<Rightarrow> bytes \<Rightarrow> string" where
  "local_txid L tx_bytes =
     (case read_transaction (lib_crypto L) tx_bytes of
        Ok (tx, _) \<Rightarrow>
          (case tx_hash (lib_hashing L) (lib_crypto L) tx of
             Some h \<Rightarrow> display_hash (lib_hashing L) h | None \<Rightarrow> '''')
      | Err _ \<Rightarrow> '''')"

definition hub_submit :: "libs \<Rightarrow> hub_env \<Rightarrow> hub_transport \<Rightarrow> bytes \<Rightarrow> effect list \<times> (string, submit_verdict) result" where
  "hub_submit L env hub tx =
     (case hub of
        Http client \<Rightarrow> http_submit L (hub_http env) (hub_nonce env) client tx
      | Nym handle \<Rightarrow>
          (let (sent, t, r) = nym_submit handle (hub_mixnet env) tx
           in (map HubMixnet sent,
               case r of
                 Ok _ \<Rightarrow> Ok (SubmitAccepted (local_txid L tx))
               | Err (Encode (TxTooLarge n limit)) \<Rightarrow> Ok (SubmitTooLarge limit)
               | Err err \<Rightarrow> Err (display_nym_error err))))"

definition hub_get_transaction ::
    "libs \<Rightarrow> hub_env \<Rightarrow> hub_transport \<Rightarrow> bytes \<Rightarrow> effect list \<times> (string, lookup_verdict) result \<times> hub_transport" where
  "hub_get_transaction L env hub wire_hash =
     (case hub of
        Http client \<Rightarrow>
          (let (effects, r) = http_get_transaction L (hub_http env) client wire_hash in (effects, r, hub))
      | Nym handle \<Rightarrow>
          (let (sent, t, r, handle') = nym_get_transaction handle (hub_mixnet env) wire_hash
           in (map HubMixnet sent,
               case r of
                 Err err \<Rightarrow> Err (display_nym_error err)
               | Ok (Found height tx) \<Rightarrow> Ok (LookupFound tx height)
               | Ok NotFound \<Rightarrow> Ok LookupNotFound
               | Ok LookupError \<Rightarrow> Err ''hub could not answer the lookup'',
               Nym handle')))"

section \<open>What leaves the process\<close>

lemma tbind_effects: "fst (tbind m f) = fst m @ (case snd m of Done x \<Rightarrow> fst (f x) | _ \<Rightarrow> [])"
  by (simp add: tbind_def split: stage.split)

lemmas traced_simps = tbind_effects tdone_def teffect_def tstage_def

lemma round_trip_effects: "set (fst (round_trip env req)) \<subseteq> {HubHttp req}"
  by (auto simp: round_trip_def traced_simps split: stage.splits option.splits prod.splits)

lemma hub_attempt_effects:
  "e \<in> set (fst (hub_attempt L env c path body)) \<Longrightarrow>
     e = HubDial \<or> (\<exists>req. hub_request L c path body = Ok req \<and> e = HubHttp req)"
  using round_trip_effects
  by (cases "hub_request L c path body")
    (fastforce simp: hub_attempt_def traced_simps split: stage.splits if_splits)+

lemma hub_attempt_dials_once: "length (filter (\<lambda>e. e = HubDial) (fst (hub_attempt L env c path body))) = 1"
proof -
  have "filter (\<lambda>e. e = HubDial) (fst (round_trip env req)) = []" for req
    using round_trip_effects [of env req] by (auto simp: filter_empty_conv)
  then show ?thesis
    by (cases "hub_request L c path body") (simp_all add: hub_attempt_def traced_simps split: stage.split)
qed

lemma hub_request_Ok:
  "hub_request L c path body = Ok req \<Longrightarrow>
     http_method req = ''POST'' \<and> path_and_query (req_uri req) = Some path \<and> req_body req = full_body body
     \<and> (\<exists>h. lib_hv L (hc_authority c) = Some h \<and> hdr_get (req_headers req) ''host'' = Some h)"
  by (auto simp: hub_request_def split: option.splits)

lemma http_submit_effects:
  assumes "length nonce = NONCE_BYTES" "HubHttp rq \<in> set (fst (http_submit L env nonce c tx))"
  shows "http_method rq = ''POST'' \<and> path_and_query (req_uri rq) = Some ''/''
    \<and> (\<exists>frame. req_body rq = [DataFrame frame] \<and> length frame = FRAME_BYTES \<and> decode_submit frame = Ok (nonce, tx))"
proof (cases "encode_submit nonce tx")
  case (Inl e)
  with assms(2) show ?thesis by (simp add: http_submit_def)
next
  case (Inr frame)
  note f = submit.roundtrip [OF assms(1) Inr] submit.fixed_size [OF assms(1) Inr]
  have "HubHttp rq \<in> set (fst (hub_attempt L env c ''/'' frame))"
    using assms(2) Inr by (simp add: http_submit_def split: prod.splits)
  from hub_attempt_effects [OF this] have "hub_request L c ''/'' frame = Ok rq" by simp
  from hub_request_Ok [OF this] f show ?thesis by (auto simp: full_body_def)
qed

lemma http_submit_others:
  assumes "e \<in> set (fst (http_submit L env nonce c tx))"
  shows "e = HubDial \<or> (\<exists>rq. e = HubHttp rq)"
proof (cases "encode_submit nonce tx")
  case (Inr frame)
  with assms have "e \<in> set (fst (hub_attempt L env c ''/'' frame))"
    by (simp add: http_submit_def split: prod.splits)
  from hub_attempt_effects [OF this] show ?thesis by blast
qed (use assms in \<open>simp add: http_submit_def\<close>)

lemma nym_submit_carries:
  assumes "\<And>i. length (ae_nonce (env i)) = NONCE_BYTES" "nym_submit h env tx = (out, t, r)" "rq \<in> set out"
  shows "decode_submit (rq_frame rq) = Ok (rq_nonce rq, tx)"
proof -
  obtain out' t' err where run: "submit_loop env (nh_dispatch_timeout h) tx 0 0 (nh_targets h) = (out', t', err)"
    using prod_cases3 by blast
  have n: "0 < nh_targets h" "out = out'" using assms(2,3) run by (auto simp: nym_submit_def split: if_splits)
  show ?thesis
  proof (cases "length tx \<le> MAX_NYM_TX_BYTES")
    case True
    from submit_loop_spec [OF assms(1) True run] n assms(3) show ?thesis by (simp add: carries_def)
  next
    case False
    from submit_loop_too_large [OF False n(1), of env "nh_dispatch_timeout h" 0 0] run n assms(3) show ?thesis by simp
  qed
qed

lemma decode_submit_length: "decode_submit f = Ok p \<Longrightarrow> length f = FRAME_BYTES"
  by (simp add: decode_submit_def split: if_splits)

lemma hub_submit_effects:
  assumes "length (hub_nonce env) = NONCE_BYTES" "\<And>i. length (ae_nonce (hub_mixnet env i)) = NONCE_BYTES"
    and "e \<in> set (fst (hub_submit L env hub tx))"
  shows "e = HubDial
    \<or> (\<exists>rq frame. e = HubHttp rq \<and> http_method rq = ''POST'' \<and> path_and_query (req_uri rq) = Some ''/''
         \<and> req_body rq = [DataFrame frame] \<and> length frame = FRAME_BYTES
         \<and> decode_submit frame = Ok (hub_nonce env, tx))
    \<or> (\<exists>rq. e = HubMixnet rq \<and> length (rq_frame rq) = FRAME_BYTES
         \<and> decode_submit (rq_frame rq) = Ok (rq_nonce rq, tx))"
proof (cases hub)
  case (Http c)
  then have e: "e \<in> set (fst (http_submit L (hub_http env) (hub_nonce env) c tx))"
    using assms(3) by (simp add: hub_submit_def)
  from http_submit_others [OF e] show ?thesis
  proof (elim disjE exE)
    fix rq assume "e = HubHttp rq"
    with e http_submit_effects [OF assms(1)] show ?thesis by blast
  qed simp
next
  case (Nym h)
  obtain out t r where run: "nym_submit h (hub_mixnet env) tx = (out, t, r)" using prod_cases3 by blast
  with assms(3) Nym obtain rq where rq: "rq \<in> set out" "e = HubMixnet rq" by (auto simp: hub_submit_def)
  from nym_submit_carries [OF assms(2) run rq(1)] decode_submit_length rq(2) show ?thesis by blast
qed

lemma hub_submit_too_large:
  assumes "MAX_NYM_TX_BYTES < length tx" "case hub of Http _ \<Rightarrow> True | Nym h \<Rightarrow> 0 < nh_targets h"
  shows "hub_submit L env hub tx = ([], Ok (SubmitTooLarge MAX_NYM_TX_BYTES))"
proof (cases hub)
  case (Http c)
  with assms show ?thesis by (simp add: hub_submit_def http_submit_def encode_submit_def)
next
  case (Nym h)
  with assms submit_loop_too_large [of tx "nh_targets h" "hub_mixnet env" "nh_dispatch_timeout h" 0 0]
  show ?thesis by (simp add: hub_submit_def nym_submit_def)
qed

lemma hub_get_transaction_effects:
  "e \<in> set (fst (hub_get_transaction L env hub wire_hash)) \<Longrightarrow> \<not> to_operator e"
proof (cases hub)
  case (Http c)
  assume "e \<in> set (fst (hub_get_transaction L env hub wire_hash))"
  with Http have "e \<in> set (fst (hub_attempt L (hub_http env) c TRANSACTION_PATH wire_hash))"
    by (simp add: hub_get_transaction_def http_get_transaction_def split: prod.splits)
  from hub_attempt_effects [OF this] show ?thesis by auto
next
  case (Nym h)
  assume "e \<in> set (fst (hub_get_transaction L env hub wire_hash))"
  with Nym show ?thesis
    by (auto simp: hub_get_transaction_def split: prod.splits)
qed

section \<open>Properties\<close>

text \<open>
  C5. What the hub link puts on the network says nothing about the transaction but to the hub: over
  either transport every message of a submission is one frame of the fixed size, posted to the root or
  handed to the mixnet, and decodes to the call's nonce and exactly the transaction; a transaction
  that does not fit the frame causes no message at all and is answered with the frame's limit.
\<close>

theorem hub_submission_is_one_fixed_frame:
  assumes "length (hub_nonce env) = NONCE_BYTES" and "\<And>i. length (ae_nonce (hub_mixnet env i)) = NONCE_BYTES"
    and "case hub of Http _ \<Rightarrow> True | Nym h \<Rightarrow> 0 < nh_targets h"
  shows "(\<forall>e \<in> set (fst (hub_submit L env hub tx)). e = HubDial
      \<or> (\<exists>rq frame. e = HubHttp rq \<and> http_method rq = ''POST'' \<and> path_and_query (req_uri rq) = Some ''/''
           \<and> req_body rq = [DataFrame frame] \<and> length frame = FRAME_BYTES
           \<and> decode_submit frame = Ok (hub_nonce env, tx))
      \<or> (\<exists>rq. e = HubMixnet rq \<and> length (rq_frame rq) = FRAME_BYTES
           \<and> decode_submit (rq_frame rq) = Ok (rq_nonce rq, tx)))
    \<and> (MAX_NYM_TX_BYTES < length tx \<longrightarrow> hub_submit L env hub tx = ([], Ok (SubmitTooLarge MAX_NYM_TX_BYTES)))"
proof
  show "\<forall>e \<in> set (fst (hub_submit L env hub tx)). e = HubDial
      \<or> (\<exists>rq frame. e = HubHttp rq \<and> http_method rq = ''POST'' \<and> path_and_query (req_uri rq) = Some ''/''
           \<and> req_body rq = [DataFrame frame] \<and> length frame = FRAME_BYTES
           \<and> decode_submit frame = Ok (hub_nonce env, tx))
      \<or> (\<exists>rq. e = HubMixnet rq \<and> length (rq_frame rq) = FRAME_BYTES
           \<and> decode_submit (rq_frame rq) = Ok (rq_nonce rq, tx))"
    using hub_submit_effects [OF assms(1,2)] by blast
  show "MAX_NYM_TX_BYTES < length tx \<longrightarrow> hub_submit L env hub tx = ([], Ok (SubmitTooLarge MAX_NYM_TX_BYTES))"
    using hub_submit_too_large assms(3) by blast
qed

definition demo_libs :: libs where
  "demo_libs = \<lparr>lib_hv = Some, lib_to_str = Some, lib_lossy = id, lib_status = show_nat,
     lib_json = (\<lambda>b. Ok \<lparr>disposition = ''accepted'', hub_txid = None, hub_reason = None\<rparr>),
     decode_raw = (\<lambda>b. Ok \<lparr>raw_data = b, raw_height = 0\<rparr>), encode_raw = raw_data,
     decode_filter = (\<lambda>b. Ok \<lparr>filter_block = None, filter_hash = b\<rparr>),
     encode_response = (\<lambda>r. []), lib_crypto = demo_crypto,
     lib_hashing = \<lparr>sha256 = (\<lambda>b. replicate 32 0), lrz_txid = (\<lambda>b br. replicate 32 0),
       hex_encode = hex_string, hex_decode = (\<lambda>s. None)\<rparr>\<rparr>"

definition demo_hub_env :: hub_env where
  "demo_hub_env = \<lparr>hub_nonce = replicate 16 9,
     hub_http = \<lparr>he_connect = Done (), he_nodelay = Done (), he_tls = Done (), he_handshake = Done (),
       he_exchange = (\<lambda>rq. Done (200, Map.empty)), he_body = (\<lambda>n. Done (Some []))\<rparr>,
     hub_mixnet = (\<lambda>i. \<lparr>ae_nonce = replicate 16 9, ae_chan = i, ae_accept = AcceptedAfter 1, ae_reply = NeverReplies\<rparr>)\<rparr>"

lemma demo_nonces:
  "length (hub_nonce demo_hub_env) = NONCE_BYTES" "length (ae_nonce (hub_mixnet demo_hub_env i)) = NONCE_BYTES"
  by (simp_all add: demo_hub_env_def wire_consts)

theorem hub_submission_is_one_fixed_frame_witness:
  "hub_submit demo_libs demo_hub_env (Nym (nym_handle_new 9 5 2)) (replicate 65513 1)
     = ([], Ok (SubmitTooLarge MAX_NYM_TX_BYTES))"
  using hub_submission_is_one_fixed_frame
    [OF demo_nonces, of "Nym (nym_handle_new 9 5 2)" demo_libs "replicate 65513 1"]
  by (simp add: nym_handle_new_def wire_consts)

end
