(* ===== verification/Upstream.thy ===== *)
theory Upstream
  imports Hub
begin

text \<open>
  The connection to the backing indexer (\<open>UpstreamPool\<close>, \<open>pass_through\<close> in
  \<open>zeronym/shim/src/proxy.rs\<close>) and the admission of wallet connections
  (\<open>serve_with_shutdown\<close>). Instants are milliseconds; what the network does is an argument.
\<close>

section \<open>The pool\<close>

record upstream =
  up_conn :: nat
  up_authority :: string

record pool_state =
  live :: "upstream option"
  backoff_until :: "nat option"

definition pool_state_default :: pool_state where
  "pool_state_default = \<lparr>live = None, backoff_until = None\<rparr>"

definition DIAL_BACKOFF :: nat where "DIAL_BACKOFF = 100"
definition DIAL_TIMEOUT :: nat where "DIAL_TIMEOUT = 5000"

text \<open>
  \<open>Upstream::connect\<close>: TCP connect and \<open>set_nodelay\<close>, then TLS when configured, the
  HTTP/2 handshake, and the authority, which must parse: the TLS name when there is one.
\<close>

record backend =
  be_addr :: string
  be_tls_authority :: "string option"

record dial_env =
  de_now :: nat
  de_after :: nat
  de_closed :: "nat \<Rightarrow> bool"
  de_connect :: "unit stage"
  de_tls :: "unit stage"
  de_handshake :: "nat stage"
  de_parse_authority :: "string \<Rightarrow> string option"

definition backend_authority :: "backend \<Rightarrow> string" where
  "backend_authority b = (case be_tls_authority b of Some a \<Rightarrow> a | None \<Rightarrow> be_addr b)"

definition upstream_connect :: "dial_env \<Rightarrow> backend \<Rightarrow> upstream traced" where
  "upstream_connect env b =
     tbind (teffect OperatorDial) (\<lambda>_.
     tbind (tstage (de_connect env)) (\<lambda>_.
     tbind (if be_tls_authority b = None then tdone () else tstage (de_tls env)) (\<lambda>_.
     tbind (tstage (de_handshake env)) (\<lambda>conn.
       case de_parse_authority env (backend_authority b) of
         None \<Rightarrow> tstage (Fails ''invalid uri character'')
       | Some a \<Rightarrow> tdone \<lparr>up_conn = conn, up_authority = a\<rparr>))))"

definition pool_redial ::
    "dial_env \<Rightarrow> backend \<Rightarrow> pool_state \<Rightarrow> effect list \<times> (string, upstream) result \<times> pool_state" where
  "pool_redial env b st =
     (if (case backoff_until st of Some until \<Rightarrow> de_now env < until | None \<Rightarrow> False)
      then ([], Err ''backing indexer unreachable (dial backoff)'', st)
      else
        let (effects, out) = upstream_connect env b;
            dialled = with_timeout ''dialling the backing indexer timed out after 5s'' out
        in (effects, dialled,
            case dialled of
              Ok u \<Rightarrow> st\<lparr>backoff_until := None, live := Some u\<rparr>
            | Err _ \<Rightarrow> st\<lparr>backoff_until := Some (de_after env + DIAL_BACKOFF)\<rparr>))"

text \<open>\<open>UpstreamPool::get\<close>; its lock makes a call one step.\<close>

definition pool_get ::
    "dial_env \<Rightarrow> backend \<Rightarrow> pool_state \<Rightarrow> effect list \<times> (string, upstream) result \<times> pool_state" where
  "pool_get env b st =
     (case live st of
        Some u \<Rightarrow>
          (if \<not> de_closed env (up_conn u) then ([], Ok u, st\<lparr>live := Some u\<rparr>)
           else pool_redial env b (st\<lparr>live := None\<rparr>))
      | None \<Rightarrow> pool_redial env b st)"

section \<open>Forwarding\<close>

text \<open>
  A request whose body is not read: dial, forward, hand the response back. \<open>exchange\<close> is the
  indexer's answer.
\<close>

definition forward_traced ::
    "(request \<Rightarrow> exchange_result) \<Rightarrow> upstream \<Rightarrow> request \<Rightarrow> effect list \<times> (string, response) result" where
  "forward_traced exchange u req =
     ([OperatorRequest (forward_request (up_authority u) req)], forward exchange (up_authority u) req)"

definition pass_through ::
    "dial_env \<Rightarrow> (request \<Rightarrow> exchange_result) \<Rightarrow> backend \<Rightarrow> request \<Rightarrow> pool_state \<Rightarrow>
     effect list \<times> (string, response) result \<times> pool_state" where
  "pass_through env exchange b req st =
     (let (effects, got, st') = pool_get env b st
      in case got of
           Err e \<Rightarrow> (effects, Err e, st')
         | Ok u \<Rightarrow>
             (let (sent, r) = forward_traced exchange u req in (effects @ sent, r, st')))"

section \<open>Admission of wallet connections\<close>

definition MAX_INFLIGHT_CONNECTIONS :: nat where "MAX_INFLIGHT_CONNECTIONS = 256"
definition ACCEPT_BACKOFF :: nat where "ACCEPT_BACKOFF = 100"

datatype accept_error_kind = ConnectionAborted | ConnectionReset | Interrupted | OtherKind

definition is_transient_accept_error :: "accept_error_kind \<Rightarrow> bool" where
  "is_transient_accept_error k = (k \<in> {ConnectionAborted, ConnectionReset, Interrupted})"

definition is_fd_exhaustion :: "nat option \<Rightarrow> bool" where
  "is_fd_exhaustion errno = (errno \<in> {Some 23, Some 24})"

text \<open>
  The accept loop: connections being served, each holding a permit until its task ends; a time before
  which the loop sleeps; and how it ended. Shutdown wins over an accepted connection when both are
  ready, and a drain waits for the connections, up to a limit.
\<close>

datatype server_phase = Accepting | Draining | ServerDone "(string, unit) result"

record server =
  conns :: "nat list"
  refused :: nat
  sleep_until :: nat
  srv_phase :: server_phase

definition server_start :: server where
  "server_start = \<lparr>conns = [], refused = 0, sleep_until = 0, srv_phase = Accepting\<rparr>"

datatype server_event =
    ConnAccepted nat
  | AcceptFailed accept_error_kind "nat option" string
  | ConnFinished nat
  | ServerShutdown
  | DrainTimedOut

text \<open>One event at time \<open>now\<close>; nothing is accepted while the loop sleeps.\<close>

fun server_step :: "server \<Rightarrow> nat \<times> server_event \<Rightarrow> server" where
  "server_step s (now, ConnAccepted c) =
     (if srv_phase s \<noteq> Accepting \<or> now < sleep_until s then s
      else if length (conns s) < MAX_INFLIGHT_CONNECTIONS then s\<lparr>conns := conns s @ [c]\<rparr>
      else s\<lparr>refused := refused s + 1\<rparr>)"
| "server_step s (now, AcceptFailed kind errno msg) =
     (if srv_phase s \<noteq> Accepting \<or> now < sleep_until s then s
      else if is_transient_accept_error kind then s
      else if is_fd_exhaustion errno then s\<lparr>sleep_until := now + ACCEPT_BACKOFF\<rparr>
      else s\<lparr>srv_phase := ServerDone (Err msg)\<rparr>)"
| "server_step s (now, ConnFinished c) =
     (let s = s\<lparr>conns := remove1 c (conns s)\<rparr>
      in if srv_phase s = Draining \<and> conns s = [] then s\<lparr>srv_phase := ServerDone (Ok ())\<rparr> else s)"
| "server_step s (now, ServerShutdown) =
     (if srv_phase s \<noteq> Accepting \<or> now < sleep_until s then s
      else if conns s = [] then s\<lparr>srv_phase := ServerDone (Ok ())\<rparr> else s\<lparr>srv_phase := Draining\<rparr>)"
| "server_step s (now, DrainTimedOut) =
     (if srv_phase s = Draining then s\<lparr>srv_phase := ServerDone (Ok ())\<rparr> else s)"

section \<open>Facts about the pool\<close>

lemma upstream_connect_effects: "fst (upstream_connect env b) = [OperatorDial]"
  by (simp add: upstream_connect_def traced_simps split: stage.split option.split)

lemma pool_get_cases:
  obtains (reused) u where "live st = Some u" "\<not> de_closed env (up_conn u)" "pool_get env b st = ([], Ok u, st)"
  | (refused) until where "backoff_until st = Some until" "de_now env < until"
      "pool_get env b st = ([], Err ''backing indexer unreachable (dial backoff)'', st\<lparr>live := None\<rparr>)"
  | (dialled) u where "pool_get env b st = ([OperatorDial], Ok u, st\<lparr>backoff_until := None, live := Some u\<rparr>)"
  | (failed) e where
      "pool_get env b st = ([OperatorDial], Err e, st\<lparr>live := None, backoff_until := Some (de_after env + DIAL_BACKOFF)\<rparr>)"
proof (cases "\<exists>u. live st = Some u \<and> \<not> de_closed env (up_conn u)")
  case True
  then obtain u where u: "live st = Some u" "\<not> de_closed env (up_conn u)" by blast
  moreover from u have "pool_get env b st = ([], Ok u, st)" by (simp add: pool_get_def)
  ultimately show thesis by (rule reused)
next
  case False
  then have get: "pool_get env b st = pool_redial env b (st\<lparr>live := None\<rparr>)"
    by (cases st; cases "live st") (auto simp: pool_get_def)
  have out: "upstream_connect env b = ([OperatorDial], snd (upstream_connect env b))"
    by (metis prod.collapse upstream_connect_effects)
  show thesis
  proof (cases "\<exists>until. backoff_until st = Some until \<and> de_now env < until")
    case True
    then obtain until where "backoff_until st = Some until" "de_now env < until" by blast
    with refused get show thesis by (simp add: pool_redial_def)
  next
    case False
    then have no: "\<not> (case backoff_until st of Some until \<Rightarrow> de_now env < until | None \<Rightarrow> False)"
      by (simp split: option.split)
    show thesis
    proof (cases "with_timeout ''dialling the backing indexer timed out after 5s'' (snd (upstream_connect env b))")
      case (Inl e)
      have "pool_redial env b (st\<lparr>live := None\<rparr>) =
          ([OperatorDial], Err e, st\<lparr>live := None, backoff_until := Some (de_after env + DIAL_BACKOFF)\<rparr>)"
        using no by (subst pool_redial_def, subst out) (simp add: Inl)
      with failed get show thesis by simp
    next
      case (Inr u)
      have "pool_redial env b (st\<lparr>live := None\<rparr>) =
          ([OperatorDial], Ok u, st\<lparr>backoff_until := None, live := Some u\<rparr>)"
        using no by (subst pool_redial_def, subst out) (simp add: Inr)
      with dialled get show thesis by simp
    qed
  qed
qed

lemma pass_through_operator:
  "OperatorRequest rq \<in> set (fst (pass_through env exchange b req st)) \<Longrightarrow> \<exists>a. rq = forward_request a req"
  by (cases rule: pool_get_cases [of st env b]) (auto simp: pass_through_def forward_traced_def)

section \<open>Invariant of the accept loop\<close>

definition server_bounded :: "server \<Rightarrow> bool" where
  "server_bounded s \<longleftrightarrow> length (conns s) \<le> MAX_INFLIGHT_CONNECTIONS"

lemma server_bounded_step: "server_bounded s \<Longrightarrow> server_bounded (server_step s e)"
  by (cases "(s, e)" rule: server_step.cases)
    (auto simp: server_bounded_def Let_def length_remove1 intro: le_trans [OF diff_le_self])

interpretation admission: step_invariant server_step server_bounded
  by unfold_locales (rule server_bounded_step)

lemma no_accept_after_stop:
  "srv_phase s \<noteq> Accepting \<Longrightarrow> srv_phase (server_step s e) \<noteq> Accepting \<and> set (conns (server_step s e)) \<subseteq> set (conns s)"
  by (cases "(s, e)" rule: server_step.cases) (auto simp: Let_def dest: in_set_remove1 [THEN iffD1, rotated] notin_set_remove1 split: if_splits)

lemma no_accept_after_stop_run:
  "srv_phase s \<noteq> Accepting \<Longrightarrow>
     srv_phase (run server_step s es) \<noteq> Accepting \<and> set (conns (run server_step s es)) \<subseteq> set (conns s)"
proof (induction es arbitrary: s)
  case (Cons e es)
  from no_accept_after_stop [OF Cons.prems, of e] Cons.IH [of "server_step s e"] show ?case by auto
qed simp

section \<open>Properties\<close>

text \<open>
  The pool dials the indexer only when it must: one call dials at most once, not while its
  connection is open, and not before the backoff of the last failed dial is over; a failed dial drops
  the connection and starts the backoff from the moment it failed, a successful one clears it, and the
  next call that finds the connection open uses it.
\<close>

theorem pool_dials_only_when_it_must:
  assumes "pool_get env b st = (effects, r, st')"
  shows "effects \<in> {[], [OperatorDial]}
    \<and> (effects \<noteq> [] \<longrightarrow> (\<forall>u. live st = Some u \<longrightarrow> de_closed env (up_conn u))
         \<and> (\<forall>until. backoff_until st = Some until \<longrightarrow> until \<le> de_now env))
    \<and> (\<forall>u. r = Ok u \<longrightarrow> live st' = Some u
         \<and> (\<not> de_closed env' (up_conn u) \<longrightarrow> pool_get env' b st' = ([], Ok u, st')))
    \<and> (\<forall>e. r = Err e \<longrightarrow> live st' = None
         \<and> (effects \<noteq> [] \<longrightarrow> de_now env' < de_after env + DIAL_BACKOFF \<longrightarrow>
              (\<exists>e'. pool_get env' b st' = ([], Err e', st'))))"
proof -
  have open_conn: "pool_get env' b s = ([], Ok u, s)" if "live s = Some u" "\<not> de_closed env' (up_conn u)" for s u
    using that by (simp add: pool_get_def)
  have backing_off: "pool_get env' b s = ([], Err ''backing indexer unreachable (dial backoff)'', s)"
    if "live s = None" "backoff_until s = Some until" "de_now env' < until" for s until
    using that by (simp add: pool_get_def pool_redial_def)
  have must: "(\<forall>u. live st = Some u \<longrightarrow> de_closed env (up_conn u))
      \<and> (\<forall>until. backoff_until st = Some until \<longrightarrow> until \<le> de_now env)" if "effects \<noteq> []"
    using that assms
    by (cases "live st"; cases "backoff_until st")
      (auto simp: pool_get_def pool_redial_def not_less split: if_splits)
  from assms show ?thesis
    by (cases rule: pool_get_cases [of st env b]) (use must open_conn backing_off in auto)
qed

definition demo_dial :: dial_env where
  "demo_dial = \<lparr>de_now = 7, de_after = 9, de_closed = (\<lambda>c. False), de_connect = Fails ''refused'',
     de_tls = Done (), de_handshake = Done 1, de_parse_authority = Some\<rparr>"

theorem pool_dials_only_when_it_must_witness:
  "\<exists>e'. pool_get (demo_dial\<lparr>de_now := 50\<rparr>) \<lparr>be_addr = ''10.0.0.1:443'', be_tls_authority = None\<rparr>
     \<lparr>live = None, backoff_until = Some 109\<rparr> = ([], Err e', \<lparr>live = None, backoff_until = Some 109\<rparr>)"
proof -
  have "pool_get demo_dial \<lparr>be_addr = ''10.0.0.1:443'', be_tls_authority = None\<rparr> pool_state_default =
      ([OperatorDial], Err ''refused'', \<lparr>live = None, backoff_until = Some 109\<rparr>)"
    by (simp add: pool_get_def pool_redial_def pool_state_default_def upstream_connect_def demo_dial_def
        tbind_def tdone_def teffect_def tstage_def DIAL_BACKOFF_def)
  from pool_dials_only_when_it_must [OF this, of "demo_dial\<lparr>de_now := 50\<rparr>"] show ?thesis
    by (simp add: demo_dial_def DIAL_BACKOFF_def)
qed

text \<open>
  At most \<open>MAX_INFLIGHT_CONNECTIONS\<close> wallet connections are served at once, whatever arrives and
  whatever errors \<open>accept\<close> gives; and once the loop has stopped accepting it never starts again, so
  the connections being served only become fewer.
\<close>

theorem admission_is_bounded:
  "length (conns (run server_step server_start es)) \<le> MAX_INFLIGHT_CONNECTIONS
   \<and> (srv_phase (run server_step server_start es) \<noteq> Accepting \<longrightarrow>
        srv_phase (run server_step server_start (es @ fs)) \<noteq> Accepting
        \<and> set (conns (run server_step server_start (es @ fs))) \<subseteq> set (conns (run server_step server_start es)))"
  using admission.run_inv [of server_start es] no_accept_after_stop_run [of "run server_step server_start es" fs]
  by (simp add: run_append server_bounded_def server_start_def)

theorem admission_is_bounded_witness:
  "set (conns (run server_step server_start ([(0, ConnAccepted 1), (1, ServerShutdown)] @ [(2, ConnAccepted 2)]))) \<subseteq> {1}"
  using admission_is_bounded [of "[(0, ConnAccepted 1), (1, ServerShutdown)]" "[(2, ConnAccepted 2)]"]
  by (simp add: server_start_def MAX_INFLIGHT_CONNECTIONS_def)

end
