(* ===== verification/Intercept.thy ===== *)
theory Intercept
  imports Upstream Classify
begin

text \<open>
  The two intercepted methods (\<open>zeronym/shim/src/intercept.rs\<close>): inspection of a
  \<open>SendTransaction\<close> body, diversion to the hub, and the lookup of a \<open>GetTransaction\<close>.
  The trace of effects says what was contacted; the result is the answer to the wallet, or the error the
  proxy turns into one.
\<close>

section \<open>Reading a request body\<close>

definition MAX_SEND_TX_BYTES :: nat where "MAX_SEND_TX_BYTES = 4 * 1024 * 1024"
definition MAX_TX_FILTER_BYTES :: nat where "MAX_TX_FILTER_BYTES = 1024"

text \<open>
  \<open>Limited::new(body, n).collect()\<close> under the read deadline: the collected data and trailers, the
  limit exceeded, the client's stream broken, or the deadline passed.
\<close>

datatype body_read =
    Collected bytes "headers option" | OverLimit | BodyBroken string | ReadTimedOut

record shim_env =
  env_body :: "nat \<Rightarrow> body_read"
  env_dial :: dial_env
  env_exchange :: "request \<Rightarrow> exchange_result"
  env_hub :: hub_env

text \<open>What the wrapper of the \<open>http_body_util\<close> crate promises of a collected body.\<close>

fun frame_data :: "proxy_body \<Rightarrow> bytes" where
  "frame_data [] = []"
| "frame_data (DataFrame d # fs) = d @ frame_data fs"
| "frame_data (TrailersFrame _ # fs) = frame_data fs"

fun frame_trailers :: "proxy_body \<Rightarrow> headers option" where
  "frame_trailers [] = None"
| "frame_trailers (DataFrame _ # fs) = frame_trailers fs"
| "frame_trailers (TrailersFrame t # fs) = Some t"

definition collects :: "shim_env \<Rightarrow> request \<Rightarrow> bool" where
  "collects env req \<longleftrightarrow> (\<forall>n b t. env_body env n = Collected b t \<longrightarrow>
     b = frame_data (req_body req) \<and> t = frame_trailers (req_body req) \<and> length b \<le> n)"

section \<open>Inspection\<close>

datatype inspection =
    Classified evidence
  | Failsafe string "string option"

fun inspection_unrecognised :: "inspection \<Rightarrow> bool" where
  "inspection_unrecognised (Classified ev) = is_unrecognised_branch ev"
| "inspection_unrecognised (Failsafe _ _) = False"

fun inspection_migration :: "inspection \<Rightarrow> bool" where
  "inspection_migration (Classified ev) = treat_as_migration (ev_class ev)"
| "inspection_migration (Failsafe _ _) = True"

text \<open>\<open>frame.get(a..b)\<close>.\<close>

definition get_range :: "nat \<Rightarrow> nat \<Rightarrow> bytes \<Rightarrow> bytes option" where
  "get_range a b xs = (if a \<le> b \<and> b \<le> length xs then Some (slice a b xs) else None)"

text \<open>
  The prefix length plus a 32-bit length does not overflow a 64-bit \<open>usize\<close>, so
  \<open>checked_add\<close> is an addition.
\<close>

definition inspect :: "libs \<Rightarrow> headers \<Rightarrow> bytes \<Rightarrow> inspection \<times> bytes option" where
  "inspect L hs frame =
     (case (case hdr_get hs ''grpc-encoding'' of
              Some e \<Rightarrow> if e \<noteq> ''identity'' then Some e else None | None \<Rightarrow> None) of
        Some e \<Rightarrow> (Failsafe ''grpc-encoding is not identity'' (Some (lib_lossy L e)), None)
      | None \<Rightarrow>
          if length frame < GRPC_PREFIX_LEN
          then (Failsafe ''gRPC frame shorter than its 5-byte prefix'' None, None)
          else if frame ! 0 \<noteq> 0 then (Failsafe ''gRPC compression flag set'' None, None)
          else
            let declared = nat_of_be (slice 1 5 frame);
                detail = ''declared '' @ show_nat declared @ '' bytes, body carries ''
                         @ show_nat (length frame - GRPC_PREFIX_LEN)
            in case get_range GRPC_PREFIX_LEN (GRPC_PREFIX_LEN + declared) frame of
                 None \<Rightarrow> (Failsafe ''gRPC message truncated'' (Some detail), None)
               | Some message \<Rightarrow>
                   if length message \<noteq> length frame - GRPC_PREFIX_LEN
                   then (Failsafe ''trailing bytes after the unary gRPC message'' (Some detail), None)
                   else
                     (case decode_raw L message of
                        Ok raw \<Rightarrow>
                          (Classified (classify_with_evidence (lib_crypto L) (raw_data raw)), Some (raw_data raw))
                      | Err err \<Rightarrow> (Failsafe ''RawTransaction decode failed'' (Some err), None)))"

section \<open>Answers\<close>

definition grpc_send_response :: "libs \<Rightarrow> int \<Rightarrow> string \<Rightarrow> response" where
  "grpc_send_response L code msg =
     grpc_unary (encode_response L \<lparr>error_code = code, error_message = msg\<rparr>)"

definition get_transaction_response :: "libs \<Rightarrow> bytes \<Rightarrow> u64 \<Rightarrow> response" where
  "get_transaction_response L tx_bytes height =
     grpc_unary (encode_raw L \<lparr>raw_data = tx_bytes, raw_height = height\<rparr>)"

definition body_read_failed :: "libs \<Rightarrow> bool \<Rightarrow> response" where
  "body_read_failed L over_limit =
     (if over_limit
      then grpc_error (lib_hv L) GRPC_RESOURCE_EXHAUSTED
             ''zero-indexer-shim: SendTransaction body too large to classify''
      else grpc_error (lib_hv L) GRPC_CANCELLED
             ''zero-indexer-shim: SendTransaction body could not be read'')"

section \<open>Diversion\<close>

definition answer_submit :: "libs \<Rightarrow> (string, submit_verdict) result \<Rightarrow> response" where
  "answer_submit L r =
     (case r of
        Ok (SubmitTooLarge limit) \<Rightarrow>
          grpc_error (lib_hv L) GRPC_RESOURCE_EXHAUSTED
            (''zero-indexer-shim: transaction exceeds the '' @ show_nat limit @ ''-byte hub frame limit'')
      | Ok (SubmitAccepted i) \<Rightarrow> grpc_send_response L 0 i
      | Ok (SubmitAlreadyKnown i) \<Rightarrow> grpc_send_response L 0 (unwrap_or_default i)
      | Ok (SubmitRejected reason) \<Rightarrow> grpc_send_response L (- 1) reason
      | Err _ \<Rightarrow> grpc_error (lib_hv L) GRPC_UNAVAILABLE ''zero-indexer-shim: hub unreachable'')"

definition divert ::
    "libs \<Rightarrow> hub_env \<Rightarrow> hub_transport \<Rightarrow> bytes option \<Rightarrow> effect list \<times> response" where
  "divert L env hub tx_data =
     (case tx_data of
        None \<Rightarrow> ([], grpc_error (lib_hv L) GRPC_UNAVAILABLE
                   ''zero-indexer-shim: could not divert transaction'')
      | Some tx \<Rightarrow>
          if tx = [] then ([], grpc_error (lib_hv L) GRPC_INVALID_ARGUMENT
                             ''zero-indexer-shim: empty transaction'')
          else let (effects, r) = hub_submit L env hub tx in (effects, answer_submit L r))"

text \<open>
  \<open>send_transaction\<close>, with the hub's transport when one is configured.
\<close>

definition send_transaction ::
    "libs \<Rightarrow> shim_env \<Rightarrow> backend \<Rightarrow> request \<Rightarrow> hub_transport option \<Rightarrow> pool_state \<Rightarrow>
     effect list \<times> (string, response) result \<times> pool_state" where
  "send_transaction L env b req diversion st =
     (case env_body env MAX_SEND_TX_BYTES of
        OverLimit \<Rightarrow> ([], Ok (body_read_failed L True), st)
      | BodyBroken e \<Rightarrow> ([], Ok (body_read_failed L False), st)
      | ReadTimedOut \<Rightarrow>
          ([], Ok (grpc_error (lib_hv L) GRPC_DEADLINE_EXCEEDED
                 ''zero-indexer-shim: SendTransaction body read timed out''), st)
      | Collected frame trailers \<Rightarrow>
          (let (inspection, tx_data) = inspect L (req_headers req) frame;
               replayed = req\<lparr>req_body := replay_frames (replay_body_new frame trailers)\<rparr>
           in case (inspection_migration inspection, diversion) of
                (True, Some hub) \<Rightarrow>
                  (let (effects, resp) = divert L (env_hub env) hub tx_data in (effects, Ok resp, st))
              | _ \<Rightarrow> pass_through (env_dial env) (env_exchange env) b replayed st))"

section \<open>Lookup\<close>

definition decode_tx_filter :: "libs \<Rightarrow> headers \<Rightarrow> bytes \<Rightarrow> (string, tx_filter) result" where
  "decode_tx_filter L hs frame =
     (if (case hdr_get hs ''grpc-encoding'' of Some e \<Rightarrow> e \<noteq> ''identity'' | None \<Rightarrow> False)
      then Err ''GetTransaction: a compressed request is not supported''
      else if length frame < GRPC_PREFIX_LEN \<or> frame ! 0 \<noteq> 0
      then Err ''GetTransaction: request is not a single identity-coded frame''
      else if GRPC_PREFIX_LEN + nat_of_be (slice 1 5 frame) \<noteq> length frame
      then Err ''GetTransaction: request frame length does not match its body''
      else map_err (\<lambda>_. ''GetTransaction: could not decode TxFilter'')
             (decode_filter L (drop GRPC_PREFIX_LEN frame)))"

definition hex_prefix :: "bytes \<Rightarrow> nat \<Rightarrow> string" where
  "hex_prefix bs n = hex_string (take n bs)"

text \<open>
  Whether the returned bytes start with the queried transaction. A transaction that was read has a
  hash (\<open>read_transaction_has_hash\<close>), so the panic of \<open>hash\<close> is not reached.
\<close>

definition lookup_is_for_query :: "libs \<Rightarrow> bytes \<Rightarrow> bytes \<Rightarrow> bool" where
  "lookup_is_for_query L tx_bytes wire_hash =
     (case read_transaction (lib_crypto L) tx_bytes of
        Err _ \<Rightarrow> False
      | Ok (tx, _) \<Rightarrow>
          (case tx_hash (lib_hashing L) (lib_crypto L) tx of
             None \<Rightarrow> False
           | Some h \<Rightarrow>
               (let txid = display_hash (lib_hashing L) h;
                    direct = hex_prefix wire_hash (length wire_hash);
                    reversed = hex_prefix (rev wire_hash) (length (rev wire_hash))
                in eq_ignore_ascii_case txid direct \<or> eq_ignore_ascii_case txid reversed)))"

definition not_found_message :: "bytes \<Rightarrow> string" where
  "not_found_message wire_hash =
     ''zero-indexer-shim: GetTransaction: getrawtransaction '' @ hex_prefix (rev wire_hash) (length (rev wire_hash))
     @ '' failed: -5: No such mempool or main chain transaction''"

definition answer_lookup :: "libs \<Rightarrow> bytes \<Rightarrow> (string, lookup_verdict) result \<Rightarrow> response" where
  "answer_lookup L wire_hash r =
     (case r of
        Ok (LookupFound data height) \<Rightarrow>
          if lookup_is_for_query L data wire_hash then get_transaction_response L data height
          else grpc_error (lib_hv L) GRPC_NOT_FOUND (not_found_message wire_hash)
      | Ok LookupNotFound \<Rightarrow> grpc_error (lib_hv L) GRPC_NOT_FOUND (not_found_message wire_hash)
      | Err _ \<Rightarrow> grpc_error (lib_hv L) GRPC_UNAVAILABLE ''zero-indexer-shim: hub unreachable'')"

text \<open>The local checks of a filter: the complaint, if there is one.\<close>

definition filter_complaint :: "tx_filter \<Rightarrow> string option" where
  "filter_complaint f =
     (if filter_hash f = [] then
        Some (''zero-indexer-shim: '' @
          (if filter_block f \<noteq> None then ''GetTransaction: specify a txid, not a blockhash+num''
           else ''GetTransaction: specify a txid''))
      else if length (filter_hash f) \<noteq> 32 then
        Some (''zero-indexer-shim: GetTransaction: transaction ID has invalid length: ''
          @ show_nat (length (filter_hash f)))
      else None)"

definition get_transaction ::
    "libs \<Rightarrow> shim_env \<Rightarrow> backend \<Rightarrow> request \<Rightarrow> hub_transport option \<Rightarrow> pool_state \<Rightarrow>
     effect list \<times> (string, response) result \<times> pool_state \<times> hub_transport option" where
  "get_transaction L env b req diversion st =
     (case diversion of
        None \<Rightarrow>
          (let (effects, r, st') = pass_through (env_dial env) (env_exchange env) b req st
           in (effects, r, st', None))
      | Some hub \<Rightarrow>
          let refuse = (\<lambda>code msg. ([], Ok (grpc_error (lib_hv L) code msg), st, diversion))
          in case env_body env MAX_TX_FILTER_BYTES of
               OverLimit \<Rightarrow> refuse GRPC_CANCELLED ''zero-indexer-shim: GetTransaction body could not be read''
             | BodyBroken _ \<Rightarrow> refuse GRPC_CANCELLED ''zero-indexer-shim: GetTransaction body could not be read''
             | ReadTimedOut \<Rightarrow> refuse GRPC_DEADLINE_EXCEEDED ''zero-indexer-shim: GetTransaction body read timed out''
             | Collected frame _ \<Rightarrow>
                 (case decode_tx_filter L (req_headers req) frame of
                    Err reason \<Rightarrow> refuse GRPC_INVALID_ARGUMENT (''zero-indexer-shim: '' @ reason)
                  | Ok f \<Rightarrow>
                      (case filter_complaint f of
                         Some msg \<Rightarrow> refuse GRPC_INVALID_ARGUMENT msg
                       | None \<Rightarrow>
                           (let (effects, r, hub') = hub_get_transaction L (env_hub env) hub (filter_hash f)
                            in (effects, Ok (answer_lookup L (filter_hash f) r), st, Some hub')))))"

section \<open>What an inspected body is\<close>

text \<open>One unary message in its frame.\<close>

definition unary_frame :: "bytes \<Rightarrow> bytes" where
  "unary_frame m = [0] @ be_of_nat 4 (length m) @ m"

definition identity_coded :: "headers \<Rightarrow> bool" where
  "identity_coded hs \<longleftrightarrow> (\<forall>e. hdr_get hs ''grpc-encoding'' = Some e \<longrightarrow> e = ''identity'')"

lemma frame_split:
  assumes "5 \<le> length frame" "frame ! 0 = 0"
  shows "frame = [0] @ be_of_nat 4 (nat_of_be (slice 1 5 frame)) @ drop 5 frame"
proof -
  obtain r where r: "frame = 0 # r" using assms by (cases frame) auto
  then have s: "slice 1 5 frame = take 4 r" "drop 5 frame = drop 4 r" "length (take 4 r) = 4"
    using assms(1) by (simp_all add: slice_def)
  have "be_of_nat 4 (nat_of_be (take 4 r)) = take 4 r"
    using be_of_nat_of_be [of "take 4 r"] s(3) by simp
  then show ?thesis unfolding s using r by simp
qed

lemma unary_frame_parts:
  assumes "length m < 2 ^ 32"
  shows "length (unary_frame m) = 5 + length m" "unary_frame m ! 0 = 0"
    "nat_of_be (slice 1 5 (unary_frame m)) = length m" "slice 5 (5 + length m) (unary_frame m) = m"
    "drop 5 (unary_frame m) = m"
  using assms by (simp_all add: unary_frame_def slice_def nat_of_be_of_nat)

lemma inspect_Classified:
  "inspect L hs frame = (Classified ev, td) \<longleftrightarrow>
     identity_coded hs \<and> (\<exists>m raw. frame = unary_frame m \<and> length m < 2 ^ 32 \<and> decode_raw L m = Ok raw
       \<and> td = Some (raw_data raw) \<and> ev = classify_with_evidence (lib_crypto L) (raw_data raw))"
  (is "?lhs \<longleftrightarrow> ?rhs")
proof
  assume l: ?lhs
  have id: "identity_coded hs"
    using l by (auto simp: inspect_def identity_coded_def split: option.splits if_splits)
  then have enc: "(case hdr_get hs ''grpc-encoding'' of
              Some e \<Rightarrow> if e \<noteq> ''identity'' then Some e else None | None \<Rightarrow> None) = None"
    by (auto simp: identity_coded_def split: option.split)
  let ?n = "nat_of_be (slice 1 5 frame)"
  have len: "5 \<le> length frame" "frame ! 0 = 0"
    using l by (auto simp: inspect_def enc GRPC_PREFIX_LEN_def split: if_splits)
  obtain m raw where m: "get_range 5 (5 + ?n) frame = Some m" "length m = length frame - 5"
      "decode_raw L m = Ok raw" "td = Some (raw_data raw)"
      "ev = classify_with_evidence (lib_crypto L) (raw_data raw)"
    using l len by (auto simp: inspect_def enc GRPC_PREFIX_LEN_def Let_def split: option.splits sum.splits if_splits)
  then have md: "m = drop 5 frame" "?n = length m"
    using len(1) by (auto simp: get_range_def slice_def split: if_splits)
  have "?n < 2 ^ 32" using nat_of_be_bound [of "slice 1 5 frame"] len(1) by (simp add: slice_def)
  moreover have "frame = unary_frame m"
    using frame_split [OF len] by (simp only: unary_frame_def md(2) [symmetric]) (simp add: md(1) [symmetric])
  ultimately show ?rhs using id m md(2) by auto
next
  assume r: ?rhs
  then obtain m raw where m: "frame = unary_frame m" "length m < 2 ^ 32" "decode_raw L m = Ok raw"
      "td = Some (raw_data raw)" "ev = classify_with_evidence (lib_crypto L) (raw_data raw)" by blast
  have enc: "(case hdr_get hs ''grpc-encoding'' of
              Some e \<Rightarrow> if e \<noteq> ''identity'' then Some e else None | None \<Rightarrow> None) = None"
    using r by (auto simp: identity_coded_def split: option.split)
  note parts = unary_frame_parts [OF m(2)]
  have "get_range 5 (5 + length m) frame = Some m" "\<not> length frame < 5" "frame ! 0 = 0"
      "nat_of_be (slice 1 5 frame) = length m" "length m = length frame - 5"
    using parts m(1) by (simp_all add: get_range_def)
  then show ?lhs
    using m(3-5) unfolding inspect_def enc GRPC_PREFIX_LEN_def Let_def by simp
qed

lemma inspect_cases:
  obtains (classified) m raw where "identity_coded hs" "frame = unary_frame m" "length m < 2 ^ 32"
      "decode_raw L m = Ok raw"
      "inspect L hs frame = (Classified (classify_with_evidence (lib_crypto L) (raw_data raw)), Some (raw_data raw))"
  | (failsafe) reason detail where "inspect L hs frame = (Failsafe reason detail, None)"
proof (cases "fst (inspect L hs frame)")
  case (Classified ev)
  obtain td where "inspect L hs frame = (Classified ev, td)" using Classified by (metis prod.collapse)
  with classified show thesis by (auto simp: inspect_Classified)
next
  case (Failsafe reason detail)
  moreover have "snd (inspect L hs frame) = None"
    using Failsafe by (auto simp: inspect_def Let_def split: option.splits if_splits sum.splits)
  ultimately show thesis using failsafe by (metis prod.collapse)
qed

text \<open>A body that reaches the operator: one identity-coded unary message, of a passing transaction.\<close>

definition passes :: "libs \<Rightarrow> headers \<Rightarrow> bytes \<Rightarrow> bool" where
  "passes L hs frame \<longleftrightarrow> identity_coded hs \<and> (\<exists>m raw. frame = unary_frame m \<and> length m < 2 ^ 32
     \<and> decode_raw L m = Ok raw \<and> classify (lib_crypto L) (raw_data raw) = PassThrough)"

lemma inspection_migration_iff: "inspection_migration (fst (inspect L hs frame)) \<longleftrightarrow> \<not> passes L hs frame"
proof (cases rule: inspect_cases [of hs frame L])
  case (classified m raw)
  have "passes L hs frame \<longleftrightarrow> classify (lib_crypto L) (raw_data raw) = PassThrough"
  proof
    assume "passes L hs frame"
    then obtain m' raw' where "frame = unary_frame m'" "length m' < 2 ^ 32" "decode_raw L m' = Ok raw'"
        "classify (lib_crypto L) (raw_data raw') = PassThrough" by (auto simp: passes_def)
    with classified unary_frame_parts(5) [of m] unary_frame_parts(5) [of m']
    show "classify (lib_crypto L) (raw_data raw) = PassThrough" by auto
  qed (use classified in \<open>auto simp: passes_def\<close>)
  with classified(5) show ?thesis
    by (cases "classify (lib_crypto L) (raw_data raw)") (simp_all add: classify_def)
next
  case failsafe
  have "\<not> passes L hs frame"
  proof
    assume p: "passes L hs frame"
    then obtain m raw where "identity_coded hs" "frame = unary_frame m" "length m < 2 ^ 32" "decode_raw L m = Ok raw"
      by (auto simp: passes_def)
    then have "inspect L hs frame =
        (Classified (classify_with_evidence (lib_crypto L) (raw_data raw)), Some (raw_data raw))"
      by (intro inspect_Classified [THEN iffD2]) blast
    with failsafe show False by simp
  qed
  with failsafe show ?thesis by simp
qed

section \<open>Where a submission goes\<close>

lemma send_transaction_passed:
  assumes "env_body env MAX_SEND_TX_BYTES = Collected frame tr"
    and "diversion = None \<or> passes L (req_headers req) frame"
  shows "send_transaction L env b req diversion st = pass_through (env_dial env) (env_exchange env) b
     (req\<lparr>req_body := replay_frames (replay_body_new frame tr)\<rparr>) st"
  using assms inspection_migration_iff [of L "req_headers req" frame]
  by (cases "inspect L (req_headers req) frame"; cases diversion)
    (auto simp: send_transaction_def split: bool.split)

lemma send_transaction_diverted:
  assumes "env_body env MAX_SEND_TX_BYTES = Collected frame tr" "\<not> passes L (req_headers req) frame"
  shows "send_transaction L env b req (Some hub) st =
     (let (effects, resp) = divert L (env_hub env) hub (snd (inspect L (req_headers req) frame))
      in (effects, Ok resp, st))"
  using assms inspection_migration_iff [of L "req_headers req" frame]
  by (cases "inspect L (req_headers req) frame") (simp add: send_transaction_def)

lemma hub_submit_not_operator: "e \<in> set (fst (hub_submit L env hub tx)) \<Longrightarrow> \<not> to_operator e"
proof (cases hub)
  case (Http c)
  assume "e \<in> set (fst (hub_submit L env hub tx))"
  with Http have "e \<in> set (fst (http_submit L (hub_http env) (hub_nonce env) c tx))"
    by (simp add: hub_submit_def)
  from http_submit_others [OF this] show ?thesis by auto
next
  case (Nym h)
  assume "e \<in> set (fst (hub_submit L env hub tx))"
  with Nym show ?thesis by (auto simp: hub_submit_def split: prod.splits)
qed

lemma divert_not_operator: "e \<in> set (fst (divert L env hub td)) \<Longrightarrow> \<not> to_operator e"
  using hub_submit_not_operator [of e L env hub "the td"]
  by (auto simp: divert_def split: option.splits prod.splits if_splits)

lemma send_transaction_unread:
  assumes "\<And>frame tr. env_body env MAX_SEND_TX_BYTES \<noteq> Collected frame tr"
  obtains code msg where "send_transaction L env b req diversion st = ([], Ok (grpc_error (lib_hv L) code msg), st)"
  using assms that
  by (cases "env_body env MAX_SEND_TX_BYTES") (auto simp: send_transaction_def body_read_failed_def)

lemma send_transaction_operator:
  assumes "e \<in> set (fst (send_transaction L env b req (Some hub) st))" "to_operator e"
  obtains frame tr where "env_body env MAX_SEND_TX_BYTES = Collected frame tr" "passes L (req_headers req) frame"
proof (cases "\<exists>frame tr. env_body env MAX_SEND_TX_BYTES = Collected frame tr")
  case True
  then obtain frame tr where c: "env_body env MAX_SEND_TX_BYTES = Collected frame tr" by blast
  have "passes L (req_headers req) frame"
  proof (rule ccontr)
    assume "\<not> ?thesis"
    from send_transaction_diverted [OF c this] assms divert_not_operator show False
      by (auto split: prod.splits) (metis fst_conv)
  qed
  with c that show thesis by blast
next
  case False
  then obtain code msg where "send_transaction L env b req (Some hub) st = ([], Ok (grpc_error (lib_hv L) code msg), st)"
    using send_transaction_unread by blast
  with assms(1) show thesis by simp
qed

lemma passes_transaction:
  assumes "push_num_bip34 (lib_crypto L)"
  shows "passes L hs frame \<longleftrightarrow> identity_coded hs \<and> (\<exists>m raw tx. frame = unary_frame m \<and> length m < 2 ^ 32
     \<and> decode_raw L m = Ok raw \<and> read_transaction (lib_crypto L) (raw_data raw) = Ok (tx, [])
     \<and> orchard_actions tx = [])"
proof -
  have "classify (lib_crypto L) x = PassThrough \<longleftrightarrow>
      (\<exists>tx. read_transaction (lib_crypto L) x = Ok (tx, []) \<and> orchard_actions tx = [])" for x
    using classify_passes_iff [OF assms] by blast
  then show ?thesis by (auto simp: passes_def)
qed

section \<open>What an answer claims\<close>

text \<open>A unary answer carries its status in its trailers, an error in its headers.\<close>

definition is_unary_answer :: "response \<Rightarrow> bool" where
  "is_unary_answer r \<longleftrightarrow> hdr_get (resp_headers r) ''grpc-status'' = None"

lemma grpc_error_not_unary [simp]: "\<not> is_unary_answer (grpc_error hv code msg)"
  by (simp add: is_unary_answer_def grpc_error_def Let_def split: option.split)

lemma unary_answers [simp]: "is_unary_answer (grpc_send_response L code msg)"
  "is_unary_answer (get_transaction_response L data height)"
  by (simp_all add: is_unary_answer_def grpc_send_response_def get_transaction_response_def grpc_unary_def Let_def)

lemma answer_status [simp]: "resp_status (grpc_error hv code msg) = 200"
  "resp_status (grpc_send_response L c msg) = 200" "resp_status (get_transaction_response L data height) = 200"
  by (simp_all add: grpc_error_def grpc_send_response_def get_transaction_response_def grpc_unary_def Let_def)

text \<open>What the wallet is told of a verdict, if it is one: the error code and the message.\<close>

fun verdict_answer :: "submit_verdict \<Rightarrow> (int \<times> string) option" where
  "verdict_answer (SubmitAccepted i) = Some (0, i)"
| "verdict_answer (SubmitAlreadyKnown i) = Some (0, unwrap_or_default i)"
| "verdict_answer (SubmitRejected reason) = Some (- 1, reason)"
| "verdict_answer (SubmitTooLarge _) = None"

lemma answer_submit_unary:
  "is_unary_answer (answer_submit L r) \<longleftrightarrow> (\<exists>v code msg. r = Ok v \<and> verdict_answer v = Some (code, msg))"
  "r = Ok v \<Longrightarrow> verdict_answer v = Some (code, msg) \<Longrightarrow> answer_submit L r = grpc_send_response L code msg"
  "resp_status (answer_submit L r) = 200"
  by (cases v; auto simp: answer_submit_def split: sum.split submit_verdict.split)+

text \<open>
  Where the verdict of a submission comes from. Over HTTP it is what the hub answered to the request
  that was sent; over the mixnet no hub answers, and the only verdict is the one the shim gives itself
  when it has handed over a frame.
\<close>

definition hub_answer :: "hub_response \<Rightarrow> int \<times> string" where
  "hub_answer p =
     (if disposition p \<in> {''accepted'', ''already_known''} then (0, unwrap_or_default (hub_txid p))
      else (- 1, case hub_reason p of Some reason \<Rightarrow> reason | None \<Rightarrow> disposition p))"

lemma tbind_Done: "snd (tbind m f) = Done y \<longleftrightarrow> (\<exists>x. snd m = Done x \<and> snd (f x) = Done y)"
  by (simp add: tbind_def split: stage.split)

lemma round_trip_Done:
  assumes "snd (round_trip env req) = Done (status, hs, body)"
  shows "HubHttp req \<in> set (fst (round_trip env req)) \<and> he_exchange env req = Done (status, hs)
    \<and> he_body env MAX_HUB_RESPONSE_BYTES = Done (Some body)"
  using assms
  by (auto simp: round_trip_def tbind_Done traced_simps split: option.splits prod.splits)

lemma hub_attempt_Done:
  assumes "snd (hub_attempt L env c path body) = Done (status, hs, b)"
  shows "\<exists>rq. hub_request L c path body = Ok rq \<and> HubHttp rq \<in> set (fst (hub_attempt L env c path body))
    \<and> he_exchange env rq = Done (status, hs) \<and> he_body env MAX_HUB_RESPONSE_BYTES = Done (Some b)"
proof (cases "hub_request L c path body")
  case (Inr rq)
  with assms have "snd (round_trip env rq) = Done (status, hs, b)"
    by (auto simp: hub_attempt_def tbind_Done tstage_def teffect_def)
  from round_trip_Done [OF this] assms Inr show ?thesis
    by (auto simp: hub_attempt_def tbind_Done traced_simps split: if_splits)
qed (use assms in \<open>auto simp: hub_attempt_def tbind_Done tstage_def\<close>)

lemma http_submit_verdict:
  assumes "http_submit L env nonce c tx = (effects, Ok v)" "verdict_answer v = Some a"
  shows "\<exists>rq status hs body p. HubHttp rq \<in> set effects \<and> he_exchange env rq = Done (status, hs)
    \<and> he_body env MAX_HUB_RESPONSE_BYTES = Done (Some body) \<and> status \<noteq> 413 \<and> lib_json L body = Ok p \<and> a = hub_answer p"
proof (cases "encode_submit nonce tx")
  case (Inr frame)
  obtain out where run: "hub_attempt L env c ''/'' frame = (effects, out)"
      "(case with_timeout ''hub submission timed out'' out of Err e \<Rightarrow> Err e
        | Ok (status, hs, body) \<Rightarrow> (if status = 413 then Ok (SubmitTooLarge FRAME_BYTES)
            else result_bind (lib_json L body) (\<lambda>parsed. Ok (submit_of_response parsed)))) = Ok v"
    using assms(1) Inr by (auto simp: http_submit_def split: prod.splits)
  then obtain status hs body p where got: "out = Done (status, hs, body)" "status \<noteq> 413" "lib_json L body = Ok p"
      "v = submit_of_response p"
    using assms(2) by (cases out) (auto simp: result_bind_Ok_iff split: if_splits sum.splits)
  from got(1) run(1) have "snd (hub_attempt L env c ''/'' frame) = Done (status, hs, body)" by simp
  from hub_attempt_Done [OF this] run(1) got assms(2) show ?thesis
    by (auto simp: submit_of_response_def hub_answer_def unwrap_or_default_def split: if_splits)
qed (use assms in \<open>auto simp: http_submit_def\<close>)

lemma nym_submit_verdict:
  assumes "hub_submit L env (Nym h) tx = (effects, Ok v)" "verdict_answer v = Some a"
  shows "a = (0, local_txid L tx) \<and> effects \<noteq> [] \<and> (\<forall>e \<in> set effects. \<exists>rq. e = HubMixnet rq)"
proof -
  obtain sent t r where run: "nym_submit h (hub_mixnet env) tx = (sent, t, r)" using prod_cases3 by blast
  with assms have "r = Ok ()" "effects = map HubMixnet sent" "v = SubmitAccepted (local_txid L tx)"
    by (auto simp: hub_submit_def split: sum.splits nym_error.splits wire_error.splits)
  with run assms(2) show ?thesis
    by (auto simp: nym_submit_def split: if_splits prod.splits option.splits)
qed

lemma hub_submit_verdict:
  assumes "hub_submit L env hub tx = (effects, Ok v)" "verdict_answer v = Some (code, msg)"
  shows "case hub of
      Http c \<Rightarrow> \<exists>rq status hs body p. HubHttp rq \<in> set effects \<and> he_exchange (hub_http env) rq = Done (status, hs)
        \<and> he_body (hub_http env) MAX_HUB_RESPONSE_BYTES = Done (Some body)
        \<and> status \<noteq> 413 \<and> lib_json L body = Ok p \<and> (code, msg) = hub_answer p
    | Nym h \<Rightarrow> code = 0 \<and> msg = local_txid L tx \<and> effects \<noteq> [] \<and> (\<forall>e \<in> set effects. \<exists>rq. e = HubMixnet rq)"
proof (cases hub)
  case (Http c)
  with assms(1) have "http_submit L (hub_http env) (hub_nonce env) c tx = (effects, Ok v)" by (simp add: hub_submit_def)
  from http_submit_verdict [OF this assms(2)] Http show ?thesis by simp
next
  case (Nym h)
  with nym_submit_verdict [of L env h tx effects v] assms show ?thesis by simp
qed

lemma hex_digit_lower: "n < 16 \<Longrightarrow> ascii_lower (hex_digit n) = hex_digit n"
  by (auto simp: hex_digit_def ascii_lower_def Let_def)

lemma hex_string_lower: "map ascii_lower (hex_string b) = hex_string b"
proof -
  have small: "unat x < 256" for x :: byte using unsigned_less [of x] by simp
  have "unat x div 16 < 16" "unat x mod 16 < 16" for x :: byte using small [of x] by simp_all
  then have "map ascii_lower (hex_byte x) = hex_byte x" for x
    by (simp add: hex_byte_def hex_digit_lower)
  then show ?thesis by (induction b) (simp_all add: hex_string_def)
qed

lemma hex_string_eq: "eq_ignore_ascii_case (hex_string a) (hex_string b) \<longleftrightarrow> a = b"
  by (auto simp: eq_ignore_ascii_case_def hex_string_lower dest: hex_string_inj)

lemma lookup_is_for_query_iff:
  assumes "push_num_bip34 (lib_crypto L)" "hashing_ok (lib_hashing L)"
  shows "lookup_is_for_query L data query \<longleftrightarrow>
     (\<exists>tx rest h. read_transaction (lib_crypto L) data = Ok (tx, rest)
        \<and> tx_hash (lib_hashing L) (lib_crypto L) tx = Some h \<and> h \<in> {query, rev query})"
proof (cases "read_transaction (lib_crypto L) data")
  case (Inr r)
  obtain tx rest where r: "read_transaction (lib_crypto L) data = Ok (tx, rest)" using Inr by (cases r) simp
  obtain h where h: "tx_hash (lib_hashing L) (lib_crypto L) tx = Some h"
    using read_transaction_has_hash [OF assms r] by blast
  have "rev h = query \<longleftrightarrow> h = rev query" "rev h = rev query \<longleftrightarrow> h = query" by auto
  with r h assms(2) show ?thesis
    by (auto simp: lookup_is_for_query_def hex_prefix_def display_hash_def bytes_in_display_order_def
        hashing_ok_def hex_string_eq)
qed (simp add: lookup_is_for_query_def)

lemma get_transaction_effects:
  assumes "get_transaction L env b req (Some hub) st = (effects, r, st', hub')"
  shows "st' = st \<and> (\<forall>e \<in> set effects. \<not> to_operator e)"
proof -
  have "\<not> to_operator e" if "e \<in> set effects" for e
    using assms that hub_get_transaction_effects [of e L "env_hub env" hub]
    by (auto simp: get_transaction_def Let_def split: body_read.splits sum.splits option.splits prod.splits)
      (metis fst_conv)
  with assms show ?thesis
    by (auto simp: get_transaction_def Let_def split: body_read.splits sum.splits option.splits prod.splits)
qed

section \<open>Properties\<close>

text \<open>
  C3. A diverted submission fails closed. The wallet always gets an answer, HTTP 200, and the
  operator's connection is untouched. A \<open>SendResponse\<close> is given only when the body was one
  identity-coded message with a transaction in it and that transaction was what was submitted. On the
  HTTP transport it is the verdict the hub itself gave in its response, success exactly when the hub
  says it accepted or already knew the transaction. On the mixnet there is no verdict of a hub: the
  answer is always success, with the id computed locally, and says that the transport has taken the
  frame for at least one hub address, nothing about its arrival. Everything else is a gRPC error: a body
  that could not be read or decoded, an empty transaction, one too large, a hub that did not answer, a
  transport that took no frame.
\<close>

theorem diverted_submission_fails_closed:
  assumes "\<forall>frame tr. env_body env MAX_SEND_TX_BYTES = Collected frame tr \<longrightarrow> \<not> passes L (req_headers req) frame"
    and "send_transaction L env b req (Some hub) st = (effects, r, st')"
  shows "st' = st \<and> (\<forall>e \<in> set effects. \<not> to_operator e)
    \<and> (\<exists>resp. r = Ok resp \<and> resp_status resp = 200
         \<and> (\<not> is_unary_answer resp \<longrightarrow> (\<exists>code msg. resp = grpc_error (lib_hv L) code msg))
         \<and> (is_unary_answer resp \<longrightarrow>
              (\<exists>m tr raw v code msg. identity_coded (req_headers req)
                 \<and> env_body env MAX_SEND_TX_BYTES = Collected (unary_frame m) tr
                 \<and> decode_raw L m = Ok raw \<and> raw_data raw \<noteq> []
                 \<and> hub_submit L (env_hub env) hub (raw_data raw) = (effects, Ok v)
                 \<and> verdict_answer v = Some (code, msg) \<and> resp = grpc_send_response L code msg
                 \<and> (case hub of
                      Http c \<Rightarrow> \<exists>rq status hs body p. HubHttp rq \<in> set effects
                        \<and> he_exchange (hub_http (env_hub env)) rq = Done (status, hs)
                        \<and> he_body (hub_http (env_hub env)) MAX_HUB_RESPONSE_BYTES = Done (Some body)
                        \<and> status \<noteq> 413 \<and> lib_json L body = Ok p \<and> (code, msg) = hub_answer p
                    | Nym h \<Rightarrow> code = 0 \<and> msg = local_txid L (raw_data raw)
                        \<and> effects \<noteq> [] \<and> (\<forall>e \<in> set effects. \<exists>rq. e = HubMixnet rq)))))"
proof (cases "\<exists>frame tr. env_body env MAX_SEND_TX_BYTES = Collected frame tr")
  case True
  then obtain frame tr where c: "env_body env MAX_SEND_TX_BYTES = Collected frame tr" by blast
  define td where "td = snd (inspect L (req_headers req) frame)"
  obtain resp where d: "divert L (env_hub env) hub td = (effects, resp)" "r = Ok resp" "st' = st"
    using send_transaction_diverted [OF c assms(1) [rule_format, OF c], of b hub st] assms(2)
    by (auto simp: td_def split: prod.splits)
  have op: "\<forall>e \<in> set effects. \<not> to_operator e" using divert_not_operator [of _ L "env_hub env" hub td] d(1) by simp
  show ?thesis
  proof (cases rule: inspect_cases [of "req_headers req" frame L])
    case (classified m raw)
    obtain effects' r' where s: "hub_submit L (env_hub env) hub (raw_data raw) = (effects', r')"
      by (cases "hub_submit L (env_hub env) hub (raw_data raw)")
    show ?thesis
    proof (cases "raw_data raw = []")
      case True
      with d op classified(5) show ?thesis by (auto simp: td_def divert_def)
    next
      case False
      with d(1) classified(5) s have e: "effects' = effects" "resp = answer_submit L r'"
        by (simp_all add: td_def divert_def)
      show ?thesis
      proof (cases "is_unary_answer resp")
        case True
        then obtain v code msg where v: "r' = Ok v" "verdict_answer v = Some (code, msg)" "resp = grpc_send_response L code msg"
          using e(2) answer_submit_unary by blast
        note hub_submit_verdict [OF s [unfolded e(1) v(1)] v(2)]
        moreover have "resp_status resp = 200" using e(2) answer_submit_unary(3) by simp
        ultimately show ?thesis using True d op s e(1) False v classified(1,2,4) c by auto
      next
        case no: False
        have "\<exists>code msg. resp = grpc_error (lib_hv L) code msg"
          using no e(2) by (cases r') (auto simp: answer_submit_def split: submit_verdict.splits)
        with no d op show ?thesis by auto
      qed
    qed
  next
    case failsafe
    with d op show ?thesis by (auto simp: td_def divert_def)
  qed
next
  case False
  then obtain code msg where "send_transaction L env b req (Some hub) st = ([], Ok (grpc_error (lib_hv L) code msg), st)"
    using send_transaction_unread by blast
  with assms(2) have "effects = []" "r = Ok (grpc_error (lib_hv L) code msg)" "st' = st" by simp_all
  then show ?thesis by (simp; blast)
qed

definition demo_call :: request where
  "demo_call = \<lparr>http_method = ''POST'',
     req_uri = \<lparr>scheme = None, authority = Some ''shim'', path_and_query = Some SEND_TRANSACTION\<rparr>,
     req_headers = Map.empty, req_body = [DataFrame [1, 0, 0, 0, 0]]\<rparr>"

definition demo_backend :: backend where
  "demo_backend = \<lparr>be_addr = ''10.0.0.1:443'', be_tls_authority = None\<rparr>"

definition demo_shim_env :: shim_env where
  "demo_shim_env = \<lparr>env_body = (\<lambda>n. Collected [1, 0, 0, 0, 0] None), env_dial = demo_dial,
     env_exchange = (\<lambda>rq. ExchangeTimedOut), env_hub = demo_hub_env\<rparr>"

lemma compressed_does_not_pass: "\<not> passes L hs [1, 0, 0, 0, 0]"
  by (auto simp: passes_def unary_frame_def)

theorem diverted_submission_fails_closed_witness:
  "\<exists>effects resp. send_transaction demo_libs demo_shim_env demo_backend demo_call
       (Some (Nym (nym_handle_new 9 5 2))) pool_state_default = (effects, Ok resp, pool_state_default)
     \<and> filter to_operator effects = []"
proof -
  obtain effects r st' where run: "send_transaction demo_libs demo_shim_env demo_backend demo_call
       (Some (Nym (nym_handle_new 9 5 2))) pool_state_default = (effects, r, st')"
    using prod_cases3 by blast
  have "\<forall>frame tr. env_body demo_shim_env MAX_SEND_TX_BYTES = Collected frame tr
      \<longrightarrow> \<not> passes demo_libs (req_headers demo_call) frame"
    using compressed_does_not_pass by (simp add: demo_shim_env_def)
  from diverted_submission_fails_closed [OF this run] run show ?thesis by (auto simp: filter_empty_conv)
qed

text \<open>
  C4. With a hub configured a transaction lookup never contacts the operator's indexer, and never
  hands the wallet another transaction than it asked for: every outcome is an answer, and the only one
  that carries a transaction carries bytes the hub returned for the queried hash, which start with
  a transaction of that identifier (in either byte order).
\<close>

theorem lookup_serves_only_the_queried_transaction:
  assumes "push_num_bip34 (lib_crypto L)" "hashing_ok (lib_hashing L)"
    and "get_transaction L env b req (Some hub) st = (effects, r, st', hub')"
  shows "st' = st \<and> (\<forall>e \<in> set effects. \<not> to_operator e)
    \<and> (\<exists>resp. r = Ok resp \<and> resp_status resp = 200
         \<and> (is_unary_answer resp \<longrightarrow>
              (\<exists>frame tr f data height tx rest h.
                 env_body env MAX_TX_FILTER_BYTES = Collected frame tr
                 \<and> decode_tx_filter L (req_headers req) frame = Ok f \<and> length (filter_hash f) = 32
                 \<and> fst (snd (hub_get_transaction L (env_hub env) hub (filter_hash f))) = Ok (LookupFound data height)
                 \<and> read_transaction (lib_crypto L) data = Ok (tx, rest)
                 \<and> tx_hash (lib_hashing L) (lib_crypto L) tx = Some h
                 \<and> h \<in> {filter_hash f, rev (filter_hash f)}
                 \<and> resp = get_transaction_response L data height)))"
proof (cases "\<exists>frame tr f. env_body env MAX_TX_FILTER_BYTES = Collected frame tr
    \<and> decode_tx_filter L (req_headers req) frame = Ok f \<and> filter_complaint f = None")
  case False
  then have "\<exists>code msg. get_transaction L env b req (Some hub) st
      = ([], Ok (grpc_error (lib_hv L) code msg), st, Some hub)"
    by (auto simp: get_transaction_def Let_def split: body_read.split sum.split option.split)
  with assms(3) show ?thesis by auto
next
  case True
  then obtain frame tr f where f: "env_body env MAX_TX_FILTER_BYTES = Collected frame tr"
      "decode_tx_filter L (req_headers req) frame = Ok f" "filter_complaint f = None" by blast
  obtain out hub2 where s: "hub_get_transaction L (env_hub env) hub (filter_hash f) = (effects, out, hub2)"
    "r = Ok (answer_lookup L (filter_hash f) out)" "st' = st"
    using assms(3) f by (auto simp: get_transaction_def split: prod.splits)
  have "\<forall>e \<in> set effects. \<not> to_operator e"
    using hub_get_transaction_effects [of _ L "env_hub env" hub "filter_hash f"] s(1) by simp
  moreover have "resp_status (answer_lookup L (filter_hash f) out) = 200"
    by (simp add: answer_lookup_def split: sum.split lookup_verdict.split)
  moreover have "\<exists>data height. out = Ok (LookupFound data height) \<and> lookup_is_for_query L data (filter_hash f)
      \<and> answer_lookup L (filter_hash f) out = get_transaction_response L data height"
    if "is_unary_answer (answer_lookup L (filter_hash f) out)"
    using that by (auto simp: answer_lookup_def split: sum.splits lookup_verdict.splits if_splits)
  moreover have "length (filter_hash f) = 32"
    using f(3) by (auto simp: filter_complaint_def split: if_splits)
  ultimately show ?thesis
    using s f lookup_is_for_query_iff [OF assms(1,2)] by simp blast
qed

theorem lookup_serves_only_the_queried_transaction_witness:
  "\<exists>effects resp hub'. get_transaction demo_libs demo_shim_env demo_backend demo_call
       (Some (Nym (nym_handle_new 9 5 2))) pool_state_default = (effects, Ok resp, pool_state_default, hub')
     \<and> resp_status resp = 200"
proof -
  obtain effects r st' hub' where run: "get_transaction demo_libs demo_shim_env demo_backend demo_call
       (Some (Nym (nym_handle_new 9 5 2))) pool_state_default = (effects, r, st', hub')"
    using prod_cases4 by blast
  have "push_num_bip34 (lib_crypto demo_libs)" "hashing_ok (lib_hashing demo_libs)"
    by (simp_all add: demo_libs_def demo_bip34 hashing_ok_def)
  from lookup_serves_only_the_queried_transaction [OF this run] run show ?thesis by (auto simp: filter_empty_conv)
qed

end
