(* ===== verification/Proxy.thy ===== *)
theory Proxy
  imports Intercept NymStatus
begin

text \<open>
  One request from a wallet, from its path to its answer (\<open>handle\<close> in
  \<open>zeronym/shim/src/proxy.rs\<close>): the composition of routing, local endpoints, the
  attestation relay, forwarding and the two intercepted methods.
\<close>

section \<open>The attestation relay\<close>

record caution_relay =
  relay_enabled :: bool
  bootproofd_addr :: string

definition DEFAULT_BOOTPROOFD_ADDR :: string where "DEFAULT_BOOTPROOFD_ADDR = ''127.0.0.1:49502''"

definition caution_relay_default :: caution_relay where
  "caution_relay_default = \<lparr>relay_enabled = True, bootproofd_addr = DEFAULT_BOOTPROOFD_ADDR\<rparr>"

text \<open>The relay is on loopback and has no deadline, so an exchange with it may stall.\<close>

record relay_env =
  re_connect :: "unit stage"
  re_handshake :: "unit stage"
  re_exchange :: "request \<Rightarrow> response stage"

definition forward_to_bootproofd :: "libs \<Rightarrow> relay_env \<Rightarrow> request \<Rightarrow> string \<Rightarrow> response traced" where
  "forward_to_bootproofd L env req addr =
     tbind (teffect RelayDial) (\<lambda>_.
     tbind (tstage (re_connect env)) (\<lambda>_.
     tbind (tstage (re_handshake env)) (\<lambda>_.
     tbind (tstage (stage_of (bootproofd_request (lib_hv L) addr req))) (\<lambda>rq.
     tbind (teffect (RelayRequest rq)) (\<lambda>_. tstage (re_exchange env rq))))))"

section \<open>One request\<close>

text \<open>\<open>Uri::path\<close>: up to the query; an empty path of a URI that has one is the root.\<close>

definition uri_path :: "uri \<Rightarrow> string" where
  "uri_path u = (case path_and_query u of
     None \<Rightarrow> ''''
   | Some pq \<Rightarrow> (let p = takeWhile (\<lambda>c. c \<noteq> CHR ''?'') pq in if p = '''' then ''/'' else p))"

record conn_state =
  cs_pool :: pool_state
  cs_hub :: "hub_transport option"

record conn_env =
  ce_shim :: shim_env
  ce_relay :: relay_env
  ce_unix :: u64
  ce_status :: mixnet_status

record shim =
  sh_backend :: backend
  sh_relay :: caution_relay

type_synonym handling = "effect list \<times> response stage \<times> conn_state"

text \<open>The last match of \<open>handle\<close>: an error becomes a gRPC status.\<close>

fun answered :: "libs \<Rightarrow> response stage \<Rightarrow> response stage" where
  "answered L (Fails err) = Done (grpc_error (lib_hv L) GRPC_UNAVAILABLE (''zero-indexer-shim: '' @ err))"
| "answered L r = r"

definition local_answer :: "conn_state \<Rightarrow> response \<Rightarrow> handling" where
  "local_answer s r = ([], Done r, s)"

definition proxied :: "libs \<Rightarrow> conn_env \<Rightarrow> shim \<Rightarrow> request \<Rightarrow> conn_state \<Rightarrow> handling" where
  "proxied L env sh req s =
     (let (effects, r, p) = pass_through (env_dial (ce_shim env)) (env_exchange (ce_shim env)) (sh_backend sh) req (cs_pool s)
      in (effects, stage_of r, s\<lparr>cs_pool := p\<rparr>))"

definition route_request :: "libs \<Rightarrow> conn_env \<Rightarrow> shim \<Rightarrow> request \<Rightarrow> conn_state \<Rightarrow> handling" where
  "route_request L env sh req s =
     (case route_for (uri_path (req_uri req)) of
        CautionHealth \<Rightarrow>
          if relay_enabled (sh_relay sh) then local_answer s caution_health_ok else proxied L env sh req s
      | CautionAttestation \<Rightarrow>
          if relay_enabled (sh_relay sh)
          then (let (effects, r) = forward_to_bootproofd L (ce_relay env) req (bootproofd_addr (sh_relay sh)) in (effects, r, s))
          else proxied L env sh req s
      | ShimHealth \<Rightarrow>
          local_answer s (if is_healthy (ce_status env) then text_response 200 ''ok''
                          else text_response 503 ''mixnet client not connected'')
      | ShimNymStatus \<Rightarrow> local_answer s (json_response (to_json (ce_status env)))
      | ShimNymDiag \<Rightarrow>
          if diag_enabled (ce_status env) then local_answer s (json_response (diag_json (ce_unix env) (ce_status env)))
          else proxied L env sh req s
      | route.PassThrough \<Rightarrow> proxied L env sh req s
      | GetTransaction \<Rightarrow>
          (let (effects, r, p, hub) = get_transaction L (ce_shim env) (sh_backend sh) req (cs_hub s) (cs_pool s)
           in (effects, stage_of r, s\<lparr>cs_pool := p, cs_hub := hub\<rparr>))
      | _ \<Rightarrow>
          (let (effects, r, p) = send_transaction L (ce_shim env) (sh_backend sh) req (cs_hub s) (cs_pool s)
           in (effects, stage_of r, s\<lparr>cs_pool := p\<rparr>)))"

definition handle :: "libs \<Rightarrow> conn_env \<Rightarrow> shim \<Rightarrow> request \<Rightarrow> conn_state \<Rightarrow> handling" where
  "handle L env sh req s =
     (let (effects, r, s') = route_request L env sh req s in (effects, answered L r, s'))"

text \<open>
  \<open>serve_connection\<close>: a pool of its own for the connection, and its requests in the order they take
  the shared state; each has its own environment, and the status is read when it is handled.
\<close>

fun serve_requests ::
    "libs \<Rightarrow> shim \<Rightarrow> (conn_env \<times> request) list \<Rightarrow> conn_state \<Rightarrow> (effect list \<times> response stage) list" where
  "serve_requests L sh [] s = []"
| "serve_requests L sh ((env, req) # calls) s =
     (let (effects, r, s') = handle L env sh req s in (effects, r) # serve_requests L sh calls s')"

definition serve_connection ::
    "libs \<Rightarrow> shim \<Rightarrow> hub_transport option \<Rightarrow> (conn_env \<times> request) list \<Rightarrow> (effect list \<times> response stage) list" where
  "serve_connection L sh hub calls =
     serve_requests L sh calls \<lparr>cs_pool = pool_state_default, cs_hub = hub\<rparr>"

section \<open>Facts about the branches\<close>

lemma forward_to_bootproofd_effects:
  "e \<in> set (fst (forward_to_bootproofd L env req addr)) \<Longrightarrow>
     e = RelayDial \<or> (\<exists>rq. e = RelayRequest rq \<and> bootproofd_request (lib_hv L) addr req = Ok rq)"
  by (cases "bootproofd_request (lib_hv L) addr req")
    (auto simp: forward_to_bootproofd_def traced_simps split: stage.splits)

lemma stage_of_not_stalls [simp]: "stage_of r \<noteq> Stalls"
  by (cases r) simp_all

lemma stage_of_iff [simp]: "stage_of r = Done x \<longleftrightarrow> r = Ok x" "stage_of r = Fails e \<longleftrightarrow> r = Err e"
  by (cases r; simp)+

lemma fst_handle: "fst (handle L env sh req s) = fst (route_request L env sh req s)"
  by (simp add: handle_def split: prod.split)

lemma route_send:
  "route_for (uri_path (req_uri req)) \<in> {Intercept, InterceptNearMiss} \<Longrightarrow>
     route_request L env sh req s =
       (let (effects, r, p) = send_transaction L (ce_shim env) (sh_backend sh) req (cs_hub s) (cs_pool s)
        in (effects, stage_of r, s\<lparr>cs_pool := p\<rparr>))"
  by (auto simp: route_request_def)

lemma proxied_operator:
  "OperatorRequest rq \<in> set (fst (proxied L env sh req s)) \<Longrightarrow> \<exists>a. rq = forward_request a req"
  using pass_through_operator [of rq "env_dial (ce_shim env)" "env_exchange (ce_shim env)" "sh_backend sh" req "cs_pool s"]
  by (auto simp: proxied_def split: prod.splits)

lemma get_transaction_hub:
  "get_transaction L env b req hub st = (effects, r, p, hub') \<Longrightarrow> hub' = None \<longleftrightarrow> hub = None"
  by (auto simp: get_transaction_def Let_def split: option.splits body_read.splits sum.splits prod.splits)

lemma handle_hub: "handle L env sh req s = (effects, r, s') \<Longrightarrow> cs_hub s' = None \<longleftrightarrow> cs_hub s = None"
  by (auto simp: handle_def route_request_def local_answer_def proxied_def
      dest: get_transaction_hub split: route.splits prod.splits if_splits)

lemma serve_requests_nth:
  assumes "i < length calls"
  obtains env req s' where "calls ! i = (env, req)" "cs_hub s' = None \<longleftrightarrow> cs_hub s = None"
    "serve_requests L sh calls s ! i = (fst (handle L env sh req s'), fst (snd (handle L env sh req s')))"
  using assms
proof (induction calls arbitrary: i s thesis)
  case (Cons call calls)
  obtain env req where call: "call = (env, req)" by (cases call)
  obtain effects r s' where h: "handle L env sh req s = (effects, r, s')" using prod_cases3 by blast
  show ?case
  proof (cases i)
    case 0
    with Cons.prems(1) [of env req s] call h show thesis by simp
  next
    case (Suc j)
    with Cons.prems(2) have "j < length calls" by simp
    from Cons.IH [OF _ this, where s = s'] obtain env' req' s2 where "calls ! j = (env', req')"
      "cs_hub s2 = None \<longleftrightarrow> cs_hub s' = None"
      "serve_requests L sh calls s' ! j = (fst (handle L env' sh req' s2), fst (snd (handle L env' sh req' s2)))"
      by blast
    with Cons.prems(1) [of env' req' s2] Suc call h handle_hub [OF h] show thesis by simp
  qed
qed simp

lemma length_serve_requests: "length (serve_requests L sh calls s) = length calls"
  by (induction calls arbitrary: s) (auto split: prod.split)

lemma serve_connection_nth:
  assumes "i < length calls" "calls ! i = (env, req)" "serve_connection L sh hub calls ! i = (effects, r)"
  obtains s s' where "handle L env sh req s = (effects, r, s')" "cs_hub s = None \<longleftrightarrow> hub = None"
proof -
  obtain s where "cs_hub s = None \<longleftrightarrow> hub = None"
      "serve_connection L sh hub calls ! i = (fst (handle L env sh req s), fst (snd (handle L env sh req s)))"
    by (rule serve_requests_nth [OF assms(1), of "\<lparr>cs_pool = pool_state_default, cs_hub = hub\<rparr>" L sh])
      (use assms(2) in \<open>auto simp: serve_connection_def\<close>)
  with assms(3) that show thesis by (metis prod.collapse fst_conv snd_conv)
qed

text \<open>Which requests contact the operator when a hub is configured.\<close>

lemma handle_operator:
  assumes "handle L env sh req s = (effects, r, s')" "cs_hub s = Some hub" "e \<in> set effects" "to_operator e"
  shows "route_for (uri_path (req_uri req)) \<noteq> GetTransaction"
    "route_for (uri_path (req_uri req)) \<in> {Intercept, InterceptNearMiss} \<Longrightarrow>
       \<exists>frame tr. env_body (ce_shim env) MAX_SEND_TX_BYTES = Collected frame tr \<and> passes L (req_headers req) frame"
proof -
  have e: "e \<in> set (fst (route_request L env sh req s))"
    using assms(1,3) fst_handle [of L env sh req s] by simp
  show "route_for (uri_path (req_uri req)) \<noteq> GetTransaction"
  proof
    assume get: "route_for (uri_path (req_uri req)) = GetTransaction"
    obtain effects' r' p' hub' where run: "get_transaction L (ce_shim env) (sh_backend sh) req (Some hub) (cs_pool s)
        = (effects', r', p', hub')" using prod_cases4 by blast
    with e get assms(2) have "e \<in> set effects'" by (simp add: route_request_def)
    with get_transaction_effects [OF run] assms(4) show False by blast
  qed
  assume "route_for (uri_path (req_uri req)) \<in> {Intercept, InterceptNearMiss}"
  from route_send [OF this] e assms(2)
  have "e \<in> set (fst (send_transaction L (ce_shim env) (sh_backend sh) req (Some hub) (cs_pool s)))"
    by (simp split: prod.splits)
  from send_transaction_operator [OF this assms(4)]
  show "\<exists>frame tr. env_body (ce_shim env) MAX_SEND_TX_BYTES = Collected frame tr \<and> passes L (req_headers req) frame"
    by blast
qed

text \<open>What an operator request is made of.\<close>

definition same_call :: "request \<Rightarrow> request \<Rightarrow> bool" where
  "same_call req rq \<longleftrightarrow> http_method rq = http_method req
     \<and> path_and_query (req_uri rq) = Some (case path_and_query (req_uri req) of None \<Rightarrow> ''/'' | Some p \<Rightarrow> p)
     \<and> frame_data (req_body rq) = frame_data (req_body req)
     \<and> frame_trailers (req_body rq) = frame_trailers (req_body req)
     \<and> (\<forall>n. hdr_get (req_headers rq) n =
          (if n \<in> set (''host'' # client_address_headers) then None else hdr_get (req_headers req) n))"

lemma same_call_forward: "same_call req (forward_request a req)"
  by (simp add: same_call_def forward_request_headers)
    (simp add: forward_request_def Let_def split: option.split)

lemma frames_of_replay:
  "frame_data (replay_frames (replay_body_new d t)) = d" "frame_trailers (replay_frames (replay_body_new d t)) = t"
  by (simp_all add: replay_frames_new split: option.split)

lemma same_call_replayed:
  assumes "collects env req" "env_body env n = Collected frame tr"
  shows "same_call req (forward_request a (req\<lparr>req_body := replay_frames (replay_body_new frame tr)\<rparr>))"
proof -
  have "frame = frame_data (req_body req)" "tr = frame_trailers (req_body req)"
    using assms by (auto simp: collects_def)
  with same_call_forward [of "req\<lparr>req_body := replay_frames (replay_body_new frame tr)\<rparr>" a] show ?thesis
    by (simp add: same_call_def frames_of_replay)
qed

lemma send_transaction_same_call:
  assumes "collects env req" "OperatorRequest rq \<in> set (fst (send_transaction L env b req hub st))"
  shows "same_call req rq"
proof (cases "\<exists>frame tr. env_body env MAX_SEND_TX_BYTES = Collected frame tr")
  case True
  then obtain frame tr where c: "env_body env MAX_SEND_TX_BYTES = Collected frame tr" by blast
  have "hub = None \<or> passes L (req_headers req) frame"
  proof (cases hub)
    case (Some h)
    with assms(2) have "OperatorRequest rq \<in> set (fst (send_transaction L env b req (Some h) st))" by simp
    then show ?thesis by (rule send_transaction_operator) (use c in simp_all)
  qed simp
  from send_transaction_passed [OF c this] assms(2) pass_through_operator same_call_replayed [OF assms(1) c]
  show ?thesis by metis
next
  case False
  then obtain code msg where "send_transaction L env b req hub st = ([], Ok (grpc_error (lib_hv L) code msg), st)"
    using send_transaction_unread by blast
  with assms(2) show ?thesis by simp
qed

lemma get_transaction_same_call:
  assumes "OperatorRequest rq \<in> set (fst (get_transaction L env b req hub st))"
  shows "same_call req rq"
proof (cases hub)
  case None
  with assms have "OperatorRequest rq \<in> set (fst (pass_through (env_dial env) (env_exchange env) b req st))"
    by (simp add: get_transaction_def split: prod.splits)
  from pass_through_operator [OF this] same_call_forward show ?thesis by blast
next
  case (Some h)
  obtain effects r p hub' where run: "get_transaction L env b req (Some h) st = (effects, r, p, hub')"
    using prod_cases4 by blast
  with get_transaction_effects [OF run] assms Some show ?thesis by auto
qed

lemma handle_same_call:
  assumes "collects (ce_shim env) req" "handle L env sh req s = (effects, r, s')" "OperatorRequest rq \<in> set effects"
  shows "same_call req rq"
proof -
  have e: "OperatorRequest rq \<in> set (fst (route_request L env sh req s))"
    using assms(2,3) fst_handle [of L env sh req s] by simp
  have prox: "OperatorRequest rq \<in> set (fst (proxied L env sh req s)) \<Longrightarrow> ?thesis"
    using proxied_operator same_call_forward by blast
  show ?thesis
  proof (cases "route_for (uri_path (req_uri req))")
    case GetTransaction
    with e have "OperatorRequest rq \<in> set (fst (get_transaction L (ce_shim env) (sh_backend sh) req (cs_hub s) (cs_pool s)))"
      by (simp add: route_request_def split: prod.splits)
    then show ?thesis by (rule get_transaction_same_call)
  next
    case Intercept
    with e have "OperatorRequest rq \<in> set (fst (send_transaction L (ce_shim env) (sh_backend sh) req (cs_hub s) (cs_pool s)))"
      by (simp add: route_request_def split: prod.splits)
    then show ?thesis by (rule send_transaction_same_call [OF assms(1)])
  next
    case InterceptNearMiss
    with e have "OperatorRequest rq \<in> set (fst (send_transaction L (ce_shim env) (sh_backend sh) req (cs_hub s) (cs_pool s)))"
      by (simp add: route_request_def split: prod.splits)
    then show ?thesis by (rule send_transaction_same_call [OF assms(1)])
  next
    case CautionAttestation
    with e prox forward_to_bootproofd_effects [of "OperatorRequest rq" L "ce_relay env" req "bootproofd_addr (sh_relay sh)"]
    show ?thesis by (auto simp: route_request_def split: if_splits prod.splits)
  qed (use e prox in \<open>auto simp: route_request_def local_answer_def split: if_splits\<close>)
qed

lemma route_for_shim:
  "route_for p = ShimHealth \<longleftrightarrow> p = SHIM_HEALTH" "route_for p = ShimNymStatus \<longleftrightarrow> p = SHIM_NYM_STATUS"
  by (auto simp: route_for_def path_consts)

lemma local_routes:
  assumes "handle L env sh req s = (effects, r, s')"
  shows "uri_path (req_uri req) = SHIM_HEALTH \<Longrightarrow> effects = [] \<and> r = Done
      (if is_healthy (ce_status env) then text_response 200 ''ok''
       else text_response 503 ''mixnet client not connected'')"
    "uri_path (req_uri req) = SHIM_NYM_STATUS \<Longrightarrow> effects = [] \<and> r = Done (json_response (to_json (ce_status env)))"
  using assms by (auto simp: handle_def route_request_def local_answer_def route_for_shim [symmetric])

text \<open>What an answer can be: the indexer's own, the relay's own, or a gRPC error.\<close>

definition operator_answer :: "(request \<Rightarrow> exchange_result) \<Rightarrow> effect list \<Rightarrow> response \<Rightarrow> bool" where
  "operator_answer exchange effects resp \<longleftrightarrow> (\<exists>rq resp0. OperatorRequest rq \<in> set effects
     \<and> exchange rq = ExchangeOk resp0
     \<and> resp = resp0\<lparr>resp_headers := normalize_response_encoding (resp_headers resp0)\<rparr>)"

definition relay_answer :: "(request \<Rightarrow> response stage) \<Rightarrow> effect list \<Rightarrow> response \<Rightarrow> bool" where
  "relay_answer exchange effects resp \<longleftrightarrow> (\<exists>rq. RelayRequest rq \<in> set effects \<and> exchange rq = Done resp)"

definition is_grpc_error :: "nat \<Rightarrow> response \<Rightarrow> bool" where
  "is_grpc_error code resp \<longleftrightarrow> resp_status resp = 200 \<and> resp_body resp = []
     \<and> hdr_get (resp_headers resp) ''content-type'' = Some ''application/grpc''
     \<and> hdr_get (resp_headers resp) ''grpc-status'' = Some (show_nat code)"

definition unanswered :: "conn_env \<Rightarrow> effect list \<Rightarrow> bool" where
  "unanswered env effects \<longleftrightarrow>
     (\<forall>rq resp. OperatorRequest rq \<in> set effects \<longrightarrow> env_exchange (ce_shim env) rq \<noteq> ExchangeOk resp)
     \<and> (\<forall>rq resp. RelayRequest rq \<in> set effects \<longrightarrow> re_exchange (ce_relay env) rq \<noteq> Done resp)"

lemma is_grpc_error [simp]: "is_grpc_error code (grpc_error hv code msg)"
  by (simp add: is_grpc_error_def grpc_error_def Let_def split: option.split)

lemma pass_through_answer:
  "pass_through env exchange b req st = (effects, Ok resp, st') \<Longrightarrow> operator_answer exchange effects resp"
  by (cases rule: pool_get_cases [of st env b])
    (auto simp: pass_through_def forward_traced_def forward_def operator_answer_def split: exchange_result.splits)

lemma pass_through_failure:
  "pass_through dial (env_exchange (ce_shim env)) b req st = (effects, Err e, st') \<Longrightarrow> unanswered env effects"
  by (cases rule: pool_get_cases [of st dial b])
    (auto simp: pass_through_def forward_traced_def forward_def unanswered_def split: exchange_result.splits)

text \<open>
  What the shim itself says to a call of one of the two intercepted methods: a gRPC error, or, with a
  hub, one unary message.
\<close>

definition intercepted_answer :: "bool \<Rightarrow> response \<Rightarrow> bool" where
  "intercepted_answer with_hub resp \<longleftrightarrow> (\<exists>code \<in> {1, 3, 4, 5, 8, 14}. is_grpc_error code resp)
     \<or> with_hub \<and> (\<exists>message. resp = grpc_unary message)"

lemma intercepted_error: "code \<in> {1, 3, 4, 5, 8, 14} \<Longrightarrow> intercepted_answer h (grpc_error hv code msg)"
  using is_grpc_error [of code hv msg] by (auto simp: intercepted_answer_def)

lemma divert_answer: "intercepted_answer True (snd (divert L env hub td))"
  by (auto simp: divert_def answer_submit_def grpc_send_response_def grpc_codes intercepted_error
      split: option.split prod.split sum.split submit_verdict.split)
    (auto simp: intercepted_answer_def)

lemma answer_lookup_answer: "intercepted_answer True (answer_lookup L h r)"
  by (auto simp: answer_lookup_def get_transaction_response_def grpc_codes intercepted_error
      split: sum.split lookup_verdict.split)
    (auto simp: intercepted_answer_def)

lemma send_transaction_answer:
  assumes run: "send_transaction L env b req hub st = (effects, Ok resp, st')"
  shows "operator_answer (env_exchange env) effects resp
    \<or> (\<forall>e \<in> set effects. \<not> to_operator e) \<and> intercepted_answer (hub \<noteq> None) resp"
proof (cases "env_body env MAX_SEND_TX_BYTES")
  case (Collected frame tr)
  show ?thesis
  proof (cases "hub = None \<or> passes L (req_headers req) frame")
    case True
    from run [unfolded send_transaction_passed [OF Collected this]] show ?thesis by (blast dest: pass_through_answer)
  next
    case False
    then obtain h where h: "hub = Some h" "\<not> passes L (req_headers req) frame" by (cases hub) auto
    from run [unfolded h(1) send_transaction_diverted [OF Collected h(2)]]
    have "(effects, resp) = divert L (env_hub env) h (snd (inspect L (req_headers req) frame))"
      by (simp split: prod.splits)
    with divert_answer [of L "env_hub env" h] divert_not_operator [of _ L "env_hub env" h] h(1) show ?thesis
      by (metis fst_conv snd_conv option.distinct(1))
  qed
qed (use run in \<open>auto simp: send_transaction_def body_read_failed_def grpc_codes intercepted_error\<close>)

lemma get_transaction_answer:
  assumes run: "get_transaction L env b req hub st = (effects, Ok resp, st', hub')"
  shows "operator_answer (env_exchange env) effects resp
    \<or> (\<forall>e \<in> set effects. \<not> to_operator e) \<and> intercepted_answer (hub \<noteq> None) resp"
proof (cases hub)
  case None
  with run show ?thesis by (auto simp: get_transaction_def split: prod.splits dest: pass_through_answer)
next
  case (Some h)
  have "intercepted_answer True resp"
    using run Some by (auto simp: get_transaction_def Let_def grpc_codes intercepted_error answer_lookup_answer
        split: body_read.splits sum.splits option.splits prod.splits)
  with get_transaction_effects [OF run [unfolded Some]] Some show ?thesis by simp
qed

lemma forward_to_bootproofd_answer:
  "forward_to_bootproofd L env req addr = (effects, Done resp) \<Longrightarrow> relay_answer (re_exchange env) effects resp"
  by (cases "bootproofd_request (lib_hv L) addr req")
    (auto simp: forward_to_bootproofd_def relay_answer_def traced_simps tbind_def split: stage.splits)

text \<open>An operation that fails does so because nobody responded.\<close>

lemma send_transaction_failure:
  assumes run: "send_transaction L (ce_shim env) b req hub st = (effects, Err e, st')"
  shows "unanswered env effects"
proof (cases "env_body (ce_shim env) MAX_SEND_TX_BYTES")
  case (Collected frame tr)
  show ?thesis
  proof (cases "hub = None \<or> passes L (req_headers req) frame")
    case True
    from run [unfolded send_transaction_passed [OF Collected this]] show ?thesis by (rule pass_through_failure)
  next
    case False
    then obtain h where h: "hub = Some h" "\<not> passes L (req_headers req) frame" by (cases hub) auto
    from run [unfolded h(1) send_transaction_diverted [OF Collected h(2)]] show ?thesis by (simp split: prod.splits)
  qed
qed (use run in \<open>simp_all add: send_transaction_def\<close>)

lemma get_transaction_failure:
  "get_transaction L (ce_shim env) b req hub st = (effects, Err e, st', hub') \<Longrightarrow> unanswered env effects"
  by (auto simp: get_transaction_def Let_def dest: pass_through_failure
      split: body_read.splits sum.splits option.splits prod.splits)

lemma forward_to_bootproofd_failure:
  "forward_to_bootproofd L (ce_relay env) req addr = (effects, Fails e) \<Longrightarrow> unanswered env effects"
  by (cases "bootproofd_request (lib_hv L) addr req")
    (auto simp: forward_to_bootproofd_def unanswered_def traced_simps tbind_def split: stage.splits)

lemma route_request_failure:
  "route_request L env sh req s = (effects, Fails e, s') \<Longrightarrow> unanswered env effects"
  by (auto simp: route_request_def proxied_def local_answer_def
      dest: pass_through_failure send_transaction_failure get_transaction_failure forward_to_bootproofd_failure
      split: route.splits if_splits prod.splits)

text \<open>Every way a request is answered, before the errors become statuses.\<close>

lemma route_request_answer:
  assumes "route_request L env sh req s = (effects, Done resp, s')"
  shows "operator_answer (env_exchange (ce_shim env)) effects resp
    \<or> (\<forall>e \<in> set effects. \<not> to_operator e)
      \<and> (uri_path (req_uri req) = CAUTION_ATTESTATION \<and> relay_answer (re_exchange (ce_relay env)) effects resp
         \<or> (spells_send_transaction (uri_path (req_uri req)) \<or> uri_path (req_uri req) = GET_TRANSACTION)
           \<and> intercepted_answer (cs_hub s \<noteq> None) resp
         \<or> effects = [] \<and> (uri_path (req_uri req), resp) \<in> {(CAUTION_HEALTH, caution_health_ok),
             (SHIM_HEALTH, if is_healthy (ce_status env) then text_response 200 ''ok''
                           else text_response 503 ''mixnet client not connected''),
             (SHIM_NYM_STATUS, json_response (to_json (ce_status env))),
             (SHIM_NYM_DIAG, json_response (diag_json (ce_unix env) (ce_status env)))})"
proof -
  let ?p = "uri_path (req_uri req)"
  have prox: "operator_answer (env_exchange (ce_shim env)) effects resp"
    if "proxied L env sh req s = (effects, Done resp, s')"
    using that by (auto simp: proxied_def dest!: pass_through_answer split: prod.splits)
  have send: "?thesis" if r: "route_for ?p \<in> {Intercept, InterceptNearMiss}"
  proof -
    obtain p where "send_transaction L (ce_shim env) (sh_backend sh) req (cs_hub s) (cs_pool s) = (effects, Ok resp, p)"
      using assms unfolding route_send [OF r] by (auto split: prod.splits)
    from send_transaction_answer [OF this] r show ?thesis unfolding intercepted_iff_spells by blast
  qed
  show ?thesis
  proof (cases "route_for ?p")
    case GetTransaction
    then obtain p h where "get_transaction L (ce_shim env) (sh_backend sh) req (cs_hub s) (cs_pool s) = (effects, Ok resp, p, h)"
      using assms by (auto simp: route_request_def split: prod.splits)
    from get_transaction_answer [OF this] GetTransaction show ?thesis unfolding route_for_cases by blast
  next
    case CautionAttestation
    then have "?p = CAUTION_ATTESTATION" by (auto simp: route_for_def split: if_splits)
    moreover have "\<not> to_operator e"
      if "e \<in> set (fst (forward_to_bootproofd L (ce_relay env) req (bootproofd_addr (sh_relay sh))))" for e
      using forward_to_bootproofd_effects [OF that] by auto
    ultimately show ?thesis using CautionAttestation assms prox
      by (auto simp: route_request_def dest: forward_to_bootproofd_answer split: if_splits prod.splits)
  next
    case CautionHealth
    then have "?p = CAUTION_HEALTH" by (auto simp: route_for_def split: if_splits)
    with CautionHealth assms prox show ?thesis by (auto simp: route_request_def local_answer_def split: if_splits)
  next
    case ShimNymDiag
    then have "?p = SHIM_NYM_DIAG" by (auto simp: route_for_def split: if_splits)
    with ShimNymDiag assms prox show ?thesis by (auto simp: route_request_def local_answer_def split: if_splits)
  qed (use send assms prox in \<open>auto simp: route_request_def local_answer_def route_for_shim [symmetric]\<close>)
qed

lemma handle_answers:
  assumes "handle L env sh req s = (effects, r, s')"
  shows "r = Stalls \<and> uri_path (req_uri req) = CAUTION_ATTESTATION \<and> relay_enabled (sh_relay sh)
    \<or> (\<exists>resp. r = Done resp \<and> (is_grpc_error 14 resp \<and> unanswered env effects \<or> route_request L env sh req s = (effects, Done resp, s')))"
proof -
  obtain r0 where r0: "route_request L env sh req s = (effects, r0, s')" "r = answered L r0"
    using assms by (auto simp: handle_def split: prod.splits)
  show ?thesis
  proof (cases r0)
    case Stalls
    then have "route_for (uri_path (req_uri req)) = CautionAttestation \<and> relay_enabled (sh_relay sh)"
      using r0(1) by (auto simp: route_request_def local_answer_def proxied_def split: route.splits if_splits prod.splits)
    then have "uri_path (req_uri req) = CAUTION_ATTESTATION \<and> relay_enabled (sh_relay sh)"
      by (auto simp: route_for_def split: if_splits)
    with Stalls r0(2) show ?thesis by simp
  qed (use r0 route_request_failure in \<open>auto simp: GRPC_UNAVAILABLE_def\<close>)
qed

text \<open>
  Two calls that differ only in what the client's transport says of the client: the scheme and
  authority of the URI, and the named headers.
\<close>

definition same_but :: "string list \<Rightarrow> request \<Rightarrow> request \<Rightarrow> bool" where
  "same_but names req req' \<longleftrightarrow> http_method req = http_method req' \<and> req_body req = req_body req'
     \<and> path_and_query (req_uri req) = path_and_query (req_uri req')
     \<and> (\<forall>n. n \<notin> set names \<longrightarrow> req_headers req n = req_headers req' n)"

abbreviation client_names :: "string list" where
  "client_names \<equiv> [''host'', ''x-forwarded-for'', ''x-forwarded-host'', ''x-forwarded-proto'',
     ''x-forwarded-port'', ''x-real-ip'', ''forwarded'', ''via'']"

lemma same_but_body: "same_but names req req' \<Longrightarrow> same_but names (req\<lparr>req_body := b\<rparr>) (req'\<lparr>req_body := b\<rparr>)"
  by (simp add: same_but_def)

lemma stripped_headers:
  "same_but client_names req req' \<Longrightarrow>
     strip_client_address_headers (hdr_remove ''host'' (req_headers req)) =
     strip_client_address_headers (hdr_remove ''host'' (req_headers req'))"
  by (rule ext)
    (auto simp: same_but_def strip_client_address_headers_def client_address_headers_def hdr_remove_def)

lemma forward_request_same_but:
  "same_but client_names req req' \<Longrightarrow> forward_request a req = forward_request a req'"
  using stripped_headers [of req req']
  by (cases req; cases req'; cases "req_uri req"; cases "req_uri req'")
    (simp add: forward_request_def Let_def same_but_def)

lemma bootproofd_request_same_but:
  "same_but client_names req req' \<Longrightarrow> bootproofd_request hv a req = bootproofd_request hv a req'"
  using stripped_headers [of req req']
  by (cases req; cases req') (simp add: bootproofd_request_def Let_def same_but_def split: option.split)

lemma pass_through_same_but:
  "same_but client_names req req' \<Longrightarrow> pass_through env exchange b req st = pass_through env exchange b req' st"
  by (simp add: pass_through_def forward_traced_def forward_def forward_request_same_but [of req req']
      split: prod.split sum.split)

lemma same_but_encoding:
  "same_but client_names req req' \<Longrightarrow> hdr_get (req_headers req) ''grpc-encoding'' = hdr_get (req_headers req') ''grpc-encoding''"
  by (simp add: same_but_def hdr_get_def)

lemma send_transaction_same_but:
  assumes "same_but client_names req req'"
  shows "send_transaction L env b req hub st = send_transaction L env b req' hub st"
proof -
  have "inspect L (req_headers req) = inspect L (req_headers req')"
    by (rule ext) (simp only: inspect_def same_but_encoding [OF assms])
  then show ?thesis
    by (simp add: send_transaction_def Let_def pass_through_same_but [OF same_but_body [OF assms]]
        split: body_read.split prod.split option.split bool.split)
qed

lemma get_transaction_same_but:
  assumes "same_but client_names req req'"
  shows "get_transaction L env b req hub st = get_transaction L env b req' hub st"
proof -
  have "decode_tx_filter L (req_headers req) = decode_tx_filter L (req_headers req')"
    by (rule ext) (simp only: decode_tx_filter_def same_but_encoding [OF assms])
  then show ?thesis 
    by (simp add: get_transaction_def Let_def pass_through_same_but [OF assms] split: body_read.split option.split)
qed

lemma handle_same_but:
  assumes "same_but client_names req req'"
  shows "handle L env sh req s = handle L env sh req' s"
proof -
  have "uri_path (req_uri req) = uri_path (req_uri req')" using assms by (simp add: same_but_def uri_path_def)
  moreover have "proxied L env sh req s = proxied L env sh req' s"
    by (simp add: proxied_def pass_through_same_but [OF assms])
  moreover have "forward_to_bootproofd L (ce_relay env) req a = forward_to_bootproofd L (ce_relay env) req' a" for a
    by (simp add: forward_to_bootproofd_def bootproofd_request_same_but [OF assms])
  ultimately show ?thesis
    by (simp add: handle_def route_request_def send_transaction_same_but [OF assms] get_transaction_same_but [OF assms]
        split: route.split)
qed

lemma serve_requests_same_but:
  "list_all2 (\<lambda>(env, req) (env', req'). env = env' \<and> same_but client_names req req') calls calls' \<Longrightarrow>
     serve_requests L sh calls s = serve_requests L sh calls' s"
proof (induction calls calls' arbitrary: s rule: list_all2_induct)
  case (Cons call calls call' calls')
  then obtain env req req' where "call = (env, req)" "call' = (env, req')" "same_but client_names req req'"
    by (cases call; cases call') auto
  then show ?case by (auto simp: Cons.IH handle_same_but [of req req'] split: prod.split)
qed simp

text \<open>No request that leaves the shim has a client-address header; the indexer's has no \<open>Host\<close> either.\<close>

fun anonymous :: "effect \<Rightarrow> bool" where
  "anonymous (OperatorRequest rq) = (\<forall>n \<in> set client_names. req_headers rq n = None)"
| "anonymous (RelayRequest rq) = (\<forall>n \<in> set (tl client_names). req_headers rq n = None)"
| "anonymous (HubHttp rq) = (\<forall>n \<in> set (tl client_names). req_headers rq n = None)"
| "anonymous _ = True"

lemma stripped: "n \<in> set (tl client_names) \<Longrightarrow> strip_client_address_headers h n = None"
  by (auto simp: strip_client_address_headers_def client_address_headers_def hdr_remove_def)

lemma forward_request_anonymous: "anonymous (OperatorRequest (forward_request a req))"
proof -
  have h: "req_headers (forward_request a req) = strip_client_address_headers (hdr_remove ''host'' (req_headers req))"
    by (simp add: forward_request_def Let_def)
  have "strip_client_address_headers (hdr_remove ''host'' (req_headers req)) ''host'' = None"
    by (simp add: strip_client_address_headers_def client_address_headers_def hdr_remove_def)
  with stripped show ?thesis unfolding anonymous.simps h by simp
qed

lemma pass_through_anonymous:
  assumes e: "e \<in> set (fst (pass_through env exchange b req st))"
  shows "anonymous e"
proof -
  have "e = OperatorDial \<or> (\<exists>a. e = OperatorRequest (forward_request a req))"
    using e by (cases rule: pool_get_cases [of st env b]) (auto simp: pass_through_def forward_traced_def)
  then show ?thesis using forward_request_anonymous by auto
qed

lemma bootproofd_anonymous:
  assumes "bootproofd_request hv a req = Ok rq"
  shows "anonymous (RelayRequest rq)"
proof -
  obtain v where "req_headers rq = hdr_insert ''host'' v (strip_client_address_headers (hdr_remove ''host'' (req_headers req)))"
    using assms by (cases "hv a") (auto simp: bootproofd_request_def Let_def)
  with stripped show ?thesis by (auto simp: hdr_insert_def)
qed

lemma hub_attempt_anonymous: "e \<in> set (fst (hub_attempt L env c path body)) \<Longrightarrow> anonymous e"
  by (drule hub_attempt_effects) (auto simp: hub_request_def hdr_insert_def split: option.splits)

lemma hub_submit_anonymous: "e \<in> set (fst (hub_submit L env hub tx)) \<Longrightarrow> anonymous e"
proof (cases hub)
  case (Http c)
  assume "e \<in> set (fst (hub_submit L env hub tx))"
  with Http have e: "e \<in> set (fst (http_submit L (hub_http env) (hub_nonce env) c tx))"
    by (simp add: hub_submit_def)
  show ?thesis
  proof (cases "encode_submit (hub_nonce env) tx")
    case (Inr frame)
    with e have "e \<in> set (fst (hub_attempt L (hub_http env) c ''/'' frame))"
      by (simp add: http_submit_def split: prod.splits)
    then show ?thesis by (rule hub_attempt_anonymous)
  qed (use e in \<open>simp add: http_submit_def\<close>)
next
  case (Nym h)
  assume "e \<in> set (fst (hub_submit L env hub tx))"
  with Nym show ?thesis by (auto simp: hub_submit_def split: prod.splits)
qed

lemma hub_get_transaction_anonymous: "e \<in> set (fst (hub_get_transaction L env hub h)) \<Longrightarrow> anonymous e"
proof (cases hub)
  case (Http c)
  assume "e \<in> set (fst (hub_get_transaction L env hub h))"
  with Http have "e \<in> set (fst (hub_attempt L (hub_http env) c TRANSACTION_PATH h))"
    by (simp add: hub_get_transaction_def http_get_transaction_def split: prod.splits)
  then show ?thesis by (rule hub_attempt_anonymous)
next
  case (Nym h')
  assume "e \<in> set (fst (hub_get_transaction L env hub h))"
  with Nym show ?thesis by (auto simp: hub_get_transaction_def split: prod.splits)
qed

lemma divert_anonymous: "e \<in> set (fst (divert L env hub td)) \<Longrightarrow> anonymous e"
  using hub_submit_anonymous [of e L env hub "the td"]
  by (auto simp: divert_def split: option.splits prod.splits if_splits)

lemma send_transaction_anonymous:
  assumes e: "e \<in> set (fst (send_transaction L env b req hub st))"
  shows "anonymous e"
proof (cases "env_body env MAX_SEND_TX_BYTES")
  case (Collected frame tr)
  show ?thesis
  proof (cases "hub = None \<or> passes L (req_headers req) frame")
    case True
    from e [unfolded send_transaction_passed [OF Collected this]] show ?thesis by (rule pass_through_anonymous)
  next
    case False
    then obtain h where h: "hub = Some h" "\<not> passes L (req_headers req) frame" by (cases hub) auto
    from e [unfolded h(1) send_transaction_diverted [OF Collected h(2)]]
    show ?thesis using divert_anonymous by (simp split: prod.splits) (metis fst_conv)
  qed
qed (use e in \<open>simp_all add: send_transaction_def\<close>)

lemma get_transaction_anonymous:
  assumes e: "e \<in> set (fst (get_transaction L env b req hub st))"
  shows "anonymous e"
proof (cases hub)
  case None
  with e have "e \<in> set (fst (pass_through (env_dial env) (env_exchange env) b req st))"
    by (simp add: get_transaction_def split: prod.splits)
  then show ?thesis by (rule pass_through_anonymous)
next
  case (Some h)
  with e have "\<exists>f. e \<in> set (fst (hub_get_transaction L (env_hub env) h f))"
    by (auto simp: get_transaction_def Let_def split: body_read.splits sum.splits option.splits prod.splits)
      (metis fst_conv)
  then show ?thesis using hub_get_transaction_anonymous by blast
qed

lemma handle_anonymous:
  assumes "e \<in> set (fst (handle L env sh req s))"
  shows "anonymous e"
proof -
  have prox: "anonymous e" if "e \<in> set (fst (proxied L env sh req s))"
    using that pass_through_anonymous [of e "env_dial (ce_shim env)" "env_exchange (ce_shim env)" "sh_backend sh" req "cs_pool s"]
    by (simp add: proxied_def split: prod.splits)
  have relay: "anonymous e"
    if "e \<in> set (fst (forward_to_bootproofd L (ce_relay env) req (bootproofd_addr (sh_relay sh))))"
    using forward_to_bootproofd_effects [OF that] bootproofd_anonymous by auto
  from assms [unfolded fst_handle] prox relay
    send_transaction_anonymous [of e L "ce_shim env" "sh_backend sh" req "cs_hub s" "cs_pool s"]
    get_transaction_anonymous [of e L "ce_shim env" "sh_backend sh" req "cs_hub s" "cs_pool s"]
  show ?thesis
    by (cases "route_for (uri_path (req_uri req))")
      (auto simp: route_request_def local_answer_def simp del: anonymous.simps split: if_splits prod.splits)
qed

section \<open>Properties\<close>

text \<open>
  C1. The purpose of the shim: with a hub configured, over a whole wallet connection with any
  sequence of requests, whatever fails or stalls, nothing of a migration reaches the operator's
  indexer. A request that spells \<open>SendTransaction\<close> in any case, with any trailing slashes,
  causes a dial or a request to it only when its body is in full one identity-coded unary message of
  a transaction without Orchard actions; a \<open>GetTransaction\<close> never does.
\<close>

theorem no_migration_reaches_the_operator:
  assumes "push_num_bip34 (lib_crypto L)"
    and "i < length calls" "calls ! i = (env, req)" "collects (ce_shim env) req"
    and "serve_connection L sh (Some hub) calls ! i = (effects, r)" "e \<in> set effects" "to_operator e"
  shows "uri_path (req_uri req) \<noteq> GET_TRANSACTION
    \<and> (spells_send_transaction (uri_path (req_uri req)) \<longrightarrow> identity_coded (req_headers req)
         \<and> (\<exists>m raw tx. frame_data (req_body req) = unary_frame m \<and> length m < 2 ^ 32 \<and> decode_raw L m = Ok raw
              \<and> read_transaction (lib_crypto L) (raw_data raw) = Ok (tx, []) \<and> orchard_actions tx = []))"
proof -
  obtain s s' where h: "handle L env sh req s = (effects, r, s')" "cs_hub s = None \<longleftrightarrow> Some hub = None"
    using serve_connection_nth [OF assms(2,3,5)] by blast
  then obtain hub2 where hub2: "cs_hub s = Some hub2" by auto
  note op = handle_operator [OF h(1) hub2 assms(6,7)]
  have "uri_path (req_uri req) \<noteq> GET_TRANSACTION"
    using op(1) by (auto simp: route_for_def path_consts)
  moreover have "identity_coded (req_headers req)
         \<and> (\<exists>m raw tx. frame_data (req_body req) = unary_frame m \<and> length m < 2 ^ 32 \<and> decode_raw L m = Ok raw
              \<and> read_transaction (lib_crypto L) (raw_data raw) = Ok (tx, []) \<and> orchard_actions tx = [])"
    if spells: "spells_send_transaction (uri_path (req_uri req))"
  proof -
    obtain frame tr where f: "env_body (ce_shim env) MAX_SEND_TX_BYTES = Collected frame tr"
        "passes L (req_headers req) frame"
      using op(2) spells intercepted_iff_spells by blast
    from f(1) assms(4) have "frame = frame_data (req_body req)" by (simp add: collects_def)
    with f(2) show ?thesis by (simp add: passes_transaction [OF assms(1)])
  qed
  ultimately show ?thesis by blast
qed


text \<open>
  C8. Every request of a connection is answered, never with a reset. The one exchange without a
  deadline is the attestation relay's, and only it can stall. Every answer is accounted for: it is the
  indexer's own response to a request that was sent to it, with at most \<open>grpc-accept-encoding\<close>
  rewritten; or a gRPC error, in HTTP 200 with no body and the status UNAVAILABLE, which is what an
  internal failure becomes, and is given only when neither the indexer nor the relay responded; or,
  without contacting the indexer, the relay's own response, a gRPC error or (with a hub) a unary gRPC
  message to a call of an intercepted method, or the answer of a local endpoint on its own path, which
  contacts no one: \<open>/healthz\<close> by the health verdict of the moment, \<open>/nym-status\<close> by its report.
\<close>

theorem every_request_is_answered:
  assumes "i < length calls" "calls ! i = (env, req)" "serve_connection L sh hub calls ! i = (effects, r)"
    and "p = uri_path (req_uri req)"
  shows "length (serve_connection L sh hub calls) = length calls
    \<and> (r = Stalls \<and> p = CAUTION_ATTESTATION \<and> relay_enabled (sh_relay sh)
       \<or> (\<exists>resp. r = Done resp
            \<and> (operator_answer (env_exchange (ce_shim env)) effects resp
               \<or> is_grpc_error 14 resp \<and> unanswered env effects
               \<or> (\<forall>e \<in> set effects. \<not> to_operator e)
                 \<and> (p = CAUTION_ATTESTATION \<and> relay_answer (re_exchange (ce_relay env)) effects resp
                    \<or> (spells_send_transaction p \<or> p = GET_TRANSACTION)
                      \<and> intercepted_answer (hub \<noteq> None) resp
                    \<or> effects = [] \<and> (p, resp) \<in> {(CAUTION_HEALTH, caution_health_ok),
                        (SHIM_HEALTH, if is_healthy (ce_status env) then text_response 200 ''ok''
                                      else text_response 503 ''mixnet client not connected''),
                        (SHIM_NYM_STATUS, json_response (to_json (ce_status env))),
                        (SHIM_NYM_DIAG, json_response (diag_json (ce_unix env) (ce_status env)))}))))
    \<and> (p = SHIM_HEALTH \<longrightarrow> effects = []
         \<and> r = Done (if is_healthy (ce_status env) then text_response 200 ''ok''
                     else text_response 503 ''mixnet client not connected''))
    \<and> (p = SHIM_NYM_STATUS \<longrightarrow> effects = [] \<and> r = Done (json_response (to_json (ce_status env))))"
    (is "_ \<and> (_ \<or> (\<exists>resp. _ \<and> ?answer resp)) \<and> _")
proof -
  obtain s s' where h: "handle L env sh req s = (effects, r, s')" "cs_hub s = None \<longleftrightarrow> hub = None"
    using serve_connection_nth [OF assms(1-3)] by blast
  have "length (serve_connection L sh hub calls) = length calls"
    by (simp add: serve_connection_def length_serve_requests)
  moreover have "r = Stalls \<and> p = CAUTION_ATTESTATION \<and> relay_enabled (sh_relay sh) \<or> (\<exists>resp. r = Done resp \<and> ?answer resp)"
    using handle_answers [OF h(1)]
  proof (elim disjE exE conjE)
    fix resp assume "r = Done resp" "route_request L env sh req s = (effects, Done resp, s')"
    from this(1) route_request_answer [OF this(2)] show ?thesis
      unfolding h(2) assms(4) by (elim disjE conjE) simp_all
  qed (simp_all add: assms(4))
  moreover note local_routes [OF h(1), folded assms(4)]
  ultimately show ?thesis by simp
qed

text \<open>
  C7. A shim without a hub, without the relay and with diagnostics closed is a plain reverse proxy on
  every path but its own two endpoints, \<open>/healthz\<close> and \<open>/nym-status\<close>: the trace, the answer and
  the state are those of relaying the wallet's request as it is; a closed diagnostic path is relayed
  like any unknown one. The one exception is a call that spells \<open>SendTransaction\<close>, whose body is
  read first all the same: a body that is collected is relayed with the same data and trailers, regrouped
  into one data frame, while one over \<open>MAX_SEND_TX_BYTES\<close>, broken off or not read in time is refused
  with the gRPC error for it and nothing is contacted.
\<close>

theorem forward_only_shim_is_a_plain_proxy:
  assumes "cs_hub s = None" "\<not> relay_enabled (sh_relay sh)" "\<not> diag_enabled (ce_status env)"
    and "uri_path (req_uri req) \<notin> {SHIM_HEALTH, SHIM_NYM_STATUS}" "collects (ce_shim env) req"
    and "relay = (\<lambda>rq. case proxied L env sh rq s of (effects, r, s') \<Rightarrow> (effects, answered L r, s'))"
    and "refuse = (\<lambda>code why. ([], Done (grpc_error (lib_hv L) code (''zero-indexer-shim: SendTransaction body '' @ why)), s))"
  shows "handle L env sh req s =
    (if \<not> spells_send_transaction (uri_path (req_uri req)) then relay req
     else case env_body (ce_shim env) MAX_SEND_TX_BYTES of
       Collected _ _ \<Rightarrow> relay (req\<lparr>req_body :=
           (if frame_data (req_body req) = [] then [] else [DataFrame (frame_data (req_body req))]) @
           (case frame_trailers (req_body req) of None \<Rightarrow> [] | Some t \<Rightarrow> [TrailersFrame t])\<rparr>)
     | OverLimit \<Rightarrow> refuse 8 ''too large to classify''
     | BodyBroken _ \<Rightarrow> refuse 1 ''could not be read''
     | ReadTimedOut \<Rightarrow> refuse 4 ''read timed out'')"
proof (cases "spells_send_transaction (uri_path (req_uri req))")
  case True
  then have route: "route_for (uri_path (req_uri req)) \<in> {Intercept, InterceptNearMiss}"
    by (simp only: intercepted_iff_spells)
  show ?thesis
  proof (cases "env_body (ce_shim env) MAX_SEND_TX_BYTES")
    case (Collected frame tr)
    with assms(5) have "frame = frame_data (req_body req)" "tr = frame_trailers (req_body req)"
      by (auto simp: collects_def)
    with route_send [OF route, of L env sh s] send_transaction_passed [OF Collected, where diversion = None]
      True Collected assms(1,6)
    show ?thesis by (simp add: handle_def proxied_def replay_frames_new split: prod.split)
  qed (use route_send [OF route, of L env sh s] True assms(7) in
      \<open>simp_all add: handle_def send_transaction_def body_read_failed_def grpc_codes\<close>)
next
  case False
  then have route: "route_for (uri_path (req_uri req)) \<notin> {Intercept, InterceptNearMiss, ShimHealth, ShimNymStatus}"
    using assms(4) intercepted_iff_spells [of "uri_path (req_uri req)"] by (simp add: route_for_shim)
  have "route_request L env sh req s = proxied L env sh req s"
    using route assms(1-3)
    by (cases "route_for (uri_path (req_uri req))")
      (auto simp: route_request_def get_transaction_def proxied_def split: prod.split)
  with False assms(6) show ?thesis by (simp add: handle_def)
qed

text \<open>
  C28. The client's address leaves no trace. Two wallet connections whose calls differ only in the
  scheme and authority of the URI, in \<open>Host\<close> and in the headers a proxy before the shim would say
  the client's address with have the same effects and the same answers, whatever else they carry and
  whatever the indexer, the relay and the hub do with what they are sent; and no request that leaves
  the shim for any of the three has one of those headers.
\<close>

theorem client_address_leaves_no_trace:
  assumes "list_all2 (\<lambda>(env, req) (env', req'). env = env' \<and> http_method req = http_method req'
       \<and> req_body req = req_body req' \<and> path_and_query (req_uri req) = path_and_query (req_uri req')
       \<and> (\<forall>n. n \<notin> {''host'', ''x-forwarded-for'', ''x-forwarded-host'', ''x-forwarded-proto'',
              ''x-forwarded-port'', ''x-real-ip'', ''forwarded'', ''via''} \<longrightarrow> req_headers req n = req_headers req' n))
     calls calls'"
  shows "serve_connection L sh hub calls = serve_connection L sh hub calls'
    \<and> (\<forall>effects r rq. (effects, r) \<in> set (serve_connection L sh hub calls) \<longrightarrow>
         {OperatorRequest rq, RelayRequest rq, HubHttp rq} \<inter> set effects \<noteq> {} \<longrightarrow>
           (\<forall>n \<in> {''x-forwarded-for'', ''x-forwarded-host'', ''x-forwarded-proto'',
                 ''x-forwarded-port'', ''x-real-ip'', ''forwarded'', ''via''}. req_headers rq n = None)
           \<and> (OperatorRequest rq \<in> set effects \<longrightarrow> req_headers rq ''host'' = None))"
proof -
  have "list_all2 (\<lambda>(env, req) (env', req'). env = env' \<and> same_but client_names req req') calls calls'"
    using assms by (simp add: same_but_def)
  then have "serve_connection L sh hub calls = serve_connection L sh hub calls'"
    unfolding serve_connection_def by (rule serve_requests_same_but)
  moreover have anon: "anonymous e" if mem: "(effects, r) \<in> set (serve_connection L sh hub calls)" "e \<in> set effects" for effects r e
  proof -
    obtain i where i: "i < length calls" "serve_connection L sh hub calls ! i = (effects, r)"
      using mem(1) length_serve_requests [of L sh calls] by (auto simp: in_set_conv_nth serve_connection_def)
    obtain env req where c: "calls ! i = (env, req)" by (rule prod.exhaust)
    obtain s s' where "handle L env sh req s = (effects, r, s')"
      by (rule serve_connection_nth [OF i(1) c i(2)])
    with mem(2) handle_anonymous [of e L env sh req s] show ?thesis by simp
  qed
  have "req_headers rq n = None"
    if mem: "(effects, r) \<in> set (serve_connection L sh hub calls)"
      "{OperatorRequest rq, RelayRequest rq, HubHttp rq} \<inter> set effects \<noteq> {}" "n \<in> set (tl client_names)"
    for effects r rq n
  proof -
    obtain e where e: "e \<in> set effects" "e = OperatorRequest rq \<or> e = RelayRequest rq \<or> e = HubHttp rq"
      using mem(2) by blast
    from anon [OF mem(1) e(1)] e(2) mem(3) show ?thesis by auto
  qed
  moreover have "req_headers rq ''host'' = None"
    if "(effects, r) \<in> set (serve_connection L sh hub calls)" "OperatorRequest rq \<in> set effects" for effects r rq
    using anon [OF that] by simp
  ultimately show ?thesis by (simp del: Int_insert_left)
qed

section \<open>Witnesses\<close>

definition demo_call_at :: "string \<Rightarrow> proxy_body \<Rightarrow> request" where
  "demo_call_at p body = demo_call\<lparr>req_uri := \<lparr>scheme = None, authority = Some ''shim'', path_and_query = Some p\<rparr>,
     req_body := body\<rparr>"

definition demo_conn :: "bytes \<Rightarrow> conn_env" where
  "demo_conn b = \<lparr>ce_shim = \<lparr>env_body = (\<lambda>n. if length b \<le> n then Collected b None else OverLimit),
       env_dial = demo_dial\<lparr>de_connect := Done ()\<rparr>, env_exchange = (\<lambda>rq. ExchangeTimedOut), env_hub = demo_hub_env\<rparr>,
     ce_relay = \<lparr>re_connect = Stalls, re_handshake = Stalls, re_exchange = (\<lambda>rq. Stalls)\<rparr>,
     ce_unix = 0, ce_status = mixnet_status_default\<rparr>"

definition demo_shim :: shim where
  "demo_shim = \<lparr>sh_backend = demo_backend, sh_relay = \<lparr>relay_enabled = False, bootproofd_addr = ''''\<rparr>\<rparr>"

lemma demo_body: "req_body (demo_call_at p body) = body"
  by (simp add: demo_call_at_def)

lemma demo_collects: "collects (ce_shim (demo_conn b)) (demo_call_at p [DataFrame b])"
  by (simp add: collects_def demo_conn_def demo_call_at_def)

lemma demo_pass_through:
  "pass_through (env_dial (ce_shim (demo_conn b))) (env_exchange (ce_shim (demo_conn b))) demo_backend req pool_state_default
   = ([OperatorDial, OperatorRequest (forward_request ''10.0.0.1:443'' req)],
      Err ''backing indexer accepted the request but sent no response headers'',
      \<lparr>live = Some \<lparr>up_conn = 1, up_authority = ''10.0.0.1:443''\<rparr>, backoff_until = None\<rparr>)"
  by (simp add: pass_through_def pool_get_def pool_redial_def pool_state_default_def upstream_connect_def tbind_def tdone_def teffect_def
      tstage_def demo_conn_def demo_dial_def demo_backend_def backend_authority_def forward_traced_def forward_def)

definition demo_passing :: bytes where
  "demo_passing = [0, 0, 0, 0, 10, 1, 0, 0, 0, 0, 0, 0, 0, 0, 0]"

lemma demo_passes: "passes demo_libs hs demo_passing" if "identity_coded hs"
proof -
  have "demo_passing = unary_frame [1, 0, 0, 0, 0, 0, 0, 0, 0, 0]"
  proof -
    have "be_of_nat (Suc (Suc (Suc (Suc 0)))) 10 = [0, 0, 0, 10]" by simp
    moreover have "Suc (Suc (Suc (Suc 0))) = 4" by simp
    ultimately have "be_of_nat 4 10 = [0, 0, 0, 10]" by (simp only:)
    moreover have "length [1, 0, 0, 0, 0, 0, 0, 0, 0, 0 :: byte] = 10" by simp
    ultimately show ?thesis by (simp only: demo_passing_def unary_frame_def append.simps)
  qed
  moreover have "read_transaction demo_crypto [1, 0, 0, 0, 0, 0, 0, 0, 0, 0] = Ok (V1 [] [] (LockHeight (Height 0)), [])"
    using demo_reads [of "[]"] by simp
  moreover have "push_num_bip34 (lib_crypto demo_libs)" by (simp add: demo_libs_def demo_bip34)
  ultimately show ?thesis
    using that
    by (simp add: passes_transaction, simp add: demo_libs_def)
      (rule exI [of _ "[1, 0, 0, 0, 0, 0, 0, 0, 0, 0]"], auto simp: orchard_actions_def)
qed

theorem no_migration_reaches_the_operator_witness:
  "\<exists>m raw tx. frame_data [DataFrame demo_passing] = unary_frame m \<and> decode_raw demo_libs m = Ok raw
     \<and> read_transaction (lib_crypto demo_libs) (raw_data raw) = Ok (tx, []) \<and> orchard_actions tx = []"
proof -
  let ?req = "demo_call_at SEND_TRANSACTION [DataFrame demo_passing]" and ?hub = "Nym (nym_handle_new 9 5 2)"
  have path: "uri_path (req_uri ?req) = SEND_TRANSACTION"
    by (simp add: uri_path_def demo_call_at_def path_consts)
  then have route: "route_for (uri_path (req_uri ?req)) = Intercept" by (simp add: route_for_def)
  have body: "env_body (ce_shim (demo_conn demo_passing)) MAX_SEND_TX_BYTES = Collected demo_passing None"
    by (simp add: demo_conn_def demo_passing_def MAX_SEND_TX_BYTES_def)
  have "identity_coded (req_headers ?req)" by (simp add: identity_coded_def demo_call_at_def demo_call_def)
  then have run: "OperatorDial \<in> set (fst (serve_connection demo_libs demo_shim (Some ?hub) [(demo_conn demo_passing, ?req)] ! 0))"
    using send_transaction_passed [OF body, of "Some ?hub" demo_libs ?req demo_backend pool_state_default] demo_passes
    by (simp add: serve_connection_def fst_handle handle_def route_request_def route demo_shim_def demo_pass_through
        split: prod.splits)
  obtain effects r where s: "serve_connection demo_libs demo_shim (Some ?hub) [(demo_conn demo_passing, ?req)] ! 0 = (effects, r)"
    by (rule prod.exhaust)
  have "push_num_bip34 (lib_crypto demo_libs)" by (simp add: demo_libs_def demo_bip34)
  from no_migration_reaches_the_operator [OF this _ _ demo_collects [of demo_passing SEND_TRANSACTION] s,
      where e = OperatorDial] run s path send_transaction_spells demo_body [of SEND_TRANSACTION "[DataFrame demo_passing]"]
  show ?thesis by auto
qed

lemma demo_relayed:
  "serve_connection demo_libs demo_shim None [(demo_conn [7], demo_call_at ''/x'' [DataFrame [7]])] ! 0 =
     ([OperatorDial, OperatorRequest (forward_request ''10.0.0.1:443'' (demo_call_at ''/x'' [DataFrame [7]]))],
      Done (grpc_error Some GRPC_UNAVAILABLE
        ''zero-indexer-shim: backing indexer accepted the request but sent no response headers''))"
proof -
  have "uri_path (req_uri (demo_call_at ''/x'' [DataFrame [7]])) = ''/x''"
    by (simp add: uri_path_def demo_call_at_def)
  moreover have "route_for ''/x'' = route.PassThrough"
    by (simp add: route_for_def path_consts last_segment_def trim_end_slashes_def eq_ignore_ascii_case_def)
  ultimately show ?thesis
    by (simp add: serve_connection_def handle_def route_request_def proxied_def demo_shim_def demo_pass_through)
      (simp add: demo_libs_def)
qed


theorem every_request_is_answered_witness:
  "\<exists>resp. snd (serve_connection demo_libs demo_shim None [(demo_conn [7], demo_call_at ''/x'' [DataFrame [7]])] ! 0) = Done resp
     \<and> is_grpc_error 14 resp"
  using every_request_is_answered [OF _ _ demo_relayed refl] demo_relayed
  by (auto simp: operator_answer_def demo_conn_def)

theorem forward_only_shim_is_a_plain_proxy_witness:
  "fst (handle demo_libs (demo_conn [7]) demo_shim (demo_call_at ''/SendTransaction//'' [DataFrame [7]])
      \<lparr>cs_pool = pool_state_default, cs_hub = None\<rparr>) \<noteq> []"
proof -
  let ?req = "demo_call_at ''/SendTransaction//'' [DataFrame [7]]"
  have path: "uri_path (req_uri ?req) = ''/SendTransaction//''" by (simp add: uri_path_def demo_call_at_def)
  have "env_body (ce_shim (demo_conn [7])) MAX_SEND_TX_BYTES = Collected [7] None"
    by (simp add: demo_conn_def MAX_SEND_TX_BYTES_def)
  with forward_only_shim_is_a_plain_proxy [OF _ _ _ _ demo_collects refl refl,
      of "\<lparr>cs_pool = pool_state_default, cs_hub = None\<rparr>" demo_shim "[7]" "''/SendTransaction//''" demo_libs]
  show ?thesis
    by (simp add: path path_consts demo_shim_def demo_conn_def mixnet_status_default_def diag_enabled_def
        proxied_def demo_pass_through [unfolded demo_conn_def, simplified])
qed

theorem client_address_leaves_no_trace_witness:
  "serve_connection demo_libs demo_shim None [(demo_conn [7], demo_call_at ''/x'' [DataFrame [7]])]
   = serve_connection demo_libs demo_shim None [(demo_conn [7],
       demo_call_at ''/x'' [DataFrame [7]]\<lparr>req_headers := (req_headers (demo_call_at ''/x'' [DataFrame [7]]))
         (''x-forwarded-for'' \<mapsto> [''203.0.113.9''], ''via'' \<mapsto> [''1.1 edge''])\<rparr>)]"
  by (rule client_address_leaves_no_trace [THEN conjunct1]) simp

end
