(* ===== verification/Startup.thy ===== *)
theory Startup
  imports Proxy Supervisor
begin

text \<open>
  From the configuration to a running shim (\<open>zeronym/shim/src/config.rs\<close>,
  \<open>main.rs\<close> and the names of \<open>tls.rs\<close>): which transport carries diversions, and what
  the process is built from. Parsing the command line is left to clap, certificates to rustls.
\<close>

section \<open>Configuration\<close>

record socket_addr =
  sa_ip :: string
  sa_port :: nat

definition display_socket_addr :: "socket_addr \<Rightarrow> string" where
  "display_socket_addr a = sa_ip a @ '':'' @ show_nat (sa_port a)"

record config =
  cfg_listen :: socket_addr
  cfg_backend :: socket_addr
  backend_tls :: "string option"
  hub_addr :: "socket_addr option"
  hub_tls :: "string option"
  hub_nym :: "string list"
  require_diversion :: bool
  nym_rotation_secs :: "nat option"
  nym_topology :: "string option"
  nym_gateway :: "string list"
  lookup_timeout_secs :: "nat option"
  cfg_diag :: bool
  tls_domain :: "string option"
  caution_attestation :: bool
  caution_bootproofd_addr :: string

datatype hub_choice = ForwardOnly | HttpHub socket_addr | NymHubs "string list"

datatype config_error =
    BothTransports
  | MalformedNymAddress string
  | DuplicateNymAddress string
  | DiversionRequired

fun display_config_error :: "config_error \<Rightarrow> string" where
  "display_config_error BothTransports =
     ''--hub and --hub-nym are mutually exclusive: set exactly one transport''"
| "display_config_error (MalformedNymAddress addr) =
     ''--hub-nym entry is not a Nym address of the form identity.encryption@gateway: '' @ addr"
| "display_config_error (DuplicateNymAddress addr) = ''--hub-nym lists the same address twice: '' @ addr"
| "display_config_error DiversionRequired =
     ''--require-diversion is set but no hub transport is configured: this shim would forward every migration ''
     @ ''to the operator''
     @ [CHR 0x27] @ ''s indexer while appearing healthy. Set --hub (clearnet) or --hub-nym (mixnet), or drop ''
     @ ''--require-diversion to run deliberately in forward-only mode.''"

text \<open>\<open>char::is_whitespace\<close> on the code points below 256, and \<open>str::trim\<close>, \<open>split_once\<close>.\<close>

definition is_whitespace :: "char \<Rightarrow> bool" where
  "is_whitespace c = (let n = (of_char c :: nat) in (9 \<le> n \<and> n \<le> 13) \<or> n \<in> {32, 0x85, 0xA0})"

definition str_trim :: "string \<Rightarrow> string" where
  "str_trim s = rev (dropWhile is_whitespace (rev (dropWhile is_whitespace s)))"

definition split_once :: "char \<Rightarrow> string \<Rightarrow> (string \<times> string) option" where
  "split_once c s =
     (if c \<in> set s then Some (takeWhile (\<lambda>x. x \<noteq> c) s, tl (dropWhile (\<lambda>x. x \<noteq> c) s)) else None)"

definition is_nym_address :: "string \<Rightarrow> bool" where
  "is_nym_address addr =
     (case split_once (CHR ''@'') addr of
        None \<Rightarrow> False
      | Some (keys, gateway) \<Rightarrow>
          (case split_once (CHR ''.'') keys of
             None \<Rightarrow> False
           | Some (identity, encryption) \<Rightarrow>
               gateway \<noteq> [] \<and> identity \<noteq> [] \<and> encryption \<noteq> []
               \<and> CHR ''@'' \<notin> set gateway \<and> CHR ''.'' \<notin> set encryption))"

text \<open>The loop over the addresses, with those seen.\<close>

fun check_addresses :: "string list \<Rightarrow> string list \<Rightarrow> (config_error, unit) result" where
  "check_addresses seen [] = Ok ()"
| "check_addresses seen (addr # rest) =
     (if \<not> is_nym_address addr then Err (MalformedNymAddress addr)
      else if addr \<in> set seen then Err (DuplicateNymAddress addr)
      else check_addresses (seen @ [addr]) rest)"

definition nym_addresses :: "config \<Rightarrow> string list" where
  "nym_addresses c = filter (\<lambda>a. a \<noteq> []) (map str_trim (hub_nym c))"

definition hub_selection :: "config \<Rightarrow> (config_error, hub_choice) result" where
  "hub_selection c =
     (let addresses = nym_addresses c
      in case (hub_addr c, addresses = []) of
           (Some _, False) \<Rightarrow> Err BothTransports
         | (Some addr, True) \<Rightarrow> Ok (HttpHub addr)
         | (None, True) \<Rightarrow> if require_diversion c then Err DiversionRequired else Ok ForwardOnly
         | (None, False) \<Rightarrow> result_bind (check_addresses [] addresses) (\<lambda>_. Ok (NymHubs addresses)))"

section \<open>TLS names\<close>

datatype server_name = DnsName string | OtherName string

record tls_recipe =
  tr_name :: server_name
  tr_alpn :: string

definition ALPN_H2 :: string where "ALPN_H2 = ''h2''"
definition ALPN_HTTP11 :: string where "ALPN_HTTP11 = ''http/1.1''"

text \<open>\<open>BackendTls::with_alpn\<close>; parsing a name is rustls'. The error quotes the name with \<open>Debug\<close>.\<close>

definition with_alpn ::
    "(string \<Rightarrow> server_name option) \<Rightarrow> (string \<Rightarrow> string) \<Rightarrow> string \<Rightarrow> string \<Rightarrow> (string, tls_recipe) result" where
  "with_alpn parse quoted sni_name alpn =
     (case parse sni_name of
        None \<Rightarrow> Err (''invalid backend TLS name '' @ quoted sni_name)
      | Some n \<Rightarrow> Ok \<lparr>tr_name = n, tr_alpn = alpn\<rparr>)"

definition tls_authority :: "tls_recipe \<Rightarrow> nat \<Rightarrow> string" where
  "tls_authority t port =
     (let name = (case tr_name t of DnsName n \<Rightarrow> n | OtherName shown \<Rightarrow> shown)
      in if port = 443 then name else name @ '':'' @ show_nat port)"

section \<open>Starting\<close>

text \<open>
  The features the binary was built with, what rustls and the SDK make of names and addresses, and
  whether the socket binds.
\<close>

record start_env =
  se_mixnet_driver :: bool
  se_mixnet_localnet :: bool
  se_server_name :: "string \<Rightarrow> server_name option"
  se_quoted :: "string \<Rightarrow> string"
  se_bind :: "(string, unit) result"
  se_recipient :: "string \<Rightarrow> (string, string) result"
  se_unix :: u64

datatype mixnet_network = DefaultNetwork | TopologyFile string

record driver_plan =
  dp_network :: mixnet_network
  dp_gateways :: "string list"
  dp_recipients :: "string list"
  dp_rotation :: rotation_policy
  dp_lookup_timeout :: nat

record launched =
  la_shim :: shim
  la_hub :: "hub_transport option"
  la_status :: mixnet_status
  la_driver :: "driver_plan option"

definition optional_tls :: "start_env \<Rightarrow> string \<Rightarrow> string option \<Rightarrow> (string, tls_recipe option) result" where
  "optional_tls env alpn name =
     (case name of
        None \<Rightarrow> Ok None
      | Some n \<Rightarrow> result_bind (with_alpn (se_server_name env) (se_quoted env) n alpn) (\<lambda>t. Ok (Some t)))"

fun collect_results :: "('e, 'a) result list \<Rightarrow> ('e, 'a list) result" where
  "collect_results [] = Ok []"
| "collect_results (r # rs) = result_bind r (\<lambda>x. result_bind (collect_results rs) (\<lambda>xs. Ok (x # xs)))"

definition lookup_timeout_of :: "config \<Rightarrow> nat" where
  "lookup_timeout_of c = (case lookup_timeout_secs c of Some s \<Rightarrow> s * 1000 | None \<Rightarrow> REQUEST_TIMEOUT)"

definition rotation_of :: "config \<Rightarrow> rotation_policy" where
  "rotation_of c =
     (case nym_rotation_secs c of
        Some secs \<Rightarrow> (policy_every (secs * 1000))\<lparr>defer_limit := lookup_timeout_of c\<rparr>
      | None \<Rightarrow> policy_never)"

definition build_nym_transport ::
    "start_env \<Rightarrow> config \<Rightarrow> string list \<Rightarrow> (string, hub_transport \<times> driver_plan) result" where
  "build_nym_transport env c addresses =
     result_bind (collect_results (map (se_recipient env) addresses)) (\<lambda>recipients.
     result_bind (case nym_topology c of
         None \<Rightarrow> Ok DefaultNetwork
       | Some path \<Rightarrow> if se_mixnet_localnet env then Ok (TopologyFile path)
                      else Err ''--nym-topology requires a build with the mixnet-localnet feature'') (\<lambda>network.
     Ok (Nym (nym_handle_new (lookup_timeout_of c) SUBMIT_DISPATCH_TIMEOUT 0),
         \<lparr>dp_network = network, dp_gateways = nym_gateway c, dp_recipients = recipients,
          dp_rotation = rotation_of c, dp_lookup_timeout = lookup_timeout_of c\<rparr>)))"

definition nym_diversion ::
    "start_env \<Rightarrow> config \<Rightarrow> string list \<Rightarrow> (string, hub_transport \<times> driver_plan) result" where
  "nym_diversion env c addresses =
     (if se_mixnet_driver env then build_nym_transport env c addresses
      else Err (''--hub-nym is set ('' @ show_nat (length addresses)
        @ '' address(es)) but this binary was built WITHOUT the mixnet-driver feature; rebuild with ''
        @ ''--features mixnet-driver, or use --hub for the transitional clearnet path''))"

definition select_diversion ::
    "start_env \<Rightarrow> config \<Rightarrow> hub_choice \<Rightarrow> (string, hub_transport option \<times> driver_plan option) result" where
  "select_diversion env c sel =
     (case sel of
        HttpHub addr \<Rightarrow>
          result_bind (optional_tls env ALPN_HTTP11 (hub_tls c)) (\<lambda>tls.
            Ok (Some (Http (hub_client_new (display_socket_addr addr)
                  (map_option (\<lambda>t. tls_authority t (sa_port addr)) tls))), None))
      | NymHubs addresses \<Rightarrow>
          result_bind (nym_diversion env c addresses) (\<lambda>(hub, plan). Ok (Some hub, Some plan))
      | ForwardOnly \<Rightarrow> Ok (None, None))"

text \<open>
  \<open>main\<close> up to the accept loop; ACME for the wallet side is started in the background and
  cannot fail here.
\<close>

definition start :: "start_env \<Rightarrow> config \<Rightarrow> (string, launched) result" where
  "start env c =
     result_bind (optional_tls env ALPN_H2 (backend_tls c)) (\<lambda>tls.
     result_bind (se_bind env) (\<lambda>_.
     let status = (if cfg_diag c then enable_diag mixnet_status_default else mixnet_status_default)
     in result_bind (map_err display_config_error (hub_selection c)) (\<lambda>sel.
        result_bind (select_diversion env c sel) (\<lambda>(hub, plan).
        Ok \<lparr>la_shim =
              \<lparr>sh_backend = \<lparr>be_addr = display_socket_addr (cfg_backend c),
                  be_tls_authority = map_option (\<lambda>t. tls_authority t (sa_port (cfg_backend c))) tls\<rparr>,
               sh_relay = \<lparr>relay_enabled = caution_attestation c, bootproofd_addr = caution_bootproofd_addr c\<rparr>\<rparr>,
            la_hub = hub, la_status = status, la_driver = plan\<rparr>))))"

section \<open>What is selected\<close>

lemma str_trim_Nil: "str_trim s = [] \<longleftrightarrow> list_all is_whitespace s"
proof -
  have "set s = set (takeWhile is_whitespace s) \<union> set (dropWhile is_whitespace s)"
    by (metis set_append takeWhile_dropWhile_id)
  then have "(\<forall>x \<in> set (dropWhile is_whitespace s). is_whitespace x) \<longleftrightarrow> (\<forall>x \<in> set s. is_whitespace x)"
    using set_takeWhileD [of _ is_whitespace s] by blast
  then show ?thesis by (simp add: str_trim_def list_all_iff)
qed

lemma nym_addresses_Nil: "nym_addresses c = [] \<longleftrightarrow> list_all (list_all is_whitespace) (hub_nym c)"
  by (auto simp: nym_addresses_def filter_empty_conv str_trim_Nil list_all_iff)

lemma check_addresses_iff:
  "check_addresses seen as = Ok u \<longleftrightarrow> list_all is_nym_address as \<and> distinct as \<and> set as \<inter> set seen = {}"
  by (induction as arbitrary: seen) auto

lemma hub_selection_iff:
  "hub_selection c = Ok ForwardOnly \<longleftrightarrow> hub_addr c = None \<and> nym_addresses c = [] \<and> \<not> require_diversion c"
  "hub_selection c = Ok (HttpHub a) \<longleftrightarrow> hub_addr c = Some a \<and> nym_addresses c = []"
  "hub_selection c = Ok (NymHubs as) \<longleftrightarrow> hub_addr c = None \<and> as = nym_addresses c \<and> as \<noteq> []
     \<and> list_all is_nym_address as \<and> distinct as"
  using check_addresses_iff [of "[]" "nym_addresses c" "()"]
  by (auto simp: hub_selection_def Let_def result_bind_Ok_iff split: option.splits bool.splits if_splits)

lemma collect_results_Ok: "collect_results rs = Ok xs \<longleftrightarrow> rs = map Ok xs"
  by (induction rs arbitrary: xs) (auto simp: result_bind_Ok_iff)

lemma rotation_spares_lookups:
  "period (rotation_of c) \<noteq> None \<Longrightarrow> lookup_timeout_of c \<le> effective_defer_limit (rotation_of c)"
  by (auto simp: rotation_of_def effective_defer_limit_def policy_never_def split: option.splits)

lemma start_Ok:
  assumes "start env c = Ok l"
  obtains sel where "hub_selection c = Ok sel" "select_diversion env c sel = Ok (la_hub l, la_driver l)"
    "la_status l = (if cfg_diag c then enable_diag mixnet_status_default else mixnet_status_default)"
    "sh_relay (la_shim l) = \<lparr>relay_enabled = caution_attestation c, bootproofd_addr = caution_bootproofd_addr c\<rparr>"
  using assms
  by (auto simp: start_def result_bind_Ok_iff Let_def)

section \<open>Properties\<close>

text \<open>
  C9. A shim that starts runs the transport its configuration names, and only that one: it forwards
  everything exactly when no hub is configured, blank entries not counting, and never when diversion is
  required; with both transports configured, an address that is malformed or listed twice, or a mixnet
  hub the binary cannot drive it does not start. Over the mixnet every address in the list is one of
  the driver's recipients, in order, and a scheduled rotation waits for at least the lookup budget.
\<close>

theorem startup_honours_the_configuration:
  assumes "start env c = Ok l"
  shows "(la_hub l = None \<longleftrightarrow> hub_addr c = None \<and> list_all (list_all is_whitespace) (hub_nym c))
    \<and> (require_diversion c \<longrightarrow> la_hub l \<noteq> None)
    \<and> (\<forall>a. hub_addr c = Some a \<longrightarrow> nym_addresses c = [] \<and> la_driver l = None
         \<and> (\<exists>client. la_hub l = Some (Http client) \<and> hc_addr client = display_socket_addr a
              \<and> hc_tls client = (hub_tls c \<noteq> None)))
    \<and> (nym_addresses c \<noteq> [] \<longrightarrow> se_mixnet_driver env \<and> distinct (nym_addresses c)
         \<and> list_all is_nym_address (nym_addresses c)
         \<and> (\<exists>h plan. la_hub l = Some (Nym h) \<and> la_driver l = Some plan
              \<and> map (se_recipient env) (nym_addresses c) = map Ok (dp_recipients plan)
              \<and> nh_timeout h = dp_lookup_timeout plan
              \<and> (period (dp_rotation plan) \<noteq> None \<longrightarrow> nh_timeout h \<le> effective_defer_limit (dp_rotation plan))))
    \<and> (diag_enabled (la_status l) \<longleftrightarrow> cfg_diag c)"
proof -
  obtain sel where s: "hub_selection c = Ok sel" "select_diversion env c sel = Ok (la_hub l, la_driver l)"
    "la_status l = (if cfg_diag c then enable_diag mixnet_status_default else mixnet_status_default)"
    using start_Ok [OF assms] by blast
  have diag: "diag_enabled (la_status l) \<longleftrightarrow> cfg_diag c"
    using s(3) by (simp add: diag_enabled_def enable_diag_def mixnet_status_default_def)
  show ?thesis
  proof (cases sel)
    case ForwardOnly
    with s(1) have "hub_addr c = None" "nym_addresses c = []" "\<not> require_diversion c"
      by (simp_all add: hub_selection_iff)
    with ForwardOnly s(2) diag show ?thesis by (simp add: select_diversion_def flip: nym_addresses_Nil)
  next
    case (HttpHub a)
    with s(1) have c: "hub_addr c = Some a" "nym_addresses c = []" by (simp_all add: hub_selection_iff)
    from HttpHub s(2) obtain tls where tls: "optional_tls env ALPN_HTTP11 (hub_tls c) = Ok tls" "la_driver l = None"
        "la_hub l = Some (Http (hub_client_new (display_socket_addr a) (map_option (\<lambda>t. tls_authority t (sa_port a)) tls)))"
      by (auto simp: select_diversion_def result_bind_Ok_iff)
    moreover have "tls = None \<longleftrightarrow> hub_tls c = None"
      using tls(1) by (auto simp: optional_tls_def result_bind_Ok_iff split: option.splits)
    ultimately have "\<exists>client. la_hub l = Some (Http client)
        \<and> hc_addr client = display_socket_addr a \<and> hc_tls client = (hub_tls c \<noteq> None)"
      by (simp add: hub_client_new_def)
    with tls(2) c diag show ?thesis by auto
  next
    case (NymHubs as)
    have c: "hub_addr c = None" "as = nym_addresses c" "as \<noteq> []" "list_all is_nym_address as" "distinct as"
      using s(1) unfolding NymHubs hub_selection_iff by blast+
    from NymHubs s(2) obtain h plan where h: "nym_diversion env c as = Ok (h, plan)" "la_hub l = Some h" "la_driver l = Some plan"
      by (auto simp: select_diversion_def result_bind_Ok_iff)
    from h(1) have "se_mixnet_driver env" "map (se_recipient env) as = map Ok (dp_recipients plan)"
      "h = Nym (nym_handle_new (lookup_timeout_of c) SUBMIT_DISPATCH_TIMEOUT 0)"
      "dp_rotation plan = rotation_of c" "dp_lookup_timeout plan = lookup_timeout_of c"
      by (auto simp: nym_diversion_def build_nym_transport_def collect_results_Ok result_bind_Ok_iff
          split: if_splits)
    with c h(2,3) diag rotation_spares_lookups [of c] show ?thesis
      by (simp add: nym_handle_new_def flip: nym_addresses_Nil)
  qed
qed

definition demo_config :: config where
  "demo_config = \<lparr>cfg_listen = \<lparr>sa_ip = ''127.0.0.1'', sa_port = 9068\<rparr>, cfg_backend = \<lparr>sa_ip = ''127.0.0.1'', sa_port = 9067\<rparr>,
     backend_tls = None, hub_addr = None, hub_tls = None, hub_nym = ['' i.e@g '', ''''], require_diversion = True,
     nym_rotation_secs = Some 60, nym_topology = None, nym_gateway = [], lookup_timeout_secs = Some 300,
     cfg_diag = False, tls_domain = None, caution_attestation = True, caution_bootproofd_addr = DEFAULT_BOOTPROOFD_ADDR\<rparr>"

definition demo_start :: start_env where
  "demo_start = \<lparr>se_mixnet_driver = True, se_mixnet_localnet = False, se_server_name = (\<lambda>n. Some (DnsName n)),
     se_quoted = id, se_bind = Ok (), se_recipient = Ok, se_unix = 0\<rparr>"

theorem startup_honours_the_configuration_witness:
  "\<exists>l h plan. start demo_start demo_config = Ok l \<and> la_hub l = Some (Nym h) \<and> la_driver l = Some plan
     \<and> dp_recipients plan = [''i.e@g''] \<and> nh_timeout h = 300000"
proof -
  have a: "nym_addresses demo_config = [''i.e@g'']"
    by (simp add: nym_addresses_def demo_config_def str_trim_def is_whitespace_def)
  have "hub_selection demo_config = Ok (NymHubs [''i.e@g''])"
    unfolding hub_selection_iff a
    by (simp add: demo_config_def is_nym_address_def split_once_def)
  then have "\<exists>l. start demo_start demo_config = Ok l"
    by (simp add: start_def optional_tls_def select_diversion_def nym_diversion_def
        build_nym_transport_def demo_start_def) (simp add: demo_config_def)
  then obtain l where l: "start demo_start demo_config = Ok l" by blast
  have "dp_lookup_timeout plan = 300000" if "la_driver l = Some plan" for plan
    using l that \<open>hub_selection demo_config = Ok (NymHubs [''i.e@g''])\<close>
    by (auto simp: start_def optional_tls_def select_diversion_def nym_diversion_def
        build_nym_transport_def demo_start_def lookup_timeout_of_def split: sum.splits option.splits if_splits)
      (auto simp: demo_config_def)
  with startup_honours_the_configuration [OF l] l a show ?thesis
    by (auto simp: demo_start_def)
qed

end
