(* ===== verification/Tls.thy ===== *)
theory Tls
  imports Startup
begin

text \<open>
  TLS on both hops (\<open>zeronym/shim/src/tls.rs\<close>) and what the accept loop of \<open>proxy.rs\<close> does with an
  accepted connection: which configuration a handshake gets, that the certificate authority's
  validation is answered and closed, and that nothing is served in the clear when TLS is
  configured. The handshakes, the ACME client and the trusted roots are parameters.
\<close>

section \<open>The wallet side\<close>

text \<open>Where the certificates of a configuration come from: the ACME resolver, or its challenges.\<close>

datatype certificate_source = AcmeResolver | AcmeChallenges

record server_config =
  sc_certificates :: certificate_source
  sc_alpn :: "string list"
  sc_client_auth :: bool

record acme_order =
  ao_domains :: "string list"
  ao_cached :: bool
  ao_production :: bool
  ao_contacts :: "string list"

record server_tls =
  st_serving :: server_config
  st_challenge :: server_config
  st_domain :: string

text \<open>
  \<open>ServerTls::start\<close>: what is ordered, and the two configurations; that of the challenges is
  \<open>rustls-acme\<close>'s.
\<close>

definition server_tls_start ::
    "server_config \<Rightarrow> string \<Rightarrow> string option \<Rightarrow> bool \<Rightarrow> acme_order \<times> server_tls" where
  "server_tls_start challenge domain contact_email production =
     (let order = \<lparr>ao_domains = [domain], ao_cached = False, ao_production = production, ao_contacts = []\<rparr>;
          order = (case contact_email of
                     Some email \<Rightarrow> order\<lparr>ao_contacts := ao_contacts order @ [''mailto:'' @ email]\<rparr>
                   | None \<Rightarrow> order);
          serving = \<lparr>sc_certificates = AcmeResolver, sc_alpn = [], sc_client_auth = False\<rparr>;
          serving = serving\<lparr>sc_alpn := [ALPN_H2]\<rparr>
      in (order, \<lparr>st_serving = serving, st_challenge = challenge, st_domain = domain\<rparr>))"

text \<open>
  A connection: reading the ClientHello, which says whether it asks for the TLS-ALPN validation; the
  handshake with a configuration; and the shutdown.
\<close>

record accept_env =
  ac_hello :: "bool stage"
  ac_handshake :: "server_config \<Rightarrow> unit stage"
  ac_shutdown :: "unit stage"

text \<open>\<open>ServerTls::accept\<close>: the configuration of the stream, or none for a validation.\<close>

definition tls_accept :: "server_tls \<Rightarrow> accept_env \<Rightarrow> server_config option stage" where
  "tls_accept tls env =
     (case ac_hello env of
        Fails e \<Rightarrow> Fails e
      | Stalls \<Rightarrow> Stalls
      | Done True \<Rightarrow>
          (case ac_handshake env (st_challenge tls) of
             Fails e \<Rightarrow> Fails e
           | Stalls \<Rightarrow> Stalls
           | Done _ \<Rightarrow>
               (case ac_shutdown env of Fails e \<Rightarrow> Fails e | Stalls \<Rightarrow> Stalls | Done _ \<Rightarrow> Done None))
      | Done False \<Rightarrow>
          (case ac_handshake env (st_serving tls) of
             Fails e \<Rightarrow> Fails e
           | Stalls \<Rightarrow> Stalls
           | Done _ \<Rightarrow> Done (Some (st_serving tls))))"

text \<open>The task of an accepted connection: its requests are served on the stream, or not at all.\<close>

definition accepted_connection ::
    "libs \<Rightarrow> shim \<Rightarrow> hub_transport option \<Rightarrow> server_tls option \<Rightarrow> accept_env \<Rightarrow> (conn_env \<times> request) list
     \<Rightarrow> (effect list \<times> response stage) list" where
  "accepted_connection L sh hub tls env calls =
     (case tls of
        None \<Rightarrow> serve_connection L sh hub calls
      | Some tls \<Rightarrow>
          (case tls_accept tls env of
             Done (Some _) \<Rightarrow> serve_connection L sh hub calls
           | Done None \<Rightarrow> []
           | _ \<Rightarrow> []))"

section \<open>The indexer side\<close>

record client_config =
  cc_roots :: "bytes list"
  cc_client_auth :: bool
  cc_alpn :: "string list"

definition backend_client_config :: "bytes list \<Rightarrow> tls_recipe \<Rightarrow> client_config" where
  "backend_client_config webpki_roots t = \<lparr>cc_roots = webpki_roots, cc_client_auth = False, cc_alpn = [tr_alpn t]\<rparr>"

definition backend_tls_new ::
    "(string \<Rightarrow> server_name option) \<Rightarrow> (string \<Rightarrow> string) \<Rightarrow> string \<Rightarrow> (string, tls_recipe) result" where
  "backend_tls_new parse quoted sni_name = with_alpn parse quoted sni_name ALPN_H2"

definition backend_tls_new_http1 ::
    "(string \<Rightarrow> server_name option) \<Rightarrow> (string \<Rightarrow> string) \<Rightarrow> string \<Rightarrow> (string, tls_recipe) result" where
  "backend_tls_new_http1 parse quoted sni_name = with_alpn parse quoted sni_name ALPN_HTTP11"

text \<open>\<open>BackendTls::connect\<close>: the handshake verifies the configured name; the address is not looked at.\<close>

definition backend_tls_connect ::
    "(client_config \<Rightarrow> server_name \<Rightarrow> unit stage) \<Rightarrow> bytes list \<Rightarrow> tls_recipe \<Rightarrow> string \<Rightarrow> unit stage" where
  "backend_tls_connect handshake webpki_roots t addr = handshake (backend_client_config webpki_roots t) (tr_name t)"

definition backend_of_addr :: "string \<Rightarrow> backend" where
  "backend_of_addr addr = \<lparr>be_addr = addr, be_tls_authority = None\<rparr>"

definition display_backend :: "backend \<Rightarrow> string" where
  "display_backend b = be_addr b @ (case be_tls_authority b of Some _ \<Rightarrow> '' (tls)'' | None \<Rightarrow> '' (plaintext)'')"

text \<open>HTTP/2 settings; times in milliseconds.\<close>

record h2_settings =
  h2_stream_window :: nat
  h2_connection_window :: nat
  h2_keep_alive :: "(nat \<times> nat) option"
  h2_keep_alive_while_idle :: bool

definition STREAM_WINDOW :: nat where "STREAM_WINDOW = 2 * 1024 * 1024"
definition CONNECTION_WINDOW :: nat where "CONNECTION_WINDOW = 8 * 1024 * 1024"
definition UPSTREAM_KEEPALIVE_INTERVAL :: nat where "UPSTREAM_KEEPALIVE_INTERVAL = 20000"
definition UPSTREAM_KEEPALIVE_TIMEOUT :: nat where "UPSTREAM_KEEPALIVE_TIMEOUT = 10000"
definition DRAIN_TIMEOUT :: nat where "DRAIN_TIMEOUT = 10000"

definition upstream_h2_builder :: h2_settings where
  "upstream_h2_builder =
     \<lparr>h2_stream_window = STREAM_WINDOW, h2_connection_window = CONNECTION_WINDOW,
      h2_keep_alive = Some (UPSTREAM_KEEPALIVE_INTERVAL, UPSTREAM_KEEPALIVE_TIMEOUT), h2_keep_alive_while_idle = True\<rparr>"

text \<open>\<open>serve\<close>: plaintext, without a hub, with the defaults, and never shut down.\<close>

definition serve ::
    "libs \<Rightarrow> backend \<Rightarrow> accept_env \<Rightarrow> (conn_env \<times> request) list \<Rightarrow> (effect list \<times> response stage) list" where
  "serve L b env calls = accepted_connection L \<lparr>sh_backend = b, sh_relay = caution_relay_default\<rparr> None None env calls"

section \<open>What reaches the proxy\<close>

lemma tls_accept_Done:
  "tls_accept tls env = Done (Some c) \<longleftrightarrow>
     c = st_serving tls \<and> ac_hello env = Done False \<and> ac_handshake env (st_serving tls) = Done ()"
  "tls_accept tls env = Done None \<longleftrightarrow>
     ac_hello env = Done True \<and> ac_handshake env (st_challenge tls) = Done () \<and> ac_shutdown env = Done ()"
  by (auto simp: tls_accept_def split: stage.splits bool.splits)

text \<open>
  C10. Wallet calls are served over TLS or not at all. With TLS started for a domain, a call of a connection is
  served only after its handshake with the serving configuration, whose certificates are the ones
  ACME ordered for the domain and which offers HTTP/2 alone; then the calls are served as without
  TLS. A validation by the certificate authority gets the other configuration and reaches nothing; a
  handshake that fails or stalls is not retried in the clear.
\<close>

theorem wallet_calls_need_the_handshake:
  assumes "server_tls_start challenge domain email production = (order, tls)"
  shows "accepted_connection L sh hub (Some tls) env calls =
      (if ac_hello env = Done False \<and> ac_handshake env (st_serving tls) = Done () then serve_connection L sh hub calls else [])
    \<and> st_serving tls = \<lparr>sc_certificates = AcmeResolver, sc_alpn = [''h2''], sc_client_auth = False\<rparr>
    \<and> ao_domains order = [domain] \<and> st_domain tls = domain"
proof -
  have "st_serving tls = \<lparr>sc_certificates = AcmeResolver, sc_alpn = [''h2''], sc_client_auth = False\<rparr>"
    "ao_domains order = [domain]" "st_domain tls = domain"
    using assms by (auto simp: server_tls_start_def Let_def ALPN_H2_def split: option.splits)
  moreover have "accepted_connection L sh hub (Some tls) env calls =
      (if ac_hello env = Done False \<and> ac_handshake env (st_serving tls) = Done () then serve_connection L sh hub calls else [])"
    by (simp add: accepted_connection_def tls_accept_def split: stage.split bool.split)
  ultimately show ?thesis by blast
qed

lemma wallet_calls_need_the_handshake_witness:
  "\<exists>order tls. server_tls_start \<lparr>sc_certificates = AcmeChallenges, sc_alpn = [''acme-tls/1''], sc_client_auth = False\<rparr>
      ''shim.example'' None True = (order, tls)
    \<and> accepted_connection demo_libs demo_shim None (Some tls)
        \<lparr>ac_hello = Done True, ac_handshake = \<lambda>_. Done (), ac_shutdown = Done ()\<rparr>
        [(demo_conn [7], demo_call_at ''/x'' [DataFrame [7]])] = []"
proof -
  obtain order tls where s: "server_tls_start \<lparr>sc_certificates = AcmeChallenges, sc_alpn = [''acme-tls/1''], sc_client_auth = False\<rparr>
      ''shim.example'' None True = (order, tls)" by (meson prod.exhaust)
  from wallet_calls_need_the_handshake [OF s, of demo_libs demo_shim None
      "\<lparr>ac_hello = Done True, ac_handshake = \<lambda>_. Done (), ac_shutdown = Done ()\<rparr>"
      "[(demo_conn [7], demo_call_at ''/x'' [DataFrame [7]])]"]
  show ?thesis using s by auto
qed

text \<open>The backend is dialled by its address and verified by its name; the hub hop speaks HTTP/1.1.\<close>

lemma backend_handshakes:
  assumes "backend_tls_new parse quoted n = Ok t" "backend_tls_new_http1 parse quoted n = Ok t'"
  shows "backend_tls_connect hs roots t addr = hs \<lparr>cc_roots = roots, cc_client_auth = False, cc_alpn = [''h2'']\<rparr> (tr_name t)"
    "backend_tls_connect hs roots t' addr = hs \<lparr>cc_roots = roots, cc_client_auth = False, cc_alpn = [''http/1.1'']\<rparr> (tr_name t)"
    "parse n = Some (tr_name t)"
  using assms
  by (auto simp: backend_tls_connect_def backend_client_config_def backend_tls_new_def backend_tls_new_http1_def
      with_alpn_def ALPN_H2_def ALPN_HTTP11_def split: option.splits)

end
