(* ===== verification/Driver.thy ===== *)
theory Driver
  imports Startup
begin

text \<open>
  The mixnet driver (\<open>zeronym/shim/src/nym_driver.rs\<close>): the loop that owns the SDK client,
  as a step function of the arm its \<open>select!\<close> takes, and its refinement of a lossy link of one
  message at a time. What the SDK does (whether a client is built, a message accepted, what arrives) is
  in the events; the actions of the loop are logged.
\<close>

section \<open>Gateways\<close>

record gateway_selector =
  gateways :: "string list"
  next_gateway :: u64

definition gateway_selector_new :: "string list \<Rightarrow> gateway_selector" where
  "gateway_selector_new gs = \<lparr>gateways = gs, next_gateway = 0\<rparr>"

definition take_gateway :: "gateway_selector \<Rightarrow> string option \<times> gateway_selector" where
  "take_gateway g =
     (if gateways g = [] then (None, g)
      else (Some (gateways g ! (unat (next_gateway g) mod length (gateways g))),
            g\<lparr>next_gateway := next_gateway g + 1\<rparr>))"

section \<open>The loop\<close>

definition SILENT_ROUNDS_BEFORE_REBUILD :: nat where "SILENT_ROUNDS_BEFORE_REBUILD = 2"

text \<open>A message handed to the SDK and not yet accepted.\<close>

datatype in_flight = FrameSend out_frame | ProbeSend

text \<open>
  Where the driver waits: in the loop with a client, for a rebuild without one (after a failed first
  build, or later), or nowhere.
\<close>

datatype driver_phase = Serving | AwaitingRebuild bool | DriverStopped

datatype driver_action =
    BuildAttempt "string option"
  | Taken out_frame
  | Handed string bytes nat
  | SendFailed out_frame
  | DroppedFrame out_frame
  | ProbeHanded string
  | Delivered bytes
  | ReportedDeath
  | Disconnected
  | Abandoned in_flight

record driver =
  dv_phase :: driver_phase
  dv_selector :: gateway_selector
  dv_status :: mixnet_status
  dv_in_flight :: "in_flight option"
  dv_own :: string
  dv_mark :: "u64 option"
  dv_silent :: nat
  dv_log :: "driver_action list"

datatype build_result = Built string | BuildFailed

definition act :: "driver_action list \<Rightarrow> driver \<Rightarrow> driver" where
  "act as d = d\<lparr>dv_log := dv_log d @ as\<rparr>"

definition on_status :: "(mixnet_status \<Rightarrow> mixnet_status) \<Rightarrow> driver \<Rightarrow> driver" where
  "on_status f d = d\<lparr>dv_status := f (dv_status d)\<rparr>"

text \<open>\<open>build_client(&network, gateways.take())\<close>: the attempt.\<close>

definition attempt_build :: "driver \<Rightarrow> driver" where
  "attempt_build d =
     (let (g, sel) = take_gateway (dv_selector d) in act [BuildAttempt g] (d\<lparr>dv_selector := sel\<rparr>))"

text \<open>
  A client to serve with. The first one after a failed first build is the only one whose address is
  not published.
\<close>

definition serve_with :: "string \<Rightarrow> bool \<Rightarrow> driver \<Rightarrow> driver" where
  "serve_with own publish d =
     (let d = on_status set_connected d;
          d = (if publish then on_status (set_address own) d else d)
      in d\<lparr>dv_phase := Serving, dv_own := own, dv_mark := None, dv_silent := 0\<rparr>)"

definition report_failed_build :: "bool \<Rightarrow> driver \<Rightarrow> driver" where
  "report_failed_build first d = (act [ReportedDeath] (on_status set_rebuild_failed d))\<lparr>dv_phase := AwaitingRebuild first\<rparr>"

definition run_driver_start :: "string list \<Rightarrow> u64 \<Rightarrow> build_result \<Rightarrow> mixnet_status \<Rightarrow> driver" where
  "run_driver_start gs unix_now b status =
     (let d = attempt_build \<lparr>dv_phase = DriverStopped, dv_selector = gateway_selector_new gs,
            dv_status = set_configured unix_now status, dv_in_flight = None, dv_own = '''', dv_mark = None,
            dv_silent = 0, dv_log = []\<rparr>
      in case b of Built own \<Rightarrow> serve_with own True d | BuildFailed \<Rightarrow> report_failed_build True d)"

text \<open>
  The arms: a probe tick with the backlog it sees, a command (\<open>None\<close>: the supervisor is gone) with
  the outcome of the build it causes, a frame (\<open>None\<close>: the transport is gone), the outstanding send
  ending with or without an error, and messages with the clock (\<open>None\<close>: the SDK gave up).
\<close>

datatype driver_event =
    ProbeTick nat
  | Command "client_command option" build_result
  | FrameReady "out_frame option"
  | SendDone bool
  | Messages "bytes list option" u64

fun driver_enabled :: "driver_event \<Rightarrow> driver \<Rightarrow> bool" where
  "driver_enabled (ProbeTick q) d \<longleftrightarrow> dv_phase d = Serving \<and> dv_in_flight d = None"
| "driver_enabled (Command c b) d \<longleftrightarrow> dv_phase d \<noteq> DriverStopped"
| "driver_enabled (FrameReady f) d \<longleftrightarrow> dv_phase d = Serving \<and> dv_in_flight d = None"
| "driver_enabled (SendDone ok) d \<longleftrightarrow> dv_phase d = Serving \<and> dv_in_flight d \<noteq> None"
| "driver_enabled (Messages ms t) d \<longleftrightarrow> dv_phase d = Serving"

text \<open>What a teardown gives up.\<close>

definition abandon :: "driver \<Rightarrow> driver" where
  "abandon d = (case dv_in_flight d of
     None \<Rightarrow> d | Some s \<Rightarrow> (act [Abandoned s] d)\<lparr>dv_in_flight := None\<rparr>)"

definition probe_tick :: "nat \<Rightarrow> driver \<Rightarrow> driver" where
  "probe_tick q d =
     (if dv_mark d = Some (inbound_total (dv_status d)) \<and> q = 0
      then let d = d\<lparr>dv_silent := dv_silent d + 1\<rparr>
           in if SILENT_ROUNDS_BEFORE_REBUILD \<le> dv_silent d
              then act [ReportedDeath] (d\<lparr>dv_silent := 0, dv_mark := None\<rparr>)
              else d\<lparr>dv_in_flight := Some ProbeSend\<rparr>
      else d\<lparr>dv_silent := 0, dv_in_flight := Some ProbeSend\<rparr>)"

definition step_stop :: "driver \<Rightarrow> driver" where
  "step_stop d = (act [Disconnected] (abandon d))\<lparr>dv_phase := DriverStopped\<rparr>"

definition step_rebuild :: "build_result \<Rightarrow> driver \<Rightarrow> driver" where
  "step_rebuild b d =
     (let d = attempt_build (on_status set_died (act [Disconnected] (abandon d)))
      in case b of Built own \<Rightarrow> serve_with own True d | BuildFailed \<Rightarrow> report_failed_build False d)"

definition step_died :: "driver \<Rightarrow> driver" where
  "step_died d = (act [ReportedDeath] (on_status set_died (abandon d)))\<lparr>dv_phase := AwaitingRebuild False\<rparr>"

text \<open>One turn of \<open>build_when_told\<close>, without a client.\<close>

definition build_when_told :: "bool \<Rightarrow> client_command option \<Rightarrow> build_result \<Rightarrow> driver \<Rightarrow> driver" where
  "build_when_told first c b d =
     (case c of
        Some Rebuild \<Rightarrow>
          (case b of
             Built own \<Rightarrow> serve_with own (\<not> first) (attempt_build d)
           | BuildFailed \<Rightarrow> report_failed_build first (attempt_build d))
      | _ \<Rightarrow> d\<lparr>dv_phase := DriverStopped\<rparr>)"

text \<open>The end of the outstanding send; it counts whatever became of it.\<close>

definition send_done :: "string list \<Rightarrow> bool \<Rightarrow> in_flight \<Rightarrow> driver \<Rightarrow> driver" where
  "send_done hubs ok s d =
     (case s of
        FrameSend out \<Rightarrow>
          (if length hubs \<le> of_target out then act [DroppedFrame out]
           else if ok then act [Handed (hubs ! of_target out) (of_frame out) (of_surbs out)]
           else act [SendFailed out]) (on_status record_send (d\<lparr>dv_in_flight := None\<rparr>))
      | ProbeSend \<Rightarrow>
          (if ok then act [ProbeHanded (dv_own d)] else id)
            (d\<lparr>dv_in_flight := None, dv_mark := Some (inbound_total (dv_status d))\<rparr>))"

fun receive :: "u64 \<Rightarrow> bytes list \<Rightarrow> driver \<Rightarrow> driver" where
  "receive t [] d = d"
| "receive t (m # ms) d =
     (let d = on_status (record_inbound (m = []) t) d
      in receive t ms (if m = [] then d else act [Delivered m] d))"

fun driver_arm :: "string list \<Rightarrow> driver \<Rightarrow> driver_event \<Rightarrow> driver" where
  "driver_arm hubs d (ProbeTick q) = probe_tick q d"
| "driver_arm hubs d (Command c b) =
     (case dv_phase d of
        AwaitingRebuild first \<Rightarrow> build_when_told first c b d
      | _ \<Rightarrow> (case c of Some Rebuild \<Rightarrow> step_rebuild b d | _ \<Rightarrow> step_stop d))"
| "driver_arm hubs d (FrameReady f) =
     (case f of Some out \<Rightarrow> act [Taken out] (d\<lparr>dv_in_flight := Some (FrameSend out)\<rparr>) | None \<Rightarrow> step_stop d)"
| "driver_arm hubs d (SendDone ok) =
     (case dv_in_flight d of Some s \<Rightarrow> send_done hubs ok s d | None \<Rightarrow> d)"
| "driver_arm hubs d (Messages ms t) =
     (case ms of Some ms \<Rightarrow> receive t ms d | None \<Rightarrow> step_died d)"

definition driver_step :: "string list \<Rightarrow> driver \<Rightarrow> driver_event \<Rightarrow> driver" where
  "driver_step hubs d e = (if driver_enabled e d then driver_arm hubs d e else d)"

section \<open>The specification: a lossy link of one message at a time\<close>

record link =
  l_up :: bool
  l_pending :: "out_frame option"
  l_taken :: "out_frame list"
  l_sent :: "(string \<times> bytes \<times> nat) list"
  l_lost :: "out_frame list"
  l_received :: "bytes list"

definition link_start :: link where
  "link_start = \<lparr>l_up = False, l_pending = None, l_taken = [], l_sent = [], l_lost = [], l_received = []\<rparr>"

definition addressed :: "string list \<Rightarrow> out_frame \<Rightarrow> string \<times> bytes \<times> nat" where
  "addressed hubs f = (hubs ! of_target f, of_frame f, of_surbs f)"

inductive link_step :: "string list \<Rightarrow> link \<Rightarrow> link \<Rightarrow> bool" for hubs where
  take_frame: "l_up l \<Longrightarrow> l_pending l = None \<Longrightarrow>
     link_step hubs l (l\<lparr>l_pending := Some f, l_taken := l_taken l @ [f]\<rparr>)"
| hand_over: "l_pending l = Some f \<Longrightarrow> of_target f < length hubs \<Longrightarrow>
     link_step hubs l (l\<lparr>l_pending := None, l_sent := l_sent l @ [addressed hubs f]\<rparr>)"
| lose: "l_pending l = Some f \<Longrightarrow> link_step hubs l (l\<lparr>l_pending := None, l_lost := l_lost l @ [f]\<rparr>)"
| receive_message: "l_up l \<Longrightarrow> m \<noteq> [] \<Longrightarrow> link_step hubs l (l\<lparr>l_received := l_received l @ [m]\<rparr>)"
| go_down: "l_pending l = None \<Longrightarrow> link_step hubs l (l\<lparr>l_up := False\<rparr>)"
| go_up: "l_pending l = None \<Longrightarrow> link_step hubs l (l\<lparr>l_up := True\<rparr>)"

text \<open>What the link promises of a run.\<close>

definition link_ok :: "string list \<Rightarrow> link \<Rightarrow> bool" where
  "link_ok hubs l \<longleftrightarrow> (\<exists>zs. l_taken l = map snd zs @ (case l_pending l of None \<Rightarrow> [] | Some f \<Rightarrow> [f])
     \<and> l_sent l = map (addressed hubs \<circ> snd) (filter fst zs) \<and> l_lost l = map snd (filter (Not \<circ> fst) zs)
     \<and> list_all (\<lambda>(handed, f). handed \<longrightarrow> of_target f < length hubs) zs)
   \<and> [] \<notin> set (l_received l) \<and> (l_pending l \<noteq> None \<longrightarrow> l_up l)"

lemma link_ok_start: "link_ok hubs link_start"
  by (simp add: link_ok_def link_start_def)

lemma link_ok_resolve:
  assumes "link_ok hubs l" "l_pending l = Some f" "handed \<longrightarrow> of_target f < length hubs"
  shows "link_ok hubs (l\<lparr>l_pending := None, l_sent := l_sent l @ (if handed then [addressed hubs f] else []),
    l_lost := l_lost l @ (if handed then [] else [f])\<rparr>)"
proof -
  obtain zs where "l_taken l = map snd zs @ [f]" "l_sent l = map (addressed hubs \<circ> snd) (filter fst zs)"
      "l_lost l = map snd (filter (Not \<circ> fst) zs)" "list_all (\<lambda>(handed, f). handed \<longrightarrow> of_target f < length hubs) zs"
    using assms(1,2) by (auto simp: link_ok_def)
  with assms show ?thesis
    unfolding link_ok_def by (intro conjI exI [of _ "zs @ [(handed, f)]"]) (auto simp: link_ok_def)
qed

lemma link_ok_step: "link_step hubs l l' \<Longrightarrow> link_ok hubs l \<Longrightarrow> link_ok hubs l'"
proof (induction rule: link_step.induct)
  case (hand_over l f)
  with link_ok_resolve [of hubs l f True] show ?case by simp
next
  case (lose l f)
  with link_ok_resolve [of hubs l f False] show ?case by simp
qed (auto simp: link_ok_def)

lemma link_ok_steps: "(link_step hubs)\<^sup>*\<^sup>* l l' \<Longrightarrow> link_ok hubs l \<Longrightarrow> link_ok hubs l'"
  by (induction rule: rtranclp_induct) (auto intro: link_ok_step)

section \<open>The driver refines it\<close>

fun taken_of :: "driver_action \<Rightarrow> out_frame list" where
  "taken_of (Taken f) = [f]"
| "taken_of _ = []"

fun sent_of :: "driver_action \<Rightarrow> (string \<times> bytes \<times> nat) list" where
  "sent_of (Handed a b n) = [(a, b, n)]"
| "sent_of _ = []"

fun lost_of :: "driver_action \<Rightarrow> out_frame list" where
  "lost_of (SendFailed f) = [f]"
| "lost_of (DroppedFrame f) = [f]"
| "lost_of (Abandoned (FrameSend f)) = [f]"
| "lost_of _ = []"

fun received_of :: "driver_action \<Rightarrow> bytes list" where
  "received_of (Delivered m) = [m]"
| "received_of _ = []"

definition link_of :: "driver \<Rightarrow> link" where
  "link_of d = \<lparr>l_up = (dv_phase d = Serving),
     l_pending = (case dv_in_flight d of Some (FrameSend f) \<Rightarrow> Some f | _ \<Rightarrow> None),
     l_taken = concat (map taken_of (dv_log d)), l_sent = concat (map sent_of (dv_log d)),
     l_lost = concat (map lost_of (dv_log d)), l_received = concat (map received_of (dv_log d))\<rparr>"

text \<open>No send is outstanding without a client, and the status says whether there is one.\<close>

definition driver_inv :: "driver \<Rightarrow> bool" where
  "driver_inv d \<longleftrightarrow> (dv_phase d \<noteq> Serving \<longrightarrow> dv_in_flight d = None) \<and> configured (dv_status d)
     \<and> (dv_phase d = Serving \<longrightarrow> connected (dv_status d))
     \<and> (\<forall>first. dv_phase d = AwaitingRebuild first \<longrightarrow> \<not> connected (dv_status d))"

lemmas driver_steps = act_def on_status_def attempt_build_def serve_with_def report_failed_build_def
  probe_tick_def step_stop_def step_rebuild_def step_died_def build_when_told_def send_done_def abandon_def

lemma receive_fields [simp]:
  "dv_phase (receive t ms d) = dv_phase d" "dv_in_flight (receive t ms d) = dv_in_flight d"
  "configured (dv_status (receive t ms d)) = configured (dv_status d)"
  "connected (dv_status (receive t ms d)) = connected (dv_status d)"
  "dv_log (receive t ms d) = dv_log d @ map Delivered (filter (\<lambda>m. m \<noteq> []) ms)"
  by (induction ms arbitrary: d) (auto simp: Let_def act_def on_status_def record_inbound_def)

lemma driver_inv_step: "driver_inv d \<Longrightarrow> driver_inv (driver_step hubs d e)"
  by (cases e)
    (auto simp: driver_step_def driver_inv_def driver_steps status_ops Let_def
      split: option.splits in_flight.splits driver_phase.splits client_command.splits build_result.splits prod.splits)

interpretation driver: step_invariant "driver_step hubs" driver_inv for hubs
  by unfold_locales (rule driver_inv_step)

text \<open>The simulation, arm by arm.\<close>

lemma link_up_down:
  "l_pending l = None \<Longrightarrow> l' = l\<lparr>l_up := b\<rparr> \<Longrightarrow> (link_step hubs)\<^sup>*\<^sup>* l l'"
  by (cases b) (auto intro: go_up go_down)

lemma link_of_abandon:
  "(link_step hubs)\<^sup>*\<^sup>* (link_of d) (link_of (abandon d))" "dv_in_flight (abandon d) = None"
  "dv_phase (abandon d) = dv_phase d"
proof -
  show "(link_step hubs)\<^sup>*\<^sup>* (link_of d) (link_of (abandon d))"
  proof (cases "dv_in_flight d")
    case (Some s)
    show ?thesis
    proof (cases s)
      case (FrameSend f)
      with Some have "link_of (abandon d) = (link_of d)\<lparr>l_pending := None, l_lost := l_lost (link_of d) @ [f]\<rparr>"
        "l_pending (link_of d) = Some f"
        by (simp_all add: link_of_def abandon_def act_def)
      then show ?thesis using lose by (metis r_into_rtranclp)
    qed (use Some in \<open>simp add: link_of_def abandon_def act_def\<close>)
  qed (simp add: abandon_def)
qed (simp_all add: abandon_def act_def split: option.split)

lemma link_of_teardown:
  assumes "link_of d' = (link_of (abandon d))\<lparr>l_up := b\<rparr>"
  shows "(link_step hubs)\<^sup>*\<^sup>* (link_of d) (link_of d')"
proof -
  have "l_pending (link_of (abandon d)) = None" by (simp add: link_of_def link_of_abandon)
  from rtranclp_trans [OF link_of_abandon(1) link_up_down [OF this assms]] show ?thesis .
qed

lemma link_of_receive:
  "dv_phase d = Serving \<Longrightarrow> (link_step hubs)\<^sup>*\<^sup>* (link_of d) (link_of (receive t ms d))"
proof (induction ms arbitrary: d)
  case (Cons m ms)
  define d1 where "d1 = on_status (record_inbound (m = []) t) d"
  define d2 where "d2 = (if m = [] then d1 else act [Delivered m] d1)"
  have up: "l_up (link_of d)" using Cons.prems by (simp add: link_of_def)
  have "link_of d2 = link_of d \<or> m \<noteq> [] \<and> link_of d2 = (link_of d)\<lparr>l_received := l_received (link_of d) @ [m]\<rparr>"
    by (auto simp: d1_def d2_def link_of_def on_status_def act_def)
  then have "(link_step hubs)\<^sup>*\<^sup>* (link_of d) (link_of d2)"
    using receive_message [OF up] by auto
  moreover have "dv_phase d2 = Serving" using Cons.prems by (simp add: d1_def d2_def on_status_def act_def)
  ultimately show ?case
    using Cons.IH [of d2] by (simp add: d1_def [symmetric] d2_def [symmetric] rtranclp_trans)
qed simp

lemma link_of_send_done:
  assumes "dv_in_flight d = Some s"
  shows "(link_step hubs)\<^sup>*\<^sup>* (link_of d) (link_of (send_done hubs ok s d))"
proof (cases s)
  case (FrameSend f)
  with assms have p: "l_pending (link_of d) = Some f" by (simp add: link_of_def)
  have "link_of (send_done hubs ok s d) =
      (if of_target f < length hubs \<and> ok
       then (link_of d)\<lparr>l_pending := None, l_sent := l_sent (link_of d) @ [addressed hubs f]\<rparr>
       else (link_of d)\<lparr>l_pending := None, l_lost := l_lost (link_of d) @ [f]\<rparr>)"
    using FrameSend by (auto simp: send_done_def link_of_def act_def on_status_def addressed_def)
  with hand_over [OF p] lose [OF p] show ?thesis by auto
next
  case ProbeSend
  with assms have "link_of (send_done hubs ok s d) = link_of d"
    by (simp add: send_done_def link_of_def act_def)
  then show ?thesis by simp
qed

lemma link_of_rebuilt:
  assumes "dv_phase d = AwaitingRebuild first" "dv_in_flight d = None"
  shows "(link_step hubs)\<^sup>*\<^sup>* (link_of d) (link_of (build_when_told first c b d))"
proof (rule link_up_down)
  show "l_pending (link_of d) = None" using assms by (simp add: link_of_def)
  show "link_of (build_when_told first c b d) =
      (link_of d)\<lparr>l_up := (c = Some Rebuild \<and> b \<noteq> BuildFailed)\<rparr>"
    using assms
    by (auto simp: build_when_told_def link_of_def driver_steps Let_def
        split: option.split client_command.split build_result.split prod.split)
qed

lemma driver_simulates:
  assumes "driver_inv d"
  shows "(link_step hubs)\<^sup>*\<^sup>* (link_of d) (link_of (driver_step hubs d e))"
proof (cases "driver_enabled e d")
  case True
  show ?thesis
  proof (cases e)
    case (ProbeTick q)
    with True have "link_of (driver_step hubs d e) = link_of d"
      by (auto simp: driver_step_def probe_tick_def link_of_def act_def Let_def)
    then show ?thesis by simp
  next
    case (Command c b)
    show ?thesis
    proof (cases "dv_phase d")
      case Serving
      have "link_of (step_rebuild b d) = (link_of (abandon d))\<lparr>l_up := (b \<noteq> BuildFailed)\<rparr>"
        "link_of (step_stop d) = (link_of (abandon d))\<lparr>l_up := False\<rparr>"
        by (auto simp: step_rebuild_def step_stop_def link_of_def act_def on_status_def attempt_build_def serve_with_def
            report_failed_build_def Let_def split: build_result.split prod.split)
      with True Command Serving link_of_teardown show ?thesis
        by (auto simp: driver_step_def split: option.split client_command.split)
    next
      case (AwaitingRebuild first)
      with assms have "dv_in_flight d = None" by (simp add: driver_inv_def)
      from link_of_rebuilt [OF AwaitingRebuild this] True Command AwaitingRebuild show ?thesis
        by (simp add: driver_step_def)
    qed (use True Command in simp)
  next
    case (FrameReady f)
    with True have s: "dv_phase d = Serving" "dv_in_flight d = None" by simp_all
    show ?thesis
    proof (cases f)
      case None
      have "link_of (step_stop d) = (link_of (abandon d))\<lparr>l_up := False\<rparr>"
        by (simp add: step_stop_def link_of_def act_def)
      with link_of_teardown True FrameReady None show ?thesis by (simp add: driver_step_def)
    next
      case (Some out)
      with True FrameReady s have "link_of (driver_step hubs d e) =
          (link_of d)\<lparr>l_pending := Some out, l_taken := l_taken (link_of d) @ [out]\<rparr>"
        by (simp add: driver_step_def link_of_def act_def)
      moreover have "l_up (link_of d)" "l_pending (link_of d) = None" using s by (simp_all add: link_of_def)
      ultimately show ?thesis using take_frame by auto
    qed
  next
    case (SendDone ok)
    with True link_of_send_done show ?thesis by (auto simp: driver_step_def split: option.split)
  next
    case (Messages ms t)
    have "link_of (step_died d) = (link_of (abandon d))\<lparr>l_up := False\<rparr>"
      by (simp add: step_died_def link_of_def act_def on_status_def)
    with True Messages link_of_receive link_of_teardown show ?thesis
      by (auto simp: driver_step_def split: option.split)
  qed
qed (simp add: driver_step_def)

lemma driver_simulates_run:
  "driver_inv d \<Longrightarrow> (link_step hubs)\<^sup>*\<^sup>* (link_of d) (link_of (run (driver_step hubs) d es))"
  by (induction es arbitrary: d) (auto intro: rtranclp_trans driver_simulates driver_inv_step)

lemma driver_start:
  assumes "\<not> connected st"
  shows "driver_inv (run_driver_start gs t b st)" "link_ok hubs (link_of (run_driver_start gs t b st))"
  using assms
  by (auto simp: run_driver_start_def driver_inv_def link_ok_def link_of_def driver_steps status_ops Let_def
      split: build_result.split prod.split)

section \<open>Probing\<close>

definition reports :: "driver \<Rightarrow> nat" where
  "reports d = length (filter (\<lambda>a. a = ReportedDeath) (dv_log d))"

lemma tick_reports:
  "reports (probe_tick q d) = reports d +
     (if dv_mark d = Some (inbound_total (dv_status d)) \<and> q = 0 \<and> SILENT_ROUNDS_BEFORE_REBUILD \<le> dv_silent d + 1
      then 1 else 0)"
  by (simp add: reports_def probe_tick_def act_def Let_def)

lemma reports_monotone: "reports d \<le> reports (driver_step hubs d e)"
proof -
  have "\<exists>as. dv_log (driver_step hubs d e) = dv_log d @ as"
    by (cases e)
      (auto simp: driver_step_def driver_steps Let_def
        split: option.split in_flight.split driver_phase.split client_command.split build_result.split prod.split)
  then show ?thesis by (auto simp: reports_def)
qed

lemma silent_round:
  assumes "dv_phase d = Serving" "dv_in_flight d = Some ProbeSend"
  shows "run (driver_step hubs) d [SendDone ok, ProbeTick 0] =
     probe_tick 0 ((if ok then act [ProbeHanded (dv_own d)] else id)
       (d\<lparr>dv_in_flight := None, dv_mark := Some (inbound_total (dv_status d))\<rparr>))"
  using assms by (simp add: driver_step_def send_done_def act_def)

lemma rebuild_serves:
  assumes "dv_phase d = Serving"
  shows "dv_phase (driver_step hubs d (Command (Some Rebuild) (Built own))) = Serving"
    "own_address (dv_status (driver_step hubs d (Command (Some Rebuild) (Built own)))) = Some own"
    "gateways (dv_selector d) \<noteq> [] \<Longrightarrow>
       BuildAttempt (Some (gateways (dv_selector d) ! (unat (next_gateway (dv_selector d)) mod length (gateways (dv_selector d)))))
         \<in> set (dv_log (driver_step hubs d (Command (Some Rebuild) (Built own))))"
    "gateways (dv_selector d) \<noteq> [] \<Longrightarrow>
       next_gateway (dv_selector (driver_step hubs d (Command (Some Rebuild) (Built own)))) = next_gateway (dv_selector d) + 1"
proof -
  have sel: "dv_selector (abandon d) = dv_selector d" by (simp add: abandon_def act_def split: option.split)
  have step: "driver_step hubs d (Command (Some Rebuild) (Built own)) = step_rebuild (Built own) d"
    using assms by (simp add: driver_step_def)
  show "dv_phase (driver_step hubs d (Command (Some Rebuild) (Built own))) = Serving"
    "own_address (dv_status (driver_step hubs d (Command (Some Rebuild) (Built own)))) = Some own"
    unfolding step by (simp_all add: step_rebuild_def serve_with_def on_status_def set_address_def Let_def)
  assume g: "gateways (dv_selector d) \<noteq> []"
  show "BuildAttempt (Some (gateways (dv_selector d) ! (unat (next_gateway (dv_selector d)) mod length (gateways (dv_selector d)))))
         \<in> set (dv_log (driver_step hubs d (Command (Some Rebuild) (Built own))))"
    "next_gateway (dv_selector (driver_step hubs d (Command (Some Rebuild) (Built own)))) = next_gateway (dv_selector d) + 1"
    unfolding step using g sel
    by (simp_all add: step_rebuild_def serve_with_def on_status_def attempt_build_def act_def take_gateway_def Let_def)
qed

section \<open>Properties\<close>

text \<open>
  C14. The driver refines a lossy link that carries one message at a time: every run from its first
  build is a run of the link. So every frame it takes is, in order, handed once and unaltered, with its
  reply blocks, to the hub address its index names, or lost, with at most the last one still outstanding,
  and then only while there is a client; what is delivered inward is never empty; and a shim waiting for
  a client says it is unhealthy, one with a client does not.
\<close>

theorem driver_refines_lossy_link:
  assumes "\<not> connected st" "d0 = run_driver_start gs t b st" "d = run (driver_step hubs) d0 es"
  shows "(link_step hubs)\<^sup>*\<^sup>* (link_of d0) (link_of d)
    \<and> (\<exists>zs. l_taken (link_of d) = map snd zs @ (case l_pending (link_of d) of None \<Rightarrow> [] | Some f \<Rightarrow> [f])
         \<and> l_sent (link_of d) = map (addressed hubs \<circ> snd) (filter fst zs)
         \<and> l_lost (link_of d) = map snd (filter (Not \<circ> fst) zs)
         \<and> list_all (\<lambda>(handed, f). handed \<longrightarrow> of_target f < length hubs) zs)
    \<and> [] \<notin> set (l_received (link_of d))
    \<and> (l_pending (link_of d) \<noteq> None \<longrightarrow> dv_phase d = Serving)
    \<and> (dv_phase d = Serving \<longrightarrow> is_healthy (dv_status d))
    \<and> (\<forall>first. dv_phase d = AwaitingRebuild first \<longrightarrow> \<not> is_healthy (dv_status d))"
proof -
  note start = driver_start [OF assms(1)]
  have steps: "(link_step hubs)\<^sup>*\<^sup>* (link_of d0) (link_of d)"
    using driver_simulates_run [OF start(1)] unfolding assms(2,3) .
  have "link_ok hubs (link_of d)" using link_ok_steps [OF steps] start(2) [of hubs gs t b] unfolding assms(2) .
  moreover have "driver_inv d" using driver.run_inv [OF start(1)] unfolding assms(2,3) .
  ultimately show ?thesis
    using steps by (auto simp: link_ok_def driver_inv_def is_healthy_def link_of_def)
qed

definition demo_frame :: out_frame where
  "demo_frame = \<lparr>of_frame = [1], of_surbs = 13, of_target = 1\<rparr>"

theorem driver_refines_lossy_link_witness:
  "let d = run (driver_step [''a'', ''b'']) (run_driver_start [''g''] 0 (Built ''s@g'') mixnet_status_default)
       [FrameReady (Some demo_frame), SendDone True, FrameReady (Some demo_frame), Messages None 5]
   in l_sent (link_of d) = [(''b'', [1], 13)] \<and> l_lost (link_of d) = [demo_frame] \<and> \<not> is_healthy (dv_status d)"
proof -
  have "\<not> connected mixnet_status_default" by (simp add: mixnet_status_default_def)
  from driver_refines_lossy_link [OF this refl refl, of "[''a'', ''b'']" "[''g'']" 0 "Built ''s@g''"
      "[FrameReady (Some demo_frame), SendDone True, FrameReady (Some demo_frame), Messages None 5]"]
  show ?thesis
    by (auto simp: driver_step_def driver_steps run_driver_start_def take_gateway_def gateway_selector_new_def
        link_of_def demo_frame_def Let_def)
qed

text \<open>
  C26. A client nothing is delivered to does not stay: however the probing stands, three rounds with
  nothing received and no backlog report it dead, whether the probes could be sent or not. A live client
  is reported dead on a tick only when the queue is empty and it is at least the second silent round in a
  row; and a rebuild serves with the next gateway of the list, in turn.
\<close>

theorem deaf_client_is_rebuilt:
  assumes "dv_phase d = Serving" "dv_in_flight d = None"
  shows "reports d < reports (run (driver_step hubs) d [ProbeTick q, SendDone a, ProbeTick 0, SendDone b, ProbeTick 0])
    \<and> (reports d < reports (driver_step hubs d (ProbeTick q)) \<longrightarrow>
         q = 0 \<and> dv_mark d = Some (inbound_total (dv_status d)) \<and> 1 \<le> dv_silent d)
    \<and> dv_phase (driver_step hubs d (Command (Some Rebuild) (Built own))) = Serving
    \<and> own_address (dv_status (driver_step hubs d (Command (Some Rebuild) (Built own)))) = Some own
    \<and> (gateways (dv_selector d) \<noteq> [] \<longrightarrow>
         BuildAttempt (Some (gateways (dv_selector d) ! (unat (next_gateway (dv_selector d)) mod length (gateways (dv_selector d)))))
           \<in> set (dv_log (driver_step hubs d (Command (Some Rebuild) (Built own))))
         \<and> next_gateway (dv_selector (driver_step hubs d (Command (Some Rebuild) (Built own)))) = next_gateway (dv_selector d) + 1)"
proof -
  define d1 where "d1 = driver_step hubs d (ProbeTick q)"
  have d1: "d1 = probe_tick q d" using assms by (simp add: d1_def driver_step_def)
  have "reports d < reports (run (driver_step hubs) d1 [SendDone a, ProbeTick 0, SendDone b, ProbeTick 0])"
  proof (cases "reports d < reports d1")
    case True
    have "reports d1 \<le> reports (run (driver_step hubs) d1 es)" for es
    proof (induction es rule: rev_induct)
      case (snoc e es)
      with reports_monotone [of "run (driver_step hubs) d1 es" hubs e] show ?case by (simp add: run_append)
    qed simp
    with True show ?thesis using less_le_trans by blast
  next
    case False
    then have d1f: "dv_phase d1 = Serving" "dv_in_flight d1 = Some ProbeSend"
      using assms(1) by (auto simp: d1 tick_reports probe_tick_def act_def Let_def reports_def split: if_splits)
    define d2 where "d2 = run (driver_step hubs) d1 [SendDone a, ProbeTick 0]"
    have d2: "reports d2 = reports d1 + 1 \<or> reports d2 = reports d1 \<and> dv_phase d2 = Serving
        \<and> dv_in_flight d2 = Some ProbeSend \<and> 1 \<le> dv_silent d2"
      unfolding d2_def silent_round [OF d1f]
      using d1f by (auto simp: probe_tick_def act_def reports_def Let_def)
    have "reports d1 < reports (run (driver_step hubs) d2 [SendDone b, ProbeTick 0])"
    proof (cases "reports d2 = reports d1 + 1")
      case True
      have "reports d2 \<le> reports (run (driver_step hubs) d2 [SendDone b, ProbeTick 0])"
        using reports_monotone le_trans by (simp, blast)
      with True show ?thesis by simp
    next
      case False
      with d2 have d2f: "dv_phase d2 = Serving" "dv_in_flight d2 = Some ProbeSend" "1 \<le> dv_silent d2" "reports d2 = reports d1"
        by simp_all
      show ?thesis
        unfolding silent_round [OF d2f(1,2)]
        using d2f by (auto simp: tick_reports act_def SILENT_ROUNDS_BEFORE_REBUILD_def) (simp_all add: reports_def act_def)
    qed
    moreover have "reports d \<le> reports d1" using reports_monotone by (simp add: d1_def)
    ultimately show ?thesis by (simp add: d2_def)
  qed
  moreover have "q = 0 \<and> dv_mark d = Some (inbound_total (dv_status d)) \<and> 1 \<le> dv_silent d"
    if "reports d < reports d1"
    using that by (auto simp: d1 tick_reports SILENT_ROUNDS_BEFORE_REBUILD_def split: if_splits)
  ultimately show ?thesis
    using rebuild_serves [OF assms(1)] by (simp add: d1_def)
qed

theorem deaf_client_is_rebuilt_witness:
  "let d = run_driver_start [''g'', ''h''] 0 (Built ''s@g'') mixnet_status_default
   in reports d < reports (run (driver_step [''a'']) d [ProbeTick 3, SendDone True, ProbeTick 0, SendDone False, ProbeTick 0])
    \<and> BuildAttempt (Some ''h'') \<in> set (dv_log (driver_step [''a''] d (Command (Some Rebuild) (Built ''s@h''))))"
proof -
  let ?d = "run_driver_start [''g'', ''h''] 0 (Built ''s@g'') mixnet_status_default"
  have "dv_phase ?d = Serving" "dv_in_flight ?d = None" "gateways (dv_selector ?d) = [''g'', ''h'']"
    "next_gateway (dv_selector ?d) = 1"
    by (simp_all add: run_driver_start_def driver_steps take_gateway_def gateway_selector_new_def Let_def)
  with deaf_client_is_rebuilt [of ?d "[''a'']" 3 True False "''s@h''"] show ?thesis by (simp add: Let_def)
qed

end
