(* ===== verification/Spec2Isabelle.thy ===== *)
theory Spec2Isabelle
  imports Prelude Wire Grpc Amount Upgrades Codec TxData TxCodec TxTransparent TxShielded TxParse
    ValueBalance TxHash Difficulty Merkle Block Mempool Address Checkpoints NetworkConstants Networks
    Subsidy MountainRange HistoryTree NoteTrees ChainTime Utxo CompactBlocks SigHash TxIds Binding Receivers
    Solver Classify NymStatus Correlator NymHandle Supervisor Hub Upstream Intercept Proxy Startup Tls
    Driver
begin

text \<open>
  A verification library of the zero-indexer shim (\<open>zeronym/shim\<close>) and of the part of Zebra's
  chain library (\<open>zebra/zebra-chain\<close>) it is built on.

  The program. The shim sits between a light wallet and a backing indexer and speaks the wallet's
  gRPC protocol on both sides. Every call is forwarded as it is, less what identifies the wallet,
  with two exceptions: a submission (\<open>SendTransaction\<close>) whose transaction has Orchard actions,
  or cannot be shown to have none, and a query (\<open>GetTransaction\<close>) that would tell the indexer
  which transaction the wallet is about. These go to a hub instead, over HTTPS or over the mixnet,
  and the answer of the hub is turned back into a gRPC answer. The decision needs a full parser of
  Zcash transactions, which is Zebra's.

  The parts and their theories, in the order they build on each other. Records and datatypes carry
  the source's fields and constructors, and a definition has the name of the function it models
  unless HOL has that name already.

  Foundations.
  \<^item> \<open>Prelude\<close>: bytes, results with a typed error, fixed-width codecs, slices, and the locale
    \<open>step_invariant\<close> (a step relation keeps an invariant along every sequence of steps).
  \<^item> \<open>Wire\<close> (\<open>shim/src/wire.rs\<close>): the four frames between shim and hub. The locale
    \<open>frame_codec\<close> is the contract of a frame (fixed size, magic, round trip, refusal of what
    does not fit) and is interpreted on each of the four.

  The chain library (\<open>zebra-chain/src\<close>).
  \<^item> \<open>Amount\<close> (\<open>amount.rs\<close>), \<open>Upgrades\<close> (\<open>block/height.rs\<close>,
    \<open>parameters/network_upgrade.rs\<close>), \<open>Codec\<close> (\<open>serialization/\<close>). The locale
    \<open>codec\<close> is the contract of a writer, a reader and a validity predicate: what is valid is read
    back whatever follows it, what is read is valid and was written by the writer. It is interpreted
    on every part of a transaction and of a block, and its lemmas on vectors give the vectors.
  \<^item> \<open>TxData\<close> (the six transaction versions and their accessors: \<open>transaction.rs\<close>,
    \<open>transparent.rs\<close>, \<open>sapling/\<close>, \<open>sprout/joinsplit.rs\<close>, \<open>orchard/\<close>,
    \<open>ironwood.rs\<close>), \<open>TxCodec\<close>, \<open>TxTransparent\<close>, \<open>TxShielded\<close>, \<open>TxParse\<close>
    (their encodings: \<open>transparent/serialize.rs\<close>, \<open>transaction/serialize.rs\<close> and the
    \<open>Zcash(De)Serialize\<close> instances beside the types).
  \<^item> \<open>ValueBalance\<close> (\<open>value_balance.rs\<close> and the balances of a transaction),
    \<open>TxHash\<close> (\<open>transaction/txid.rs\<close>, \<open>transaction/hash.rs\<close>), \<open>Difficulty\<close>
    (\<open>work/difficulty.rs\<close>), \<open>Merkle\<close> (\<open>block/merkle.rs\<close>), \<open>Block\<close>
    (\<open>block.rs\<close>, \<open>block/header.rs\<close>, \<open>block/serialize.rs\<close>,
    \<open>block/commitment.rs\<close>, \<open>block/hash.rs\<close>, \<open>work/equihash.rs\<close>), \<open>Mempool\<close>
    (\<open>transaction/unmined.rs\<close>, \<open>transaction/unmined/zip317.rs\<close>), \<open>TxIds\<close> (witnessed ids,
    and the roots of \<open>block/merkle.rs\<close> over what the mempool keeps), \<open>SigHash\<close>
    (\<open>transaction/sighash.rs\<close>, \<open>primitives/zcash_primitives.rs\<close>), \<open>Utxo\<close>
    (\<open>transparent/utxo.rs\<close>), \<open>Solver\<close> (the mining loop of \<open>work/equihash.rs\<close>).
  \<^item> \<open>Address\<close> (\<open>transparent/address.rs\<close>), \<open>Receivers\<close>
    (\<open>primitives/address.rs\<close>, \<open>transaction/memo.rs\<close>, \<open>primitives/zcash_note_encryption.rs\<close>),
    \<open>Binding\<close> (\<open>orchard/commitment.rs\<close>, the \<open>keys.rs\<close> and \<open>note.rs\<close> of the pools, and the
    binding verification keys of \<open>sapling/shielded_data.rs\<close> and \<open>orchard/shielded_data.rs\<close>).
  \<^item> The networks: \<open>Checkpoints\<close> (\<open>parameters/checkpoint/list.rs\<close>),
    \<open>NetworkConstants\<close> (the tables of \<open>parameters/\<close>), \<open>Networks\<close>
    (\<open>parameters/network.rs\<close>, \<open>parameters/network/testnet.rs\<close>: the builder of a test
    network and its checks), \<open>Subsidy\<close> (\<open>parameters/network/subsidy.rs\<close>),
    \<open>ChainTime\<close> (\<open>serialization/date_time.rs\<close>, \<open>chain_tip.rs\<close> and the height estimator).
  \<^item> The trees: \<open>MountainRange\<close> (the shapes of ZIP-221) and \<open>HistoryTree\<close>
    (\<open>history_tree.rs\<close>, \<open>primitives/zcash_history.rs\<close>), which refines a list of all nodes;
    \<open>NoteTrees\<close> (the three \<open>tree.rs\<close> with their stored form, \<open>subtree.rs\<close>,
    \<open>parallel/tree.rs\<close>), which refines the list of all notes.
  \<^item> \<open>CompactBlocks\<close> (\<open>zaino-proto\<close>, \<open>proto/utils.rs\<close>): pool filters, block ranges and
    the pruning of compact blocks.

  The shim (\<open>zeronym/shim/src\<close>).
  \<^item> \<open>Grpc\<close>: requests, responses and headers, routing, rewriting (\<open>proxy.rs\<close>,
    \<open>intercept.rs\<close>). \<open>Classify\<close> (\<open>classify.rs\<close>): the verdict on a transaction.
  \<^item> \<open>NymStatus\<close>, \<open>Correlator\<close>, \<open>NymHandle\<close>, \<open>Supervisor\<close>
    (\<open>nym.rs\<close>): what is published about the mixnet client, the loop that matches replies to
    callers, the side of a caller, and when a client is replaced. \<open>Hub\<close> (\<open>hub.rs\<close>):
    submission and lookup over either transport.
  \<^item> \<open>Upstream\<close> (the connection to the indexer and the accept loop, \<open>proxy.rs\<close>),
    \<open>Intercept\<close> (\<open>intercept.rs\<close>), \<open>Proxy\<close> (\<open>handle\<close> of \<open>proxy.rs\<close>:
    one request, and the requests of a connection in the order they take the shared state),
    \<open>Startup\<close> (\<open>config.rs\<close>, \<open>main.rs\<close>, the names of \<open>tls.rs\<close>), \<open>Tls\<close>
    (\<open>tls.rs\<close>, and what an accepted connection of \<open>proxy.rs\<close> is served),
    \<open>Driver\<close> (\<open>nym_driver.rs\<close>: the task that owns the mixnet client).

  How the parts interact in the model. \<open>Proxy.handle\<close> routes with \<open>route_for\<close>, forwards
  with \<open>pass_through\<close> of \<open>Upstream\<close>, and answers the two intercepted calls with
  \<open>send_transaction\<close> and \<open>get_transaction\<close> of \<open>Intercept\<close>. The first asks
  \<open>inspect\<close>, hence \<open>classify\<close>, hence \<open>read_transaction\<close>, and both go on to
  \<open>Hub\<close>, which calls the caller side \<open>NymHandle\<close>, whose frames are
  those of \<open>Wire\<close>. The loop \<open>run_transport\<close>, the supervisor and the driver are step
  functions of their own: one turn of a \<open>select!\<close> is one step taking the arm that fired, and a
  property of them holds over every list of arms, hence over every interleaving. The messages that
  pass between them are the events of the steps.

  Conventions. Machine integers are words where the code can wrap, and \<open>int\<close> or \<open>nat\<close>
  where the code checks (an amount is its \<open>i64\<close> as an \<open>int\<close>, with the checks written
  out). A \<open>Result\<close> is \<open>result\<close>; a panic is \<open>None\<close> of an option. A reader takes
  the bytes left and returns a value with the bytes after it. What the environment decides (when a
  connection opens, what a peer answers, which channel has room) is an argument, so a property that
  quantifies over it holds for every behaviour of it. Logging is left out throughout.

  Loops. All definitions are total. Loops over data are structural. The Merkle root loops are
  \<open>while_option\<close>, with the theorem that they end; the gateway rotation and the nonce search
  are bounded by what they range over, as in the code. Three functions have fuel: the next power of
  two and the check of UTF-8, whose fuel is the size of their argument, and the mining loop, which
  waits for the world outside and is shown to end with as much fuel as the world lets it ask
  questions (\<open>Solver\<close>). Sizes that the code does not check have bounds as hypotheses: a history
  tree has fewer than \<open>2 ^ 28\<close> leaves (heights stay below \<open>2 ^ 31\<close>, an epoch is far shorter),
  note trees are at most 32 deep, times are within \<open>2 ^ 41\<close> seconds.

  Parameters. Code that is not in this repository is an argument: the record \<open>crypto\<close>
  (decoding of points, field elements and keys, the \<open>push_num\<close> of \<open>zcash_script\<close>, the reader of
  librustzcash), \<open>hashing\<close> and \<open>auth_hashing\<close> (SHA-256, BLAKE2b, ZIP-244),
  \<open>u256_ops\<close> (the uint crate), \<open>ceiling\<close> (num-integer), \<open>libs\<close> (protobuf,
  JSON, header values, host names), \<open>address_ops\<close> (Base58Check and Bech32), \<open>param_libs\<close>
  (what parameters need of these, and the embedded checkpoint files), \<open>history_ops\<close> and
  \<open>frontier_ops\<close> (the trees of \<open>zcash_history\<close> and \<open>incrementalmerkletree\<close>),
  \<open>tree_hashing\<close>, \<open>chrono_ops\<close>, \<open>sighash_libs\<close>, \<open>receiver_libs\<close>,
  \<open>decryption_libs\<close> (librustzcash), \<open>equihash_libs\<close>, \<open>pallas\<close>, \<open>jubjub\<close> and
  \<open>sapling_values\<close> (the curves, over an abelian group of points and a commutative ring of scalars), and the records ending in \<open>_env\<close>
  or \<open>_world\<close> (what a connection, a hub or a client does during one call). Where a property relies
  on such code, the hypothesis is named and states its documented behaviour:
  \<^item> \<open>push_num_bip34\<close>: a coinbase height is written as in BIP 34;
    \<open>hashing_ok\<close>: digests have 32 bytes;
  \<^item> \<open>accepts_printable\<close>: a header value is made from printable ASCII;
    \<open>collects\<close>: collecting a body gives its bytes;
  \<^item> \<open>uint_documented\<close>, \<open>ceiling_documented\<close>: 256-bit arithmetic and division
    rounding up;
  \<^item> \<open>address_ops_documented\<close>, \<open>hex32_documented\<close>, \<open>hex_documented\<close>: text that was
    encoded is decoded to the same bytes; \<open>regular_halvings\<close>: Blossom comes after the slow
    start shift and no later than the first halving;
  \<^item> \<open>history_documented\<close>, \<open>frontier_documented\<close>: appending to the library's trees is
    appending to the list they stand for; \<open>chrono_documented\<close>: times are counted in nanoseconds;
    \<open>sighash_documented\<close>, \<open>equihash_documented\<close>: when these calls succeed;
    \<open>stops_within\<close>: mining is cancelled at some time; \<open>pallas_laws\<close>,
    \<open>sapling_values_laws\<close>: encodings of points are read back, multiplication by scalars distributes,
    and the value base has an order of more than 250 bits;
  \<^item> \<open>fresh_requests\<close>: the random nonces of the requests in flight differ;
    \<open>inputs_known\<close>: the spent outputs handed to a block are those of its inputs.
  No property assumes that a hash function has no collisions: the ones about hashes conclude that
  otherwise two of the strings hashed for the blocks or lists at hand collide.

  The lemmas. Each theory gives the invariant of its state and that every operation keeps it, the
  behaviour of each operation on each branch, then its properties. Those to read first: nothing
  with Orchard actions, and no lookup, reaches the operator (\<open>Proxy\<close>); a diverted submission
  fails closed, and success on the mixnet means only that the transport took it (\<open>Intercept\<close>); what passes is a whole transaction without Orchard actions
  (\<open>Classify\<close>), by a parser whose encodings are canonical (\<open>TxParse\<close>); frames have one
  size whatever they carry (\<open>Wire\<close>, \<open>Hub\<close>); replies reach their caller only
  (\<open>Correlator\<close>); the mixnet driver refines a lossy link (\<open>Driver\<close>).

  Not modelled, with the reason.
  \<^item> Input and output and the libraries around it: HTTP/2 framing, the inside of TLS handshakes
    and of ACME, command line parsing, signals, logging, memory hygiene.
  \<^item> The inside of the mixnet SDK, of protobuf and of the cryptography: not in the repository.
  \<^item> Generated code (\<open>zaino-proto/src/proto\<close>), test vectors and test tools
    (\<open>zebra-test\<close>, \<open>tests\<close>, \<open>arbitrary.rs\<close>), benches and examples.
  \<^item> Of the chain library: what is glue over crates outside the repository (the
    \<open>serde\<close> helpers, the hashes of the curves, conversions that only wrap a value, operators
    on results that forward to those modelled), floating point figures for display, diagnostics, and
    the setters and mocks that only tests use. The remaining hexadecimal forms reverse bytes and
    call the \<open>hex\<close> crate as the modelled ones do.
\<close>

end
